(* ===== verification/Go_Prelude.thy ===== *)
theory Go_Prelude
  imports Main "HOL-Library.Word" "HOL-Library.Sublist" "HOL-Library.Multiset"
begin

text \<open>
  What the components share: errors and results as values, the error-and-state program
  type, the pieces of Go's \<open>strings\<close>, \<open>strconv\<close> and \<open>sort\<close> packages that the sources use,
  instants of \<open>time.Time\<close>, and the generic lemmas about them. Go strings are byte strings,
  so a \<^typ>\<open>char\<close> is one byte and a \<^typ>\<open>string\<close> is a list of bytes.
\<close>

named_theorems go_simps \<open>evaluation rules of the modelled Go library functions\<close>

section \<open>Errors, results and programs\<close>

text \<open>
  A Go \<open>error\<close>. Sentinels the sources compare with \<open>errors.Is\<close> are constructors of their
  own; \<open>ErrMsg\<close> is a \<open>fmt.Errorf\<close> with the text that identifies it and its arguments,
  \<open>ErrWrap\<close> is a \<open>fmt.Errorf\<close> with \<open>%w\<close>.
\<close>

datatype err =
    ErrNotFound
  | ErrNoSummary
  | ErrUnsupportedType string
  | ErrInsufficientSpace nat nat
  | ErrNoSuchAccount string
  | ErrMsg string "string list"
  | ErrWrap string err

fun err_root :: "err \<Rightarrow> err" where
  "err_root (ErrWrap _ e) = err_root e"
| "err_root e = e"

text \<open>\<open>errors.Is (err, nodestore.ErrNotFound)\<close>\<close>

definition is_not_found :: "err \<Rightarrow> bool" where
  "is_not_found e \<longleftrightarrow> err_root e = ErrNotFound"

type_synonym 'a res = "err + 'a"

definition res_bind :: "'a res \<Rightarrow> ('a \<Rightarrow> 'b res) \<Rightarrow> 'b res" where
  "res_bind m f = (case m of Inl e \<Rightarrow> Inl e | Inr a \<Rightarrow> f a)"

lemma res_bind_simps [simp]:
  "res_bind (Inl e) f = Inl e"
  "res_bind (Inr a) f = f a"
  by (simp_all add: res_bind_def)

lemma res_bind_eq_Inr: "res_bind m f = Inr b \<longleftrightarrow> (\<exists>a. m = Inr a \<and> f a = Inr b)"
  by (cases m) auto

lemma res_bind_eq_Inl: "res_bind m f = Inl e \<longleftrightarrow> m = Inl e \<or> (\<exists>a. m = Inr a \<and> f a = Inl e)"
  by (cases m) auto

lemma res_bind_assoc: "res_bind (res_bind m f) g = res_bind m (\<lambda>a. res_bind (f a) g)"
  by (cases m) auto

text \<open>A guard of the form \<open>if bad { return err }\<close>.\<close>

definition refuse_if :: "bool \<Rightarrow> err \<Rightarrow> unit res" where
  "refuse_if bad e = (if bad then Inl e else Inr ())"

lemma refuse_if_simps [simp]:
  "refuse_if True e = Inl e"
  "refuse_if False e = Inr ()"
  by (simp_all add: refuse_if_def)

lemma refuse_if_eq_Inr [simp]: "refuse_if b e = Inr u \<longleftrightarrow> \<not> b"
  by (simp add: refuse_if_def)

text \<open>
  A program threads a state and may fail; like the code, a failure keeps whatever the
  program had already changed.
\<close>

type_synonym ('s, 'a) prog = "'s \<Rightarrow> 'a res \<times> 's"

definition prog_return :: "'a \<Rightarrow> ('s, 'a) prog" where
  "prog_return a = (\<lambda>s. (Inr a, s))"

definition prog_fail :: "err \<Rightarrow> ('s, 'a) prog" where
  "prog_fail e = (\<lambda>s. (Inl e, s))"

definition prog_lift :: "'a res \<Rightarrow> ('s, 'a) prog" where
  "prog_lift r = (\<lambda>s. (r, s))"

definition prog_bind :: "('s, 'a) prog \<Rightarrow> ('a \<Rightarrow> ('s, 'b) prog) \<Rightarrow> ('s, 'b) prog" where
  "prog_bind m f = (\<lambda>s. case m s of (Inl e, s') \<Rightarrow> (Inl e, s') | (Inr a, s') \<Rightarrow> f a s')"

lemma prog_simps [simp]:
  "prog_return a s = (Inr a, s)"
  "prog_fail e s = (Inl e, s)"
  "prog_lift r s = (r, s)"
  by (simp_all add: prog_return_def prog_fail_def prog_lift_def)

lemma prog_bind_Inl: "m s = (Inl e, s') \<Longrightarrow> prog_bind m f s = (Inl e, s')"
  by (simp add: prog_bind_def)

lemma prog_bind_Inr: "m s = (Inr a, s') \<Longrightarrow> prog_bind m f s = f a s'"
  by (simp add: prog_bind_def)

lemmas prog_bind_step [simp] = prog_bind_Inl prog_bind_Inr

lemma prog_bind_eq_Inr:
  "prog_bind m f s = (Inr b, t) \<longleftrightarrow> (\<exists>a u. m s = (Inr a, u) \<and> f a u = (Inr b, t))"
  by (cases "m s"; cases "fst (m s)") (auto simp: prog_bind_def)

section \<open>Strings\<close>

definition has_prefix :: "string \<Rightarrow> string \<Rightarrow> bool" where
  "has_prefix s p \<longleftrightarrow> take (length p) s = p"

lemma has_prefix_iff: "has_prefix s p \<longleftrightarrow> (\<exists>t. s = p @ t)"
  by (metis append_eq_conv_conj append_take_drop_id has_prefix_def)

lemma has_prefix_append [simp]: "has_prefix (p @ t) p"
  by (simp add: has_prefix_def)

lemma has_prefix_Nil [simp]: "has_prefix s []"
  by (simp add: has_prefix_def)

lemma has_prefix_Cons [simp]:
  "has_prefix [] (c # p) \<longleftrightarrow> False"
  "has_prefix (d # s) (c # p) \<longleftrightarrow> d = c \<and> has_prefix s p"
  by (auto simp: has_prefix_def)

definition has_suffix :: "string \<Rightarrow> string \<Rightarrow> bool" where
  "has_suffix s p \<longleftrightarrow> has_prefix (rev s) (rev p)"

text \<open>\<open>strings.CutPrefix\<close>: the rest and true, or nothing.\<close>

definition cut_prefix :: "string \<Rightarrow> string \<Rightarrow> string option" where
  "cut_prefix s p = (if has_prefix s p then Some (drop (length p) s) else None)"

lemma cut_prefix_eq_Some: "cut_prefix s p = Some t \<longleftrightarrow> s = p @ t"
  by (auto simp: cut_prefix_def has_prefix_iff)

lemma cut_prefix_append [simp]: "cut_prefix (p @ t) p = Some t"
  by (simp add: cut_prefix_eq_Some)

definition trim_prefix :: "string \<Rightarrow> string \<Rightarrow> string" where
  "trim_prefix s p = (if has_prefix s p then drop (length p) s else s)"

lemma trim_prefix_append [simp]: "trim_prefix (p @ t) p = t"
  by (simp add: trim_prefix_def)

definition trim_suffix :: "string \<Rightarrow> string \<Rightarrow> string" where
  "trim_suffix s p = (if has_suffix s p then take (length s - length p) s else s)"

text \<open>\<open>strings.TrimLeft\<close>, \<open>TrimRight\<close> and \<open>Trim\<close> with a one-byte cutset.\<close>

definition trim_left :: "char \<Rightarrow> string \<Rightarrow> string" where
  "trim_left c s = dropWhile (\<lambda>x. x = c) s"

definition trim_right :: "char \<Rightarrow> string \<Rightarrow> string" where
  "trim_right c s = rev (dropWhile (\<lambda>x. x = c) (rev s))"

definition trim_both :: "char \<Rightarrow> string \<Rightarrow> string" where
  "trim_both c s = trim_right c (trim_left c s)"

text \<open>\<open>strings.Cut\<close> at a one-byte separator: before, after, found.\<close>

fun cut_at :: "char \<Rightarrow> string \<Rightarrow> string \<times> string \<times> bool" where
  "cut_at c [] = ([], [], False)"
| "cut_at c (x # xs) =
     (if x = c then ([], xs, True)
      else case cut_at c xs of (b, a, f) \<Rightarrow> (x # b, a, f))"

lemma cut_at_append: "c \<notin> set b \<Longrightarrow> cut_at c (b @ c # a) = (b, a, True)"
  by (induction b) auto

lemma cut_at_none: "c \<notin> set s \<Longrightarrow> cut_at c s = (s, [], False)"
  by (induction s) auto

lemma cut_at_True: "cut_at c s = (b, a, True) \<Longrightarrow> s = b @ c # a \<and> c \<notin> set b"
  by (induction s arbitrary: b) (auto split: if_splits prod.splits)

lemma cut_at_False: "cut_at c s = (b, a, False) \<Longrightarrow> b = s \<and> a = [] \<and> c \<notin> set s"
  by (induction s arbitrary: b) (auto split: if_splits prod.splits)

text \<open>\<open>strings.Split\<close> at a one-byte separator.\<close>

fun split_at :: "char \<Rightarrow> string \<Rightarrow> string list" where
  "split_at c [] = [[]]"
| "split_at c (x # xs) =
     (if x = c then [] # split_at c xs
      else case split_at c xs of [] \<Rightarrow> [[x]] | y # ys \<Rightarrow> (x # y) # ys)"

lemma split_at_not_Nil [simp]: "split_at c s \<noteq> []"
  by (induction s) (auto split: list.splits)

text \<open>\<open>strings.Join\<close>\<close>

fun join_with :: "string \<Rightarrow> string list \<Rightarrow> string" where
  "join_with sep [] = []"
| "join_with sep [x] = x"
| "join_with sep (x # y # ys) = x @ sep @ join_with sep (y # ys)"

lemma join_with_Cons: "ys \<noteq> [] \<Longrightarrow> join_with sep (x # ys) = x @ sep @ join_with sep ys"
  by (cases ys) auto

lemma join_split [simp]: "join_with [c] (split_at c s) = s"
proof (induction s)
  case (Cons x xs)
  then show ?case
    by (cases "split_at c xs"; cases "tl (split_at c xs)")
      (auto simp: join_with_Cons split: list.splits)
qed simp

lemma split_no_sep: "c \<notin> set s \<Longrightarrow> split_at c s = [s]"
  by (induction s) auto

lemma split_append: "c \<notin> set b \<Longrightarrow> split_at c (b @ c # a) = b # split_at c a"
  by (induction b) auto

lemma split_at_sep_free: "p \<in> set (split_at c s) \<Longrightarrow> c \<notin> set p"
  by (induction s arbitrary: p) (auto split: if_splits list.splits)

lemma split_join:
  "ps \<noteq> [] \<Longrightarrow> (\<And>p. p \<in> set ps \<Longrightarrow> c \<notin> set p) \<Longrightarrow> split_at c (join_with [c] ps) = ps"
proof (induction ps)
  case (Cons p ps)
  then show ?case
    by (cases ps) (auto simp: split_no_sep split_append)
qed simp

text \<open>\<open>strings.Contains\<close>\<close>

fun contains_str :: "string \<Rightarrow> string \<Rightarrow> bool" where
  "contains_str [] p \<longleftrightarrow> p = []"
| "contains_str (x # xs) p \<longleftrightarrow> has_prefix (x # xs) p \<or> contains_str xs p"

text \<open>\<open>strings.ReplaceAll\<close> of one byte by a string.\<close>

definition replace_byte :: "char \<Rightarrow> string \<Rightarrow> string \<Rightarrow> string" where
  "replace_byte c r s = concat (map (\<lambda>x. if x = c then r else [x]) s)"

lemma replace_byte_simps [simp]:
  "replace_byte c r [] = []"
  "replace_byte c r (x # s) = (if x = c then r else [x]) @ replace_byte c r s"
  by (simp_all add: replace_byte_def)

end
