(* ===== verification/Go_Library.thy ===== *)
theory Go_Library
  imports Go_Prelude
begin

text \<open>
  The parts of Go's \<open>strconv\<close>, \<open>unicode\<close>, \<open>path\<close>, \<open>sort\<close> and \<open>time\<close> packages that the
  modelled sources call, with their laws: decimal printing and reading, trimming of Unicode
  space, \<open>path.Clean\<close> on its segments, sorting by a less-than, instants.
\<close>

section \<open>Decimal numbers\<close>

definition digit_char :: "nat \<Rightarrow> char" where
  "digit_char d = char_of (48 + d)"

definition is_digit :: "char \<Rightarrow> bool" where
  "is_digit c \<longleftrightarrow> 48 \<le> (of_char c :: nat) \<and> (of_char c :: nat) \<le> 57"

definition digit_val :: "char \<Rightarrow> nat" where
  "digit_val c = of_char c - 48"

fun nat_str :: "nat \<Rightarrow> string" where
  "nat_str n = (if n < 10 then [digit_char n] else nat_str (n div 10) @ [digit_char (n mod 10)])"

declare nat_str.simps [simp del]

text \<open>\<open>strconv.Itoa\<close>\<close>

definition itoa :: "int \<Rightarrow> string" where
  "itoa i = (if i < 0 then CHR ''-'' # nat_str (nat (- i)) else nat_str (nat i))"

fun digits_val :: "nat \<Rightarrow> string \<Rightarrow> nat" where
  "digits_val acc [] = acc"
| "digits_val acc (c # cs) = digits_val (10 * acc + digit_val c) cs"

text \<open>\<open>strconv.ParseUint (s, 10, 64)\<close>\<close>

definition parse_uint :: "string \<Rightarrow> nat option" where
  "parse_uint s =
     (if s \<noteq> [] \<and> list_all is_digit s \<and> digits_val 0 s < 2 ^ 64
      then Some (digits_val 0 s) else None)"

text \<open>\<open>strconv.Atoi\<close> on a 64-bit platform: an optional sign, digits, the range of \<open>int\<close>.\<close>

definition atoi :: "string \<Rightarrow> int option" where
  "atoi s =
     (let neg = has_prefix s ''-'';
          body = (if has_prefix s ''-'' \<or> has_prefix s ''+'' then tl s else s)
      in if body = [] \<or> \<not> list_all is_digit body then None
         else let v = int (digits_val 0 body); i = (if neg then - v else v)
              in if - (2 ^ 63) \<le> i \<and> i < 2 ^ 63 then Some i else None)"

lemma of_char_digit: "d < 10 \<Longrightarrow> (of_char (digit_char d) :: nat) = 48 + d"
  by (simp add: digit_char_def)

lemma digit_char_props [simp]:
  "d < 10 \<Longrightarrow> is_digit (digit_char d)"
  "d < 10 \<Longrightarrow> digit_val (digit_char d) = d"
  by (simp_all add: is_digit_def digit_val_def of_char_digit)

lemma nat_str_not_Nil [simp]: "nat_str n \<noteq> []"
  by (subst nat_str.simps) simp

lemma nat_str_digits: "list_all is_digit (nat_str n)"
proof (induction n rule: nat_str.induct)
  case (1 n)
  then show ?case
    by (subst nat_str.simps) simp
qed

lemma digits_val_append: "digits_val a (xs @ ys) = digits_val (digits_val a xs) ys"
  by (induction xs arbitrary: a) auto

lemma digits_val_nat_str: "digits_val 0 (nat_str n) = n"
proof (induction n rule: nat_str.induct)
  case (1 n)
  then show ?case
    by (subst nat_str.simps) (simp add: digits_val_append)
qed

lemma parse_uint_nat_str: "n < 2 ^ 64 \<Longrightarrow> parse_uint (nat_str n) = Some n"
  by (simp add: parse_uint_def nat_str_digits digits_val_nat_str)

lemma parse_uint_bound: "parse_uint s = Some n \<Longrightarrow> n < 2 ^ 64"
  by (auto simp: parse_uint_def split: if_splits)

lemma digit_not_sign:
  "list_all is_digit s \<Longrightarrow> s \<noteq> [] \<Longrightarrow> \<not> has_prefix s ''-'' \<and> \<not> has_prefix s ''+''"
  by (cases s) (auto simp: is_digit_def)

lemma atoi_itoa: "- (2 ^ 63) \<le> i \<Longrightarrow> i < 2 ^ 63 \<Longrightarrow> atoi (itoa i) = Some i"
  using digit_not_sign [OF nat_str_digits nat_str_not_Nil, of "nat i"]
  by (auto simp: atoi_def itoa_def nat_str_digits digits_val_nat_str Let_def)

section \<open>Unicode white space\<close>

text \<open>
  The UTF-8 encodings of the code points for which \<open>unicode.IsSpace\<close> holds. UTF-8 is self
  synchronising, so a string starts (ends) with such a code point exactly when it starts
  (ends) with one of these byte sequences.
\<close>

definition space_seqs :: "string list" where
  "space_seqs =
     [[CHR 0x09], [CHR 0x0A], [CHR 0x0B], [CHR 0x0C], [CHR 0x0D], [CHR 0x20], [CHR 0xC2, CHR 0x85],
      [CHR 0xC2, CHR 0xA0], [CHR 0xE1, CHR 0x9A, CHR 0x80], [CHR 0xE2, CHR 0x80, CHR 0x80],
      [CHR 0xE2, CHR 0x80, CHR 0x81], [CHR 0xE2, CHR 0x80, CHR 0x82], [CHR 0xE2, CHR 0x80, CHR 0x83],
      [CHR 0xE2, CHR 0x80, CHR 0x84], [CHR 0xE2, CHR 0x80, CHR 0x85], [CHR 0xE2, CHR 0x80, CHR 0x86],
      [CHR 0xE2, CHR 0x80, CHR 0x87], [CHR 0xE2, CHR 0x80, CHR 0x88], [CHR 0xE2, CHR 0x80, CHR 0x89],
      [CHR 0xE2, CHR 0x80, CHR 0x8A], [CHR 0xE2, CHR 0x80, CHR 0xA8], [CHR 0xE2, CHR 0x80, CHR 0xA9],
      [CHR 0xE2, CHR 0x80, CHR 0xAF], [CHR 0xE2, CHR 0x81, CHR 0x9F], [CHR 0xE3, CHR 0x80, CHR 0x80]]"

text \<open>The length of the white space a string starts with, 0 for none.\<close>

fun space_len :: "string list \<Rightarrow> string \<Rightarrow> nat" where
  "space_len [] s = 0"
| "space_len (w # ws) s = (if has_prefix s w then length w else space_len ws s)"

lemma space_len_le: "space_len ws s \<le> length s"
  by (induction ws) (auto simp: has_prefix_iff)

function trim_seqs :: "string list \<Rightarrow> string \<Rightarrow> string" where
  "trim_seqs ws s = (if space_len ws s = 0 then s else trim_seqs ws (drop (space_len ws s) s))"
  by pat_completeness auto
termination
proof (relation "measure (\<lambda>(ws, s). length s)")
  fix ws s assume "space_len ws s \<noteq> 0"
  then show "((ws, drop (space_len ws s) s), ws, s) \<in> measure (\<lambda>(ws, s). length s)"
    using space_len_le [of ws s] by simp
qed simp

declare trim_seqs.simps [simp del]

text \<open>\<open>strings.TrimSpace\<close> and \<open>bytes.TrimSpace\<close>\<close>

definition trim_space :: "string \<Rightarrow> string" where
  "trim_space s = rev (trim_seqs (map rev space_seqs) (rev (trim_seqs space_seqs s)))"

lemma trim_seqs_suffix: "\<exists>p. s = p @ trim_seqs ws s"
proof (induction ws s rule: trim_seqs.induct)
  case (1 ws s)
  show ?case
  proof (cases "space_len ws s = 0")
    case True
    then have "s = [] @ trim_seqs ws s" by (simp add: trim_seqs.simps [of ws s])
    then show ?thesis by blast
  next
    case False
    then obtain p where "drop (space_len ws s) s = p @ trim_seqs ws (drop (space_len ws s) s)"
      using "1.IH" by blast
    then have "s = (take (space_len ws s) s @ p) @ trim_seqs ws s"
      using False by (subst trim_seqs.simps) (metis append.assoc append_take_drop_id)
    then show ?thesis by blast
  qed
qed

lemma set_trim_seqs: "set (trim_seqs ws s) \<subseteq> set s"
  using trim_seqs_suffix [of s ws] by (metis Un_upper2 set_append)

lemma set_trim_space: "set (trim_space s) \<subseteq> set s"
  using set_trim_seqs [of "map rev space_seqs" "rev (trim_seqs space_seqs s)"]
    set_trim_seqs [of space_seqs s]
  by (auto simp: trim_space_def)

text \<open>\<open>strings.Fields\<close>: the maximal runs of bytes that are not white space.\<close>

function str_fields_from :: "string \<Rightarrow> string \<Rightarrow> string list" where
  "str_fields_from cur s =
     (if s = [] then (if cur = [] then [] else [rev cur])
      else if space_len space_seqs s = 0 then str_fields_from (hd s # cur) (tl s)
      else (if cur = [] then [] else [rev cur]) @ str_fields_from [] (drop (space_len space_seqs s) s))"
  by pat_completeness auto
termination
  by (relation "measure (\<lambda>(cur, s). length s)") auto

declare str_fields_from.simps [simp del]

definition str_fields :: "string \<Rightarrow> string list" where
  "str_fields s = str_fields_from [] s"

section \<open>\<open>path.Clean\<close>\<close>

text \<open>
  \<open>path.Clean\<close> works on the slash-separated segments: it drops empty and \<open>.\<close> segments and
  lets \<open>..\<close> remove the segment before it; at the root \<open>..\<close> disappears, in a relative path
  leading \<open>..\<close> segments stay. The accumulator is the output in reverse.
\<close>

fun clean_segs :: "bool \<Rightarrow> string list \<Rightarrow> string list \<Rightarrow> string list" where
  "clean_segs rooted out [] = rev out"
| "clean_segs rooted out (g # gs) =
     (if g = [] \<or> g = ''.'' then clean_segs rooted out gs
      else if g = ''..'' then
        (case out of
           [] \<Rightarrow> clean_segs rooted (if rooted then [] else [''..'']) gs
         | o1 # os \<Rightarrow> if o1 = ''..'' then clean_segs rooted (''..'' # out) gs
                     else clean_segs rooted os gs)
      else clean_segs rooted (g # out) gs)"

definition path_clean :: "string \<Rightarrow> string" where
  "path_clean p =
     (let rooted = has_prefix p ''/''; out = join_with ''/'' (clean_segs rooted [] (split_at CHR ''/'' p))
      in if rooted then CHR ''/'' # out else if out = [] then ''.'' else out)"

text \<open>A segment list is clean when nothing in it would be rewritten.\<close>

definition plain_seg :: "string \<Rightarrow> bool" where
  "plain_seg g \<longleftrightarrow> g \<noteq> [] \<and> g \<noteq> ''.'' \<and> g \<noteq> ''..'' \<and> CHR ''/'' \<notin> set g"

lemma clean_segs_plain:
  "list_all plain_seg gs \<Longrightarrow> clean_segs rooted out gs = rev out @ gs"
  by (induction gs arbitrary: out) (auto simp: plain_seg_def)

lemma clean_segs_rooted_plain:
  "list_all plain_seg out \<Longrightarrow> \<forall>g \<in> set gs. CHR ''/'' \<notin> set g \<Longrightarrow>
     list_all plain_seg (clean_segs True out gs)"
proof (induction gs arbitrary: out)
  case (Cons g gs)
  then show ?case
    by (cases out) (auto simp: plain_seg_def)
qed (simp add: list_all_rev)

text \<open>In a relative path every \<open>..\<close> that survives is at the front.\<close>

definition dots_first :: "string list \<Rightarrow> bool" where
  "dots_first gs \<longleftrightarrow> (\<exists>n ps. gs = replicate n ''..'' @ ps \<and> list_all plain_seg ps)"

lemma dots_first_Cons_plain: "plain_seg g \<Longrightarrow> dots_first out \<Longrightarrow> dots_first (out @ [g])"
  unfolding dots_first_def by (metis append.assoc list_all_append list.pred_inject)

lemma dots_first_push:
  assumes "dots_first (rev out)" "out = [] \<or> hd out = ''..''"
  shows "dots_first (rev (''..'' # out))"
proof -
  from assms(1) obtain n ps where out: "rev out = replicate n ''..'' @ ps" "list_all plain_seg ps"
    unfolding dots_first_def by blast
  have "ps = []"
  proof (rule ccontr)
    assume "ps \<noteq> []"
    then have "hd out = last ps" "out \<noteq> []"
      using out(1) by (metis append_is_Nil_conv hd_rev last_appendR rev_is_Nil_conv rev_rev_ident)+
    with assms(2) out(2) \<open>ps \<noteq> []\<close> show False
      by (metis last_in_set list_all_iff plain_seg_def)
  qed
  with out(1) have "rev (''..'' # out) = replicate (Suc n) ''..'' @ []"
    by (simp add: replicate_append_same)
  then show ?thesis unfolding dots_first_def by fastforce
qed

lemma dots_first_pop:
  assumes "dots_first (rev (g # out))" "g \<noteq> ''..''"
  shows "dots_first (rev out)"
proof -
  from assms(1) obtain n ps where eq: "rev out @ [g] = replicate n ''..'' @ ps" and
    pl: "list_all plain_seg ps"
    unfolding dots_first_def by auto
  show ?thesis
  proof (cases ps rule: rev_cases)
    case Nil
    with eq assms(2) show ?thesis
      by (metis append_Nil2 in_set_replicate last_in_set last_snoc snoc_eq_iff_butlast)
  next
    case (snoc qs q)
    with eq pl show ?thesis
      unfolding dots_first_def by fastforce
  qed
qed

lemma clean_segs_relative:
  "dots_first (rev out) \<Longrightarrow> \<forall>g \<in> set gs. CHR ''/'' \<notin> set g \<Longrightarrow>
     dots_first (clean_segs False out gs)"
proof (induction gs arbitrary: out)
  case (Cons g gs)
  consider "g = [] \<or> g = ''.''" | "g = ''..''" "out = [] \<or> hd out = ''..''"
    | "g = ''..''" "out \<noteq> []" "hd out \<noteq> ''..''" | "plain_seg g"
    using Cons.prems(2) by (auto simp: plain_seg_def)
  then show ?case
  proof cases
    case 1
    with Cons show ?thesis by auto
  next
    case 2
    then have "clean_segs False out (g # gs) = clean_segs False (''..'' # out) gs"
      by (cases out) auto
    with Cons.IH [of "''..'' # out"] dots_first_push [OF Cons.prems(1) 2(2)] Cons.prems(2)
    show ?thesis by auto
  next
    case 3
    then obtain o1 os where out: "out = o1 # os" "o1 \<noteq> ''..''"
      by (cases out) auto
    with Cons.IH [of os] dots_first_pop [of o1 os] Cons.prems 3 show ?thesis by auto
  next
    case 4
    with Cons.IH [of "g # out"] dots_first_Cons_plain [OF 4 Cons.prems(1)] Cons.prems(2)
    show ?thesis by (auto simp: plain_seg_def)
  qed
qed simp

section \<open>A directory and what is in it\<close>

definition lies_under :: "string \<Rightarrow> string \<Rightarrow> bool" where
  "lies_under dir path \<longleftrightarrow> path = dir \<or> has_prefix path (dir @ ''/'')"

definition below_part :: "string \<Rightarrow> bool" where
  "below_part rest \<longleftrightarrow> rest = [] \<or> hd rest = CHR ''/''"

lemma lies_under_iff: "lies_under dir path \<longleftrightarrow> (\<exists>rest. path = dir @ rest \<and> below_part rest)"
proof
  assume "lies_under dir path"
  then consider "path = dir @ []" | rest where "path = dir @ (CHR ''/'' # rest)"
    by (auto simp: lies_under_def has_prefix_iff)
  then show "\<exists>rest. path = dir @ rest \<and> below_part rest"
    by cases (auto simp: below_part_def intro: exI [of _ "CHR ''/'' # _"])
next
  assume "\<exists>rest. path = dir @ rest \<and> below_part rest"
  then obtain rest where "path = dir @ rest" "below_part rest" by blast
  then show "lies_under dir path"
    by (cases rest) (auto simp: lies_under_def below_part_def has_prefix_iff)
qed

section \<open>Sorting\<close>

text \<open>
  \<open>sort.Slice\<close> with a less-than. Where the less-than leaves two elements in either order
  (ties) Go fixes no order; the model keeps them as they were. \<open>go_sort\<close> needs only the
  less-than the source writes.
\<close>

fun go_insert :: "('a \<Rightarrow> 'a \<Rightarrow> bool) \<Rightarrow> 'a \<Rightarrow> 'a list \<Rightarrow> 'a list" where
  "go_insert lt x [] = [x]"
| "go_insert lt x (y # ys) = (if lt y x then y # go_insert lt x ys else x # y # ys)"

fun go_sort :: "('a \<Rightarrow> 'a \<Rightarrow> bool) \<Rightarrow> 'a list \<Rightarrow> 'a list" where
  "go_sort lt [] = []"
| "go_sort lt (x # xs) = go_insert lt x (go_sort lt xs)"

lemma mset_go_insert [simp]: "mset (go_insert lt x xs) = add_mset x (mset xs)"
  by (induction xs) auto

lemma mset_go_sort [simp]: "mset (go_sort lt xs) = mset xs"
  by (induction xs) auto

lemma set_go_sort [simp]: "set (go_sort lt xs) = set xs"
  using mset_go_sort by (metis set_mset_mset)

lemma length_go_sort [simp]: "length (go_sort lt xs) = length xs"
  using mset_go_sort by (metis size_mset)

lemma distinct_go_sort [simp]: "distinct (go_sort lt xs) = distinct xs"
  using mset_go_sort by (metis mset_eq_imp_distinct_iff)

lemma set_go_insert [simp]: "set (go_insert lt x xs) = insert x (set xs)"
  by (induction xs) auto

text \<open>
  What every less-than here is: a comparison of keys in a strict weak order. Then no element
  of the sorted list is less than one before it.
\<close>

locale strict_weak =
  fixes lt :: "'a \<Rightarrow> 'a \<Rightarrow> bool"
  assumes asym: "lt a b \<Longrightarrow> \<not> lt b a"
    and cotrans: "lt a c \<Longrightarrow> lt a b \<or> lt b c"
begin

lemma sorted_go_insert:
  "sorted_wrt (\<lambda>a b. \<not> lt b a) xs \<Longrightarrow> sorted_wrt (\<lambda>a b. \<not> lt b a) (go_insert lt x xs)"
  by (induction xs) (auto dest: asym cotrans)

lemma sorted_go_sort: "sorted_wrt (\<lambda>a b. \<not> lt b a) (go_sort lt xs)"
  by (induction xs) (auto intro: sorted_go_insert)

end

text \<open>\<open>sort.Strings\<close>: byte-wise lexicographic order.\<close>

fun str_less :: "string \<Rightarrow> string \<Rightarrow> bool" where
  "str_less _ [] = False"
| "str_less [] (_ # _) = True"
| "str_less (a # as) (b # bs) =
     ((of_char a :: nat) < of_char b \<or> a = b \<and> str_less as bs)"

lemma str_less_irrefl [simp]: "\<not> str_less s s"
  by (induction s) auto

lemma str_less_trans: "str_less a b \<Longrightarrow> str_less b c \<Longrightarrow> str_less a c"
proof (induction a c arbitrary: b rule: str_less.induct)
  case (3 x as y cs)
  then show ?case by (cases b) auto
qed (auto elim: str_less.elims)

lemma str_less_linear: "str_less a b \<or> a = b \<or> str_less b a"
proof (induction a b rule: str_less.induct)
  case (3 a as b bs)
  have "(of_char a :: nat) < of_char b \<or> a = b \<or> (of_char b :: nat) < of_char a"
    by (metis linorder_less_linear of_char_eq_iff)
  with 3 show ?case by auto
next
  case (1 a) then show ?case by (cases a) auto
qed auto

lemma str_less_asym: "str_less a b \<Longrightarrow> \<not> str_less b a"
  using str_less_trans str_less_irrefl by blast

interpretation str_order: strict_weak str_less
  by unfold_locales (blast dest: str_less_asym, metis str_less_linear str_less_trans)

definition sort_strings :: "string list \<Rightarrow> string list" where
  "sort_strings = go_sort str_less"

lemma set_sort_strings [simp]: "set (sort_strings xs) = set xs"
  by (simp add: sort_strings_def)

lemma length_sort_strings [simp]: "length (sort_strings xs) = length xs"
  by (simp add: sort_strings_def)

lemma distinct_sort_strings [simp]: "distinct (sort_strings xs) = distinct xs"
  by (simp add: sort_strings_def)

section \<open>Bytes in a range\<close>

definition char_in :: "char \<Rightarrow> char \<Rightarrow> char \<Rightarrow> bool" where
  "char_in lo hi c \<longleftrightarrow> (of_char lo :: nat) \<le> of_char c \<and> (of_char c :: nat) \<le> of_char hi"

section \<open>Instants\<close>

text \<open>
  A \<open>time.Time\<close> in UTC is the number of nanoseconds since the zero time, a \<open>*time.Time\<close> an
  optional one; \<open>IsZero\<close>, \<open>Before\<close> and \<open>After\<close> are comparisons. \<open>Sub\<close> saturates at the ends
  of a 64-bit \<open>Duration\<close>.
\<close>

type_synonym instant = int
type_synonym duration = int

definition zero_time :: instant where "zero_time = 0"

definition is_zero :: "instant \<Rightarrow> bool" where "is_zero t \<longleftrightarrow> t = zero_time"

definition max_duration :: duration where "max_duration = 2 ^ 63 - 1"
definition min_duration :: duration where "min_duration = - (2 ^ 63)"

definition time_sub :: "instant \<Rightarrow> instant \<Rightarrow> duration" where
  "time_sub t u = max min_duration (min max_duration (t - u))"

definition hour :: duration where "hour = 3600000000000"

lemma time_sub_less_hours: "0 \<le> h \<Longrightarrow> h < 2000 \<Longrightarrow> time_sub t u < h * hour \<longleftrightarrow> t - u < h * hour"
  by (auto simp: time_sub_def max_duration_def min_duration_def hour_def)

lemma time_sub_le_hours: "0 \<le> h \<Longrightarrow> h < 2000 \<Longrightarrow> h * hour < time_sub t u \<longleftrightarrow> h * hour < t - u"
  by (auto simp: time_sub_def max_duration_def min_duration_def hour_def)

end
