(* ===== verification/Jobs.thy ===== *)
theory Jobs
  imports Go_Library
begin

text \<open>
  \<open>internal/job/job.go\<close>: the status of a job and of its per-repository targets, and the
  rollup of the second into the first. Both statuses are Go strings; a string that is none of
  the declared constants is the \<open>Other\<close> constructor, which every \<open>switch\<close> treats as its
  default.
\<close>

datatype job_status =
    StatusPending | StatusRunning | StatusSuccess | StatusPartialSuccess
  | StatusFailed | StatusCancelled | StatusOther string

datatype target_status =
    TargetPending | TargetRunning | TargetSuccess | TargetFailed | TargetSkipped
  | TargetOther string

record target_result =
  tr_repository_id :: string
  tr_status :: target_status
  tr_snapshot_id :: string
  tr_bytes_added :: "64 word"
  tr_bytes_processed :: "64 word"
  tr_duration :: duration
  tr_attempt :: int
  tr_incomplete :: bool
  tr_err :: string

text \<open>The counters of the loop in \<open>Rollup\<close>.\<close>

record tally =
  succeeded :: nat
  failed :: nat
  unfinished :: nat

fun count_target :: "target_result \<Rightarrow> tally \<Rightarrow> tally" where
  "count_target t c =
     (case tr_status t of
        TargetSuccess \<Rightarrow> (if tr_incomplete t then c\<lparr>failed := failed c + 1\<rparr>
                          else c\<lparr>succeeded := succeeded c + 1\<rparr>)
      | TargetFailed \<Rightarrow> c\<lparr>failed := failed c + 1\<rparr>
      | TargetPending \<Rightarrow> c\<lparr>unfinished := unfinished c + 1\<rparr>
      | TargetRunning \<Rightarrow> c\<lparr>unfinished := unfinished c + 1\<rparr>
      | TargetSkipped \<Rightarrow> c
      | TargetOther _ \<Rightarrow> c)"

definition tally_targets :: "target_result list \<Rightarrow> tally" where
  "tally_targets ts = fold count_target ts \<lparr>succeeded = 0, failed = 0, unfinished = 0\<rparr>"

definition rollup :: "target_result list \<Rightarrow> job_status" where
  "rollup ts =
     (if ts = [] then StatusFailed
      else let c = tally_targets ts in
        if unfinished c > 0 then StatusRunning
        else if succeeded c > 0 \<and> failed c > 0 then StatusPartialSuccess
        else if succeeded c > 0 then StatusSuccess
        else StatusFailed)"

fun terminal :: "job_status \<Rightarrow> bool" where
  "terminal StatusSuccess = True"
| "terminal StatusPartialSuccess = True"
| "terminal StatusFailed = True"
| "terminal StatusCancelled = True"
| "terminal _ = False"

section \<open>What a target amounts to\<close>

definition good_copy :: "target_result \<Rightarrow> bool" where
  "good_copy t \<longleftrightarrow> tr_status t = TargetSuccess \<and> \<not> tr_incomplete t"

definition bad_copy :: "target_result \<Rightarrow> bool" where
  "bad_copy t \<longleftrightarrow> tr_status t = TargetFailed \<or> tr_status t = TargetSuccess \<and> tr_incomplete t"

definition open_target :: "target_result \<Rightarrow> bool" where
  "open_target t \<longleftrightarrow> tr_status t = TargetPending \<or> tr_status t = TargetRunning"

lemmas target_kinds = good_copy_def bad_copy_def open_target_def

lemma tally_fold:
  "fold count_target ts c =
     \<lparr>succeeded = succeeded c + length (filter good_copy ts),
      failed = failed c + length (filter bad_copy ts),
      unfinished = unfinished c + length (filter open_target ts)\<rparr>"
  by (induction ts arbitrary: c) (auto simp: target_kinds split: target_status.splits)

lemma tally_targets_eq:
  "tally_targets ts =
     \<lparr>succeeded = length (filter good_copy ts), failed = length (filter bad_copy ts),
      unfinished = length (filter open_target ts)\<rparr>"
  by (simp add: tally_targets_def tally_fold)

lemmas rollup_unfold = rollup_def tally_targets_eq Let_def filter_empty_conv

text \<open>
  A job is a success exactly when no target is still open, at least one repository holds
  a complete copy, and no target failed or came back with unreadable files: neither an empty
  list of targets, nor targets that were all skipped, nor an incomplete snapshot ever reads
  as success.
\<close>

theorem rollup_success_iff:
  "rollup ts = StatusSuccess \<longleftrightarrow>
     (\<exists>t \<in> set ts. good_copy t) \<and> \<not> (\<exists>t \<in> set ts. bad_copy t) \<and> \<not> (\<exists>t \<in> set ts. open_target t)"
  by (cases ts) (auto simp: rollup_unfold)

lemma rollup_partial_iff:
  "rollup ts = StatusPartialSuccess \<longleftrightarrow>
     (\<exists>t \<in> set ts. good_copy t) \<and> (\<exists>t \<in> set ts. bad_copy t) \<and> \<not> (\<exists>t \<in> set ts. open_target t)"
  by (cases ts) (auto simp: rollup_unfold)

lemma rollup_running_iff: "rollup ts = StatusRunning \<longleftrightarrow> (\<exists>t \<in> set ts. open_target t)"
  by (cases ts) (auto simp: rollup_unfold)

lemma rollup_failed_iff:
  "rollup ts = StatusFailed \<longleftrightarrow>
     \<not> (\<exists>t \<in> set ts. good_copy t) \<and> \<not> (\<exists>t \<in> set ts. open_target t)"
  by (cases ts) (auto simp: rollup_unfold)

text \<open>
  The job stops exactly when its targets do: the rolled-up status is terminal if and only
  if no target is pending or running.
\<close>

theorem rollup_terminal_iff: "terminal (rollup ts) \<longleftrightarrow> \<not> (\<exists>t \<in> set ts. open_target t)"
  by (cases ts) (auto simp: rollup_unfold)

text \<open>The order in which repositories report does not change the outcome.\<close>

lemma rollup_order_free:
  assumes "mset ts = mset us"
  shows "rollup ts = rollup us"
proof -
  from assms have "length (filter P ts) = length (filter P us)" for P
    by (metis mset_filter size_mset)
  moreover from assms have "ts = [] \<longleftrightarrow> us = []"
    by (metis mset_zero_iff)
  ultimately show ?thesis by (simp add: rollup_def tally_targets_eq)
qed

end
