(* ===== verification/Restic_Output.thy ===== *)
theory Restic_Output
  imports Go_Library
begin

text \<open>
  What comes back from a restic process: the capturing writers and the classification of the
  process result in \<open>internal/resticrun/command.go\<close>, exit codes and error summaries in
  \<open>summary.go\<close>, and the search for the last message of a type in a stream of JSON lines
  (\<open>lastMessage\<close> in \<open>restore.go\<close>). Decoding one JSON line is a parameter: a probe that reads
  the message type, and a decoder that, like \<open>json.Unmarshal\<close> into an existing variable, gets
  the previous value.
\<close>

section \<open>Capturing output\<close>

record command_result =
  cr_stdout :: string
  cr_stderr :: string
  cr_exit_code :: int
  cr_truncated :: bool

record capped_writer =
  cw_buf :: string
  cw_limit :: int
  cw_dropped :: bool

text \<open>\<open>cappedWriter.Write\<close>: the new writer and the count it reports.\<close>

definition capped_write :: "capped_writer \<Rightarrow> string \<Rightarrow> capped_writer \<times> nat" where
  "capped_write w p =
     (let remaining = cw_limit w - int (length (cw_buf w)) in
      (if remaining \<le> 0 then w\<lparr>cw_dropped := True\<rparr>
       else if int (length p) > remaining
         then w\<lparr>cw_buf := cw_buf w @ take (nat remaining) p, cw_dropped := True\<rparr>
       else w\<lparr>cw_buf := cw_buf w @ p\<rparr>,
       length p))"

definition capped_write_all :: "capped_writer \<Rightarrow> string list \<Rightarrow> capped_writer" where
  "capped_write_all w ps = fold (\<lambda>p w. fst (capped_write w p)) ps w"

text \<open>The invariant of the writer: what it holds is the start of what was written to it.\<close>

definition captured :: "capped_writer \<Rightarrow> string \<Rightarrow> bool" where
  "captured w s \<longleftrightarrow> cw_buf w = take (nat (cw_limit w)) s
     \<and> (cw_dropped w \<longleftrightarrow> int (length s) > cw_limit w)"

lemma capped_write_step:
  assumes "captured w s" "0 < cw_limit w" "p \<noteq> []"
  shows "captured (fst (capped_write w p)) (s @ p)" "cw_limit (fst (capped_write w p)) = cw_limit w"
proof -
  show "cw_limit (fst (capped_write w p)) = cw_limit w"
    by (simp add: capped_write_def Let_def)
  from assms(1) have buf: "cw_buf w = take (nat (cw_limit w)) s"
    and dr: "cw_dropped w \<longleftrightarrow> int (length s) > cw_limit w"
    by (auto simp: captured_def)
  from assms(3) have p: "0 < length p" by simp
  consider "int (length s) \<ge> cw_limit w"
    | "int (length s) < cw_limit w" "int (length s + length p) > cw_limit w"
    | "int (length s + length p) \<le> cw_limit w"
    by fastforce
  then show "captured (fst (capped_write w p)) (s @ p)"
  proof cases
    case 1
    with p have "int (length s) + int (length p) > cw_limit w" by linarith
    with 1 assms(2) show ?thesis
      by (auto simp: captured_def capped_write_def buf Let_def)
  next
    case 2
    then have "nat (cw_limit w - int (length s)) = nat (cw_limit w) - length s" by simp
    with 2 show ?thesis
      by (auto simp: captured_def capped_write_def buf Let_def)
  next
    case 3
    with p have "int (length s) < cw_limit w" by linarith
    with 3 dr show ?thesis
      by (auto simp: captured_def capped_write_def buf Let_def)
  qed
qed

lemma captured_write_all:
  "captured w s \<Longrightarrow> 0 < cw_limit w \<Longrightarrow> [] \<notin> set ps \<Longrightarrow>
     captured (capped_write_all w ps) (s @ concat ps) \<and> cw_limit (capped_write_all w ps) = cw_limit w"
proof (induction ps arbitrary: w s)
  case (Cons p ps)
  note step = capped_write_step [OF Cons.prems(1,2), of p]
  from Cons.prems(3) have "p \<noteq> []" by auto
  with Cons.IH [OF step(1)] Cons.prems step(2) show ?case
    by (auto simp: capped_write_all_def)
qed (simp add: capped_write_all_def)

text \<open>
  C0. Capturing a process's output under a limit keeps exactly the first \<open>limit\<close> bytes it
  wrote, however the output was split into writes, and the truncation mark is set if and only
  if something was lost. A caller that checks the mark never takes a cut-off answer for a
  complete one.
\<close>

theorem capture_exact:
  assumes "0 < limit" "[] \<notin> set ps"
  shows "capped_write_all \<lparr>cw_buf = [], cw_limit = limit, cw_dropped = False\<rparr> ps =
     \<lparr>cw_buf = take (nat limit) (concat ps), cw_limit = limit,
      cw_dropped = (int (length (concat ps)) > limit)\<rparr>"
proof -
  let ?w = "\<lparr>cw_buf = [], cw_limit = limit, cw_dropped = False\<rparr>"
  have "captured ?w []" using assms(1) by (simp add: captured_def)
  from captured_write_all [OF this _ assms(2)] assms(1)
  show ?thesis
    by (cases "capped_write_all ?w ps") (auto simp: captured_def)
qed

theorem capture_exact_witness:
  "capped_write_all \<lparr>cw_buf = [], cw_limit = 3, cw_dropped = False\<rparr> [''ab'', ''cd''] =
     \<lparr>cw_buf = ''abc'', cw_limit = 3, cw_dropped = True\<rparr>"
  using capture_exact [of 3 "[''ab'', ''cd'']"] by simp

section \<open>Lines as they arrive\<close>

definition nl :: char where "nl = CHR 10"

definition max_pending_line :: nat where "max_pending_line = 2 ^ 20"

lemma cut_at_shorter: "(b, a, True) = cut_at c p \<Longrightarrow> length a < length p"
  by (drule sym, drule cut_at_True) simp

text \<open>
  \<open>lineWriter.Write\<close>: from the held partial line and the written bytes, the lines emitted and
  the new partial line.
\<close>

function line_write :: "string \<Rightarrow> string \<Rightarrow> string list \<times> string" where
  "line_write pending p =
     (if p = [] then ([], pending)
      else case cut_at nl p of (line, rest, found) \<Rightarrow>
        if \<not> found then
          ([], if length pending + length p \<le> max_pending_line then pending @ p else pending)
        else
          let line = (if pending \<noteq> [] then pending @ line else line);
              (es, pend) = line_write [] rest
          in ((if line \<noteq> [] then [line] else []) @ es, pend))"
  by pat_completeness auto
termination
  by (relation "measure (\<lambda>(pending, p). length p)") (auto dest: cut_at_shorter)

declare line_write.simps [simp del]

fun line_write_all :: "string \<Rightarrow> string list \<Rightarrow> string list \<times> string" where
  "line_write_all pending [] = ([], pending)"
| "line_write_all pending (p # ps) =
     (let (es, pend) = line_write pending p; (es', pend') = line_write_all pend ps
      in (es @ es', pend'))"

lemma split_at_append:
  "split_at c (a @ b) = butlast (split_at c a) @ (last (split_at c a) @ hd (split_at c b)) # tl (split_at c b)"
proof (induction a)
  case Nil
  then show ?case by (cases "split_at c b") auto
next
  case (Cons x a)
  then show ?case by (cases "split_at c a") (auto split: list.splits)
qed

lemma line_write_split:
  "nl \<notin> set q \<Longrightarrow> length q + length p \<le> max_pending_line \<Longrightarrow>
     line_write q p =
       (filter (\<lambda>l. l \<noteq> []) (butlast (split_at nl (q @ p))), last (split_at nl (q @ p)))"
proof (induction q p rule: line_write.induct)
  case (1 q p)
  show ?case
  proof (cases "p = []")
    case True
    with "1.prems" show ?thesis by (subst line_write.simps) (simp add: split_no_sep)
  next
    case False
    obtain line rest found where cut: "cut_at nl p = (line, rest, found)"
      by (cases "cut_at nl p") auto
    show ?thesis
    proof (cases found)
      case True
      with cut_at_True [of nl p line rest] cut have p: "p = line @ nl # rest" "nl \<notin> set line"
        by auto
      from "1.IH" [OF False cut [symmetric] refl _ refl] True "1.prems" p
      have "line_write [] rest =
          (filter (\<lambda>l. l \<noteq> []) (butlast (split_at nl rest)), last (split_at nl rest))"
        by auto
      moreover have "split_at nl (q @ p) = (q @ line) # split_at nl rest"
        using split_append [of nl "q @ line" rest] p "1.prems" by simp
      ultimately show ?thesis
        using False True cut by (subst line_write.simps) (auto simp: Let_def)
    next
      case found: False
      with cut_at_False [of nl p line rest] cut have "nl \<notin> set p" by auto
      with False found cut "1.prems" show ?thesis
        by (subst line_write.simps) (simp add: split_no_sep)
    qed
  qed
qed

lemma last_split_free: "nl \<notin> set (last (split_at nl s))"
  by (rule split_at_sep_free [of _ nl s]) simp

lemma length_last_split: "length (last (split_at c s)) \<le> length s"
proof (induction s)
  case (Cons x s)
  then show ?case by (cases "split_at c s") (auto split: list.splits if_splits)
qed simp

lemma line_write_all_split:
  "length s + length (concat ps) \<le> max_pending_line \<Longrightarrow>
     line_write_all (last (split_at nl s)) ps = (es, pend) \<Longrightarrow>
     filter (\<lambda>l. l \<noteq> []) (butlast (split_at nl s)) @ es
       = filter (\<lambda>l. l \<noteq> []) (butlast (split_at nl (s @ concat ps)))
     \<and> pend = last (split_at nl (s @ concat ps))"
proof (induction ps arbitrary: s es pend)
  case (Cons p ps)
  let ?q = "last (split_at nl s)"
  have split: "split_at nl (s @ p) = butlast (split_at nl s) @ split_at nl (?q @ p)"
    using split_at_append [of nl s p] split_at_append [of nl ?q p] last_split_free [of s]
    by (simp add: split_no_sep)
  have lw: "line_write ?q p = (filter (\<lambda>l. l \<noteq> []) (butlast (split_at nl (?q @ p))), last (split_at nl (s @ p)))"
    using line_write_split [OF last_split_free, of s p] length_last_split [of nl s] Cons.prems(1)
    by (simp add: split)
  obtain es1 where es1: "line_write_all (last (split_at nl (s @ p))) ps = (es1, pend)"
    and es: "es = filter (\<lambda>l. l \<noteq> []) (butlast (split_at nl (?q @ p))) @ es1"
    using Cons.prems(2) lw by (auto simp: Let_def split: prod.splits)
  from Cons.IH [of "s @ p", OF _ es1] Cons.prems(1) es show ?case
    by (simp add: split butlast_append)
qed simp

text \<open>
  A reader of progress lines sees exactly the complete, non-empty lines of the output,
  each once and in order, whatever the sizes of the writes they arrived in; the unfinished
  last line is held back. (The bound is on the whole output, so that no partial line outgrows
  the buffer kept for it.)
\<close>

theorem lines_independent_of_chunks:
  assumes "length (concat ps) \<le> max_pending_line"
  shows "fst (line_write_all [] ps) = filter (\<lambda>l. l \<noteq> []) (butlast (split_at nl (concat ps)))"
  using line_write_all_split [of "[]" ps] assms by (cases "line_write_all [] ps") auto

theorem lines_independent_of_chunks_witness:
  "fst (line_write_all [] [[CHR ''a''], [CHR ''b'', CHR 10, CHR 10], [CHR ''c'', CHR 10, CHR ''d'']])
     = [''ab'', ''c'']"
  by (subst lines_independent_of_chunks) (simp_all add: max_pending_line_def nl_def)

text \<open>
  Past the one-mebibyte bound on a partial line the promise breaks: the chunk that does
  not fit is dropped while the held bytes are kept, so when the line ends it is emitted with
  its middle missing, and the reader gets an object that restic never wrote.
\<close>

theorem oversized_line_is_spliced:
  assumes "nl \<notin> set a" "nl \<notin> set b" "nl \<notin> set c" "a \<noteq> []" "b \<noteq> []"
    and "length a \<le> max_pending_line" "length a + length b > max_pending_line"
  shows "fst (line_write_all [] [a, b, c @ [nl]]) = [a @ c]"
proof -
  have "line_write [] a = ([], a)"
    using assms(1,4,6) by (subst line_write.simps) (simp add: cut_at_none)
  moreover have "line_write a b = ([], a)"
    using assms(2,5,7) by (subst line_write.simps) (simp add: cut_at_none)
  moreover have "line_write [] [] = ([], [])"
    by (subst line_write.simps) simp
  moreover have "line_write a (c @ [nl]) = ([a @ c], [])"
    using assms(3,4) calculation(3) by (subst line_write.simps) (simp add: cut_at_append)
  ultimately show ?thesis by simp
qed

theorem oversized_line_is_spliced_witness:
  "fst (line_write_all [] [''{'', replicate (2 ^ 20) CHR ''x'', ''}'' @ [nl]]) = [''{}'']"
proof -
  have "fst (line_write_all [] [''{'', replicate (2 ^ 20) CHR ''x'', ''}'' @ [nl]]) = [''{'' @ ''}'']"
    by (rule oversized_line_is_spliced) (simp_all add: nl_def max_pending_line_def)
  then show ?thesis by simp
qed

section \<open>Running a command\<close>

text \<open>How the child process ended: \<open>Run\<close> returned nil, an \<open>ExitError\<close>, or another error.\<close>

datatype run_outcome = RunOk | RunExit int | RunErr err

text \<open>
  \<open>OSExec.Exec\<close> on a process that wrote the given chunks. With a stream for stdout nothing is
  captured from it. The third component is the lines handed to \<open>OnLine\<close>.
\<close>

definition os_exec :: "int \<Rightarrow> bool \<Rightarrow> string list \<Rightarrow> string list \<Rightarrow> run_outcome \<Rightarrow>
    command_result \<times> err option \<times> string list" where
  "os_exec max_output_bytes streamed out_chunks err_chunks outcome =
     (let limit = (if max_output_bytes \<le> 0 then 8 * 2 ^ 20 else max_output_bytes);
          empty = \<lparr>cw_buf = [], cw_limit = limit, cw_dropped = False\<rparr>;
          capped = (if streamed then empty else capped_write_all empty out_chunks);
          capped_err = capped_write_all empty err_chunks;
          result = \<lparr>cr_stdout = cw_buf capped, cr_stderr = cw_buf capped_err, cr_exit_code = 0,
                    cr_truncated = (cw_dropped capped \<or> cw_dropped capped_err)\<rparr>;
          lines = fst (line_write_all [] out_chunks)
      in case outcome of
           RunOk \<Rightarrow> (result, None, lines)
         | RunExit code \<Rightarrow> (result\<lparr>cr_exit_code := code\<rparr>, None, lines)
         | RunErr e \<Rightarrow> (result, Some e, lines))"

section \<open>Exit codes\<close>

definition exit_ok :: int where "exit_ok = 0"
definition exit_incomplete_read :: int where "exit_incomplete_read = 3"

text \<open>\<open>isStackFrame\<close>: the two shapes of a Go trace.\<close>

definition is_stack_frame :: "string \<Rightarrow> bool" where
  "is_stack_frame line =
     (if line \<noteq> [] \<and> (hd line = CHR 9 \<or> hd line = CHR '' '')
      then contains_str line ''.go:'' \<or> contains_str line ''.s:''
      else let trimmed = trim_space line in
        has_prefix trimmed ''runtime.'' \<or> has_prefix trimmed ''main.init''
        \<or> has_prefix trimmed ''github.com/restic/restic/'')"

text \<open>The loop of \<open>explain\<close>, from the last line backwards.\<close>

fun explain_loop :: "string list \<Rightarrow> nat \<Rightarrow> string list \<Rightarrow> string list" where
  "explain_loop [] n kept = kept"
| "explain_loop (l # ls) n kept =
     (if length kept \<ge> n then kept
      else let line = trim_space l in
        if line = [] \<or> is_stack_frame l then explain_loop ls n kept
        else explain_loop ls n (line # kept))"

definition explain :: "string \<Rightarrow> nat \<Rightarrow> string" where
  "explain b n =
     (let kept = explain_loop (rev (split_at nl (trim_space b))) n []
      in if kept = [] then ''(no output)'' else join_with ''; '' kept)"

definition classify_exit :: "int \<Rightarrow> string \<Rightarrow> bool \<Rightarrow> unit res" where
  "classify_exit code stderr incomplete_ok =
     (if code = exit_ok \<or> incomplete_ok \<and> code = exit_incomplete_read then Inr ()
      else Inl (ErrMsg ''resticrun: restic exited'' [itoa code, explain stderr 5]))"

lemma explain_loop_length: "length kept \<le> n \<Longrightarrow> length (explain_loop ls n kept) \<le> n"
  by (induction ls n kept rule: explain_loop.induct) (auto simp: Let_def)

lemma explain_loop_lines:
  "l \<in> set (explain_loop ls n kept) \<Longrightarrow>
     l \<in> set kept \<or> (\<exists>x \<in> set ls. l = trim_space x \<and> l \<noteq> [] \<and> \<not> is_stack_frame x)"
  by (induction ls n kept rule: explain_loop.induct) (auto simp: Let_def split: if_splits)

lemma classify_exit_Inr [simp]:
  "classify_exit code stderr ok = Inr u \<longleftrightarrow> code = 0 \<or> ok \<and> code = 3"
  by (auto simp: classify_exit_def exit_ok_def exit_incomplete_read_def)

section \<open>The last message of a stream\<close>

definition max_scan_line :: nat where "max_scan_line = 8 * 2 ^ 20"

text \<open>\<open>bufio.ScanLines\<close>: no line after a final newline, one trailing carriage return dropped.\<close>

definition scan_lines :: "string \<Rightarrow> string list" where
  "scan_lines s =
     (let ls = split_at nl s; ls = (if last ls = [] then butlast ls else ls)
      in map (\<lambda>l. if l \<noteq> [] \<and> last l = CHR 13 then butlast l else l) ls)"

text \<open>A line of the stream that announces the wanted message type.\<close>

definition is_message :: "(string \<Rightarrow> string option) \<Rightarrow> string \<Rightarrow> string \<Rightarrow> bool" where
  "is_message probe mt l \<longleftrightarrow>
     trim_space l \<noteq> [] \<and> hd (trim_space l) = CHR ''{'' \<and> probe (trim_space l) = Some mt"

fun message_loop :: "(string \<Rightarrow> string option) \<Rightarrow> ('a \<Rightarrow> string \<Rightarrow> 'a res) \<Rightarrow> string \<Rightarrow>
    string list \<Rightarrow> 'a \<Rightarrow> bool \<Rightarrow> ('a \<times> bool) res" where
  "message_loop probe dec mt [] result found = Inr (result, found)"
| "message_loop probe dec mt (l # ls) result found =
     (if length l \<ge> max_scan_line then
        Inl (ErrWrap ''resticrun: read restic output'' (ErrMsg ''bufio.Scanner: token too long'' []))
      else if \<not> is_message probe mt l then message_loop probe dec mt ls result found
      else case dec result (trim_space l) of
             Inl e \<Rightarrow> Inl (ErrWrap ''resticrun: decode message'' e)
           | Inr r \<Rightarrow> message_loop probe dec mt ls r True)"

definition last_message :: "(string \<Rightarrow> string option) \<Rightarrow> ('a \<Rightarrow> string \<Rightarrow> 'a res) \<Rightarrow> 'a \<Rightarrow>
    string \<Rightarrow> string \<Rightarrow> ('a \<times> bool) res" where
  "last_message probe dec zero stdout mt = message_loop probe dec mt (scan_lines stdout) zero False"

text \<open>\<open>ParseBackupSummary\<close> and \<open>ParseRestoreSummary\<close> differ only in the decoded type.\<close>

definition parse_summary :: "(string \<Rightarrow> string option) \<Rightarrow> ('a \<Rightarrow> string \<Rightarrow> 'a res) \<Rightarrow> 'a \<Rightarrow>
    string \<Rightarrow> 'a res" where
  "parse_summary probe dec zero stdout =
     res_bind (last_message probe dec zero stdout ''summary'') (\<lambda>(summary, found).
       if \<not> found then Inl ErrNoSummary else Inr summary)"

lemma message_loop_found:
  "message_loop probe dec mt ls r f = Inr (r', True) \<Longrightarrow>
     f \<and> r' = r \<or> (\<exists>l \<in> set ls. is_message probe mt l \<and> (\<exists>prev. dec prev (trim_space l) = Inr r'))"
  by (induction probe dec mt ls r f rule: message_loop.induct)
    (auto split: if_splits sum.splits)

lemma message_loop_none:
  "\<forall>l \<in> set ls. \<not> is_message probe mt l \<and> length l < max_scan_line \<Longrightarrow>
     message_loop probe dec mt ls r f = Inr (r, f)"
  by (induction ls) auto

text \<open>
  C0. A restic run is only ever reported with a summary that restic printed: the parsed result
  is the decoding of a line of the output whose message type is \<open>summary\<close>. Output with no such
  line is the error \<open>ErrNoSummary\<close>, never an empty success.
\<close>

theorem summary_comes_from_output:
  "(\<forall>s. parse_summary probe dec zero out = Inr s \<longrightarrow>
      (\<exists>l \<in> set (scan_lines out). is_message probe ''summary'' l
         \<and> (\<exists>prev. dec prev (trim_space l) = Inr s))) \<and>
   ((\<forall>l \<in> set (scan_lines out). \<not> is_message probe ''summary'' l \<and> length l < max_scan_line) \<longrightarrow>
      parse_summary probe dec zero out = Inl ErrNoSummary)"
proof (intro conjI allI impI)
  fix s assume "parse_summary probe dec zero out = Inr s"
  then have "message_loop probe dec ''summary'' (scan_lines out) zero False = Inr (s, True)"
    by (auto simp: parse_summary_def last_message_def res_bind_eq_Inr split: if_splits)
  from message_loop_found [OF this]
  show "\<exists>l \<in> set (scan_lines out). is_message probe ''summary'' l
      \<and> (\<exists>prev. dec prev (trim_space l) = Inr s)" by simp
next
  assume "\<forall>l \<in> set (scan_lines out). \<not> is_message probe ''summary'' l \<and> length l < max_scan_line"
  from message_loop_none [OF this, of dec zero False]
  show "parse_summary probe dec zero out = Inl ErrNoSummary"
    by (simp add: parse_summary_def last_message_def)
qed

theorem summary_comes_from_output_witness:
  "parse_summary (\<lambda>_. Some ''status'') (\<lambda>_ _. Inr (7 :: nat)) 0 ''{1}'' = Inl ErrNoSummary
   \<and> (\<exists>l \<in> set (scan_lines ''{1}''). is_message (\<lambda>_. Some ''summary'') ''summary'' l)"
proof -
  have lines: "scan_lines ''{1}'' = [''{1}'']" by code_simp
  have trim: "trim_space ''{1}'' = ''{1}''" by code_simp
  have parsed: "parse_summary (\<lambda>_. Some ''summary'') (\<lambda>_ _. Inr (7 :: nat)) 0 ''{1}'' = Inr 7"
    by (simp add: parse_summary_def last_message_def lines is_message_def trim max_scan_line_def)
  from summary_comes_from_output [of "\<lambda>_. Some ''summary''" "\<lambda>_ _. Inr (7 :: nat)" 0 "''{1}''"] parsed
  have "\<exists>l \<in> set (scan_lines ''{1}''). is_message (\<lambda>_. Some ''summary'') ''summary'' l"
    by blast
  moreover from summary_comes_from_output [of "\<lambda>_. Some ''status''" "\<lambda>_ _. Inr (7 :: nat)" 0 "''{1}''"]
  have "parse_summary (\<lambda>_. Some ''status'') (\<lambda>_ _. Inr (7 :: nat)) 0 ''{1}'' = Inl ErrNoSummary"
    by (simp add: lines is_message_def trim max_scan_line_def)
  ultimately show ?thesis by blast
qed

text \<open>
  C35. The captured output is the beginning of what restic wrote, but the summary is its last
  message. A backup that exits 0 is therefore reported as a failure without a summary whenever
  its first eight mebibytes hold progress messages only, whatever restic wrote after them: the
  search for the summary does not look at the truncation mark, and a long run is not told apart
  from one that never finished.
\<close>

theorem long_run_loses_its_summary:
  assumes "[] \<notin> set out_chunks"
    and "\<forall>l \<in> set (scan_lines (take (8 * 2 ^ 20) (concat out_chunks))).
           \<not> is_message probe ''summary'' l \<and> length l < max_scan_line"
  shows "\<exists>result lines. os_exec 0 False out_chunks err_chunks RunOk = (result, None, lines)
    \<and> classify_exit (cr_exit_code result) (cr_stderr result) True = Inr ()
    \<and> parse_summary probe dec zero (cr_stdout result) = Inl ErrNoSummary"
proof -
  let ?w = "\<lparr>cw_buf = [], cw_limit = 8 * 2 ^ 20, cw_dropped = False\<rparr>"
  have "captured ?w []" by (simp add: captured_def)
  from captured_write_all [OF this _ assms(1)]
  have "cw_buf (capped_write_all ?w out_chunks) = take (8 * 2 ^ 20) (concat out_chunks)"
    by (auto simp: captured_def)
  moreover from message_loop_none [OF assms(2), of dec zero False]
  have "parse_summary probe dec zero (take (8 * 2 ^ 20) (concat out_chunks)) = Inl ErrNoSummary"
    by (simp add: parse_summary_def last_message_def)
  ultimately show ?thesis
    by (simp add: os_exec_def Let_def)
qed

lemma split_replicate: "split_at c (replicate n c) = replicate (Suc n) []"
  by (induction n) auto

lemma scan_lines_newlines: "scan_lines (replicate n nl) = replicate n []"
  by (simp add: scan_lines_def split_replicate Let_def del: replicate_Suc)
    (simp add: replicate_append_same [symmetric])

theorem long_run_loses_its_summary_witness:
  "\<exists>result lines. os_exec 0 False [replicate (8 * 2 ^ 20) nl, ''{}'' @ [nl]] [] RunOk = (result, None, lines)
     \<and> parse_summary (\<lambda>_. Some ''summary'') (\<lambda>_ _. Inr (7 :: nat)) 0 (cr_stdout result) = Inl ErrNoSummary"
proof -
  have "scan_lines (take (8 * 2 ^ 20) (concat [replicate (8 * 2 ^ 20) nl, ''{}'' @ [nl]]))
      = replicate (8 * 2 ^ 20) []"
    by (simp add: scan_lines_newlines)
  moreover have "\<not> is_message (\<lambda>_. Some ''summary'') ''summary'' []"
  proof -
    have "trim_space [] = []" by code_simp
    then show ?thesis by (simp add: is_message_def)
  qed
  ultimately have "\<forall>l \<in> set (scan_lines (take (8 * 2 ^ 20) (concat [replicate (8 * 2 ^ 20) nl, ''{}'' @ [nl]]))).
      \<not> is_message (\<lambda>_. Some ''summary'') ''summary'' l \<and> length l < max_scan_line"
    by (simp add: max_scan_line_def)
  from long_run_loses_its_summary [OF _ this, of "[]" "\<lambda>_ _. Inr (7 :: nat)" 0] show ?thesis
    by auto
qed

end
