(* ===== verification/Restic_Args.thy ===== *)
theory Restic_Args
  imports Go_Library "HOL-Library.AList"
begin

text \<open>
  The argument lists of the restic subcommands: \<open>internal/resticrun/args.go\<close>, \<open>RestoreArgs\<close>
  and \<open>validateSnapshotID\<close> of \<open>restore.go\<close>, and the option handling of \<open>runner.go\<close>
  (\<open>mergeOptions\<close>, \<open>optionArgs\<close>, \<open>elideOptionValues\<close>, \<open>safeURI\<close>).
\<close>

section \<open>Go maps of strings\<close>

text \<open>
  A \<open>map[string]string\<close> is an association list; the order of the list stands for the order
  in which one particular \<open>range\<close> visits the map, which Go leaves open.
\<close>

type_synonym gomap = "(string \<times> string) list"

definition gm_ok :: "gomap \<Rightarrow> bool" where
  "gm_ok m \<longleftrightarrow> distinct (map fst m)"

text \<open>\<open>m[k]\<close>: the zero value when the key is absent.\<close>

definition gm_get :: "gomap \<Rightarrow> string \<Rightarrow> string" where
  "gm_get m k = (case map_of m k of Some v \<Rightarrow> v | None \<Rightarrow> [])"

definition gm_put :: "string \<Rightarrow> string \<Rightarrow> gomap \<Rightarrow> gomap" where
  "gm_put k v m = AList.update k v m"

lemma map_of_gm_put [simp]: "map_of (gm_put k v m) = (map_of m)(k \<mapsto> v)"
  by (simp add: gm_put_def update_conv')

lemma gm_ok_put [simp]: "gm_ok m \<Longrightarrow> gm_ok (gm_put k v m)"
  by (simp add: gm_ok_def gm_put_def distinct_update)

lemma gm_ok_Nil [simp]: "gm_ok []"
  by (simp add: gm_ok_def)

lemma gm_ok_Cons: "gm_ok ((k, v) # m) \<longleftrightarrow> map_of m k = None \<and> gm_ok m"
  by (auto simp: gm_ok_def map_of_eq_None_iff)

section \<open>Specifications\<close>

record backup_spec =
  bs_record_completion :: bool
  bs_paths :: "string list"
  bs_tags :: "string list"
  bs_host :: string
  bs_exclude :: "string list"
  bs_limit_upload_kib :: int
  bs_on_progress :: bool

record forget_spec =
  fs_protected :: "string list"
  fs_keep_last :: int
  fs_keep_daily :: int
  fs_keep_weekly :: int
  fs_keep_monthly :: int
  fs_keep_yearly :: int
  fs_tags :: "string list"
  fs_group_by :: string
  fs_prune :: bool
  fs_dry_run :: bool

record check_spec =
  cs_read_data_subset_percent :: int

record restore_spec =
  rs_snapshot_id :: string
  rs_subpath :: string
  rs_target :: string
  rs_include :: "string list"
  rs_exclude :: "string list"
  rs_verify :: bool
  rs_on_progress :: bool

section \<open>\<open>args.go\<close>\<close>

definition flag_each :: "string \<Rightarrow> string list \<Rightarrow> string list" where
  "flag_each flag vs = concat (map (\<lambda>v. [flag, v]) vs)"

lemma flag_each_simps [simp]:
  "flag_each f [] = []"
  "flag_each f (v # vs) = f # v # flag_each f vs"
  by (simp_all add: flag_each_def)

definition backup_args :: "backup_spec \<Rightarrow> string list res" where
  "backup_args spec =
     (if bs_paths spec = [] then Inl (ErrMsg ''resticrun: backup needs at least one path'' [])
      else Inr ([''backup'', ''--json'']
        @ (if bs_host spec \<noteq> [] then [''--host'', bs_host spec] else [])
        @ flag_each ''--tag'' (bs_tags spec)
        @ flag_each ''--exclude'' (bs_exclude spec)
        @ (if bs_limit_upload_kib spec > 0
           then [''--limit-upload'', itoa (bs_limit_upload_kib spec)] else [])
        @ bs_paths spec))"

definition init_args :: "string \<Rightarrow> string list" where
  "init_args chunker_source_uri =
     [''init'', ''--repository-version'', ''2'']
     @ (if chunker_source_uri \<noteq> []
        then [''--from-repo'', chunker_source_uri, ''--copy-chunker-params''] else [])"

definition keeps :: "forget_spec \<Rightarrow> (string \<times> int) list" where
  "keeps spec =
     [(''--keep-last'', fs_keep_last spec), (''--keep-daily'', fs_keep_daily spec),
      (''--keep-weekly'', fs_keep_weekly spec), (''--keep-monthly'', fs_keep_monthly spec),
      (''--keep-yearly'', fs_keep_yearly spec)]"

text \<open>The loop over the keep flags: the arguments so far and how many were specified.\<close>

fun keep_loop :: "(string \<times> int) list \<Rightarrow> string list \<Rightarrow> nat \<Rightarrow> (string list \<times> nat) res" where
  "keep_loop [] args n = Inr (args, n)"
| "keep_loop ((flag, v) # ks) args n =
     (if v < 0 then Inl (ErrMsg ''resticrun: must not be negative'' [flag])
      else if v > 0 then keep_loop ks (args @ [flag, itoa v]) (n + 1)
      else keep_loop ks args n)"

definition forget_args :: "forget_spec \<Rightarrow> string list res" where
  "forget_args spec =
     res_bind (keep_loop (keeps spec) [''forget'', ''--json''] 0) (\<lambda>(args, specified).
       if specified = 0 then Inl (ErrMsg ''resticrun: forget needs at least one keep policy'' [])
       else
         let args = args @ flag_each ''--tag'' (fs_tags spec);
             group_by = (if fs_group_by spec = [] then ''host,tags'' else fs_group_by spec);
             args = args @ [''--group-by'', group_by];
             args = (if fs_dry_run spec then args @ [''--dry-run''] else args)
         in if fs_prune spec then
              if fs_dry_run spec then Inl (ErrMsg ''resticrun: a dry run must not prune'' [])
              else Inr (args @ [''--prune''])
            else Inr args)"

definition check_args :: "check_spec \<Rightarrow> string list res" where
  "check_args spec =
     (let p = cs_read_data_subset_percent spec in
      if p < 0 \<or> p > 100 then Inl (ErrMsg ''resticrun: read-data subset is out of range'' [itoa p])
      else if p > 0 then Inr [''check'', ''--read-data-subset'', itoa p @ ''%'']
      else Inr [''check''])"

text \<open>\<open>envSlice\<close>: the environment as a sorted list of \<open>K=V\<close>.\<close>

definition env_slice :: "gomap \<Rightarrow> string list" where
  "env_slice env = sort_strings (map (\<lambda>(k, v). k @ ''='' @ v) env)"

lemma keep_loop_Inr_iff:
  "(\<exists>args' n'. keep_loop ks args n = Inr (args', n')) \<longleftrightarrow> (\<forall>(f, v) \<in> set ks. 0 \<le> v)"
  by (induction ks args n rule: keep_loop.induct) auto

lemma keep_loop_result:
  "keep_loop ks args n = Inr (args', n') \<Longrightarrow>
     args' = args @ concat (map (\<lambda>(f, v). if v > 0 then [f, itoa v] else []) ks) \<and>
     n' = n + length (filter (\<lambda>(f, v). v > 0) ks) \<and> (\<forall>(f, v) \<in> set ks. 0 \<le> v)"
  by (induction ks args n rule: keep_loop.induct) (auto split: if_splits)

text \<open>
  C3. \<open>ForgetArgs\<close> accepts a retention request exactly when no keep count is negative, at
  least one is positive, and a dry run is not combined with prune. In particular restic is
  never started with a forget that names no keep count, which would delete every snapshot.
\<close>

theorem forget_args_accepts_iff:
  "(\<exists>args. forget_args spec = Inr args) \<longleftrightarrow>
     list_all (\<lambda>(f, v). 0 \<le> v) (keeps spec) \<and> list_ex (\<lambda>(f, v). 0 < v) (keeps spec) \<and>
     \<not> (fs_dry_run spec \<and> fs_prune spec)"
proof (cases "keep_loop (keeps spec) [''forget'', ''--json''] 0")
  case (Inl e)
  then have "\<not> (\<forall>(f, v) \<in> set (keeps spec). 0 \<le> v)"
    using keep_loop_Inr_iff [of "keeps spec" "[''forget'', ''--json'']" 0] by auto
  with Inl show ?thesis by (auto simp: forget_args_def list_all_iff)
next
  case (Inr r)
  then obtain args n where r: "keep_loop (keeps spec) [''forget'', ''--json''] 0 = Inr (args, n)"
    by (cases r) auto
  note res = keep_loop_result [OF r]
  have pos: "n = 0 \<longleftrightarrow> \<not> (\<exists>(f, v) \<in> set (keeps spec). 0 < v)"
    using res by (auto simp: filter_empty_conv)
  have nonneg: "\<forall>(f, v) \<in> set (keeps spec). 0 \<le> v"
    using res by blast
  show ?thesis
    using nonneg by (simp add: forget_args_def r pos Let_def list_all_iff list_ex_iff)
qed

section \<open>Snapshot identifiers and restore arguments\<close>

definition is_hex :: "char \<Rightarrow> bool" where
  "is_hex c \<longleftrightarrow> is_digit c \<or> 97 \<le> (of_char c :: nat) \<and> (of_char c :: nat) \<le> 102"

definition validate_snapshot_id :: "string \<Rightarrow> unit res" where
  "validate_snapshot_id i =
     (if i = [] then Inl (ErrMsg ''resticrun: snapshot id is required'' [])
      else if i = ''latest'' then Inr ()
      else if length i < 8 \<or> 64 < length i
        then Inl (ErrMsg ''resticrun: snapshot id has an implausible length'' [i])
      else if \<not> list_all is_hex i
        then Inl (ErrMsg ''resticrun: snapshot id is not hexadecimal'' [i])
      else Inr ())"

lemma validate_snapshot_id_iff:
  "validate_snapshot_id i = Inr () \<longleftrightarrow>
     i = ''latest'' \<or> 8 \<le> length i \<and> length i \<le> 64 \<and> list_all is_hex i"
  by (auto simp: validate_snapshot_id_def)

definition restore_args :: "restore_spec \<Rightarrow> string list res" where
  "restore_args spec =
     res_bind (validate_snapshot_id (rs_snapshot_id spec)) (\<lambda>_.
       if rs_target spec = [] then Inl (ErrMsg ''resticrun: restore needs a target directory'' [])
       else if rs_subpath spec \<noteq> [] \<and> rs_include spec \<noteq> []
         then Inl (ErrMsg ''resticrun: restore cannot combine a subpath with include patterns'' [])
       else if rs_subpath spec \<noteq> [] \<and> \<not> has_prefix (rs_subpath spec) ''/''
         then Inl (ErrMsg ''resticrun: restore subpath must be absolute'' [rs_subpath spec])
       else
         let target = rs_snapshot_id spec
               @ (if rs_subpath spec \<noteq> [] then '':'' @ rs_subpath spec else [])
         in Inr ([''restore'', target, ''--target'', rs_target spec, ''--json'']
              @ flag_each ''--include'' (rs_include spec)
              @ flag_each ''--exclude'' (rs_exclude spec)
              @ (if rs_verify spec then [''--verify''] else [])))"

lemma hex_not_special: "is_hex c \<Longrightarrow> c \<noteq> CHR '':'' \<and> c \<noteq> CHR ''-'' \<and> c \<noteq> CHR ''/''"
  by (auto simp: is_hex_def is_digit_def)

lemma valid_id_no_special:
  assumes "validate_snapshot_id i = Inr ()"
  shows "CHR '':'' \<notin> set i" "\<not> has_prefix i ''-''" "i \<noteq> []"
proof -
  from assms consider "i = ''latest''" | "list_all is_hex i" "8 \<le> length i"
    by (auto simp: validate_snapshot_id_iff)
  then have "CHR '':'' \<notin> set i \<and> \<not> has_prefix i ''-'' \<and> i \<noteq> []"
  proof cases
    case 2
    then have "\<forall>c \<in> set i. c \<noteq> CHR '':'' \<and> c \<noteq> CHR ''-''"
      by (auto simp: list_all_iff dest: hex_not_special)
    with 2(2) show ?thesis by (cases i) auto
  qed simp
  then show "CHR '':'' \<notin> set i" "\<not> has_prefix i ''-''" "i \<noteq> []" by auto
qed

text \<open>
  The one argument that names what to restore can be read back without ambiguity: cutting
  it at its first colon gives exactly the snapshot id and the subpath that were asked for, the
  id cannot be taken for an option, and the subpath is absolute.
\<close>

theorem restore_target_unambiguous:
  assumes "restore_args spec = Inr args"
  shows "cut_at CHR '':'' (args ! 1) =
           (rs_snapshot_id spec, rs_subpath spec, rs_subpath spec \<noteq> [])
         \<and> \<not> has_prefix (args ! 1) ''-''
         \<and> (rs_subpath spec = [] \<or> has_prefix (rs_subpath spec) ''/'' \<and> rs_include spec = [])"
proof -
  from assms have v: "validate_snapshot_id (rs_snapshot_id spec) = Inr ()"
    by (auto simp: restore_args_def res_bind_eq_Inr)
  note special = valid_id_no_special [OF v]
  from special(2,3) have nodash: "\<not> has_prefix (rs_snapshot_id spec @ t) ''-''" for t
    by (cases "rs_snapshot_id spec") auto
  from assms v have args: "args ! 1 = rs_snapshot_id spec
      @ (if rs_subpath spec \<noteq> [] then '':'' @ rs_subpath spec else [])"
    and ok: "rs_subpath spec = [] \<or> has_prefix (rs_subpath spec) ''/'' \<and> rs_include spec = []"
    by (auto simp: restore_args_def Let_def split: if_splits)
  show ?thesis
    using ok nodash special(1) unfolding args by (simp add: cut_at_append cut_at_none)
qed

theorem restore_target_unambiguous_witness:
  "cut_at CHR '':'' (''0123abcd:/home/bob'') = (''0123abcd'', ''/home/bob'', True)"
proof -
  let ?spec = "\<lparr>rs_snapshot_id = ''0123abcd'', rs_subpath = ''/home/bob'', rs_target = ''/t'',
    rs_include = [], rs_exclude = [], rs_verify = True, rs_on_progress = False\<rparr>"
  have args: "restore_args ?spec = Inr [''restore'', ''0123abcd:/home/bob'', ''--target'', ''/t'',
    ''--json'', ''--verify'']"
    by (simp add: restore_args_def validate_snapshot_id_def is_hex_def is_digit_def has_prefix_def)
  show ?thesis using restore_target_unambiguous [OF args] by simp
qed

section \<open>Extended options\<close>

text \<open>\<open>mergeOptions\<close>: the second loop, over the extra options.\<close>

fun merge_loop :: "gomap \<Rightarrow> gomap \<Rightarrow> gomap res" where
  "merge_loop merged [] = Inr merged"
| "merge_loop merged ((k, v) # xs) =
     (case map_of merged k of
        Some existing \<Rightarrow>
          if existing \<noteq> v then Inl (ErrMsg ''resticrun: conflicting backend option'' [k])
          else merge_loop (gm_put k v merged) xs
      | None \<Rightarrow> merge_loop (gm_put k v merged) xs)"

definition merge_options :: "gomap \<Rightarrow> gomap \<Rightarrow> gomap res" where
  "merge_options primary extra = merge_loop (fold (\<lambda>(k, v). gm_put k v) primary []) extra"

definition option_args :: "gomap \<Rightarrow> string list" where
  "option_args options =
     (if options = [] then []
      else concat (map (\<lambda>k. [''-o'', k @ ''='' @ gm_get options k])
             (sort_strings (map fst options))))"

lemma map_of_fold_put: "gm_ok m \<Longrightarrow> map_of (fold (\<lambda>(k, v). gm_put k v) m acc) = map_of acc ++ map_of m"
proof (induction m arbitrary: acc)
  case (Cons kv m)
  obtain k v where kv: "kv = (k, v)" by force
  with Cons.prems have "map_of m k = None" "gm_ok m"
    by (auto simp: gm_ok_Cons)
  then show ?case
    by (auto simp: kv Cons.IH fun_eq_iff map_add_def split: option.splits)
qed simp

lemma merge_loop_iff:
  "gm_ok xs \<Longrightarrow>
     (merge_loop m xs = Inr r \<longrightarrow> map_of r = map_of m ++ map_of xs) \<and>
     ((\<exists>r. merge_loop m xs = Inr r) \<longleftrightarrow>
        (\<forall>k v w. map_of m k = Some v \<and> map_of xs k = Some w \<longrightarrow> v = w))"
proof (induction m xs arbitrary: r rule: merge_loop.induct)
  case (2 m k v xs)
  from 2(3) have k: "map_of xs k = None" and ok: "gm_ok xs"
    by (auto simp: gm_ok_Cons)
  show ?case
  proof (cases "map_of m k")
    case None
    with 2(1) [OF None ok] k show ?thesis
      by (auto simp: fun_eq_iff map_add_def split: option.splits)
  next
    case (Some e)
    show ?thesis
    proof (cases "e = v")
      case True
      with 2(2) [OF Some _ ok] Some k show ?thesis
        by (auto simp: fun_eq_iff map_add_def split: option.splits)
    next
      case False
      with Some show ?thesis by auto
    qed
  qed
qed simp

text \<open>
  Two repositories can share one restic invocation exactly when they do not disagree on an
  extended option, and then the merged options are the union of both: no setting of either
  repository is lost or silently replaced by the other's.
\<close>

theorem merge_options_union:
  assumes "gm_ok primary" "gm_ok extra"
  shows "((\<exists>r. merge_options primary extra = Inr r) \<longleftrightarrow>
            (\<forall>k v w. map_of primary k = Some v \<and> map_of extra k = Some w \<longrightarrow> v = w)) \<and>
         (\<forall>r. merge_options primary extra = Inr r \<longrightarrow>
            map_of r = map_of primary ++ map_of extra \<and> map_of r = map_of extra ++ map_of primary)"
proof -
  let ?m = "fold (\<lambda>(k, v). gm_put k v) primary []"
  have m: "map_of ?m = map_of primary"
    using map_of_fold_put [OF assms(1), of "[]"] by simp
  have eq: "merge_options primary extra = merge_loop ?m extra"
    by (simp add: merge_options_def)
  have ex: "(\<exists>r. merge_options primary extra = Inr r) \<longleftrightarrow>
      (\<forall>k v w. map_of primary k = Some v \<and> map_of extra k = Some w \<longrightarrow> v = w)"
    and val: "\<And>r. merge_options primary extra = Inr r \<Longrightarrow> map_of r = map_of primary ++ map_of extra"
    using merge_loop_iff [OF assms(2), of ?m] unfolding eq m by blast+
  have comm: "map_of primary ++ map_of extra = map_of extra ++ map_of primary"
    if "\<forall>k v w. map_of primary k = Some v \<and> map_of extra k = Some w \<longrightarrow> v = w"
  proof
    fix k show "(map_of primary ++ map_of extra) k = (map_of extra ++ map_of primary) k"
      using that by (auto simp: map_add_def split: option.splits)
  qed
  show ?thesis
    using ex val comm by metis
qed

theorem merge_options_union_witness:
  "merge_options [(''a'', ''1'')] [(''b'', ''2''), (''a'', ''1'')] = Inr [(''a'', ''1''), (''b'', ''2'')]
   \<and> map_of [(''a'', ''1''), (''b'', ''2'')] = map_of [(''a'', ''1'')] ++ map_of [(''b'', ''2''), (''a'', ''1'')]"
proof -
  have ok: "gm_ok [(''a'', ''1'')]" "gm_ok [(''b'', ''2''), (''a'', ''1'')]"
    by (simp_all add: gm_ok_def)
  have r: "merge_options [(''a'', ''1'')] [(''b'', ''2''), (''a'', ''1'')] = Inr [(''a'', ''1''), (''b'', ''2'')]"
    by (simp add: merge_options_def gm_put_def)
  from merge_options_union [OF ok] r show ?thesis by blast
qed

section \<open>What the log may show\<close>

fun elide_option_values :: "string list \<Rightarrow> string list" where
  "elide_option_values [] = []"
| "elide_option_values [a] = [a]"
| "elide_option_values (a # b # rest) =
     (if a = ''-o'' then a # (fst (cut_at CHR ''='' b) @ ''=[set]'') # elide_option_values rest
      else a # elide_option_values (b # rest))"

text \<open>\<open>strings.LastIndex (uri, "@")\<close> and \<open>strings.Index (uri, ":")\<close>.\<close>

fun index_of :: "char \<Rightarrow> string \<Rightarrow> nat option" where
  "index_of c [] = None"
| "index_of c (x # xs) = (if x = c then Some 0 else map_option Suc (index_of c xs))"

definition last_index_of :: "char \<Rightarrow> string \<Rightarrow> nat option" where
  "last_index_of c s = map_option (\<lambda>i. length s - 1 - i) (index_of c (rev s))"

definition safe_uri :: "string \<Rightarrow> string" where
  "safe_uri uri =
     (case last_index_of CHR ''@'' uri of
        None \<Rightarrow> uri
      | Some at \<Rightarrow>
          (case index_of CHR '':'' uri of
             None \<Rightarrow> uri
           | Some scheme \<Rightarrow>
               if scheme > at then uri
               else take (scheme + 1) uri @ ''[credentials]@'' @ drop (at + 1) uri))"

lemma index_of_append: "c \<notin> set a \<Longrightarrow> index_of c (a @ c # b) = Some (length a)"
  by (induction a) auto

lemma last_index_of_append: "c \<notin> set b \<Longrightarrow> last_index_of c (a @ c # b) = Some (length a)"
  using index_of_append [of c "rev b" "rev a"] by (simp add: last_index_of_def)

text \<open>The credentials of an address \<open>scheme:credentials@host/path\<close> never survive.\<close>

lemma safe_uri_hides:
  assumes "CHR '':'' \<notin> set scheme" "CHR ''@'' \<notin> set rest"
  shows "safe_uri (scheme @ '':'' @ cred @ ''@'' @ rest) = scheme @ '':[credentials]@'' @ rest"
proof -
  let ?u = "scheme @ '':'' @ cred @ ''@'' @ rest"
  have "last_index_of CHR ''@'' ?u = Some (length (scheme @ '':'' @ cred))"
    using last_index_of_append [OF assms(2), of "scheme @ '':'' @ cred"] by simp
  moreover have "index_of CHR '':'' ?u = Some (length scheme)"
    using index_of_append [OF assms(1), of "cred @ ''@'' @ rest"] by simp
  ultimately show ?thesis by (simp add: safe_uri_def)
qed

lemma cut_at_key: "fst (cut_at CHR ''='' (k @ CHR ''='' # v)) = fst (cut_at CHR ''='' k)"
  by (induction k) (auto split: prod.splits)

lemma elide_pairs:
  "elide_option_values (concat (map (\<lambda>k. [''-o'', k @ CHR ''='' # f k]) ks) @ rest) =
     concat (map (\<lambda>k. [''-o'', fst (cut_at CHR ''='' k) @ ''=[set]'']) ks) @ elide_option_values rest"
  by (induction ks) (auto simp: cut_at_key)

lemma elide_option_args:
  "elide_option_values (option_args opts @ rest) =
     concat (map (\<lambda>k. [''-o'', fst (cut_at CHR ''='' k) @ ''=[set]'']) (sort_strings (map fst opts)))
     @ elide_option_values rest"
  by (auto simp: option_args_def elide_pairs sort_strings_def)

text \<open>
  C6. The debug log of a restic run does not depend on the values of the backend options: two
  runs whose options have the same keys log the same arguments, whatever the values are. Paths
  and tokens handed to a backend with \<open>-o\<close> never reach the log.
\<close>

theorem log_hides_option_values:
  assumes "map fst opts1 = map fst opts2"
  shows "elide_option_values (option_args opts1 @ rest) = elide_option_values (option_args opts2 @ rest)"
  by (simp add: elide_option_args assms)

theorem log_hides_option_values_witness:
  "elide_option_values (option_args [(''sftp.args'', ''-i /root/key'')] @ [''backup''])
   = elide_option_values (option_args [(''sftp.args'', ''other'')] @ [''backup''])"
  by (rule log_hides_option_values) simp

end
