(* ===== verification/Destinations.thy ===== *)
theory Destinations
  imports Restic_Args
begin

text \<open>
  The storage backends of \<open>internal/destination\<close>: \<open>CleanRepoPath\<close> (\<open>destination.go\<close>) and the
  addresses, environments and options that \<open>local.go\<close>, \<open>sftp.go\<close>, \<open>rest.go\<close> and \<open>s3.go\<close> give
  restic. The pieces of \<open>net\<close> and \<open>net/url\<close> they call are a parameter.
\<close>

section \<open>Repository paths\<close>

definition clean_repo_path :: "string \<Rightarrow> string res" where
  "clean_repo_path repo_path =
     (let trimmed = trim_both CHR ''/'' (trim_space repo_path) in
      if trimmed = [] then Inl (ErrMsg ''destination: repository path is empty'' [])
      else if CHR 92 \<in> set trimmed
        then Inl (ErrMsg ''destination: repository path contains a backslash'' [repo_path])
      else if CHR 0x00 \<in> set trimmed
        then Inl (ErrMsg ''destination: repository path contains a null byte'' [])
      else let cleaned = path_clean trimmed in
        if cleaned = ''.'' \<or> cleaned = ''..'' \<or> has_prefix cleaned ''../''
          then Inl (ErrMsg ''destination: repository path escapes its destination'' [repo_path])
        else if list_ex (\<lambda>g. g = [] \<or> g = ''.'' \<or> g = ''..'') (split_at CHR ''/'' cleaned)
          then Inl (ErrMsg ''destination: repository path has an invalid segment'' [repo_path])
        else Inr cleaned)"

lemma set_join_with: "set (join_with sep ps) \<subseteq> set sep \<union> \<Union> (set ` set ps)"
  by (induction sep ps rule: join_with.induct) auto

lemma set_clean_segs: "set (clean_segs r out gs) \<subseteq> set out \<union> set gs \<union> {''..''}"
proof (induction r out gs rule: clean_segs.induct)
  case (2 rooted out g gs)
  then show ?case by (cases out) (auto split: if_splits)
qed auto

lemma set_split_at: "p \<in> set (split_at c s) \<Longrightarrow> set p \<subseteq> set s"
  by (induction s arbitrary: p) (force split: if_splits list.splits)+

lemma set_path_clean: "set (path_clean p) \<subseteq> set p \<union> set ''/.''"
proof -
  have "set g \<subseteq> set p \<union> set ''/.''" if "g \<in> set (clean_segs r [] (split_at CHR ''/'' p))" for r g
    using that set_clean_segs [of r "[]" "split_at CHR ''/'' p"] set_split_at by fastforce
  then have "set (join_with ''/'' (clean_segs r [] (split_at CHR ''/'' p))) \<subseteq> set p \<union> set ''/.''" for r
    using set_join_with [of "''/''" "clean_segs r [] (split_at CHR ''/'' p)"] by fastforce
  then show ?thesis by (auto simp: path_clean_def Let_def)
qed

lemma set_trim_both: "set (trim_both c s) \<subseteq> set s"
  by (auto simp: trim_both_def trim_right_def trim_left_def dest!: set_dropWhileD)

lemma clean_repo_path_segs:
  assumes "clean_repo_path p = Inr q"
  shows "list_all plain_seg (split_at CHR ''/'' q)" "CHR 92 \<notin> set q" "CHR 0x00 \<notin> set q" "q \<noteq> []"
proof -
  let ?t = "trim_both CHR ''/'' (trim_space p)"
  from assms have q: "q = path_clean ?t" and segs: "\<not> list_ex (\<lambda>g. g = [] \<or> g = ''.'' \<or> g = ''..'')
      (split_at CHR ''/'' q)" and ch: "CHR 92 \<notin> set ?t" "CHR 0x00 \<notin> set ?t"
    by (auto simp: clean_repo_path_def Let_def split: if_splits)
  from segs show "list_all plain_seg (split_at CHR ''/'' q)"
    by (auto simp: list_all_iff list_ex_iff plain_seg_def dest: split_at_sep_free)
  from ch set_path_clean [of ?t] show "CHR 92 \<notin> set q" "CHR 0x00 \<notin> set q"
    unfolding q by auto
  from segs show "q \<noteq> []" by (cases q) auto
qed

section \<open>The interface restic is given\<close>

record backend =
  d_uri :: "string \<Rightarrow> string res"
  d_env :: "gomap res"
  d_options :: "gomap res"

record url =
  u_scheme :: string
  u_user :: "string option"
  u_host :: string
  u_path :: string

text \<open>\<open>net.ParseIP\<close> giving an address that is not IPv4, \<open>url.Parse\<close> and \<open>URL.String\<close>.\<close>

record net_api =
  na_is_ipv6 :: "string \<Rightarrow> bool"
  na_parse :: "string \<Rightarrow> url res"
  na_string :: "url \<Rightarrow> string"

section \<open>\<open>local.go\<close>\<close>

record local_dest = l_root :: string

definition is_abs :: "string \<Rightarrow> bool" where "is_abs p \<longleftrightarrow> has_prefix p ''/''"

text \<open>\<open>filepath.Join\<close> of two non-empty elements.\<close>

definition path_join :: "string \<Rightarrow> string \<Rightarrow> string" where
  "path_join a b = path_clean (a @ ''/'' @ b)"

definition local_uri :: "local_dest \<Rightarrow> string \<Rightarrow> string res" where
  "local_uri l repo_path =
     (if \<not> is_abs (l_root l) then Inl (ErrMsg ''local: root must be an absolute path'' [l_root l])
      else res_bind (clean_repo_path repo_path) (\<lambda>cleaned. Inr (path_join (l_root l) cleaned)))"

definition local_backend :: "local_dest \<Rightarrow> backend" where
  "local_backend l = \<lparr>d_uri = local_uri l, d_env = Inr [], d_options = Inr []\<rparr>"

lemma clean_segs_append:
  "clean_segs r out (xs @ ys) = clean_segs r (rev (clean_segs r out xs)) ys"
proof (induction r out xs rule: clean_segs.induct)
  case (2 rooted out g gs)
  then show ?case by (cases out) auto
qed simp

lemma split_at_sep: "split_at c (a @ c # b) = split_at c a @ split_at c b"
proof (induction a)
  case (Cons x a)
  then show ?case by (cases "split_at c a") (auto split: list.splits)
qed simp

text \<open>The segments of an absolute path after cleaning.\<close>

definition root_segs :: "string \<Rightarrow> string list" where
  "root_segs p = clean_segs True [] (split_at CHR ''/'' p)"

lemma root_segs_plain: "list_all plain_seg (root_segs p)"
  unfolding root_segs_def
  by (rule clean_segs_rooted_plain) (auto dest: split_at_sep_free)

lemma path_join_plain:
  assumes "is_abs a" "list_all plain_seg (split_at CHR ''/'' b)"
  shows "path_join a b = CHR ''/'' # join_with ''/'' (root_segs a @ split_at CHR ''/'' b)"
proof -
  have "has_prefix (a @ CHR ''/'' # b) ''/''"
    using assms(1) by (cases a) (auto simp: is_abs_def)
  then show ?thesis
    using clean_segs_plain [OF assms(2), of True "rev (root_segs a)"]
    by (simp add: path_join_def path_clean_def split_at_sep clean_segs_append root_segs_def Let_def)
qed

text \<open>
  C0. A repository on a local or mounted destination always lies strictly below the
  destination's root: its path is the root's own segments followed by at least one segment,
  and none of the added segments is empty, \<open>.\<close> or \<open>..\<close>. Whatever an operator types as the
  repository path, it cannot climb out of the destination.
\<close>

theorem local_repository_below_root:
  assumes "local_uri l repo_path = Inr u"
  shows "\<exists>segs. segs \<noteq> [] \<and> list_all plain_seg segs
           \<and> u = CHR ''/'' # join_with ''/'' (root_segs (l_root l) @ segs)"
proof -
  from assms obtain q where abs: "is_abs (l_root l)" and q: "clean_repo_path repo_path = Inr q"
    and u: "u = path_join (l_root l) q"
    by (auto simp: local_uri_def res_bind_eq_Inr split: if_splits)
  from path_join_plain [OF abs clean_repo_path_segs(1) [OF q]] clean_repo_path_segs(1) [OF q]
  show ?thesis unfolding u by (intro exI [of _ "split_at CHR ''/'' q"]) simp
qed

theorem local_repository_below_root_witness:
  "\<exists>segs. segs \<noteq> [] \<and> list_all plain_seg segs
     \<and> ''/mnt/nas/eu/cp01'' = CHR ''/'' # join_with ''/'' (root_segs ''/mnt/nas/'' @ segs)"
proof -
  have "local_uri \<lparr>l_root = ''/mnt/nas/''\<rparr> ''/eu//x/../cp01'' = Inr ''/mnt/nas/eu/cp01''"
    by code_simp
  from local_repository_below_root [OF this] show ?thesis by simp
qed

section \<open>\<open>sftp.go\<close>\<close>

record sftp_dest =
  s_host :: string
  s_port :: int
  s_user :: string
  s_root :: string
  s_identity_file :: string
  s_known_hosts_file :: string

definition has_control :: "string \<Rightarrow> bool" where
  "has_control v \<longleftrightarrow> list_ex (\<lambda>c. (of_char c :: nat) < 32 \<or> of_char c = (127 :: nat)) v"

text \<open>\<open>strings.ContainsAny\<close>\<close>

definition contains_any :: "string \<Rightarrow> string \<Rightarrow> bool" where
  "contains_any s cs \<longleftrightarrow> list_ex (\<lambda>c. c \<in> set cs) s"

definition bad_path_bytes :: string where
  "bad_path_bytes = [CHR '' '', CHR 9, CHR 34, CHR 39, CHR 92]"

definition sftp_validate :: "sftp_dest \<Rightarrow> unit res" where
  "sftp_validate s =
     (if s_host s = [] then Inl (ErrMsg ''sftp: host is required'' [])
      else if s_user s = [] then Inl (ErrMsg ''sftp: user is required'' [])
      else if \<not> has_prefix (s_root s) ''/''
        then Inl (ErrMsg ''sftp: root must be an absolute path'' [s_root s])
      else if s_port s < 0 \<or> s_port s > 65535
        then Inl (ErrMsg ''sftp: port is out of range'' [itoa (s_port s)])
      else if s_identity_file s = [] then Inl (ErrMsg ''sftp: identity file is required'' [])
      else if has_prefix (s_host s) ''-''
        then Inl (ErrMsg ''sftp: host must not begin with a dash'' [s_host s])
      else if contains_any (s_host s) [CHR '' '', CHR 9, CHR 13, CHR 10] \<or> has_control (s_host s)
        then Inl (ErrMsg ''sftp: host must not contain whitespace or control characters'' [s_host s])
      else if has_control (s_root s)
        then Inl (ErrMsg ''sftp: root must not contain control characters'' [s_root s])
      else if contains_any (s_identity_file s) bad_path_bytes
        then Inl (ErrMsg ''sftp: must not contain whitespace, quotes or backslashes''
               [''identity file'', s_identity_file s])
      else if contains_any (s_known_hosts_file s) bad_path_bytes
        then Inl (ErrMsg ''sftp: must not contain whitespace, quotes or backslashes''
               [''known-hosts file'', s_known_hosts_file s])
      else Inr ())"

definition host_for_uri :: "net_api \<Rightarrow> sftp_dest \<Rightarrow> string" where
  "host_for_uri N s = (if na_is_ipv6 N (s_host s) then ''['' @ s_host s @ '']'' else s_host s)"

definition sftp_uri :: "net_api \<Rightarrow> sftp_dest \<Rightarrow> string \<Rightarrow> string res" where
  "sftp_uri N s repo_path =
     res_bind (sftp_validate s) (\<lambda>_. res_bind (clean_repo_path repo_path) (\<lambda>cleaned.
       let root = trim_suffix (s_root s) ''/'' in
       if s_port s = 0 \<or> s_port s = 22
       then Inr (''sftp:'' @ s_user s @ ''@'' @ host_for_uri N s @ '':'' @ root @ ''/'' @ cleaned)
       else Inr (''sftp://'' @ s_user s @ ''@'' @ host_for_uri N s @ '':'' @ itoa (s_port s) @ ''/''
              @ root @ ''/'' @ cleaned)))"

definition ssh_args :: "sftp_dest \<Rightarrow> string list" where
  "ssh_args s =
     [''-i'', s_identity_file s,
      ''-o'', ''UserKnownHostsFile='' @ s_known_hosts_file s,
      ''-o'', ''StrictHostKeyChecking=yes'',
      ''-o'', ''BatchMode=yes'',
      ''-o'', ''IdentitiesOnly=yes'']"

definition known_hosts_required :: err where
  "known_hosts_required =
     ErrMsg ''sftp: known-hosts file is required; refusing to trust an unpinned host key'' []"

definition sftp_options :: "sftp_dest \<Rightarrow> gomap res" where
  "sftp_options s =
     res_bind (sftp_validate s) (\<lambda>_.
       if s_known_hosts_file s = [] then Inl known_hosts_required
       else Inr [(''sftp.args'', join_with '' '' (ssh_args s))])"

definition sftp_backend :: "net_api \<Rightarrow> sftp_dest \<Rightarrow> backend" where
  "sftp_backend N s = \<lparr>d_uri = sftp_uri N s, d_env = Inr [], d_options = sftp_options s\<rparr>"

lemma sftp_validate_fields:
  assumes "sftp_validate s = Inr ()"
  shows "CHR '' '' \<notin> set (s_identity_file s)" "CHR '' '' \<notin> set (s_known_hosts_file s)"
    "\<not> has_prefix (s_host s) ''-''" "s_host s \<noteq> []" "s_user s \<noteq> []" "has_prefix (s_root s) ''/''"
    "0 \<le> s_port s" "s_port s \<le> 65535"
  using assms
  by (auto simp: sftp_validate_def contains_any_def bad_path_bytes_def list_ex_iff split: if_splits)

text \<open>
  The ssh arguments that restic is told to use split back, at spaces, into exactly the ten
  arguments the destination means: the key, the pinned known-hosts file, strict host-key
  checking, batch mode and identities-only. No configured path can add, drop or change an ssh
  option, and options are only produced when the known-hosts file is named.
\<close>

theorem sftp_args_not_injectable:
  assumes "sftp_options s = Inr m"
  shows "\<exists>args. m = [(''sftp.args'', args)] \<and> split_at CHR '' '' args = ssh_args s
           \<and> s_known_hosts_file s \<noteq> []"
proof -
  from assms have v: "sftp_validate s = Inr ()" and k: "s_known_hosts_file s \<noteq> []"
    and m: "m = [(''sftp.args'', join_with '' '' (ssh_args s))]"
    by (auto simp: sftp_options_def res_bind_eq_Inr split: if_splits)
  from sftp_validate_fields(1,2) [OF v]
  have "split_at CHR '' '' (join_with '' '' (ssh_args s)) = ssh_args s"
    by (intro split_join) (auto simp: ssh_args_def)
  with m k show ?thesis by simp
qed

theorem sftp_args_not_injectable_witness:
  "split_at CHR '' '' ''-i /k -o UserKnownHostsFile=/h -o StrictHostKeyChecking=yes -o BatchMode=yes -o IdentitiesOnly=yes''
     = [''-i'', ''/k'', ''-o'', ''UserKnownHostsFile=/h'', ''-o'', ''StrictHostKeyChecking=yes'',
        ''-o'', ''BatchMode=yes'', ''-o'', ''IdentitiesOnly=yes'']"
proof -
  let ?s = "\<lparr>s_host = ''h'', s_port = 0, s_user = ''u'', s_root = ''/r'', s_identity_file = ''/k'',
    s_known_hosts_file = ''/h''\<rparr>"
  have "sftp_options ?s = Inr [(''sftp.args'', join_with '' '' (ssh_args ?s))]"
    by (simp add: sftp_options_def sftp_validate_def contains_any_def bad_path_bytes_def
        has_control_def)
  from sftp_args_not_injectable [OF this] show ?thesis by (simp add: ssh_args_def)
qed

section \<open>\<open>rest.go\<close>\<close>

record rest_dest =
  r_base_url :: string
  r_username :: string
  r_password :: string
  r_append_only :: bool
  r_ca_bundle :: string

definition rest_base_url :: "net_api \<Rightarrow> rest_dest \<Rightarrow> url res" where
  "rest_base_url N r =
     (if r_base_url r = [] then Inl (ErrMsg ''rest: base URL is required'' [])
      else case na_parse N (r_base_url r) of
        Inl e \<Rightarrow> Inl (ErrWrap ''rest: parse base URL'' e)
      | Inr parsed \<Rightarrow>
          if u_host parsed = [] then Inl (ErrMsg ''rest: base URL has no host'' [r_base_url r])
          else if u_scheme parsed \<noteq> ''https''
            then Inl (ErrMsg ''rest: base URL must use https'' [u_scheme parsed])
          else Inr parsed)"

definition rest_uri :: "net_api \<Rightarrow> rest_dest \<Rightarrow> string \<Rightarrow> string res" where
  "rest_uri N r repo_path =
     res_bind (rest_base_url N r) (\<lambda>base. res_bind (clean_repo_path repo_path) (\<lambda>cleaned.
       let base = base\<lparr>u_user := None,
                       u_path := trim_suffix (u_path base) ''/'' @ ''/'' @ cleaned @ ''/''\<rparr>
       in Inr (''rest:'' @ na_string N base)))"

definition rest_env :: "rest_dest \<Rightarrow> gomap res" where
  "rest_env r =
     (if r_username r = [] then Inl (ErrMsg ''rest: username is required'' [])
      else Inr [(''RESTIC_REST_USERNAME'', r_username r), (''RESTIC_REST_PASSWORD'', r_password r)])"

text \<open>The verdict of \<open>checkAppendOnly\<close> on the status of the probing delete.\<close>

definition check_append_only :: "int \<Rightarrow> unit res" where
  "check_append_only status =
     (if status = 403 \<or> status = 405 then Inr ()
      else if status = 401
        then Inl (ErrMsg ''rest: authentication rejected while checking append-only'' [itoa status])
      else Inl (ErrMsg ''rest: this destination is marked append-only, but the server accepted a delete''
             [itoa status]))"

definition rest_backend :: "net_api \<Rightarrow> rest_dest \<Rightarrow> backend" where
  "rest_backend N r = \<lparr>d_uri = rest_uri N r, d_env = rest_env r, d_options = Inr []\<rparr>"

section \<open>\<open>s3.go\<close>\<close>

record s3_dest =
  s3_endpoint :: string
  s3_region :: string
  s3_bucket :: string
  s3_access_key_id :: string
  s3_secret_access_key :: string
  s3_session_token :: string

definition with_scheme :: "string \<Rightarrow> string" where
  "with_scheme endpoint =
     (if contains_str endpoint ''://'' then endpoint else ''https://'' @ endpoint)"

definition normalised_endpoint :: "net_api \<Rightarrow> s3_dest \<Rightarrow> string res" where
  "normalised_endpoint N s =
     (case na_parse N (with_scheme (s3_endpoint s)) of
        Inl e \<Rightarrow> Inl (ErrWrap ''s3: parse endpoint'' e)
      | Inr parsed \<Rightarrow>
          if u_host parsed = [] then Inl (ErrMsg ''s3: endpoint has no host'' [s3_endpoint s])
          else if u_path parsed \<noteq> [] \<and> u_path parsed \<noteq> ''/''
            then Inl (ErrMsg ''s3: endpoint must not contain a path'' [s3_endpoint s])
          else if u_scheme parsed \<noteq> ''https''
            then Inl (ErrMsg ''s3: endpoint must use https'' [u_scheme parsed])
          else Inr (''https://'' @ u_host parsed))"

definition s3_uri :: "net_api \<Rightarrow> s3_dest \<Rightarrow> string \<Rightarrow> string res" where
  "s3_uri N s repo_path =
     (if s3_bucket s = [] then Inl (ErrMsg ''s3: bucket is required'' [])
      else res_bind (clean_repo_path repo_path) (\<lambda>cleaned.
        if s3_endpoint s = [] then
          if s3_region s = []
          then Inl (ErrMsg ''s3: region is required when no endpoint is set'' [])
          else Inr (''s3:s3.amazonaws.com/'' @ s3_bucket s @ ''/'' @ cleaned)
        else res_bind (normalised_endpoint N s) (\<lambda>endpoint.
          Inr (''s3:'' @ endpoint @ ''/'' @ s3_bucket s @ ''/'' @ cleaned))))"

definition s3_env :: "s3_dest \<Rightarrow> gomap res" where
  "s3_env s =
     (if s3_access_key_id s = [] \<or> s3_secret_access_key s = []
      then Inl (ErrMsg ''s3: access key and secret key are required'' [])
      else Inr ([(''AWS_ACCESS_KEY_ID'', s3_access_key_id s),
                 (''AWS_SECRET_ACCESS_KEY'', s3_secret_access_key s)]
             @ (if s3_region s \<noteq> [] then [(''AWS_DEFAULT_REGION'', s3_region s)] else [])
             @ (if s3_session_token s \<noteq> [] then [(''AWS_SESSION_TOKEN'', s3_session_token s)] else [])))"

definition s3_backend :: "net_api \<Rightarrow> s3_dest \<Rightarrow> backend" where
  "s3_backend N s = \<lparr>d_uri = s3_uri N s, d_env = s3_env s, d_options = Inr []\<rparr>"

section \<open>Any destination\<close>

datatype dest = DestLocal local_dest | DestSFTP sftp_dest | DestREST rest_dest | DestS3 s3_dest

fun backend_of :: "net_api \<Rightarrow> dest \<Rightarrow> backend" where
  "backend_of N (DestLocal l) = local_backend l"
| "backend_of N (DestSFTP s) = sftp_backend N s"
| "backend_of N (DestREST r) = rest_backend N r"
| "backend_of N (DestS3 s) = s3_backend N s"

text \<open>
  C0. Every address a destination gives restic names a repository by a checked path: an address
  is only produced when the repository path cleans to segments none of which is empty, \<open>.\<close> or
  \<open>..\<close>; and an address that goes over HTTP is built from a parsed URL whose scheme is https,
  with any user and password taken out of it.
\<close>

theorem destination_uri_safe:
  assumes "d_uri (backend_of N d) repo_path = Inr u"
  shows "(\<exists>q. clean_repo_path repo_path = Inr q \<and> list_all plain_seg (split_at CHR ''/'' q))
    \<and> (\<forall>r. d = DestREST r \<longrightarrow> (\<exists>b. u = ''rest:'' @ na_string N b \<and> u_scheme b = ''https'' \<and> u_user b = None))
    \<and> (\<forall>s. d = DestS3 s \<longrightarrow> has_prefix u ''s3:s3.amazonaws.com/'' \<or> has_prefix u ''s3:https://'')"
proof (cases d)
  case (DestLocal l)
  with assms show ?thesis
    by (auto simp: local_backend_def local_uri_def res_bind_eq_Inr
        dest: clean_repo_path_segs(1) split: if_splits)
next
  case (DestSFTP s)
  with assms show ?thesis
    by (auto simp: sftp_backend_def sftp_uri_def res_bind_eq_Inr dest: clean_repo_path_segs(1))
next
  case (DestREST r)
  with assms show ?thesis
    by (fastforce simp: rest_backend_def rest_uri_def rest_base_url_def res_bind_eq_Inr Let_def
        dest: clean_repo_path_segs(1) split: if_splits sum.splits)
next
  case (DestS3 s)
  with assms show ?thesis
    by (auto simp: s3_backend_def s3_uri_def normalised_endpoint_def res_bind_eq_Inr
        dest: clean_repo_path_segs(1) split: if_splits sum.splits)
qed

theorem destination_uri_safe_witness:
  "has_prefix ''s3:s3.amazonaws.com/b/cp01'' ''s3:s3.amazonaws.com/''
     \<or> has_prefix ''s3:s3.amazonaws.com/b/cp01'' ''s3:https://''"
proof -
  let ?s = "\<lparr>s3_endpoint = [], s3_region = ''eu'', s3_bucket = ''b'', s3_access_key_id = [],
    s3_secret_access_key = [], s3_session_token = []\<rparr>"
  let ?N = "\<lparr>na_is_ipv6 = (\<lambda>_. False), na_parse = (\<lambda>_. Inl ErrNotFound), na_string = u_host\<rparr>"
  have "clean_repo_path ''cp01'' = Inr ''cp01''" by code_simp
  then have "d_uri (backend_of ?N (DestS3 ?s)) ''cp01'' = Inr ''s3:s3.amazonaws.com/b/cp01''"
    by (simp add: s3_backend_def s3_uri_def)
  from destination_uri_safe [OF this] show ?thesis by blast
qed

end
