(* ===== verification/Space.thy ===== *)
theory Space
  imports Destinations
begin

text \<open>
  How much room a destination has: \<open>internal/destination/space.go\<close>. The remote \<open>df\<close> is asked
  over ssh; the model holds the argument list, the quoting of the remote path and the reading
  of the answer, with the 64-bit wrap-around of the block counts.
\<close>

record space =
  sp_total_bytes :: "64 word"
  sp_free_bytes :: "64 word"

definition used_bytes :: "space \<Rightarrow> 64 word" where
  "used_bytes s = (if sp_total_bytes s < sp_free_bytes s then 0 else sp_total_bytes s - sp_free_bytes s)"

text \<open>\<open>Local.Space\<close> on what \<open>statfs\<close> reported: blocks, available blocks, block size.\<close>

definition local_space :: "64 word \<Rightarrow> 64 word \<Rightarrow> 64 word \<Rightarrow> space" where
  "local_space blocks bavail bsize =
     \<lparr>sp_total_bytes = blocks * bsize, sp_free_bytes = bavail * bsize\<rparr>"

text \<open>One row of \<open>df\<close>: \<open>None\<close> where the loop goes on to the next line.\<close>

definition df_row :: "string list \<Rightarrow> space option" where
  "df_row fs =
     (if length fs < 5 \<or> last fs = ''on'' then None
      else case parse_uint (fs ! (length fs - 5)) of
        None \<Rightarrow> None
      | Some blocks \<Rightarrow> (case parse_uint (fs ! (length fs - 3)) of
          None \<Rightarrow> None
        | Some available \<Rightarrow> Some \<lparr>sp_total_bytes = of_nat blocks * 1024,
                                 sp_free_bytes = of_nat available * 1024\<rparr>))"

definition max_df_line :: nat where "max_df_line = 64 * 1024"

fun df_loop :: "string list \<Rightarrow> space res" where
  "df_loop [] = Inl (ErrMsg ''sftp: could not read df output'' [])"
| "df_loop (l # ls) =
     (if length l \<ge> max_df_line
      then Inl (ErrWrap ''sftp: read df output'' (ErrMsg ''bufio.Scanner: token too long'' []))
      else case df_row (str_fields l) of Some s \<Rightarrow> Inr s | None \<Rightarrow> df_loop ls)"

definition df_lines :: "string \<Rightarrow> string list" where
  "df_lines s =
     (let ls = split_at (CHR 10) s; ls = (if last ls = [] then butlast ls else ls)
      in map (\<lambda>l. if l \<noteq> [] \<and> last l = CHR 13 then butlast l else l) ls)"

definition parse_df :: "string \<Rightarrow> space res" where
  "parse_df output = df_loop (df_lines output)"

definition shell_quote :: "string \<Rightarrow> string" where
  "shell_quote v = [CHR 39] @ replace_byte (CHR 39) [CHR 39, CHR 92, CHR 39, CHR 39] v @ [CHR 39]"

definition df_args :: "sftp_dest \<Rightarrow> string list" where
  "df_args s =
     [''-i'', s_identity_file s,
      ''-o'', ''UserKnownHostsFile='' @ s_known_hosts_file s,
      ''-o'', ''StrictHostKeyChecking=yes'',
      ''-o'', ''BatchMode=yes'',
      ''-o'', ''IdentitiesOnly=yes'',
      ''-l'', s_user s]
     @ (if s_port s \<noteq> 0 \<and> s_port s \<noteq> 22 then [''-p'', itoa (s_port s)] else [])
     @ [''--'', s_host s, ''df'', ''-Pk'', ''--'', shell_quote (s_root s)]"

section \<open>What the remote shell makes of it\<close>

text \<open>
  The specification side: how a POSIX shell splits a command line into words, as far as it is
  needed here. Inside single quotes every byte but the quote stands for itself; outside them a
  backslash takes the next byte literally and a space ends a word. Any other byte that a shell
  would interpret makes the result \<open>None\<close>: such a command line is not one simple command.
  \<open>cur\<close> is the word being read, \<open>None\<close> between words.
\<close>

definition shell_special :: "char \<Rightarrow> bool" where
  "shell_special c \<longleftrightarrow> c \<in> set (''|&;<>()$`*?[#~%!{}'' @ [CHR 34, CHR 9, CHR 10])"

fun sh_words :: "bool \<Rightarrow> string option \<Rightarrow> string \<Rightarrow> string list option" where
  "sh_words quoted cur [] =
     (if quoted then None else Some (case cur of None \<Rightarrow> [] | Some w \<Rightarrow> [rev w]))"
| "sh_words True cur (c # cs) =
     (if c = CHR 39 then sh_words False cur cs
      else sh_words True (Some (c # (case cur of None \<Rightarrow> [] | Some w \<Rightarrow> w))) cs)"
| "sh_words False cur (c # cs) =
     (if c = CHR 39 then sh_words True (Some (case cur of None \<Rightarrow> [] | Some w \<Rightarrow> w)) cs
      else if c = CHR 92 then
        (case cs of [] \<Rightarrow> None
         | d # ds \<Rightarrow> sh_words False (Some (d # (case cur of None \<Rightarrow> [] | Some w \<Rightarrow> w))) ds)
      else if c = CHR '' '' then
        (case cur of None \<Rightarrow> sh_words False None cs
         | Some w \<Rightarrow> map_option (\<lambda>ws. rev w # ws) (sh_words False None cs))
      else if shell_special c then None
      else sh_words False (Some (c # (case cur of None \<Rightarrow> [] | Some w \<Rightarrow> w))) cs)"

lemma sh_words_quoted:
  "sh_words True (Some w) (replace_byte (CHR 39) [CHR 39, CHR 92, CHR 39, CHR 39] v @ [CHR 39])
     = Some [rev w @ v]"
  by (induction v arbitrary: w) auto

text \<open>
  C0. The remote command is one command with the four words \<open>df -Pk -- root\<close>, whatever bytes
  the configured root contains: ssh joins the arguments after the host with spaces and hands
  them to a shell, and that shell reads the quoted root back as exactly one word. A root such as
  \<open>/srv; rm -rf /\<close> stays a file name.
\<close>

theorem df_command_not_injectable:
  "sh_words False None (join_with '' '' [''df'', ''-Pk'', ''--'', shell_quote root])
     = Some [''df'', ''-Pk'', ''--'', root]"
  using sh_words_quoted [of "[]" root] by (simp add: shell_quote_def shell_special_def)

text \<open>
  The arguments before the host end with \<open>--\<close>, so the host cannot be read as an ssh option.
\<close>

lemma df_args_shape:
  "\<exists>opts. df_args s = opts @ [''--'', s_host s, ''df'', ''-Pk'', ''--'', shell_quote (s_root s)]
     \<and> set opts \<subseteq> {''-i'', s_identity_file s, ''-o'', ''UserKnownHostsFile='' @ s_known_hosts_file s,
         ''StrictHostKeyChecking=yes'', ''BatchMode=yes'', ''IdentitiesOnly=yes'', ''-l'', s_user s,
         ''-p'', itoa (s_port s)}"
  unfolding df_args_def by (rule exI, rule conjI, subst append_assoc [symmetric], rule refl) auto

section \<open>Reading the answer\<close>

text \<open>
  C0. What \<open>df\<close> printed is read back exactly: on a row whose last five columns are the block
  count, the used and available blocks, the capacity and the mount point, with or without the
  device column, the sizes are the blocks times 1024 (modulo 2^64), and the used space never
  exceeds the total. A wrapped row and an unwrapped one give the same answer.
\<close>

theorem df_row_reads_blocks:
  assumes "blocks < 2 ^ 64" "avail < 2 ^ 64" "mount \<noteq> ''on''"
  shows "df_row (dev @ [nat_str blocks, used, nat_str avail, capacity, mount])
           = Some \<lparr>sp_total_bytes = of_nat blocks * 1024, sp_free_bytes = of_nat avail * 1024\<rparr>
         \<and> (\<forall>s. df_row (dev @ [nat_str blocks, used, nat_str avail, capacity, mount]) = Some s \<longrightarrow>
              used_bytes s \<le> sp_total_bytes s)"
proof -
  let ?row = "dev @ [nat_str blocks, used, nat_str avail, capacity, mount]"
  have "?row ! (length ?row - 5) = nat_str blocks" "?row ! (length ?row - 3) = nat_str avail"
    by (simp_all add: nth_append)
  then have "df_row ?row = Some \<lparr>sp_total_bytes = of_nat blocks * 1024, sp_free_bytes = of_nat avail * 1024\<rparr>"
    using assms by (simp add: df_row_def parse_uint_nat_str)
  moreover have "used_bytes s \<le> sp_total_bytes s" for s
    by (auto simp: used_bytes_def word_sub_le)
  ultimately show ?thesis by simp
qed

theorem df_row_reads_blocks_witness:
  "df_row ([''/dev/sda1''] @ [nat_str 1000, ''400'', nat_str 600, ''40%'', ''/srv''])
     = Some \<lparr>sp_total_bytes = 1024000, sp_free_bytes = 614400\<rparr>"
  using df_row_reads_blocks [of 1000 600 "''/srv''" "[''/dev/sda1'']" "''400''" "''40%''"] by simp

end
