(* ===== verification/Node_Types.thy ===== *)
theory Node_Types
  imports Jobs Go_Library
begin

text \<open>
  The records a standalone server keeps: \<open>internal/nodestore/types.go\<close> and the basket of
  \<open>basket.go\<close>. A \<open>*time.Time\<close> is an optional instant, a \<open>float64\<close> the code only stores is kept
  as its 64 bits, an \<open>int\<close> is a 64-bit word where the code computes with it.
\<close>

section \<open>Destinations and repositories\<close>

record destination_space =
  dp_total_bytes :: "64 word"
  dp_free_bytes :: "64 word"
  dp_measured_at :: "instant option"
  dp_error :: string
  dp_unsupported :: bool

record destination =
  ds_id :: string
  ds_name :: string
  ds_type :: string
  ds_config :: "(string \<times> string) list"
  ds_credentials_secret_id :: string
  ds_append_only :: bool
  ds_created_at :: instant
  ds_last_checked_at :: "instant option"
  ds_last_check_error :: string
  ds_space :: destination_space

record retention =
  keep_last :: int
  keep_daily :: int
  keep_weekly :: int
  keep_monthly :: int
  keep_yearly :: int

record plan_group =
  pg_protected :: bool
  pg_account :: string
  pg_host :: string
  pg_keep :: nat
  pg_drop :: nat
  pg_oldest :: "instant option"
  pg_newest :: "instant option"

record retention_state =
  rt_planned_at :: "instant option"
  rt_plan :: "plan_group list"
  rt_planned_keeps :: retention
  rt_would_keep :: nat
  rt_would_drop :: nat
  rt_applied_at :: "instant option"
  rt_dropped :: nat
  rt_attempted_at :: "instant option"
  rt_last_error :: string

record repository =
  rp_id :: string
  rp_destination_id :: string
  rp_repo_path :: string
  rp_password_secret_id :: string
  rp_chunker_source :: string
  rp_initialised_at :: "instant option"
  rp_recovery_noted_at :: "instant option"
  rp_approved_at :: "instant option"
  rp_approved_keeps :: retention
  rp_retention :: retention_state
  rp_created_at :: instant

text \<open>\<open>DestinationSpace.UsedBytes\<close> and \<open>Known\<close>\<close>

definition space_used_bytes :: "destination_space \<Rightarrow> 64 word" where
  "space_used_bytes s =
     (if dp_total_bytes s < dp_free_bytes s then 0 else dp_total_bytes s - dp_free_bytes s)"

definition space_known :: "destination_space \<Rightarrow> bool" where
  "space_known s \<longleftrightarrow> dp_total_bytes s > 0 \<and> dp_measured_at s \<noteq> None"

section \<open>Schedules, accounts, events\<close>

record policy =
  po_id :: string
  po_name :: string
  po_schedule_cron :: string
  po_payload_mode :: string
  po_compression :: string
  po_limit_upload_kib :: int
  po_retention :: retention
  po_repository_ids :: "string list"
  po_accounts :: "string list"
  po_excludes :: "string list"
  po_skip_homedir :: bool
  po_skip_databases :: bool
  po_skip_email :: bool
  po_include_system :: bool
  po_retry_failed :: bool
  po_alert_no_backup_days :: int
  po_alert_run_hours :: int
  po_enabled :: bool
  po_last_run_at :: "instant option"
  po_created_at :: instant

definition all_accounts :: "policy \<Rightarrow> bool" where
  "all_accounts p \<longleftrightarrow> length (po_accounts p) = 0"

record account_identity =
  ai_account :: string
  ai_uid :: int
  ai_since_at :: instant
  ai_recycled :: bool
  ai_retired_at :: "instant option"
  ai_last_seen :: instant
  ai_created_at :: instant

record lifecycle_event =
  le_id :: string
  le_event :: string
  le_account :: string
  le_ok :: bool
  le_detail :: string
  le_at :: instant

definition event_title :: "lifecycle_event \<Rightarrow> string" where
  "event_title e =
     (if le_event e = ''create'' then ''Created''
      else if le_event e = ''modify'' then ''Modified''
      else if le_event e = ''suspend'' then ''Suspended''
      else if le_event e = ''unsuspend'' then ''Unsuspended''
      else if le_event e = ''remove-pre'' then ''Removal check''
      else if le_event e = ''remove'' then ''Removed''
      else le_event e)"

definition event_outcome :: "lifecycle_event \<Rightarrow> string" where
  "event_outcome e =
     (if le_event e = ''remove-pre'' then (if le_ok e then ''Allowed'' else ''Blocked'')
      else if le_ok e then ''Handled'' else ''Failed'')"

section \<open>Jobs and restores\<close>

record job_progress =
  jp_percent :: "64 word"
  jp_bytes_done :: nat
  jp_total_bytes :: nat
  jp_files_done :: nat
  jp_total_files :: nat
  jp_repository :: string
  jp_at :: instant

record job_target =
  jt_repository_id :: string
  jt_status :: target_status
  jt_snapshot_id :: string
  jt_bytes_added :: nat
  jt_bytes_processed :: nat
  jt_duration_secs :: "64 word"
  jt_incomplete :: bool
  jt_error :: string
  jt_detail :: string

record node_job =
  jb_id :: string
  jb_policy_id :: string
  jb_account :: string
  jb_complete_account :: bool
  jb_status :: job_status
  jb_targets :: "job_target list"
  jb_staging_err :: string
  jb_progress :: "job_progress option"
  jb_queued_at :: instant
  jb_started_at :: "instant option"
  jb_finished_at :: "instant option"

record restore_progress =
  rg_stage :: string
  rg_percent :: "64 word"
  rg_known :: bool
  rg_bytes_restored :: nat
  rg_total_bytes :: nat
  rg_at :: instant

record selection =
  se_kind :: string
  se_names :: "string list"

record node_restore =
  re_id :: string
  re_account :: string
  re_repository_id :: string
  re_snapshot_id :: string
  re_kind :: string
  re_include_paths :: "string list"
  re_target_dir :: string
  re_item_kind :: string
  re_item_names :: "string list"
  re_items :: "selection list"
  re_unrestricted :: bool
  re_apply :: bool
  re_status :: job_status
  re_bytes_restored :: nat
  re_progress :: "restore_progress option"
  re_archive_path :: string
  re_restored_to :: string
  re_detail :: string
  re_partial_source :: bool
  re_skipped_parts :: "string list"
  re_hint :: string
  re_applied :: bool
  re_error :: string
  re_account_since :: instant
  re_queued_at :: instant
  re_started_at :: "instant option"
  re_finished_at :: "instant option"

definition selections :: "node_restore \<Rightarrow> selection list" where
  "selections r =
     (if length (re_items r) > 0 then re_items r
      else if re_item_kind r = [] then []
      else [\<lparr>se_kind = re_item_kind r, se_names = re_item_names r\<rparr>])"

section \<open>Channels, secrets, baskets\<close>

record channel =
  ch_id :: string
  ch_name :: string
  ch_kind :: string
  ch_config :: "(string \<times> string) list"
  ch_secrets_id :: string
  ch_events :: "string list"
  ch_enabled :: bool
  ch_last_sent :: "instant option"
  ch_last_error :: string
  ch_created_at :: instant

record secret =
  sc_id :: string
  sc_kind :: string
  sc_ciphertext :: string
  sc_key_id :: string
  sc_created_at :: instant

record basket =
  bk_owner :: string
  bk_account :: string
  bk_repository_id :: string
  bk_snapshot_id :: string
  bk_items :: "selection list"
  bk_updated_at :: instant

section \<open>Settings\<close>

record settings =
  st_staging_root :: string
  st_max_concurrent :: int
  st_identities_backfilled_at :: "instant option"
  st_safety_margin :: "64 word"
  st_restic_binary :: string
  st_restic_cache :: string
  st_restic_cacert :: string
  st_config_dir :: string
  st_hostname :: string
  st_pkgacct_flags :: "(string \<times> string) list"
  st_keep_output_days :: "64 word"
  st_protect_account_removal :: bool
  st_backup_on_suspension :: bool
  st_deleted_account_days :: "64 word"
  st_bug_email :: string
  st_log_level :: string
  st_sendmail_path :: string
  st_no_update_check :: bool
  st_update_channel :: string

text \<open>\<open>DefaultSettings\<close>; the safety margin is the \<open>float64\<close> 0.2.\<close>

definition default_settings :: settings where
  "default_settings = \<lparr>st_staging_root = ''/var/lib/gniza/staging'', st_max_concurrent = 1,
     st_identities_backfilled_at = None, st_safety_margin = 0x3FC999999999999A,
     st_restic_binary = ''restic'', st_restic_cache = ''/var/cache/gniza/restic'', st_restic_cacert = [],
     st_config_dir = ''/etc/gniza'', st_hostname = [], st_pkgacct_flags = [], st_keep_output_days = 0,
     st_protect_account_removal = False, st_backup_on_suspension = False, st_deleted_account_days = 0,
     st_bug_email = [], st_log_level = ''info'', st_sendmail_path = [], st_no_update_check = False,
     st_update_channel = []\<rparr>"

record upgrade_state =
  ug_version :: string
  ug_from :: string
  ug_stage :: string
  ug_started_at :: instant
  ug_finished_at :: instant
  ug_failed :: bool
  ug_error :: string
  ug_log :: string
  ug_dir :: string

record update_state =
  ud_checked_at :: instant
  ud_channel :: string
  ud_built_at :: instant
  ud_version :: string
  ud_url :: string
  ud_notes :: string
  ud_error :: string

text \<open>Durations are 64-bit nanosecond counts and wrap around.\<close>

definition hours_ns :: "64 word \<Rightarrow> 64 word" where
  "hours_ns n = n * 3600000000000"

definition keep_deleted_accounts_for :: "settings \<Rightarrow> 64 word" where
  "keep_deleted_accounts_for s =
     (if sint (st_deleted_account_days s) < 0 then 0
      else if st_deleted_account_days s = 0 then hours_ns (90 * 24)
      else hours_ns (st_deleted_account_days s * 24))"

definition keep_output_for :: "settings \<Rightarrow> 64 word" where
  "keep_output_for s =
     (if sint (st_keep_output_days s) < 0 then 0
      else if st_keep_output_days s = 0 then hours_ns (7 * 24)
      else hours_ns (st_keep_output_days s * 24))"

section \<open>Stored documents\<close>

text \<open>
  A stored value is the JSON of one of the records, which reads back as that record, or bytes
  that no record can be read from.
\<close>

datatype doc =
    DDestination destination
  | DRepository repository
  | DPolicy policy
  | DJob node_job
  | DRestore node_restore
  | DSecret secret
  | DSettings settings
  | DUpdate update_state
  | DUpgrade upgrade_state
  | DChannel channel
  | DIdentity account_identity
  | DLifecycle lifecycle_event
  | DBasket basket
  | DUnreadable string

section \<open>How long things are kept\<close>

lemma sint_days:
  fixes d :: "64 word"
  assumes "0 < sint d" "sint d \<le> 106751"
  shows "sint (hours_ns (d * 24)) = sint d * 86400000000000"
proof -
  have "hours_ns (d * 24) = of_int (sint d) * of_int 86400000000000"
    by (simp add: hours_ns_def)
  then have eq: "hours_ns (d * 24) = word_of_int (sint d * 86400000000000)"
    by (simp only: of_int_mult)
  have "signed_take_bit 63 (sint d * 86400000000000) = sint d * 86400000000000"
    using assms by (intro signed_take_bit_int_eq_self) simp_all
  then show ?thesis unfolding eq sint_sbintrunc' by simp
qed

text \<open>
  A deleted account's backups are kept for the configured number of days exactly, as long as
  these are at most 106751. Beyond that the 64-bit nanosecond count wraps around: 213504 days, a
  number the settings page accepts, come out as less than half an hour, after which the backups
  are forgotten.
\<close>

theorem keep_deleted_days_wrap:
  assumes "0 < sint d" "sint d \<le> 106751"
  shows "sint (keep_deleted_accounts_for (s\<lparr>st_deleted_account_days := d\<rparr>)) = sint d * 86400000000000
    \<and> 0 < sint (keep_deleted_accounts_for (s\<lparr>st_deleted_account_days := 213504\<rparr>))
    \<and> sint (keep_deleted_accounts_for (s\<lparr>st_deleted_account_days := 213504\<rparr>)) < 1800 * 1000000000"
  using assms sint_days [OF assms]
  by (auto simp: keep_deleted_accounts_for_def hours_ns_def)

theorem keep_deleted_days_wrap_witness:
  "sint (keep_deleted_accounts_for (default_settings\<lparr>st_deleted_account_days := 30\<rparr>)) = 30 * 86400000000000"
  using keep_deleted_days_wrap [of 30 default_settings] by simp

end
