(* ===== verification/Node_Store.thy ===== *)
theory Node_Store
  imports Node_Types "HOL-Library.AList"
begin

text \<open>
  The document store of a standalone server: \<open>internal/nodestore/nodestore.go\<close>. The bbolt
  database is a parameter; what the code relies on bbolt for are the laws of the locale
  \<open>bolt_store\<close>, and an ordered in-memory database shows that they can hold.
\<close>

section \<open>Buckets and the database\<close>

datatype bucket =
    BDestinations | BRepositories | BPolicies | BAccounts | BJobs | BRestores | BSecrets | BSettings
  | BChannels | BIdentities | BLifecycle | BBaskets

text \<open>
  What the code uses of a bbolt database inside a transaction: \<open>Get\<close>, \<open>Put\<close>, \<open>Delete\<close> and
  \<open>ForEach\<close> of a bucket, and whether the commit at the end of \<open>Update\<close> fails. \<open>bo_marshal\<close>
  says whether \<open>encoding/json\<close> refuses a value (a float that is not finite, a year past 9999).
\<close>

record 'db bolt =
  bo_get :: "bucket \<Rightarrow> string \<Rightarrow> 'db \<Rightarrow> doc option"
  bo_put :: "bucket \<Rightarrow> string \<Rightarrow> doc \<Rightarrow> 'db \<Rightarrow> 'db res"
  bo_delete :: "bucket \<Rightarrow> string \<Rightarrow> 'db \<Rightarrow> 'db res"
  bo_entries :: "bucket \<Rightarrow> 'db \<Rightarrow> (string \<times> doc) list"
  bo_commit :: "'db \<Rightarrow> err option"
  bo_marshal :: "doc \<Rightarrow> err option"

text \<open>
  bbolt's promises: a bucket is a map from keys to values, \<open>Put\<close> and \<open>Delete\<close> change one key of
  one bucket, and \<open>ForEach\<close> visits every key once, in byte order.
\<close>

locale bolt_store =
  fixes B :: "'db bolt"
  assumes get_put: "bo_put B b k d s = Inr s' \<Longrightarrow>
      bo_get B b' k' s' = (if b' = b \<and> k' = k then Some d else bo_get B b' k' s)"
    and get_delete: "bo_delete B b k s = Inr s' \<Longrightarrow>
      bo_get B b' k' s' = (if b' = b \<and> k' = k then None else bo_get B b' k' s)"
    and entries_get: "map_of (bo_entries B b s) k = bo_get B b k s"
    and entries_sorted: "sorted_wrt str_less (map fst (bo_entries B b s))"

section \<open>Transactions and documents\<close>

text \<open>\<open>db.Update\<close>: an error, also one of the commit, leaves the database as it was.\<close>

definition db_update :: "'db bolt \<Rightarrow> ('db, 'a) prog \<Rightarrow> ('db, 'a) prog" where
  "db_update B f =
     (\<lambda>s. case f s of
        (Inl e, _) \<Rightarrow> (Inl e, s)
      | (Inr a, s') \<Rightarrow> (case bo_commit B s' of Some e \<Rightarrow> (Inl e, s) | None \<Rightarrow> (Inr a, s')))"

text \<open>\<open>bucket.Put\<close> and \<open>bucket.Delete\<close> inside a transaction.\<close>

definition tx_put :: "'db bolt \<Rightarrow> bucket \<Rightarrow> string \<Rightarrow> doc \<Rightarrow> ('db, unit) prog" where
  "tx_put B b k d = (\<lambda>s. case bo_put B b k d s of Inl e \<Rightarrow> (Inl e, s) | Inr s' \<Rightarrow> (Inr (), s'))"

definition tx_delete :: "'db bolt \<Rightarrow> bucket \<Rightarrow> string \<Rightarrow> ('db, unit) prog" where
  "tx_delete B b k = (\<lambda>s. case bo_delete B b k s of Inl e \<Rightarrow> (Inl e, s) | Inr s' \<Rightarrow> (Inr (), s'))"

definition marshal :: "'db bolt \<Rightarrow> doc \<Rightarrow> doc res" where
  "marshal B d = (case bo_marshal B d of Some e \<Rightarrow> Inl e | None \<Rightarrow> Inr d)"

definition s_put :: "'db bolt \<Rightarrow> bucket \<Rightarrow> string \<Rightarrow> doc \<Rightarrow> ('db, unit) prog" where
  "s_put B b k d =
     (case marshal B d of
        Inl e \<Rightarrow> prog_fail (ErrWrap ''nodestore: encode'' e)
      | Inr encoded \<Rightarrow> db_update B (tx_put B b k encoded))"

definition s_get :: "'db bolt \<Rightarrow> bucket \<Rightarrow> string \<Rightarrow> (doc \<Rightarrow> 'a option) \<Rightarrow> ('db, 'a) prog" where
  "s_get B b k sel =
     (\<lambda>s. (case bo_get B b k s of
        None \<Rightarrow> Inl ErrNotFound
      | Some d \<Rightarrow> (case sel d of None \<Rightarrow> Inl (ErrMsg ''nodestore: decode'' [k]) | Some a \<Rightarrow> Inr a), s))"

definition s_delete :: "'db bolt \<Rightarrow> bucket \<Rightarrow> string \<Rightarrow> ('db, unit) prog" where
  "s_delete B b k =
     db_update B (\<lambda>s. case bo_get B b k s of
        None \<Rightarrow> (Inl ErrNotFound, s)
      | Some _ \<Rightarrow> tx_delete B b k s)"

text \<open>\<open>forEach\<close> with a callback that decodes and appends; it stops at the first bad document.\<close>

fun decode_all :: "(doc \<Rightarrow> 'a option) \<Rightarrow> (string \<times> doc) list \<Rightarrow> 'a list \<Rightarrow> 'a list res" where
  "decode_all sel [] acc = Inr acc"
| "decode_all sel ((k, d) # es) acc =
     (case sel d of
        None \<Rightarrow> Inl (ErrMsg ''json: cannot unmarshal'' [k])
      | Some a \<Rightarrow> decode_all sel es (acc @ [a]))"

definition s_list :: "'db bolt \<Rightarrow> bucket \<Rightarrow> (doc \<Rightarrow> 'a option) \<Rightarrow> ('db, 'a list) prog" where
  "s_list B b sel = (\<lambda>s. (decode_all sel (bo_entries B b s) [], s))"

section \<open>Reading a document as a record\<close>

fun as_destination where "as_destination (DDestination x) = Some x" | "as_destination _ = None"
fun as_repository where "as_repository (DRepository x) = Some x" | "as_repository _ = None"
fun as_policy where "as_policy (DPolicy x) = Some x" | "as_policy _ = None"
fun as_job where "as_job (DJob x) = Some x" | "as_job _ = None"
fun as_restore where "as_restore (DRestore x) = Some x" | "as_restore _ = None"
fun as_secret where "as_secret (DSecret x) = Some x" | "as_secret _ = None"
fun as_settings where "as_settings (DSettings x) = Some x" | "as_settings _ = None"
fun as_update where "as_update (DUpdate x) = Some x" | "as_update _ = None"
fun as_upgrade where "as_upgrade (DUpgrade x) = Some x" | "as_upgrade _ = None"
fun as_channel where "as_channel (DChannel x) = Some x" | "as_channel _ = None"
fun as_identity where "as_identity (DIdentity x) = Some x" | "as_identity _ = None"
fun as_lifecycle where "as_lifecycle (DLifecycle x) = Some x" | "as_lifecycle _ = None"
fun as_basket where "as_basket (DBasket x) = Some x" | "as_basket _ = None"

lemma as_eq_Some [simp]:
  "as_destination d = Some a \<longleftrightarrow> d = DDestination a"
  "as_repository d = Some b \<longleftrightarrow> d = DRepository b"
  "as_policy d = Some c \<longleftrightarrow> d = DPolicy c"
  "as_job d = Some e \<longleftrightarrow> d = DJob e"
  "as_restore d = Some f \<longleftrightarrow> d = DRestore f"
  "as_identity d = Some g \<longleftrightarrow> d = DIdentity g"
  "as_lifecycle d = Some h \<longleftrightarrow> d = DLifecycle h"
  "as_basket d = Some i \<longleftrightarrow> d = DBasket i"
  by (cases d; auto)+

section \<open>Facts about documents\<close>

lemma decode_all_eq:
  "decode_all sel es acc = Inr xs \<longleftrightarrow> (\<exists>ys. xs = acc @ ys \<and> map (sel \<circ> snd) es = map Some ys)"
proof (induction sel es acc arbitrary: xs rule: decode_all.induct)
  case (2 sel k d es acc)
  show ?case
  proof (cases "sel d")
    case None
    then show ?thesis by auto
  next
    case (Some a)
    with 2 [of a xs] show ?thesis
      by (auto simp: Cons_eq_map_conv)
  qed
qed auto

lemma decode_all_Nil: "decode_all sel es [] = Inr xs \<longleftrightarrow> map (sel \<circ> snd) es = map Some xs"
  by (simp add: decode_all_eq)

lemma s_get_Inr [simp]:
  "s_get B b k sel s = (Inr a, s') \<longleftrightarrow> s' = s \<and> (\<exists>d. bo_get B b k s = Some d \<and> sel d = Some a)"
  by (auto simp: s_get_def split: option.splits)

lemma s_get_state [simp]: "snd (s_get B b k sel s) = s"
  by (simp add: s_get_def)

lemma s_list_Inr [simp]:
  "s_list B b sel s = (Inr xs, s') \<longleftrightarrow> s' = s \<and> map (sel \<circ> snd) (bo_entries B b s) = map Some xs"
  by (auto simp: s_list_def decode_all_Nil)

lemma s_list_state [simp]: "snd (s_list B b sel s) = s"
  by (simp add: s_list_def)

lemma db_update_Inr [simp]:
  "db_update B f s = (Inr a, s') \<longleftrightarrow> f s = (Inr a, s') \<and> bo_commit B s' = None"
  by (auto simp: db_update_def split: prod.splits sum.splits option.splits)

lemma db_update_Inl: "db_update B f s = (Inl e, s') \<Longrightarrow> s' = s"
  by (auto simp: db_update_def split: prod.splits sum.splits option.splits)

lemma tx_put_Inr [simp]: "tx_put B b k d s = (Inr u, s') \<longleftrightarrow> bo_put B b k d s = Inr s'"
  by (auto simp: tx_put_def split: sum.splits)

lemma tx_delete_Inr [simp]: "tx_delete B b k s = (Inr u, s') \<longleftrightarrow> bo_delete B b k s = Inr s'"
  by (auto simp: tx_delete_def split: sum.splits)

lemma s_put_Inr:
  "s_put B b k d s = (Inr u, s') \<longleftrightarrow>
     bo_marshal B d = None \<and> bo_put B b k d s = Inr s' \<and> bo_commit B s' = None"
  by (auto simp: s_put_def marshal_def split: option.splits)

lemma s_put_Inl: "s_put B b k d s = (Inl e, s') \<Longrightarrow> s' = s"
  by (auto simp: s_put_def marshal_def dest: db_update_Inl split: option.splits)

lemma s_delete_Inr:
  "s_delete B b k s = (Inr u, s') \<longleftrightarrow>
     bo_get B b k s \<noteq> None \<and> bo_delete B b k s = Inr s' \<and> bo_commit B s' = None"
  by (auto simp: s_delete_def split: option.splits)

lemma s_delete_Inl: "s_delete B b k s = (Inl e, s') \<Longrightarrow> s' = s"
  by (auto simp: s_delete_def dest: db_update_Inl)

context bolt_store
begin

lemma put_get:
  "s_put B b k d s = (Inr u, s') \<Longrightarrow>
     bo_get B b' k' s' = (if b' = b \<and> k' = k then Some d else bo_get B b' k' s)"
  by (simp add: s_put_Inr get_put)

lemma delete_get:
  "s_delete B b k s = (Inr u, s') \<Longrightarrow>
     bo_get B b' k' s' = (if b' = b \<and> k' = k then None else bo_get B b' k' s)"
  by (simp add: s_delete_Inr get_delete)

lemma entries_distinct: "distinct (map fst (bo_entries B b s))"
proof -
  have "sorted_wrt str_less ks \<Longrightarrow> distinct ks" for ks
    by (induction ks) auto
  then show ?thesis using entries_sorted by blast
qed

lemma entries_iff: "(k, d) \<in> set (bo_entries B b s) \<longleftrightarrow> bo_get B b k s = Some d"
  using entries_distinct entries_get by (metis map_of_eq_Some_iff)

text \<open>The same documents give the same entries: the keys are sorted.\<close>

lemma entries_cong:
  assumes "\<And>k. bo_get B b k s = bo_get B b k s'"
  shows "bo_entries B b s = bo_entries B b s'"
proof -
  let ?le = "\<lambda>x y. str_less (fst x) (fst y)"
  have sorted: "sorted_wrt ?le (bo_entries B b t)" for t
    using entries_sorted by (simp add: sorted_wrt_map)
  have "set (bo_entries B b s) = set (bo_entries B b s')"
    using entries_iff assms by (metis subrelI subset_antisym)
  moreover have "sorted_wrt ?le xs \<Longrightarrow> sorted_wrt ?le ys \<Longrightarrow> set xs = set ys \<Longrightarrow> xs = ys"
    for xs ys :: "(string \<times> doc) list"
  proof (induction xs arbitrary: ys)
    case (Cons x xs)
    then obtain y ys' where ys: "ys = y # ys'" by (cases ys) auto
    have "x = y"
      using Cons.prems ys str_less_asym by (metis list.set_intros(1) set_ConsD sorted_wrt.simps(2))
    moreover have "x \<notin> set xs" "y \<notin> set ys'"
      using Cons.prems ys str_less_irrefl by auto
    ultimately have "set xs = set ys'"
      using Cons.prems(3) ys by (metis insert_ident list.set(2))
    with Cons ys \<open>x = y\<close> show ?case by simp
  qed auto
  ultimately show ?thesis using sorted by blast
qed

lemma listed_iff:
  assumes "s_list B b sel s = (Inr xs, s')"
  shows "x \<in> set xs \<longleftrightarrow> (\<exists>k d. bo_get B b k s = Some d \<and> sel d = Some x)"
proof -
  from assms have "map (sel \<circ> snd) (bo_entries B b s) = map Some xs" by simp
  then have "set (map (sel \<circ> snd) (bo_entries B b s)) = Some ` set xs" by simp
  then have "x \<in> set xs \<longleftrightarrow> Some x \<in> (sel \<circ> snd) ` set (bo_entries B b s)" by (auto simp: image_iff)
  also have "\<dots> \<longleftrightarrow> (\<exists>k d. (k, d) \<in> set (bo_entries B b s) \<and> sel d = Some x)"
    by (force simp: image_iff)
  finally show ?thesis by (simp only: entries_iff)
qed

lemma all_read:
  assumes "s_list B b sel s = (Inr xs, s')" "bo_get B b k s = Some d"
  shows "\<exists>x \<in> set xs. sel d = Some x"
proof -
  from assms(1) have "map (sel \<circ> snd) (bo_entries B b s) = map Some xs" by simp
  then have "(sel \<circ> snd) ` set (bo_entries B b s) = Some ` set xs"
    by (metis image_set)
  moreover from assms(2) have "(k, d) \<in> set (bo_entries B b s)" by (simp only: entries_iff)
  ultimately have "sel d \<in> Some ` set xs" by (metis comp_apply imageI snd_conv)
  then show ?thesis by auto
qed

end

section \<open>An ordered database in memory\<close>

type_synonym mem_db = "bucket \<Rightarrow> (string \<times> doc) list"

definition by_key :: "string \<times> doc \<Rightarrow> string \<times> doc \<Rightarrow> bool" where
  "by_key x y \<longleftrightarrow> str_less (fst x) (fst y)"

definition mem_bolt :: "mem_db bolt" where
  "mem_bolt = \<lparr>bo_get = (\<lambda>b k s. map_of (s b) k),
     bo_put = (\<lambda>b k d s. if k = [] then Inl (ErrMsg ''key required'' []) else Inr (s(b := (k, d) # s b))),
     bo_delete = (\<lambda>b k s. Inr (s(b := filter (\<lambda>e. fst e \<noteq> k) (s b)))),
     bo_entries = (\<lambda>b s. go_sort by_key (AList.clearjunk (s b))),
     bo_commit = (\<lambda>s. None), bo_marshal = (\<lambda>d. None)\<rparr>"

interpretation by_key: strict_weak by_key
  by unfold_locales (auto simp: by_key_def dest: str_less_asym str_order.cotrans)

lemma sorted_distinct_keys:
  assumes "sorted_wrt (\<lambda>a b. \<not> by_key b a) es" "distinct (map fst es)"
  shows "sorted_wrt str_less (map fst es)"
  using assms
proof (induction es)
  case (Cons e es)
  then show ?case
    using str_less_linear by (fastforce simp: by_key_def)
qed simp

lemma mset_keys_distinct: "mset es = mset es' \<Longrightarrow> distinct (map fst es) \<longleftrightarrow> distinct (map fst es')"
  by (metis mset_map mset_eq_imp_distinct_iff)

lemma map_of_without: "map_of (filter (\<lambda>e. fst e \<noteq> k) es) = (map_of es)(k := None)"
  by (induction es) (auto simp: fun_eq_iff)

interpretation mem: bolt_store mem_bolt
proof
  fix b :: bucket and s :: mem_db and k
  have d: "distinct (map fst (go_sort by_key (AList.clearjunk (s b))))"
    using mset_keys_distinct [OF mset_go_sort [of by_key "AList.clearjunk (s b)"]]
    by (simp add: distinct_clearjunk)
  show "sorted_wrt str_less (map fst (bo_entries mem_bolt b s))"
    using sorted_distinct_keys [OF by_key.sorted_go_sort d] by (simp add: mem_bolt_def)
  have "map_of (go_sort by_key (AList.clearjunk (s b))) = map_of (AList.clearjunk (s b))"
    by (rule map_of_eqI) (use d in \<open>auto simp: distinct_clearjunk map_of_eq_Some_iff\<close>)
  then show "map_of (bo_entries mem_bolt b s) k = bo_get mem_bolt b k s"
    by (simp add: mem_bolt_def map_of_clearjunk)
qed (auto simp: mem_bolt_def map_of_without split: if_splits)

end
