(* ===== verification/Node_Queries.thy ===== *)
theory Node_Queries
  imports Node_Store
begin

text \<open>
  The store's operations: \<open>internal/nodestore/queries.go\<close> and \<open>forget.go\<close>. A new identifier
  and the current time are arguments, because they come from outside. An operation that returns
  a record together with an error returns the error alone here.
\<close>

section \<open>Settings and secrets\<close>

definition settings_key :: string where "settings_key = ''node''"
definition update_key :: string where "update_key = ''update''"
definition upgrade_key :: string where "upgrade_key = ''upgrade''"

text \<open>A record that was never written reads as a default.\<close>

definition or_default :: "('db, 'a) prog \<Rightarrow> 'a \<Rightarrow> ('db, 'a) prog" where
  "or_default m d =
     (\<lambda>s. case m s of
        (Inl e, s') \<Rightarrow> (if is_not_found e then (Inr d, s') else (Inl e, s'))
      | (Inr a, s') \<Rightarrow> (Inr a, s'))"

definition get_settings :: "'db bolt \<Rightarrow> ('db, settings) prog" where
  "get_settings B = or_default (s_get B BSettings settings_key as_settings) default_settings"

definition save_settings :: "'db bolt \<Rightarrow> settings \<Rightarrow> ('db, unit) prog" where
  "save_settings B st = s_put B BSettings settings_key (DSettings st)"

definition zero_update :: update_state where
  "zero_update = \<lparr>ud_checked_at = zero_time, ud_channel = [], ud_built_at = zero_time, ud_version = [],
     ud_url = [], ud_notes = [], ud_error = []\<rparr>"

definition get_update_state :: "'db bolt \<Rightarrow> ('db, update_state) prog" where
  "get_update_state B = or_default (s_get B BSettings update_key as_update) zero_update"

definition save_update_state :: "'db bolt \<Rightarrow> update_state \<Rightarrow> ('db, unit) prog" where
  "save_update_state B u = s_put B BSettings update_key (DUpdate u)"

definition zero_upgrade :: upgrade_state where
  "zero_upgrade = \<lparr>ug_version = [], ug_from = [], ug_stage = [], ug_started_at = zero_time,
     ug_finished_at = zero_time, ug_failed = False, ug_error = [], ug_log = [], ug_dir = []\<rparr>"

definition get_upgrade_state :: "'db bolt \<Rightarrow> ('db, upgrade_state) prog" where
  "get_upgrade_state B = or_default (s_get B BSettings upgrade_key as_upgrade) zero_upgrade"

definition save_upgrade_state :: "'db bolt \<Rightarrow> upgrade_state \<Rightarrow> ('db, unit) prog" where
  "save_upgrade_state B u = s_put B BSettings upgrade_key (DUpgrade u)"

definition put_secret :: "'db bolt \<Rightarrow> string \<Rightarrow> instant \<Rightarrow> string \<Rightarrow> string \<Rightarrow> string \<Rightarrow> ('db, string) prog" where
  "put_secret B new_id now kind ciphertext key_id =
     (let sec = \<lparr>sc_id = new_id, sc_kind = kind, sc_ciphertext = ciphertext, sc_key_id = key_id,
                 sc_created_at = now\<rparr>
      in prog_bind (s_put B BSecrets (sc_id sec) (DSecret sec)) (\<lambda>_. prog_return (sc_id sec)))"

definition get_secret :: "'db bolt \<Rightarrow> string \<Rightarrow> ('db, secret) prog" where
  "get_secret B i = s_get B BSecrets i as_secret"

section \<open>Listing in an order\<close>

definition sorted_list :: "'db bolt \<Rightarrow> bucket \<Rightarrow> (doc \<Rightarrow> 'a option) \<Rightarrow> ('a \<Rightarrow> 'a \<Rightarrow> bool) \<Rightarrow> ('db, 'a list) prog" where
  "sorted_list B b sel lt = prog_bind (s_list B b sel) (\<lambda>xs. prog_return (go_sort lt xs))"

definition destinations :: "'db bolt \<Rightarrow> ('db, destination list) prog" where
  "destinations B = sorted_list B BDestinations as_destination (\<lambda>a b. str_less (ds_name a) (ds_name b))"

definition older_repository :: "repository \<Rightarrow> repository \<Rightarrow> bool" where
  "older_repository a b \<longleftrightarrow> rp_created_at a < rp_created_at b"

definition repositories :: "'db bolt \<Rightarrow> ('db, repository list) prog" where
  "repositories B = sorted_list B BRepositories as_repository older_repository"

definition policies :: "'db bolt \<Rightarrow> ('db, policy list) prog" where
  "policies B = sorted_list B BPolicies as_policy (\<lambda>a b. str_less (po_name a) (po_name b))"

definition channels :: "'db bolt \<Rightarrow> ('db, channel list) prog" where
  "channels B = sorted_list B BChannels as_channel (\<lambda>a b. ch_created_at a < ch_created_at b)"

definition identities :: "'db bolt \<Rightarrow> ('db, account_identity list) prog" where
  "identities B = sorted_list B BIdentities as_identity (\<lambda>a b. str_less (ai_account a) (ai_account b))"

text \<open>Newest first, then by account, then by id.\<close>

definition newer :: "instant \<times> string \<times> string \<Rightarrow> instant \<times> string \<times> string \<Rightarrow> bool" where
  "newer a b =
     (case (a, b) of ((qa, na, ia), (qb, nb, ib)) \<Rightarrow>
        if qa \<noteq> qb then qb < qa
        else if na \<noteq> nb then str_less na nb
        else str_less ia ib)"

definition capped :: "int \<Rightarrow> 'a list \<Rightarrow> 'a list" where
  "capped limit xs = (if limit > 0 \<and> int (length xs) > limit then take (nat limit) xs else xs)"

definition job_order :: "node_job \<Rightarrow> node_job \<Rightarrow> bool" where
  "job_order a b = newer (jb_queued_at a, jb_account a, jb_id a) (jb_queued_at b, jb_account b, jb_id b)"

definition restore_order :: "node_restore \<Rightarrow> node_restore \<Rightarrow> bool" where
  "restore_order a b = newer (re_queued_at a, re_account a, re_id a) (re_queued_at b, re_account b, re_id b)"

definition jobs :: "'db bolt \<Rightarrow> int \<Rightarrow> ('db, node_job list) prog" where
  "jobs B limit = prog_bind (sorted_list B BJobs as_job job_order) (\<lambda>js. prog_return (capped limit js))"

definition restores :: "'db bolt \<Rightarrow> int \<Rightarrow> ('db, node_restore list) prog" where
  "restores B limit =
     prog_bind (sorted_list B BRestores as_restore restore_order) (\<lambda>rs. prog_return (capped limit rs))"

definition lifecycle_events :: "'db bolt \<Rightarrow> int \<Rightarrow> ('db, lifecycle_event list) prog" where
  "lifecycle_events B limit =
     prog_bind (sorted_list B BLifecycle as_lifecycle (\<lambda>a b. le_at b < le_at a))
       (\<lambda>es. prog_return (capped limit es))"

section \<open>Destinations\<close>

definition put_destination :: "'db bolt \<Rightarrow> string \<Rightarrow> instant \<Rightarrow> destination \<Rightarrow> ('db, destination) prog" where
  "put_destination B new_id now dest =
     (let dest = (if ds_id dest = [] then dest\<lparr>ds_id := new_id\<rparr> else dest);
          dest = (if is_zero (ds_created_at dest) then dest\<lparr>ds_created_at := now\<rparr> else dest)
      in prog_bind (s_put B BDestinations (ds_id dest) (DDestination dest)) (\<lambda>_. prog_return dest))"

definition get_destination :: "'db bolt \<Rightarrow> string \<Rightarrow> ('db, destination) prog" where
  "get_destination B i = s_get B BDestinations i as_destination"

text \<open>The first schedule that still sends backups to one of the repositories.\<close>

fun first_sending :: "string \<Rightarrow> policy list \<Rightarrow> policy option" where
  "first_sending repo_id [] = None"
| "first_sending repo_id (p # ps) =
     (if list_ex (\<lambda>target. target = repo_id) (po_repository_ids p) then Some p
      else first_sending repo_id ps)"

fun refuse_in_use :: "repository list \<Rightarrow> policy list \<Rightarrow> unit res" where
  "refuse_in_use [] ps = Inr ()"
| "refuse_in_use (r # rs) ps =
     (case first_sending (rp_id r) ps of
        Some p \<Rightarrow> Inl (ErrMsg ''nodestore: the schedule still sends backups here'' [po_name p])
      | None \<Rightarrow> refuse_in_use rs ps)"

fun delete_repositories :: "'db bolt \<Rightarrow> repository list \<Rightarrow> ('db, unit) prog" where
  "delete_repositories B [] = prog_return ()"
| "delete_repositories B (r # rs) =
     prog_bind (s_delete B BRepositories (rp_id r)) (\<lambda>_. delete_repositories B rs)"

definition delete_destination :: "'db bolt \<Rightarrow> string \<Rightarrow> ('db, unit) prog" where
  "delete_destination B i =
     prog_bind (repositories B) (\<lambda>repos.
     prog_bind (policies B) (\<lambda>ps.
       let owned = filter (\<lambda>r. rp_destination_id r = i) repos in
       prog_bind (prog_lift (refuse_in_use owned ps)) (\<lambda>_.
       prog_bind (delete_repositories B owned) (\<lambda>_.
         s_delete B BDestinations i))))"

section \<open>Repositories\<close>

fun oldest_loop :: "repository \<Rightarrow> repository list \<Rightarrow> repository" where
  "oldest_loop oldest [] = oldest"
| "oldest_loop oldest (r # rs) =
     oldest_loop (if rp_created_at r < rp_created_at oldest then r else oldest) rs"

text \<open>The map built by assigning in list order: the last repository with an id wins.\<close>

definition by_id :: "repository list \<Rightarrow> string \<Rightarrow> repository option" where
  "by_id rs = map_of (rev (map (\<lambda>r. (rp_id r, r)) rs))"

text \<open>Following the chain of sources, at most as many steps as there are repositories.\<close>

fun follow_chain :: "(string \<Rightarrow> repository option) \<Rightarrow> nat \<Rightarrow> repository \<Rightarrow> repository" where
  "follow_chain m 0 r = r"
| "follow_chain m (Suc n) r =
     (if rp_chunker_source r = [] then r
      else case m (rp_chunker_source r) of None \<Rightarrow> r | Some parent \<Rightarrow> follow_chain m n parent)"

definition chunker_source :: "repository list \<Rightarrow> string" where
  "chunker_source existing =
     rp_id (follow_chain (by_id existing) (length existing) (oldest_loop (hd existing) (tl existing)))"

definition put_repository :: "'db bolt \<Rightarrow> string \<Rightarrow> instant \<Rightarrow> repository \<Rightarrow> ('db, repository) prog" where
  "put_repository B new_id now repo =
     (if rp_id repo \<noteq> [] then
        prog_bind (s_put B BRepositories (rp_id repo) (DRepository repo)) (\<lambda>_. prog_return repo)
      else prog_bind (repositories B) (\<lambda>existing.
        let repo = repo\<lparr>rp_id := new_id, rp_created_at := now\<rparr>;
            repo = (if rp_chunker_source repo = [] \<and> length existing > 0
                    then repo\<lparr>rp_chunker_source := chunker_source existing\<rparr> else repo)
        in prog_bind (s_put B BRepositories (rp_id repo) (DRepository repo)) (\<lambda>_. prog_return repo)))"

definition get_repository :: "'db bolt \<Rightarrow> string \<Rightarrow> ('db, repository) prog" where
  "get_repository B i = s_get B BRepositories i as_repository"

definition mark_repository_initialised :: "'db bolt \<Rightarrow> instant \<Rightarrow> string \<Rightarrow> ('db, unit) prog" where
  "mark_repository_initialised B now i =
     prog_bind (get_repository B i) (\<lambda>repo.
       s_put B BRepositories i (DRepository (repo\<lparr>rp_initialised_at := Some now\<rparr>)))"

section \<open>Policies and channels\<close>

definition put_policy :: "'db bolt \<Rightarrow> string \<Rightarrow> instant \<Rightarrow> policy \<Rightarrow> ('db, policy) prog" where
  "put_policy B new_id now p =
     (let p = (if po_id p = [] then p\<lparr>po_id := new_id, po_created_at := now\<rparr> else p);
          p = (if po_payload_mode p = [] then p\<lparr>po_payload_mode := ''split''\<rparr> else p);
          p = (if po_compression p = [] then p\<lparr>po_compression := ''auto''\<rparr> else p)
      in prog_bind (s_put B BPolicies (po_id p) (DPolicy p)) (\<lambda>_. prog_return p))"

definition get_policy :: "'db bolt \<Rightarrow> string \<Rightarrow> ('db, policy) prog" where
  "get_policy B i = s_get B BPolicies i as_policy"

definition delete_policy :: "'db bolt \<Rightarrow> string \<Rightarrow> ('db, unit) prog" where
  "delete_policy B i = s_delete B BPolicies i"

definition set_policy_last_run :: "'db bolt \<Rightarrow> string \<Rightarrow> instant \<Rightarrow> ('db, unit) prog" where
  "set_policy_last_run B i at =
     prog_bind (get_policy B i) (\<lambda>p. s_put B BPolicies i (DPolicy (p\<lparr>po_last_run_at := Some at\<rparr>)))"

definition put_channel :: "'db bolt \<Rightarrow> string \<Rightarrow> instant \<Rightarrow> channel \<Rightarrow> ('db, channel) prog" where
  "put_channel B new_id now c =
     (let c = (if ch_id c = [] then c\<lparr>ch_id := new_id, ch_created_at := now\<rparr> else c)
      in prog_bind (s_put B BChannels (ch_id c) (DChannel c)) (\<lambda>_. prog_return c))"

definition get_channel :: "'db bolt \<Rightarrow> string \<Rightarrow> ('db, channel) prog" where
  "get_channel B i = s_get B BChannels i as_channel"

definition delete_channel :: "'db bolt \<Rightarrow> string \<Rightarrow> ('db, unit) prog" where
  "delete_channel B i = s_delete B BChannels i"

section \<open>Jobs and restores\<close>

text \<open>A status left out of a record is the empty string.\<close>

definition no_status :: job_status where "no_status = StatusOther []"

definition put_job :: "'db bolt \<Rightarrow> string \<Rightarrow> instant \<Rightarrow> node_job \<Rightarrow> ('db, node_job) prog" where
  "put_job B new_id now j =
     (let j = (if jb_id j = [] then j\<lparr>jb_id := new_id, jb_queued_at := now\<rparr> else j)
      in prog_bind (s_put B BJobs (jb_id j) (DJob j)) (\<lambda>_. prog_return j))"

text \<open>\<open>PutJobs\<close>: queue times a nanosecond apart keep the order; one transaction stores them all.\<close>

definition prepare_job :: "(nat \<Rightarrow> string) \<Rightarrow> instant \<Rightarrow> nat \<Rightarrow> node_job \<Rightarrow> node_job" where
  "prepare_job new_id now i j =
     (let j = (if jb_id j = [] then j\<lparr>jb_id := new_id i\<rparr> else j);
          j = (if is_zero (jb_queued_at j) then j\<lparr>jb_queued_at := now + int i\<rparr> else j)
      in if jb_status j = no_status then j\<lparr>jb_status := StatusPending\<rparr> else j)"

fun prepare_jobs :: "'db bolt \<Rightarrow> (nat \<Rightarrow> string) \<Rightarrow> instant \<Rightarrow> nat \<Rightarrow> node_job list \<Rightarrow> node_job list res" where
  "prepare_jobs B new_id now i [] = Inr []"
| "prepare_jobs B new_id now i (j # js) =
     (let j = prepare_job new_id now i j in
      case marshal B (DJob j) of
        Inl e \<Rightarrow> Inl (ErrWrap ''nodestore: encode jobs'' e)
      | Inr _ \<Rightarrow> res_bind (prepare_jobs B new_id now (i + 1) js) (\<lambda>js. Inr (j # js)))"

fun tx_put_jobs :: "'db bolt \<Rightarrow> node_job list \<Rightarrow> ('db, unit) prog" where
  "tx_put_jobs B [] = prog_return ()"
| "tx_put_jobs B (j # js) = prog_bind (tx_put B BJobs (jb_id j) (DJob j)) (\<lambda>_. tx_put_jobs B js)"

definition put_jobs :: "'db bolt \<Rightarrow> (nat \<Rightarrow> string) \<Rightarrow> instant \<Rightarrow> node_job list \<Rightarrow> ('db, node_job list) prog" where
  "put_jobs B new_id now js =
     prog_bind (prog_lift (prepare_jobs B new_id now 0 js)) (\<lambda>js.
     prog_bind (db_update B (tx_put_jobs B js)) (\<lambda>_. prog_return js))"

definition get_job :: "'db bolt \<Rightarrow> string \<Rightarrow> ('db, node_job) prog" where
  "get_job B i = s_get B BJobs i as_job"

definition put_restore :: "'db bolt \<Rightarrow> string \<Rightarrow> instant \<Rightarrow> node_restore \<Rightarrow> ('db, node_restore) prog" where
  "put_restore B new_id now r =
     (let r = (if re_id r = [] then r\<lparr>re_id := new_id, re_queued_at := now\<rparr> else r);
          r = (if re_status r = no_status then r\<lparr>re_status := StatusPending\<rparr> else r)
      in prog_bind (s_put B BRestores (re_id r) (DRestore r)) (\<lambda>_. prog_return r))"

definition get_restore :: "'db bolt \<Rightarrow> string \<Rightarrow> ('db, node_restore) prog" where
  "get_restore B i = s_get B BRestores i as_restore"

definition set_restore_progress :: "'db bolt \<Rightarrow> string \<Rightarrow> instant \<Rightarrow> string \<Rightarrow> restore_progress \<Rightarrow> ('db, unit) prog" where
  "set_restore_progress B new_id now i progress =
     prog_bind (get_restore B i) (\<lambda>stored.
       if terminal (re_status stored) then prog_return ()
       else prog_bind (put_restore B new_id now (stored\<lparr>re_progress := Some progress\<rparr>)) (\<lambda>_. prog_return ()))"

definition set_job_progress :: "'db bolt \<Rightarrow> string \<Rightarrow> instant \<Rightarrow> string \<Rightarrow> job_progress \<Rightarrow> ('db, unit) prog" where
  "set_job_progress B new_id now i progress =
     prog_bind (get_job B i) (\<lambda>stored.
       if terminal (jb_status stored) then prog_return ()
       else prog_bind (put_job B new_id now (stored\<lparr>jb_progress := Some progress\<rparr>)) (\<lambda>_. prog_return ()))"

definition running_job_for :: "'db bolt \<Rightarrow> string \<Rightarrow> ('db, bool) prog" where
  "running_job_for B account =
     prog_bind (jobs B 0) (\<lambda>js.
       if list_ex (\<lambda>j. jb_account j = account \<and> \<not> terminal (jb_status j)) js then prog_return True
       else prog_bind (restores B 0) (\<lambda>rs.
         prog_return (list_ex (\<lambda>r. re_account r = account \<and> \<not> terminal (re_status r)) rs)))"

text \<open>The loops of \<open>PendingWork\<close> run from the end of a newest-first list: the oldest wins.\<close>

fun find_first :: "('a \<Rightarrow> bool) \<Rightarrow> 'a list \<Rightarrow> 'a option" where
  "find_first p [] = None"
| "find_first p (x # xs) = (if p x then Some x else find_first p xs)"

datatype work = NoWork | RestoreWork node_restore | JobWork node_job

definition pending_work :: "'db bolt \<Rightarrow> ('db, work) prog" where
  "pending_work B =
     prog_bind (restores B 0) (\<lambda>rs.
       case find_first (\<lambda>r. re_status r = StatusPending) (rev rs) of
         Some r \<Rightarrow> prog_return (RestoreWork r)
       | None \<Rightarrow>
           prog_bind (jobs B 0) (\<lambda>js.
             case find_first (\<lambda>j. jb_status j = StatusPending) (rev js) of
               Some j \<Rightarrow> prog_return (JobWork j)
             | None \<Rightarrow> prog_return NoWork))"

section \<open>Identities and lifecycle events\<close>

definition put_identity :: "'db bolt \<Rightarrow> instant \<Rightarrow> account_identity \<Rightarrow> ('db, account_identity) prog" where
  "put_identity B now a =
     (let a = (if is_zero (ai_created_at a) then a\<lparr>ai_created_at := now\<rparr> else a);
          a = a\<lparr>ai_last_seen := now\<rparr>
      in prog_bind (s_put B BIdentities (ai_account a) (DIdentity a)) (\<lambda>_. prog_return a))"

definition get_identity :: "'db bolt \<Rightarrow> string \<Rightarrow> ('db, account_identity) prog" where
  "get_identity B account = s_get B BIdentities account as_identity"

text \<open>
  \<open>[]rune\<close> of a string: UTF-8 decoding, where a byte that starts no valid sequence stands alone
  and becomes U+FFFD when it is written back.
\<close>

definition cont :: "nat \<Rightarrow> nat \<Rightarrow> string \<Rightarrow> bool" where
  "cont lo hi s \<longleftrightarrow> s \<noteq> [] \<and> lo \<le> of_char (hd s) \<and> of_char (hd s) \<le> hi"

definition rune_len :: "string \<Rightarrow> nat" where
  "rune_len s =
     (let b = (of_char (hd s) :: nat); t = tl s;
          c2 = cont 0x80 0xBF (drop 1 t); c3 = cont 0x80 0xBF (drop 2 t)
      in if b < 0x80 then 1
         else if 0xC2 \<le> b \<and> b \<le> 0xDF then (if cont 0x80 0xBF t then 2 else 0)
         else if b = 0xE0 then (if cont 0xA0 0xBF t \<and> c2 then 3 else 0)
         else if b = 0xED then (if cont 0x80 0x9F t \<and> c2 then 3 else 0)
         else if 0xE1 \<le> b \<and> b \<le> 0xEF then (if cont 0x80 0xBF t \<and> c2 then 3 else 0)
         else if b = 0xF0 then (if cont 0x90 0xBF t \<and> c2 \<and> c3 then 4 else 0)
         else if 0xF1 \<le> b \<and> b \<le> 0xF3 then (if cont 0x80 0xBF t \<and> c2 \<and> c3 then 4 else 0)
         else if b = 0xF4 then (if cont 0x80 0x8F t \<and> c2 \<and> c3 then 4 else 0)
         else 0)"

definition replacement :: string where
  "replacement = [CHR 0xEF, CHR 0xBF, CHR 0xBD]"

function runes :: "string \<Rightarrow> string list" where
  "runes s =
     (if s = [] then []
      else if rune_len s = 0 then replacement # runes (tl s)
      else take (rune_len s) s # runes (drop (rune_len s) s))"
  by pat_completeness auto
termination by (relation "measure length") auto

declare runes.simps [simp del]

definition limit_text :: "string \<Rightarrow> nat \<Rightarrow> string" where
  "limit_text s limit =
     (let rs = runes s in if length rs \<le> limit then s else concat (take limit rs))"

definition delete_oldest :: "'db bolt \<Rightarrow> lifecycle_event list \<Rightarrow> ('db, unit) prog" where
  "delete_oldest B es = s_delete B BLifecycle (le_id (last es))"

text \<open>The trimming loop: the list is newest first, the last one goes.\<close>

function trim_events :: "'db bolt \<Rightarrow> lifecycle_event list \<Rightarrow> ('db, unit) prog" where
  "trim_events B es =
     (if length es > 100
      then prog_bind (delete_oldest B es) (\<lambda>_. trim_events B (butlast es))
      else prog_return ())"
  by pat_completeness auto
termination by (relation "measure (\<lambda>(B, es). length es)") auto

declare trim_events.simps [simp del]

definition prepare_event :: "(instant \<Rightarrow> string) \<Rightarrow> string \<Rightarrow> instant \<Rightarrow> lifecycle_event \<Rightarrow> lifecycle_event" where
  "prepare_event time_format new_id now e =
     (let e = e\<lparr>le_event := limit_text (le_event e) 32, le_account := limit_text (le_account e) 32,
                le_detail := limit_text (le_detail e) 1024\<rparr>;
          e = (if is_zero (le_at e) then e\<lparr>le_at := now\<rparr> else e)
      in if le_id e = [] then e\<lparr>le_id := time_format (le_at e) @ ''-'' @ new_id\<rparr> else e)"

definition put_lifecycle_event :: "'db bolt \<Rightarrow> (instant \<Rightarrow> string) \<Rightarrow> string \<Rightarrow> instant \<Rightarrow> lifecycle_event \<Rightarrow>
    ('db, lifecycle_event) prog" where
  "put_lifecycle_event B time_format new_id now e =
     (let e = prepare_event time_format new_id now e
      in prog_bind (s_put B BLifecycle (le_id e) (DLifecycle e)) (\<lambda>_.
         prog_bind (lifecycle_events B 0) (\<lambda>es.
         prog_bind (trim_events B es) (\<lambda>_. prog_return e))))"

section \<open>Forgetting an account\<close>

text \<open>The \<open>account\<close> field of a document; a document without one reads as the empty string.\<close>

fun doc_account :: "doc \<Rightarrow> string option" where
  "doc_account (DJob j) = Some (jb_account j)"
| "doc_account (DRestore r) = Some (re_account r)"
| "doc_account (DLifecycle e) = Some (le_account e)"
| "doc_account (DIdentity a) = Some (ai_account a)"
| "doc_account (DBasket b) = Some (bk_account b)"
| "doc_account (DUnreadable _) = None"
| "doc_account _ = Some []"

fun tx_delete_all :: "'db bolt \<Rightarrow> bucket \<Rightarrow> string list \<Rightarrow> ('db, unit) prog" where
  "tx_delete_all B b [] = prog_return ()"
| "tx_delete_all B b (k # ks) = prog_bind (tx_delete B b k) (\<lambda>_. tx_delete_all B b ks)"

definition delete_where_account :: "'db bolt \<Rightarrow> bucket \<Rightarrow> string \<Rightarrow> ('db, unit) prog" where
  "delete_where_account B b account =
     (\<lambda>s. tx_delete_all B b
        (map fst (filter (\<lambda>(k, d). doc_account d = Some account) (bo_entries B b s))) s)"

definition delete_baskets_of :: "'db bolt \<Rightarrow> string \<Rightarrow> ('db, unit) prog" where
  "delete_baskets_of B account =
     (\<lambda>s. tx_delete_all B BBaskets
        (filter (\<lambda>k. has_prefix k (account @ [CHR 0x00])) (map fst (bo_entries B BBaskets s))) s)"

definition forget_account :: "'db bolt \<Rightarrow> string \<Rightarrow> ('db, unit) prog" where
  "forget_account B account =
     (if account = [] then prog_fail (ErrMsg ''nodestore: no account was named'' [])
      else db_update B
        (prog_bind (tx_delete B BIdentities account) (\<lambda>_.
         prog_bind (tx_delete B BAccounts account) (\<lambda>_.
         prog_bind (delete_where_account B BJobs account) (\<lambda>_.
         prog_bind (delete_where_account B BRestores account) (\<lambda>_.
         prog_bind (delete_where_account B BLifecycle account) (\<lambda>_.
           delete_baskets_of B account)))))))"

section \<open>What listings hold\<close>

definition stored :: "'db bolt \<Rightarrow> bucket \<Rightarrow> (doc \<Rightarrow> 'a option) \<Rightarrow> 'a \<Rightarrow> 'db \<Rightarrow> bool" where
  "stored B b sel x s \<longleftrightarrow> (\<exists>k d. bo_get B b k s = Some d \<and> sel d = Some x)"

context bolt_store
begin

lemma sorted_list_Inr:
  assumes "sorted_list B b sel lt s = (Inr xs, s')"
  shows "s' = s" "x \<in> set xs \<longleftrightarrow> stored B b sel x s" "\<exists>ys. xs = go_sort lt ys"
proof -
  from assms obtain ys where ys: "s_list B b sel s = (Inr ys, s)" "xs = go_sort lt ys" "s' = s"
    by (auto simp: sorted_list_def prog_bind_eq_Inr)
  then show "s' = s" "\<exists>ys. xs = go_sort lt ys" by auto
  show "x \<in> set xs \<longleftrightarrow> stored B b sel x s"
    using listed_iff [OF ys(1)] ys(2) by (simp add: stored_def)
qed

lemma all_stored:
  assumes "sorted_list B b sel lt s = (Inr xs, s')" "bo_get B b k s = Some d"
  shows "\<exists>x. sel d = Some x \<and> stored B b sel x s"
proof -
  from assms(1) obtain ys where "s_list B b sel s = (Inr ys, s)"
    by (auto simp: sorted_list_def prog_bind_eq_Inr)
  from all_read [OF this assms(2)] assms(2) show ?thesis
    by (auto simp: stored_def)
qed

lemma sorted_list_length:
  assumes "sorted_list B b sel lt s = (Inr xs, s')"
  shows "length xs = length (bo_entries B b s)"
proof -
  from assms obtain ys where ys: "map (sel \<circ> snd) (bo_entries B b s) = map Some ys" "xs = go_sort lt ys"
    by (auto simp: sorted_list_def prog_bind_eq_Inr)
  from ys(1) have "length (bo_entries B b s) = length ys" by (metis length_map)
  with ys(2) show ?thesis by simp
qed

end

lemma sorted_list_state: "sorted_list B b sel lt s = (r, s') \<Longrightarrow> s' = s"
  by (auto simp: sorted_list_def prog_bind_def s_list_def split: prod.splits sum.splits)

section \<open>One root for every repository\<close>

text \<open>Every repository is stored under its own, non-empty id.\<close>

definition repos_keyed :: "'db bolt \<Rightarrow> 'db \<Rightarrow> bool" where
  "repos_keyed B s \<longleftrightarrow> (\<forall>k d. bo_get B BRepositories k s = Some d \<longrightarrow>
     k \<noteq> [] \<and> (\<forall>r. d = DRepository r \<longrightarrow> rp_id r = k))"

definition is_root :: "'db bolt \<Rightarrow> 'db \<Rightarrow> repository \<Rightarrow> bool" where
  "is_root B s root \<longleftrightarrow> stored B BRepositories as_repository root s \<and> rp_chunker_source root = [] \<and>
     (\<forall>r. stored B BRepositories as_repository r s \<longrightarrow> r = root \<or> rp_chunker_source r = rp_id root)"

lemma oldest_loop_in: "oldest_loop r rs \<in> insert r (set rs)"
  by (induction r rs rule: oldest_loop.induct) auto

lemma by_id_Some: "distinct (map rp_id rs) \<Longrightarrow> r \<in> set rs \<Longrightarrow> by_id rs (rp_id r) = Some r"
  unfolding by_id_def by (rule map_of_is_SomeI) (auto simp: rev_map comp_def simp flip: rev_map)

lemma chunker_source_root:
  assumes "distinct (map rp_id rs)" "root \<in> set rs" "rp_chunker_source root = []" "rp_id root \<noteq> []"
    and "\<And>r. r \<in> set rs \<Longrightarrow> r = root \<or> rp_chunker_source r = rp_id root"
  shows "chunker_source rs = rp_id root"
proof -
  from assms(2) obtain n where n: "length rs = Suc n" by (cases rs) auto
  let ?o = "oldest_loop (hd rs) (tl rs)"
  have "?o \<in> set rs"
    using oldest_loop_in [of "hd rs" "tl rs"] n by (cases rs) auto
  then have o: "?o = root \<or> rp_chunker_source ?o = rp_id root" by (rule assms(5))
  have root: "follow_chain (by_id rs) m root = root" for m
    using assms(3) by (cases m) auto
  have "follow_chain (by_id rs) (length rs) ?o = root"
  proof (cases "?o = root")
    case False
    with o assms(4) by_id_Some [OF assms(1,2)] n root show ?thesis by simp
  qed (simp add: root)
  then show ?thesis by (simp add: chunker_source_def)
qed


context bolt_store
begin

lemma repositories_Inr:
  assumes "repositories B s = (Inr rs, s')" "repos_keyed B s"
  shows "s' = s" "r \<in> set rs \<longleftrightarrow> stored B BRepositories as_repository r s" "distinct (map rp_id rs)"
proof -
  note l = sorted_list_Inr [OF assms(1) [unfolded repositories_def]]
  show "s' = s" "r \<in> set rs \<longleftrightarrow> stored B BRepositories as_repository r s" by (rule l)+
  from assms(1) obtain ys where
    ys: "map (as_repository \<circ> snd) (bo_entries B BRepositories s) = map Some ys" "rs = go_sort older_repository ys"
    by (auto simp: repositories_def sorted_list_def prog_bind_eq_Inr)
  have key: "\<forall>e \<in> set (bo_entries B BRepositories s). \<forall>r. as_repository (snd e) = Some r \<longrightarrow> rp_id r = fst e"
    using assms(2) by (auto simp: repos_keyed_def entries_iff)
  have "map (as_repository \<circ> snd) es = map Some zs \<Longrightarrow>
      \<forall>e \<in> set es. \<forall>r. as_repository (snd e) = Some r \<longrightarrow> rp_id r = fst e \<Longrightarrow> map rp_id zs = map fst es" for es zs
    by (induction es arbitrary: zs) (auto simp: Cons_eq_map_conv)
  from this [OF ys(1) key] have "distinct (map rp_id ys)"
    using entries_distinct by simp
  moreover have "mset (map rp_id rs) = mset (map rp_id ys)" by (simp add: ys(2))
  ultimately show "distinct (map rp_id rs)" by (metis mset_eq_imp_distinct_iff)
qed

lemma put_new_repository:
  assumes "put_repository B new_id now repo s = (Inr repo', s')" "rp_id repo = []" "repos_keyed B s"
    "rp_chunker_source repo = []"
  shows "\<exists>rs. repositories B s = (Inr rs, s) \<and>
    repo' = repo\<lparr>rp_id := new_id, rp_created_at := now,
      rp_chunker_source := if rs = [] then [] else chunker_source rs\<rparr>
    \<and> s_put B BRepositories new_id (DRepository repo') s = (Inr (), s')"
  using assms repositories_Inr(1) [OF _ assms(3)]
  by (fastforce simp: put_repository_def prog_bind_eq_Inr Let_def split: if_splits)

lemma stored_put:
  assumes "s_put B b k d s = (Inr u, s')" "bo_get B b k s = None"
  shows "stored B b sel x s' \<longleftrightarrow> stored B b sel x s \<or> sel d = Some x"
  using put_get [OF assms(1)] assms(2) by (auto simp: stored_def) (metis option.distinct(1))

lemma new_repository:
  assumes "repos_keyed B s"
    and "put_repository B new_id now repo s = (Inr repo', s')" "rp_id repo = []" "rp_chunker_source repo = []"
    and "bo_get B BRepositories new_id s = None"
    and "is_root B s root \<or> (\<forall>r. \<not> stored B BRepositories as_repository r s)"
  shows "if is_root B s root then rp_chunker_source repo' = rp_id root \<and> is_root B s' root
    else rp_chunker_source repo' = [] \<and> is_root B s' repo'"
proof -
  from put_new_repository [OF assms(2,3,1,4)] obtain rs where rs: "repositories B s = (Inr rs, s)"
    and repo': "repo' = repo\<lparr>rp_id := new_id, rp_created_at := now,
      rp_chunker_source := if rs = [] then [] else chunker_source rs\<rparr>"
    and put: "s_put B BRepositories new_id (DRepository repo') s = (Inr (), s')" by blast
  have st: "stored B BRepositories as_repository r s' \<longleftrightarrow> stored B BRepositories as_repository r s \<or> r = repo'" for r
    by (auto simp: stored_put [OF put assms(5)])
  note in_rs = repositories_Inr(2) [OF rs assms(1)]
  show ?thesis
  proof (cases "is_root B s root")
    case True
    then have root: "root \<in> set rs" "rp_chunker_source root = []"
      "\<And>r. r \<in> set rs \<Longrightarrow> r = root \<or> rp_chunker_source r = rp_id root"
      by (auto simp: is_root_def in_rs)
    moreover have "rp_id root \<noteq> []"
      using True assms(1) by (auto simp: is_root_def stored_def repos_keyed_def)
    ultimately have "chunker_source rs = rp_id root"
      using chunker_source_root [OF repositories_Inr(3) [OF rs assms(1)]] by blast
    with root(1) have "rp_chunker_source repo' = rp_id root" by (auto simp: repo')
    with True show ?thesis by (auto simp: is_root_def st)
  next
    case False
    with assms(6) in_rs have "rs = []" by (cases rs) auto
    then have "rp_chunker_source repo' = []" by (simp add: repo')
    with False assms(6) show ?thesis by (auto simp: is_root_def st)
  qed
qed

end

text \<open>
  Every repository of a server copies its chunker parameters from the same one. If so far one
  root repository has no source and all others name it, then a new repository, whatever the
  creation times say, is stored with that root's id as its source (or becomes the root itself
  when it is the first), and the new store has a single root again.
\<close>

theorem new_repository_follows_root:
  assumes "bolt_store B" "repos_keyed B s"
    and "put_repository B new_id now repo s = (Inr repo', s')" "rp_id repo = []" "rp_chunker_source repo = []"
    and "bo_get B BRepositories new_id s = None"
    and "is_root B s root \<or> (\<forall>r. \<not> stored B BRepositories as_repository r s)"
  shows "if is_root B s root then rp_chunker_source repo' = rp_id root \<and> is_root B s' root
    else rp_chunker_source repo' = [] \<and> is_root B s' repo'"
  using assms(2-) by (rule bolt_store.new_repository [OF assms(1)])

definition no_keeps :: retention where
  "no_keeps = \<lparr>keep_last = 0, keep_daily = 0, keep_weekly = 0, keep_monthly = 0, keep_yearly = 0\<rparr>"

definition no_retention :: retention_state where
  "no_retention = \<lparr>rt_planned_at = None, rt_plan = [], rt_planned_keeps = no_keeps, rt_would_keep = 0,
     rt_would_drop = 0, rt_applied_at = None, rt_dropped = 0, rt_attempted_at = None, rt_last_error = []\<rparr>"

definition example_repository :: "string \<Rightarrow> string \<Rightarrow> repository" where
  "example_repository i source = \<lparr>rp_id = i, rp_destination_id = ''d1'', rp_repo_path = ''cp1'',
     rp_password_secret_id = [], rp_chunker_source = source, rp_initialised_at = None,
     rp_recovery_noted_at = None, rp_approved_at = None, rp_approved_keeps = no_keeps,
     rp_retention = no_retention, rp_created_at = 7\<rparr>"

lemma example_repository_simps [simp]:
  "rp_id (example_repository i c) = i" "rp_chunker_source (example_repository i c) = c"
  "rp_destination_id (example_repository i c) = ''d1''"
  by (simp_all add: example_repository_def)

definition mem_with :: "bucket \<Rightarrow> (string \<times> doc) list \<Rightarrow> mem_db" where
  "mem_with b es = (\<lambda>_. [])(b := es)"

theorem new_repository_follows_root_witness:
  "\<exists>repo' s'. put_repository mem_bolt ''r2'' 3 (example_repository [] [])
      (mem_with BRepositories [(''r1'', DRepository (example_repository ''r1'' []))]) = (Inr repo', s')
    \<and> rp_chunker_source repo' = ''r1''"
proof -
  let ?r1 = "example_repository ''r1'' []"
  let ?s = "mem_with BRepositories [(''r1'', DRepository ?r1)]"
  have get: "bo_get mem_bolt BRepositories k ?s = (if k = ''r1'' then Some (DRepository ?r1) else None)" for k
    by (simp add: mem_bolt_def mem_with_def)
  have "repositories mem_bolt ?s = (Inr [?r1], ?s)"
    by (simp add: repositories_def sorted_list_def s_list_def mem_bolt_def mem_with_def)
  then obtain repo' s' where run: "put_repository mem_bolt ''r2'' 3 (example_repository [] []) ?s = (Inr repo', s')"
    by (auto simp: put_repository_def s_put_def marshal_def db_update_def tx_put_def
        mem_bolt_def Let_def)
  have keyed: "repos_keyed mem_bolt ?s"
    by (auto simp: repos_keyed_def get split: if_splits)
  have root: "is_root mem_bolt ?s ?r1"
    by (auto simp: is_root_def stored_def get split: if_splits)
  from new_repository_follows_root [OF mem.bolt_store_axioms keyed run _ _ _ disjI1 [OF root]] root run
  show ?thesis by (auto simp: get)
qed

end
