(* ===== verification/Node_Facts.thy ===== *)
theory Node_Facts
  imports Node_Queries
begin

text \<open>
  What the store's operations guarantee: deleting a destination, the order in which queued work
  is done, progress of running work, the bounded lifecycle history, forgetting an account. The
  lemmas are proved from the laws of the database; each theorem names those laws as a hypothesis.
\<close>

section \<open>Deleting a destination\<close>

lemma first_sending_None: "first_sending i ps = None \<longleftrightarrow> (\<forall>p \<in> set ps. i \<notin> set (po_repository_ids p))"
  by (induction ps) (auto simp: list_ex_iff)

lemma first_sending_Some: "first_sending i ps = Some p \<Longrightarrow> p \<in> set ps \<and> i \<in> set (po_repository_ids p)"
  by (induction ps) (auto simp: list_ex_iff split: if_splits)

lemma refuse_in_use_Inr:
  "refuse_in_use rs ps = Inr u \<longleftrightarrow> (\<forall>r \<in> set rs. \<forall>p \<in> set ps. rp_id r \<notin> set (po_repository_ids p))"
  by (induction rs ps rule: refuse_in_use.induct) (auto simp: first_sending_None dest: first_sending_Some split: option.splits)

definition in_use :: "'db bolt \<Rightarrow> string \<Rightarrow> 'db \<Rightarrow> bool" where
  "in_use B i s \<longleftrightarrow> (\<exists>r p. stored B BRepositories as_repository r s \<and> rp_destination_id r = i \<and>
     stored B BPolicies as_policy p s \<and> rp_id r \<in> set (po_repository_ids p))"

context bolt_store
begin

lemma delete_repositories_get:
  "delete_repositories B rs s = (Inr u, s') \<Longrightarrow>
     bo_get B b k s' = (if b = BRepositories \<and> k \<in> rp_id ` set rs then None else bo_get B b k s)"
proof (induction rs arbitrary: s)
  case (Cons r rs)
  then obtain s1 where s1: "s_delete B BRepositories (rp_id r) s = (Inr (), s1)"
    "delete_repositories B rs s1 = (Inr u, s')"
    by (auto simp: prog_bind_eq_Inr)
  from Cons.IH [OF s1(2)] delete_get [OF s1(1), of b k] show ?case by auto
qed simp

lemma delete_destination_ok:
  assumes "delete_destination B i s = (Inr u, s')" "repos_keyed B s"
  shows "\<not> in_use B i s"
    "bo_get B b k s' =
       (if b = BDestinations \<and> k = i \<or>
          b = BRepositories \<and> (\<exists>r. bo_get B b k s = Some (DRepository r) \<and> rp_destination_id r = i)
        then None else bo_get B b k s)"
proof -
  from assms(1) obtain rs s1 ps s2 s3 where
    rs: "repositories B s = (Inr rs, s1)" and ps: "policies B s1 = (Inr ps, s2)" and
    free: "refuse_in_use (filter (\<lambda>r. rp_destination_id r = i) rs) ps = Inr ()" and
    del: "delete_repositories B (filter (\<lambda>r. rp_destination_id r = i) rs) s2 = (Inr (), s3)" and
    last: "s_delete B BDestinations i s3 = (Inr u, s')"
    by (auto simp: delete_destination_def prog_bind_eq_Inr Let_def)
  have s: "s1 = s" "s2 = s"
    using repositories_Inr(1) [OF rs assms(2)] sorted_list_Inr(1) [OF ps [unfolded policies_def]] by auto
  note in_rs = repositories_Inr(2) [OF rs assms(2)]
  have in_ps: "p \<in> set ps \<longleftrightarrow> stored B BPolicies as_policy p s" for p
    using sorted_list_Inr(2) [OF ps [unfolded policies_def]] s by simp
  from free show "\<not> in_use B i s"
    by (auto simp: refuse_in_use_Inr in_use_def in_rs in_ps)
  have "k \<in> rp_id ` set (filter (\<lambda>r. rp_destination_id r = i) rs) \<longleftrightarrow>
      (\<exists>r. bo_get B BRepositories k s = Some (DRepository r) \<and> rp_destination_id r = i)"
    using assms(2) by (force simp: in_rs stored_def repos_keyed_def image_iff)
  with delete_get [OF last, of b k] delete_repositories_get [OF del, of b k] s
  show "bo_get B b k s' =
       (if b = BDestinations \<and> k = i \<or>
          b = BRepositories \<and> (\<exists>r. bo_get B b k s = Some (DRepository r) \<and> rp_destination_id r = i)
        then None else bo_get B b k s)"
    by auto
qed

lemma delete_destination_in_use:
  assumes "delete_destination B i s = (r, s')" "repos_keyed B s" "in_use B i s"
  shows "(\<exists>e. r = Inl e) \<and> s' = s"
proof -
  obtain rr s1 where rs: "repositories B s = (rr, s1)" by force
  then have s1: "s1 = s" by (simp add: repositories_def sorted_list_state)
  obtain pp s2 where ps: "policies B s1 = (pp, s2)" by force
  then have s2: "s2 = s" using s1 by (simp add: policies_def sorted_list_state)
  consider e where "rr = Inl e" | rs' e where "rr = Inr rs'" "pp = Inl e" | rs' ps' where "rr = Inr rs'" "pp = Inr ps'"
    by (cases rr; cases pp) auto
  then show ?thesis
  proof cases
    case 3
    have "\<not> (\<exists>u. refuse_in_use (filter (\<lambda>r. rp_destination_id r = i) rs') ps' = Inr u)"
      using assms(3) repositories_Inr(2) [OF rs [unfolded 3] assms(2)]
        sorted_list_Inr(2) [OF ps [unfolded 3 policies_def]] s1
      by (auto simp: refuse_in_use_Inr in_use_def)
    then obtain e where "refuse_in_use (filter (\<lambda>r. rp_destination_id r = i) rs') ps' = Inl e"
      by (cases "refuse_in_use (filter (\<lambda>r. rp_destination_id r = i) rs') ps'") auto
    with rs ps 3 s1 s2 have "delete_destination B i s = (Inl e, s)"
      by (simp add: delete_destination_def Let_def)
    with assms(1) show ?thesis by auto
  qed (use assms(1) rs ps s1 s2 in \<open>auto simp: delete_destination_def\<close>)
qed

end

text \<open>
  A destination that a schedule still sends backups to cannot be deleted, and the attempt
  changes nothing. When a deletion succeeds, it removed the destination and exactly the
  repository records that belong to it; no other document of any kind changed.
\<close>

theorem delete_destination_guarded:
  assumes "bolt_store B" "repos_keyed B s" "delete_destination B i s = (r, s')"
  shows "(in_use B i s \<longrightarrow> (\<exists>e. r = Inl e) \<and> s' = s) \<and>
    (r = Inr () \<longrightarrow> (\<forall>b k. bo_get B b k s' =
       (if b = BDestinations \<and> k = i \<or>
          b = BRepositories \<and> (\<exists>repo. bo_get B b k s = Some (DRepository repo) \<and> rp_destination_id repo = i)
        then None else bo_get B b k s)))"
  using bolt_store.delete_destination_in_use [OF assms(1,3,2)]
    bolt_store.delete_destination_ok(2) [OF assms(1) _ assms(2), of i "()" s'] assms(3)
  by blast

definition example_policy :: policy where
  "example_policy = \<lparr>po_id = ''p1'', po_name = ''nightly'', po_schedule_cron = [], po_payload_mode = [],
     po_compression = [], po_limit_upload_kib = 0, po_retention = no_keeps, po_repository_ids = [''r1''],
     po_accounts = [], po_excludes = [], po_skip_homedir = False, po_skip_databases = False,
     po_skip_email = False, po_include_system = False, po_retry_failed = False, po_alert_no_backup_days = 0,
     po_alert_run_hours = 0, po_enabled = True, po_last_run_at = None, po_created_at = 1\<rparr>"

theorem delete_destination_guarded_witness:
  "snd (delete_destination mem_bolt ''d1'' ((mem_with BRepositories [(''r1'', DRepository (example_repository ''r1'' []))])
      (BPolicies := [(''p1'', DPolicy example_policy)])))
   = (mem_with BRepositories [(''r1'', DRepository (example_repository ''r1'' []))])
      (BPolicies := [(''p1'', DPolicy example_policy)])"
  (is "snd (delete_destination mem_bolt ''d1'' ?s) = ?s")
proof -
  have get: "bo_get mem_bolt BRepositories k ?s = (if k = ''r1'' then Some (DRepository (example_repository ''r1'' [])) else None)"
    "bo_get mem_bolt BPolicies k ?s = (if k = ''p1'' then Some (DPolicy example_policy) else None)" for k
    by (simp_all add: mem_bolt_def mem_with_def)
  have keyed: "repos_keyed mem_bolt ?s"
    by (auto simp: repos_keyed_def get split: if_splits)
  have "stored mem_bolt BRepositories as_repository (example_repository ''r1'' []) ?s"
    "stored mem_bolt BPolicies as_policy example_policy ?s"
    by (auto simp: stored_def get)
  then have "in_use mem_bolt ''d1'' ?s"
    unfolding in_use_def by (intro exI conjI) (auto simp: example_policy_def)
  then show ?thesis
    using delete_destination_guarded [OF mem.bolt_store_axioms keyed prod.collapse [symmetric]] by blast
qed

section \<open>Queued work\<close>

lemma find_first_Some:
  "find_first p xs = Some x \<Longrightarrow> \<exists>ys zs. xs = ys @ x # zs \<and> p x \<and> (\<forall>y \<in> set ys. \<not> p y)"
proof (induction xs)
  case (Cons a xs)
  show ?case
  proof (cases "p a")
    case True
    with Cons have "a # xs = [] @ x # xs" "p x" "\<forall>y \<in> set []. \<not> p y" by auto
    then show ?thesis by blast
  next
    case False
    with Cons obtain ys zs where "xs = ys @ x # zs" "p x" "\<forall>y \<in> set ys. \<not> p y" by auto
    with False have "a # xs = (a # ys) @ x # zs" "\<forall>y \<in> set (a # ys). \<not> p y" by auto
    with \<open>p x\<close> show ?thesis by blast
  qed
qed simp

lemma find_first_None: "find_first p xs = None \<longleftrightarrow> (\<forall>x \<in> set xs. \<not> p x)"
  by (induction xs) auto

lemma newer_strict: "strict_weak newer"
proof
  show "newer a b \<Longrightarrow> \<not> newer b a" for a b
    by (auto simp: newer_def split: prod.splits if_splits dest: str_less_asym)
  show "newer a c \<Longrightarrow> newer a b \<or> newer b c" for a b c
    by (auto simp: newer_def split: prod.splits if_splits) (metis str_less_linear str_less_trans)+
qed

interpretation newer: strict_weak newer by (rule newer_strict)

interpretation job_order: strict_weak job_order
  by unfold_locales (unfold job_order_def, blast dest: newer.asym, blast dest: newer.cotrans)

interpretation restore_order: strict_weak restore_order
  by unfold_locales (unfold restore_order_def, blast dest: newer.asym, blast dest: newer.cotrans)

lemma not_newer_queued: "\<not> newer (q, n, i) (q', n', i') \<Longrightarrow> q \<le> q'"
  by (auto simp: newer_def split: if_splits)

text \<open>The last element with a property in a sorted list is not before any other one with it.\<close>

lemma find_first_rev_sorted:
  assumes "sorted_wrt (\<lambda>a b. \<not> lt b a) xs" "find_first p (rev xs) = Some x"
  shows "x \<in> set xs \<and> p x \<and> (\<forall>y \<in> set xs. p y \<longrightarrow> y = x \<or> \<not> lt x y)"
proof -
  from find_first_Some [OF assms(2)] obtain ys zs where
    "rev xs = ys @ x # zs" "p x" "\<forall>y \<in> set ys. \<not> p y" by blast
  then have xs: "xs = rev zs @ x # rev ys" by (simp add: rev_swap)
  with assms(1) have "\<forall>y \<in> set zs. \<not> lt x y"
    by (auto simp: sorted_wrt_append)
  with xs \<open>p x\<close> \<open>\<forall>y \<in> set ys. \<not> p y\<close> show ?thesis by auto
qed

definition pending_restore :: "'db bolt \<Rightarrow> 'db \<Rightarrow> node_restore \<Rightarrow> bool" where
  "pending_restore B s r \<longleftrightarrow> stored B BRestores as_restore r s \<and> re_status r = StatusPending"

definition pending_job :: "'db bolt \<Rightarrow> 'db \<Rightarrow> node_job \<Rightarrow> bool" where
  "pending_job B s j \<longleftrightarrow> stored B BJobs as_job j s \<and> jb_status j = StatusPending"

lemma capped_0 [simp]: "capped 0 xs = xs"
  by (simp add: capped_def)

context bolt_store
begin

lemma jobs_Inr:
  assumes "jobs B 0 s = (Inr js, s')"
  shows "s' = s" "j \<in> set js \<longleftrightarrow> stored B BJobs as_job j s" "sorted_wrt (\<lambda>a b. \<not> job_order b a) js"
  using assms sorted_list_Inr [of BJobs as_job job_order s _ s'] job_order.sorted_go_sort
  by (auto simp: jobs_def prog_bind_eq_Inr)

lemma restores_Inr:
  assumes "restores B 0 s = (Inr rs, s')"
  shows "s' = s" "r \<in> set rs \<longleftrightarrow> stored B BRestores as_restore r s" "sorted_wrt (\<lambda>a b. \<not> restore_order b a) rs"
  using assms sorted_list_Inr [of BRestores as_restore restore_order s _ s'] restore_order.sorted_go_sort
  by (auto simp: restores_def prog_bind_eq_Inr)

lemma pending_work_cases:
  assumes "pending_work B s = (Inr w, s')"
  shows "s' = s" "case w of
      RestoreWork r \<Rightarrow> pending_restore B s r \<and> (\<forall>x. pending_restore B s x \<longrightarrow> x = r \<or> \<not> restore_order r x)
    | JobWork j \<Rightarrow> (\<forall>x. \<not> pending_restore B s x) \<and> pending_job B s j \<and>
        (\<forall>x. pending_job B s x \<longrightarrow> x = j \<or> \<not> job_order j x)
    | NoWork \<Rightarrow> (\<forall>x. \<not> pending_restore B s x) \<and> (\<forall>x. \<not> pending_job B s x)"
proof -
  from assms obtain rs s1 where rs: "restores B 0 s = (Inr rs, s1)"
    by (auto simp: pending_work_def prog_bind_eq_Inr)
  note r = restores_Inr [OF rs]
  let ?fr = "find_first (\<lambda>r. re_status r = StatusPending) (rev rs)"
  show "s' = s" and "case w of
      RestoreWork r \<Rightarrow> pending_restore B s r \<and> (\<forall>x. pending_restore B s x \<longrightarrow> x = r \<or> \<not> restore_order r x)
    | JobWork j \<Rightarrow> (\<forall>x. \<not> pending_restore B s x) \<and> pending_job B s j \<and>
        (\<forall>x. pending_job B s x \<longrightarrow> x = j \<or> \<not> job_order j x)
    | NoWork \<Rightarrow> (\<forall>x. \<not> pending_restore B s x) \<and> (\<forall>x. \<not> pending_job B s x)"
  proof (atomize (full), cases ?fr)
    case (Some x)
    with assms rs r(1) find_first_rev_sorted [OF r(3) Some]
    show "s' = s \<and> (case w of
      RestoreWork r \<Rightarrow> pending_restore B s r \<and> (\<forall>x. pending_restore B s x \<longrightarrow> x = r \<or> \<not> restore_order r x)
    | JobWork j \<Rightarrow> (\<forall>x. \<not> pending_restore B s x) \<and> pending_job B s j \<and>
        (\<forall>x. pending_job B s x \<longrightarrow> x = j \<or> \<not> job_order j x)
    | NoWork \<Rightarrow> (\<forall>x. \<not> pending_restore B s x) \<and> (\<forall>x. \<not> pending_job B s x))"
      by (auto simp: pending_work_def pending_restore_def r(2))
  next
    case None
    then have no_restore: "\<forall>x. \<not> pending_restore B s x"
      by (auto simp: find_first_None pending_restore_def r(2))
    from assms rs None r(1) obtain js s2 where js: "jobs B 0 s = (Inr js, s2)"
      by (auto simp: pending_work_def prog_bind_eq_Inr)
    note j = jobs_Inr [OF js]
    show "s' = s \<and> (case w of
      RestoreWork r \<Rightarrow> pending_restore B s r \<and> (\<forall>x. pending_restore B s x \<longrightarrow> x = r \<or> \<not> restore_order r x)
    | JobWork j \<Rightarrow> (\<forall>x. \<not> pending_restore B s x) \<and> pending_job B s j \<and>
        (\<forall>x. pending_job B s x \<longrightarrow> x = j \<or> \<not> job_order j x)
    | NoWork \<Rightarrow> (\<forall>x. \<not> pending_restore B s x) \<and> (\<forall>x. \<not> pending_job B s x))"
    proof (cases "find_first (\<lambda>j. jb_status j = StatusPending) (rev js)")
      case no_job: None
      with assms rs None r(1) js j(1) no_restore show ?thesis
        by (auto simp: pending_work_def find_first_None pending_job_def j(2))
    next
      case (Some x)
      with assms rs None r(1) js j(1) no_restore find_first_rev_sorted [OF j(3) Some] show ?thesis
        by (auto simp: pending_work_def pending_job_def j(2))
    qed
  qed
qed

end

lemma not_job_order_queued: "\<not> job_order a b \<Longrightarrow> jb_queued_at a \<le> jb_queued_at b"
  by (auto simp: job_order_def dest: not_newer_queued)

lemma not_restore_order_queued: "\<not> restore_order a b \<Longrightarrow> re_queued_at a \<le> re_queued_at b"
  by (auto simp: restore_order_def dest: not_newer_queued)

text \<open>
  The work done next is the oldest, and restores come before backups: a queued restore is
  handed out while there is one, and then one that no queued restore has waited longer than; a
  queued backup only when no restore is queued; nothing only when nothing is queued. Asking
  changes nothing.
\<close>

theorem pending_work_order:
  assumes "bolt_store B" "pending_work B s = (Inr w, s')"
  shows "s' = s \<and> (case w of
      RestoreWork r \<Rightarrow> pending_restore B s r \<and> (\<forall>x. pending_restore B s x \<longrightarrow> re_queued_at r \<le> re_queued_at x)
    | JobWork j \<Rightarrow> (\<forall>x. \<not> pending_restore B s x) \<and> pending_job B s j \<and>
        (\<forall>x. pending_job B s x \<longrightarrow> jb_queued_at j \<le> jb_queued_at x)
    | NoWork \<Rightarrow> (\<forall>x. \<not> pending_restore B s x) \<and> (\<forall>x. \<not> pending_job B s x))"
  using bolt_store.pending_work_cases [OF assms]
  by (auto split: work.splits dest: not_job_order_queued not_restore_order_queued)

lemma pending_work_total:
  assumes "restores B 0 s = (Inr rs, s)" "jobs B 0 s = (Inr js, s)"
  shows "\<exists>w. pending_work B s = (Inr w, s)"
proof (cases "find_first (\<lambda>r. re_status r = StatusPending) (rev rs)")
  case None
  with assms show ?thesis
    by (cases "find_first (\<lambda>j. jb_status j = StatusPending) (rev js)") (simp_all add: pending_work_def)
qed (use assms in \<open>simp add: pending_work_def\<close>)

definition example_job :: "string \<Rightarrow> instant \<Rightarrow> node_job" where
  "example_job i t = \<lparr>jb_id = i, jb_policy_id = ''p1'', jb_account = ''bob'', jb_complete_account = True,
     jb_status = StatusPending, jb_targets = [], jb_staging_err = [], jb_progress = None, jb_queued_at = t,
     jb_started_at = None, jb_finished_at = None\<rparr>"

lemma example_job_simps [simp]:
  "jb_id (example_job i t) = i" "jb_queued_at (example_job i t) = t" "jb_account (example_job i t) = ''bob''"
  "jb_status (example_job i t) = StatusPending"
  by (simp_all add: example_job_def)

theorem pending_work_order_witness:
  "\<exists>w. pending_work mem_bolt (mem_with BJobs [(''b'', DJob (example_job ''b'' 9)), (''a'', DJob (example_job ''a'' 4))])
     = (Inr w, mem_with BJobs [(''b'', DJob (example_job ''b'' 9)), (''a'', DJob (example_job ''a'' 4))])
     \<and> w \<noteq> JobWork (example_job ''b'' 9)"
  (is "\<exists>w. pending_work mem_bolt ?s = (Inr w, ?s) \<and> _")
proof -
  have get: "bo_get mem_bolt BJobs k ?s = (if k = ''b'' then Some (DJob (example_job ''b'' 9))
      else if k = ''a'' then Some (DJob (example_job ''a'' 4)) else None)" for k
    by (simp add: mem_bolt_def mem_with_def)
  have "restores mem_bolt 0 ?s = (Inr [], ?s)" "\<exists>js. jobs mem_bolt 0 ?s = (Inr js, ?s)"
    by (simp_all add: restores_def jobs_def sorted_list_def s_list_def mem_bolt_def mem_with_def by_key_def)
  then obtain js where rs: "restores mem_bolt 0 ?s = (Inr [], ?s)" and js: "jobs mem_bolt 0 ?s = (Inr js, ?s)"
    by auto
  obtain w where run: "pending_work mem_bolt ?s = (Inr w, ?s)"
    using pending_work_total [OF rs js] by auto
  note spec = pending_work_order [OF mem.bolt_store_axioms run]
  have "pending_job mem_bolt ?s (example_job ''a'' 4)"
    by (auto simp: pending_job_def stored_def get)
  with spec have "w \<noteq> JobWork (example_job ''b'' 9)" by force
  with run show ?thesis by blast
qed

section \<open>Progress of running work\<close>

context bolt_store
begin

lemma job_progress_finished:
  assumes "bo_get B BJobs i s = Some (DJob j)" "terminal (jb_status j)"
  shows "set_job_progress B new_id now i p s = (Inr (), s)"
  using assms by (simp add: set_job_progress_def get_job_def s_get_def)

lemma restore_progress_finished:
  assumes "bo_get B BRestores i s = Some (DRestore r)" "terminal (re_status r)"
  shows "set_restore_progress B new_id now i p s = (Inr (), s)"
  using assms by (simp add: set_restore_progress_def get_restore_def s_get_def)

lemma job_progress_running:
  assumes "bo_get B BJobs i s = Some (DJob j)" "\<not> terminal (jb_status j)" "jb_id j = i" "i \<noteq> []"
    "set_job_progress B new_id now i p s = (Inr (), s')"
  shows "bo_get B b k s' = (if b = BJobs \<and> k = i then Some (DJob (j\<lparr>jb_progress := Some p\<rparr>)) else bo_get B b k s)"
proof -
  from assms have "s_put B BJobs i (DJob (j\<lparr>jb_progress := Some p\<rparr>)) s = (Inr (), s')"
    by (auto simp: set_job_progress_def get_job_def prog_bind_eq_Inr put_job_def Let_def)
  from put_get [OF this] show ?thesis .
qed

end

text \<open>
  Progress that arrives late cannot reopen finished work: recording progress for a job or a
  restore that has finished, been cancelled or failed succeeds and changes nothing, while for a
  running job it changes the progress of that one record and nothing else.
\<close>

theorem progress_never_reopens:
  assumes "bolt_store B" "bo_get B BJobs i s = Some (DJob j)" "jb_id j = i" "i \<noteq> []"
  shows "if terminal (jb_status j) then set_job_progress B new_id now i p s = (Inr (), s)
    else (\<forall>s'. set_job_progress B new_id now i p s = (Inr (), s') \<longrightarrow>
      (\<forall>b k. bo_get B b k s' =
        (if b = BJobs \<and> k = i then Some (DJob (j\<lparr>jb_progress := Some p\<rparr>)) else bo_get B b k s)))"
  using bolt_store.job_progress_finished [OF assms(1,2)] bolt_store.job_progress_running [OF assms(1,2) _ assms(3,4)]
  by auto

theorem progress_never_reopens_witness:
  "set_job_progress mem_bolt [] 8 ''a'' \<lparr>jp_percent = 0, jp_bytes_done = 1, jp_total_bytes = 2, jp_files_done = 0,
       jp_total_files = 0, jp_repository = [], jp_at = 8\<rparr>
     (mem_with BJobs [(''a'', DJob ((example_job ''a'' 4)\<lparr>jb_status := StatusFailed\<rparr>))])
   = (Inr (), mem_with BJobs [(''a'', DJob ((example_job ''a'' 4)\<lparr>jb_status := StatusFailed\<rparr>))])"
proof -
  have "bo_get mem_bolt BJobs ''a'' (mem_with BJobs [(''a'', DJob ((example_job ''a'' 4)\<lparr>jb_status := StatusFailed\<rparr>))])
      = Some (DJob ((example_job ''a'' 4)\<lparr>jb_status := StatusFailed\<rparr>))"
    by (simp add: mem_bolt_def mem_with_def)
  from progress_never_reopens [OF mem.bolt_store_axioms this] show ?thesis
    by simp
qed

section \<open>Forgetting an account\<close>

definition about_account :: "string \<Rightarrow> bucket \<Rightarrow> string \<Rightarrow> doc \<Rightarrow> bool" where
  "about_account account b k d \<longleftrightarrow>
     b \<in> {BIdentities, BAccounts} \<and> k = account \<or>
     b \<in> {BJobs, BRestores, BLifecycle} \<and> doc_account d = Some account \<or>
     b = BBaskets \<and> has_prefix k (account @ [CHR 0x00])"

context bolt_store
begin

lemma tx_delete_all_get:
  "tx_delete_all B b ks s = (Inr u, s') \<Longrightarrow>
     bo_get B b' k' s' = (if b' = b \<and> k' \<in> set ks then None else bo_get B b' k' s)"
proof (induction ks arbitrary: s)
  case (Cons k ks)
  then obtain s1 where s1: "bo_delete B b k s = Inr s1" "tx_delete_all B b ks s1 = (Inr u, s')"
    by (auto simp: prog_bind_eq_Inr)
  from Cons.IH [OF s1(2)] get_delete [OF s1(1), of b' k'] show ?case by auto
qed simp

lemma delete_where_get:
  assumes "delete_where_account B b account s = (Inr u, s')"
  shows "bo_get B b' k' s' =
    (if b' = b \<and> (\<exists>d. bo_get B b k' s = Some d \<and> doc_account d = Some account) then None else bo_get B b' k' s)"
  using tx_delete_all_get [OF assms [unfolded delete_where_account_def], of b' k']
  by (auto simp: image_iff simp flip: entries_iff)

lemma delete_baskets_get:
  assumes "delete_baskets_of B account s = (Inr u, s')"
  shows "bo_get B b' k' s' =
    (if b' = BBaskets \<and> has_prefix k' (account @ [CHR 0x00]) then None else bo_get B b' k' s)"
proof -
  have "k' \<in> set (map fst (bo_entries B BBaskets s)) \<longleftrightarrow> bo_get B BBaskets k' s \<noteq> None"
    by (simp add: map_of_eq_None_iff flip: entries_get)
  with tx_delete_all_get [OF assms [unfolded delete_baskets_of_def], of b' k'] show ?thesis
    by auto
qed

lemma forget_account_get:
  assumes "forget_account B account s = (Inr u, s')"
  shows "bo_get B b k s' = (case bo_get B b k s of
      Some d \<Rightarrow> if about_account account b k d then None else Some d | None \<Rightarrow> None)"
proof -
  from assms obtain s1 s2 s3 s4 s5 where
    "bo_delete B BIdentities account s = Inr s1" "bo_delete B BAccounts account s1 = Inr s2"
    "delete_where_account B BJobs account s2 = (Inr (), s3)"
    "delete_where_account B BRestores account s3 = (Inr (), s4)"
    "delete_where_account B BLifecycle account s4 = (Inr (), s5)"
    "delete_baskets_of B account s5 = (Inr u, s')"
    by (auto simp: forget_account_def prog_bind_eq_Inr split: if_splits)
  note get_delete [OF this(1)] get_delete [OF this(2)] delete_where_get [OF this(3)]
    delete_where_get [OF this(4)] delete_where_get [OF this(5)] delete_baskets_get [OF this(6)]
  then show ?thesis
    by (cases b) (auto simp: about_account_def split: option.splits)
qed

lemma forget_account_Inl: "forget_account B account s = (Inl e, s') \<Longrightarrow> s' = s"
  by (auto simp: forget_account_def dest: db_update_Inl split: if_splits)

end

text \<open>
  Forgetting an account is exact and all or nothing. When it succeeds, the account's identity,
  every readable job, restore and event that names it and every basket made for it are gone, and
  every other document, also one that cannot be read and one of an account whose name merely
  starts the same way, is as it was. When it fails, nothing has changed.
\<close>

theorem forget_account_exact:
  assumes "bolt_store B" "forget_account B account s = (r, s')"
  shows "(\<exists>e. r = Inl e \<and> s' = s) \<or>
    (r = Inr () \<and> (\<forall>b k. bo_get B b k s' = (case bo_get B b k s of
        Some d \<Rightarrow> if about_account account b k d then None else Some d | None \<Rightarrow> None)))"
  using assms(2) bolt_store.forget_account_get [OF assms(1)] bolt_store.forget_account_Inl [OF assms(1)]
  by (cases r) auto

definition always_ok :: "('s, unit) prog \<Rightarrow> bool" where
  "always_ok m \<longleftrightarrow> (\<forall>s. \<exists>t. m s = (Inr (), t))"

lemma always_ok_bind: "always_ok m \<Longrightarrow> always_ok (f ()) \<Longrightarrow> always_ok (prog_bind m f)"
  unfolding always_ok_def by (metis prog_bind_Inr)

lemma always_ok_return: "always_ok (prog_return ())" "always_ok (Pair (Inr ()))"
  by (simp_all add: always_ok_def)

lemma always_ok_mem:
  "always_ok (tx_delete mem_bolt b k)" "always_ok (tx_delete_all mem_bolt b ks)"
proof -
  show del: "always_ok (tx_delete mem_bolt b k)" for b k
    by (simp add: always_ok_def tx_delete_def mem_bolt_def)
  show "always_ok (tx_delete_all mem_bolt b ks)"
    by (induction ks) (simp_all add: always_ok_bind [OF del] always_ok_return)
qed

lemma mem_forget:
  assumes "account \<noteq> []"
  shows "\<exists>s'. forget_account mem_bolt account s = (Inr (), s')"
proof -
  have w: "always_ok (delete_where_account mem_bolt b account)" "always_ok (delete_baskets_of mem_bolt account)" for b
    using always_ok_mem(2) unfolding always_ok_def delete_where_account_def delete_baskets_of_def by blast+
  have "always_ok (prog_bind (tx_delete mem_bolt BIdentities account) (\<lambda>_.
         prog_bind (tx_delete mem_bolt BAccounts account) (\<lambda>_.
         prog_bind (delete_where_account mem_bolt BJobs account) (\<lambda>_.
         prog_bind (delete_where_account mem_bolt BRestores account) (\<lambda>_.
         prog_bind (delete_where_account mem_bolt BLifecycle account) (\<lambda>_.
           delete_baskets_of mem_bolt account))))))"
    by (intro always_ok_bind always_ok_mem w)
  then obtain s' where "prog_bind (tx_delete mem_bolt BIdentities account) (\<lambda>_.
         prog_bind (tx_delete mem_bolt BAccounts account) (\<lambda>_.
         prog_bind (delete_where_account mem_bolt BJobs account) (\<lambda>_.
         prog_bind (delete_where_account mem_bolt BRestores account) (\<lambda>_.
         prog_bind (delete_where_account mem_bolt BLifecycle account) (\<lambda>_.
           delete_baskets_of mem_bolt account))))) s = (Inr (), s')"
    unfolding always_ok_def by blast
  moreover have "bo_commit mem_bolt s' = None" by (simp add: mem_bolt_def)
  ultimately show ?thesis using assms by (auto simp: forget_account_def)
qed

theorem forget_account_exact_witness:
  "bo_get mem_bolt BJobs ''j1'' (snd (forget_account mem_bolt ''bob'' (mem_with BJobs
       [(''j1'', DJob (example_job ''j1'' 4)), (''j2'', DUnreadable ''x'')]))) = None
   \<and> bo_get mem_bolt BJobs ''j2'' (snd (forget_account mem_bolt ''bob'' (mem_with BJobs
       [(''j1'', DJob (example_job ''j1'' 4)), (''j2'', DUnreadable ''x'')]))) = Some (DUnreadable ''x'')"
  (is "bo_get _ _ _ (snd ?run) = None \<and> _")
proof -
  let ?s = "mem_with BJobs [(''j1'', DJob (example_job ''j1'' 4)), (''j2'', DUnreadable ''x'')]"
  have get: "bo_get mem_bolt BJobs k ?s = (if k = ''j1'' then Some (DJob (example_job ''j1'' 4))
      else if k = ''j2'' then Some (DUnreadable ''x'') else None)" for k
    by (simp add: mem_bolt_def mem_with_def)
  have "\<exists>s'. ?run = (Inr (), s')"
    by (rule mem_forget) simp
  then obtain s' where run: "?run = (Inr (), s')" by blast
  have "about_account ''bob'' BJobs ''j1'' (DJob (example_job ''j1'' 4))"
    "\<not> about_account ''bob'' BJobs ''j2'' (DUnreadable ''x'')"
    by (simp_all add: about_account_def)
  with forget_account_exact [OF mem.bolt_store_axioms run] run show ?thesis
    by (simp add: get)
qed

section \<open>The lifecycle history is bounded\<close>

definition events_keyed :: "'db bolt \<Rightarrow> 'db \<Rightarrow> bool" where
  "events_keyed B s \<longleftrightarrow> (\<forall>k e. bo_get B BLifecycle k s = Some (DLifecycle e) \<longrightarrow> le_id e = k)"

interpretation by_age: strict_weak "\<lambda>a b :: lifecycle_event. le_at b < le_at a"
  by unfold_locales auto

lemma drop_butlast: "length es > n \<Longrightarrow> set (drop n es) = insert (last es) (set (drop n (butlast es)))"
  by (cases es rule: rev_cases) auto

context bolt_store
begin

lemma trim_events_get:
  "trim_events B es s = (Inr u, s') \<Longrightarrow>
     bo_get B b k s' = (if b = BLifecycle \<and> k \<in> le_id ` set (drop 100 es) then None else bo_get B b k s)"
proof (induction es arbitrary: s rule: rev_induct)
  case Nil
  then show ?case by (simp add: trim_events.simps)
next
  case (snoc e es)
  show ?case
  proof (cases "length (es @ [e]) > 100")
    case True
    with snoc.prems obtain s1 where s1: "s_delete B BLifecycle (le_id e) s = (Inr (), s1)"
      "trim_events B es s1 = (Inr u, s')"
      by (subst (asm) trim_events.simps) (auto simp: delete_oldest_def prog_bind_eq_Inr)
    from snoc.IH [OF s1(2)] delete_get [OF s1(1), of b k] True show ?thesis by auto
  next
    case False
    with snoc.prems show ?thesis by (subst (asm) trim_events.simps) auto
  qed
qed

lemma entries_count:
  assumes "\<And>k. bo_get B b k s \<noteq> None \<Longrightarrow> k \<in> f ` set xs"
  shows "length (bo_entries B b s) \<le> length xs"
proof -
  have "set (map fst (bo_entries B b s)) \<subseteq> f ` set xs"
    using assms by (auto simp: entries_iff)
  then have "card (set (map fst (bo_entries B b s))) \<le> card (f ` set xs)"
    by (rule card_mono [rotated]) simp
  also have "\<dots> \<le> length xs" by (metis card_image_le card_length finite_set le_trans)
  finally show ?thesis by (metis distinct_card entries_distinct length_map)
qed

lemma put_event_parts:
  assumes "put_lifecycle_event B fmt i now e s = (Inr e', s')"
  obtains s1 es where "s_put B BLifecycle (le_id e') (DLifecycle e') s = (Inr (), s1)"
    "lifecycle_events B 0 s1 = (Inr es, s1)" "trim_events B es s1 = (Inr (), s')"
proof -
  from assms obtain s1 es s2 where "s_put B BLifecycle (le_id e') (DLifecycle e') s = (Inr (), s1)"
    and es: "lifecycle_events B 0 s1 = (Inr es, s2)" and "trim_events B es s2 = (Inr (), s')"
    by (auto simp: put_lifecycle_event_def Let_def prog_bind_eq_Inr)
  moreover from es have "s2 = s1"
    by (auto simp: lifecycle_events_def prog_bind_eq_Inr dest!: sorted_list_state)
  ultimately show thesis using that by blast
qed

lemma lifecycle_bounded:
  assumes "events_keyed B s" "put_lifecycle_event B fmt i now e s = (Inr e', s')"
  shows "length (bo_entries B BLifecycle s') \<le> 100"
    "\<lbrakk>stored B BLifecycle as_lifecycle x s; le_id x \<noteq> le_id e'; \<not> stored B BLifecycle as_lifecycle x s';
      stored B BLifecycle as_lifecycle y s'\<rbrakk> \<Longrightarrow> le_at x \<le> le_at y"
proof -
  obtain s1 es where put: "s_put B BLifecycle (le_id e') (DLifecycle e') s = (Inr (), s1)"
    and es: "lifecycle_events B 0 s1 = (Inr es, s1)" and trim: "trim_events B es s1 = (Inr (), s')"
    using assms(2) by (rule put_event_parts)
  note get1 = put_get [OF put] and get2 = trim_events_get [OF trim]
  from es have sl: "sorted_list B BLifecycle as_lifecycle (\<lambda>a b. le_at b < le_at a) s1 = (Inr es, s1)"
    by (auto simp: lifecycle_events_def prog_bind_eq_Inr)
  note in_es = sorted_list_Inr(2) [OF sl]
  have keyed: "le_id z = k" if "bo_get B BLifecycle k s1 = Some (DLifecycle z)" for k z
    using that assms(1) by (auto simp: get1 events_keyed_def split: if_splits)
  have split: "set es = set (take 100 es) \<union> set (drop 100 es)"
    by (metis append_take_drop_id set_append)
  have "k \<in> le_id ` set (take 100 es)" if "bo_get B BLifecycle k s' \<noteq> None" for k
  proof -
    from that obtain d where d: "bo_get B BLifecycle k s1 = Some d" "k \<notin> le_id ` set (drop 100 es)"
      by (auto simp: get2 split: if_splits)
    from all_stored [OF sl d(1)] obtain z where "d = DLifecycle z" "z \<in> set es"
      by (auto simp: in_es)
    with d keyed split show ?thesis by auto
  qed
  from entries_count [OF this] show "length (bo_entries B BLifecycle s') \<le> 100" by simp
  assume x: "stored B BLifecycle as_lifecycle x s" "le_id x \<noteq> le_id e'" "\<not> stored B BLifecycle as_lifecycle x s'"
    and y: "stored B BLifecycle as_lifecycle y s'"
  have "bo_get B BLifecycle (le_id x) s = Some (DLifecycle x)"
    using x(1) assms(1) by (auto simp: stored_def events_keyed_def)
  then have x1: "bo_get B BLifecycle (le_id x) s1 = Some (DLifecycle x)"
    using x(2) by (simp add: get1)
  have "le_id x \<in> le_id ` set (drop 100 es)"
  proof (rule ccontr)
    assume "\<not> ?thesis"
    with x1 have "bo_get B BLifecycle (le_id x) s' = Some (DLifecycle x)" by (simp add: get2)
    with x(3) show False by (auto simp: stored_def)
  qed
  then obtain z where z: "z \<in> set (drop 100 es)" "le_id z = le_id x" by auto
  moreover have "z \<in> set es" using z split by blast
  ultimately obtain k where k: "bo_get B BLifecycle k s1 = Some (DLifecycle z)"
    by (auto simp: in_es stored_def)
  with keyed z(2) have "k = le_id x" by auto
  with k x1 have "z = x" by simp
  from y obtain k where "bo_get B BLifecycle k s1 = Some (DLifecycle y)" "k \<notin> le_id ` set (drop 100 es)"
    by (auto simp: stored_def get2 split: if_splits)
  then have "y \<in> set es" "y \<notin> set (drop 100 es)" using keyed [of k y] by (auto simp: in_es stored_def)
  with split have "y \<in> set (take 100 es)" by blast
  obtain zs where "es = go_sort (\<lambda>a b. le_at b < le_at a) zs"
    using sorted_list_Inr(3) [OF sl] by blast
  with by_age.sorted_go_sort [of zs]
  have "sorted_wrt (\<lambda>a b. \<not> le_at a < le_at b) (take 100 es @ drop 100 es)" by simp
  then have "\<forall>a \<in> set (take 100 es). \<forall>b \<in> set (drop 100 es). \<not> le_at a < le_at b"
    unfolding sorted_wrt_append by blast
  with z(1) \<open>z = x\<close> \<open>y \<in> set (take 100 es)\<close> show "le_at x \<le> le_at y" by force
qed

end

text \<open>
  The lifecycle history is bounded and keeps what is recent: after an event was recorded the
  server holds at most a hundred, and an event that was dropped to make room is no newer than any
  event that stayed.
\<close>

theorem lifecycle_history_bounded:
  assumes "bolt_store B" "events_keyed B s" "put_lifecycle_event B time_format new_id now e s = (Inr e', s')"
  shows "length (bo_entries B BLifecycle s') \<le> 100 \<and>
    (\<forall>x y. stored B BLifecycle as_lifecycle x s \<and> le_id x \<noteq> le_id e' \<and>
       \<not> stored B BLifecycle as_lifecycle x s' \<and> stored B BLifecycle as_lifecycle y s' \<longrightarrow> le_at x \<le> le_at y)"
  using bolt_store.lifecycle_bounded [OF assms] by blast

theorem lifecycle_history_bounded_witness:
  "\<exists>e' s'. put_lifecycle_event mem_bolt (\<lambda>_. ''t'') ''x'' 5
      \<lparr>le_id = ''e1'', le_event = ''create'', le_account = ''bob'', le_ok = True, le_detail = [], le_at = 0\<rparr>
      (mem_with BJobs []) = (Inr e', s') \<and> length (bo_entries mem_bolt BLifecycle s') \<le> 100"
proof -
  let ?e = "\<lparr>le_id = ''e1'', le_event = ''create'', le_account = ''bob'', le_ok = True, le_detail = [], le_at = 0\<rparr>"
  have keyed: "events_keyed mem_bolt (mem_with BJobs [])"
    by (simp add: events_keyed_def mem_bolt_def mem_with_def)
  have "\<exists>e' s'. put_lifecycle_event mem_bolt (\<lambda>_. ''t'') ''x'' 5 ?e (mem_with BJobs []) = (Inr e', s')"
    by (simp add: put_lifecycle_event_def prepare_event_def Let_def s_put_def marshal_def db_update_def tx_put_def mem_bolt_def
        mem_with_def lifecycle_events_def sorted_list_def s_list_def trim_events.simps is_zero_def zero_time_def)
  then show ?thesis
    using lifecycle_history_bounded [OF mem.bolt_store_axioms keyed] by blast
qed

section \<open>A plan of jobs runs in the order it was given\<close>

lemma prepare_jobs_nth:
  "prepare_jobs B nid now i js = Inr js' \<Longrightarrow>
     length js' = length js \<and> (\<forall>n < length js. js' ! n = prepare_job nid now (i + n) (js ! n))"
proof (induction js arbitrary: i js')
  case (Cons j js)
  then obtain ys where ys: "prepare_jobs B nid now (i + 1) js = Inr ys" "js' = prepare_job nid now i j # ys"
    by (auto simp: Let_def res_bind_eq_Inr split: sum.splits)
  from Cons.IH [OF ys(1)] ys(2) show ?case by (auto simp: nth_Cons split: nat.splits)
qed simp

definition fresh_job :: "node_job \<Rightarrow> bool" where
  "fresh_job j \<longleftrightarrow> jb_id j = [] \<and> is_zero (jb_queued_at j) \<and> jb_status j \<in> {no_status, StatusPending}"

lemma prepare_fresh_job:
  "fresh_job j \<Longrightarrow> jb_id (prepare_job nid now n j) = nid n \<and> jb_queued_at (prepare_job nid now n j) = now + int n
     \<and> jb_status (prepare_job nid now n j) = StatusPending"
  by (auto simp: fresh_job_def prepare_job_def Let_def)

context bolt_store
begin

lemma tx_put_jobs_get:
  "tx_put_jobs B js s = (Inr u, s') \<Longrightarrow> distinct (map jb_id js) \<Longrightarrow>
     bo_get B b k s' = (if b = BJobs then case map_of (map (\<lambda>j. (jb_id j, DJob j)) js) k of
         Some d \<Rightarrow> Some d | None \<Rightarrow> bo_get B b k s else bo_get B b k s)"
proof (induction js arbitrary: s)
  case (Cons j js)
  then obtain s1 where s1: "bo_put B BJobs (jb_id j) (DJob j) s = Inr s1" "tx_put_jobs B js s1 = (Inr u, s')"
    by (auto simp: prog_bind_eq_Inr)
  have "map_of (map (\<lambda>j. (jb_id j, DJob j)) js) (jb_id j) = None"
    using Cons.prems(2) by (auto simp: map_of_eq_None_iff)
  with Cons.IH [OF s1(2)] Cons.prems(2) get_put [OF s1(1), of b k] show ?case
    by (auto split: option.splits)
qed simp

lemma put_jobs_stored:
  assumes "put_jobs B nid now js s = (Inr js', s')" "list_all fresh_job js"
    and "inj_on nid {..< length js}"
  shows "length js' = length js"
    "n < length js \<Longrightarrow> jb_id (js' ! n) = nid n \<and> jb_queued_at (js' ! n) = now + int n \<and> jb_status (js' ! n) = StatusPending"
    "stored B BJobs as_job j s' \<longleftrightarrow> j \<in> set js' \<or>
       (\<exists>k. k \<notin> nid ` {..< length js} \<and> bo_get B BJobs k s = Some (DJob j))"
    "b \<noteq> BJobs \<Longrightarrow> bo_get B b k s' = bo_get B b k s"
proof -
  from assms(1) have prep: "prepare_jobs B nid now 0 js = Inr js'"
    and put: "tx_put_jobs B js' s = (Inr (), s')"
    by (auto simp: put_jobs_def prog_bind_eq_Inr)
  note nth = prepare_jobs_nth [OF prep]
  then show len: "length js' = length js" by simp
  show props: "jb_id (js' ! n) = nid n \<and> jb_queued_at (js' ! n) = now + int n \<and> jb_status (js' ! n) = StatusPending"
    if "n < length js" for n
    using that nth assms(2) prepare_fresh_job [of "js ! n" nid now n] by (simp add: list_all_length)
  have ids: "map jb_id js' = map nid [0 ..< length js]"
    by (rule nth_equalityI) (simp_all add: len props)
  have dist: "distinct (map jb_id js')"
    unfolding ids using assms(3) by (simp add: distinct_map atLeast0LessThan)
  note get = tx_put_jobs_get [OF put dist]
  show "b \<noteq> BJobs \<Longrightarrow> bo_get B b k s' = bo_get B b k s" by (simp add: get)
  have keys: "nid ` {..< length js} = jb_id ` set js'"
    using arg_cong [OF ids, of set] by (simp add: atLeast0LessThan)
  have mo: "map_of (map (\<lambda>j. (jb_id j, DJob j)) js') k = Some d \<longleftrightarrow> (\<exists>j \<in> set js'. k = jb_id j \<and> d = DJob j)" for k d
    using dist by (subst map_of_eq_Some_iff) (auto simp: comp_def)
  have mn: "map_of (map (\<lambda>j. (jb_id j, DJob j)) js') k = None \<longleftrightarrow> k \<notin> jb_id ` set js'" for k
    by (force simp: map_of_eq_None_iff image_iff)
  have at: "bo_get B BJobs k s' = Some (DJob j) \<longleftrightarrow>
      (if k \<in> jb_id ` set js' then j \<in> set js' \<and> k = jb_id j else bo_get B BJobs k s = Some (DJob j))" for k j
  proof (cases "map_of (map (\<lambda>j. (jb_id j, DJob j)) js') k")
    case None
    with mn [of k] have "k \<notin> jb_id ` set js'" by simp
    then show ?thesis by (simp add: get None)
  next
    case (Some d)
    then have "k \<in> jb_id ` set js'" using mn [of k] by simp
    moreover have "d = DJob j \<longleftrightarrow> j \<in> set js' \<and> k = jb_id j" using mo [of k "DJob j"] Some by auto
    ultimately show ?thesis by (simp add: get Some)
  qed
  show "stored B BJobs as_job j s' \<longleftrightarrow> j \<in> set js' \<or>
       (\<exists>k. k \<notin> nid ` {..< length js} \<and> bo_get B BJobs k s = Some (DJob j))"
    unfolding keys stored_def by (auto simp: at split: if_splits)
qed

lemma put_jobs_next:
  assumes put: "put_jobs B nid now js s = (Inr js', s')" "list_all fresh_job js" "inj_on nid {..< length js}" "js \<noteq> []"
    and idle: "\<And>r. \<not> pending_restore B s r" "\<And>j. \<not> pending_job B s j"
    and run: "pending_work B s' = (Inr w, s'')"
  shows "w = JobWork (hd js')"
proof -
  note st = put_jobs_stored [OF put(1-3)]
  have pj: "pending_job B s' j \<longleftrightarrow> j \<in> set js'" for j
  proof
    assume "pending_job B s' j"
    then have "stored B BJobs as_job j s'" "jb_status j = StatusPending" by (auto simp: pending_job_def)
    moreover from this(2) idle(2) have "\<not> stored B BJobs as_job j s" by (auto simp: pending_job_def)
    ultimately show "j \<in> set js'" unfolding st(3) by (auto simp: stored_def)
  next
    assume "j \<in> set js'"
    then show "pending_job B s' j"
      using st(1,2) by (auto simp: pending_job_def st(3) in_set_conv_nth)
  qed
  have no_restore: "\<not> pending_restore B s' r" for r
    using idle(1) st(4) [of BRestores] by (auto simp: pending_restore_def stored_def)
  from put(4) st(1) have ne: "js' \<noteq> []" by auto
  from pending_work_cases(2) [OF run] no_restore ne pj obtain j where
    w: "w = JobWork j" "j \<in> set js'" "\<forall>x \<in> set js'. x = j \<or> \<not> job_order j x"
    by (cases w) auto
  then obtain n where n: "n < length js" "j = js' ! n" using st(1) by (auto simp: in_set_conv_nth)
  have "n = 0"
  proof (rule ccontr)
    assume "n \<noteq> 0"
    moreover have "0 < length js" using put(4) by simp
    ultimately have "jb_queued_at (js' ! 0) < jb_queued_at (js' ! n)"
      using st(2) [of 0] st(2) [of n] n by simp
    moreover from w(3) ne have "js' ! 0 = j \<or> \<not> job_order j (js' ! 0)" by simp
    ultimately show False using n(2) not_job_order_queued [of j "js' ! 0"] by force
  qed
  with n w(1) ne show ?thesis by (simp add: hd_conv_nth)
qed

lemma put_jobs_Inl: "put_jobs B nid now js s = (Inl e, s') \<Longrightarrow> s' = s"
  by (auto simp: put_jobs_def prog_bind_def dest: db_update_Inl split: sum.splits prod.splits)

end

text \<open>
  A policy's plan of jobs is queued whole or not at all and is worked through in the order it
  was given: when storing it fails nothing is stored, and on a server with nothing else queued
  the first piece of work handed out afterwards is the first job of the plan, although the jobs
  are stored under random ids.
\<close>

theorem queued_plan_starts_with_first:
  assumes "bolt_store B" "put_jobs B new_id now js s = (r, s')"
    and "list_all fresh_job js" "inj_on new_id {..< length js}" "js \<noteq> []"
    and "\<forall>r. \<not> pending_restore B s r" "\<forall>j. \<not> pending_job B s j"
  shows "(\<exists>e. r = Inl e \<and> s' = s) \<or>
    (\<exists>js'. r = Inr js' \<and> length js' = length js \<and>
      (\<forall>w s''. pending_work B s' = (Inr w, s'') \<longrightarrow> w = JobWork (hd js')))"
proof (cases r)
  case (Inl e)
  with assms(2) bolt_store.put_jobs_Inl [OF assms(1)] show ?thesis by blast
next
  case (Inr js')
  note put = assms(2) [unfolded Inr]
  have "length js' = length js"
    by (rule bolt_store.put_jobs_stored(1) [OF assms(1) put assms(3,4)])
  moreover have "w = JobWork (hd js')" if "pending_work B s' = (Inr w, s'')" for w s''
    using bolt_store.put_jobs_next [OF assms(1) put assms(3-5) _ _ that] assms(6,7) by blast
  ultimately show ?thesis using Inr by blast
qed

lemma mem_simps:
  "marshal mem_bolt d = Inr d" "bo_commit mem_bolt s = None"
  "k \<noteq> [] \<Longrightarrow> tx_put mem_bolt b k d s = (Inr (), s(b := (k, d) # s b))"
  by (simp_all add: marshal_def mem_bolt_def tx_put_def)

lemma mem_put_jobs:
  assumes "prepare_jobs mem_bolt nid now 0 js = Inr js'" "list_all (\<lambda>j. jb_id j \<noteq> []) js'"
  shows "\<exists>s'. put_jobs mem_bolt nid now js s = (Inr js', s')"
proof -
  have "\<exists>s'. tx_put_jobs mem_bolt ys s = (Inr (), s')" if "list_all (\<lambda>j. jb_id j \<noteq> []) ys" for ys s
    using that by (induction ys arbitrary: s) (auto simp: mem_simps)
  from this [OF assms(2), of s] assms(1) show ?thesis
    by (auto simp: put_jobs_def db_update_def mem_simps)
qed

definition example_ids :: "nat \<Rightarrow> string" where
  "example_ids n = (if n = 0 then ''z'' else ''a'')"

definition example_plan :: "node_job list" where
  "example_plan = replicate 2 ((example_job [] 0)\<lparr>jb_status := no_status\<rparr>)"

theorem queued_plan_starts_with_first_witness:
  "\<exists>js' s'. put_jobs mem_bolt example_ids 5 example_plan (mem_with BJobs []) = (Inr js', s') \<and> length js' = 2"
proof -
  have prep: "prepare_jobs mem_bolt example_ids 5 0 example_plan = Inr [example_job ''z'' 5, example_job ''a'' 6]"
    by (simp add: example_plan_def numeral_2_eq_2 mem_simps prepare_job_def is_zero_def zero_time_def Let_def
        example_ids_def) (simp add: example_job_def)
  obtain js' s' where run: "put_jobs mem_bolt example_ids 5 example_plan (mem_with BJobs []) = (Inr js', s')"
    using mem_put_jobs [OF prep, of "mem_with BJobs []"] by auto
  have "\<forall>r. \<not> pending_restore mem_bolt (mem_with BJobs []) r" "\<forall>j. \<not> pending_job mem_bolt (mem_with BJobs []) j"
    by (simp_all add: pending_restore_def pending_job_def stored_def mem_bolt_def mem_with_def)
  moreover have "list_all fresh_job example_plan" "example_plan \<noteq> []" "length example_plan = 2"
    by (simp_all add: example_plan_def numeral_2_eq_2 fresh_job_def is_zero_def zero_time_def)
  moreover have "inj_on example_ids {..< length example_plan}"
    by (auto simp: inj_on_def example_ids_def example_plan_def)
  ultimately show ?thesis
    using queued_plan_starts_with_first [OF mem.bolt_store_axioms run] run by auto
qed

end
