(* ===== verification/Baskets.thy ===== *)
theory Baskets
  imports Node_Facts
begin

text \<open>
  Choosing parts of a restore point: \<open>internal/nodestore/basket.go\<close>. A change reads the clock
  once here; the code reads it several times within one transaction.
\<close>

section \<open>Contents\<close>

definition owner_account :: string where "owner_account = ''account''"
definition owner_operator :: string where "owner_operator = ''whm''"

definition basket_life :: duration where "basket_life = 24 * hour"

definition basket_empty :: "basket \<Rightarrow> bool" where
  "basket_empty b \<longleftrightarrow> length (bk_items b) = 0"

fun count_items :: "selection list \<Rightarrow> nat" where
  "count_items [] = 0"
| "count_items (i # is) = (if length (se_names i) = 0 then 1 else length (se_names i)) + count_items is"

definition basket_count :: "basket \<Rightarrow> nat" where
  "basket_count b = count_items (bk_items b)"

definition basket_key :: "string \<Rightarrow> string \<Rightarrow> string \<Rightarrow> string \<Rightarrow> string" where
  "basket_key owner account repository snapshot =
     account @ [CHR 0x00] @ owner @ [CHR 0x00] @ repository @ [CHR 0x00] @ snapshot"

fun has_name :: "string list \<Rightarrow> string \<Rightarrow> bool" where
  "has_name [] want \<longleftrightarrow> False"
| "has_name (n # ns) want \<longleftrightarrow> n = want \<or> has_name ns want"

fun without_kind :: "selection list \<Rightarrow> string \<Rightarrow> selection list" where
  "without_kind [] kind = []"
| "without_kind (i # is) kind = (if se_kind i \<noteq> kind then i # without_kind is kind else without_kind is kind)"

definition sorted_selection :: "selection \<Rightarrow> selection" where
  "sorted_selection sel = sel\<lparr>se_names := sort_strings (se_names sel)\<rparr>"

definition with_selection :: "selection list \<Rightarrow> selection \<Rightarrow> selection list" where
  "with_selection items sel = without_kind items (se_kind sel) @ [sorted_selection sel]"

fun with_more_names :: "selection list \<Rightarrow> selection \<Rightarrow> selection list" where
  "with_more_names [] sel = [sorted_selection sel]"
| "with_more_names (i # is) sel =
     (if se_kind i \<noteq> se_kind sel then i # with_more_names is sel
      else if length (se_names i) = 0 \<or> length (se_names sel) = 0 then i\<lparr>se_names := []\<rparr> # is
      else i\<lparr>se_names := sort_strings
               (se_names i @ filter (\<lambda>n. \<not> has_name (se_names i) n) (se_names sel))\<rparr> # is)"

section \<open>Reading and changing\<close>

definition empty_basket :: "string \<Rightarrow> string \<Rightarrow> string \<Rightarrow> string \<Rightarrow> basket" where
  "empty_basket owner account repository snapshot =
     \<lparr>bk_owner = owner, bk_account = account, bk_repository_id = repository, bk_snapshot_id = snapshot,
      bk_items = [], bk_updated_at = zero_time\<rparr>"

definition get_basket :: "'db bolt \<Rightarrow> instant \<Rightarrow> string \<Rightarrow> string \<Rightarrow> string \<Rightarrow> string \<Rightarrow> ('db, basket) prog" where
  "get_basket B now owner account repository snapshot =
     (let empty = empty_basket owner account repository snapshot in
      if owner = [] \<or> account = [] \<or> repository = [] \<or> snapshot = [] then prog_return empty
      else (\<lambda>s. case s_get B BBaskets (basket_key owner account repository snapshot) as_basket s of
          (Inl e, s') \<Rightarrow> (if is_not_found e then (Inr empty, s') else (Inl e, s'))
        | (Inr b, s') \<Rightarrow>
            (if time_sub now (bk_updated_at b) > basket_life then (Inr empty, s') else (Inr b, s'))))"

definition stale_basket :: "instant \<Rightarrow> doc \<Rightarrow> bool" where
  "stale_basket now d \<longleftrightarrow>
     (case as_basket d of None \<Rightarrow> True | Some b \<Rightarrow> time_sub now (bk_updated_at b) > basket_life)"

text \<open>\<open>sweepBaskets\<close> ignores the error of a deletion and goes on.\<close>

fun quiet_delete_all :: "'db bolt \<Rightarrow> string list \<Rightarrow> 'db \<Rightarrow> 'db" where
  "quiet_delete_all B [] s = s"
| "quiet_delete_all B (k # ks) s =
     quiet_delete_all B ks (case bo_delete B BBaskets k s of Inl _ \<Rightarrow> s | Inr s' \<Rightarrow> s')"

definition sweep_baskets :: "'db bolt \<Rightarrow> instant \<Rightarrow> string \<Rightarrow> 'db \<Rightarrow> 'db" where
  "sweep_baskets B now except s =
     quiet_delete_all B
       (map fst (filter (\<lambda>(k, d). k \<noteq> except \<and> stale_basket now d) (bo_entries B BBaskets s))) s"

text \<open>What is in the basket before a change: a stored one that is readable and not too old.\<close>

definition current_basket :: "'db bolt \<Rightarrow> instant \<Rightarrow> string \<Rightarrow> basket \<Rightarrow> 'db \<Rightarrow> basket" where
  "current_basket B now key fresh s =
     (case bo_get B BBaskets key s of
        None \<Rightarrow> fresh
      | Some d \<Rightarrow> (case as_basket d of
            None \<Rightarrow> fresh
          | Some b \<Rightarrow> if time_sub now (bk_updated_at b) \<le> basket_life then b else fresh))"

definition wrap_encode :: "'a res \<Rightarrow> 'a res" where
  "wrap_encode r = (case r of Inl e \<Rightarrow> Inl (ErrWrap ''nodestore: encode basket'' e) | Inr a \<Rightarrow> Inr a)"

definition change_basket :: "'db bolt \<Rightarrow> instant \<Rightarrow> string \<Rightarrow> string \<Rightarrow> string \<Rightarrow> string \<Rightarrow>
    (basket \<Rightarrow> basket) \<Rightarrow> ('db, basket) prog" where
  "change_basket B now owner account repository snapshot change =
     (if owner = [] \<or> account = [] \<or> repository = [] \<or> snapshot = []
      then prog_fail (ErrMsg ''nodestore: a basket belongs to one restore point'' [])
      else
        let key = basket_key owner account repository snapshot in
        db_update B (\<lambda>s.
          let fresh = empty_basket owner account repository snapshot;
              b = (change (current_basket B now key fresh s))\<lparr>bk_updated_at := now\<rparr>;
              s = sweep_baskets B now key s
          in if basket_empty b then prog_bind (tx_delete B BBaskets key) (\<lambda>_. prog_return b) s
             else prog_bind (prog_lift (wrap_encode (marshal B (DBasket b)))) (\<lambda>encoded.
                  prog_bind (tx_put B BBaskets key encoded) (\<lambda>_. prog_return b)) s))"

definition change_items :: "(selection list \<Rightarrow> selection list) \<Rightarrow> basket \<Rightarrow> basket" where
  "change_items f b = b\<lparr>bk_items := f (bk_items b)\<rparr>"

definition put_in_basket :: "'db bolt \<Rightarrow> instant \<Rightarrow> string \<Rightarrow> string \<Rightarrow> string \<Rightarrow> string \<Rightarrow> selection \<Rightarrow>
    ('db, basket) prog" where
  "put_in_basket B now owner account repository snapshot sel =
     change_basket B now owner account repository snapshot (change_items (\<lambda>items. with_selection items sel))"

definition add_to_basket :: "'db bolt \<Rightarrow> instant \<Rightarrow> string \<Rightarrow> string \<Rightarrow> string \<Rightarrow> string \<Rightarrow> selection \<Rightarrow>
    ('db, basket) prog" where
  "add_to_basket B now owner account repository snapshot sel =
     change_basket B now owner account repository snapshot (change_items (\<lambda>items. with_more_names items sel))"

definition take_from_basket :: "'db bolt \<Rightarrow> instant \<Rightarrow> string \<Rightarrow> string \<Rightarrow> string \<Rightarrow> string \<Rightarrow> string \<Rightarrow>
    ('db, basket) prog" where
  "take_from_basket B now owner account repository snapshot kind =
     change_basket B now owner account repository snapshot (change_items (\<lambda>items. without_kind items kind))"

definition forget_basket :: "'db bolt \<Rightarrow> string \<Rightarrow> string \<Rightarrow> string \<Rightarrow> string \<Rightarrow> ('db, unit) prog" where
  "forget_basket B owner account repository snapshot =
     or_default (s_delete B BBaskets (basket_key owner account repository snapshot)) ()"

definition forget_baskets :: "'db bolt \<Rightarrow> string \<Rightarrow> ('db, unit) prog" where
  "forget_baskets B account = db_update B (delete_baskets_of B account)"

section \<open>Choosing\<close>

lemma has_name_iff [simp]: "has_name ns n \<longleftrightarrow> n \<in> set ns"
  by (induction ns) auto

lemma without_kind_filter: "without_kind is k = filter (\<lambda>i. se_kind i \<noteq> k) is"
  by (induction "is") auto

lemma sorted_selection_kind [simp]: "se_kind (sorted_selection sel) = se_kind sel"
  by (simp add: sorted_selection_def)

lemma with_selection_kinds:
  "filter (\<lambda>i. se_kind i = se_kind sel) (with_selection items sel) = [sorted_selection sel]"
  "filter (\<lambda>i. se_kind i \<noteq> se_kind sel) (with_selection items sel) = filter (\<lambda>i. se_kind i \<noteq> se_kind sel) items"
  by (auto simp: with_selection_def without_kind_filter filter_empty_conv)

text \<open>Every kind is in a basket at most once.\<close>

definition one_per_kind :: "selection list \<Rightarrow> bool" where
  "one_per_kind is \<longleftrightarrow> distinct (map se_kind is)"

lemma with_selection_one: "one_per_kind is \<Longrightarrow> one_per_kind (with_selection is sel)"
  by (auto simp: one_per_kind_def with_selection_def without_kind_filter distinct_map_filter)

lemma with_more_names_kinds: "set (map se_kind (with_more_names is sel)) = insert (se_kind sel) (se_kind ` set is)"
  by (induction "is" sel rule: with_more_names.induct) auto

lemma with_more_names_one: "one_per_kind is \<Longrightarrow> one_per_kind (with_more_names is sel)"
proof (induction "is" sel rule: with_more_names.induct)
  case (2 i "is" sel)
  then show ?case
    using with_more_names_kinds [of "is" sel] by (auto simp: one_per_kind_def)
qed (simp add: one_per_kind_def)

lemma without_kind_one: "one_per_kind is \<Longrightarrow> one_per_kind (without_kind is k)"
  by (simp add: one_per_kind_def without_kind_filter distinct_map_filter)

text \<open>Adding to a part that was chosen by name keeps every name and adds the new ones.\<close>

lemma with_more_names_union:
  assumes "one_per_kind is" "i \<in> set is" "se_kind i = se_kind sel" "se_names i \<noteq> []" "se_names sel \<noteq> []"
  shows "\<exists>j \<in> set (with_more_names is sel). se_kind j = se_kind sel \<and> set (se_names j) = set (se_names i) \<union> set (se_names sel)"
  using assms
proof (induction "is" sel rule: with_more_names.induct)
  case (2 x "is" sel)
  show ?case
  proof (cases "se_kind x = se_kind sel")
    case True
    have "i \<notin> set is"
    proof
      assume "i \<in> set is"
      then have "se_kind i \<in> se_kind ` set is" by (rule imageI)
      with True 2(2,4) show False by (simp add: one_per_kind_def)
    qed
    with 2(3) have "i = x" by simp
    with True 2(4-) show ?thesis by auto
  next
    case False
    with 2 show ?thesis by (auto simp: one_per_kind_def)
  qed
qed simp

section \<open>One basket per restore point\<close>

lemma cut_at_zero:
  "c \<notin> set x \<Longrightarrow> c \<notin> set y \<Longrightarrow> x @ [c] @ p = y @ [c] @ q \<longleftrightarrow> x = y \<and> p = q"
proof (induction x arbitrary: y)
  case Nil
  then show ?case by (cases y) auto
next
  case (Cons a x)
  then show ?case by (cases y) auto
qed

lemma basket_key_account:
  assumes "CHR 0x00 \<notin> set a1" "CHR 0x00 \<notin> set a2"
    "CHR 0x00 \<notin> set o1" "CHR 0x00 \<notin> set o2" "CHR 0x00 \<notin> set r1" "CHR 0x00 \<notin> set r2"
  shows "basket_key o1 a1 r1 s1 = basket_key o2 a2 r2 s2 \<longleftrightarrow> a1 = a2 \<and> o1 = o2 \<and> r1 = r2 \<and> s1 = s2"
  unfolding basket_key_def cut_at_zero [OF assms(1,2)] cut_at_zero [OF assms(3,4)] cut_at_zero [OF assms(5,6)] ..

definition live_basket :: "instant \<Rightarrow> doc \<Rightarrow> bool" where
  "live_basket now d \<longleftrightarrow> \<not> stale_basket now d"

context bolt_store
begin

lemma quiet_delete_all_get:
  "bo_get B b k (quiet_delete_all B ks s) \<in> {bo_get B b k s, None} \<and>
     (b \<noteq> BBaskets \<or> k \<notin> set ks \<longrightarrow> bo_get B b k (quiet_delete_all B ks s) = bo_get B b k s)"
proof (induction ks arbitrary: s)
  case (Cons k' ks)
  show ?case
  proof (cases "bo_delete B BBaskets k' s")
    case (Inl e)
    with Cons.IH [of s] show ?thesis by auto
  next
    case (Inr s1)
    with Cons.IH [of s1] get_delete [OF Inr, of b k] show ?thesis by (auto split: if_splits)
  qed
qed simp

lemma sweep_get:
  "b \<noteq> BBaskets \<or> k = except \<or> (\<forall>d. bo_get B b k s = Some d \<longrightarrow> live_basket now d) \<Longrightarrow>
     bo_get B b k (sweep_baskets B now except s) = bo_get B b k s"
  using quiet_delete_all_get [of b k]
  by (force simp: sweep_baskets_def live_basket_def entries_iff)

lemma change_basket_get:
  assumes "change_basket B now owner account repository snapshot change s = (Inr r, s')"
  defines "key \<equiv> basket_key owner account repository snapshot"
  shows "r = (change (current_basket B now key (empty_basket owner account repository snapshot) s))\<lparr>bk_updated_at := now\<rparr>"
    "bo_get B BBaskets key s' = (if basket_empty r then None else Some (DBasket r))"
    "b \<noteq> BBaskets \<or> k \<noteq> key \<and> (\<forall>d. bo_get B b k s = Some d \<longrightarrow> live_basket now d) \<Longrightarrow>
       bo_get B b k s' = bo_get B b k s"
proof -
  let ?b = "(change (current_basket B now key (empty_basket owner account repository snapshot) s))\<lparr>bk_updated_at := now\<rparr>"
  let ?s = "sweep_baskets B now key s"
  have run: "r = ?b \<and> (if basket_empty ?b then bo_delete B BBaskets key ?s = Inr s'
      else bo_put B BBaskets key (DBasket ?b) ?s = Inr s')"
    using assms(1) unfolding key_def
    by (auto simp: change_basket_def Let_def prog_bind_eq_Inr wrap_encode_def marshal_def
        split: if_splits sum.splits option.splits)
  then show "r = ?b" by simp
  have get: "bo_get B b' k' s' = (if b' = BBaskets \<and> k' = key then (if basket_empty r then None else Some (DBasket r))
      else bo_get B b' k' ?s)" for b' k'
    using run get_delete [of BBaskets key ?s s' b' k'] get_put [of BBaskets key "DBasket ?b" ?s s' b' k']
    by (auto split: if_splits)
  show "bo_get B BBaskets key s' = (if basket_empty r then None else Some (DBasket r))"
    by (simp add: get)
  show "b \<noteq> BBaskets \<or> k \<noteq> key \<and> (\<forall>d. bo_get B b k s = Some d \<longrightarrow> live_basket now d) \<Longrightarrow>
       bo_get B b k s' = bo_get B b k s"
    using sweep_get [of b k key s now] by (auto simp: get)
qed

lemma get_basket_of:
  assumes "bo_get B BBaskets (basket_key owner account repository snapshot) s = Some (DBasket r)"
    "owner \<noteq> []" "account \<noteq> []" "repository \<noteq> []" "snapshot \<noteq> []"
  shows "get_basket B t owner account repository snapshot s =
    (Inr (if time_sub t (bk_updated_at r) > basket_life then empty_basket owner account repository snapshot else r), s)"
  using assms by (simp add: get_basket_def s_get_def Let_def)

lemma put_in_basket_read:
  assumes "put_in_basket B now owner account repository snapshot sel s = (Inr r, s')"
  shows "get_basket B t owner account repository snapshot s' =
      (Inr (if time_sub t now > basket_life then empty_basket owner account repository snapshot else r), s')"
    "filter (\<lambda>i. se_kind i = se_kind sel) (bk_items r) = [sorted_selection sel]"
proof -
  from assms have ne: "owner \<noteq> []" "account \<noteq> []" "repository \<noteq> []" "snapshot \<noteq> []"
    by (auto simp: put_in_basket_def change_basket_def split: if_splits)
  note ch = change_basket_get [OF assms [unfolded put_in_basket_def]]
  show items: "filter (\<lambda>i. se_kind i = se_kind sel) (bk_items r) = [sorted_selection sel]"
    by (subst ch(1)) (simp add: change_items_def with_selection_kinds)
  then have "\<not> basket_empty r" by (auto simp: basket_empty_def)
  with ch(2) have "bo_get B BBaskets (basket_key owner account repository snapshot) s' = Some (DBasket r)" by simp
  from get_basket_of [OF this ne] ch(1)
  show "get_basket B t owner account repository snapshot s' =
      (Inr (if time_sub t now > basket_life then empty_basket owner account repository snapshot else r), s')"
    by simp
qed

end

text \<open>
  What was chosen is what is read back, for a day. After a part was put into a basket, reading
  that basket within twenty-four hours gives the basket as changed, in which that part appears
  exactly once, with exactly the names chosen last; later than that it reads as empty, so a choice
  made out of a restore point that may be gone is not offered again.
\<close>

theorem basket_read_back:
  assumes "bolt_store B" "put_in_basket B now owner account repository snapshot sel s = (Inr r, s')"
  shows "get_basket B t owner account repository snapshot s' =
      (Inr (if t - now > 24 * hour then empty_basket owner account repository snapshot else r), s')
    \<and> filter (\<lambda>i. se_kind i = se_kind sel) (bk_items r) = [sorted_selection sel]"
  using bolt_store.put_in_basket_read [OF assms] time_sub_le_hours [of 24 t now]
  by (auto simp: basket_life_def)

text \<open>
  Baskets do not interfere. Changing one leaves every other kind of document alone and every
  other basket that is readable and not a day old as it is, and the baskets of two accounts, two
  owners or two restore points are never the same one (as long as the names hold no zero byte).
\<close>

theorem basket_changes_are_isolated:
  assumes "bolt_store B" "change_basket B now owner account repository snapshot change s = (Inr r, s')"
    and "list_all (\<lambda>x. CHR 0x00 \<notin> set x) [account, owner, repository, account', owner', repository']"
    and "(account, owner, repository, snapshot) \<noteq> (account', owner', repository', snapshot')"
    and "bo_get B BBaskets (basket_key owner' account' repository' snapshot') s = Some d" "\<not> stale_basket now d"
  shows "bo_get B BBaskets (basket_key owner' account' repository' snapshot') s' = Some d
    \<and> (\<forall>b k. b \<noteq> BBaskets \<longrightarrow> bo_get B b k s' = bo_get B b k s)"
proof -
  have "basket_key owner' account' repository' snapshot' \<noteq> basket_key owner account repository snapshot"
    using assms(3,4) basket_key_account [of account' account owner' owner repository' repository snapshot' snapshot]
    by auto
  with bolt_store.change_basket_get(3) [OF assms(1,2)] assms(5,6) show ?thesis
    by (auto simp: live_basket_def)
qed

definition bob_files :: selection where
  "bob_files = \<lparr>se_kind = ''files'', se_names = [''b'', ''a'']\<rparr>"

lemma mem_change_basket:
  assumes "owner \<noteq> []" "account \<noteq> []" "repository \<noteq> []" "snapshot \<noteq> []"
  shows "\<exists>r s'. change_basket mem_bolt now owner account repository snapshot change s = (Inr r, s')"
proof -
  have "basket_key owner account repository snapshot \<noteq> []" by (simp add: basket_key_def)
  then show ?thesis
    using assms
    by (simp add: change_basket_def Let_def db_update_def mem_simps wrap_encode_def)
      (simp add: tx_delete_def mem_bolt_def)
qed

theorem basket_read_back_witness:
  "\<exists>r s'. put_in_basket mem_bolt 0 ''account'' ''bob'' ''r1'' ''0123abcd'' bob_files (mem_with BJobs []) = (Inr r, s')
     \<and> get_basket mem_bolt (25 * hour) ''account'' ''bob'' ''r1'' ''0123abcd'' s'
         = (Inr (empty_basket ''account'' ''bob'' ''r1'' ''0123abcd''), s')"
proof -
  obtain r s' where run: "put_in_basket mem_bolt 0 ''account'' ''bob'' ''r1'' ''0123abcd'' bob_files (mem_with BJobs [])
      = (Inr r, s')"
    unfolding put_in_basket_def using mem_change_basket [of "''account''" "''bob''" "''r1''" "''0123abcd''"] by blast
  from basket_read_back [OF mem.bolt_store_axioms run, of "25 * hour"] run show ?thesis
    by (auto simp: hour_def)
qed

theorem basket_changes_are_isolated_witness:
  "bo_get mem_bolt BBaskets (basket_key ''whm'' ''bob'' ''r1'' ''0123abcd'')
     (snd (change_basket mem_bolt 0 ''account'' ''bob'' ''r1'' ''0123abcd'' id
       (mem_with BBaskets [(basket_key ''whm'' ''bob'' ''r1'' ''0123abcd'',
          DBasket (empty_basket ''whm'' ''bob'' ''r1'' ''0123abcd''))])))
   = Some (DBasket (empty_basket ''whm'' ''bob'' ''r1'' ''0123abcd''))"
proof -
  let ?k = "basket_key ''whm'' ''bob'' ''r1'' ''0123abcd''"
  let ?d = "DBasket (empty_basket ''whm'' ''bob'' ''r1'' ''0123abcd'')"
  obtain r s' where run: "change_basket mem_bolt 0 ''account'' ''bob'' ''r1'' ''0123abcd'' id (mem_with BBaskets [(?k, ?d)])
      = (Inr r, s')"
    using mem_change_basket [of "''account''" "''bob''" "''r1''" "''0123abcd''"] by blast
  have "bo_get mem_bolt BBaskets ?k (mem_with BBaskets [(?k, ?d)]) = Some ?d"
    by (simp add: mem_bolt_def mem_with_def)
  moreover have "\<not> stale_basket 0 ?d"
    by (simp add: stale_basket_def empty_basket_def basket_life_def hour_def time_sub_def zero_time_def
        max_duration_def min_duration_def)
  ultimately show ?thesis
    using basket_changes_are_isolated [OF mem.bolt_store_axioms run, of "''bob''" "''whm''" "''r1''" "''0123abcd''" ?d] run
    by auto
qed

end
