(* ===== verification/Legacy_Paths.thy ===== *)
theory Legacy_Paths
  imports Node_Facts
begin

text \<open>
  Moving stored paths to the renamed directories: \<open>internal/nodestore/legacypaths.go\<close>. The
  count a failing run returns beside its error is left out.
\<close>

section \<open>One path\<close>

definition legacy_directories :: "(string \<times> string) list" where
  "legacy_directories =
     [(''/etc/cprest'', ''/etc/gniza''), (''/var/lib/cprest'', ''/var/lib/gniza''),
      (''/var/cache/cprest'', ''/var/cache/gniza''), (''/var/run/cprest'', ''/var/run/gniza''),
      (''/run/cprest'', ''/run/gniza'')]"

fun new_name_loop :: "(string \<times> string) list \<Rightarrow> string \<Rightarrow> string" where
  "new_name_loop [] path = path"
| "new_name_loop ((old, current) # ps) path =
     (if path = old then current
      else if has_prefix path (old @ ''/'') then current @ trim_prefix path old
      else new_name_loop ps path)"

definition under_new_name :: "string \<Rightarrow> string" where
  "under_new_name path = new_name_loop legacy_directories path"

section \<open>The records that hold paths\<close>

definition moved_settings :: "settings \<Rightarrow> settings" where
  "moved_settings st = st\<lparr>st_staging_root := under_new_name (st_staging_root st),
     st_restic_cache := under_new_name (st_restic_cache st),
     st_config_dir := under_new_name (st_config_dir st)\<rparr>"

definition moved_config :: "(string \<times> string) list \<Rightarrow> (string \<times> string) list" where
  "moved_config config = map (\<lambda>(key, value). (key, under_new_name value)) config"

definition moved_restore :: "node_restore \<Rightarrow> node_restore" where
  "moved_restore r = r\<lparr>re_target_dir := under_new_name (re_target_dir r),
     re_archive_path := under_new_name (re_archive_path r), re_restored_to := under_new_name (re_restored_to r)\<rparr>"

definition raw_settings :: "'db bolt \<Rightarrow> ('db, settings) prog" where
  "raw_settings B = s_get B BSettings settings_key as_settings"

section \<open>The migration\<close>

definition migrate_settings :: "'db bolt \<Rightarrow> ('db, nat) prog" where
  "migrate_settings B =
     (\<lambda>s. case raw_settings B s of
        (Inl e, s') \<Rightarrow> (if is_not_found e then (Inr 0, s') else (Inl e, s'))
      | (Inr st, s') \<Rightarrow>
          (let moved = moved_settings st in
           if st_staging_root moved \<noteq> st_staging_root st \<or> st_restic_cache moved \<noteq> st_restic_cache st
              \<or> st_config_dir moved \<noteq> st_config_dir st
           then prog_bind (save_settings B moved) (\<lambda>_. prog_return 1) s'
           else (Inr 0, s')))"

definition prog_wrap :: "string \<Rightarrow> ('s, 'a) prog \<Rightarrow> ('s, 'a) prog" where
  "prog_wrap msg m = (\<lambda>s. case m s of (Inl e, s') \<Rightarrow> (Inl (ErrWrap msg e), s') | (Inr a, s') \<Rightarrow> (Inr a, s'))"

fun migrate_destinations :: "'db bolt \<Rightarrow> string \<Rightarrow> instant \<Rightarrow> destination list \<Rightarrow> nat \<Rightarrow> ('db, nat) prog" where
  "migrate_destinations B new_id now [] changed = prog_return changed"
| "migrate_destinations B new_id now (dest # dests) changed =
     (if \<not> list_ex (\<lambda>(key, value). under_new_name value \<noteq> value) (ds_config dest)
      then migrate_destinations B new_id now dests changed
      else prog_bind
        (prog_wrap ''nodestore: move destination to the new directory names''
          (put_destination B new_id now (dest\<lparr>ds_config := moved_config (ds_config dest)\<rparr>)))
        (\<lambda>_. migrate_destinations B new_id now dests (changed + 1)))"

definition migrate_upgrade :: "'db bolt \<Rightarrow> ('db, nat) prog" where
  "migrate_upgrade B =
     prog_bind (get_upgrade_state B) (\<lambda>u.
       if under_new_name (ug_dir u) \<noteq> ug_dir u
       then prog_bind (save_upgrade_state B (u\<lparr>ug_dir := under_new_name (ug_dir u)\<rparr>)) (\<lambda>_. prog_return 1)
       else prog_return 0)"

fun migrate_restores :: "'db bolt \<Rightarrow> string \<Rightarrow> instant \<Rightarrow> node_restore list \<Rightarrow> nat \<Rightarrow> ('db, nat) prog" where
  "migrate_restores B new_id now [] changed = prog_return changed"
| "migrate_restores B new_id now (r # rs) changed =
     (if under_new_name (re_target_dir r) = re_target_dir r
         \<and> under_new_name (re_archive_path r) = re_archive_path r
         \<and> under_new_name (re_restored_to r) = re_restored_to r
      then migrate_restores B new_id now rs changed
      else prog_bind
        (prog_wrap ''nodestore: move restore to the new directory names''
          (put_restore B new_id now (moved_restore r)))
        (\<lambda>_. migrate_restores B new_id now rs (changed + 1)))"

definition migrate_legacy_paths :: "'db bolt \<Rightarrow> string \<Rightarrow> instant \<Rightarrow> ('db, nat) prog" where
  "migrate_legacy_paths B new_id now =
     prog_bind (migrate_settings B) (\<lambda>n1.
     prog_bind (destinations B) (\<lambda>dests.
     prog_bind (migrate_destinations B new_id now dests n1) (\<lambda>n2.
     prog_bind (migrate_upgrade B) (\<lambda>n3.
     prog_bind (restores B 0) (\<lambda>rs. migrate_restores B new_id now rs (n2 + n3))))))"

section \<open>Which paths move\<close>

lemma new_name_loop_cases:
  obtains old current rest where "(old, current) \<in> set ps" "path = old @ rest" "below_part rest"
      "new_name_loop ps path = current @ rest"
  | "\<forall>(old, current) \<in> set ps. \<not> lies_under old path" "new_name_loop ps path = path"
proof (induction ps path arbitrary: thesis rule: new_name_loop.induct)
  case (2 old current ps path)
  show ?case
  proof (cases "lies_under old path")
    case True
    then obtain rest where rest: "path = old @ rest" "below_part rest"
      by (auto simp: lies_under_iff)
    then have "new_name_loop ((old, current) # ps) path = current @ rest"
      using True by (auto simp: lies_under_def)
    from 2(2) [OF _ rest this] show ?thesis by simp
  next
    case False
    then have skip: "new_name_loop ((old, current) # ps) path = new_name_loop ps path" "path \<noteq> old"
        "\<not> has_prefix path (old @ ''/'')"
      by (auto simp: lies_under_def)
    show ?thesis
    proof (rule "2.IH" [OF skip(2,3)])
      fix p c r assume "(p, c) \<in> set ps" "path = p @ r" "below_part r" "new_name_loop ps path = c @ r"
      with skip(1) 2(2) show ?thesis by (metis list.set_intros(2))
    next
      assume "\<forall>(old, current) \<in> set ps. \<not> lies_under old path" "new_name_loop ps path = path"
      with skip(1) False 2(3) show ?thesis by auto
    qed
  qed
qed simp

lemma not_legacy_below:
  assumes "(old, current) \<in> set legacy_directories" "below_part rest"
  shows "under_new_name (current @ rest) = current @ rest"
proof -
  from assms(1) have "current \<in> set [''/etc/gniza'', ''/var/lib/gniza'', ''/var/cache/gniza'', ''/var/run/gniza'', ''/run/gniza'']"
    unfolding legacy_directories_def by fastforce
  then show ?thesis
    unfolding under_new_name_def legacy_directories_def by (simp, elim disjE) simp_all
qed

lemma legacy_changes:
  assumes "(old, current) \<in> set legacy_directories"
  shows "current @ rest \<noteq> old @ rest"
  using assms unfolding legacy_directories_def append_same_eq by (simp, elim disjE conjE) simp_all

lemma under_new_name_idem [simp]: "under_new_name (under_new_name path) = under_new_name path"
  by (rule new_name_loop_cases [of legacy_directories path, folded under_new_name_def])
    (simp_all add: not_legacy_below)

lemma under_new_name_unchanged:
  "under_new_name path = path \<longleftrightarrow> (\<forall>(old, current) \<in> set legacy_directories. \<not> lies_under old path)"
proof (rule new_name_loop_cases [of legacy_directories path, folded under_new_name_def])
  fix old current rest
  assume a: "(old, current) \<in> set legacy_directories" "path = old @ rest" "below_part rest"
    "under_new_name path = current @ rest"
  with legacy_changes have "under_new_name path \<noteq> path" by metis
  moreover from a have "lies_under old path" by (auto simp: lies_under_iff)
  ultimately show ?thesis using a(1) by blast
qed simp

text \<open>
  C0. A stored path moves exactly when it is one of the five old directories or lies below one,
  and then only that directory at its front changes; a path that merely starts with the same
  letters, such as \<open>/var/lib/cprest-archive\<close>, stays. Moving a second time changes nothing.
\<close>

theorem legacy_path_moves:
  "(under_new_name path = path \<and> list_all (\<lambda>(old, current). \<not> lies_under old path) legacy_directories
    \<or> list_ex (\<lambda>(old, current). under_new_name path \<noteq> path \<and> lies_under old path
        \<and> under_new_name path = current @ drop (length old) path) legacy_directories)
   \<and> under_new_name (under_new_name path) = under_new_name path
   \<and> under_new_name ''/var/lib/cprest-archive'' = ''/var/lib/cprest-archive''"
proof (rule new_name_loop_cases [of legacy_directories path, folded under_new_name_def])
  fix old current rest
  assume a: "(old, current) \<in> set legacy_directories" "path = old @ rest" "below_part rest"
    "under_new_name path = current @ rest"
  then have "under_new_name path \<noteq> path \<and> lies_under old path \<and> under_new_name path = current @ drop (length old) path"
    using legacy_changes [OF a(1), of rest] by (auto simp: lies_under_iff)
  with a(1) have "list_ex (\<lambda>(old, current). under_new_name path \<noteq> path \<and> lies_under old path
        \<and> under_new_name path = current @ drop (length old) path) legacy_directories"
    unfolding list_ex_iff by blast
  moreover have "under_new_name ''/var/lib/cprest-archive'' = ''/var/lib/cprest-archive''"
    by (simp add: under_new_name_def legacy_directories_def)
  ultimately show ?thesis by simp
next
  assume "\<forall>(old, current) \<in> set legacy_directories. \<not> lies_under old path" "under_new_name path = path"
  then show ?thesis
    by (simp add: list_all_iff) (simp add: under_new_name_def legacy_directories_def)
qed

section \<open>What the migration does to the store\<close>

definition moved_destination :: "destination \<Rightarrow> destination" where
  "moved_destination d = d\<lparr>ds_config := moved_config (ds_config d)\<rparr>"

definition moved_upgrade :: "upgrade_state \<Rightarrow> upgrade_state" where
  "moved_upgrade u = u\<lparr>ug_dir := under_new_name (ug_dir u)\<rparr>"

fun moved_doc :: "bucket \<Rightarrow> string \<Rightarrow> doc \<Rightarrow> doc" where
  "moved_doc BDestinations k (DDestination d) = DDestination (moved_destination d)"
| "moved_doc BRestores k (DRestore r) = DRestore (moved_restore r)"
| "moved_doc BSettings k (DSettings st) = (if k = settings_key then DSettings (moved_settings st) else DSettings st)"
| "moved_doc BSettings k (DUpgrade u) = (if k = upgrade_key then DUpgrade (moved_upgrade u) else DUpgrade u)"
| "moved_doc b k d = d"

text \<open>What every store written by this program satisfies: records sit under their ids.\<close>

definition paths_keyed :: "'db bolt \<Rightarrow> 'db \<Rightarrow> bool" where
  "paths_keyed B s \<longleftrightarrow>
     (\<forall>k d. bo_get B BDestinations k s = Some (DDestination d) \<longrightarrow>
        k = ds_id d \<and> k \<noteq> [] \<and> \<not> is_zero (ds_created_at d)) \<and>
     (\<forall>k r. bo_get B BRestores k s = Some (DRestore r) \<longrightarrow>
        k = re_id r \<and> k \<noteq> [] \<and> re_status r \<noteq> no_status)"

lemma moved_config_idem [simp]: "moved_config (moved_config c) = moved_config c"
  by (simp add: moved_config_def comp_def case_prod_beta)

lemma moved_destination_idem [simp]: "moved_destination (moved_destination d) = moved_destination d"
  by (simp add: moved_destination_def)

lemma moved_restore_idem [simp]: "moved_restore (moved_restore r) = moved_restore r"
  by (simp add: moved_restore_def)

lemma moved_settings_idem [simp]: "moved_settings (moved_settings r) = moved_settings r"
  by (simp add: moved_settings_def)

lemma moved_upgrade_idem [simp]: "moved_upgrade (moved_upgrade r) = moved_upgrade r"
  by (simp add: moved_upgrade_def)

lemma moved_doc_idem [simp]: "moved_doc b k (moved_doc b k d) = moved_doc b k d"
  by (cases "(b, k, d)" rule: moved_doc.cases) auto

lemma moved_doc_as [simp]:
  "moved_doc BDestinations k d = DDestination x \<longleftrightarrow> (\<exists>y. d = DDestination y \<and> x = moved_destination y)"
  "moved_doc BRestores k d = DRestore z \<longleftrightarrow> (\<exists>y. d = DRestore y \<and> z = moved_restore y)"
  by (cases d; auto)+

lemma config_same:
  "\<not> list_ex (\<lambda>(key, value). under_new_name value \<noteq> value) (ds_config d) \<longleftrightarrow> moved_destination d = d"
proof -
  have "moved_destination d = d \<longleftrightarrow> moved_config (ds_config d) = ds_config d"
    by (cases d) (simp add: moved_destination_def)
  moreover have "moved_config c = c \<longleftrightarrow> \<not> list_ex (\<lambda>(key, value). under_new_name value \<noteq> value) c" for c
    by (induction c) (auto simp: moved_config_def)
  ultimately show ?thesis by simp
qed

lemma restore_same:
  "under_new_name (re_target_dir r) = re_target_dir r \<and> under_new_name (re_archive_path r) = re_archive_path r
     \<and> under_new_name (re_restored_to r) = re_restored_to r \<longleftrightarrow> moved_restore r = r"
  by (cases r) (auto simp: moved_restore_def)

lemma settings_same:
  "\<not> (st_staging_root (moved_settings st) \<noteq> st_staging_root st \<or> st_restic_cache (moved_settings st) \<noteq> st_restic_cache st
     \<or> st_config_dir (moved_settings st) \<noteq> st_config_dir st) \<longleftrightarrow> moved_settings st = st"
  by (cases st) (auto simp: moved_settings_def)

lemma upgrade_same: "under_new_name (ug_dir u) = ug_dir u \<longleftrightarrow> moved_upgrade u = u"
  by (cases u) (auto simp: moved_upgrade_def)

lemma prog_wrap_Inr [simp]: "prog_wrap msg m s = (Inr a, s') \<longleftrightarrow> m s = (Inr a, s')"
  by (auto simp: prog_wrap_def split: prod.splits sum.splits)

lemma put_destination_Inr:
  assumes "put_destination B new_id now d s = (Inr d', s')" "ds_id d \<noteq> []" "\<not> is_zero (ds_created_at d)"
  shows "s_put B BDestinations (ds_id d) (DDestination d) s = (Inr (), s')"
  using assms by (auto simp: put_destination_def prog_bind_eq_Inr)

lemma put_restore_Inr:
  assumes "put_restore B new_id now r s = (Inr r', s')" "re_id r \<noteq> []" "re_status r \<noteq> no_status"
  shows "s_put B BRestores (re_id r) (DRestore r) s = (Inr (), s')"
  using assms by (auto simp: put_restore_def prog_bind_eq_Inr)

lemma as_settings_Some [simp]: "as_settings d = Some x \<longleftrightarrow> d = DSettings x"
  by (cases d) auto

lemma as_upgrade_Some [simp]: "as_upgrade d = Some x \<longleftrightarrow> d = DUpgrade x"
  by (cases d) auto

lemma get_upgrade_state_Inr:
  "get_upgrade_state B s = (Inr u, s') \<longleftrightarrow> s' = s \<and>
     (bo_get B BSettings upgrade_key s = Some (DUpgrade u)
      \<or> bo_get B BSettings upgrade_key s = None \<and> u = zero_upgrade)"
  by (auto simp: get_upgrade_state_def or_default_def s_get_def is_not_found_def
      split: option.splits if_splits)

lemma raw_settings_cases:
  obtains "bo_get B BSettings settings_key s = None" "raw_settings B s = (Inl ErrNotFound, s)"
  | st where "bo_get B BSettings settings_key s = Some (DSettings st)" "raw_settings B s = (Inr st, s)"
  | e where "raw_settings B s = (Inl e, s)" "\<not> is_not_found e"
proof (cases "bo_get B BSettings settings_key s")
  case None
  with that(1) show ?thesis by (simp add: raw_settings_def s_get_def)
next
  case (Some d)
  with that(2,3) show ?thesis
    by (cases "as_settings d") (auto simp: raw_settings_def s_get_def is_not_found_def)
qed

context bolt_store
begin

lemma migrate_destinations_get:
  assumes "migrate_destinations B new_id now ds n s = (Inr m, s')"
    and "\<forall>d \<in> set ds. bo_get B BDestinations (ds_id d) s = Some (DDestination d) \<and> ds_id d \<noteq> [] \<and> \<not> is_zero (ds_created_at d)"
    and "distinct (map ds_id ds)"
  shows "bo_get B b k s' = (if b = BDestinations \<and> k \<in> ds_id ` set ds
    then map_option (moved_doc b k) (bo_get B b k s) else bo_get B b k s)"
  using assms
proof (induction ds arbitrary: s n)
  case (Cons d ds)
  have here: "bo_get B BDestinations (ds_id d) s = Some (DDestination d)" "ds_id d \<notin> ds_id ` set ds"
    using Cons.prems by auto
  show ?case
  proof (cases "moved_destination d = d")
    case True
    with Cons.prems(1) have "migrate_destinations B new_id now ds n s = (Inr m, s')"
      by (simp only: migrate_destinations.simps config_same) simp
    from Cons.IH [OF this] Cons.prems(2,3) here True show ?thesis by auto
  next
    case False
    with Cons.prems(1) obtain d' s1 where
      put: "put_destination B new_id now (moved_destination d) s = (Inr d', s1)" and
      rest: "migrate_destinations B new_id now ds (n + 1) s1 = (Inr m, s')"
      by (simp only: migrate_destinations.simps config_same)
        (auto simp: prog_bind_eq_Inr moved_destination_def)
    have "s_put B BDestinations (ds_id d) (DDestination (moved_destination d)) s = (Inr (), s1)"
      using put_destination_Inr [OF put] Cons.prems(2) by (simp add: moved_destination_def)
    note g = put_get [OF this]
    have "\<forall>e \<in> set ds. bo_get B BDestinations (ds_id e) s1 = Some (DDestination e) \<and> ds_id e \<noteq> [] \<and> \<not> is_zero (ds_created_at e)"
    proof
      fix e assume e: "e \<in> set ds"
      then have "ds_id e \<noteq> ds_id d" using here(2) by (metis imageI)
      with e Cons.prems(2) show "bo_get B BDestinations (ds_id e) s1 = Some (DDestination e) \<and> ds_id e \<noteq> [] \<and> \<not> is_zero (ds_created_at e)"
        by (simp add: g)
    qed
    from Cons.IH [OF rest this] Cons.prems(3)
    have ih: "bo_get B b k s' = (if b = BDestinations \<and> k \<in> ds_id ` set ds then map_option (moved_doc b k) (bo_get B b k s1)
        else bo_get B b k s1)" by simp
    show ?thesis
    proof (cases "b = BDestinations \<and> k = ds_id d")
      case True
      with ih here show ?thesis by (simp add: g)
    next
      case False
      then have "bo_get B b k s1 = bo_get B b k s" by (auto simp: g)
      with ih False show ?thesis by auto
    qed
  qed
qed auto

lemma migrate_restores_get:
  assumes "migrate_restores B new_id now rs n s = (Inr m, s')"
    and "\<forall>r \<in> set rs. bo_get B BRestores (re_id r) s = Some (DRestore r) \<and> re_id r \<noteq> [] \<and> re_status r \<noteq> no_status"
    and "distinct (map re_id rs)"
  shows "bo_get B b k s' = (if b = BRestores \<and> k \<in> re_id ` set rs
    then map_option (moved_doc b k) (bo_get B b k s) else bo_get B b k s)"
  using assms
proof (induction rs arbitrary: s n)
  case (Cons r rs)
  have here: "bo_get B BRestores (re_id r) s = Some (DRestore r)" "re_id r \<notin> re_id ` set rs"
    using Cons.prems by auto
  show ?case
  proof (cases "moved_restore r = r")
    case True
    with Cons.prems(1) have "migrate_restores B new_id now rs n s = (Inr m, s')"
      by (simp only: migrate_restores.simps restore_same) simp
    from Cons.IH [OF this] Cons.prems(2,3) here True show ?thesis by auto
  next
    case False
    with Cons.prems(1) obtain r' s1 where
      put: "put_restore B new_id now (moved_restore r) s = (Inr r', s1)" and
      rest: "migrate_restores B new_id now rs (n + 1) s1 = (Inr m, s')"
      by (simp only: migrate_restores.simps restore_same) (auto simp: prog_bind_eq_Inr)
    have "s_put B BRestores (re_id r) (DRestore (moved_restore r)) s = (Inr (), s1)"
      using put_restore_Inr [OF put] Cons.prems(2) by (simp add: moved_restore_def)
    note g = put_get [OF this]
    have "\<forall>e \<in> set rs. bo_get B BRestores (re_id e) s1 = Some (DRestore e) \<and> re_id e \<noteq> [] \<and> re_status e \<noteq> no_status"
    proof
      fix e assume e: "e \<in> set rs"
      then have "re_id e \<noteq> re_id r" using here(2) by (metis imageI)
      with e Cons.prems(2) show "bo_get B BRestores (re_id e) s1 = Some (DRestore e) \<and> re_id e \<noteq> [] \<and> re_status e \<noteq> no_status"
        by (simp add: g)
    qed
    from Cons.IH [OF rest this] Cons.prems(3)
    have ih: "bo_get B b k s' = (if b = BRestores \<and> k \<in> re_id ` set rs then map_option (moved_doc b k) (bo_get B b k s1)
        else bo_get B b k s1)" by simp
    show ?thesis
    proof (cases "b = BRestores \<and> k = re_id r")
      case True
      with ih here show ?thesis by (simp add: g)
    next
      case False
      then have "bo_get B b k s1 = bo_get B b k s" by (auto simp: g)
      with ih False show ?thesis by auto
    qed
  qed
qed auto

lemma migrate_settings_get:
  assumes "migrate_settings B s = (Inr n, s')"
  shows "bo_get B b k s' = (if b = BSettings \<and> k = settings_key
    then map_option (moved_doc b k) (bo_get B b k s) else bo_get B b k s)"
proof (rule raw_settings_cases [of B s])
  fix st assume st: "bo_get B BSettings settings_key s = Some (DSettings st)" "raw_settings B s = (Inr st, s)"
  show ?thesis
  proof (cases "moved_settings st = st")
    case True
    with assms st show ?thesis by (auto simp: migrate_settings_def Let_def)
  next
    case False
    with settings_same [of st] assms st(2)
    have "save_settings B (moved_settings st) s = (Inr (), s')"
      by (auto simp: migrate_settings_def Let_def prog_bind_eq_Inr split: if_splits)
    from put_get [OF this [unfolded save_settings_def]] st(1) show ?thesis by auto
  qed
qed (use assms in \<open>auto simp: migrate_settings_def is_not_found_def\<close>)

lemma migrate_upgrade_get:
  assumes "migrate_upgrade B s = (Inr n, s')"
  shows "bo_get B b k s' = (if b = BSettings \<and> k = upgrade_key
    then map_option (moved_doc b k) (bo_get B b k s) else bo_get B b k s)"
proof -
  from assms obtain u where u: "get_upgrade_state B s = (Inr u, s)"
    by (auto simp: migrate_upgrade_def prog_bind_eq_Inr get_upgrade_state_Inr)
  show ?thesis
  proof (cases "moved_upgrade u = u")
    case True
    with assms u upgrade_same [of u] have "s' = s" by (simp add: migrate_upgrade_def)
    with u True show ?thesis by (auto simp: get_upgrade_state_Inr)
  next
    case False
    with assms u upgrade_same [of u] have "save_upgrade_state B (moved_upgrade u) s = (Inr (), s')"
      by (auto simp: migrate_upgrade_def prog_bind_eq_Inr moved_upgrade_def)
    note g = put_get [OF this [unfolded save_upgrade_state_def]]
    have "u \<noteq> zero_upgrade"
      using False by (auto simp: zero_upgrade_def moved_upgrade_def under_new_name_def legacy_directories_def)
    with u g show ?thesis by (auto simp: get_upgrade_state_Inr)
  qed
qed

lemma keyed_listed:
  assumes "sorted_list B b sel lt s = (Inr xs, s')"
    and "\<forall>k d x. bo_get B b k s = Some d \<longrightarrow> sel d = Some x \<longrightarrow> key x = k"
  shows "s' = s" "distinct (map key xs)"
    "x \<in> set xs \<Longrightarrow> \<exists>d. bo_get B b (key x) s = Some d \<and> sel d = Some x"
    "bo_get B b k s = Some d \<Longrightarrow> k \<in> key ` set xs"
proof -
  note l = sorted_list_Inr [OF assms(1)]
  show "s' = s" by (rule l)
  from assms(1) obtain ys where ys: "map (sel \<circ> snd) (bo_entries B b s) = map Some ys" "xs = go_sort lt ys"
    by (auto simp: sorted_list_def prog_bind_eq_Inr)
  have keys: "\<forall>e \<in> set (bo_entries B b s). \<forall>x. sel (snd e) = Some x \<longrightarrow> key x = fst e"
    using assms(2) by (auto simp: entries_iff)
  have "map (sel \<circ> snd) es = map Some zs \<Longrightarrow> \<forall>e \<in> set es. \<forall>x. sel (snd e) = Some x \<longrightarrow> key x = fst e \<Longrightarrow>
      map key zs = map fst es" for es zs
    by (induction es arbitrary: zs) (auto simp: Cons_eq_map_conv)
  from this [OF ys(1) keys] have eq: "map key ys = map fst (bo_entries B b s)" .
  then have "distinct (map key ys)" using entries_distinct by simp
  moreover have "mset (map key xs) = mset (map key ys)" by (simp add: ys(2))
  ultimately show "distinct (map key xs)" by (metis mset_eq_imp_distinct_iff)
  show "\<exists>d. bo_get B b (key x) s = Some d \<and> sel d = Some x" if "x \<in> set xs"
    using that l(2) assms(2) by (auto simp: stored_def)
  show "k \<in> key ` set xs" if "bo_get B b k s = Some d"
    using all_stored [OF assms(1) that] l(2) that assms(2) by (auto simp: image_iff stored_def) (metis that)
qed

lemma listable:
  assumes "\<And>k d. bo_get B b k s = Some d \<Longrightarrow> sel d \<noteq> None"
  shows "\<exists>xs. sorted_list B b sel lt s = (Inr xs, s)"
proof -
  have "\<forall>e \<in> set (bo_entries B b s). sel (snd e) \<noteq> None"
    using assms entries_iff by (metis prod.collapse)
  then have "map (sel \<circ> snd) (bo_entries B b s) = map Some (map (the \<circ> sel \<circ> snd) (bo_entries B b s))"
    by auto
  then have "s_list B b sel s = (Inr (map (the \<circ> sel \<circ> snd) (bo_entries B b s)), s)"
    unfolding s_list_Inr by blast
  from prog_bind_Inr [where m = "s_list B b sel" and s = s and f = "\<lambda>xs. prog_return (go_sort lt xs)", OF this]
  show ?thesis by (auto simp: sorted_list_def)
qed

lemma listed_readable:
  assumes "sorted_list B b sel lt s = (Inr xs, s')" "bo_get B b k s = Some d"
  shows "sel d \<noteq> None"
  using all_stored [OF assms] by auto

lemma paths_keyed_key:
  "paths_keyed B s \<Longrightarrow> \<forall>k d x. bo_get B BDestinations k s = Some d \<longrightarrow> as_destination d = Some x \<longrightarrow> ds_id x = k"
  "paths_keyed B s \<Longrightarrow> \<forall>k d x. bo_get B BRestores k s = Some d \<longrightarrow> as_restore d = Some x \<longrightarrow> re_id x = k"
  by (auto simp: paths_keyed_def)

lemma migrate_runs:
  assumes "migrate_legacy_paths B new_id now s = (Inr n, s')" "paths_keyed B s"
  shows "bo_get B b k s' = map_option (moved_doc b k) (bo_get B b k s)"
    "bo_get B BDestinations k s = Some d \<Longrightarrow> as_destination d \<noteq> None"
    "bo_get B BRestores k s = Some d \<Longrightarrow> as_restore d \<noteq> None"
    "bo_get B BSettings settings_key s = Some d \<Longrightarrow> as_settings d \<noteq> None"
    "bo_get B BSettings upgrade_key s = Some d \<Longrightarrow> as_upgrade d \<noteq> None"
proof -
  from assms(1) obtain n1 s1 ds s1' n2 s2 n3 s3 rs s3' where
    r1: "migrate_settings B s = (Inr n1, s1)" and
    l1: "sorted_list B BDestinations as_destination (\<lambda>a b. str_less (ds_name a) (ds_name b)) s1 = (Inr ds, s1')" and
    r2: "migrate_destinations B new_id now ds n1 s1' = (Inr n2, s2)" and
    r3: "migrate_upgrade B s2 = (Inr n3, s3)" and
    l2: "sorted_list B BRestores as_restore restore_order s3 = (Inr rs, s3')" and
    r4: "migrate_restores B new_id now rs (n2 + n3) s3' = (Inr n, s')"
    by (auto simp: migrate_legacy_paths_def prog_bind_eq_Inr destinations_def restores_def capped_def)
  note g1 = migrate_settings_get [OF r1]
  have k1: "paths_keyed B s1" using assms(2) by (simp add: paths_keyed_def g1)
  note d = keyed_listed [where key = ds_id, OF l1 paths_keyed_key(1) [OF k1]]
  have dests: "\<forall>d \<in> set ds. bo_get B BDestinations (ds_id d) s1 = Some (DDestination d) \<and> ds_id d \<noteq> [] \<and> \<not> is_zero (ds_created_at d)"
    using d(3) k1 by (fastforce simp: paths_keyed_def)
  note g2 = migrate_destinations_get [OF r2 [unfolded d(1)] dests d(2)]
  note g3 = migrate_upgrade_get [OF r3]
  have k3: "paths_keyed B s3"
    using k1 by (auto simp: paths_keyed_def g3 g2 moved_destination_def split: if_splits)
  note r = keyed_listed [where key = re_id, OF l2 paths_keyed_key(2) [OF k3]]
  have rests: "\<forall>r \<in> set rs. bo_get B BRestores (re_id r) s3 = Some (DRestore r) \<and> re_id r \<noteq> [] \<and> re_status r \<noteq> no_status"
    using r(3) k3 by (fastforce simp: paths_keyed_def)
  note g4 = migrate_restores_get [OF r4 [unfolded r(1)] rests r(2)]
  show "bo_get B b k s' = map_option (moved_doc b k) (bo_get B b k s)"
  proof (cases b)
    case BDestinations
    with d(4) [of k] show ?thesis by (cases "bo_get B b k s") (auto simp: g4 g3 g2 g1)
  next
    case BRestores
    with r(4) [of k] show ?thesis by (cases "bo_get B b k s") (auto simp: g4 g3 g2 g1)
  next
    case BSettings
    have "settings_key \<noteq> upgrade_key" by (simp add: settings_key_def upgrade_key_def)
    moreover have "moved_doc BSettings k d = d" if "k \<noteq> settings_key" "k \<noteq> upgrade_key" for d
      using that by (cases d) auto
    ultimately show ?thesis
      using BSettings by (cases "bo_get B b k s") (auto simp: g4 g3 g2 g1)
  qed (cases "bo_get B b k s"; simp add: g4 g3 g2 g1)+
  show "bo_get B BDestinations k s = Some d \<Longrightarrow> as_destination d \<noteq> None"
    using listed_readable [OF l1, of k d] by (simp add: g1)
  show "bo_get B BRestores k s = Some d \<Longrightarrow> as_restore d \<noteq> None"
    using listed_readable [OF l2, of k d] by (simp add: g3 g2 g1)
  show "bo_get B BSettings settings_key s = Some d \<Longrightarrow> as_settings d \<noteq> None"
    using r1 by (rule_tac raw_settings_cases [of B s]) (auto simp: migrate_settings_def is_not_found_def)
  have keys: "settings_key \<noteq> upgrade_key" by (simp add: settings_key_def upgrade_key_def)
  from r3 obtain u where "get_upgrade_state B s2 = (Inr u, s2)"
    by (auto simp: migrate_upgrade_def prog_bind_eq_Inr get_upgrade_state_Inr)
  then show "bo_get B BSettings upgrade_key s = Some d \<Longrightarrow> as_upgrade d \<noteq> None"
    using keys by (auto simp: get_upgrade_state_Inr g2 g1)
qed

end

lemma migrate_destinations_idle:
  "\<forall>d \<in> set ds. moved_destination d = d \<Longrightarrow> migrate_destinations B new_id now ds n s = (Inr n, s)"
proof (induction ds)
  case (Cons d ds)
  then show ?case by (simp only: migrate_destinations.simps config_same) simp
qed simp

lemma migrate_restores_idle:
  "\<forall>r \<in> set rs. moved_restore r = r \<Longrightarrow> migrate_restores B new_id now rs n s = (Inr n, s)"
proof (induction rs)
  case (Cons r rs)
  then show ?case by (simp only: migrate_restores.simps restore_same) simp
qed simp

lemma migrate_settings_idle:
  assumes "bo_get B BSettings settings_key s = None \<or> (\<exists>st. bo_get B BSettings settings_key s = Some (DSettings (moved_settings st)))"
  shows "migrate_settings B s = (Inr 0, s)"
  using assms
  by (rule_tac raw_settings_cases [of B s]) (auto simp: migrate_settings_def is_not_found_def Let_def raw_settings_def s_get_def)

lemma migrate_upgrade_idle:
  assumes "bo_get B BSettings upgrade_key s = None \<or> (\<exists>u. bo_get B BSettings upgrade_key s = Some (DUpgrade (moved_upgrade u)))"
  shows "migrate_upgrade B s = (Inr 0, s)"
proof -
  have "zero_upgrade = moved_upgrade zero_upgrade"
    by (simp add: moved_upgrade_def zero_upgrade_def under_new_name_def legacy_directories_def)
  with assms obtain u where "get_upgrade_state B s = (Inr (moved_upgrade u), s)"
    by (metis get_upgrade_state_Inr)
  moreover have "under_new_name (ug_dir (moved_upgrade u)) = ug_dir (moved_upgrade u)"
    by (simp add: moved_upgrade_def)
  ultimately show ?thesis by (simp add: migrate_upgrade_def)
qed

context bolt_store
begin

lemma migrate_idle:
  assumes "\<And>b k. bo_get B b k s' = map_option (moved_doc b k) (bo_get B b k s)"
    and "\<And>k d. bo_get B BDestinations k s = Some d \<Longrightarrow> as_destination d \<noteq> None"
    and "\<And>k d. bo_get B BRestores k s = Some d \<Longrightarrow> as_restore d \<noteq> None"
    and "\<And>d. bo_get B BSettings settings_key s = Some d \<Longrightarrow> as_settings d \<noteq> None"
    and "\<And>d. bo_get B BSettings upgrade_key s = Some d \<Longrightarrow> as_upgrade d \<noteq> None"
  shows "migrate_legacy_paths B new_id now s' = (Inr 0, s')"
proof -
  have 1: "migrate_settings B s' = (Inr 0, s')"
    by (rule migrate_settings_idle, cases "bo_get B BSettings settings_key s")
      (use assms(4) in \<open>auto simp: assms(1)\<close>)
  have 3: "migrate_upgrade B s' = (Inr 0, s')"
    by (rule migrate_upgrade_idle, cases "bo_get B BSettings upgrade_key s")
      (use assms(5) in \<open>auto simp: assms(1)\<close>)
  have dest: "\<exists>y. d = DDestination (moved_destination y)" if "bo_get B BDestinations k s' = Some d" for k d
    using that assms(2) [of k] by (auto simp: assms(1)) blast
  have rest: "\<exists>y. d = DRestore (moved_restore y)" if "bo_get B BRestores k s' = Some d" for k d
    using that assms(3) [of k] by (auto simp: assms(1)) blast
  obtain ds where ds: "destinations B s' = (Inr ds, s')"
    unfolding destinations_def using listable [of BDestinations s' as_destination] dest by fastforce
  have "\<forall>d \<in> set ds. moved_destination d = d"
    using sorted_list_Inr(2) [OF ds [unfolded destinations_def]] dest by (fastforce simp: stored_def)
  note 2 = migrate_destinations_idle [OF this, of B new_id now 0 s']
  obtain rs where rs: "sorted_list B BRestores as_restore restore_order s' = (Inr rs, s')"
    using listable [of BRestores s' as_restore] rest by fastforce
  have "\<forall>r \<in> set rs. moved_restore r = r"
    using sorted_list_Inr(2) [OF rs] rest by (fastforce simp: stored_def)
  note 4 = migrate_restores_idle [OF this, of B new_id now 0 s']
  show ?thesis using 1 2 3 4 ds rs
    by (simp add: migrate_legacy_paths_def restores_def capped_def)
qed

lemma migrate_all:
  assumes "migrate_legacy_paths B new_id now s = (Inr n, s')" "paths_keyed B s"
  shows "bo_get B b k s' = map_option (moved_doc b k) (bo_get B b k s)"
    "migrate_legacy_paths B new_id2 now2 s' = (Inr 0, s')"
  using migrate_runs [OF assms] migrate_idle [of s' s new_id2 now2] by blast+

end

text \<open>
  The migration rewrites exactly the stored paths: afterwards every document is the old one
  with the renamed directories in the settings, in the settings of each destination, in the upgrade
  record and in the three paths of each restore, and nothing else has changed. Running it again,
  as every start does, finds nothing and writes nothing.
\<close>

theorem migration_rewrites_paths_once:
  assumes "bolt_store B" "paths_keyed B s"
    and "migrate_legacy_paths B new_id now s = (Inr n, s')"
  shows "bo_get B b k s' = map_option (moved_doc b k) (bo_get B b k s)
    \<and> migrate_legacy_paths B new_id2 now2 s' = (Inr 0, s')"
  using bolt_store.migrate_all [OF assms(1,3,2)] by blast

definition old_upgrade :: upgrade_state where
  "old_upgrade = zero_upgrade\<lparr>ug_dir := ''/var/lib/cprest/upgrade''\<rparr>"

theorem migration_rewrites_paths_once_witness:
  "\<exists>n s'. migrate_legacy_paths mem_bolt [] 0 (mem_with BSettings [(upgrade_key, DUpgrade old_upgrade)]) = (Inr n, s')
    \<and> bo_get mem_bolt BSettings upgrade_key s' = Some (DUpgrade (old_upgrade\<lparr>ug_dir := ''/var/lib/gniza/upgrade''\<rparr>))"
proof -
  let ?s = "mem_with BSettings [(upgrade_key, DUpgrade old_upgrade)]"
  have get: "bo_get mem_bolt b k ?s = (if b = BSettings \<and> k = upgrade_key then Some (DUpgrade old_upgrade) else None)" for b k
    by (simp add: mem_bolt_def mem_with_def)
  have keys: "settings_key \<noteq> upgrade_key" by (simp add: settings_key_def upgrade_key_def)
  have moved: "under_new_name ''/var/lib/cprest/upgrade'' = ''/var/lib/gniza/upgrade''"
    by (simp add: under_new_name_def legacy_directories_def trim_prefix_def)
  obtain n s' where run: "migrate_legacy_paths mem_bolt [] 0 ?s = (Inr n, s')"
  proof -
    have 1: "migrate_settings mem_bolt ?s = (Inr 0, ?s)"
      by (rule migrate_settings_idle) (simp add: get keys)
    have 2: "destinations mem_bolt ?s = (Inr [], ?s)"
      by (simp add: destinations_def sorted_list_def s_list_def mem_bolt_def mem_with_def)
    have "get_upgrade_state mem_bolt ?s = (Inr old_upgrade, ?s)"
      by (simp add: get_upgrade_state_Inr get)
    then obtain s1 where 3: "migrate_upgrade mem_bolt ?s = (Inr 1, s1)" "s1 BRestores = []"
      by (simp add: migrate_upgrade_def old_upgrade_def moved save_upgrade_state_def s_put_def marshal_def
          db_update_def tx_put_def mem_bolt_def upgrade_key_def mem_with_def)
    have 4: "restores mem_bolt 0 s1 = (Inr [], s1)"
      using 3(2) by (simp add: restores_def sorted_list_def s_list_def mem_bolt_def capped_def)
    from 1 2 3(1) 4 that show ?thesis by (simp add: migrate_legacy_paths_def)
  qed
  have "paths_keyed mem_bolt ?s" by (simp add: paths_keyed_def get)
  from migration_rewrites_paths_once [OF mem.bolt_store_axioms this run, of BSettings upgrade_key]
  have "bo_get mem_bolt BSettings upgrade_key s' = Some (DUpgrade (moved_upgrade old_upgrade))"
    by (simp add: get)
  moreover have "moved_upgrade old_upgrade = old_upgrade\<lparr>ug_dir := ''/var/lib/gniza/upgrade''\<rparr>"
    by (simp add: moved_upgrade_def old_upgrade_def moved)
  ultimately show ?thesis using run by auto
qed

end
