(* ===== verification/Restic_Runner.thy ===== *)
theory Restic_Runner
  imports Restic_Output Destinations
begin

text \<open>
  Running restic: \<open>internal/resticrun/runner.go\<close>, \<open>completion.go\<close>, \<open>size.go\<close> and the commands
  of \<open>restore.go\<close>. The restic process, the temporary directories of the operating system and
  the JSON decoders are parameters; the state is the set of files under the runtime
  directory, whatever the process acts on, and a record of the argument lists run so far.
\<close>

section \<open>Types\<close>

record repository_handle =
  rp_dest :: "backend option"
  rp_path :: string
  rp_password :: string

record runner_config =
  rc_binary :: string
  rc_runtime_dir :: string
  rc_cache_dir :: string
  rc_compression :: string
  rc_cacert_path :: string
  rc_path_env :: string

record command =
  cmd_path :: string
  cmd_args :: "string list"
  cmd_env :: "string list"
  cmd_on_line :: bool
  cmd_stream :: bool

record secondary =
  sec_options :: gomap
  sec_env :: gomap

definition no_secondary :: secondary where
  "no_secondary = \<lparr>sec_options = [], sec_env = []\<rparr>"

text \<open>Files by path: contents and permission bits.\<close>

type_synonym file_map = "string \<Rightarrow> (string \<times> nat) option"

record 'x world =
  w_files :: file_map
  w_ext :: 'x
  w_log :: "string list list"

text \<open>
  The operating system and the restic binary: \<open>os.MkdirTemp\<close> (directory, pattern), whether
  \<open>os.WriteFile\<close> fails, and the process itself, which sees the files and changes only the
  state behind it.
\<close>

record 'x sys =
  sys_mkdir_temp :: "string \<Rightarrow> string \<Rightarrow> 'x world \<Rightarrow> string res \<times> 'x"
  sys_write_err :: "string \<Rightarrow> 'x world \<Rightarrow> err option"
  sys_exec :: "command \<Rightarrow> 'x world \<Rightarrow> command_result res \<times> 'x"

text \<open>What \<open>os.MkdirTemp\<close> promises: the directory it made did not exist before.\<close>

definition fresh_temp_dirs :: "'x sys \<Rightarrow> bool" where
  "fresh_temp_dirs S \<longleftrightarrow>
     (\<forall>d p w dir x. sys_mkdir_temp S d p w = (Inr dir, x) \<longrightarrow>
        (\<forall>path. path = dir \<or> has_prefix path (dir @ ''/'') \<longrightarrow> w_files w path = None))"

section \<open>Temporary files\<close>

definition without_dir :: "string \<Rightarrow> file_map \<Rightarrow> file_map" where
  "without_dir dir f = (\<lambda>p. if p = dir \<or> has_prefix p (dir @ ''/'') then None else f p)"

definition remove_all :: "string \<Rightarrow> 'x world \<Rightarrow> 'x world" where
  "remove_all dir w = w\<lparr>w_files := without_dir dir (w_files w)\<rparr>"

definition mkdir_temp :: "'x sys \<Rightarrow> string \<Rightarrow> string \<Rightarrow> ('x world, string) prog" where
  "mkdir_temp S dir pattern =
     (\<lambda>w. case sys_mkdir_temp S dir pattern w of (r, x) \<Rightarrow> (r, w\<lparr>w_ext := x\<rparr>))"

definition write_file :: "'x sys \<Rightarrow> string \<Rightarrow> string \<Rightarrow> nat \<Rightarrow> ('x world, unit) prog" where
  "write_file S path contents mode =
     (\<lambda>w. let w' = w\<lparr>w_files := (w_files w)(path \<mapsto> (contents, mode))\<rparr> in
       case sys_write_err S path w of Some e \<Rightarrow> (Inl e, w') | None \<Rightarrow> (Inr (), w'))"

text \<open>\<open>writePasswordFile\<close>: the path of the file and the directory that cleanup removes.\<close>

definition write_password_file :: "'x sys \<Rightarrow> string \<Rightarrow> string \<Rightarrow> ('x world, string \<times> string) prog" where
  "write_password_file S runtime_dir password =
     (\<lambda>w. case mkdir_temp S runtime_dir ''gniza-run-'' w of
        (Inl e, w1) \<Rightarrow> (Inl (ErrWrap ''resticrun: create runtime dir'' e), w1)
      | (Inr dir, w1) \<Rightarrow>
          let path = dir @ ''/repo.pass'' in
          (case write_file S path password 0x180 w1 of
             (Inl e, w2) \<Rightarrow> (Inl (ErrWrap ''resticrun: write password file'' e), remove_all dir w2)
           | (Inr _, w2) \<Rightarrow> (Inr (path, dir), w2)))"

section \<open>\<open>run\<close>\<close>

definition path_env :: "runner_config \<Rightarrow> string" where
  "path_env cfg = (if rc_path_env cfg \<noteq> [] then rc_path_env cfg
     else ''/usr/local/sbin:/usr/local/bin:/usr/sbin:/usr/bin:/sbin:/bin'')"

definition binary :: "runner_config \<Rightarrow> string" where
  "binary cfg = (if rc_binary cfg \<noteq> [] then rc_binary cfg else ''restic'')"

definition wrap_err :: "string \<Rightarrow> 'a res \<Rightarrow> 'a res" where
  "wrap_err m r = (case r of Inl e \<Rightarrow> Inl (ErrWrap m e) | Inr a \<Rightarrow> Inr a)"

text \<open>The checks and the reading of the destination, before anything is written.\<close>

definition run_prepare :: "repository_handle \<Rightarrow> secondary \<Rightarrow> (string \<times> gomap \<times> gomap) res" where
  "run_prepare repo extra =
     (case rp_dest repo of
        None \<Rightarrow> Inl (ErrMsg ''resticrun: repository has no destination'' [])
      | Some dest \<Rightarrow>
          if rp_password repo = [] then Inl (ErrMsg ''resticrun: repository password is empty'' [])
          else
            res_bind (wrap_err ''resticrun: repository uri'' (d_uri dest (rp_path repo))) (\<lambda>uri.
            res_bind (wrap_err ''resticrun: backend environment'' (d_env dest)) (\<lambda>backend_env.
            res_bind (wrap_err ''resticrun: backend options'' (d_options dest)) (\<lambda>backend_options.
            res_bind (merge_options backend_options (sec_options extra)) (\<lambda>options.
              Inr (uri, backend_env, options))))))"

text \<open>The loop over the second repository's environment.\<close>

fun extra_env_loop :: "gomap \<Rightarrow> gomap \<Rightarrow> gomap res" where
  "extra_env_loop env [] = Inr env"
| "extra_env_loop env ((k, v) # xs) =
     (case map_of env k of
        Some existing \<Rightarrow>
          if existing \<noteq> v then Inl (ErrMsg ''resticrun: conflicting environment variable'' [k])
          else extra_env_loop (gm_put k v env) xs
      | None \<Rightarrow> extra_env_loop (gm_put k v env) xs)"

definition run_command :: "runner_config \<Rightarrow> string \<Rightarrow> gomap \<Rightarrow> gomap \<Rightarrow> string \<Rightarrow> string list \<Rightarrow>
    secondary \<Rightarrow> bool \<Rightarrow> bool \<Rightarrow> command res" where
  "run_command cfg uri backend_env options password_file args extra on_line stream =
     (let env = [(''PATH'', path_env cfg), (''RESTIC_REPOSITORY'', uri),
                 (''RESTIC_PASSWORD_FILE'', password_file)];
          env = fold (\<lambda>(k, v). gm_put k v) backend_env env
      in res_bind (extra_env_loop env (sec_env extra)) (\<lambda>env.
           let env = (if rc_cache_dir cfg \<noteq> [] then gm_put ''RESTIC_CACHE_DIR'' (rc_cache_dir cfg) env else env);
               env = (if rc_compression cfg \<noteq> [] then gm_put ''RESTIC_COMPRESSION'' (rc_compression cfg) env else env);
               globals = option_args options;
               globals = (if rc_cacert_path cfg \<noteq> [] then globals @ [''--cacert'', rc_cacert_path cfg] else globals)
           in Inr \<lparr>cmd_path = binary cfg, cmd_args = globals @ args, cmd_env = env_slice env,
                  cmd_on_line = on_line, cmd_stream = stream\<rparr>))"

definition exec_command :: "'x sys \<Rightarrow> string list \<Rightarrow> command \<Rightarrow> ('x world, command_result) prog" where
  "exec_command S args cmd =
     (\<lambda>w. case sys_exec S cmd w of (r, x) \<Rightarrow> (r, w\<lparr>w_ext := x, w_log := w_log w @ [args]\<rparr>))"

text \<open>\<open>defer os.RemoveAll (dir)\<close> around the rest of a function.\<close>

definition defer_remove :: "string \<Rightarrow> ('x world, 'a) prog \<Rightarrow> ('x world, 'a) prog" where
  "defer_remove dir m = (\<lambda>w. case m w of (r, w') \<Rightarrow> (r, remove_all dir w'))"

definition run :: "'x sys \<Rightarrow> runner_config \<Rightarrow> repository_handle \<Rightarrow> string list \<Rightarrow> secondary \<Rightarrow>
    bool \<Rightarrow> bool \<Rightarrow> ('x world, command_result) prog" where
  "run S cfg repo args extra on_line stream =
     prog_bind (prog_lift (run_prepare repo extra)) (\<lambda>(uri, backend_env, options).
     prog_bind (write_password_file S (rc_runtime_dir cfg) (rp_password repo)) (\<lambda>(password_file, dir).
     defer_remove dir
       (prog_bind (prog_lift (run_command cfg uri backend_env options password_file args extra on_line stream))
          (exec_command S args))))"

text \<open>A run that must exit 0 (3 is forgiven for a backup only).\<close>

definition run_checked :: "'x sys \<Rightarrow> runner_config \<Rightarrow> repository_handle \<Rightarrow> string list \<Rightarrow> secondary \<Rightarrow>
    bool \<Rightarrow> bool \<Rightarrow> bool \<Rightarrow> ('x world, command_result) prog" where
  "run_checked S cfg repo args extra on_line stream incomplete_ok =
     prog_bind (run S cfg repo args extra on_line stream) (\<lambda>result.
     prog_bind (prog_lift (classify_exit (cr_exit_code result) (cr_stderr result) incomplete_ok)) (\<lambda>_.
     prog_return result))"

section \<open>Nothing secret is left behind\<close>

lemma without_dir_fresh:
  "(\<And>p. p = dir \<or> has_prefix p (dir @ ''/'') \<Longrightarrow> f p = None) \<Longrightarrow>
     without_dir dir (f(dir @ CHR ''/'' # name \<mapsto> v)) = f"
  by (auto simp: without_dir_def fun_eq_iff) (simp add: has_prefix_def)

lemma fresh_temp_dirsD:
  "fresh_temp_dirs S \<Longrightarrow> sys_mkdir_temp S d p w = (Inr dir, x) \<Longrightarrow>
     path = dir \<or> has_prefix path (dir @ ''/'') \<Longrightarrow> w_files w path = None"
  unfolding fresh_temp_dirs_def by (elim allE impE) assumption+

lemma write_password_file_log:
  "write_password_file S rd pw w = (r, w') \<Longrightarrow> w_log w' = w_log w"
  by (auto simp: write_password_file_def mkdir_temp_def write_file_def remove_all_def Let_def
      split: prod.splits sum.splits option.splits)

lemma write_password_file_Inl:
  assumes "write_password_file S rd pw w = (Inl e, w')" "fresh_temp_dirs S"
  shows "w_files w' = w_files w"
  using assms
  by (auto simp: write_password_file_def mkdir_temp_def write_file_def remove_all_def Let_def
      split: prod.splits sum.splits option.splits
      intro!: without_dir_fresh dest: fresh_temp_dirsD)

lemma write_password_file_Inr:
  assumes "write_password_file S rd pw w = (Inr (path, dir), w')" "fresh_temp_dirs S"
  shows "path = dir @ ''/repo.pass'' \<and> w_files w' path = Some (pw, 0x180)
    \<and> without_dir dir (w_files w') = w_files w"
  using assms
  by (auto simp: write_password_file_def mkdir_temp_def write_file_def Let_def
      split: prod.splits sum.splits option.splits
      intro!: without_dir_fresh dest: fresh_temp_dirsD)

lemma run_files:
  assumes "run S cfg repo args extra ol st w = (r, w')" "fresh_temp_dirs S"
  shows "w_files w' = w_files w"
proof (cases "run_prepare repo extra")
  case (Inl e)
  with assms(1) show ?thesis by (simp add: run_def)
next
  case (Inr u)
  obtain uri benv opts where u: "u = (uri, benv, opts)" by (cases u) auto
  obtain r1 w1 where wp: "write_password_file S (rc_runtime_dir cfg) (rp_password repo) w = (r1, w1)"
    by force
  show ?thesis
  proof (cases r1)
    case (Inl e)
    with assms(1) \<open>run_prepare repo extra = Inr u\<close> u wp write_password_file_Inl [of S _ _ w e w1] assms(2) show ?thesis
      by (simp add: run_def)
  next
    case r1: (Inr v)
    obtain path dir where v: "v = (path, dir)" by (cases v)
    with write_password_file_Inr [of S _ _ w path dir w1] wp assms(2) r1
    have "without_dir dir (w_files w1) = w_files w" by simp
    with assms(1) Inr u wp r1 v show ?thesis
      by (auto simp: run_def defer_remove_def prog_bind_def exec_command_def remove_all_def
          split: sum.splits prod.splits)
  qed
qed

lemma run_log:
  "run S cfg repo args extra ol st w = (r, w') \<Longrightarrow>
     w_log w' = w_log w \<or> w_log w' = w_log w @ [args]"
  by (auto simp: run_def defer_remove_def prog_bind_def exec_command_def remove_all_def write_password_file_def
      mkdir_temp_def write_file_def Let_def split: prod.splits sum.splits option.splits)

lemma run_checked_log:
  "run_checked S cfg repo args extra ol st ok w = (r, w') \<Longrightarrow>
     w_log w' = w_log w \<or> w_log w' = w_log w @ [args]"
  by (auto simp: run_checked_def prog_bind_def dest!: run_log split: prod.splits sum.splits)

lemma run_checked_Inr:
  "run_checked S cfg repo args extra ol st False w = (Inr c, w') \<Longrightarrow> cr_exit_code c = 0"
  by (auto simp: run_checked_def prog_bind_eq_Inr)

lemma run_logs_when_ok:
  "run S cfg repo args extra ol st w = (Inr c, w') \<Longrightarrow> w_log w' = w_log w @ [args]"
  by (auto simp: run_def defer_remove_def prog_bind_def exec_command_def remove_all_def write_password_file_def
      mkdir_temp_def write_file_def Let_def split: prod.splits sum.splits option.splits)

lemma run_checked_files:
  assumes "run_checked S cfg repo args extra ol st ok w = (r, w')" "fresh_temp_dirs S"
  shows "w_files w' = w_files w"
proof -
  obtain r1 w1 where r: "run S cfg repo args extra ol st w = (r1, w1)" by force
  with assms have "w' = w1"
    by (cases r1) (auto simp: run_checked_def prog_bind_def split: sum.splits)
  with run_files [OF r assms(2)] show ?thesis by simp
qed

text \<open>
  However a restic run ends, with a failed start, a bad exit, or a conflict found after the
  password was written, the files under the runtime directory are afterwards exactly what they
  were before: no file with the repository password outlives the process it was written for.
  (The operating system's temporary directories are new when they are handed out.)
\<close>

theorem run_leaves_no_password_file:
  assumes "run S cfg repo args extra on_line stream w = (r, w')" "fresh_temp_dirs S"
  shows "w_files w' = w_files w"
  using assms by (rule run_files)

definition example_sys :: "unit sys" where
  "example_sys = \<lparr>sys_mkdir_temp =
       (\<lambda>d p w. (if w_files w = Map.empty then Inr (d @ ''/x'') else Inl ErrNotFound, ())),
     sys_write_err = (\<lambda>p w. None), sys_exec = (\<lambda>c w. (Inl ErrNotFound, ()))\<rparr>"

definition example_config :: runner_config where
  "example_config = \<lparr>rc_binary = [], rc_runtime_dir = ''/run'', rc_cache_dir = [], rc_compression = [],
     rc_cacert_path = [], rc_path_env = []\<rparr>"

lemma example_sys_fresh: "fresh_temp_dirs example_sys"
  by (simp add: fresh_temp_dirs_def example_sys_def)

theorem run_leaves_no_password_file_witness:
  "w_files (snd (run example_sys example_config
       \<lparr>rp_dest = Some \<lparr>d_uri = Inr, d_env = Inr [], d_options = Inr []\<rparr>, rp_path = ''cp'', rp_password = ''secret''\<rparr>
       [''check''] no_secondary False False \<lparr>w_files = Map.empty, w_ext = (), w_log = []\<rparr>)) = Map.empty"
  (is "w_files (snd ?run) = _")
proof -
  have "?run = (fst ?run, snd ?run)" by simp
  from run_leaves_no_password_file [OF this example_sys_fresh] show ?thesis by simp
qed

text \<open>
  The arguments of the process are the backend options, the CA bundle and the subcommand's own
  arguments, and nothing else: they do not depend on the repository password, on the backend
  credentials or on the credentials of a second repository, all of which travel only in the
  environment or in a file.
\<close>

theorem process_arguments_carry_no_secret:
  assumes "run_command cfg uri env1 options pw1 args extra1 ol st = Inr c1"
    and "run_command cfg uri env2 options pw2 args extra2 ol st = Inr c2"
  shows "cmd_args c1 = cmd_args c2
    \<and> cmd_args c1 = option_args options
        @ (if rc_cacert_path cfg \<noteq> [] then [''--cacert'', rc_cacert_path cfg] else []) @ args"
  using assms by (auto simp: run_command_def res_bind_eq_Inr Let_def)

theorem process_arguments_carry_no_secret_witness:
  "\<exists>c. run_command \<lparr>rc_binary = [], rc_runtime_dir = [], rc_cache_dir = [], rc_compression = [],
          rc_cacert_path = [], rc_path_env = []\<rparr> ''rest:https://h/'' [(''RESTIC_REST_PASSWORD'', ''secret'')]
          [] ''/run/x/repo.pass'' [''check''] no_secondary False False = Inr c \<and> cmd_args c = [''check'']"
  (is "\<exists>c. ?run = Inr c \<and> _")
proof -
  obtain c where c: "?run = Inr c"
    by (simp add: run_command_def no_secondary_def Let_def)
  from process_arguments_carry_no_secret [OF c c] c show ?thesis by (simp add: option_args_def)
qed

end
