(* ===== verification/Restic_Client.thy ===== *)
theory Restic_Client
  imports Restic_Runner
begin

text \<open>
  The restic commands the agent gives: \<open>Backup\<close>, \<open>Init\<close>, \<open>Check\<close> of \<open>runner.go\<close>, the completion
  receipts of \<open>completion.go\<close>, \<open>Snapshots\<close>, \<open>Restore\<close>, \<open>Ls\<close>, \<open>Dump\<close> of \<open>restore.go\<close> and
  \<open>RestoreSize\<close> of \<open>size.go\<close>. Reading one JSON value is a parameter (\<open>json_codec\<close>): the code
  relies on \<open>encoding/json\<close> for it and adds nothing of its own.
\<close>

section \<open>What restic reports\<close>

text \<open>\<open>TotalDuration\<close> is a \<open>float64\<close> nothing computes with; it is kept as its bit pattern.\<close>

record backup_summary =
  bm_message_type :: string
  bm_files_new :: nat
  bm_files_changed :: nat
  bm_files_unmodified :: nat
  bm_dirs_new :: nat
  bm_dirs_changed :: nat
  bm_dirs_unmodified :: nat
  bm_data_blobs :: int
  bm_tree_blobs :: int
  bm_data_added :: nat
  bm_data_added_packed :: nat
  bm_total_files_processed :: nat
  bm_total_bytes_processed :: nat
  bm_total_duration :: "64 word"
  bm_backup_start :: instant
  bm_backup_end :: instant
  bm_snapshot_id :: string
  bm_dry_run :: bool

record restore_result =
  rr_message_type :: string
  rr_total_files :: nat
  rr_files_restored :: nat
  rr_total_bytes :: nat
  rr_bytes_restored :: nat

record snapshot =
  sn_id :: string
  sn_short_id :: string
  sn_time :: instant
  sn_paths :: "string list"
  sn_hostname :: string
  sn_tags :: "string list"
  sn_read_complete :: bool
  sn_read_failed :: bool
  sn_bytes_processed :: nat
  sn_files_processed :: nat
  sn_data_added :: nat

record entry =
  en_name :: string
  en_type :: string
  en_path :: string
  en_size :: nat
  en_permissions :: string
  en_mod_time :: instant

record retention_group =
  rg_host :: string
  rg_tags :: "string list"
  rg_keep :: "snapshot list"
  rg_remove :: "snapshot list"
  rg_protected :: bool

record json_codec =
  js_message_type :: "string \<Rightarrow> string option"
  js_backup_summary :: "backup_summary \<Rightarrow> string \<Rightarrow> backup_summary res"
  js_restore_result :: "restore_result \<Rightarrow> string \<Rightarrow> restore_result res"
  js_entry :: "string \<Rightarrow> entry res"
  js_snapshots :: "string \<Rightarrow> snapshot list res"
  js_total_size :: "string \<Rightarrow> nat res"
  js_failure :: "string \<Rightarrow> string res"
  js_groups :: "string \<Rightarrow> retention_group list res"
  js_encode_groups :: "retention_group list \<Rightarrow> string res"

record backup_result =
  br_summary :: backup_summary
  br_incomplete :: bool
  br_stderr :: string

section \<open>Tags\<close>

definition needs_completion_tag :: string where
  "needs_completion_tag = ''cprest:read-status-v1''"

definition completion_receipt_tag :: string where
  "completion_receipt_tag = ''cprest:completion-v1''"

definition completed_id_prefix :: string where
  "completed_id_prefix = ''completed:''"

definition skip_tag_prefix :: string where
  "skip_tag_prefix = ''skip:''"

fun has_tag :: "string list \<Rightarrow> string \<Rightarrow> bool" where
  "has_tag [] want \<longleftrightarrow> False"
| "has_tag (t # ts) want \<longleftrightarrow> t = want \<or> has_tag ts want"

lemma has_tag_iff [simp]: "has_tag ts t \<longleftrightarrow> t \<in> set ts"
  by (induction ts) auto

text \<open>The value of the first tag with a prefix (\<open>Account\<close>, \<open>PayloadMode\<close>).\<close>

fun first_tag_value :: "string \<Rightarrow> string list \<Rightarrow> string" where
  "first_tag_value pre [] = []"
| "first_tag_value pre (t # ts) =
     (case cut_prefix t pre of Some v \<Rightarrow> v | None \<Rightarrow> first_tag_value pre ts)"

definition snapshot_account :: "snapshot \<Rightarrow> string" where
  "snapshot_account s = first_tag_value ''account:'' (sn_tags s)"

definition payload_mode :: "snapshot \<Rightarrow> string" where
  "payload_mode s = first_tag_value ''mode:'' (sn_tags s)"

fun skipped_parts :: "string list \<Rightarrow> string list" where
  "skipped_parts [] = []"
| "skipped_parts (t # ts) =
     (case cut_prefix t skip_tag_prefix of
        Some part \<Rightarrow> if part \<noteq> [] then part # skipped_parts ts else skipped_parts ts
      | None \<Rightarrow> skipped_parts ts)"

definition skipped :: "snapshot \<Rightarrow> string list" where
  "skipped s =
     (if sn_read_failed s \<or> has_tag (sn_tags s) needs_completion_tag \<and> \<not> sn_read_complete s
      then [''unverified source reads''] else [])
     @ skipped_parts (sn_tags s)"

definition snapshot_complete :: "snapshot \<Rightarrow> bool" where
  "snapshot_complete s \<longleftrightarrow> length (skipped s) = 0"

section \<open>Receipts\<close>

definition zero_summary :: backup_summary where
  "zero_summary = \<lparr>bm_message_type = [], bm_files_new = 0, bm_files_changed = 0,
     bm_files_unmodified = 0, bm_dirs_new = 0, bm_dirs_changed = 0, bm_dirs_unmodified = 0,
     bm_data_blobs = 0, bm_tree_blobs = 0, bm_data_added = 0, bm_data_added_packed = 0,
     bm_total_files_processed = 0, bm_total_bytes_processed = 0, bm_total_duration = 0,
     bm_backup_start = zero_time, bm_backup_end = zero_time, bm_snapshot_id = [], bm_dry_run = False\<rparr>"

definition parse_backup_summary :: "json_codec \<Rightarrow> string \<Rightarrow> backup_summary res" where
  "parse_backup_summary J = parse_summary (js_message_type J) (js_backup_summary J) zero_summary"

definition receipt_spec :: "string \<Rightarrow> string \<Rightarrow> string \<Rightarrow> backup_spec" where
  "receipt_spec filename host i =
     \<lparr>bs_record_completion = False, bs_paths = [filename],
      bs_tags = [completion_receipt_tag, completed_id_prefix @ i], bs_host = host,
      bs_exclude = [], bs_limit_upload_kib = 0, bs_on_progress = False\<rparr>"

text \<open>
  \<open>recordCompletion\<close>: a second, tiny snapshot says that the reads of the first were complete.
  Its directory is removed whatever happens.
\<close>

definition record_completion :: "'x sys \<Rightarrow> runner_config \<Rightarrow> json_codec \<Rightarrow> repository_handle \<Rightarrow>
    string \<Rightarrow> string \<Rightarrow> ('x world, unit) prog" where
  "record_completion S cfg J repo host i =
     prog_bind (prog_lift (validate_snapshot_id i)) (\<lambda>_.
     if i = ''latest'' then prog_fail (ErrMsg ''resticrun: completion needs an exact snapshot'' [])
     else prog_bind (mkdir_temp S (rc_runtime_dir cfg) ''gniza-completion-'') (\<lambda>dir.
       let filename = dir @ ''/completed'' in
       defer_remove dir (
         prog_bind (write_file S filename (i @ [nl]) 0x180) (\<lambda>_.
         prog_bind (prog_lift (backup_args (receipt_spec filename host i))) (\<lambda>args.
         prog_bind (run_checked S cfg repo args no_secondary False False False) (\<lambda>result.
         prog_bind (prog_lift (parse_backup_summary J (cr_stdout result))) (\<lambda>summary.
           prog_lift (refuse_if (bm_snapshot_id summary = [])
             (ErrMsg ''resticrun: completion receipt has no snapshot id'' [])))))))))"

section \<open>Listing\<close>

record snapshot_filter =
  sf_tags :: "string list"
  sf_host :: string
  sf_latest :: int

definition snapshots_args :: "snapshot_filter \<Rightarrow> string list" where
  "snapshots_args flt =
     [''snapshots'', ''--json''] @ flag_each ''--tag'' (sf_tags flt)
     @ (if sf_host flt \<noteq> [] then [''--host'', sf_host flt] else [])
     @ (if sf_latest flt > 0 then [''--latest'', itoa (sf_latest flt)] else [])"

definition raw_snapshots :: "'x sys \<Rightarrow> runner_config \<Rightarrow> json_codec \<Rightarrow> repository_handle \<Rightarrow>
    snapshot_filter \<Rightarrow> ('x world, snapshot list) prog" where
  "raw_snapshots S cfg J repo flt =
     prog_bind (run_checked S cfg repo (snapshots_args flt) no_secondary False False False) (\<lambda>result.
       if cr_truncated result
       then prog_fail (ErrMsg ''resticrun: snapshot listing was truncated'' [])
       else prog_lift (wrap_err ''resticrun: decode snapshots'' (js_snapshots J (cr_stdout result))))"

text \<open>The ids a receipt's tags vouch for.\<close>

fun completed_ids :: "string list \<Rightarrow> string list" where
  "completed_ids [] = []"
| "completed_ids (t # ts) =
     (case cut_prefix t completed_id_prefix of
        Some i \<Rightarrow>
          if validate_snapshot_id i = Inr () \<and> i \<noteq> ''latest'' then i # completed_ids ts
          else completed_ids ts
      | None \<Rightarrow> completed_ids ts)"

definition receipts_of :: "snapshot list \<Rightarrow> string list" where
  "receipts_of ss =
     concat (map (\<lambda>s. completed_ids (sn_tags s))
       (filter (\<lambda>s. has_tag (sn_tags s) completion_receipt_tag) ss))"

definition receipt_filter :: snapshot_filter where
  "receipt_filter = \<lparr>sf_tags = [completion_receipt_tag], sf_host = [], sf_latest = 0\<rparr>"

definition completion_receipts :: "'x sys \<Rightarrow> runner_config \<Rightarrow> json_codec \<Rightarrow> repository_handle \<Rightarrow>
    ('x world, string list) prog" where
  "completion_receipts S cfg J repo =
     prog_bind (raw_snapshots S cfg J repo receipt_filter) (\<lambda>ss. prog_return (receipts_of ss))"

text \<open>What \<open>Snapshots\<close> makes of a listing and the receipts.\<close>

definition visible_snapshots :: "snapshot list \<Rightarrow> string list \<Rightarrow> snapshot list" where
  "visible_snapshots ss receipts =
     map (\<lambda>s. s\<lparr>sn_read_complete := sn_id s \<in> set receipts\<rparr>)
       (filter (\<lambda>s. \<not> has_tag (sn_tags s) completion_receipt_tag) ss)"

definition newest_first_limit :: "int \<Rightarrow> snapshot list \<Rightarrow> snapshot list" where
  "newest_first_limit latest visible =
     (if latest > 0 \<and> int (length visible) > latest
      then drop (length visible - nat latest) (go_sort (\<lambda>a b. sn_time a < sn_time b) visible)
      else visible)"

definition snapshots :: "'x sys \<Rightarrow> runner_config \<Rightarrow> json_codec \<Rightarrow> repository_handle \<Rightarrow>
    snapshot_filter \<Rightarrow> ('x world, snapshot list) prog" where
  "snapshots S cfg J repo flt =
     prog_bind (raw_snapshots S cfg J repo (flt\<lparr>sf_latest := 0\<rparr>)) (\<lambda>ss.
     prog_bind
       (if list_ex (\<lambda>s. has_tag (sn_tags s) needs_completion_tag) ss
        then completion_receipts S cfg J repo else prog_return []) (\<lambda>receipts.
     prog_return (newest_first_limit (sf_latest flt) (visible_snapshots ss receipts))))"

section \<open>Backing up\<close>

definition tag_for_completion :: "backup_spec \<Rightarrow> backup_spec" where
  "tag_for_completion spec =
     (if bs_record_completion spec then spec\<lparr>bs_tags := bs_tags spec @ [needs_completion_tag]\<rparr> else spec)"

text \<open>
  \<open>Backup\<close>. When the receipt cannot be written the code returns the incomplete result
  together with the error; the callers look at the error.
\<close>

definition backup :: "'x sys \<Rightarrow> runner_config \<Rightarrow> json_codec \<Rightarrow> repository_handle \<Rightarrow> backup_spec \<Rightarrow>
    ('x world, backup_result) prog" where
  "backup S cfg J repo spec0 =
     (let spec = tag_for_completion spec0 in
      prog_bind (prog_lift (backup_args spec)) (\<lambda>args.
      prog_bind (run_checked S cfg repo args no_secondary (bs_on_progress spec) False True) (\<lambda>result.
      prog_bind (prog_lift (parse_backup_summary J (cr_stdout result))) (\<lambda>summary.
      if bm_snapshot_id summary = []
      then prog_fail (ErrMsg ''resticrun: restic reported no snapshot id'' [])
      else
        let incomplete = (cr_exit_code result = exit_incomplete_read) in
        prog_bind
          (if bs_record_completion spec \<and> \<not> incomplete
           then (\<lambda>w. case record_completion S cfg J repo (bs_host spec) (bm_snapshot_id summary) w of
                   (r, w') \<Rightarrow> (wrap_err ''resticrun: snapshot was written but completion could not be recorded'' r, w'))
           else prog_return ()) (\<lambda>_.
        prog_return \<lparr>br_summary = summary, br_incomplete = incomplete, br_stderr = cr_stderr result\<rparr>)))))"

section \<open>Creating, checking, restoring, reading\<close>

text \<open>
  The settings of the repository whose chunker parameters a new one copies. (A source with a nil
  destination panics in Go; the model has an error there.)
\<close>

definition chunker_settings :: "repository_handle \<Rightarrow> (string \<times> gomap \<times> gomap) res" where
  "chunker_settings source =
     (case rp_dest source of
        None \<Rightarrow> Inl (ErrMsg ''nil destination'' [])
      | Some dest \<Rightarrow>
          res_bind (wrap_err ''resticrun: chunker source uri'' (d_uri dest (rp_path source))) (\<lambda>uri.
          res_bind (wrap_err ''resticrun: chunker source options'' (d_options dest)) (\<lambda>options.
          res_bind (wrap_err ''resticrun: chunker source environment'' (d_env dest)) (\<lambda>env.
            if rp_password source = []
            then Inl (ErrMsg ''resticrun: chunker source password is empty'' [])
            else Inr (uri, options, env)))))"

definition init_repository :: "'x sys \<Rightarrow> runner_config \<Rightarrow> repository_handle \<Rightarrow> repository_handle option \<Rightarrow>
    ('x world, unit) prog" where
  "init_repository S cfg repo chunker_source =
     (case chunker_source of
        None \<Rightarrow>
          prog_bind (run_checked S cfg repo (init_args []) no_secondary False False False) (\<lambda>_. prog_return ())
      | Some source \<Rightarrow>
          prog_bind (prog_lift (chunker_settings source)) (\<lambda>(uri, options, env).
          prog_bind (write_password_file S (rc_runtime_dir cfg) (rp_password source)) (\<lambda>(password_file, dir).
            let extra = \<lparr>sec_options = options,
                  sec_env = fold (\<lambda>(k, v). gm_put k v) env [(''RESTIC_FROM_PASSWORD_FILE'', password_file)]\<rparr> in
            defer_remove dir
              (prog_bind (run_checked S cfg repo (init_args uri) extra False False False)
                (\<lambda>_. prog_return ())))))"

definition check :: "'x sys \<Rightarrow> runner_config \<Rightarrow> repository_handle \<Rightarrow> check_spec \<Rightarrow> ('x world, unit) prog" where
  "check S cfg repo spec =
     prog_bind (prog_lift (check_args spec)) (\<lambda>args.
     prog_bind (run_checked S cfg repo args no_secondary False False False) (\<lambda>_. prog_return ()))"

definition zero_restore_result :: restore_result where
  "zero_restore_result = \<lparr>rr_message_type = [], rr_total_files = 0, rr_files_restored = 0,
     rr_total_bytes = 0, rr_bytes_restored = 0\<rparr>"

definition restore :: "'x sys \<Rightarrow> runner_config \<Rightarrow> json_codec \<Rightarrow> repository_handle \<Rightarrow> restore_spec \<Rightarrow>
    ('x world, restore_result) prog" where
  "restore S cfg J repo spec =
     prog_bind (prog_lift (restore_args spec)) (\<lambda>args.
     prog_bind (run_checked S cfg repo args no_secondary (rs_on_progress spec) False False) (\<lambda>result.
       prog_lift (parse_summary (js_message_type J) (js_restore_result J) zero_restore_result
         (cr_stdout result))))"

text \<open>The scanner loop of \<open>Ls\<close>.\<close>

fun ls_loop :: "json_codec \<Rightarrow> string list \<Rightarrow> entry list \<Rightarrow> entry list res" where
  "ls_loop J [] entries = Inr entries"
| "ls_loop J (l # ls) entries =
     (if length l \<ge> max_scan_line then
        Inl (ErrWrap ''resticrun: read ls output'' (ErrMsg ''bufio.Scanner: token too long'' []))
      else if \<not> is_message (js_message_type J) ''node'' l then ls_loop J ls entries
      else case js_entry J (trim_space l) of
             Inl e \<Rightarrow> Inl (ErrWrap ''resticrun: decode ls entry'' e)
           | Inr x \<Rightarrow> ls_loop J ls (entries @ [x]))"

definition ls :: "'x sys \<Rightarrow> runner_config \<Rightarrow> json_codec \<Rightarrow> repository_handle \<Rightarrow> string \<Rightarrow> string list \<Rightarrow>
    ('x world, entry list) prog" where
  "ls S cfg J repo snapshot_id subpaths =
     prog_bind (prog_lift (validate_snapshot_id snapshot_id)) (\<lambda>_.
     prog_bind (run_checked S cfg repo ([''ls'', ''--json'', snapshot_id] @ subpaths) no_secondary
        False False False) (\<lambda>result.
       if cr_truncated result
       then prog_fail (ErrMsg ''resticrun: this backup holds more files than can be listed at once'' [])
       else prog_lift (ls_loop J (scan_lines (cr_stdout result)) [])))"

definition dump :: "'x sys \<Rightarrow> runner_config \<Rightarrow> repository_handle \<Rightarrow> string \<Rightarrow> string \<Rightarrow> bool \<Rightarrow>
    ('x world, unit) prog" where
  "dump S cfg repo snapshot_id path has_out =
     prog_bind (prog_lift (validate_snapshot_id snapshot_id)) (\<lambda>_.
       if \<not> has_prefix path ''/'' \<or> contains_str path ''..''
       then prog_fail (ErrMsg ''resticrun: not a path inside a snapshot'' [path])
       else if \<not> has_out then prog_fail (ErrMsg ''resticrun: dump has nowhere to write'' [])
       else prog_bind (run_checked S cfg repo [''dump'', snapshot_id, path] no_secondary False True False)
              (\<lambda>_. prog_return ()))"

definition restore_size :: "'x sys \<Rightarrow> runner_config \<Rightarrow> json_codec \<Rightarrow> repository_handle \<Rightarrow> snapshot \<Rightarrow>
    ('x world, nat) prog" where
  "restore_size S cfg J repo s =
     (if sn_bytes_processed s > 0 then prog_return (sn_bytes_processed s)
      else prog_bind (prog_lift (validate_snapshot_id (sn_id s))) (\<lambda>_.
        if sn_id s = ''latest''
        then prog_fail (ErrMsg ''resticrun: restore size requires an exact snapshot'' [])
        else prog_bind (run_checked S cfg repo
               [''stats'', ''--json'', ''--mode'', ''restore-size'', sn_id s] no_secondary False False False)
          (\<lambda>result. case js_total_size J (cr_stdout result) of
             Inr n \<Rightarrow>
               if cr_truncated result \<or> n = 0
               then prog_fail (ErrMsg ''resticrun: cannot establish restore size'' [sn_id s])
               else prog_return n
           | Inl _ \<Rightarrow> prog_fail (ErrMsg ''resticrun: cannot establish restore size'' [sn_id s]))))"

definition prune :: "'x sys \<Rightarrow> runner_config \<Rightarrow> repository_handle \<Rightarrow> ('x world, unit) prog" where
  "prune S cfg repo =
     prog_bind (run_checked S cfg repo [''prune''] no_secondary False False False) (\<lambda>_. prog_return ())"

section \<open>No file is left behind\<close>

lemma mkdir_temp_files: "mkdir_temp S d p w = (r, w') \<Longrightarrow> w_files w' = w_files w \<and> w_log w' = w_log w"
  by (auto simp: mkdir_temp_def split: prod.splits)

lemma mkdir_temp_fresh:
  "mkdir_temp S d p w = (Inr dir, w') \<Longrightarrow> fresh_temp_dirs S \<Longrightarrow>
     path = dir \<or> has_prefix path (dir @ ''/'') \<Longrightarrow> w_files w path = None"
  by (auto simp: mkdir_temp_def split: prod.splits dest: fresh_temp_dirsD)

lemma write_file_files:
  "write_file S p c m w = (r, w') \<Longrightarrow> w_files w' = (w_files w)(p \<mapsto> (c, m)) \<and> w_log w' = w_log w"
  by (auto simp: write_file_def Let_def split: option.splits)

text \<open>A program keeps the files when every run of it ends with the files it started with.\<close>

definition keeps_files :: "('x world, 'a) prog \<Rightarrow> bool" where
  "keeps_files m \<longleftrightarrow> (\<forall>w r w'. m w = (r, w') \<longrightarrow> w_files w' = w_files w)"

named_theorems files \<open>programs that keep the files\<close>

lemma keeps_files_basic [files]:
  "keeps_files (prog_return a)" "keeps_files (prog_fail e)" "keeps_files (prog_lift r)"
  by (simp_all add: keeps_files_def)

lemma keeps_files_bind [files]:
  "keeps_files m \<Longrightarrow> (\<And>a. keeps_files (f a)) \<Longrightarrow> keeps_files (prog_bind m f)"
  unfolding keeps_files_def prog_bind_def by (fastforce split: prod.splits sum.splits)

lemma keeps_files_map [files]:
  "keeps_files m \<Longrightarrow> keeps_files (\<lambda>w. case m w of (r, w') \<Rightarrow> (g r, w'))"
  unfolding keeps_files_def by (auto split: prod.splits)

lemma keeps_files_if [files]:
  "keeps_files m \<Longrightarrow> keeps_files n \<Longrightarrow> keeps_files (if b then m else n)"
  by simp

lemma keeps_files_run_checked [files]:
  "fresh_temp_dirs S \<Longrightarrow> keeps_files (run_checked S cfg repo args extra ol st ok)"
  unfolding keeps_files_def by (blast dest: run_checked_files)

lemma keeps_files_password_file [files]:
  assumes "fresh_temp_dirs S" "\<And>path dir. keeps_files (f path dir)"
  shows "keeps_files (prog_bind (write_password_file S rd pw) (\<lambda>(path, dir).
           defer_remove dir (f path dir)))"
  unfolding keeps_files_def
proof (intro allI impI)
  fix w r w'
  assume run: "prog_bind (write_password_file S rd pw) (\<lambda>(path, dir).
      defer_remove dir (f path dir)) w = (r, w')"
  obtain r1 w1 where wp: "write_password_file S rd pw w = (r1, w1)" by force
  show "w_files w' = w_files w"
  proof (cases r1)
    case (Inl e)
    with run wp write_password_file_Inl [of S rd pw w e w1] assms(1) show ?thesis by simp
  next
    case (Inr v)
    obtain path dir where v: "v = (path, dir)" by (cases v)
    obtain r2 w2 where f: "f path dir w1 = (r2, w2)" by force
    with assms(2) have "w_files w2 = w_files w1" by (auto simp: keeps_files_def)
    with run wp Inr v f write_password_file_Inr [of S rd pw w path dir w1] assms(1)
    show ?thesis by (auto simp: defer_remove_def remove_all_def)
  qed
qed

lemma keeps_files_temp_file [files]:
  assumes "fresh_temp_dirs S" "\<And>dir. keeps_files (f dir)"
  shows "keeps_files (prog_bind (mkdir_temp S rd pat) (\<lambda>dir.
           defer_remove dir (prog_bind (write_file S (dir @ ''/completed'') c m) (\<lambda>_. f dir))))"
  unfolding keeps_files_def
proof (intro allI impI)
  fix w r w'
  assume run: "prog_bind (mkdir_temp S rd pat) (\<lambda>dir.
      defer_remove dir (prog_bind (write_file S (dir @ ''/completed'') c m) (\<lambda>_. f dir))) w = (r, w')"
  obtain r1 w1 where mk: "mkdir_temp S rd pat w = (r1, w1)" by force
  show "w_files w' = w_files w"
  proof (cases r1)
    case (Inl e)
    with run mk mkdir_temp_files [OF mk] show ?thesis by simp
  next
    case (Inr dir)
    obtain r2 w2 where wf: "write_file S (dir @ ''/completed'') c m w1 = (r2, w2)" by force
    obtain r3 w3 where all: "prog_bind (write_file S (dir @ ''/completed'') c m) (\<lambda>_. f dir) w1 = (r3, w3)"
      by force
    with wf assms(2) [of dir] have "w_files w3 = w_files w2"
      by (cases r2) (auto simp: keeps_files_def)
    with write_file_files [OF wf] mkdir_temp_files [OF mk]
    have "w_files w3 = (w_files w)(dir @ ''/completed'' \<mapsto> (c, m))" by simp
    moreover have "without_dir dir ((w_files w)(dir @ ''/completed'' \<mapsto> (c, m))) = w_files w"
      using mkdir_temp_fresh [OF mk [unfolded Inr] assms(1)] by (auto intro!: without_dir_fresh)
    ultimately show ?thesis using run mk Inr all by (auto simp: defer_remove_def remove_all_def)
  qed
qed

lemma keeps_files_record_completion [files]:
  "fresh_temp_dirs S \<Longrightarrow> keeps_files (record_completion S cfg J repo host i)"
  unfolding record_completion_def Let_def by (intro files)

lemma keeps_files_backup [files]:
  "fresh_temp_dirs S \<Longrightarrow> keeps_files (backup S cfg J repo spec)"
  unfolding backup_def Let_def by (intro files)

lemma keeps_files_init [files]:
  assumes "fresh_temp_dirs S"
  shows "keeps_files (init_repository S cfg repo source)"
proof (cases source)
  case None
  with assms show ?thesis by (simp add: init_repository_def files)
next
  case (Some h)
  show ?thesis
    unfolding init_repository_def Some option.case Let_def
  proof (rule keeps_files_bind [OF keeps_files_basic(3)])
    fix x
    show "keeps_files (case x of (uri, options, env) \<Rightarrow>
      prog_bind (write_password_file S (rc_runtime_dir cfg) (rp_password h)) (\<lambda>(password_file, dir).
        defer_remove dir (prog_bind (run_checked S cfg repo (init_args uri)
          \<lparr>sec_options = options,
            sec_env = fold (\<lambda>(k, v). gm_put k v) env [(''RESTIC_FROM_PASSWORD_FILE'', password_file)]\<rparr>
          False False False) (\<lambda>_. prog_return ()))))"
      using assms by (cases x) (simp, intro files)
  qed
qed

text \<open>
  However they end, backing up (with its completion receipt) and creating a repository from
  another one's chunker parameters leave the files under the runtime directory as they were:
  neither a repository's password file nor the second repository's outlives the call.
\<close>

theorem client_leaves_no_files:
  assumes "fresh_temp_dirs S"
  shows "w_files (snd (backup S cfg J repo spec w)) = w_files w
    \<and> w_files (snd (init_repository S cfg repo source w)) = w_files w"
  using keeps_files_backup [OF assms, of cfg J repo spec] keeps_files_init [OF assms, of cfg repo source]
  unfolding keeps_files_def by (metis prod.collapse)

definition example_repo :: "string \<Rightarrow> repository_handle" where
  "example_repo name = \<lparr>rp_dest = Some \<lparr>d_uri = Inr, d_env = Inr [], d_options = Inr []\<rparr>,
     rp_path = name, rp_password = ''secret''\<rparr>"

definition example_world :: "unit world" where
  "example_world = \<lparr>w_files = Map.empty, w_ext = (), w_log = []\<rparr>"

theorem client_leaves_no_files_witness:
  "w_files (snd (init_repository example_sys example_config (example_repo ''cp2'')
     (Some (example_repo ''cp1'')) example_world)) = Map.empty"
  using client_leaves_no_files [OF example_sys_fresh, where cfg = example_config and
      repo = "example_repo ''cp2''" and source = "Some (example_repo ''cp1'')" and w = example_world]
  by (simp add: example_world_def)

section \<open>When a backup counts as complete\<close>

lemma run_checked_ok:
  "run_checked S cfg repo args extra ol st ok w = (Inr c, w') \<Longrightarrow>
     w_log w' = w_log w @ [args] \<and> (cr_exit_code c = 0 \<or> ok \<and> cr_exit_code c = 3)"
  by (auto simp: run_checked_def prog_bind_eq_Inr dest: run_logs_when_ok)

lemma defer_remove_Inr:
  "defer_remove dir m w = (Inr a, w') \<longleftrightarrow> (\<exists>w1. m w = (Inr a, w1) \<and> w' = remove_all dir w1)"
  by (auto simp: defer_remove_def split: prod.splits)

lemma record_completion_ok:
  assumes "record_completion S cfg J repo host i w = (Inr u, w')"
  shows "validate_snapshot_id i = Inr () \<and> i \<noteq> ''latest'' \<and>
    (\<exists>file args. backup_args (receipt_spec file host i) = Inr args \<and> w_log w' = w_log w @ [args])"
  using assms
  by (fastforce simp: record_completion_def prog_bind_eq_Inr Let_def defer_remove_Inr remove_all_def
      split: if_splits dest!: mkdir_temp_files write_file_files run_checked_ok)


text \<open>An operating system whose restic answers each argument list in a given way.\<close>

definition reply_sys :: "(string list \<Rightarrow> string) \<Rightarrow> unit sys" where
  "reply_sys f = \<lparr>sys_mkdir_temp = (\<lambda>d p w. (Inr (d @ ''/x''), ())), sys_write_err = (\<lambda>p w. None),
     sys_exec = (\<lambda>c w. (Inr \<lparr>cr_stdout = f (cmd_args c), cr_stderr = [], cr_exit_code = 0,
       cr_truncated = False\<rparr>, ()))\<rparr>"

lemma reply_run:
  "\<exists>w'. run_checked (reply_sys f) example_config (example_repo n) args no_secondary ol st ok w =
     (Inr \<lparr>cr_stdout = f args, cr_stderr = [], cr_exit_code = 0, cr_truncated = False\<rparr>, w')"
  by (simp add: run_checked_def run_def run_prepare_def example_repo_def example_config_def no_secondary_def
      wrap_err_def merge_options_def run_command_def write_password_file_def mkdir_temp_def write_file_def
      reply_sys_def exec_command_def defer_remove_def option_args_def prog_bind_def Let_def
      classify_exit_def exit_ok_def)

definition example_codec :: "snapshot list \<Rightarrow> json_codec" where
  "example_codec ss = \<lparr>js_message_type = (\<lambda>_. Some ''summary''),
     js_backup_summary = (\<lambda>_ _. Inr (zero_summary\<lparr>bm_snapshot_id := ''0123abcd''\<rparr>)),
     js_restore_result = (\<lambda>r _. Inr r), js_entry = (\<lambda>_. Inl ErrNotFound),
     js_snapshots = (\<lambda>_. Inr ss), js_total_size = (\<lambda>_. Inr 0), js_failure = Inr,
     js_groups = (\<lambda>_. Inr []), js_encode_groups = (\<lambda>_. Inr ''null'')\<rparr>"

definition example_backup :: backup_spec where
  "example_backup = \<lparr>bs_record_completion = True, bs_paths = [''/home/bob''], bs_tags = [''account:bob''],
     bs_host = ''cp1'', bs_exclude = [], bs_limit_upload_kib = 0, bs_on_progress = False\<rparr>"

lemma example_parse: "parse_backup_summary (example_codec ss) ''{}'' =
    Inr (zero_summary\<lparr>bm_snapshot_id := ''0123abcd''\<rparr>)"
proof -
  have "scan_lines ''{}'' = [''{}'']" "trim_space ''{}'' = ''{}''" by code_simp+
  then show ?thesis
    by (simp add: parse_backup_summary_def parse_summary_def last_message_def is_message_def
        example_codec_def max_scan_line_def)
qed

lemma example_backup_runs:
  "\<exists>r w'. backup (reply_sys (\<lambda>_. ''{}'')) example_config (example_codec ss) (example_repo n)
     example_backup w = (Inr r, w') \<and> bm_snapshot_id (br_summary r) = ''0123abcd'' \<and> \<not> br_incomplete r"
proof -
  let ?S = "reply_sys (\<lambda>_. ''{}'')"
  obtain args where args: "backup_args (tag_for_completion example_backup) = Inr args"
    by (simp add: backup_args_def tag_for_completion_def example_backup_def)
  obtain w1 where run: "run_checked ?S example_config (example_repo n) args no_secondary False False True w =
      (Inr \<lparr>cr_stdout = ''{}'', cr_stderr = [], cr_exit_code = 0, cr_truncated = False\<rparr>, w1)"
    using reply_run [of "\<lambda>_. ''{}''"] by blast
  obtain w2 where rec: "record_completion ?S example_config (example_codec ss) (example_repo n) ''cp1'' ''0123abcd'' w1
      = (Inr (), w2)"
  proof -
    have v: "validate_snapshot_id ''0123abcd'' = Inr ()"
      by (simp add: validate_snapshot_id_iff is_hex_def is_digit_def)
    define dir where "dir = rc_runtime_dir example_config @ ''/x''"
    obtain rargs where r: "backup_args (receipt_spec (dir @ ''/completed'') ''cp1'' ''0123abcd'') = Inr rargs"
      by (simp add: backup_args_def receipt_spec_def)
    have mk: "mkdir_temp ?S (rc_runtime_dir example_config) ''gniza-completion-'' w1 = (Inr dir, w1\<lparr>w_ext := ()\<rparr>)"
      by (simp add: mkdir_temp_def reply_sys_def dir_def)
    obtain w2 where wf: "write_file ?S (dir @ ''/completed'') (''0123abcd'' @ [nl]) 0x180 (w1\<lparr>w_ext := ()\<rparr>) = (Inr (), w2)"
      by (simp add: write_file_def reply_sys_def)
    obtain w3 where run2: "run_checked ?S example_config (example_repo n) rargs no_secondary False False False w2 =
        (Inr \<lparr>cr_stdout = ''{}'', cr_stderr = [], cr_exit_code = 0, cr_truncated = False\<rparr>, w3)"
      using reply_run [of "\<lambda>_. ''{}''"] by blast
    show thesis
      by (rule that) (simp add: record_completion_def v mk r wf [simplified] run2 example_parse defer_remove_def Let_def)
  qed
  show ?thesis
    using args run rec
    by (simp add: backup_def Let_def example_parse tag_for_completion_def example_backup_def
        exit_incomplete_read_def prog_bind_def wrap_err_def)
qed


section \<open>Listings\<close>

lemma visible_snapshots_props:
  assumes "s \<in> set (visible_snapshots ss receipts)"
  shows "completion_receipt_tag \<notin> set (sn_tags s)" "sn_read_complete s \<longleftrightarrow> sn_id s \<in> set receipts"
  using assms by (auto simp: visible_snapshots_def)

lemma complete_iff:
  "snapshot_complete s \<longleftrightarrow>
     \<not> sn_read_failed s \<and> (needs_completion_tag \<in> set (sn_tags s) \<longrightarrow> sn_read_complete s) \<and>
     skipped_parts (sn_tags s) = []"
  by (auto simp: snapshot_complete_def skipped_def)

lemma set_newest_first_limit: "set (newest_first_limit n ss) \<subseteq> set ss"
proof -
  have "set (drop k (go_sort lt ss)) \<subseteq> set ss" for k lt
    using set_drop_subset [of k "go_sort lt ss"] by simp
  then show ?thesis by (simp add: newest_first_limit_def)
qed

text \<open>
  C16. A listing never shows a completion receipt as if it were a backup, and a snapshot that was
  written with the promise of a receipt is only ever shown as complete when the repository
  holds a receipt for that very id.
\<close>

theorem listed_complete_has_receipt:
  assumes "snapshots S cfg J repo flt w = (Inr ss, w')" "s \<in> set ss"
  shows "completion_receipt_tag \<notin> set (sn_tags s) \<and>
    (snapshot_complete s \<and> needs_completion_tag \<in> set (sn_tags s) \<longrightarrow>
      (\<exists>w1 receipts w2. completion_receipts S cfg J repo w1 = (Inr receipts, w2) \<and> sn_id s \<in> set receipts))"
proof -
  from assms(1) obtain raw w1 receipts w2 where
    rec: "(if list_ex (\<lambda>s. has_tag (sn_tags s) needs_completion_tag) raw
           then completion_receipts S cfg J repo else prog_return []) w1 = (Inr receipts, w2)" and
    ss: "ss = newest_first_limit (sf_latest flt) (visible_snapshots raw receipts)"
    by (auto simp: snapshots_def prog_bind_eq_Inr)
  from assms(2) ss have s: "s \<in> set (visible_snapshots raw receipts)"
    using set_newest_first_limit by blast
  show ?thesis
    using visible_snapshots_props [OF s] rec by (cases "receipts = []")
      (auto simp: complete_iff split: if_splits)
qed

definition example_snapshot :: "string \<Rightarrow> string list \<Rightarrow> snapshot" where
  "example_snapshot i tags = \<lparr>sn_id = i, sn_short_id = take 8 i, sn_time = 5, sn_paths = [], sn_hostname = ''cp1'', sn_tags = tags,
     sn_read_complete = False, sn_read_failed = False, sn_bytes_processed = 0, sn_files_processed = 0,
     sn_data_added = 0\<rparr>"

lemma reply_raw_snapshots:
  "\<exists>w'. raw_snapshots (reply_sys f) example_config (example_codec ss) (example_repo n) flt w = (Inr ss, w')"
  using reply_run [of f n "snapshots_args flt" False False False w]
  by (auto simp: raw_snapshots_def example_codec_def wrap_err_def)

definition example_listing :: "snapshot list" where
  "example_listing = [example_snapshot ''0123abcd'' [needs_completion_tag],
     example_snapshot ''9999abcd'' [completion_receipt_tag, completed_id_prefix @ ''0123abcd'']]"

lemma example_snapshots_runs:
  "\<exists>w'. snapshots (reply_sys f) example_config (example_codec example_listing) (example_repo n) receipt_filter w =
     (Inr [(example_snapshot ''0123abcd'' [needs_completion_tag])\<lparr>sn_read_complete := True\<rparr>], w')"
proof -
  have tags: "receipts_of example_listing = [''0123abcd'']" by code_simp
  have vis: "newest_first_limit 0 (visible_snapshots example_listing [''0123abcd'']) =
      [(example_snapshot ''0123abcd'' [needs_completion_tag])\<lparr>sn_read_complete := True\<rparr>]"
    by (simp add: newest_first_limit_def visible_snapshots_def example_listing_def example_snapshot_def
        needs_completion_tag_def completion_receipt_tag_def)
  have needs: "list_ex (\<lambda>s. has_tag (sn_tags s) needs_completion_tag) example_listing"
    by (simp add: example_listing_def example_snapshot_def)
  obtain w1 where "raw_snapshots (reply_sys f) example_config (example_codec example_listing) (example_repo n)
      (receipt_filter\<lparr>sf_latest := 0\<rparr>) w = (Inr example_listing, w1)"
    using reply_raw_snapshots by blast
  moreover obtain w2 where "raw_snapshots (reply_sys f) example_config (example_codec example_listing) (example_repo n)
      receipt_filter w1 = (Inr example_listing, w2)"
    using reply_raw_snapshots by blast
  ultimately show ?thesis
    using needs vis by (simp add: snapshots_def completion_receipts_def tags receipt_filter_def)
qed

theorem listed_complete_has_receipt_witness:
  "\<exists>w1 receipts w2. completion_receipts (reply_sys (\<lambda>_. [])) example_config (example_codec example_listing)
     (example_repo ''cp1'') w1 = (Inr receipts, w2) \<and> ''0123abcd'' \<in> set receipts"
proof -
  obtain w' where "snapshots (reply_sys (\<lambda>_. [])) example_config (example_codec example_listing) (example_repo ''cp1'')
      receipt_filter example_world =
      (Inr [(example_snapshot ''0123abcd'' [needs_completion_tag])\<lparr>sn_read_complete := True\<rparr>], w')"
    using example_snapshots_runs by blast
  from listed_complete_has_receipt [OF this] show ?thesis
    by (simp add: complete_iff example_snapshot_def needs_completion_tag_def skip_tag_prefix_def cut_prefix_def
        has_prefix_def)
qed

interpretation by_time: strict_weak "\<lambda>a b :: snapshot. sn_time a < sn_time b"
  by unfold_locales auto

lemma sorted_split_le:
  assumes "sorted_wrt (\<lambda>a b. \<not> sn_time b < sn_time a) xs" "d \<in> set (take k xs)" "s \<in> set (drop k xs)"
  shows "sn_time d \<le> sn_time s"
proof -
  have "sorted_wrt (\<lambda>a b. \<not> sn_time b < sn_time a) (take k xs @ drop k xs)"
    using assms(1) by simp
  with assms(2,3) have "\<not> sn_time s < sn_time d"
    unfolding sorted_wrt_append by blast
  then show ?thesis by simp
qed

text \<open>
  C0. Asking for the latest \<open>n\<close> backups counts backups only: the answer holds \<open>n\<close> of the visible
  snapshots, or all of them when there are fewer, and none that was left out is newer than one
  that was returned.
\<close>

theorem latest_limit_keeps_newest:
  assumes "0 < n"
  shows "length (newest_first_limit n ss) = min (nat n) (length ss) \<and>
    (\<exists>dropped. mset ss = mset dropped + mset (newest_first_limit n ss) \<and>
       (\<forall>d \<in> set dropped. \<forall>s \<in> set (newest_first_limit n ss). sn_time d \<le> sn_time s))"
proof (cases "int (length ss) > n")
  case False
  with assms have "newest_first_limit n ss = ss" "length ss \<le> nat n"
    by (auto simp: newest_first_limit_def)
  then show ?thesis by (auto intro!: exI [of _ "[]"])
next
  case True
  define xs where "xs = go_sort (\<lambda>a b. sn_time a < sn_time b) ss"
  define k where "k = length ss - nat n"
  have lim: "newest_first_limit n ss = drop k xs"
    using True assms by (simp add: newest_first_limit_def xs_def k_def)
  have "mset ss = mset (take k xs) + mset (drop k xs)"
    by (metis append_take_drop_id mset_append mset_go_sort xs_def)
  moreover have "\<forall>d \<in> set (take k xs). \<forall>s \<in> set (drop k xs). sn_time d \<le> sn_time s"
    using sorted_split_le by_time.sorted_go_sort [of ss] unfolding xs_def by blast
  moreover have "length (drop k xs) = min (nat n) (length ss)"
    using True by (simp add: xs_def k_def)
  ultimately show ?thesis unfolding lim by blast
qed

theorem latest_limit_keeps_newest_witness:
  "length (newest_first_limit 1 [example_snapshot ''0123abcd'' [], example_snapshot ''9999abcd'' []]) = 1"
  using latest_limit_keeps_newest [of 1 "[example_snapshot ''0123abcd'' [], example_snapshot ''9999abcd'' []]"]
  by simp

end
