(* ===== verification/Retention_Plan.thy ===== *)
theory Retention_Plan
  imports Restic_Client
begin

text \<open>
  Expiring backups: \<open>internal/resticrun/forget.go\<close>. A retention run first asks restic what a
  keep policy would remove, takes out every group that holds a backup nobody has verified or
  that is protected by name, and then deletes the remaining snapshots by id.
\<close>

section \<open>The plan\<close>

record forget_group =
  fg_host :: string
  fg_account :: string
  fg_tags :: "string list"
  fg_kept :: nat
  fg_removed :: nat
  fg_protected :: bool
  fg_oldest :: instant
  fg_newest :: instant

record forget_plan =
  fp_groups :: "forget_group list"
  fp_kept :: nat
  fp_removed :: nat

definition empty_plan :: forget_plan where
  "empty_plan = \<lparr>fp_groups = [], fp_kept = 0, fp_removed = 0\<rparr>"

text \<open>The span of what would go: the loop over \<open>group.Remove\<close>.\<close>

fun span_loop :: "snapshot list \<Rightarrow> instant \<Rightarrow> instant \<Rightarrow> instant \<times> instant" where
  "span_loop [] oldest newest = (oldest, newest)"
| "span_loop (s # ss) oldest newest =
     span_loop ss
       (if is_zero oldest \<or> sn_time s < oldest then sn_time s else oldest)
       (if newest < sn_time s then sn_time s else newest)"

definition summarise :: "retention_group \<Rightarrow> forget_group" where
  "summarise g =
     (case span_loop (rg_remove g) zero_time zero_time of (oldest, newest) \<Rightarrow>
        \<lparr>fg_host = rg_host g, fg_account = first_tag_value ''account:'' (rg_tags g), fg_tags = rg_tags g,
         fg_kept = length (rg_keep g), fg_removed = length (rg_remove g),
         fg_protected = rg_protected g, fg_oldest = oldest, fg_newest = newest\<rparr>)"

fun plan_loop :: "retention_group list \<Rightarrow> forget_plan \<Rightarrow> forget_plan" where
  "plan_loop [] plan = plan"
| "plan_loop (g # gs) plan =
     (if length (rg_remove g) = 0 \<and> length (rg_keep g) = 0 then plan_loop gs plan
      else let s = summarise g in
        plan_loop gs \<lparr>fp_groups = fp_groups plan @ [s], fp_kept = fp_kept plan + fg_kept s,
                      fp_removed = fp_removed plan + fg_removed s\<rparr>)"

definition group_less :: "forget_group \<Rightarrow> forget_group \<Rightarrow> bool" where
  "group_less a b =
     (if fg_removed a \<noteq> fg_removed b then fg_removed b < fg_removed a
      else str_less (fg_account a) (fg_account b))"

definition plan_of :: "retention_group list \<Rightarrow> forget_plan" where
  "plan_of groups =
     (let plan = plan_loop groups empty_plan
      in plan\<lparr>fp_groups := go_sort group_less (fp_groups plan)\<rparr>)"

definition parse_forget_plan :: "json_codec \<Rightarrow> string \<Rightarrow> forget_plan res" where
  "parse_forget_plan J stdout =
     (let trimmed = trim_space stdout in
      if length trimmed = 0 then Inr empty_plan
      else if hd trimmed = CHR ''{'' then
        (case js_failure J trimmed of
           Inr message \<Rightarrow>
             if message \<noteq> [] then Inl (ErrMsg ''resticrun: forget'' [message])
             else Inl (ErrMsg ''resticrun: forget said something unreadable'' [])
         | Inl _ \<Rightarrow> Inl (ErrMsg ''resticrun: forget said something unreadable'' []))
      else case js_groups J trimmed of
             Inl e \<Rightarrow> Inl (ErrWrap ''resticrun: read the retention plan'' e)
           | Inr groups \<Rightarrow> Inr (plan_of groups))"

section \<open>Deleting named snapshots\<close>

fun named_ids :: "string list \<Rightarrow> string list \<Rightarrow> string list res" where
  "named_ids [] args = Inr args"
| "named_ids (i # ids) args =
     res_bind (validate_snapshot_id i) (\<lambda>_.
       if i = ''latest'' then Inl (ErrMsg ''resticrun: not a snapshot to forget'' [i])
       else named_ids ids (args @ [i]))"

definition forget_snapshots :: "'x sys \<Rightarrow> runner_config \<Rightarrow> repository_handle \<Rightarrow> string list \<Rightarrow>
    ('x world, unit) prog" where
  "forget_snapshots S cfg repo ids =
     (if length ids = 0 then prog_fail (ErrMsg ''resticrun: no snapshot was named to forget'' [])
      else prog_bind (prog_lift (named_ids ids [''forget''])) (\<lambda>args.
        prog_bind (run_checked S cfg repo args no_secondary False False False) (\<lambda>_. prog_return ())))"

section \<open>Planned retention\<close>

definition awaits_receipt :: "snapshot \<Rightarrow> bool" where
  "awaits_receipt s \<longleftrightarrow> has_tag (sn_tags s) needs_completion_tag"

definition untouchable :: "forget_spec \<Rightarrow> string list \<Rightarrow> snapshot \<Rightarrow> bool" where
  "untouchable spec completed s \<longleftrightarrow>
     sn_id s \<in> set (fs_protected spec) \<or> awaits_receipt s \<and> sn_id s \<notin> set completed"

definition settle_group :: "forget_spec \<Rightarrow> string list \<Rightarrow> retention_group \<Rightarrow> retention_group" where
  "settle_group spec completed g =
     (let g = (if list_ex (untouchable spec completed) (rg_keep g @ rg_remove g)
               then g\<lparr>rg_protected := True\<rparr> else g)
      in if rg_protected g then g\<lparr>rg_keep := rg_keep g @ rg_remove g, rg_remove := []\<rparr> else g)"

text \<open>The loop that builds the safe groups and the ids to remove.\<close>

fun safe_loop :: "forget_spec \<Rightarrow> string list \<Rightarrow> retention_group list \<Rightarrow> retention_group list \<Rightarrow>
    string list \<Rightarrow> retention_group list \<times> string list" where
  "safe_loop spec completed [] safe remove = (safe, remove)"
| "safe_loop spec completed (g # gs) safe remove =
     (if has_tag (rg_tags g) completion_receipt_tag then safe_loop spec completed gs safe remove
      else let g = settle_group spec completed g in
        safe_loop spec completed gs (safe @ [g]) (remove @ map sn_id (rg_remove g)))"

definition preview_spec :: "forget_spec \<Rightarrow> forget_spec" where
  "preview_spec spec = spec\<lparr>fs_dry_run := True, fs_prune := False\<rparr>"

text \<open>The preview: what restic would remove, as groups; None when it printed nothing.\<close>

definition preview_groups :: "'x sys \<Rightarrow> runner_config \<Rightarrow> json_codec \<Rightarrow> repository_handle \<Rightarrow> forget_spec \<Rightarrow>
    ('x world, retention_group list option) prog" where
  "preview_groups S cfg J repo spec =
     prog_bind (prog_lift (forget_args (preview_spec spec))) (\<lambda>args.
     prog_bind (run_checked S cfg repo args no_secondary False False False) (\<lambda>result.
       if cr_truncated result
       then prog_fail (ErrMsg ''resticrun: the retention plan was too large to read in full'' [])
       else prog_bind (prog_lift (parse_forget_plan J (cr_stdout result))) (\<lambda>_.
         if length (trim_space (cr_stdout result)) = 0 then prog_return None
         else prog_bind (prog_lift (js_groups J (cr_stdout result))) (\<lambda>groups. prog_return (Some groups)))))"

definition all_snapshots :: "retention_group list \<Rightarrow> snapshot list" where
  "all_snapshots groups = concat (map (\<lambda>g. rg_keep g @ rg_remove g) groups)"

text \<open>The deletion itself, by id, and the prune after it.\<close>

definition carry_out :: "'x sys \<Rightarrow> runner_config \<Rightarrow> repository_handle \<Rightarrow> forget_spec \<Rightarrow> string list \<Rightarrow>
    ('x world, unit) prog" where
  "carry_out S cfg repo spec remove =
     (if \<not> fs_dry_run spec \<and> length remove > 0 then
        prog_bind (forget_snapshots S cfg repo remove) (\<lambda>_.
          if fs_prune spec then prune S cfg repo else prog_return ())
      else prog_return ())"

definition forget_planned :: "'x sys \<Rightarrow> runner_config \<Rightarrow> json_codec \<Rightarrow> repository_handle \<Rightarrow> forget_spec \<Rightarrow>
    ('x world, forget_plan) prog" where
  "forget_planned S cfg J repo spec =
     prog_bind (prog_lift (forget_args spec)) (\<lambda>_.
     prog_bind (preview_groups S cfg J repo spec) (\<lambda>preview.
       case preview of
         None \<Rightarrow> prog_return empty_plan
       | Some groups \<Rightarrow>
           prog_bind
             (if list_ex awaits_receipt (all_snapshots groups)
              then completion_receipts S cfg J repo else prog_return []) (\<lambda>completed.
           case safe_loop spec completed groups [] [] of (safe, remove) \<Rightarrow>
             prog_bind (prog_lift (js_encode_groups J safe)) (\<lambda>encoded.
             prog_bind (prog_lift (parse_forget_plan J encoded)) (\<lambda>plan.
             prog_bind (carry_out S cfg repo spec remove) (\<lambda>_. prog_return plan))))))"

text \<open>\<open>Forget\<close> drops the plan.\<close>

definition forget :: "'x sys \<Rightarrow> runner_config \<Rightarrow> json_codec \<Rightarrow> repository_handle \<Rightarrow> forget_spec \<Rightarrow>
    ('x world, unit) prog" where
  "forget S cfg J repo spec = prog_bind (forget_planned S cfg J repo spec) (\<lambda>_. prog_return ())"

section \<open>The plan counts what it lists\<close>

lemma plan_loop_totals:
  "fp_removed (plan_loop gs p) = fp_removed p + (\<Sum>g\<leftarrow>gs. length (rg_remove g))"
  "fp_kept (plan_loop gs p) = fp_kept p + (\<Sum>g\<leftarrow>gs. length (rg_keep g))"
  by (induction gs p rule: plan_loop.induct) (auto simp: Let_def summarise_def split: prod.splits)

lemma plan_loop_groups:
  "fp_groups (plan_loop gs p) = fp_groups p @
     map summarise (filter (\<lambda>g. \<not> (rg_remove g = [] \<and> rg_keep g = [])) gs)"
  by (induction gs p rule: plan_loop.induct) (auto simp: Let_def)

lemma plan_of_totals [simp]:
  "fp_removed (plan_of gs) = (\<Sum>g\<leftarrow>gs. length (rg_remove g))"
  "fp_kept (plan_of gs) = (\<Sum>g\<leftarrow>gs. length (rg_keep g))"
  by (simp_all add: plan_of_def Let_def plan_loop_totals empty_plan_def)

interpretation by_loss: strict_weak group_less
proof
  show "group_less a b \<Longrightarrow> \<not> group_less b a" for a b
    by (auto simp: group_less_def dest: str_less_asym split: if_splits)
  show "group_less a c \<Longrightarrow> group_less a b \<or> group_less b c" for a b c
    using str_order.cotrans [of "fg_account a" "fg_account c" "fg_account b"]
    by (auto simp: group_less_def split: if_splits)
qed

section \<open>What is deleted\<close>

lemma safe_loop_eq:
  "safe_loop spec completed gs safe remove =
     (safe @ map (settle_group spec completed) (filter (\<lambda>g. completion_receipt_tag \<notin> set (rg_tags g)) gs),
      remove @ map sn_id (concat (map (\<lambda>g. rg_remove (settle_group spec completed g))
        (filter (\<lambda>g. completion_receipt_tag \<notin> set (rg_tags g)) gs))))"
  by (induction gs arbitrary: safe remove) (auto simp: Let_def)

text \<open>A group may lose snapshots only when nothing in it is in doubt.\<close>

definition group_settled :: "forget_spec \<Rightarrow> string list \<Rightarrow> retention_group \<Rightarrow> bool" where
  "group_settled spec completed g \<longleftrightarrow>
     completion_receipt_tag \<notin> set (rg_tags g) \<and> \<not> rg_protected g \<and>
     (\<forall>s \<in> set (rg_keep g @ rg_remove g). \<not> untouchable spec completed s)"

lemma settle_group_remove:
  "s \<in> set (rg_remove (settle_group spec completed g)) \<Longrightarrow>
     \<not> rg_protected g \<and> (\<forall>s \<in> set (rg_keep g @ rg_remove g). \<not> untouchable spec completed s)
     \<and> s \<in> set (rg_remove g)"
  by (auto simp: settle_group_def Let_def list_ex_iff split: if_splits)

lemma removed_ids_settled:
  assumes "safe_loop spec completed gs [] [] = (safe, remove)" "i \<in> set remove"
  shows "\<exists>g \<in> set gs. group_settled spec completed g \<and> i \<in> sn_id ` set (rg_remove g)"
  using assms settle_group_remove
  by (fastforce simp: safe_loop_eq group_settled_def image_iff)

lemma removed_count:
  assumes "safe_loop spec completed gs [] [] = (safe, remove)"
  shows "length remove = (\<Sum>g\<leftarrow>safe. length (rg_remove g))"
  using assms by (auto simp: safe_loop_eq length_concat comp_def)

lemma named_ids_eq:
  "named_ids ids args = Inr args' \<Longrightarrow>
     args' = args @ ids \<and> (\<forall>i \<in> set ids. validate_snapshot_id i = Inr () \<and> i \<noteq> ''latest'')"
  by (induction ids args rule: named_ids.induct) (auto simp: res_bind_eq_Inr split: if_splits)

text \<open>What a program may add to the record of commands.\<close>

definition logs_only :: "(string list \<Rightarrow> bool) \<Rightarrow> ('x world, 'a) prog \<Rightarrow> bool" where
  "logs_only P m \<longleftrightarrow>
     (\<forall>w r w'. m w = (r, w') \<longrightarrow> (\<exists>new. w_log w' = w_log w @ new \<and> list_all P new))"

named_theorems logging \<open>what programs record\<close>

lemma logs_only_basic [logging]:
  "logs_only P (prog_return a)" "logs_only P (prog_fail e)" "logs_only P (prog_lift r)"
  by (simp_all add: logs_only_def)

lemma logs_only_bind:
  assumes "logs_only P m" "\<And>w a w1. m w = (Inr a, w1) \<Longrightarrow> logs_only P (f a)"
  shows "logs_only P (prog_bind m f)"
  unfolding logs_only_def
proof (intro allI impI)
  fix w r w'
  assume run: "prog_bind m f w = (r, w')"
  obtain r1 w1 where m: "m w = (r1, w1)" by force
  with assms(1) obtain new1 where new1: "w_log w1 = w_log w @ new1" "list_all P new1"
    unfolding logs_only_def by blast
  show "\<exists>new. w_log w' = w_log w @ new \<and> list_all P new"
  proof (cases r1)
    case (Inl e)
    with run m new1 show ?thesis by auto
  next
    case (Inr a)
    with run m have "f a w1 = (r, w')" by simp
    with assms(2) [of w a w1] m Inr obtain new2 where "w_log w' = w_log w1 @ new2" "list_all P new2"
      unfolding logs_only_def by blast
    with new1 show ?thesis by (auto intro!: exI [of _ "new1 @ new2"])
  qed
qed

lemma logs_only_run_checked [logging]:
  "P args \<Longrightarrow> logs_only P (run_checked S cfg repo args extra ol st ok)"
  unfolding logs_only_def using run_checked_log by fastforce

lemma logs_only_receipts [logging]:
  "P (snapshots_args receipt_filter) \<Longrightarrow> logs_only P (completion_receipts S cfg J repo)"
  unfolding completion_receipts_def raw_snapshots_def
  by (intro logs_only_bind) (auto intro: logging)

lemma logs_only_prune [logging]: "P [''prune''] \<Longrightarrow> logs_only P (prune S cfg repo)"
  unfolding prune_def by (intro logs_only_bind) (auto intro: logging)

lemma logs_only_forget_snapshots [logging]:
  assumes "ids \<noteq> [] \<Longrightarrow> \<forall>i \<in> set ids. validate_snapshot_id i = Inr () \<and> i \<noteq> ''latest'' \<Longrightarrow> P (''forget'' # ids)"
  shows "logs_only P (forget_snapshots S cfg repo ids)"
  unfolding forget_snapshots_def
  using assms by (auto intro!: logs_only_bind logging dest!: named_ids_eq)

lemma forget_args_dry: "forget_args spec = Inr args \<Longrightarrow> fs_dry_run spec \<Longrightarrow> ''--dry-run'' \<in> set args"
  by (auto simp: forget_args_def res_bind_eq_Inr Let_def split: if_splits)

definition deletes :: "string list \<Rightarrow> bool" where
  "deletes args \<longleftrightarrow> hd args = ''forget'' \<and> ''--dry-run'' \<notin> set args"

lemma not_deletes [simp]:
  "\<not> deletes (snapshots_args flt)" "\<not> deletes [''prune'']"
  by (simp_all add: deletes_def snapshots_args_def)

lemma logs_only_preview [logging]:
  assumes "\<And>args. \<not> deletes args \<Longrightarrow> P args"
  shows "logs_only P (preview_groups S cfg J repo spec)"
proof -
  have "\<not> deletes args" if "forget_args (preview_spec spec) = Inr args" for args
    using forget_args_dry [OF that] by (simp add: preview_spec_def deletes_def)
  with assms show ?thesis
    unfolding preview_groups_def
    by (auto intro!: logs_only_bind logging)
qed

lemma logs_only_forget_planned:
  assumes nd: "\<And>args. \<not> deletes args \<Longrightarrow> P args"
    and del: "\<And>groups w0 w1 w2 completed w3 safe remove.
      preview_groups S cfg J repo spec w0 = (Inr (Some groups), w1) \<Longrightarrow>
      (if list_ex awaits_receipt (all_snapshots groups)
       then completion_receipts S cfg J repo else prog_return []) w2 = (Inr completed, w3) \<Longrightarrow>
      safe_loop spec completed groups [] [] = (safe, remove) \<Longrightarrow> \<not> fs_dry_run spec \<Longrightarrow> remove \<noteq> [] \<Longrightarrow>
      \<forall>i \<in> set remove. validate_snapshot_id i = Inr () \<and> i \<noteq> ''latest'' \<Longrightarrow> P (''forget'' # remove)"
  shows "logs_only P (forget_planned S cfg J repo spec)"
  unfolding forget_planned_def
proof (rule logs_only_bind [OF logging(3)], rule logs_only_bind)
  show "logs_only P (preview_groups S cfg J repo spec)"
    using nd by (rule logs_only_preview)
next
  fix w0 preview w1
  assume p: "preview_groups S cfg J repo spec w0 = (Inr preview, w1)"
  let ?receipts = "\<lambda>groups. if list_ex awaits_receipt (all_snapshots groups)
    then completion_receipts S cfg J repo else prog_return []"
  show "logs_only P (case preview of None \<Rightarrow> prog_return empty_plan
     | Some groups \<Rightarrow> prog_bind (?receipts groups) (\<lambda>completed.
         case safe_loop spec completed groups [] [] of (safe, remove) \<Rightarrow>
           prog_bind (prog_lift (js_encode_groups J safe)) (\<lambda>encoded.
           prog_bind (prog_lift (parse_forget_plan J encoded)) (\<lambda>plan.
           prog_bind (carry_out S cfg repo spec remove) (\<lambda>_. prog_return plan)))))"
  proof (cases preview)
    case None
    then show ?thesis by (simp add: logging)
  next
    case (Some groups)
    have "logs_only P (?receipts groups)"
      using nd by (simp add: logging)
    moreover have "logs_only P (case safe_loop spec completed groups [] [] of (safe, remove) \<Rightarrow>
           prog_bind (prog_lift (js_encode_groups J safe)) (\<lambda>encoded.
           prog_bind (prog_lift (parse_forget_plan J encoded)) (\<lambda>plan.
           prog_bind (carry_out S cfg repo spec remove) (\<lambda>_. prog_return plan))))"
      if c: "?receipts groups w2 = (Inr completed, w3)" for w2 completed w3
    proof -
      obtain safe remove where safe: "safe_loop spec completed groups [] [] = (safe, remove)" by force
      from del [OF p [unfolded Some] c safe] have "logs_only P (carry_out S cfg repo spec remove)"
        using nd by (auto simp: carry_out_def intro!: logs_only_bind logging)
      then show ?thesis
        by (simp add: safe) (intro logs_only_bind logging)
    qed
    ultimately show ?thesis
      unfolding Some option.case by (rule logs_only_bind)
  qed
qed

definition example_groups :: "retention_group list" where
  "example_groups = [\<lparr>rg_host = ''cp1'', rg_tags = [''account:bob''],
     rg_keep = [example_snapshot ''9999abcd'' []], rg_remove = [example_snapshot ''0123abcd'' []],
     rg_protected = False\<rparr>]"

definition retention_codec :: json_codec where
  "retention_codec = (example_codec [])\<lparr>js_groups := (\<lambda>_. Inr example_groups),
     js_encode_groups := (\<lambda>gs. if gs = example_groups then Inr ''[]'' else Inl ErrNotFound)\<rparr>"

definition keep_one :: forget_spec where
  "keep_one = \<lparr>fs_protected = [], fs_keep_last = 1, fs_keep_daily = 0, fs_keep_weekly = 0,
     fs_keep_monthly = 0, fs_keep_yearly = 0, fs_tags = [], fs_group_by = [], fs_prune = True,
     fs_dry_run = False\<rparr>"

lemma example_retention_runs:
  "\<exists>plan w'. forget_planned (reply_sys (\<lambda>_. ''[]'')) example_config retention_codec (example_repo ''cp1'')
     keep_one w = (Inr plan, w') \<and> fp_removed plan = 1"
proof -
  let ?S = "reply_sys (\<lambda>_. ''[]'')" and ?R = "example_repo ''cp1''"
  have trim: "trim_space ''[]'' = ''[]''" by code_simp
  have codec: "js_groups retention_codec b = Inr example_groups" for b
    by (simp add: retention_codec_def)
  have parse: "parse_forget_plan retention_codec ''[]'' = Inr (plan_of example_groups)"
    by (simp add: parse_forget_plan_def trim retention_codec_def)
  obtain args where args: "forget_args (preview_spec keep_one) = Inr args" "\<exists>a. forget_args keep_one = Inr a"
    by (simp add: forget_args_def keeps_def keep_one_def preview_spec_def Let_def)
  obtain w1 where w1: "preview_groups ?S example_config retention_codec ?R keep_one w = (Inr (Some example_groups), w1)"
    using reply_run [of "\<lambda>_. ''[]''" "''cp1''" args False False False w]
    by (auto simp: preview_groups_def args(1) parse trim codec)
  have none: "\<not> list_ex awaits_receipt (all_snapshots example_groups)"
    by (simp add: all_snapshots_def example_groups_def awaits_receipt_def example_snapshot_def)
  have safe: "safe_loop keep_one [] example_groups [] [] = (example_groups, [''0123abcd''])"
    by (simp add: example_groups_def settle_group_def untouchable_def awaits_receipt_def keep_one_def
        example_snapshot_def completion_receipt_tag_def)
  have v: "validate_snapshot_id ''0123abcd'' = Inr ()"
    by (simp add: validate_snapshot_id_iff is_hex_def is_digit_def)
  obtain w2 where w2: "run_checked ?S example_config ?R [''forget'', ''0123abcd''] no_secondary False False False w1
      = (Inr \<lparr>cr_stdout = ''[]'', cr_stderr = [], cr_exit_code = 0, cr_truncated = False\<rparr>, w2)"
    using reply_run [of "\<lambda>_. ''[]''"] by blast
  obtain w3 where w3: "run_checked ?S example_config ?R [''prune''] no_secondary False False False w2
      = (Inr \<lparr>cr_stdout = ''[]'', cr_stderr = [], cr_exit_code = 0, cr_truncated = False\<rparr>, w3)"
    using reply_run [of "\<lambda>_. ''[]''"] by blast
  have "carry_out ?S example_config ?R keep_one [''0123abcd''] w1 = (Inr (), w3)"
    using w2 w3 by (simp add: carry_out_def forget_snapshots_def prune_def v keep_one_def)
  moreover have "js_encode_groups retention_codec example_groups = Inr ''[]''"
    by (simp add: retention_codec_def)
  ultimately have "forget_planned ?S example_config retention_codec ?R keep_one w = (Inr (plan_of example_groups), w3)"
    using args(2) w1 none safe parse by (auto simp: forget_planned_def)
  moreover have "fp_removed (plan_of example_groups) = 1"
    by (simp add: example_groups_def)
  ultimately show ?thesis by blast
qed



section \<open>What the plan says happened\<close>

text \<open>
  What the code relies on \<open>encoding/json\<close> for: groups put together from the hosts, tags and
  snapshots of groups that were read, once they could be written, read back as themselves; and
  an array is never written as an empty text, with white space around it or with a brace first.
\<close>

definition rearranged :: "retention_group list \<Rightarrow> retention_group list \<Rightarrow> bool" where
  "rearranged gs0 gs \<longleftrightarrow>
     (\<forall>g \<in> set gs. \<exists>g0 \<in> set gs0. rg_host g = rg_host g0 \<and> rg_tags g = rg_tags g0 \<and>
        set (rg_keep g @ rg_remove g) \<subseteq> set (rg_keep g0 @ rg_remove g0))"

definition codec_ok :: "json_codec \<Rightarrow> bool" where
  "codec_ok J \<longleftrightarrow> (\<forall>raw gs0 gs s. js_groups J raw = Inr gs0 \<and> rearranged gs0 gs \<and>
     js_encode_groups J gs = Inr s \<longrightarrow>
     s \<noteq> [] \<and> trim_space s = s \<and> hd s \<noteq> CHR ''{'' \<and> js_groups J s = Inr gs)"

lemma settle_group_facts:
  "rg_host (settle_group spec completed g) = rg_host g"
  "rg_tags (settle_group spec completed g) = rg_tags g"
  "rg_keep (settle_group spec completed g) @ rg_remove (settle_group spec completed g) =
     rg_keep g @ rg_remove g"
  by (simp_all add: settle_group_def Let_def)

lemma safe_groups_rearranged:
  assumes "safe_loop spec completed gs [] [] = (safe, remove)"
  shows "rearranged gs safe"
  unfolding rearranged_def
proof
  fix g assume "g \<in> set safe"
  with assms obtain g0 where "g0 \<in> set gs" "g = settle_group spec completed g0"
    by (auto simp: safe_loop_eq)
  then show "\<exists>g0 \<in> set gs. rg_host g = rg_host g0 \<and> rg_tags g = rg_tags g0 \<and>
      set (rg_keep g @ rg_remove g) \<subseteq> set (rg_keep g0 @ rg_remove g0)"
    by (metis settle_group_facts order_refl)
qed

lemma plan_of_encoded:
  assumes "codec_ok J" "js_groups J raw = Inr gs0" "rearranged gs0 gs"
    "js_encode_groups J gs = Inr s" "parse_forget_plan J s = Inr plan"
  shows "fp_removed plan = (\<Sum>g\<leftarrow>gs. length (rg_remove g))"
proof -
  from assms(1-4) have "s \<noteq> []" "trim_space s = s" "hd s \<noteq> CHR ''{''" "js_groups J s = Inr gs"
    unfolding codec_ok_def by blast+
  with assms(5) have "plan = plan_of gs"
    by (auto simp: parse_forget_plan_def Let_def)
  then show ?thesis by simp
qed

lemma carry_out_ok:
  assumes "carry_out S cfg repo spec remove w = (Inr u, w')"
  shows "if fs_dry_run spec \<or> remove = [] then w' = w
    else w_log w' = w_log w @ (''forget'' # remove) # (if fs_prune spec then [[''prune'']] else [])"
  using assms
  by (auto simp: carry_out_def forget_snapshots_def prune_def prog_bind_eq_Inr
      dest!: run_checked_ok named_ids_eq split: if_splits)

text \<open>
  The count an operator is shown is the count of snapshots that went. When a retention run
  succeeds there is a list of ids, as many as the returned plan gives as removed, and the run
  deleted exactly those in one command, followed by a prune when that was asked for. A dry run,
  or a plan that removes nothing, came with no deleting command and no prune at all.
\<close>

theorem retention_plan_counts_deletions:
  assumes "codec_ok J" "forget_planned S cfg J repo spec w = (Inr plan, w')"
  shows "\<exists>before ids. w_log w' = w_log w @ before
      @ (if fs_dry_run spec \<or> ids = [] then []
         else (''forget'' # ids) # (if fs_prune spec then [[''prune'']] else []))
    \<and> list_all (\<lambda>a. \<not> deletes a) before \<and> fp_removed plan = length ids"
proof -
  have front: "\<exists>new. w_log v = w_log u @ new \<and> list_all (\<lambda>a. \<not> deletes a) new"
    if "logs_only (\<lambda>a. \<not> deletes a) m" "m u = (r, v)" for m u r v
    using that unfolding logs_only_def by blast
  from assms(2) obtain preview w1 where
    p: "preview_groups S cfg J repo spec w = (Inr preview, w1)" and
    rest: "(case preview of None \<Rightarrow> prog_return empty_plan | Some groups \<Rightarrow>
      prog_bind (if list_ex awaits_receipt (all_snapshots groups)
          then completion_receipts S cfg J repo else prog_return []) (\<lambda>completed.
        case safe_loop spec completed groups [] [] of (safe, remove) \<Rightarrow>
          prog_bind (prog_lift (js_encode_groups J safe)) (\<lambda>encoded.
          prog_bind (prog_lift (parse_forget_plan J encoded)) (\<lambda>plan.
          prog_bind (carry_out S cfg repo spec remove) (\<lambda>_. prog_return plan))))) w1 = (Inr plan, w')"
    by (auto simp: forget_planned_def prog_bind_eq_Inr)
  from front [OF logs_only_preview p]
  obtain new1 where new1: "w_log w1 = w_log w @ new1" "list_all (\<lambda>a. \<not> deletes a) new1" by blast
  show ?thesis
  proof (cases preview)
    case None
    with rest new1 show ?thesis
      by (intro exI [of _ new1] exI [of _ "[]"]) (auto simp: empty_plan_def)
  next
    case (Some groups)
    from p Some obtain raw where raw: "js_groups J raw = Inr groups"
      by (auto simp: preview_groups_def prog_bind_eq_Inr split: if_splits)
    from rest Some obtain completed w2 s where
      c: "(if list_ex awaits_receipt (all_snapshots groups)
          then completion_receipts S cfg J repo else prog_return []) w1 = (Inr completed, w2)" and
      enc': "js_encode_groups J (fst (safe_loop spec completed groups [] [])) = Inr s"
        "parse_forget_plan J s = Inr plan" and
      out': "carry_out S cfg repo spec (snd (safe_loop spec completed groups [] [])) w2 = (Inr (), w')"
      by (auto simp: prog_bind_eq_Inr case_prod_unfold)
    obtain safe remove where safe: "safe_loop spec completed groups [] [] = (safe, remove)" by force
    note enc = enc' [unfolded safe fst_conv] and out = out' [unfolded safe snd_conv]
    have "logs_only (\<lambda>a. \<not> deletes a) (if list_ex awaits_receipt (all_snapshots groups)
          then completion_receipts S cfg J repo else prog_return [])"
      by (simp add: logging)
    from front [OF this c]
    obtain new2 where new2: "w_log w2 = w_log w1 @ new2" "list_all (\<lambda>a. \<not> deletes a) new2" by blast
    from plan_of_encoded [OF assms(1) raw safe_groups_rearranged [OF safe] enc] removed_count [OF safe]
    have count: "fp_removed plan = length remove" by simp
    from carry_out_ok [OF out] new1 new2 count show ?thesis
      by (intro exI [of _ "new1 @ new2"] exI [of _ remove]) (auto split: if_splits)
  qed
qed

theorem retention_plan_counts_deletions_witness:
  "\<exists>before i. w_log (snd (forget_planned (reply_sys (\<lambda>_. ''[]'')) example_config retention_codec
       (example_repo ''cp1'') keep_one example_world)) = before @ [[''forget'', i], [''prune'']]"
proof -
  have codec: "codec_ok retention_codec"
  proof -
    have "trim_space ''[]'' = ''[]''" by code_simp
    then show ?thesis by (simp add: codec_ok_def retention_codec_def)
  qed
  from example_retention_runs obtain plan w' where
    run: "forget_planned (reply_sys (\<lambda>_. ''[]'')) example_config retention_codec (example_repo ''cp1'')
       keep_one example_world = (Inr plan, w')" "fp_removed plan = 1" by blast
  from retention_plan_counts_deletions [OF codec run(1)] run(2)
  obtain before ids where *: "w_log w' = w_log example_world @ before
      @ (if fs_dry_run keep_one \<or> ids = [] then []
         else (''forget'' # ids) # (if fs_prune keep_one then [[''prune'']] else []))" "length ids = 1"
    by auto
  then obtain i where "ids = [i]" by (auto simp: length_Suc_conv)
  with * run(1) show ?thesis by (auto simp: keep_one_def example_world_def)
qed

end
