(* ===== verification/Target_Parse.thy ===== *)
theory Target_Parse
  imports Destinations
begin

text \<open>
  A destination written as one line: \<open>internal/destination/parse.go\<close>.
\<close>

datatype dtype = TypeLocal | TypeSFTP | TypeREST | TypeS3 | TypeOther string

record target =
  t_type :: dtype
  t_config :: gomap
  t_repository :: string

definition mk_target :: "dtype \<Rightarrow> gomap \<Rightarrow> target" where
  "mk_target ty cfg = \<lparr>t_type = ty, t_config = cfg, t_repository = []\<rparr>"

definition parse_s3 :: "string \<Rightarrow> target res" where
  "parse_s3 line =
     (case cut_at CHR ''/'' (trim_prefix line ''s3://'') of (bucket, folder, _) \<Rightarrow>
        if bucket = [] then Inl (ErrMsg ''destination: names no bucket'' [line])
        else Inr \<lparr>t_type = TypeS3, t_config = [(''bucket'', bucket)],
                  t_repository = trim_both CHR ''/'' folder\<rparr>)"

text \<open>
  \<open>splitHostPort\<close> of \<open>net/url\<close>, which \<open>Hostname\<close> and \<open>Port\<close> read off the parsed host: a port
  is what follows the last colon when it is digits only, brackets around a host are dropped.
\<close>

definition split_host_port :: "string \<Rightarrow> string \<times> string" where
  "split_host_port hp =
     (let (host, port) =
        (case last_index_of CHR '':'' hp of
           None \<Rightarrow> (hp, [])
         | Some i \<Rightarrow> if list_all is_digit (drop (i + 1) hp) then (take i hp, drop (i + 1) hp)
                     else (hp, []))
      in (if has_prefix host ''['' \<and> has_suffix host '']'' then butlast (tl host) else host, port))"

definition parse_sftp_url :: "net_api \<Rightarrow> string \<Rightarrow> target res" where
  "parse_sftp_url N line =
     (case na_parse N line of
        Inl e \<Rightarrow> Inl (ErrWrap ''destination: is not a usable address'' e)
      | Inr parsed \<Rightarrow>
          (case u_user parsed of
             None \<Rightarrow> Inl (ErrMsg ''destination: does not say which user to log in as'' [line])
           | Some user \<Rightarrow>
               if user = [] then Inl (ErrMsg ''destination: does not say which user to log in as'' [line])
               else
                 let (host, port) = split_host_port (u_host parsed);
                     root = path_clean (''/'' @ trim_prefix (u_path parsed) ''/'');
                     config = [(''host'', host), (''user'', user), (''root'', root)]
                 in if port \<noteq> [] \<and> atoi port = None
                    then Inl (ErrMsg ''destination: is not a port'' [port])
                    else let config = (if port \<noteq> [] then gm_put ''port'' port config else config) in
                      if root = ''/''
                      then Inl (ErrMsg ''destination: does not say where on that server to write'' [line])
                      else Inr (mk_target TypeSFTP config)))"

definition parse_scp :: "string \<Rightarrow> target res" where
  "parse_scp line =
     (case cut_at CHR ''@'' line of (user, rest, _) \<Rightarrow>
        if user = [] then Inl (ErrMsg ''destination: does not say which user to log in as'' [line])
        else case cut_at CHR '':'' rest of (host, location, found) \<Rightarrow>
          if \<not> found \<or> host = []
          then Inl (ErrMsg ''destination: does not say where on that server to write'' [line])
          else
            let config = [(''host'', host), (''user'', user)] in
            case cut_at CHR '':'' location of (port, remainder, ok) \<Rightarrow>
              if ok \<and> atoi port = None then Inl (ErrMsg ''destination: is not a port'' [port])
              else
                let config = (if ok then gm_put ''port'' port config else config);
                    location = (if ok then remainder else location)
                in if location = []
                   then Inl (ErrMsg ''destination: does not say where on that server to write'' [line])
                   else
                     let root = (if \<not> has_prefix location ''/'' then location else path_clean location);
                         config = gm_put ''root'' root config
                     in if root = ''/''
                        then Inl (ErrMsg ''destination: writes to the root of that server'' [line])
                        else Inr (mk_target TypeSFTP config))"

definition parse_target :: "net_api \<Rightarrow> string \<Rightarrow> target res" where
  "parse_target N raw =
     (let line = trim_space raw in
      if line = [] then Inl (ErrMsg ''destination: nothing to read'' [])
      else if has_prefix line ''/'' then Inr (mk_target TypeLocal [(''root'', path_clean line)])
      else if has_prefix line ''s3://'' then parse_s3 line
      else if has_prefix line ''https://''
        then Inr (mk_target TypeREST [(''base_url'', trim_right CHR ''/'' line)])
      else if has_prefix line ''http://'' then Inl (ErrMsg ''destination: is not https'' [line])
      else if has_prefix line ''sftp://'' \<or> has_prefix line ''ssh://'' then parse_sftp_url N line
      else if CHR ''@'' \<in> set line \<and> CHR '':'' \<in> set line then parse_scp line
      else Inl (ErrMsg ''destination: is not a destination this understands'' [line]))"

lemma parse_scp_config:
  assumes "parse_scp line = Inr t"
  shows "t_type t = TypeSFTP" "gm_get (t_config t) ''host'' \<noteq> []" "gm_get (t_config t) ''user'' \<noteq> []"
    "gm_get (t_config t) ''root'' \<noteq> []" "gm_get (t_config t) ''root'' \<noteq> ''/''"
  using assms
  by (auto simp: parse_scp_def mk_target_def gm_get_def gm_put_def Let_def path_clean_def
      split: if_splits prod.splits)

lemma parse_sftp_url_config:
  assumes "parse_sftp_url N line = Inr t"
  shows "t_type t = TypeSFTP" "gm_get (t_config t) ''user'' \<noteq> []"
    "has_prefix (gm_get (t_config t) ''root'') ''/''" "gm_get (t_config t) ''root'' \<noteq> ''/''"
  using assms
  by (auto simp: parse_sftp_url_def mk_target_def gm_get_def gm_put_def Let_def path_clean_def
      split: if_splits prod.splits option.splits sum.splits)

text \<open>
  C0. A line that is accepted says where the backups go: an SFTP target always names a user and
  a directory other than the server's root, a REST target always begins with \<open>https://\<close> as far
  as its scheme, an S3 target always names a bucket and a local one an absolute path. A plain
  \<open>http://\<close> line is never accepted as any of them.
\<close>

theorem parse_target_complete:
  assumes "parse_target N raw = Inr t"
  shows "(case t_type t of
            TypeSFTP \<Rightarrow> gm_get (t_config t) ''user'' \<noteq> [] \<and> gm_get (t_config t) ''root'' \<noteq> []
                        \<and> gm_get (t_config t) ''root'' \<noteq> ''/''
          | TypeREST \<Rightarrow> has_prefix (gm_get (t_config t) ''base_url'') ''https:''
          | TypeS3 \<Rightarrow> gm_get (t_config t) ''bucket'' \<noteq> []
          | TypeLocal \<Rightarrow> has_prefix (gm_get (t_config t) ''root'') ''/''
          | TypeOther _ \<Rightarrow> False)
         \<and> \<not> has_prefix (trim_space raw) ''http://''"
proof -
  let ?l = "trim_space raw"
  have rest: "has_prefix (trim_right CHR ''/'' ?l) ''https:''" if h: "has_prefix ?l ''https://''"
  proof -
    from h obtain s where l: "?l = ''https://'' @ s" by (auto simp: has_prefix_iff)
    have "\<exists>x. trim_right CHR ''/'' (''https:'' @ y) = ''https:'' @ x" for y
      by (simp add: trim_right_def dropWhile_append) (metis rev_rev_ident)
    from this [of "''//'' @ s"] show ?thesis unfolding l by (auto simp: has_prefix_def)
  qed
  have excl: "\<not> has_prefix ?l ''http://''"
    if "has_prefix ?l p" "p \<in> {''/'', ''s3://'', ''https://'', ''sftp://'', ''ssh://''}" for p
    using that by (auto simp: has_prefix_iff)
  have "\<not> has_prefix ?l ''http://''"
    using assms excl by (auto simp: parse_target_def Let_def split: if_splits)
  with assms rest show ?thesis
    using parse_scp_config [of ?l t] parse_sftp_url_config [of N ?l t]
    by (auto simp: parse_target_def parse_s3_def mk_target_def gm_get_def path_clean_def Let_def
        split: if_splits prod.splits)
qed

theorem parse_target_complete_witness:
  "gm_get [(''host'', ''h''), (''user'', ''u''), (''port'', ''2222''), (''root'', ''/b'')] ''root'' = ''/b''"
proof -
  let ?N = "\<lparr>na_is_ipv6 = (\<lambda>_. False), na_parse = (\<lambda>_. Inl ErrNotFound), na_string = u_host\<rparr>"
  let ?cfg = "[(''host'', ''h''), (''user'', ''u''), (''port'', ''2222''), (''root'', ''/b'')]"
  have tr: "trim_space ''u@h:2222:/x/../b/'' = ''u@h:2222:/x/../b/''" by code_simp
  have scp: "parse_scp ''u@h:2222:/x/../b/'' = Inr (mk_target TypeSFTP ?cfg)" by code_simp
  have "parse_target ?N ''u@h:2222:/x/../b/'' = Inr (mk_target TypeSFTP ?cfg)"
    using scp by (simp add: parse_target_def tr Let_def)
  from parse_target_complete [OF this] show ?thesis by (simp add: mk_target_def gm_get_def)
qed

text \<open>
  C0. The scp shape is read the way ssh reads it: \<open>user@host:/path\<close> gives back exactly that user
  and host and the cleaned path, and with \<open>:port\<close> in front of the path also that port, for every
  decimal port number.
\<close>

theorem parse_scp_roundtrip:
  assumes "user \<noteq> []" "CHR ''@'' \<notin> set user" "host \<noteq> []" "CHR '':'' \<notin> set host"
    and "CHR '':'' \<notin> set path" "has_prefix path ''/''" "path_clean path \<noteq> ''/''"
    and "0 \<le> port" "port < 2 ^ 63"
  shows "parse_scp (user @ ''@'' @ host @ '':'' @ path) =
           Inr (mk_target TypeSFTP [(''host'', host), (''user'', user), (''root'', path_clean path)])
       \<and> parse_scp (user @ ''@'' @ host @ '':'' @ itoa port @ '':'' @ path) =
           Inr (mk_target TypeSFTP [(''host'', host), (''user'', user), (''port'', itoa port),
                                    (''root'', path_clean path)])"
proof -
  have digits: "CHR '':'' \<notin> set (itoa port)"
    using nat_str_digits [of "nat port"] assms(8)
    by (auto simp: itoa_def list_all_iff is_digit_def)
  have port: "atoi (itoa port) = Some port"
    using assms(8,9) by (intro atoi_itoa) simp_all
  have path: "path \<noteq> []" using assms(6) by auto
  have c1: "cut_at CHR ''@'' (user @ CHR ''@'' # y) = (user, y, True)" for y
    using assms(2) by (rule cut_at_append)
  have c2: "cut_at CHR '':'' (host @ CHR '':'' # y) = (host, y, True)" for y
    using assms(4) by (rule cut_at_append)
  have c3: "cut_at CHR '':'' (itoa port @ CHR '':'' # y) = (itoa port, y, True)" for y
    using digits by (rule cut_at_append)
  show ?thesis
    using assms path
    by (simp add: parse_scp_def c1 c2 c3 cut_at_none port gm_put_def Let_def)
qed

theorem parse_scp_roundtrip_witness:
  "parse_scp (''cp'' @ ''@'' @ ''b.example'' @ '':'' @ itoa 2222 @ '':'' @ ''/backups'') =
     Inr (mk_target TypeSFTP [(''host'', ''b.example''), (''user'', ''cp''), (''port'', itoa 2222),
                              (''root'', ''/backups'')])"
proof -
  have clean: "path_clean ''/backups'' = ''/backups''" by code_simp
  show ?thesis
    using parse_scp_roundtrip [of "''cp''" "''b.example''" "''/backups''" 2222] by (simp add: clean)
qed

text \<open>
  C0. The one-line form and the destination disagree about a relative location. For
  \<open>user@host:backups\<close> the parser accepts the line and keeps the location relative to the login
  directory, as its comment says the operator meant; but no SFTP destination with that root
  validates, so a target that was accepted can never be used.
\<close>

theorem relative_scp_target_unusable:
  assumes "user \<noteq> []" "CHR ''@'' \<notin> set user" "host \<noteq> []" "CHR '':'' \<notin> set host"
    and "CHR '':'' \<notin> set loc" "loc \<noteq> []" "\<not> has_prefix loc ''/''"
  shows "(\<exists>t. parse_scp (user @ ''@'' @ host @ '':'' @ loc) = Inr t
            \<and> gm_get (t_config t) ''root'' = loc)
       \<and> (\<forall>s. s_root s = loc \<longrightarrow> (\<exists>e. sftp_validate s = Inl e))"
proof -
  have c1: "cut_at CHR ''@'' (user @ CHR ''@'' # y) = (user, y, True)" for y
    using assms(2) by (rule cut_at_append)
  have c2: "cut_at CHR '':'' (host @ CHR '':'' # y) = (host, y, True)" for y
    using assms(4) by (rule cut_at_append)
  have "loc \<noteq> ''/''" using assms(7) by auto
  then have "parse_scp (user @ ''@'' @ host @ '':'' @ loc) =
      Inr (mk_target TypeSFTP [(''host'', host), (''user'', user), (''root'', loc)])"
    using assms by (simp add: parse_scp_def c1 c2 cut_at_none gm_put_def Let_def)
  moreover have "\<exists>e. sftp_validate s = Inl e" if "s_root s = loc" for s
    using that assms(7) by (simp add: sftp_validate_def)
  ultimately show ?thesis by (auto simp: mk_target_def gm_get_def)
qed

theorem relative_scp_target_unusable_witness:
  "\<exists>t. parse_scp (''cp'' @ ''@'' @ ''host'' @ '':'' @ ''backups'') = Inr t
     \<and> gm_get (t_config t) ''root'' = ''backups''"
  using relative_scp_target_unusable [of "''cp''" "''host''" "''backups''"] by simp

end
