(* ===== verification/Spec_Build.thy ===== *)
theory Spec_Build
  imports Target_Parse
begin

text \<open>
  A stored destination turned into a usable one: \<open>internal/destination/build.go\<close>. The reader
  that collects every problem before failing is a record passed through the calls, in the
  order in which Go evaluates the fields of the composite literal.
\<close>

record dest_spec =
  ds_type :: dtype
  ds_config :: gomap
  ds_secrets :: gomap

record spec_reader =
  rd_spec :: dest_spec
  rd_problems :: "string list"
  rd_used :: "string list"

definition mark_used :: "string \<Rightarrow> spec_reader \<Rightarrow> spec_reader" where
  "mark_used key r = r\<lparr>rd_used := List.insert key (rd_used r)\<rparr>"

definition add_problem :: "string \<Rightarrow> spec_reader \<Rightarrow> spec_reader" where
  "add_problem p r = r\<lparr>rd_problems := rd_problems r @ [p]\<rparr>"

definition quoted :: "string \<Rightarrow> string" where
  "quoted s = [CHR 34] @ s @ [CHR 34]"

definition read_config :: "string \<Rightarrow> bool \<Rightarrow> spec_reader \<Rightarrow> string \<times> spec_reader" where
  "read_config key required r0 =
     (let r = mark_used key r0;
          value = gm_get (ds_config (rd_spec r)) key;
          present = (map_of (ds_config (rd_spec r)) key \<noteq> None)
      in (value,
          if required \<and> value = [] then
            if present then add_problem (''config '' @ quoted key @ '' is empty'') r
            else add_problem (''config '' @ quoted key @ '' is required'') r
          else r))"

definition read_secret :: "string \<Rightarrow> bool \<Rightarrow> spec_reader \<Rightarrow> string \<times> spec_reader" where
  "read_secret key required r =
     (let value = gm_get (ds_secrets (rd_spec r)) key
      in (value, if required \<and> value = []
                 then add_problem (''secret '' @ quoted key @ '' is required'') r else r))"

definition int_config :: "string \<Rightarrow> spec_reader \<Rightarrow> int \<times> spec_reader" where
  "int_config key r0 =
     (let r = mark_used key r0; raw = gm_get (ds_config (rd_spec r)) key
      in if raw = [] then (0, r)
         else case atoi raw of
           None \<Rightarrow> (0, add_problem (''config '' @ quoted key @ '' must be a number, got '' @ quoted raw) r)
         | Some value \<Rightarrow> (value, r))"

text \<open>\<open>strconv.ParseBool\<close>\<close>

definition parse_bool :: "string \<Rightarrow> bool option" where
  "parse_bool s =
     (if s \<in> set [''1'', ''t'', ''T'', ''true'', ''TRUE'', ''True''] then Some True
      else if s \<in> set [''0'', ''f'', ''F'', ''false'', ''FALSE'', ''False''] then Some False
      else None)"

definition bool_config :: "string \<Rightarrow> spec_reader \<Rightarrow> bool \<times> spec_reader" where
  "bool_config key r0 =
     (let r = mark_used key r0; raw = gm_get (ds_config (rd_spec r)) key
      in if raw = [] then (False, r)
         else case parse_bool raw of
           None \<Rightarrow> (False, add_problem (''config '' @ quoted key @ '' must be a boolean, got '' @ quoted raw) r)
         | Some value \<Rightarrow> (value, r))"

definition type_name :: "dtype \<Rightarrow> string" where
  "type_name t = (case t of TypeLocal \<Rightarrow> ''local'' | TypeSFTP \<Rightarrow> ''sftp'' | TypeREST \<Rightarrow> ''rest''
     | TypeS3 \<Rightarrow> ''s3'' | TypeOther s \<Rightarrow> s)"

definition reader_err :: "spec_reader \<Rightarrow> unit res" where
  "reader_err r =
     (let unused = map (\<lambda>(key, _). ''config '' @ quoted key @ '' is not used by a ''
              @ type_name (ds_type (rd_spec r)) @ '' destination'')
            (filter (\<lambda>(key, _). key \<notin> set (rd_used r)) (ds_config (rd_spec r)));
          problems = rd_problems r @ unused
      in if problems = [] then Inr ()
         else Inl (ErrMsg ''destination'' [type_name (ds_type (rd_spec r)), join_with ''; '' problems]))"

definition maintenance_base_url_key :: string where
  "maintenance_base_url_key = ''maintenance_base_url''"

definition read_local :: "spec_reader \<Rightarrow> dest \<times> spec_reader" where
  "read_local r = (let (root, r) = read_config ''root'' True r in (DestLocal \<lparr>l_root = root\<rparr>, r))"

definition read_sftp :: "spec_reader \<Rightarrow> dest \<times> spec_reader" where
  "read_sftp r =
     (let (host, r) = read_config ''host'' True r;
          (port, r) = int_config ''port'' r;
          (user, r) = read_config ''user'' True r;
          (root, r) = read_config ''root'' True r;
          (identity, r) = read_config ''identity_file'' True r;
          (known, r) = read_config ''known_hosts_file'' True r
      in (DestSFTP \<lparr>s_host = host, s_port = port, s_user = user, s_root = root,
                    s_identity_file = identity, s_known_hosts_file = known\<rparr>, r))"

definition read_rest :: "spec_reader \<Rightarrow> dest \<times> spec_reader" where
  "read_rest r =
     (let r = mark_used maintenance_base_url_key r;
          (base, r) = read_config ''base_url'' True r;
          (append_only, r) = bool_config ''append_only'' r;
          (ca, r) = read_config ''ca_bundle'' False r;
          (user, r) = read_secret ''username'' True r;
          (pass, r) = read_secret ''password'' False r
      in (DestREST \<lparr>r_base_url = base, r_username = user, r_password = pass,
                    r_append_only = append_only, r_ca_bundle = ca\<rparr>, r))"

definition read_s3 :: "spec_reader \<Rightarrow> dest \<times> spec_reader" where
  "read_s3 r =
     (let (endpoint, r) = read_config ''endpoint'' False r;
          (region, r) = read_config ''region'' False r;
          (bucket, r) = read_config ''bucket'' True r;
          (key_id, r) = read_secret ''access_key_id'' True r;
          (secret, r) = read_secret ''secret_access_key'' True r;
          (token, r) = read_secret ''session_token'' False r
      in (DestS3 \<lparr>s3_endpoint = endpoint, s3_region = region, s3_bucket = bucket,
                  s3_access_key_id = key_id, s3_secret_access_key = secret,
                  s3_session_token = token\<rparr>, r))"

definition build :: "dest_spec \<Rightarrow> dest res" where
  "build spec =
     (let reader = \<lparr>rd_spec = spec, rd_problems = [], rd_used = []\<rparr>;
          built = (case ds_type spec of
              TypeLocal \<Rightarrow> Inr (read_local reader)
            | TypeSFTP \<Rightarrow> Inr (read_sftp reader)
            | TypeREST \<Rightarrow> Inr (read_rest reader)
            | TypeS3 \<Rightarrow> Inr (read_s3 reader)
            | TypeOther t \<Rightarrow> Inl (ErrUnsupportedType t))
      in res_bind built (\<lambda>(dest, r). res_bind (reader_err r) (\<lambda>_. Inr dest)))"

definition for_maintenance :: "dest_spec \<Rightarrow> dest_spec" where
  "for_maintenance spec =
     (case map_of (ds_config spec) maintenance_base_url_key of
        None \<Rightarrow> spec
      | Some override \<Rightarrow>
          if override = [] then spec
          else spec\<lparr>ds_config := AList.delete ''append_only''
                 (gm_put ''base_url'' override (ds_config spec))\<rparr>)"

section \<open>What a reader has seen\<close>

lemma reader_simps [simp]:
  "rd_spec (mark_used k r) = rd_spec r" "rd_problems (mark_used k r) = rd_problems r"
  "rd_spec (add_problem p r) = rd_spec r" "rd_used (add_problem p r) = rd_used r"
  "rd_problems (add_problem p r) = rd_problems r @ [p]"
  "set (rd_used (mark_used k r)) = insert k (set (rd_used r))"
  by (simp_all add: mark_used_def add_problem_def)

lemmas reader_defs = read_config_def read_secret_def int_config_def bool_config_def

lemma read_config_simps [simp]:
  "fst (read_config k q r) = gm_get (ds_config (rd_spec r)) k"
  "rd_spec (snd (read_config k q r)) = rd_spec r"
  "set (rd_used (snd (read_config k q r))) = insert k (set (rd_used r))"
  "rd_problems (snd (read_config k q r)) = [] \<longleftrightarrow>
     rd_problems r = [] \<and> (q \<longrightarrow> gm_get (ds_config (rd_spec r)) k \<noteq> [])"
  by (simp_all add: read_config_def Let_def)

lemma read_secret_simps [simp]:
  "fst (read_secret k q r) = gm_get (ds_secrets (rd_spec r)) k"
  "rd_spec (snd (read_secret k q r)) = rd_spec r"
  "set (rd_used (snd (read_secret k q r))) = set (rd_used r)"
  "rd_problems (snd (read_secret k q r)) = [] \<longleftrightarrow>
     rd_problems r = [] \<and> (q \<longrightarrow> gm_get (ds_secrets (rd_spec r)) k \<noteq> [])"
  by (simp_all add: read_secret_def Let_def)

lemma int_config_simps [simp]:
  "rd_spec (snd (int_config k r)) = rd_spec r"
  "set (rd_used (snd (int_config k r))) = insert k (set (rd_used r))"
  "rd_problems (snd (int_config k r)) = [] \<longleftrightarrow> rd_problems r = [] \<and>
     (gm_get (ds_config (rd_spec r)) k = [] \<or> atoi (gm_get (ds_config (rd_spec r)) k) \<noteq> None)"
  by (cases "atoi (gm_get (ds_config (rd_spec r)) k)"; simp add: int_config_def Let_def)+

lemma bool_config_simps [simp]:
  "rd_spec (snd (bool_config k r)) = rd_spec r"
  "set (rd_used (snd (bool_config k r))) = insert k (set (rd_used r))"
  "rd_problems (snd (bool_config k r)) = [] \<longleftrightarrow> rd_problems r = [] \<and>
     (gm_get (ds_config (rd_spec r)) k = [] \<or> parse_bool (gm_get (ds_config (rd_spec r)) k) \<noteq> None)"
  by (cases "parse_bool (gm_get (ds_config (rd_spec r)) k)"; simp add: bool_config_def Let_def)+

lemma bool_config_unset: "gm_get (ds_config (rd_spec r)) k = [] \<Longrightarrow> fst (bool_config k r) = False"
  by (simp add: bool_config_def Let_def)

lemma reader_err_Inr:
  "reader_err r = Inr u \<longleftrightarrow>
     rd_problems r = [] \<and> set (map fst (ds_config (rd_spec r))) \<subseteq> set (rd_used r)"
  by (auto simp: reader_err_def Let_def filter_empty_conv)

text \<open>The configuration keys a destination of each type reads, and those it cannot do without.\<close>

fun known_keys :: "dtype \<Rightarrow> string list" where
  "known_keys TypeLocal = [''root'']"
| "known_keys TypeSFTP = [''host'', ''port'', ''user'', ''root'', ''identity_file'', ''known_hosts_file'']"
| "known_keys TypeREST = [''maintenance_base_url'', ''base_url'', ''append_only'', ''ca_bundle'']"
| "known_keys TypeS3 = [''endpoint'', ''region'', ''bucket'']"
| "known_keys (TypeOther _) = []"

fun required_keys :: "dtype \<Rightarrow> string list" where
  "required_keys TypeLocal = [''root'']"
| "required_keys TypeSFTP = [''host'', ''user'', ''root'', ''identity_file'', ''known_hosts_file'']"
| "required_keys TypeREST = [''base_url'']"
| "required_keys TypeS3 = [''bucket'']"
| "required_keys (TypeOther _) = []"

fun required_secrets :: "dtype \<Rightarrow> string list" where
  "required_secrets TypeREST = [''username'']"
| "required_secrets TypeS3 = [''access_key_id'', ''secret_access_key'']"
| "required_secrets _ = []"

text \<open>
  A destination is only built from a configuration that says everything it must and nothing
  it should not: every configured key is one that this type of destination reads, so a typo is
  refused instead of ignored, every required setting and secret is present and not empty, and
  the type is a supported one.
\<close>

theorem build_checks_configuration:
  assumes "build spec = Inr d"
  shows "set (map fst (ds_config spec)) \<subseteq> set (known_keys (ds_type spec))
    \<and> (\<forall>k \<in> set (required_keys (ds_type spec)). gm_get (ds_config spec) k \<noteq> [])
    \<and> (\<forall>k \<in> set (required_secrets (ds_type spec)). gm_get (ds_secrets spec) k \<noteq> [])
    \<and> (\<forall>t. ds_type spec \<noteq> TypeOther t)"
proof (cases "ds_type spec")
  case TypeLocal
  with assms show ?thesis
    by (simp add: build_def read_local_def case_prod_unfold res_bind_eq_Inr reader_err_Inr Let_def)
next
  case TypeSFTP
  with assms show ?thesis
    by (simp add: build_def read_sftp_def case_prod_unfold res_bind_eq_Inr reader_err_Inr Let_def
        insert_commute)
next
  case TypeREST
  with assms show ?thesis
    by (simp add: build_def read_rest_def case_prod_unfold res_bind_eq_Inr reader_err_Inr Let_def
        maintenance_base_url_key_def insert_commute)
next
  case TypeS3
  with assms show ?thesis
    by (simp add: build_def read_s3_def case_prod_unfold res_bind_eq_Inr reader_err_Inr Let_def
        insert_commute)
next
  case (TypeOther t)
  with assms show ?thesis by (simp add: build_def Let_def)
qed

theorem build_checks_configuration_witness:
  "set (map fst [(''root'', ''/mnt/nas'')]) \<subseteq> set (known_keys TypeLocal)
   \<and> gm_get [(''root'', ''/mnt/nas'')] ''root'' \<noteq> []"
proof -
  have "build \<lparr>ds_type = TypeLocal, ds_config = [(''root'', ''/mnt/nas'')], ds_secrets = []\<rparr>
      = Inr (DestLocal \<lparr>l_root = ''/mnt/nas''\<rparr>)"
    by (simp add: build_def read_local_def reader_defs reader_err_def gm_get_def mark_used_def Let_def)
  from build_checks_configuration [OF this] show ?thesis by simp
qed

lemma map_of_for_maintenance:
  "map_of (ds_config spec) maintenance_base_url_key = Some o1 \<Longrightarrow> o1 \<noteq> [] \<Longrightarrow>
     map_of (ds_config (for_maintenance spec)) k =
       (if k = ''append_only'' then None else if k = ''base_url'' then Some o1
        else map_of (ds_config spec) k)"
  by (simp add: for_maintenance_def delete_conv')

text \<open>
  The specification handed to maintenance reaches the endpoint that permits deletes: where a
  REST destination names one, what is built from it has that address and is not marked
  append-only, while the secrets and every other setting are those of the original; where it
  names none the specification is unchanged.
\<close>

theorem maintenance_reaches_deleting_endpoint:
  assumes "ds_type spec = TypeREST" "gm_ok (ds_config spec)"
  shows "(gm_get (ds_config spec) maintenance_base_url_key = [] \<longrightarrow> for_maintenance spec = spec)
    \<and> (\<forall>d. gm_get (ds_config spec) maintenance_base_url_key \<noteq> [] \<and> build (for_maintenance spec) = Inr d \<longrightarrow>
        (\<exists>r. d = DestREST r \<and> r_base_url r = gm_get (ds_config spec) maintenance_base_url_key
           \<and> \<not> r_append_only r \<and> r_ca_bundle r = gm_get (ds_config spec) ''ca_bundle''
           \<and> r_username r = gm_get (ds_secrets spec) ''username''
           \<and> r_password r = gm_get (ds_secrets spec) ''password''))"
proof (intro conjI allI impI)
  assume "gm_get (ds_config spec) maintenance_base_url_key = []"
  then show "for_maintenance spec = spec"
    by (auto simp: for_maintenance_def gm_get_def split: option.splits)
next
  fix d assume h: "gm_get (ds_config spec) maintenance_base_url_key \<noteq> [] \<and> build (for_maintenance spec) = Inr d"
  then obtain o1 where o1: "map_of (ds_config spec) maintenance_base_url_key = Some o1" "o1 \<noteq> []"
    by (auto simp: gm_get_def split: option.splits)
  have get: "gm_get (ds_config (for_maintenance spec)) k =
      (if k = ''append_only'' then [] else if k = ''base_url'' then o1 else gm_get (ds_config spec) k)" for k
    using map_of_for_maintenance [OF o1, of k] by (simp add: gm_get_def)
  have rest: "ds_type (for_maintenance spec) = TypeREST"
    "ds_secrets (for_maintenance spec) = ds_secrets spec"
    using assms(1) by (auto simp: for_maintenance_def split: option.splits)
  have "gm_get (ds_config spec) maintenance_base_url_key = o1"
    using o1(1) by (simp add: gm_get_def)
  moreover have "d = DestREST \<lparr>r_base_url = o1, r_username = gm_get (ds_secrets spec) ''username'',
      r_password = gm_get (ds_secrets spec) ''password'', r_append_only = False,
      r_ca_bundle = gm_get (ds_config spec) ''ca_bundle''\<rparr>"
    using h by (simp add: build_def rest read_rest_def case_prod_unfold res_bind_eq_Inr get
        bool_config_unset Let_def)
  ultimately show "\<exists>r. d = DestREST r \<and> r_base_url r = gm_get (ds_config spec) maintenance_base_url_key
           \<and> \<not> r_append_only r \<and> r_ca_bundle r = gm_get (ds_config spec) ''ca_bundle''
           \<and> r_username r = gm_get (ds_secrets spec) ''username''
           \<and> r_password r = gm_get (ds_secrets spec) ''password''"
    by simp
qed

theorem maintenance_reaches_deleting_endpoint_witness:
  "\<exists>r. DestREST \<lparr>r_base_url = ''https://m:8000'', r_username = ''u'', r_password = ''p'',
                 r_append_only = False, r_ca_bundle = []\<rparr> = DestREST r
     \<and> r_base_url r = ''https://m:8000'' \<and> \<not> r_append_only r"
proof -
  let ?spec = "\<lparr>ds_type = TypeREST, ds_config = [(''base_url'', ''https://a''), (''append_only'', ''true''),
      (''maintenance_base_url'', ''https://m:8000'')], ds_secrets = [(''username'', ''u''), (''password'', ''p'')]\<rparr>"
  have ok: "gm_ok (ds_config ?spec)" "ds_type ?spec = TypeREST"
    by (simp_all add: gm_ok_def)
  have key: "gm_get (ds_config ?spec) maintenance_base_url_key = ''https://m:8000''"
    by (simp add: gm_get_def maintenance_base_url_key_def)
  have "build (for_maintenance ?spec) = Inr (DestREST \<lparr>r_base_url = ''https://m:8000'', r_username = ''u'',
      r_password = ''p'', r_append_only = False, r_ca_bundle = []\<rparr>)"
    by code_simp
  with maintenance_reaches_deleting_endpoint [OF ok(2,1)] key show ?thesis by auto
qed

end
