(* ===== verification/Staging.thy ===== *)
theory Staging
  imports Destinations "HOL-Library.AList"
begin

text \<open>
  Scratch space for account archives: \<open>internal/staging/staging.go\<close>. The file system is a list
  of paths with what is there. Any call of it can fail for reasons of its own; which one does is
  a parameter, and so are the free space and the two floating-point operations of the check.
\<close>

section \<open>The file system\<close>

datatype fnode = FDir instant | FFile "64 word" instant | FOther

type_synonym nodes = "(string \<times> fnode) list"

text \<open>
  \<open>os_fault\<close>: whether a call on a path fails, and how. \<open>os_left\<close>: what a failing \<open>RemoveAll\<close>
  did not get to. \<open>os_statfs\<close>: free blocks and their size. \<open>fl_positive\<close> and \<open>fl_scale\<close>: whether
  the safety margin is above zero, and \<open>uint64(float64(n) * (1 + margin))\<close>.
\<close>

datatype fs_op = OpMkdir | OpReadDir | OpStat | OpRemove | OpRename | OpWalk

record os_api =
  os_fault :: "fs_op \<Rightarrow> string \<Rightarrow> nodes \<Rightarrow> err option"
  os_left :: "string \<Rightarrow> nodes \<Rightarrow> string \<Rightarrow> bool"
  os_statfs :: "string \<Rightarrow> nodes \<Rightarrow> (64 word \<times> 64 word) res"
  os_now :: instant
  fl_positive :: "64 word \<Rightarrow> bool"
  fl_scale :: "64 word \<Rightarrow> 64 word \<Rightarrow> 64 word"

definition guarded :: "os_api \<Rightarrow> fs_op \<Rightarrow> string \<Rightarrow> (nodes, 'a) prog \<Rightarrow> (nodes, 'a) prog" where
  "guarded fs op p m = (\<lambda>d. case os_fault fs op p d of Some e \<Rightarrow> (Inl e, d) | None \<Rightarrow> m d)"

definition fs_mkdir :: "os_api \<Rightarrow> string \<Rightarrow> (nodes, unit) prog" where
  "fs_mkdir fs p = guarded fs OpMkdir p (\<lambda>d.
     if map_of d p \<noteq> None then (Inl (ErrMsg ''file exists'' [p]), d) else (Inr (), (p, FDir (os_now fs)) # d))"

text \<open>\<open>Inr None\<close> is the error for which \<open>os.IsNotExist\<close> holds.\<close>

definition fs_stat :: "os_api \<Rightarrow> string \<Rightarrow> (nodes, fnode option) prog" where
  "fs_stat fs p = guarded fs OpStat p (\<lambda>d. (Inr (map_of d p), d))"

definition fs_remove_all :: "os_api \<Rightarrow> string \<Rightarrow> (nodes, unit) prog" where
  "fs_remove_all fs p = (\<lambda>d. case os_fault fs OpRemove p d of
       Some e \<Rightarrow> (Inl e, filter (\<lambda>(q, n). \<not> lies_under p q \<or> os_left fs p d q) d)
     | None \<Rightarrow> (Inr (), filter (\<lambda>(q, n). \<not> lies_under p q) d))"

definition moved_path :: "string \<Rightarrow> string \<Rightarrow> string \<Rightarrow> string" where
  "moved_path a b q = (if lies_under a q then b @ drop (length a) q else q)"

definition fs_rename :: "os_api \<Rightarrow> string \<Rightarrow> string \<Rightarrow> (nodes, unit) prog" where
  "fs_rename fs a b = guarded fs OpRename a (\<lambda>d.
     if map_of d b \<noteq> None then (Inl (ErrMsg ''file exists'' [b]), d)
     else if map_of d a = None then (Inl (ErrMsg ''no such file or directory'' [a]), d)
     else (Inr (), map (\<lambda>(q, n). (moved_path a b q, n)) d))"

definition dir_prefix :: "string \<Rightarrow> string" where
  "dir_prefix root = (let c = path_clean root in if c = ''/'' then c else c @ ''/'')"

definition is_dir :: "fnode \<Rightarrow> bool" where
  "is_dir n = (case n of FDir _ \<Rightarrow> True | _ \<Rightarrow> False)"

fun children :: "string \<Rightarrow> nodes \<Rightarrow> (string \<times> bool) list" where
  "children pre [] = []"
| "children pre ((p, n) # d) =
     (case cut_prefix p pre of
        Some name \<Rightarrow> if name \<noteq> [] \<and> CHR ''/'' \<notin> set name then (name, is_dir n) # children pre d else children pre d
      | None \<Rightarrow> children pre d)"

text \<open>\<open>os.ReadDir\<close> sorts by name.\<close>

definition fs_readdir :: "os_api \<Rightarrow> string \<Rightarrow> (nodes, (string \<times> bool) list) prog" where
  "fs_readdir fs root = guarded fs OpReadDir root (\<lambda>d.
     (Inr (go_sort (\<lambda>a b. str_less (fst a) (fst b)) (children (dir_prefix root) d)), d))"

definition file_size :: "fnode \<Rightarrow> 64 word" where
  "file_size n = (case n of FFile bytes _ \<Rightarrow> bytes | _ \<Rightarrow> 0)"

definition mod_time :: "fnode \<Rightarrow> instant" where
  "mod_time n = (case n of FDir t \<Rightarrow> t | FFile _ t \<Rightarrow> t | FOther \<Rightarrow> zero_time)"

fun size_below :: "string \<Rightarrow> nodes \<Rightarrow> 64 word" where
  "size_below p [] = 0"
| "size_below p ((q, n) # d) = (if lies_under p q then file_size n else 0) + size_below p d"

definition fs_walk_size :: "os_api \<Rightarrow> string \<Rightarrow> (nodes, 64 word) prog" where
  "fs_walk_size fs p = guarded fs OpWalk p (\<lambda>d. (Inr (size_below p d), d))"

section \<open>The manager\<close>

record manager =
  mg_root :: string
  mg_margin :: "64 word"
  mg_max :: int

record dir =
  sd_path :: string
  sd_retained :: bool
  sd_key :: string

record staged_output =
  ou_dir :: dir
  ou_bytes :: "64 word"
  ou_at :: instant

definition stage_prefix :: string where "stage_prefix = ''stage-''"
definition keep_prefix :: string where "keep_prefix = ''keep-''"

definition key_char :: "char \<Rightarrow> bool" where
  "key_char c \<longleftrightarrow>
     char_in CHR ''a'' CHR ''z'' c \<or> char_in CHR ''A'' CHR ''Z'' c \<or> char_in CHR ''0'' CHR ''9'' c
     \<or> c = CHR ''-'' \<or> c = CHR ''_'' \<or> c = CHR ''@''"

definition validate_key :: "string \<Rightarrow> unit res" where
  "validate_key key =
     (if key = [] then Inl (ErrMsg ''staging: key is empty'' [])
      else if \<not> list_all key_char key then Inl (ErrMsg ''staging: key contains an unsupported character'' [key])
      else Inr ())"

definition fs_wrap :: "string \<Rightarrow> ('s, 'a) prog \<Rightarrow> ('s, 'a) prog" where
  "fs_wrap msg m = (\<lambda>s. case m s of (Inl e, s') \<Rightarrow> (Inl (ErrWrap msg e), s') | (Inr a, s') \<Rightarrow> (Inr a, s'))"

text \<open>\<open>filepath.Join\<close> leaves out an empty element.\<close>

definition file_join :: "string \<Rightarrow> string \<Rightarrow> string" where
  "file_join a b = (if a = [] then path_clean b else path_join a b)"

definition available_bytes :: "os_api \<Rightarrow> string \<Rightarrow> (nodes, 64 word) prog" where
  "available_bytes fs path =
     (\<lambda>d. case os_statfs fs path d of
        Inl e \<Rightarrow> (Inl (ErrWrap ''staging: statfs'' e), d)
      | Inr (bavail, bsize) \<Rightarrow> (Inr (bavail * bsize), d))"

fun dirs_loop :: "manager \<Rightarrow> bool \<Rightarrow> (string \<times> bool) list \<Rightarrow> dir list" where
  "dirs_loop M retained [] = []"
| "dirs_loop M retained ((name, isdir) # es) =
     (if \<not> isdir then dirs_loop M retained es
      else if has_prefix name stage_prefix then
        \<lparr>sd_path = file_join (mg_root M) name, sd_retained = False, sd_key = trim_prefix name stage_prefix\<rparr>
          # dirs_loop M retained es
      else if retained \<and> has_prefix name keep_prefix then
        \<lparr>sd_path = file_join (mg_root M) name, sd_retained = True, sd_key = trim_prefix name keep_prefix\<rparr>
          # dirs_loop M retained es
      else dirs_loop M retained es)"

definition list_dirs :: "os_api \<Rightarrow> manager \<Rightarrow> bool \<Rightarrow> (nodes, dir list) prog" where
  "list_dirs fs M retained =
     prog_bind (fs_wrap ''staging: read root'' (fs_readdir fs (mg_root M))) (\<lambda>entries.
       prog_return (dirs_loop M retained entries))"

definition active :: "os_api \<Rightarrow> manager \<Rightarrow> (nodes, dir list) prog" where
  "active fs M = list_dirs fs M False"

definition required_bytes :: "os_api \<Rightarrow> manager \<Rightarrow> 64 word \<Rightarrow> 64 word" where
  "required_bytes fs M estimated =
     (if fl_positive fs (mg_margin M) then fl_scale fs (mg_margin M) estimated else estimated)"

definition check_slots :: "os_api \<Rightarrow> manager \<Rightarrow> (nodes, unit) prog" where
  "check_slots fs M =
     (if mg_max M > 0 then
        prog_bind (active fs M) (\<lambda>act.
          if int (length act) \<ge> mg_max M
          then prog_fail (ErrMsg ''staging: accounts already being worked on'' [])
          else prog_return ())
      else prog_return ())"

definition allocate :: "os_api \<Rightarrow> manager \<Rightarrow> string \<Rightarrow> 64 word \<Rightarrow> (nodes, dir) prog" where
  "allocate fs M key estimated =
     prog_bind (prog_lift (validate_key key)) (\<lambda>_.
       if mg_root M = [] then prog_fail (ErrMsg ''staging: root is not configured'' [])
       else if estimated = 0 then prog_fail (ErrMsg ''staging: refusing to stage without a size estimate'' [key])
       else prog_bind (available_bytes fs (mg_root M)) (\<lambda>available.
         if available < required_bytes fs M estimated
         then prog_fail (ErrInsufficientSpace (unat (required_bytes fs M estimated)) (unat available))
         else prog_bind (check_slots fs M) (\<lambda>_.
           let path = file_join (mg_root M) (stage_prefix @ key) in
           prog_bind (fs_wrap ''staging: create'' (fs_mkdir fs path)) (\<lambda>_.
             prog_return \<lparr>sd_path = path, sd_retained = False, sd_key = key\<rparr>))))"

fun outputs_loop :: "os_api \<Rightarrow> dir list \<Rightarrow> (nodes, staged_output list) prog" where
  "outputs_loop fs [] = prog_return []"
| "outputs_loop fs (dir # dirs) =
     (if \<not> sd_retained dir then outputs_loop fs dirs
      else prog_bind (fs_wrap ''staging: stat'' (fs_stat fs (sd_path dir))) (\<lambda>info.
        case info of
          None \<Rightarrow> prog_fail (ErrMsg ''staging: stat'' [sd_path dir])
        | Some n \<Rightarrow>
            prog_bind (fs_wrap ''staging: measure'' (fs_walk_size fs (sd_path dir))) (\<lambda>size.
            prog_bind (outputs_loop fs dirs) (\<lambda>rest.
              prog_return (\<lparr>ou_dir = dir, ou_bytes = size, ou_at = mod_time n\<rparr> # rest)))))"

definition retained_outputs :: "os_api \<Rightarrow> manager \<Rightarrow> (nodes, staged_output list) prog" where
  "retained_outputs fs M =
     prog_bind (list_dirs fs M True) (\<lambda>dirs.
     prog_bind (outputs_loop fs dirs) (\<lambda>outputs.
       prog_return (go_sort (\<lambda>a b. ou_at b < ou_at a) outputs)))"

text \<open>A \<open>nil\<close> directory is None.\<close>

definition retain :: "os_api \<Rightarrow> manager \<Rightarrow> dir option \<Rightarrow> (nodes, dir option) prog" where
  "retain fs M staged =
     (case staged of
        None \<Rightarrow> prog_return None
      | Some dir \<Rightarrow>
          if sd_retained dir then prog_return (Some dir)
          else prog_bind (prog_lift (validate_key (sd_key dir))) (\<lambda>_.
            let target = file_join (mg_root M) (keep_prefix @ sd_key dir) in
            prog_bind (fs_wrap ''staging: clear previous output'' (fs_remove_all fs target)) (\<lambda>_.
            prog_bind (fs_wrap ''staging: retain'' (fs_rename fs (sd_path dir) target)) (\<lambda>_.
              prog_return (Some \<lparr>sd_path = target, sd_retained = True, sd_key = sd_key dir\<rparr>)))))"

definition release :: "os_api \<Rightarrow> manager \<Rightarrow> dir option \<Rightarrow> (nodes, unit) prog" where
  "release fs M staged =
     (case staged of
        None \<Rightarrow> prog_return ()
      | Some dir \<Rightarrow>
          if \<not> has_prefix (path_clean (sd_path dir)) (path_clean (mg_root M) @ ''/'')
          then prog_fail (ErrMsg ''staging: refusing to remove outside root'' [sd_path dir, mg_root M])
          else fs_wrap ''staging: remove'' (fs_remove_all fs (sd_path dir)))"

fun reclaim_loop :: "os_api \<Rightarrow> manager \<Rightarrow> string \<Rightarrow> string list \<Rightarrow> bool \<Rightarrow> (nodes, bool) prog" where
  "reclaim_loop fs M key [] reclaimed = prog_return reclaimed"
| "reclaim_loop fs M key (p # ps) reclaimed =
     (let path = file_join (mg_root M) (p @ key) in
      prog_bind (fs_wrap ''staging: stat'' (fs_stat fs path)) (\<lambda>info.
        case info of
          None \<Rightarrow> reclaim_loop fs M key ps reclaimed
        | Some _ \<Rightarrow>
            prog_bind (release fs M (Some \<lparr>sd_path = path, sd_retained = False, sd_key = key\<rparr>)) (\<lambda>_.
              reclaim_loop fs M key ps True)))"

definition reclaim :: "os_api \<Rightarrow> manager \<Rightarrow> string \<Rightarrow> (nodes, bool) prog" where
  "reclaim fs M key =
     prog_bind (prog_lift (validate_key key)) (\<lambda>_. reclaim_loop fs M key [stage_prefix, keep_prefix] False)"

fun supersede_loop :: "os_api \<Rightarrow> manager \<Rightarrow> string \<Rightarrow> staged_output list \<Rightarrow> string list \<Rightarrow> (nodes, string list) prog" where
  "supersede_loop fs M pre [] removed = prog_return removed"
| "supersede_loop fs M pre (ou # os) removed =
     (if \<not> has_prefix (sd_key (ou_dir ou)) pre then supersede_loop fs M pre os removed
      else prog_bind (release fs M (Some (ou_dir ou))) (\<lambda>_.
        supersede_loop fs M pre os (removed @ [sd_key (ou_dir ou)])))"

definition supersede_outputs :: "os_api \<Rightarrow> manager \<Rightarrow> string \<Rightarrow> (nodes, string list) prog" where
  "supersede_outputs fs M pre =
     prog_bind (prog_lift (validate_key pre)) (\<lambda>_.
     prog_bind (retained_outputs fs M) (\<lambda>outputs. supersede_loop fs M pre outputs []))"

section \<open>Paths below the root\<close>

text \<open>An absolute root, written the way \<open>filepath.Clean\<close> writes it, that is not the whole disk.\<close>

definition good_root :: "manager \<Rightarrow> bool" where
  "good_root M \<longleftrightarrow> is_abs (mg_root M) \<and> path_clean (mg_root M) = mg_root M \<and> mg_root M \<noteq> ''/''"

lemma join_with_snoc: "xs \<noteq> [] \<Longrightarrow> join_with sep (xs @ [y]) = join_with sep xs @ sep @ y"
  by (induction sep xs rule: join_with.induct) auto

lemma good_root_facts:
  assumes "good_root M"
  shows "mg_root M \<noteq> []" "dir_prefix (mg_root M) = mg_root M @ ''/''"
    "plain_seg name \<Longrightarrow> file_join (mg_root M) name = mg_root M @ ''/'' @ name"
proof -
  from assms have abs: "is_abs (mg_root M)" and clean: "path_clean (mg_root M) = mg_root M" and ne: "mg_root M \<noteq> ''/''"
    by (auto simp: good_root_def)
  show "mg_root M \<noteq> []" using abs by (auto simp: is_abs_def)
  show "dir_prefix (mg_root M) = mg_root M @ ''/''" using clean ne by (simp add: dir_prefix_def)
  have root: "mg_root M = CHR ''/'' # join_with ''/'' (root_segs (mg_root M))"
    using clean abs by (simp add: path_clean_def root_segs_def is_abs_def Let_def split: if_splits)
  with ne have segs: "root_segs (mg_root M) \<noteq> []" by (metis join_with.simps(1))
  assume name: "plain_seg name"
  then have "split_at CHR ''/'' name = [name]" by (simp add: split_no_sep plain_seg_def)
  with path_join_plain [OF abs, of name] name
  have "path_join (mg_root M) name = CHR ''/'' # join_with ''/'' (root_segs (mg_root M)) @ ''/'' @ name"
    by (simp add: join_with_snoc [OF segs])
  with root \<open>mg_root M \<noteq> []\<close> show "file_join (mg_root M) name = mg_root M @ ''/'' @ name"
    by (simp add: file_join_def)
qed

definition good_dir :: "string \<Rightarrow> bool" where
  "good_dir dir \<longleftrightarrow> is_abs dir \<and> path_clean dir = dir \<and> dir \<noteq> ''/''"

lemma good_dir_facts:
  assumes "good_dir dir"
  shows "dir_prefix dir = dir @ ''/''" "plain_seg name \<Longrightarrow> file_join dir name = dir @ ''/'' @ name"
  using assms good_root_facts(2,3) [of "\<lparr>mg_root = dir, mg_margin = 0, mg_max = 0\<rparr>"]
  by (simp_all add: good_dir_def good_root_def)

lemma key_char_plain: "key_char c \<Longrightarrow> c \<noteq> CHR ''/''"
  by (auto simp: key_char_def char_in_def)

lemma valid_key_plain:
  assumes "validate_key key = Inr ()"
  shows "plain_seg (stage_prefix @ key)" "plain_seg (keep_prefix @ key)"
proof -
  from assms have "list_all key_char key" by (auto simp: validate_key_def split: if_splits)
  then have "CHR ''/'' \<notin> set key" using key_char_plain by (auto simp: list_all_iff)
  then show "plain_seg (stage_prefix @ key)" "plain_seg (keep_prefix @ key)"
    by (auto simp: plain_seg_def stage_prefix_def keep_prefix_def)
qed

lemma children_iff:
  "(name, isdir) \<in> set (children pre d) \<longleftrightarrow>
     (\<exists>n. (pre @ name, n) \<in> set d \<and> name \<noteq> [] \<and> CHR ''/'' \<notin> set name \<and> isdir = is_dir n)"
  by (induction pre d rule: children.induct) (auto simp: cut_prefix_eq_Some cut_prefix_def has_prefix_iff split: option.splits if_splits)

section \<open>How many accounts are being worked on\<close>

definition is_active :: "string \<times> bool \<Rightarrow> bool" where
  "is_active e \<longleftrightarrow> snd e \<and> has_prefix (fst e) stage_prefix"

definition active_count :: "manager \<Rightarrow> nodes \<Rightarrow> nat" where
  "active_count M d = length (filter is_active (children (dir_prefix (mg_root M)) d))"

lemma length_dirs_loop: "length (dirs_loop M False es) = length (filter is_active es)"
  by (induction M "False" es rule: dirs_loop.induct) (auto simp: is_active_def)

lemma length_filter_go_sort: "length (filter P (go_sort lt xs)) = length (filter P xs)"
  by (metis mset_filter mset_go_sort size_mset)

lemma guarded_Inr [simp]: "guarded fs op p m d = (Inr a, d') \<longleftrightarrow> os_fault fs op p d = None \<and> m d = (Inr a, d')"
  by (auto simp: guarded_def split: option.splits)

lemma fs_wrap_Inr [simp]: "fs_wrap msg m s = (Inr a, s') \<longleftrightarrow> m s = (Inr a, s')"
  by (auto simp: fs_wrap_def split: prod.splits sum.splits)

lemma active_Inr: "active fs M d = (Inr ds, d') \<Longrightarrow> d' = d \<and> length ds = active_count M d"
  by (auto simp: active_def list_dirs_def prog_bind_eq_Inr fs_readdir_def length_dirs_loop length_filter_go_sort
      active_count_def)

lemma check_slots_Inr: "check_slots fs M d = (Inr u, d') \<Longrightarrow> d' = d \<and> (mg_max M > 0 \<longrightarrow> int (active_count M d) < mg_max M)"
  by (auto simp: check_slots_def prog_bind_eq_Inr dest!: active_Inr split: if_splits)

lemma allocate_Inr:
  assumes "allocate fs M key estimated d = (Inr staged, d')"
  shows "validate_key key = Inr ()" "estimated \<noteq> 0" "mg_root M \<noteq> []"
    "mg_max M > 0 \<longrightarrow> int (active_count M d) < mg_max M"
    "\<exists>bavail bsize. os_statfs fs (mg_root M) d = Inr (bavail, bsize) \<and> required_bytes fs M estimated \<le> bavail * bsize"
    "staged = \<lparr>sd_path = file_join (mg_root M) (stage_prefix @ key), sd_retained = False, sd_key = key\<rparr>"
    "map_of d (sd_path staged) = None" "d' = (sd_path staged, FDir (os_now fs)) # d"
  using assms
  by (auto simp: allocate_def prog_bind_eq_Inr available_bytes_def Let_def fs_mkdir_def not_less
      dest!: check_slots_Inr split: if_splits sum.splits)

lemma available_bytes_state: "available_bytes fs p d = (r, d') \<Longrightarrow> d' = d"
  by (auto simp: available_bytes_def split: sum.splits)

section \<open>What is taken away\<close>

text \<open>Only paths in P have gone; everything else is as it was.\<close>

definition loses :: "(string \<Rightarrow> bool) \<Rightarrow> nodes \<Rightarrow> nodes \<Rightarrow> bool" where
  "loses P d d' \<longleftrightarrow> (\<exists>Q. d' = filter Q d \<and> (\<forall>e \<in> set d. \<not> Q e \<longrightarrow> P (fst e)))"

lemma loses_refl [simp]: "loses P d d"
  unfolding loses_def by (rule exI [of _ "\<lambda>_. True"]) simp

lemma loses_trans:
  assumes "loses P d d1" "loses P d1 d2"
  shows "loses P d d2"
proof -
  from assms obtain Q R where q: "d1 = filter Q d" "\<forall>e \<in> set d. \<not> Q e \<longrightarrow> P (fst e)"
      and r: "d2 = filter R d1" "\<forall>e \<in> set d1. \<not> R e \<longrightarrow> P (fst e)"
    by (auto simp: loses_def)
  then have "d2 = filter (\<lambda>e. Q e \<and> R e) d" "\<forall>e \<in> set d. \<not> (Q e \<and> R e) \<longrightarrow> P (fst e)"
    by (auto simp: conj_commute)
  then show ?thesis unfolding loses_def by blast
qed

lemma loses_mono: "loses P d d' \<Longrightarrow> (\<And>q. P q \<Longrightarrow> R q) \<Longrightarrow> loses R d d'"
  unfolding loses_def by blast

lemma loses_map_of: "loses P d d' \<Longrightarrow> \<not> P q \<Longrightarrow> map_of d' q = map_of d q"
proof -
  assume "loses P d d'" "\<not> P q"
  then obtain Q where Q: "d' = filter Q d" "\<forall>e \<in> set d. fst e = q \<longrightarrow> Q e"
    by (auto simp: loses_def)
  from Q(2) have "map_of (filter Q d) q = map_of d q"
    by (induction d) auto
  with Q(1) show ?thesis by simp
qed

lemma remove_all_loses: "fs_remove_all fs p d = (r, d') \<Longrightarrow> loses (lies_under p) d d'"
  unfolding loses_def fs_remove_all_def
  by (auto split: option.splits intro!: exI)

lemma fs_wrap_state: "fs_wrap msg m s = (r, s') \<Longrightarrow> \<exists>r0. m s = (r0, s')"
  by (auto simp: fs_wrap_def split: prod.splits sum.splits)

lemma release_loses:
  "release fs M (Some dir) d = (r, d') \<Longrightarrow> loses (lies_under (sd_path dir)) d d'"
  by (auto simp: release_def dest!: fs_wrap_state remove_all_loses split: if_splits)

lemma stat_state: "fs_wrap msg (fs_stat fs p) d = (r, d') \<Longrightarrow> d' = d"
  by (auto simp: fs_wrap_def fs_stat_def guarded_def split: prod.splits sum.splits option.splits)

lemma bind_cases:
  assumes "prog_bind m f s = (r, s')"
  obtains e where "m s = (Inl e, s')" "r = Inl e" | a s1 where "m s = (Inr a, s1)" "f a s1 = (r, s')"
  using assms by (cases "m s"; cases "fst (m s)") auto

lemma reclaim_loop_loses:
  assumes "reclaim_loop fs M key ps b d = (r, d')"
  shows "loses (\<lambda>q. \<exists>p \<in> set ps. lies_under (file_join (mg_root M) (p @ key)) q) d d'"
  using assms
proof (induction ps arbitrary: b d)
  case (Cons p ps)
  let ?path = "file_join (mg_root M) (p @ key)"
  let ?P = "\<lambda>q. \<exists>p \<in> set (p # ps). lies_under (file_join (mg_root M) (p @ key)) q"
  from Cons.prems [unfolded reclaim_loop.simps Let_def] show ?case
  proof (rule bind_cases)
    fix e assume "fs_wrap ''staging: stat'' (fs_stat fs ?path) d = (Inl e, d')"
    then show ?thesis by (auto dest: stat_state)
  next
    fix info d1
    assume st: "fs_wrap ''staging: stat'' (fs_stat fs ?path) d = (Inr info, d1)"
      and rest: "(case info of None \<Rightarrow> reclaim_loop fs M key ps b
        | Some _ \<Rightarrow> prog_bind (release fs M (Some \<lparr>sd_path = ?path, sd_retained = False, sd_key = key\<rparr>)) (\<lambda>_.
              reclaim_loop fs M key ps True)) d1 = (r, d')"
    from stat_state [OF st] have d1: "d1 = d" .
    show ?thesis
    proof (cases info)
      case None
      with rest d1 Cons.IH [of b d] show ?thesis by (auto elim: loses_mono)
    next
      case (Some n)
      let ?rel = "release fs M (Some \<lparr>sd_path = ?path, sd_retained = False, sd_key = key\<rparr>)"
      have here: "?rel d = (r0, d2) \<Longrightarrow> loses ?P d d2" for r0 d2
        using release_loses [of fs M _ d r0 d2] by (fastforce elim: loses_mono)
      from rest Some d1 have "prog_bind ?rel (\<lambda>_. reclaim_loop fs M key ps True) d = (r, d')" by simp
      then show ?thesis
      proof (rule bind_cases)
        fix a d2 assume rel: "?rel d = (Inr a, d2)" and loop: "reclaim_loop fs M key ps True d2 = (r, d')"
        from Cons.IH [OF loop] have "loses ?P d2 d'" by (auto elim: loses_mono)
        with here [OF rel] show ?thesis by (rule loses_trans)
      qed (use here in blast)
    qed
  qed
qed simp

lemma reclaim_loses:
  "reclaim fs M key d = (r, d') \<Longrightarrow> loses (\<lambda>q. validate_key key = Inr () \<and>
     (lies_under (file_join (mg_root M) (stage_prefix @ key)) q \<or> lies_under (file_join (mg_root M) (keep_prefix @ key)) q)) d d'"
  by (cases "validate_key key")
    (auto simp: reclaim_def simp del: reclaim_loop.simps dest!: reclaim_loop_loses elim: loses_mono)

lemma supersede_loop_loses:
  assumes "supersede_loop fs M pre os rm d = (r, d')"
  shows "loses (\<lambda>q. \<exists>ou \<in> set os. has_prefix (sd_key (ou_dir ou)) pre \<and> lies_under (sd_path (ou_dir ou)) q) d d'"
  using assms
proof (induction os arbitrary: rm d)
  case (Cons ou os)
  show ?case
  proof (cases "has_prefix (sd_key (ou_dir ou)) pre")
    case False
    with Cons show ?thesis by (fastforce elim: loses_mono)
  next
    case True
    let ?P = "\<lambda>q. \<exists>ou \<in> set (ou # os). has_prefix (sd_key (ou_dir ou)) pre \<and> lies_under (sd_path (ou_dir ou)) q"
    have here: "release fs M (Some (ou_dir ou)) d = (r0, d2) \<Longrightarrow> loses ?P d d2" for r0 d2
      using release_loses [of fs M _ d r0 d2] True by (fastforce elim: loses_mono)
    from Cons.prems True have "prog_bind (release fs M (Some (ou_dir ou))) (\<lambda>_.
        supersede_loop fs M pre os (rm @ [sd_key (ou_dir ou)])) d = (r, d')" by simp
    then show ?thesis
    proof (rule bind_cases)
      fix a d2 assume rel: "release fs M (Some (ou_dir ou)) d = (Inr a, d2)"
        and loop: "supersede_loop fs M pre os (rm @ [sd_key (ou_dir ou)]) d2 = (r, d')"
      from Cons.IH [OF loop] have "loses ?P d2 d'" by (auto elim: loses_mono)
      with here [OF rel] show ?thesis by (rule loses_trans)
    qed (use here in blast)
  qed
qed simp

lemma dirs_loop_retained:
  "dir \<in> set (dirs_loop M True es) \<Longrightarrow> sd_retained dir \<Longrightarrow>
     (keep_prefix @ sd_key dir, True) \<in> set es \<and> sd_path dir = file_join (mg_root M) (keep_prefix @ sd_key dir)"
  by (induction M "True" es rule: dirs_loop.induct) (auto simp: has_prefix_iff split: if_splits)

lemma dirs_loop_lists:
  "(keep_prefix @ key, True) \<in> set es \<Longrightarrow>
     \<lparr>sd_path = file_join (mg_root M) (keep_prefix @ key), sd_retained = True, sd_key = key\<rparr> \<in> set (dirs_loop M True es)"
  by (induction M "True" es rule: dirs_loop.induct) (auto simp: stage_prefix_def keep_prefix_def trim_prefix_def)

lemma outputs_loop_dirs:
  assumes "outputs_loop fs dirs d = (r, d')"
  shows "d' = d \<and> (\<forall>os. r = Inr os \<longrightarrow> map ou_dir os = filter sd_retained dirs)"
  using assms
proof (induction dirs arbitrary: r d')
  case (Cons dir dirs)
  show ?case
  proof (cases "sd_retained dir")
    case False
    with Cons show ?thesis by simp
  next
    case True
    with Cons.prems have "prog_bind (fs_wrap ''staging: stat'' (fs_stat fs (sd_path dir))) (\<lambda>info. case info of
          None \<Rightarrow> prog_fail (ErrMsg ''staging: stat'' [sd_path dir])
        | Some n \<Rightarrow> prog_bind (fs_wrap ''staging: measure'' (fs_walk_size fs (sd_path dir))) (\<lambda>size.
            prog_bind (outputs_loop fs dirs) (\<lambda>rest.
              prog_return (\<lparr>ou_dir = dir, ou_bytes = size, ou_at = mod_time n\<rparr> # rest)))) d = (r, d')" by simp
    then show ?thesis
    proof (rule bind_cases)
      fix info d1
      assume st: "fs_wrap ''staging: stat'' (fs_stat fs (sd_path dir)) d = (Inr info, d1)"
        and rest: "(case info of
          None \<Rightarrow> prog_fail (ErrMsg ''staging: stat'' [sd_path dir])
        | Some n \<Rightarrow> prog_bind (fs_wrap ''staging: measure'' (fs_walk_size fs (sd_path dir))) (\<lambda>size.
            prog_bind (outputs_loop fs dirs) (\<lambda>rest.
              prog_return (\<lparr>ou_dir = dir, ou_bytes = size, ou_at = mod_time n\<rparr> # rest)))) d1 = (r, d')"
      from stat_state [OF st] have "d1 = d" .
      show ?thesis
      proof (cases info)
        case (Some n)
        have walk: "fs_walk_size fs (sd_path dir) d = (r0, d2) \<Longrightarrow> d2 = d" for r0 d2
          by (auto simp: fs_walk_size_def guarded_def split: option.splits)
        from rest [unfolded Some option.case \<open>d1 = d\<close>] True show ?thesis
          by (elim bind_cases) (auto dest!: fs_wrap_state walk, auto dest!: Cons.IH)
      qed (use rest \<open>d1 = d\<close> in auto)
    qed (auto dest: stat_state)
  qed
qed simp

lemma list_dirs_state: "list_dirs fs M b d = (r, d') \<Longrightarrow> d' = d"
  by (auto simp: list_dirs_def fs_readdir_def guarded_def elim!: bind_cases dest!: fs_wrap_state split: option.splits)

lemma list_dirs_Inr:
  assumes "list_dirs fs M True d = (Inr dirs, d')"
  shows "\<exists>es. dirs = dirs_loop M True es \<and> set es = set (children (dir_prefix (mg_root M)) d)"
  using assms
  by (auto simp: list_dirs_def prog_bind_eq_Inr fs_readdir_def)

interpretation newest: strict_weak "\<lambda>a b :: staged_output. ou_at b < ou_at a"
  by unfold_locales auto

lemma retained_outputs_Inr:
  assumes "retained_outputs fs M d = (Inr os, d')"
  shows "ou_dir ` set os = {\<lparr>sd_path = file_join (mg_root M) (keep_prefix @ key), sd_retained = True, sd_key = key\<rparr> | key.
      (keep_prefix @ key, True) \<in> set (children (dir_prefix (mg_root M)) d)}"
    "sorted_wrt (\<lambda>a b. ou_at b \<le> ou_at a) os"
proof -
  from assms obtain dirs d1 os' where l: "list_dirs fs M True d = (Inr dirs, d1)" and o: "outputs_loop fs dirs d1 = (Inr os', d')"
      and os: "os = go_sort (\<lambda>a b. ou_at b < ou_at a) os'"
    by (auto simp: retained_outputs_def prog_bind_eq_Inr)
  from list_dirs_Inr [OF l] obtain es where es: "dirs = dirs_loop M True es"
      "set es = set (children (dir_prefix (mg_root M)) d)" by blast
  have "ou_dir ` set os = set (map ou_dir os')" by (simp add: os)
  also have "\<dots> = {dir \<in> set dirs. sd_retained dir}" using outputs_loop_dirs [OF o] by simp
  finally have eq: "ou_dir ` set os = {dir \<in> set dirs. sd_retained dir}" .
  show "ou_dir ` set os = {\<lparr>sd_path = file_join (mg_root M) (keep_prefix @ key), sd_retained = True, sd_key = key\<rparr> | key.
      (keep_prefix @ key, True) \<in> set (children (dir_prefix (mg_root M)) d)}"
  proof (rule set_eqI)
    fix dir
    show "dir \<in> ou_dir ` set os \<longleftrightarrow> dir \<in> {\<lparr>sd_path = file_join (mg_root M) (keep_prefix @ key), sd_retained = True, sd_key = key\<rparr> | key.
      (keep_prefix @ key, True) \<in> set (children (dir_prefix (mg_root M)) d)}"
      using dirs_loop_retained [of dir M es] dirs_loop_lists [of _ es M]
      by (cases dir) (auto simp: eq es simp flip: es(2))
  qed
  show "sorted_wrt (\<lambda>a b. ou_at b \<le> ou_at a) os"
    using newest.sorted_go_sort [of os'] by (simp add: os not_less)
qed

lemma supersede_loses:
  assumes "supersede_outputs fs M pre d = (r, d')"
  shows "loses (\<lambda>q. \<exists>key. has_prefix key pre \<and> (keep_prefix @ key, True) \<in> set (children (dir_prefix (mg_root M)) d)
      \<and> lies_under (file_join (mg_root M) (keep_prefix @ key)) q) d d'"
    (is "loses ?P d d'")
proof (cases "validate_key pre")
  case (Inr u)
  with assms have "prog_bind (retained_outputs fs M) (\<lambda>os. supersede_loop fs M pre os []) d = (r, d')"
    by (simp add: supersede_outputs_def)
  then show ?thesis
  proof (rule bind_cases)
    fix e assume "retained_outputs fs M d = (Inl e, d')"
    then have "d' = d"
      by (auto simp: retained_outputs_def elim!: bind_cases dest!: list_dirs_state outputs_loop_dirs)
    then show ?thesis by simp
  next
    fix os d1 assume os: "retained_outputs fs M d = (Inr os, d1)" and loop: "supersede_loop fs M pre os [] d1 = (r, d')"
    have d1: "d1 = d" using os
      by (auto simp: retained_outputs_def elim!: bind_cases dest!: list_dirs_state outputs_loop_dirs)
    have "?P q" if "ou \<in> set os" "has_prefix (sd_key (ou_dir ou)) pre" "lies_under (sd_path (ou_dir ou)) q" for ou q
    proof -
      from that(1) have "ou_dir ou \<in> ou_dir ` set os" by simp
      then obtain key where "ou_dir ou = \<lparr>sd_path = file_join (mg_root M) (keep_prefix @ key), sd_retained = True, sd_key = key\<rparr>"
          "(keep_prefix @ key, True) \<in> set (children (dir_prefix (mg_root M)) d)"
        unfolding retained_outputs_Inr(1) [OF os] by blast
      with that show ?thesis by auto
    qed
    with supersede_loop_loses [OF loop] show ?thesis
      unfolding d1 by (auto elim: loses_mono)
  qed
qed (use assms in \<open>simp add: supersede_outputs_def\<close>)

section \<open>Steps of the allocator\<close>

text \<open>The operations as they are called: \<open>Retain\<close> is given a directory that \<open>Allocate\<close> handed out.\<close>

inductive staging_step :: "manager \<Rightarrow> nodes \<Rightarrow> nodes \<Rightarrow> bool" for M where
  allocate: "allocate fs M key estimated d = (r, d') \<Longrightarrow> staging_step M d d'"
| retain: "retain fs M (Some \<lparr>sd_path = file_join (mg_root M) (stage_prefix @ key), sd_retained = False, sd_key = key\<rparr>) d
    = (r, d') \<Longrightarrow> staging_step M d d'"
| reclaim: "reclaim fs M key d = (r, d') \<Longrightarrow> staging_step M d d'"
| release: "release fs M (Some dir) d = (r, d') \<Longrightarrow> path_clean (sd_path dir) = sd_path dir \<Longrightarrow> staging_step M d d'"
| supersede: "supersede_outputs fs M pre d = (r, d') \<Longrightarrow> staging_step M d d'"

inductive staging_steps :: "manager \<Rightarrow> nodes \<Rightarrow> nodes \<Rightarrow> bool" for M where
  start: "staging_steps M d d"
| more: "staging_steps M d d1 \<Longrightarrow> staging_step M d1 d2 \<Longrightarrow> staging_steps M d d2"

lemma active_count_filter: "active_count M (filter Q d) \<le> active_count M d"
proof -
  have "length (filter is_active (children pre (filter Q d))) \<le> length (filter is_active (children pre d))" for pre
    by (induction pre d rule: children.induct) (auto split: option.splits)
  then show ?thesis by (simp add: active_count_def)
qed

lemma loses_active: "loses P d d' \<Longrightarrow> active_count M d' \<le> active_count M d"
  by (auto simp: loses_def active_count_filter)

lemma moved_not_active:
  assumes "lies_under a q" "CHR ''/'' \<notin> set key"
  shows "case cut_prefix (moved_path a (pre @ keep_prefix @ key) q) pre of None \<Rightarrow> True
    | Some name \<Rightarrow> CHR ''/'' \<in> set name \<or> \<not> has_prefix name stage_prefix"
  using assms by (auto simp: moved_path_def cut_prefix_def has_prefix_iff stage_prefix_def keep_prefix_def)

lemma rename_active:
  assumes "CHR ''/'' \<notin> set key"
  shows "length (filter is_active (children pre (map (\<lambda>(q, n). (moved_path a (pre @ keep_prefix @ key) q, n)) d)))
     \<le> length (filter is_active (children pre d))"
proof (induction d)
  case (Cons e d)
  obtain q n where e: "e = (q, n)" by force
  show ?case
  proof (cases "lies_under a q")
    case True
    from moved_not_active [OF True assms, of pre] Cons show ?thesis
      by (auto simp: e is_active_def split: option.splits)
  next
    case False
    then have "moved_path a (pre @ keep_prefix @ key) q = q" by (simp add: moved_path_def)
    with Cons show ?thesis by (auto simp: e split: option.splits)
  qed
qed simp

lemma check_slots_state: "check_slots fs M d = (r, d') \<Longrightarrow> d' = d"
  by (auto simp: check_slots_def active_def elim!: bind_cases dest!: list_dirs_state split: if_splits)

lemma mkdir_Inl: "fs_mkdir fs p d = (Inl e, d') \<Longrightarrow> d' = d"
  by (auto simp: fs_mkdir_def guarded_def split: option.splits if_splits)

lemma create_Inl: "fs_wrap msg (fs_mkdir fs p) d = (Inl e, d') \<Longrightarrow> d' = d"
  by (auto simp: fs_wrap_def dest: mkdir_Inl split: prod.splits sum.splits)

lemma allocate_Inl: "allocate fs M key estimated d = (Inl e, d') \<Longrightarrow> d' = d"
  by (auto simp: allocate_def Let_def elim!: bind_cases dest!: available_bytes_state check_slots_state create_Inl
      split: if_splits)

lemma retain_parts:
  assumes "retain fs M (Some \<lparr>sd_path = a, sd_retained = False, sd_key = key\<rparr>) d = (r, d')"
  shows "d' = d \<or> validate_key key = Inr () \<and> (\<exists>d1. loses (lies_under (file_join (mg_root M) (keep_prefix @ key))) d d1 \<and>
      (d' = d1 \<or> d' = map (\<lambda>(q, n). (moved_path a (file_join (mg_root M) (keep_prefix @ key)) q, n)) d1))"
proof (cases "validate_key key")
  case (Inr u)
  let ?t = "file_join (mg_root M) (keep_prefix @ key)"
  from assms Inr have "prog_bind (fs_wrap ''staging: clear previous output'' (fs_remove_all fs ?t)) (\<lambda>_.
      prog_bind (fs_wrap ''staging: retain'' (fs_rename fs a ?t)) (\<lambda>_.
        prog_return (Some \<lparr>sd_path = ?t, sd_retained = True, sd_key = key\<rparr>))) d = (r, d')"
    by (simp add: retain_def Let_def)
  then obtain r1 d1 where rm: "fs_remove_all fs ?t d = (r1, d1)" and
    rest: "d' = d1 \<or> (\<exists>r2. fs_rename fs a ?t d1 = (r2, d'))"
    by (elim bind_cases) (auto dest!: fs_wrap_state)
  from rest have "d' = d1 \<or> d' = map (\<lambda>(q, n). (moved_path a ?t q, n)) d1"
    by (auto simp: fs_rename_def guarded_def split: option.splits if_splits)
  with Inr remove_all_loses [OF rm] show ?thesis by auto
qed (use assms in \<open>simp add: retain_def\<close>)

lemma step_active:
  assumes "staging_step M d d'" "good_root M" "0 < mg_max M" "int (active_count M d) \<le> mg_max M"
  shows "int (active_count M d') \<le> mg_max M"
  using assms(1)
proof cases
  case (allocate fs key estimated r)
  show ?thesis
  proof (cases r)
    case (Inl e)
    with allocate assms(4) show ?thesis by (auto dest: allocate_Inl)
  next
    case (Inr staged)
    note a = allocate_Inr [OF allocate [unfolded Inr]]
    have "active_count M d' \<le> Suc (active_count M d)"
      by (auto simp: a(8) active_count_def split: option.splits)
    with a(4) assms(3) show ?thesis by simp
  qed
next
  case (retain fs key r)
  from retain_parts [OF this] assms(4) show ?thesis
  proof (elim disjE conjE exE)
    fix d1
    assume k: "validate_key key = Inr ()" and l: "loses (lies_under (file_join (mg_root M) (keep_prefix @ key))) d d1"
      and d': "d' = map (\<lambda>(q, n). (moved_path (file_join (mg_root M) (stage_prefix @ key))
          (file_join (mg_root M) (keep_prefix @ key)) q, n)) d1"
    from valid_key_plain(2) [OF k] have "CHR ''/'' \<notin> set key" by (simp add: plain_seg_def)
    from rename_active [OF this, of "mg_root M @ ''/''"] have "active_count M d' \<le> active_count M d1"
      by (simp add: d' active_count_def good_root_facts(2) [OF assms(2)] good_root_facts(3) [OF assms(2) valid_key_plain(2) [OF k]])
    with loses_active [OF l, of M] assms(4) show ?thesis by simp
  qed (auto dest: loses_active [of _ _ _ M])
next
  case (reclaim fs key r)
  from loses_active [OF reclaim_loses [OF this], of M] assms(4) show ?thesis by simp
next
  case (release fs dir r)
  from loses_active [OF release_loses [OF release(1)], of M] assms(4) show ?thesis by simp
next
  case (supersede fs pre r)
  from loses_active [OF supersede_loses [OF this], of M] assms(4) show ?thesis by simp
qed

text \<open>
  C10. The number of accounts staged at the same time never exceeds the limit. Whatever sequence
  of allocations, retentions, reclaims, releases and supersessions runs one after the other, each
  succeeding or failing at any point, if the directories being worked in were within a positive
  limit at the start then they are at the end; only an allocation adds one, and it counts first.
\<close>

theorem staging_within_limit:
  assumes "staging_steps M d d'" "good_root M" "0 < mg_max M" "int (active_count M d) \<le> mg_max M"
  shows "int (active_count M d') \<le> mg_max M"
  using assms
proof (induction rule: staging_steps.induct)
  case (more d d1 d2)
  then show ?case by (blast intro: step_active)
qed

lemma under_root:
  "good_root M \<Longrightarrow> plain_seg name \<Longrightarrow> lies_under (file_join (mg_root M) name) q \<Longrightarrow> lies_under (mg_root M) q"
proof -
  assume "good_root M" "plain_seg name" "lies_under (file_join (mg_root M) name) q"
  then have "lies_under (mg_root M @ ''/'' @ name) q" by (simp only: good_root_facts(3))
  then obtain rest where "q = (mg_root M @ ''/'') @ (name @ rest)" by (auto simp: lies_under_iff)
  then show "lies_under (mg_root M) q"
    unfolding lies_under_def by (metis has_prefix_append)
qed

lemma map_of_moved:
  assumes "\<And>p. f p = q \<longleftrightarrow> p = q"
  shows "map_of (map (\<lambda>(p, n). (f p, n)) d) q = map_of d q"
proof (induction d)
  case (Cons e d)
  then show ?case using assms [of "fst e"] by (cases e) auto
qed simp

lemma moved_outside:
  assumes "\<And>q. lies_under a q \<Longrightarrow> lies_under root q" "\<And>q. lies_under b q \<Longrightarrow> lies_under root q" "\<not> lies_under root q"
  shows "moved_path a b p = q \<longleftrightarrow> p = q"
proof (cases "lies_under a p")
  case True
  then obtain rest where "p = a @ rest" "below_part rest" by (auto simp: lies_under_iff)
  then have "lies_under b (moved_path a b p)" using True by (auto simp: moved_path_def lies_under_iff)
  with True assms show ?thesis by blast
qed (simp add: moved_path_def)

lemma step_outside:
  assumes "staging_step M d d'" "good_root M" "\<not> lies_under (mg_root M) q"
  shows "map_of d' q = map_of d q"
  using assms(1)
proof cases
  case (allocate fs key estimated r)
  show ?thesis
  proof (cases r)
    case (Inl e)
    with allocate show ?thesis by (auto dest: allocate_Inl)
  next
    case (Inr staged)
    note a = allocate_Inr [OF allocate [unfolded Inr]]
    have "sd_path staged = file_join (mg_root M) (stage_prefix @ key)" by (simp add: a(6))
    with under_root [OF assms(2) valid_key_plain(1) [OF a(1)], of "sd_path staged"] assms(3) a(8)
    show ?thesis by (auto simp: lies_under_def)
  qed
next
  case (retain fs key r)
  from retain_parts [OF this] show ?thesis
  proof (elim disjE conjE exE)
    fix d1
    assume k: "validate_key key = Inr ()" and l: "loses (lies_under (file_join (mg_root M) (keep_prefix @ key))) d d1"
      and d': "d' = map (\<lambda>(q, n). (moved_path (file_join (mg_root M) (stage_prefix @ key))
          (file_join (mg_root M) (keep_prefix @ key)) q, n)) d1"
    note u = under_root [OF assms(2) valid_key_plain(1) [OF k]] under_root [OF assms(2) valid_key_plain(2) [OF k]]
    have "map_of d' q = map_of d1 q"
      unfolding d' by (rule map_of_moved, rule moved_outside [of _ "mg_root M"]) (use u assms(3) in auto)
    with loses_map_of [OF l, of q] u assms(3) show ?thesis by auto
  next
    fix d1
    assume k: "validate_key key = Inr ()" and l: "loses (lies_under (file_join (mg_root M) (keep_prefix @ key))) d d1" "d' = d1"
    with loses_map_of [OF l(1), of q] under_root [OF assms(2) valid_key_plain(2) [OF k], of q] assms(3) show ?thesis by auto
  qed simp
next
  case (reclaim fs key r)
  from loses_map_of [OF reclaim_loses [OF this], of q] assms(3) show ?thesis
    using under_root [OF assms(2) valid_key_plain(1), of key q] under_root [OF assms(2) valid_key_plain(2), of key q] by blast
next
  case (release fs dir r)
  show ?thesis
  proof (cases "has_prefix (sd_path dir) (mg_root M @ ''/'')")
    case True
    then have "lies_under (sd_path dir) q \<Longrightarrow> lies_under (mg_root M) q"
      by (auto simp: lies_under_def has_prefix_iff)
    with loses_map_of [OF release_loses [OF release(1)], of q] assms(3) show ?thesis by blast
  next
    case False
    with release assms(2) show ?thesis by (auto simp: release_def good_root_def)
  qed
next
  case (supersede fs pre r)
  have "lies_under (mg_root M) q" if "(keep_prefix @ key, True) \<in> set (children (dir_prefix (mg_root M)) d)"
    "lies_under (file_join (mg_root M) (keep_prefix @ key)) q" for key
  proof (rule under_root [OF assms(2) _ that(2)])
    from that(1) have "CHR ''/'' \<notin> set (keep_prefix @ key)" unfolding children_iff by blast
    then show "plain_seg (keep_prefix @ key)" by (auto simp: plain_seg_def keep_prefix_def)
  qed
  with loses_map_of [OF supersede_loses [OF supersede], of q] assms(3) show ?thesis by blast
qed

text \<open>
  Staging touches nothing outside its root. Through any sequence of its operations, whatever
  keys they are given and wherever they fail, every path that does not lie under the staging root
  holds exactly what it held.
\<close>

theorem staging_confined_to_root:
  assumes "staging_steps M d d'" "good_root M" "\<not> lies_under (mg_root M) q"
  shows "map_of d' q = map_of d q"
  using assms
proof (induction rule: staging_steps.induct)
  case (more d d1 d2)
  then show ?case using step_outside by metis
qed simp

definition example_os :: os_api where
  "example_os = \<lparr>os_fault = (\<lambda>op p d. None), os_left = (\<lambda>p d q. False), os_statfs = (\<lambda>p d. Inr (100, 4096)),
     os_now = 5, fl_positive = (\<lambda>_. False), fl_scale = (\<lambda>_ n. n)\<rparr>"

definition example_manager :: manager where
  "example_manager = \<lparr>mg_root = ''/stage'', mg_margin = 0, mg_max = 1\<rparr>"

definition staged_bob :: nodes where
  "staged_bob = [(''/stage/stage-bob'', FDir 5), (''/stage'', FDir 1)]"

lemma good_example_manager: "good_root example_manager"
  by code_simp

lemma example_allocates:
  "allocate example_os example_manager ''bob'' 4096 [(''/stage'', FDir 1)]
     = (Inr \<lparr>sd_path = ''/stage/stage-bob'', sd_retained = False, sd_key = ''bob''\<rparr>, staged_bob)"
  by code_simp

lemma example_steps: "staging_steps example_manager [(''/stage'', FDir 1)] staged_bob"
  by (rule staging_steps.more [OF staging_steps.start staging_step.allocate [OF example_allocates]])

theorem staging_within_limit_witness: "int (active_count example_manager staged_bob) \<le> 1"
proof -
  have "int (active_count example_manager [(''/stage'', FDir 1)]) \<le> mg_max example_manager" by code_simp
  from staging_within_limit [OF example_steps good_example_manager _ this] show ?thesis
    by (simp add: example_manager_def)
qed

theorem staging_confined_to_root_witness: "map_of staged_bob ''/home/bob'' = None"
proof -
  have "\<not> lies_under (mg_root example_manager) ''/home/bob''" by code_simp
  from staging_confined_to_root [OF example_steps good_example_manager this] show ?thesis by simp
qed

section \<open>Allocating\<close>

text \<open>
  C0. A staging directory is handed out only when it is safe to fill it. A successful allocation
  was asked for a key of letters, digits, \<open>-\<close>, \<open>_\<close> and \<open>@\<close> with a size estimate that is not zero;
  the space free at that moment covers the estimate with its safety margin; fewer accounts than
  the limit were being worked on; and the directory, a new one that did not exist before, is the
  only change to the disk. A failing allocation changes nothing.
\<close>

theorem allocation_is_checked:
  assumes "good_root M" "allocate fs M key estimated d = (r, d')"
  shows "case r of Inl e \<Rightarrow> d' = d
    | Inr staged \<Rightarrow> key \<noteq> [] \<and> list_all key_char key \<and> estimated \<noteq> 0
        \<and> (\<exists>bavail bsize. os_statfs fs (mg_root M) d = Inr (bavail, bsize) \<and> required_bytes fs M estimated \<le> bavail * bsize)
        \<and> (mg_max M \<le> 0 \<or> int (active_count M d) < mg_max M)
        \<and> sd_path staged = mg_root M @ ''/stage-'' @ key \<and> map_of d (sd_path staged) = None
        \<and> d' = (sd_path staged, FDir (os_now fs)) # d"
proof (cases r)
  case (Inl e)
  with assms(2) show ?thesis by (auto dest: allocate_Inl)
next
  case (Inr staged)
  note a = allocate_Inr [OF assms(2) [unfolded Inr]]
  from a(1) have "key \<noteq> []" "list_all key_char key" by (auto simp: validate_key_def split: if_splits)
  moreover have "sd_path staged = mg_root M @ ''/stage-'' @ key"
    using good_root_facts(3) [OF assms(1) valid_key_plain(1) [OF a(1)]] by (simp add: a(6) stage_prefix_def)
  ultimately show ?thesis using a(2,4,5,7,8) by (auto simp: Inr)
qed

theorem allocation_is_checked_witness:
  "map_of [(''/stage'', FDir 1)] ''/stage/stage-bob'' = None"
  using allocation_is_checked [OF good_example_manager example_allocates]
  by (simp add: example_manager_def)

section \<open>Superseding\<close>

lemma release_ok:
  assumes "release fs M (Some dir) d = (Inr u, d')" "lies_under (sd_path dir) q"
  shows "(q, n) \<notin> set d'"
  using assms by (auto simp: release_def fs_remove_all_def split: if_splits option.splits)

lemma loses_subset: "loses P d d' \<Longrightarrow> set d' \<subseteq> set d"
  by (auto simp: loses_def)

lemma supersede_loop_keys:
  "supersede_loop fs M pre os rm d = (Inr rm', d') \<Longrightarrow>
     rm' = rm @ map (sd_key \<circ> ou_dir) (filter (\<lambda>ou. has_prefix (sd_key (ou_dir ou)) pre) os)"
proof (induction os arbitrary: rm d)
  case (Cons ou os)
  show ?case
  proof (cases "has_prefix (sd_key (ou_dir ou)) pre")
    case True
    with Cons.prems obtain d1 where "supersede_loop fs M pre os (rm @ [sd_key (ou_dir ou)]) d1 = (Inr rm', d')"
      by (auto simp: prog_bind_eq_Inr)
    from Cons.IH [OF this] True show ?thesis by simp
  qed (use Cons in auto)
qed simp

lemma supersede_loop_gone:
  "supersede_loop fs M pre os rm d = (Inr rm', d') \<Longrightarrow> ou \<in> set os \<Longrightarrow> has_prefix (sd_key (ou_dir ou)) pre \<Longrightarrow>
     lies_under (sd_path (ou_dir ou)) q \<Longrightarrow> (q, n) \<notin> set d'"
proof (induction os arbitrary: rm d)
  case (Cons ou' os)
  show ?case
  proof (cases "has_prefix (sd_key (ou_dir ou')) pre")
    case True
    with Cons.prems(1) obtain d1 where rel: "release fs M (Some (ou_dir ou')) d = (Inr (), d1)"
        and loop: "supersede_loop fs M pre os (rm @ [sd_key (ou_dir ou')]) d1 = (Inr rm', d')"
      by (auto simp: prog_bind_eq_Inr)
    show ?thesis
    proof (cases "ou = ou'")
      case True
      with release_ok [OF rel, of q n] loses_subset [OF supersede_loop_loses [OF loop]] Cons.prems(4)
      show ?thesis by auto
    next
      case False
      with Cons.IH [OF loop] Cons.prems show ?thesis by simp
    qed
  qed (use Cons in auto)
qed simp

lemma retained_outputs_state: "retained_outputs fs M d = (r, d') \<Longrightarrow> d' = d"
  by (auto simp: retained_outputs_def elim!: bind_cases dest!: list_dirs_state outputs_loop_dirs)

lemma supersede_outputs_Inr:
  "supersede_outputs fs M pre d = (Inr keys, d') \<Longrightarrow>
     \<exists>os. retained_outputs fs M d = (Inr os, d) \<and> supersede_loop fs M pre os [] d = (Inr keys, d')"
  unfolding supersede_outputs_def prog_bind_eq_Inr by (auto dest: retained_outputs_state)

text \<open>
  C0. A newer restore clears exactly the finished output it supersedes. When \<open>SupersedeOutputs\<close>
  succeeds, what is gone from the disk is precisely what lay in the kept directories whose key
  begins with the prefix; every directory that is still being worked in, and every other finished
  output, has all its contents; and the keys reported are those of the directories removed.
\<close>

theorem supersede_removes_exactly:
  assumes "good_root M" "supersede_outputs fs M pre d = (Inr keys, d')"
  shows "map_of d' q =
      (if \<exists>key \<in> set keys. lies_under (mg_root M @ ''/keep-'' @ key) q then None else map_of d q)
    \<and> set keys = {key. has_prefix key pre \<and> (''keep-'' @ key, True) \<in> set (children (mg_root M @ ''/'') d)}"
proof -
  from assms(2) obtain os where os: "retained_outputs fs M d = (Inr os, d)" and
      loop: "supersede_loop fs M pre os [] d = (Inr keys, d')"
    using supersede_outputs_Inr by blast
  note ch = good_root_facts(2) [OF assms(1)]
  have path: "file_join (mg_root M) (keep_prefix @ key) = mg_root M @ ''/keep-'' @ key"
    if "(keep_prefix @ key, b) \<in> set (children pr d)" for key b pr
  proof -
    from that have "CHR ''/'' \<notin> set (keep_prefix @ key)" unfolding children_iff by blast
    then have "plain_seg (keep_prefix @ key)" by (auto simp: plain_seg_def keep_prefix_def)
    from good_root_facts(3) [OF assms(1) this] show ?thesis by (simp add: keep_prefix_def)
  qed
  note o = retained_outputs_Inr(1) [OF os, unfolded ch]
  have "set keys = sd_key ` {dir \<in> ou_dir ` set os. has_prefix (sd_key dir) pre}"
    using supersede_loop_keys [OF loop] by auto
  then have keys: "set keys = {key. has_prefix key pre \<and> (keep_prefix @ key, True) \<in> set (children (mg_root M @ ''/'') d)}"
    unfolding o by force
  have "map_of d' q = None" if "key \<in> set keys" "lies_under (mg_root M @ ''/keep-'' @ key) q" for key
  proof -
    from that(1) keys have k: "has_prefix key pre" "(keep_prefix @ key, True) \<in> set (children (mg_root M @ ''/'') d)" by auto
    then have "\<lparr>sd_path = file_join (mg_root M) (keep_prefix @ key), sd_retained = True, sd_key = key\<rparr> \<in> ou_dir ` set os"
      unfolding o by blast
    then obtain ou where "ou \<in> set os"
        "ou_dir ou = \<lparr>sd_path = file_join (mg_root M) (keep_prefix @ key), sd_retained = True, sd_key = key\<rparr>"
      by (metis imageE)
    then have "ou \<in> set os" "sd_key (ou_dir ou) = key" "sd_path (ou_dir ou) = mg_root M @ ''/keep-'' @ key"
      using path [OF k(2)] by simp_all
    with supersede_loop_gone [OF loop, of ou q] k(1) that(2) show ?thesis by (auto simp: map_of_eq_None_iff)
  qed
  moreover have "map_of d' q = map_of d q" if "\<not> (\<exists>key \<in> set keys. lies_under (mg_root M @ ''/keep-'' @ key) q)"
    using loses_map_of [OF supersede_loses [OF assms(2)], of q] that path unfolding ch keys by fastforce
  ultimately show ?thesis using keys by (auto simp: keep_prefix_def)
qed

theorem supersede_removes_exactly_witness:
  "map_of (snd (supersede_outputs example_os example_manager ''restore''
     ((''/stage/keep-restore1'', FDir 4) # (''/stage/keep-restore1/a.tar'', FFile 9 4) # staged_bob))) ''/stage/stage-bob'' = Some (FDir 5)"
proof -
  let ?d = "(''/stage/keep-restore1'', FDir 4) # (''/stage/keep-restore1/a.tar'', FFile 9 4) # staged_bob"
  let ?run = "supersede_outputs example_os example_manager ''restore'' ?d"
  have "fst ?run = Inr [''restore1'']" by code_simp
  then have run: "?run = (Inr [''restore1''], snd ?run)" by (metis prod.collapse)
  from supersede_removes_exactly [OF good_example_manager run, of "''/stage/stage-bob''"]
  show ?thesis by (simp add: example_manager_def lies_under_def staged_bob_def)
qed

end
