(* ===== verification/Node_Engine.thy ===== *)
theory Node_Engine
  imports Node_Facts Retention_Plan Spec_Build Staging
begin

text \<open>
  The standalone engine around its store and restic: opening a repository with its unsealed
  credentials (\<open>internal/node/node.go\<close>, \<open>secrets.go\<close>) and asking whether anything is in flight.
  The state is the document store, the outside world restic runs in, the staging directory, the
  files cPanel hooks left behind, the messages handed to each channel, and what the process remembers: the settings it loaded, what it
  has already complained about and when it last did its periodic work. What \<open>lastProgress\<close>
  remembers only throttles progress writes and is left out with them.
\<close>

section \<open>The engine\<close>

text \<open>
  \<open>eg_net\<close> reads network addresses, \<open>eg_vault_open\<close> is the sealing library, \<open>eg_decode_secrets\<close> the JSON of a map, \<open>eg_error\<close> the
  text of an error, which is only stored and shown.
\<close>

record ('db, 'x) engine =
  eg_store :: "'db bolt"
  eg_sys :: "'x sys"
  eg_runner :: runner_config
  eg_codec :: json_codec
  eg_net :: net_api
  eg_vault_open :: "string \<Rightarrow> string res"
  eg_decode_secrets :: "string \<Rightarrow> gomap res"
  eg_error :: "err \<Rightarrow> string"

text \<open>
  \<open>notify.Message\<close> without the words of its subject and body, which are only read by people.
\<close>

record message =
  ms_event :: string
  ms_level :: string
  ms_host :: string
  ms_account :: string

record ('db, 'x) engine_state =
  es_db :: 'db
  es_world :: "'x world"
  es_staging :: nodes
  es_spool :: "(string \<times> string) list"
  es_settings :: settings
  es_alerted :: "string list"
  es_last_watch :: instant
  es_last_probe :: instant
  es_last_reconcile :: instant
  es_last_deleted_sweep :: instant
  es_outbox :: "(string \<times> message) list"

text \<open>A process that has just started.\<close>

definition started :: "'db \<Rightarrow> 'x world \<Rightarrow> settings \<Rightarrow> ('db, 'x) engine_state" where
  "started db w st = \<lparr>es_db = db, es_world = w, es_staging = [], es_spool = [], es_settings = st, es_alerted = [],
     es_last_watch = zero_time, es_last_probe = zero_time, es_last_reconcile = zero_time,
     es_last_deleted_sweep = zero_time, es_outbox = []\<rparr>"

lemma started_simps [simp]:
  "es_db (started db w st) = db" "es_world (started db w st) = w" "es_settings (started db w st) = st"
  by (simp_all add: started_def)

type_synonym ('db, 'x, 'a) eprog = "(('db, 'x) engine_state, 'a) prog"

text \<open>The clock's reading and the identifier \<open>NewID\<close> would give next.\<close>

record moment =
  mo_now :: instant
  mo_new_id :: string

text \<open>A call whose error is only logged.\<close>

definition quietly :: "('s, 'a) prog \<Rightarrow> ('s, unit) prog" where
  "quietly m = (\<lambda>s. (Inr (), snd (m s)))"

definition on_store :: "('db, 'a) prog \<Rightarrow> ('db, 'x, 'a) eprog" where
  "on_store m = (\<lambda>s. case m (es_db s) of (r, db) \<Rightarrow> (r, s\<lparr>es_db := db\<rparr>))"

definition on_restic :: "('x world, 'a) prog \<Rightarrow> ('db, 'x, 'a) eprog" where
  "on_restic m = (\<lambda>s. case m (es_world s) of (r, w) \<Rightarrow> (r, s\<lparr>es_world := w\<rparr>))"

section \<open>Opening a repository\<close>

definition dtype_of :: "string \<Rightarrow> dtype" where
  "dtype_of t =
     (if t = ''local'' then TypeLocal else if t = ''sftp'' then TypeSFTP
      else if t = ''rest'' then TypeREST else if t = ''s3'' then TypeS3 else TypeOther t)"

definition open_secret :: "('db, 'x) engine \<Rightarrow> string \<Rightarrow> ('db, 'x, string) eprog" where
  "open_secret E i =
     prog_bind (on_store (get_secret (eg_store E) i)) (\<lambda>sec. prog_lift (eg_vault_open E (sc_ciphertext sec)))"

definition err_wrap :: "string \<Rightarrow> ('s, 'a) prog \<Rightarrow> ('s, 'a) prog" where
  "err_wrap msg m = (\<lambda>s. case m s of (Inl e, s') \<Rightarrow> (Inl (ErrWrap msg e), s') | (Inr a, s') \<Rightarrow> (Inr a, s'))"

definition decode_secrets :: "('db, 'x) engine \<Rightarrow> string \<Rightarrow> ('db, 'x, gomap) eprog" where
  "decode_secrets E plaintext = err_wrap ''node: decode credentials'' (prog_lift (eg_decode_secrets E plaintext))"

definition build_spec :: "('db, 'x) engine \<Rightarrow> destination \<Rightarrow> ('db, 'x, dest_spec) eprog" where
  "build_spec E dest =
     prog_bind
       (if ds_credentials_secret_id dest \<noteq> [] then
          prog_bind (err_wrap ''node: destination credentials'' (open_secret E (ds_credentials_secret_id dest)))
            (decode_secrets E)
        else prog_return [])
       (\<lambda>secrets. prog_return \<lparr>dest_spec.ds_type = dtype_of (destination.ds_type dest),
          dest_spec.ds_config = destination.ds_config dest, dest_spec.ds_secrets = secrets\<rparr>)"

definition open_repository :: "('db, 'x) engine \<Rightarrow> string \<Rightarrow> bool \<Rightarrow> ('db, 'x, repository_handle) eprog" where
  "open_repository E i maintenance =
     prog_bind (on_store (get_repository (eg_store E) i)) (\<lambda>repo.
     prog_bind (on_store (get_destination (eg_store E) (rp_destination_id repo))) (\<lambda>dest.
     prog_bind (build_spec E dest) (\<lambda>spec.
       let spec = (if maintenance then for_maintenance spec else spec) in
     prog_bind (prog_lift (build spec)) (\<lambda>built.
     prog_bind (err_wrap ''node: repository password'' (open_secret E (rp_password_secret_id repo))) (\<lambda>password.
       prog_return \<lparr>rp_dest = Some (backend_of (eg_net E) built), rp_path = rp_repo_path repo, rp_password = password\<rparr>)))))"

section \<open>What is in flight, and what was left unfinished\<close>

fun incomplete_targets :: "string \<Rightarrow> job_target list \<Rightarrow> string list" where
  "incomplete_targets i [] = []"
| "incomplete_targets i (t # ts) =
     (if jt_repository_id t = i \<and> jt_incomplete t \<and> jt_snapshot_id t \<noteq> []
      then jt_snapshot_id t # incomplete_targets i ts else incomplete_targets i ts)"

definition incomplete_snapshots :: "('db, 'x) engine \<Rightarrow> string \<Rightarrow> ('db, 'x, string list) eprog" where
  "incomplete_snapshots E i =
     prog_bind (on_store (jobs (eg_store E) 0)) (\<lambda>js.
       prog_return (concat (map (\<lambda>j. incomplete_targets i (jb_targets j)) js)))"

definition any_job_running :: "('db, 'x) engine \<Rightarrow> ('db, 'x, bool) eprog" where
  "any_job_running E =
     prog_bind (on_store (jobs (eg_store E) 0)) (\<lambda>js.
       if list_ex (\<lambda>j. \<not> terminal (jb_status j)) js then prog_return True
       else prog_bind (on_store (restores (eg_store E) 0)) (\<lambda>rs.
         prog_return (list_ex (\<lambda>r. \<not> terminal (re_status r)) rs)))"

section \<open>What a program does to the world\<close>

text \<open>The commands a program adds to the record all satisfy P.\<close>

definition commands_only :: "(string list \<Rightarrow> bool) \<Rightarrow> ('db, 'x, 'a) eprog \<Rightarrow> bool" where
  "commands_only P m \<longleftrightarrow>
     (\<forall>s r s'. m s = (r, s') \<longrightarrow>
        (\<exists>new. w_log (es_world s') = w_log (es_world s) @ new \<and> list_all P new))"

named_theorems commands \<open>what programs of the engine run\<close>

lemma commands_only_basic [commands]:
  "commands_only P (prog_return a)" "commands_only P (prog_fail e)" "commands_only P (prog_lift r)"
  "commands_only P (on_store m)"
  by (auto simp: commands_only_def on_store_def split: prod.splits)

lemma commands_only_restic [commands]: "logs_only P m \<Longrightarrow> commands_only P (on_restic m)"
  by (auto simp: commands_only_def logs_only_def on_restic_def split: prod.splits)

lemma commands_only_step:
  assumes "m s = (r1, s1)" "commands_only P m"
    and "\<And>a. r1 = Inr a \<Longrightarrow> \<exists>new. w_log (es_world (snd (f a s1))) = w_log (es_world s1) @ new \<and> list_all P new"
  shows "\<exists>new. w_log (es_world (snd (prog_bind m f s))) = w_log (es_world s) @ new \<and> list_all P new"
proof -
  from assms(1,2) obtain new1 where n1: "w_log (es_world s1) = w_log (es_world s) @ new1" "list_all P new1"
    unfolding commands_only_def by blast
  show ?thesis
  proof (cases r1)
    case (Inl e)
    with assms(1) n1 show ?thesis by auto
  next
    case (Inr a)
    from assms(3) [OF Inr] obtain new2 where "w_log (es_world (snd (f a s1))) = w_log (es_world s1) @ new2" "list_all P new2"
      by blast
    with assms(1) Inr n1 show ?thesis by (auto intro!: exI [of _ "new1 @ new2"])
  qed
qed

lemma commands_only_iff:
  "commands_only P m \<longleftrightarrow> (\<forall>s. \<exists>new. w_log (es_world (snd (m s))) = w_log (es_world s) @ new \<and> list_all P new)"
  unfolding commands_only_def by (metis prod.collapse snd_conv)

lemma commands_only_bind:
  assumes "commands_only P m" "\<And>a. commands_only P (f a)"
  shows "commands_only P (prog_bind m f)"
  unfolding commands_only_iff
proof
  fix s
  obtain r1 s1 where m: "m s = (r1, s1)" by force
  show "\<exists>new. w_log (es_world (snd (prog_bind m f s))) = w_log (es_world s) @ new \<and> list_all P new"
    by (rule commands_only_step [OF m assms(1)]) (use assms(2) in \<open>simp add: commands_only_iff\<close>)
qed

lemma commands_only_wrap [commands]: "commands_only P m \<Longrightarrow> commands_only P (err_wrap msg m)"
  by (fastforce simp: commands_only_def err_wrap_def split: prod.splits sum.splits)

lemma commands_only_quietly [commands]: "commands_only P m \<Longrightarrow> commands_only P (quietly m)"
  unfolding commands_only_iff by (simp add: quietly_def)

lemma commands_only_open_secret [commands]: "commands_only P (open_secret E i)"
  unfolding open_secret_def by (intro commands_only_bind commands)

lemma commands_only_build_spec [commands]: "commands_only P (build_spec E dest)"
  unfolding build_spec_def decode_secrets_def
  by (cases "ds_credentials_secret_id dest = []") (simp_all, (intro commands_only_bind commands)+)

lemma commands_only_open_repository [commands]: "commands_only P (open_repository E i m)"
  unfolding open_repository_def Let_def by (intro commands_only_bind commands)

lemma commands_only_incomplete [commands]: "commands_only P (incomplete_snapshots E i)"
  unfolding incomplete_snapshots_def by (intro commands_only_bind commands)

text \<open>Reading leaves the state as it was.\<close>

definition reads_only :: "('db, 'x, 'a) eprog \<Rightarrow> bool" where
  "reads_only m \<longleftrightarrow> (\<forall>s. snd (m s) = s)"

lemma reads_only_basic [commands]:
  "reads_only (prog_return a)" "reads_only (prog_fail e)" "reads_only (prog_lift r)"
  by (simp_all add: reads_only_def)

lemma reads_only_bind: "reads_only m \<Longrightarrow> (\<And>a. reads_only (f a)) \<Longrightarrow> reads_only (prog_bind m f)"
proof -
  assume m: "reads_only m" and f: "\<And>a. reads_only (f a)"
  have "snd (prog_bind m f s) = s" for s
    using m f by (cases "m s"; cases "fst (m s)") (auto simp: reads_only_def prog_bind_def dest: spec [of _ s])
  then show "reads_only (prog_bind m f)" by (simp add: reads_only_def)
qed

lemma reads_only_store:
  fixes m :: "('db, 'a) prog"
  assumes "\<And>db. snd (m db) = db"
  shows "reads_only (on_store m :: ('db, 'x, 'a) eprog)"
  unfolding reads_only_def
proof
  fix s :: "('db, 'x) engine_state"
  show "snd (on_store m s) = s"
    using assms [of "es_db s"] by (cases "m (es_db s)") (simp add: on_store_def)
qed

lemma snd_sorted_list [simp]: "snd (sorted_list B b sel lt s) = s"
  using sorted_list_state by (metis prod.collapse)

lemma snd_listing [simp]: "snd (jobs B n s) = s" "snd (restores B n s) = s" "snd (policies B s) = s"
    "snd (repositories B s) = s" "snd (get_repository B i s) = s" "snd (get_destination B i s) = s"
    "snd (get_secret B i s) = s"
proof -
  have "snd (prog_bind (sorted_list B b sel lt) (\<lambda>xs. prog_return (f xs)) s) = s" for b and sel :: "doc \<Rightarrow> 'b option" and lt f
    by (cases "sorted_list B b sel lt s") (auto simp: prog_bind_def dest: sorted_list_state split: sum.splits)
  then show "snd (jobs B n s) = s" "snd (restores B n s) = s" by (simp_all add: jobs_def restores_def)
qed (simp_all add: policies_def repositories_def get_repository_def get_destination_def get_secret_def)

lemma snd_reading [simp]: "snd (get_settings B s) = s" "snd (destinations B s) = s" "snd (running_job_for B i s) = s"
    "snd (get_identity B i s) = s" "snd (identities B s) = s" "snd (channels B s) = s" "snd (get_channel B i s) = s"
    "snd (get_policy B i s) = s" "snd (get_job B i s) = s" "snd (get_restore B i s) = s" "snd (pending_work B s) = s"
proof -
  have s_get: "snd (s_get B b k sel s) = s" for b k and sel :: "doc \<Rightarrow> 'c option" by simp
  have "snd (or_default m d t) = t" if "snd (m t) = t" for m :: "('a, 'c) prog" and d t
    using that by (cases "m t") (auto simp: or_default_def split: sum.splits)
  from this [of "s_get B BSettings settings_key as_settings"] show "snd (get_settings B s) = s"
    by (simp add: get_settings_def)
  have js: "snd (jobs B 0 s) = s" and rs: "snd (restores B 0 s) = s" by simp_all
  show "snd (running_job_for B i s) = s"
    using js rs by (cases "jobs B 0 s"; cases "restores B 0 s"; cases "fst (jobs B 0 s)"; cases "fst (restores B 0 s)")
      (auto simp: running_job_for_def prog_bind_def)
  show "snd (pending_work B s) = s"
    using js rs by (cases "jobs B 0 s"; cases "restores B 0 s"; cases "fst (jobs B 0 s)"; cases "fst (restores B 0 s)")
      (auto simp: pending_work_def prog_bind_def split: option.splits)
qed (simp_all add: destinations_def get_identity_def identities_def channels_def get_channel_def get_policy_def
    get_job_def get_restore_def)

lemma reads_only_engine [commands]:
  "reads_only (open_secret E i)" "reads_only (incomplete_snapshots E i)" "reads_only (any_job_running E)"
  unfolding open_secret_def incomplete_snapshots_def any_job_running_def
  by (auto intro!: reads_only_bind reads_only_store commands)

lemma reads_only_wrap [commands]: "reads_only m \<Longrightarrow> reads_only (err_wrap msg m)"
proof -
  assume m: "reads_only m"
  have "snd (err_wrap msg m s) = s" for s
    using m by (cases "m s"; cases "fst (m s)") (auto simp: reads_only_def err_wrap_def dest: spec [of _ s])
  then show "reads_only (err_wrap msg m)" by (simp add: reads_only_def)
qed

lemma reads_only_build_spec [commands]: "reads_only (build_spec E dest)"
  unfolding build_spec_def decode_secrets_def
  by (auto intro!: reads_only_bind commands)

lemma reads_only_open_repository [commands]: "reads_only (open_repository E i m)"
  unfolding open_repository_def Let_def
  by (intro reads_only_bind reads_only_store commands) simp_all

lemma reads_bind:
  assumes "reads_only m"
  shows "prog_bind m f s = (case fst (m s) of Inl e \<Rightarrow> (Inl e, s) | Inr a \<Rightarrow> f a s)"
  using assms by (cases "m s"; cases "fst (m s)") (auto simp: reads_only_def prog_bind_def dest: spec [of _ s])

lemma reads_only_if [commands]: "reads_only m \<Longrightarrow> reads_only n \<Longrightarrow> reads_only (if b then m else n)"
  by simp

lemma reads_only_Inr:
  assumes "reads_only m"
  shows "prog_bind m f s = (Inr b, t) \<longleftrightarrow> (\<exists>a. m s = (Inr a, s) \<and> f a s = (Inr b, t))"
proof -
  have "u = s" if "m s = (a, u)" for a u
    using assms that by (metis reads_only_def snd_conv)
  then show ?thesis by (auto simp: prog_bind_eq_Inr)
qed

lemma reads_only_Inl:
  assumes "reads_only m" "prog_bind m f s = (Inl e, t)"
  shows "t = s \<or> (\<exists>a. m s = (Inr a, s) \<and> f a s = (Inl e, t))"
proof (cases "fst (m s)")
  case (Inl e')
  with assms(2) show ?thesis by (simp add: reads_bind [OF assms(1)])
next
  case (Inr a)
  moreover have "snd (m s) = s" using assms(1) by (simp add: reads_only_def)
  ultimately have "m s = (Inr a, s)" by (simp add: prod_eq_iff)
  with assms(2) show ?thesis by simp
qed

lemma idle_account:
  assumes "bolt_store B" "running_job_for B account s = (Inr False, t)"
  shows "stored B BJobs as_job j s \<Longrightarrow> jb_account j = account \<Longrightarrow> terminal (jb_status j)"
    "stored B BRestores as_restore r s \<Longrightarrow> re_account r = account \<Longrightarrow> terminal (re_status r)"
proof -
  from assms(2) obtain js s1 where js: "jobs B 0 s = (Inr js, s1)"
    and rest: "\<forall>j \<in> set js. jb_account j = account \<longrightarrow> terminal (jb_status j)"
      "prog_bind (restores B 0) (\<lambda>rs. prog_return (list_ex (\<lambda>r. re_account r = account \<and> \<not> terminal (re_status r)) rs)) s1
        = (Inr False, t)"
    by (auto simp: running_job_for_def prog_bind_eq_Inr [of "jobs B 0"] list_ex_iff split: if_splits)
  have l1: "jobs B 0 s = (Inr js, s)" "s1 = s" using js bolt_store.jobs_Inr(1) [OF assms(1) js] by auto
  with rest(2) obtain rs s2 where rs: "restores B 0 s = (Inr rs, s2)"
    and "\<forall>r \<in> set rs. re_account r = account \<longrightarrow> terminal (re_status r)"
    by (auto simp: prog_bind_eq_Inr list_ex_iff)
  then have l: "jobs B 0 s = (Inr js, s)" "restores B 0 s = (Inr rs, s)"
    and idle: "\<forall>j \<in> set js. jb_account j = account \<longrightarrow> terminal (jb_status j)"
      "\<forall>r \<in> set rs. re_account r = account \<longrightarrow> terminal (re_status r)"
    using l1 rest(1) bolt_store.restores_Inr(1) [OF assms(1) rs] by auto
  show "stored B BJobs as_job j s \<Longrightarrow> jb_account j = account \<Longrightarrow> terminal (jb_status j)"
    using idle(1) bolt_store.jobs_Inr(2) [OF assms(1) l(1)] by blast
  show "stored B BRestores as_restore r s \<Longrightarrow> re_account r = account \<Longrightarrow> terminal (re_status r)"
    using idle(2) bolt_store.restores_Inr(2) [OF assms(1) l(2)] by blast
qed

section \<open>What programs keep\<close>

definition maintains :: "('s \<Rightarrow> bool) \<Rightarrow> ('s, 'a) prog \<Rightarrow> bool" where
  "maintains P m \<longleftrightarrow> (\<forall>s. P s \<longrightarrow> P (snd (m s)))"

named_theorems maintained \<open>what programs keep\<close>

lemma maintains_basic [maintained]: "maintains P (prog_return a)" "maintains P (prog_fail e)" "maintains P (prog_lift r)"
  by (simp_all add: maintains_def)

lemma maintains_bind: "maintains P m \<Longrightarrow> (\<And>a. maintains P (f a)) \<Longrightarrow> maintains P (prog_bind m f)"
  unfolding maintains_def
proof (intro allI impI)
  fix s assume m: "\<forall>s. P s \<longrightarrow> P (snd (m s))" and f: "\<And>a. \<forall>s. P s \<longrightarrow> P (snd (f a s))" and "P s"
  then have "P (snd (m s))" by blast
  with f show "P (snd (prog_bind m f s))"
    by (cases "m s"; cases "fst (m s)") (auto simp: prog_bind_def)
qed

lemma maintains_if: "(b \<Longrightarrow> maintains P m) \<Longrightarrow> (\<not> b \<Longrightarrow> maintains P n) \<Longrightarrow> maintains P (if b then m else n)"
  by simp

lemma maintains_quietly [maintained]: "maintains P m \<Longrightarrow> maintains P (quietly m)"
  by (simp add: maintains_def quietly_def)

lemma maintains_reads: "reads_only m \<Longrightarrow> maintains P m"
  by (simp add: maintains_def reads_only_def)

text \<open>What a step is told about its input may be used to show that the rest keeps a property.\<close>

lemma maintains_from:
  assumes "\<And>a t. m s = (Inr a, t) \<Longrightarrow> P t \<Longrightarrow> P (snd (f a t))" "P (snd (m s))"
  shows "P (snd (prog_bind m f s))"
  using assms by (cases "m s"; cases "fst (m s)") (auto simp: prog_bind_def)

text \<open>An error is looked at instead of being passed on.\<close>

definition attempt :: "('s, 'a) prog \<Rightarrow> ('s, 'a res) prog" where
  "attempt m = (\<lambda>s. case m s of (r, t) \<Rightarrow> (Inr r, t))"

lemma attempt_eq: "attempt m s = (Inr (fst (m s)), snd (m s))"
  by (simp add: attempt_def split: prod.splits)

lemma maintains_attempt [maintained]: "maintains P m \<Longrightarrow> maintains P (attempt m)"
  by (simp add: maintains_def attempt_eq)

lemma reads_only_attempt [commands]: "reads_only m \<Longrightarrow> reads_only (attempt m)"
  by (simp add: reads_only_def attempt_eq)

section \<open>The snapshots of an account\<close>

definition engine_snapshots :: "('db, 'x) engine \<Rightarrow> string \<Rightarrow> string \<Rightarrow> ('db, 'x, snapshot list) eprog" where
  "engine_snapshots E i account =
     prog_bind (open_repository E i False) (\<lambda>repo.
     prog_bind (on_restic (snapshots (eg_sys E) (eg_runner E) (eg_codec E) repo
         \<lparr>sf_tags = (if account \<noteq> [] then [''account:'' @ account] else []), sf_host = [], sf_latest = 0\<rparr>)) (\<lambda>ss.
     prog_bind (incomplete_snapshots E i) (\<lambda>incomplete.
       prog_return (map (\<lambda>s. s\<lparr>sn_read_failed := sn_id s \<in> set incomplete\<rparr>) ss))))"

end
