(* ===== verification/Node_Retention.thy ===== *)
theory Node_Retention
  imports Node_Engine
begin

text \<open>
  Deciding what may be deleted: \<open>internal/node/retention.go\<close>. Every repository is planned with a
  dry run first; nothing is deleted before an operator approved the keep policy in force.
\<close>

section \<open>The keep policy of a repository\<close>

definition merge_keeps :: "retention \<Rightarrow> retention \<Rightarrow> retention" where
  "merge_keeps merged r =
     \<lparr>keep_last = max (keep_last merged) (keep_last r), keep_daily = max (keep_daily merged) (keep_daily r),
      keep_weekly = max (keep_weekly merged) (keep_weekly r),
      keep_monthly = max (keep_monthly merged) (keep_monthly r),
      keep_yearly = max (keep_yearly merged) (keep_yearly r)\<rparr>"

fun merged_loop :: "policy list \<Rightarrow> string \<Rightarrow> retention \<Rightarrow> retention" where
  "merged_loop [] i merged = merged"
| "merged_loop (p # ps) i merged =
     (if \<not> po_enabled p then merged_loop ps i merged
      else if \<not> list_ex (\<lambda>x. x = i) (po_repository_ids p) then merged_loop ps i merged
      else merged_loop ps i (merge_keeps merged (po_retention p)))"

definition merged_retention :: "policy list \<Rightarrow> string \<Rightarrow> retention" where
  "merged_retention ps i = merged_loop ps i no_keeps"

definition empty_retention :: "retention \<Rightarrow> bool" where
  "empty_retention r \<longleftrightarrow> keep_last r = 0 \<and> keep_daily r = 0 \<and> keep_weekly r = 0 \<and> keep_monthly r = 0
     \<and> keep_yearly r = 0"

definition spec_for :: "retention \<Rightarrow> bool \<Rightarrow> bool \<Rightarrow> forget_spec" where
  "spec_for kp dry_run and_prune =
     \<lparr>fs_protected = [], fs_keep_last = keep_last kp, fs_keep_daily = keep_daily kp,
      fs_keep_weekly = keep_weekly kp, fs_keep_monthly = keep_monthly kp,
      fs_keep_yearly = keep_yearly kp, fs_tags = [], fs_group_by = [], fs_prune = and_prune,
      fs_dry_run = dry_run\<rparr>"

definition describe_keeps :: "retention \<Rightarrow> string" where
  "describe_keeps kp =
     (let parts = concat (map (\<lambda>(count, before, after). if count > 0 then [before @ itoa count @ after] else [])
        [(keep_last kp, ''the last '', []), (keep_daily kp, [], '' daily''),
         (keep_weekly kp, [], '' weekly''), (keep_monthly kp, [], '' monthly''),
         (keep_yearly kp, [], '' yearly'')])
      in if parts = [] then ''nothing'' else join_with '', '' parts)"

definition retention_for :: "('db, 'x) engine \<Rightarrow> string \<Rightarrow> ('db, 'x, retention) eprog" where
  "retention_for E i =
     prog_bind (on_store (policies (eg_store E))) (\<lambda>ps.
       let kp = merged_retention ps i in
       if empty_retention kp
       then prog_fail (ErrMsg ''node: no enabled schedule writing to this destination says how much to keep, so there is nothing to apply'' [])
       else prog_return kp)"

section \<open>The state kept beside a repository\<close>

definition plan_row :: "forget_group \<Rightarrow> plan_group" where
  "plan_row g =
     \<lparr>pg_protected = fg_protected g, pg_account = fg_account g, pg_host = fg_host g, pg_keep = fg_kept g,
      pg_drop = fg_removed g, pg_oldest = (if is_zero (fg_oldest g) then None else Some (fg_oldest g)),
      pg_newest = (if is_zero (fg_newest g) then None else Some (fg_newest g))\<rparr>"

definition plan_groups :: "forget_plan \<Rightarrow> plan_group list" where
  "plan_groups plan = map plan_row (fp_groups plan)"

definition record_retention :: "('db, 'x) engine \<Rightarrow> moment \<Rightarrow> string \<Rightarrow> (retention_state \<Rightarrow> retention_state) \<Rightarrow>
    ('db, 'x, retention_state) eprog" where
  "record_retention E m i update =
     prog_bind (on_store (get_repository (eg_store E) i)) (\<lambda>stored.
       let state = update (rp_retention stored) in
       prog_bind (on_store (put_repository (eg_store E) (mo_new_id m) (mo_now m) (stored\<lparr>rp_retention := state\<rparr>)))
         (\<lambda>_. prog_return state))"

text \<open>The reason is recorded, a failure to record it is only logged, and the reason is returned.\<close>

definition retention_failed :: "('db, 'x) engine \<Rightarrow> moment \<Rightarrow> string \<Rightarrow> err \<Rightarrow> ('db, 'x, 'a) eprog" where
  "retention_failed E m i cause =
     prog_bind (quietly (record_retention E m i (\<lambda>state.
         state\<lparr>rt_attempted_at := Some (mo_now m), rt_last_error := eg_error E cause\<rparr>)))
       (\<lambda>_. prog_fail cause)"

text \<open>A call that hands its error to \<open>retentionFailed\<close>.\<close>

definition or_failed :: "('db, 'x) engine \<Rightarrow> moment \<Rightarrow> string \<Rightarrow> (err \<Rightarrow> err) \<Rightarrow> ('db, 'x, 'a) eprog \<Rightarrow> ('db, 'x, 'a) eprog" where
  "or_failed E m i wrap p =
     (\<lambda>s. case p s of (Inl e, s') \<Rightarrow> retention_failed E m i (wrap e) s' | (Inr a, s') \<Rightarrow> (Inr a, s'))"

section \<open>Plan, apply, approve, withdraw\<close>

definition planned :: "('db, 'x) engine \<Rightarrow> repository_handle \<Rightarrow> forget_spec \<Rightarrow> ('db, 'x, forget_plan) eprog" where
  "planned E repo spec = on_restic (forget_planned (eg_sys E) (eg_runner E) (eg_codec E) repo spec)"

definition plan_retention :: "('db, 'x) engine \<Rightarrow> moment \<Rightarrow> string \<Rightarrow> ('db, 'x, retention_state) eprog" where
  "plan_retention E m i =
     prog_bind (retention_for E i) (\<lambda>kp.
     prog_bind (open_repository E i True) (\<lambda>repo.
     prog_bind (incomplete_snapshots E i) (\<lambda>incomplete.
     prog_bind (or_failed E m i id (planned E repo ((spec_for kp True False)\<lparr>fs_protected := incomplete\<rparr>))) (\<lambda>plan.
       record_retention E m i (\<lambda>state. state\<lparr>rt_planned_at := Some (mo_now m), rt_planned_keeps := kp,
         rt_plan := plan_groups plan, rt_would_keep := fp_kept plan, rt_would_drop := fp_removed plan,
         rt_last_error := []\<rparr>)))))"

definition not_reclaimed :: "err \<Rightarrow> err" where
  "not_reclaimed e = ErrWrap ''the backups were removed but the space they held could not be reclaimed'' e"

definition apply_retention :: "('db, 'x) engine \<Rightarrow> moment \<Rightarrow> string \<Rightarrow> ('db, 'x, nat) eprog" where
  "apply_retention E m i =
     prog_bind (on_store (get_repository (eg_store E) i)) (\<lambda>stored.
       if rp_approved_at stored = None
       then prog_fail (ErrMsg ''node: retention has not been approved for this destination yet'' [])
       else prog_bind (retention_for E i) (\<lambda>kp.
         if kp \<noteq> rp_approved_keeps stored
         then prog_fail (ErrMsg ''node: what would be kept here has changed since it was approved''
                [describe_keeps kp, describe_keeps (rp_approved_keeps stored)])
         else prog_bind (open_repository E i True) (\<lambda>repo.
           prog_bind (incomplete_snapshots E i) (\<lambda>incomplete.
           prog_bind (or_failed E m i id (planned E repo ((spec_for kp False False)\<lparr>fs_protected := incomplete\<rparr>))) (\<lambda>plan.
           prog_bind (if fp_removed plan > 0
               then or_failed E m i not_reclaimed (on_restic (prune (eg_sys E) (eg_runner E) repo))
               else prog_return ()) (\<lambda>_.
           prog_bind (record_retention E m i (\<lambda>state. state\<lparr>rt_applied_at := Some (mo_now m),
               rt_dropped := fp_removed plan, rt_planned_at := Some (mo_now m), rt_plan := plan_groups plan,
               rt_would_keep := fp_kept plan, rt_would_drop := 0, rt_last_error := []\<rparr>)) (\<lambda>_.
             prog_return (fp_removed plan))))))))"

definition approve_retention :: "('db, 'x) engine \<Rightarrow> moment \<Rightarrow> string \<Rightarrow> ('db, 'x, unit) eprog" where
  "approve_retention E m i =
     prog_bind (on_store (get_repository (eg_store E) i)) (\<lambda>stored.
       if rt_planned_at (rp_retention stored) = None
       then prog_fail (ErrMsg ''node: nothing has been planned for this destination yet, so there is nothing to approve'' [])
       else prog_bind (retention_for E i) (\<lambda>kp.
         if kp \<noteq> rt_planned_keeps (rp_retention stored)
         then prog_fail (ErrMsg ''node: the schedules changed while this plan was on screen''
                [describe_keeps kp, describe_keeps (rt_planned_keeps (rp_retention stored))])
         else prog_bind (on_store (put_repository (eg_store E) (mo_new_id m) (mo_now m)
             (stored\<lparr>rp_approved_at := Some (mo_now m), rp_approved_keeps := kp\<rparr>))) (\<lambda>_. prog_return ())))"

definition withdraw_retention :: "('db, 'x) engine \<Rightarrow> moment \<Rightarrow> string \<Rightarrow> ('db, 'x, unit) eprog" where
  "withdraw_retention E m i =
     prog_bind (on_store (get_repository (eg_store E) i)) (\<lambda>stored.
       prog_bind (on_store (put_repository (eg_store E) (mo_new_id m) (mo_now m)
         (stored\<lparr>rp_approved_at := None, rp_approved_keeps := no_keeps\<rparr>))) (\<lambda>_. prog_return ()))"

definition plan_approvable :: "repository \<Rightarrow> retention \<Rightarrow> bool" where
  "plan_approvable repo kp \<longleftrightarrow>
     rt_planned_at (rp_retention repo) \<noteq> None \<and> rt_planned_keeps (rp_retention repo) = kp"

definition approval_covers :: "repository \<Rightarrow> retention \<Rightarrow> bool" where
  "approval_covers repo kp \<longleftrightarrow> rp_approved_at repo \<noteq> None \<and> rp_approved_keeps repo = kp"

section \<open>The sweep\<close>

definition retention_every :: duration where "retention_every = 20 * hour"

fun latest_of :: "instant option list \<Rightarrow> instant \<Rightarrow> instant" where
  "latest_of [] latest = latest"
| "latest_of (a # as) latest =
     latest_of as (case a of Some t \<Rightarrow> if t > latest then t else latest | None \<Rightarrow> latest)"

definition last_retention_attempt :: "retention_state \<Rightarrow> instant" where
  "last_retention_attempt state =
     latest_of [rt_planned_at state, rt_applied_at state, rt_attempted_at state] zero_time"

fun sweep_loop :: "('db, 'x) engine \<Rightarrow> moment \<Rightarrow> instant \<Rightarrow> repository list \<Rightarrow> ('db, 'x, unit) eprog" where
  "sweep_loop E m now [] = prog_return ()"
| "sweep_loop E m now (repo # repos) =
     (if rp_initialised_at repo = None then sweep_loop E m now repos
      else let last = last_retention_attempt (rp_retention repo) in
      if \<not> is_zero last \<and> time_sub now last < retention_every then sweep_loop E m now repos
      else (\<lambda>s. case retention_for E (rp_id repo) s of
          (Inl e, s') \<Rightarrow> sweep_loop E m now repos s'
        | (Inr kp, s') \<Rightarrow>
            (if \<not> approval_covers repo kp then quietly (plan_retention E m (rp_id repo)) s'
             else quietly (apply_retention E m (rp_id repo)) s')))"

definition sweep_retention :: "('db, 'x) engine \<Rightarrow> moment \<Rightarrow> instant \<Rightarrow> ('db, 'x, unit) eprog" where
  "sweep_retention E m now =
     (\<lambda>s. case any_job_running E s of
        (Inl e, s') \<Rightarrow> (Inr (), s')
      | (Inr busy, s') \<Rightarrow>
          (if busy then (Inr (), s')
           else case on_store (repositories (eg_store E)) s' of
               (Inl e, s'') \<Rightarrow> (Inr (), s'')
             | (Inr repos, s'') \<Rightarrow> sweep_loop E m now repos s''))"

section \<open>The merged policy\<close>

definition writes_here :: "string \<Rightarrow> policy \<Rightarrow> bool" where
  "writes_here i p \<longleftrightarrow> po_enabled p \<and> i \<in> set (po_repository_ids p)"

definition at_most :: "retention \<Rightarrow> retention \<Rightarrow> bool" where
  "at_most a b \<longleftrightarrow> keep_last a \<le> keep_last b \<and> keep_daily a \<le> keep_daily b \<and> keep_weekly a \<le> keep_weekly b
     \<and> keep_monthly a \<le> keep_monthly b \<and> keep_yearly a \<le> keep_yearly b"

lemma at_most_refl [simp]: "at_most a a"
  by (simp add: at_most_def)

lemma at_most_trans: "at_most a b \<Longrightarrow> at_most b c \<Longrightarrow> at_most a c"
  by (auto simp: at_most_def)

lemma merge_keeps_upper: "at_most a (merge_keeps a b)" "at_most b (merge_keeps a b)"
  by (simp_all add: at_most_def merge_keeps_def)

lemma merge_keeps_least: "at_most a c \<Longrightarrow> at_most b c \<Longrightarrow> at_most (merge_keeps a b) c"
  by (simp add: at_most_def merge_keeps_def)

lemma merged_loop_upper:
  "at_most m (merged_loop ps i m) \<and> (\<forall>p \<in> set ps. writes_here i p \<longrightarrow> at_most (po_retention p) (merged_loop ps i m))"
proof (induction ps i m rule: merged_loop.induct)
  case (2 p ps i m)
  show ?case
  proof (cases "writes_here i p")
    case True
    let ?m = "merge_keeps m (po_retention p)"
    from True have eq: "merged_loop (p # ps) i m = merged_loop ps i ?m" "po_enabled p"
        "list_ex (\<lambda>x. x = i) (po_repository_ids p)"
      by (auto simp: writes_here_def list_ex_iff)
    with 2(3) have ih: "at_most ?m (merged_loop ps i ?m)"
        "\<forall>p \<in> set ps. writes_here i p \<longrightarrow> at_most (po_retention p) (merged_loop ps i ?m)"
      by simp_all
    from at_most_trans [OF merge_keeps_upper(1) ih(1)] at_most_trans [OF merge_keeps_upper(2) ih(1)] ih(2)
    show ?thesis unfolding eq(1) by simp
  next
    case False
    then have eq: "merged_loop (p # ps) i m = merged_loop ps i m"
      by (auto simp: writes_here_def list_ex_iff)
    have "at_most m (merged_loop ps i m) \<and> (\<forall>p \<in> set ps. writes_here i p \<longrightarrow> at_most (po_retention p) (merged_loop ps i m))"
      using 2(1,2) False by (cases "po_enabled p") (auto simp: writes_here_def list_ex_iff)
    with False show ?thesis unfolding eq by simp
  qed
qed simp

lemma merged_loop_least:
  "at_most m c \<Longrightarrow> \<forall>p \<in> set ps. writes_here i p \<longrightarrow> at_most (po_retention p) c \<Longrightarrow> at_most (merged_loop ps i m) c"
proof (induction ps i m rule: merged_loop.induct)
  case (2 p ps i m)
  then show ?case
    using merge_keeps_least [of m c "po_retention p"] by (auto simp: writes_here_def list_ex_iff)
qed simp

section \<open>No command without an approval\<close>

definition asked_ids_free :: "string list \<Rightarrow> string list \<Rightarrow> bool" where
  "asked_ids_free inc args \<longleftrightarrow> (deletes args \<longrightarrow> tl args \<noteq> [] \<and> (\<forall>x \<in> set (tl args). x \<notin> set inc))"

lemma forget_planned_protects:
  "logs_only (asked_ids_free (fs_protected spec)) (forget_planned S cfg J repo spec)"
proof (rule logs_only_forget_planned)
  fix groups w0 w1 w2 completed w3 safe remove
  assume safe: "safe_loop spec completed groups [] [] = (safe, remove)" and ne: "remove \<noteq> []"
  have "x \<notin> set (fs_protected spec)" if x: "x \<in> set remove" for x
  proof -
    from removed_ids_settled [OF safe x] obtain g sn where
      "group_settled spec completed g" "sn \<in> set (rg_remove g)" "x = sn_id sn" by auto
    then show ?thesis by (auto simp: group_settled_def untouchable_def)
  qed
  with ne show "asked_ids_free (fs_protected spec) (''forget'' # remove)"
    by (auto simp: asked_ids_free_def)
qed (simp add: asked_ids_free_def)

lemma forget_planned_dry:
  "fs_dry_run spec \<Longrightarrow> logs_only (\<lambda>args. \<not> deletes args) (forget_planned S cfg J repo spec)"
  by (rule logs_only_forget_planned) auto

lemma commands_only_record [commands]: "commands_only P (record_retention E m i f)"
  unfolding record_retention_def Let_def by (intro commands_only_bind commands)

lemma commands_only_failed [commands]: "commands_only P (retention_failed E m i e)"
  unfolding retention_failed_def by (intro commands_only_bind commands)

lemma commands_only_or_failed [commands]:
  assumes "commands_only P p"
  shows "commands_only P (or_failed E m i w p)"
  unfolding commands_only_iff
proof
  fix s
  obtain r1 s1 where p: "p s = (r1, s1)" by force
  with assms obtain n1 where n1: "w_log (es_world s1) = w_log (es_world s) @ n1" "list_all P n1"
    unfolding commands_only_def by blast
  show "\<exists>new. w_log (es_world (snd (or_failed E m i w p s))) = w_log (es_world s) @ new \<and> list_all P new"
  proof (cases r1)
    case (Inl e)
    have "commands_only P (retention_failed E m i (w e) :: (_, _, 'c) eprog)" by (rule commands)
    then obtain n2 where "w_log (es_world (snd (retention_failed E m i (w e) s1 :: 'c res \<times> _))) = w_log (es_world s1) @ n2"
        "list_all P n2"
      unfolding commands_only_iff by blast
    with p n1 Inl show ?thesis by (auto simp: or_failed_def intro!: exI [of _ "n1 @ n2"])
  next
    case (Inr a)
    with p n1 show ?thesis by (auto simp: or_failed_def)
  qed
qed

lemma commands_only_retention_for [commands]: "commands_only P (retention_for E i)"
  unfolding retention_for_def Let_def by (auto intro!: commands_only_bind commands)

lemma reads_only_retention_for [commands]: "reads_only (retention_for E i)"
  unfolding retention_for_def Let_def by (auto intro!: reads_only_bind reads_only_store commands)

lemma plan_retention_deletes_nothing:
  "commands_only (\<lambda>args. \<not> deletes args) (plan_retention E m i)"
  unfolding plan_retention_def planned_def
  by (intro commands_only_bind commands forget_planned_dry) (simp add: spec_for_def)

lemma on_store_Inr: "on_store m s = (Inr a, s') \<longleftrightarrow> (\<exists>db. m (es_db s) = (Inr a, db) \<and> s' = s\<lparr>es_db := db\<rparr>)"
  by (auto simp: on_store_def split: prod.splits)

lemma retention_for_Inr:
  "retention_for E i s = (Inr kp, s') \<longleftrightarrow> s' = s \<and> \<not> empty_retention kp \<and>
     (\<exists>ps. fst (policies (eg_store E) (es_db s)) = Inr ps \<and> kp = merged_retention ps i)"
  using snd_listing(3) [of "eg_store E" "es_db s"]
  by (cases "policies (eg_store E) (es_db s)") 
    (auto simp: retention_for_def prog_bind_eq_Inr on_store_Inr Let_def)

text \<open>What \<open>ApplyRetention\<close> does once every guard let it pass, and after the forget.\<close>

definition apply_rest :: "('db, 'x) engine \<Rightarrow> moment \<Rightarrow> string \<Rightarrow> repository_handle \<Rightarrow> forget_plan \<Rightarrow>
    ('db, 'x, nat) eprog" where
  "apply_rest E m i repo plan =
     prog_bind (if fp_removed plan > 0
         then or_failed E m i not_reclaimed (on_restic (prune (eg_sys E) (eg_runner E) repo))
         else prog_return ()) (\<lambda>_.
     prog_bind (record_retention E m i (\<lambda>state. state\<lparr>rt_applied_at := Some (mo_now m),
         rt_dropped := fp_removed plan, rt_planned_at := Some (mo_now m), rt_plan := plan_groups plan,
         rt_would_keep := fp_kept plan, rt_would_drop := 0, rt_last_error := []\<rparr>)) (\<lambda>_.
       prog_return (fp_removed plan)))"

definition apply_tail :: "('db, 'x) engine \<Rightarrow> moment \<Rightarrow> string \<Rightarrow> retention \<Rightarrow> repository_handle \<Rightarrow> string list \<Rightarrow>
    ('db, 'x, nat) eprog" where
  "apply_tail E m i kp repo incomplete =
     prog_bind (or_failed E m i id (planned E repo ((spec_for kp False False)\<lparr>fs_protected := incomplete\<rparr>)))
       (apply_rest E m i repo)"

lemma apply_rest_commands: "P [''prune''] \<Longrightarrow> commands_only P (apply_rest E m i repo plan)"
  unfolding apply_rest_def by (auto intro!: commands_only_bind commands logging)

lemma apply_tail_commands: "commands_only (asked_ids_free inc) (apply_tail E m i kp repo inc)"
proof -
  have "logs_only (asked_ids_free inc) (forget_planned (eg_sys E) (eg_runner E) (eg_codec E) repo
      (spec_for kp False False\<lparr>fs_protected := inc\<rparr>))"
    using forget_planned_protects [of "spec_for kp False False\<lparr>fs_protected := inc\<rparr>"] by simp
  then show ?thesis
    unfolding apply_tail_def planned_def
    by (auto intro!: commands_only_bind commands apply_rest_commands simp: asked_ids_free_def)
qed

lemma apply_guards:
  assumes "apply_retention E m i s = (r, s')"
  obtains "s' = s" "\<exists>e. r = Inl e"
  | stored kp repo inc where "fst (get_repository (eg_store E) i (es_db s)) = Inr stored" "rp_approved_at stored \<noteq> None"
      "retention_for E i s = (Inr kp, s)" "kp = rp_approved_keeps stored"
      "fst (incomplete_snapshots E i s) = Inr inc" "apply_tail E m i kp repo inc s = (r, s')"
proof -
  have ro: "reads_only (on_store (get_repository (eg_store E) i) :: ('a, 'b, repository) eprog)"
    by (rule reads_only_store) simp
  note step = reads_bind [OF ro] reads_bind [OF reads_only_retention_for]
    reads_bind [OF reads_only_open_repository] reads_bind [OF reads_only_engine(2)]
  show thesis
  proof (cases "fst (on_store (get_repository (eg_store E) i) s)")
    case (Inl e)
    with assms that(1) show ?thesis by (auto simp: apply_retention_def step)
  next
    case (Inr stored)
    then have get: "fst (get_repository (eg_store E) i (es_db s)) = Inr stored"
      by (auto simp: on_store_def split: prod.splits)
    consider "rp_approved_at stored = None" | e where "fst (retention_for E i s) = Inl e" "rp_approved_at stored \<noteq> None"
      | kp where "fst (retention_for E i s) = Inr kp" "kp \<noteq> rp_approved_keeps stored" "rp_approved_at stored \<noteq> None"
      | kp where "fst (retention_for E i s) = Inr kp" "kp = rp_approved_keeps stored" "rp_approved_at stored \<noteq> None"
      by (cases "fst (retention_for E i s)") auto
    then show ?thesis
    proof cases
      case 4
      with reads_only_retention_for [of E i] have ret: "retention_for E i s = (Inr kp, s)"
        unfolding reads_only_def by (metis prod.collapse)
      show ?thesis
        using assms that Inr get 4 ret
        by (auto simp: apply_retention_def step apply_tail_def apply_rest_def [abs_def] split: sum.splits)
    qed (use assms that(1) Inr in \<open>auto simp: apply_retention_def step\<close>)
  qed
qed

definition approved_for :: "('db, 'x) engine \<Rightarrow> string \<Rightarrow> 'db \<Rightarrow> bool" where
  "approved_for E i db \<longleftrightarrow>
     (\<exists>stored ps. fst (get_repository (eg_store E) i db) = Inr stored \<and> fst (policies (eg_store E) db) = Inr ps
        \<and> approval_covers stored (merged_retention ps i) \<and> \<not> empty_retention (merged_retention ps i))"

definition known_incomplete :: "('db, 'x) engine \<Rightarrow> string \<Rightarrow> 'db \<Rightarrow> string \<Rightarrow> bool" where
  "known_incomplete E i db x \<longleftrightarrow>
     (\<exists>js j t. fst (jobs (eg_store E) 0 db) = Inr js \<and> j \<in> set js \<and> t \<in> set (jb_targets j) \<and>
        jt_repository_id t = i \<and> jt_incomplete t \<and> jt_snapshot_id t = x \<and> x \<noteq> [])"

lemma incomplete_targets_iff:
  "x \<in> set (incomplete_targets i ts) \<longleftrightarrow>
     (\<exists>t \<in> set ts. jt_repository_id t = i \<and> jt_incomplete t \<and> jt_snapshot_id t = x \<and> x \<noteq> [])"
  by (induction ts) auto

lemma incomplete_snapshots_iff:
  assumes "fst (incomplete_snapshots E i s) = Inr inc"
  shows "x \<in> set inc \<longleftrightarrow> known_incomplete E i (es_db s) x"
proof -
  have ro: "reads_only (on_store (jobs (eg_store E) 0) :: ('a, 'b, node_job list) eprog)"
    by (rule reads_only_store) simp
  from assms obtain js where js: "fst (on_store (jobs (eg_store E) 0) s) = Inr js"
      "inc = concat (map (\<lambda>j. incomplete_targets i (jb_targets j)) js)"
    by (auto simp: incomplete_snapshots_def reads_bind [OF ro] split: sum.splits)
  then have "fst (jobs (eg_store E) 0 (es_db s)) = Inr js"
    by (auto simp: on_store_def split: prod.splits)
  then show ?thesis
    by (auto simp: known_incomplete_def js(2) incomplete_targets_iff)
qed

text \<open>The deletions of a run that is allowed: only of snapshots no job left incomplete.\<close>

definition deletes_well :: "('db, 'x) engine \<Rightarrow> string \<Rightarrow> 'db \<Rightarrow> string list \<Rightarrow> bool" where
  "deletes_well E i db args \<longleftrightarrow>
     (deletes args \<longrightarrow> approved_for E i db \<and> tl args \<noteq> [] \<and> (\<forall>x \<in> set (tl args). \<not> known_incomplete E i db x))"

lemma apply_deletes_well:
  assumes "apply_retention E m i s = (r, s')"
  shows "\<exists>new. w_log (es_world s') = w_log (es_world s) @ new \<and> list_all (deletes_well E i (es_db s)) new"
proof (rule apply_guards [OF assms])
  fix stored kp repo inc
  assume g: "fst (get_repository (eg_store E) i (es_db s)) = Inr stored" "rp_approved_at stored \<noteq> None"
      "retention_for E i s = (Inr kp, s)" "kp = rp_approved_keeps stored"
      "fst (incomplete_snapshots E i s) = Inr inc" "apply_tail E m i kp repo inc s = (r, s')"
  from g(1-4) have "approved_for E i (es_db s)"
    by (auto simp: approved_for_def approval_covers_def retention_for_Inr)
  then have "asked_ids_free inc args \<Longrightarrow> deletes_well E i (es_db s) args" for args
    by (auto simp: asked_ids_free_def deletes_well_def incomplete_snapshots_iff [OF g(5)])
  moreover from apply_tail_commands [of inc E m i kp repo] g(6) obtain new where
    "w_log (es_world s') = w_log (es_world s) @ new" "list_all (asked_ids_free inc) new"
    unfolding commands_only_def by blast
  ultimately show ?thesis by (auto simp: list_all_iff)
qed auto

definition nothing_running :: "('db, 'x) engine \<Rightarrow> 'db \<Rightarrow> bool" where
  "nothing_running E db \<longleftrightarrow>
     (\<exists>js rs. fst (jobs (eg_store E) 0 db) = Inr js \<and> fst (restores (eg_store E) 0 db) = Inr rs \<and>
        list_all (\<lambda>j. terminal (jb_status j)) js \<and> list_all (\<lambda>r. terminal (re_status r)) rs)"

lemma fst_on_store: "fst (on_store m s) = fst (m (es_db s))"
  by (simp add: on_store_def split: prod.splits)

lemma any_job_running_idle:
  assumes "fst (any_job_running E s) = Inr False"
  shows "nothing_running E (es_db s)"
proof -
  have ro: "reads_only (on_store (jobs (eg_store E) 0) :: ('a, 'b, node_job list) eprog)"
    "reads_only (on_store (restores (eg_store E) 0) :: ('a, 'b, node_restore list) eprog)"
    by (rule reads_only_store, simp)+
  from assms show ?thesis
    by (auto simp: any_job_running_def reads_bind [OF ro(1)] reads_bind [OF ro(2)] nothing_running_def fst_on_store
        list_ex_iff list_all_iff split: sum.splits if_splits)
qed

definition sweeps_well :: "('db, 'x) engine \<Rightarrow> 'db \<Rightarrow> string list list \<Rightarrow> bool" where
  "sweeps_well E db new \<longleftrightarrow>
     (list_ex deletes new \<longrightarrow> (\<exists>i. list_all (deletes_well E i db) new))"

lemma quietly_log:
  assumes "commands_only P p" "quietly p s = (r, s')"
  shows "\<exists>new. w_log (es_world s') = w_log (es_world s) @ new \<and> list_all P new"
  using assms(1) assms(2) unfolding commands_only_iff by (auto simp: quietly_def)

lemma sweep_loop_well:
  assumes "sweep_loop E m now repos s = (r, s')"
  shows "\<exists>new. w_log (es_world s') = w_log (es_world s) @ new \<and> sweeps_well E (es_db s) new"
  using assms
proof (induction repos)
  case (Cons repo repos)
  have id: "retention_for E i s = (fst (retention_for E i s), s)" for i
    using reads_only_retention_for [of E i] unfolding reads_only_def by (metis prod.collapse)
  consider (later) "sweep_loop E m now repos s = (r, s')"
    | (plan) "quietly (plan_retention E m (rp_id repo)) s = (r, s')"
    | (doit) "quietly (apply_retention E m (rp_id repo)) s = (r, s')"
    using Cons.prems id [of "rp_id repo"] 
    by (auto simp: Let_def split: if_splits prod.splits sum.splits)
  then show ?case
  proof cases
    case later
    then show ?thesis by (rule Cons.IH)
  next
    case plan
    from quietly_log [OF plan_retention_deletes_nothing plan] show ?thesis
      by (auto simp: sweeps_well_def list_ex_iff list_all_iff)
  next
    case doit
    then obtain r1 where "apply_retention E m (rp_id repo) s = (r1, s')"
      by (cases "apply_retention E m (rp_id repo) s") (auto simp: quietly_def)
    from apply_deletes_well [OF this] show ?thesis by (auto simp: sweeps_well_def)
  qed
qed (auto simp: sweeps_well_def)

lemma sweep_well:
  assumes "sweep_retention E m now s = (r, s')"
  shows "\<exists>new. w_log (es_world s') = w_log (es_world s) @ new \<and>
    (list_ex deletes new \<longrightarrow> nothing_running E (es_db s) \<and> (\<exists>i. list_all (deletes_well E i (es_db s)) new))"
proof -
  have "any_job_running E s = (fst (any_job_running E s), s)"
    using reads_only_engine(3) [of E] unfolding reads_only_def by (metis prod.collapse)
  moreover have "reads_only (on_store (repositories (eg_store E)) :: ('a, 'b, repository list) eprog)"
    by (rule reads_only_store) simp
  then have "on_store (repositories (eg_store E)) s = (fst (on_store (repositories (eg_store E)) s), s)"
    unfolding reads_only_def by (metis prod.collapse)
  ultimately consider "s' = s" | repos where "fst (any_job_running E s) = Inr False" "sweep_loop E m now repos s = (r, s')"
    using assms by (auto simp: sweep_retention_def split: prod.splits sum.splits if_splits)
  then show ?thesis
  proof cases
    case 1
    then show ?thesis by simp
  next
    case (2 repos)
    from sweep_loop_well [OF 2(2)] any_job_running_idle [OF 2(1)] show ?thesis
      by (auto simp: sweeps_well_def)
  qed
qed

definition sample_destination :: destination where
  "sample_destination = \<lparr>ds_id = ''d1'', ds_name = ''nas'', ds_type = ''local'', ds_config = [(''root'', ''/mnt/nas'')],
     ds_credentials_secret_id = [], ds_append_only = False, ds_created_at = 1, ds_last_checked_at = None,
     ds_last_check_error = [], ds_space = \<lparr>dp_total_bytes = 0, dp_free_bytes = 0, dp_measured_at = None, dp_error = [], dp_unsupported = False\<rparr>\<rparr>"

definition week_keeps :: retention where
  "week_keeps = no_keeps\<lparr>keep_daily := 7\<rparr>"

definition sample_policy :: policy where
  "sample_policy = \<lparr>po_id = ''p1'', po_name = ''nightly'', po_schedule_cron = [], po_payload_mode = [], po_compression = [],
     po_limit_upload_kib = 0, po_retention = week_keeps, po_repository_ids = [''r1''], po_accounts = [], po_excludes = [],
     po_skip_homedir = False, po_skip_databases = False, po_skip_email = False, po_include_system = False,
     po_retry_failed = False, po_alert_no_backup_days = 0, po_alert_run_hours = 0, po_enabled = True,
     po_last_run_at = None, po_created_at = 1\<rparr>"

definition approved_repository :: repository where
  "approved_repository = (example_repository ''r1'' [])\<lparr>rp_password_secret_id := ''s1'', rp_initialised_at := Some 2,
     rp_approved_at := Some 5, rp_approved_keeps := week_keeps\<rparr>"

definition sample_db :: mem_db where
  "sample_db = (\<lambda>_. [])(BDestinations := [(''d1'', DDestination sample_destination)],
     BRepositories := [(''r1'', DRepository approved_repository)], BPolicies := [(''p1'', DPolicy sample_policy)],
     BSecrets := [(''s1'', DSecret \<lparr>sc_id = ''s1'', sc_kind = [], sc_ciphertext = ''pw'', sc_key_id = [], sc_created_at = 1\<rparr>)])"

definition sample_engine :: "(mem_db, unit) engine" where
  "sample_engine = \<lparr>eg_store = mem_bolt, eg_sys = reply_sys (\<lambda>_. ''[]''), eg_runner = example_config, eg_codec = retention_codec,
     eg_net = \<lparr>na_is_ipv6 = (\<lambda>_. False), na_parse = (\<lambda>_. Inl ErrNotFound), na_string = u_host\<rparr>,
     eg_vault_open = Inr, eg_decode_secrets = (\<lambda>_. Inr []), eg_error = (\<lambda>_. [])\<rparr>"

definition sample_moment :: moment where
  "sample_moment = \<lparr>mo_now = 1000, mo_new_id = ''n1''\<rparr>"


definition sample_state :: "(mem_db, unit) engine_state" where "sample_state = started sample_db example_world default_settings"

section \<open>A run that deletes\<close>

definition plain_handle :: "repository_handle \<Rightarrow> bool" where
  "plain_handle repo \<longleftrightarrow> rp_password repo \<noteq> [] \<and>
     (\<exists>b u. rp_dest repo = Some b \<and> d_uri b (rp_path repo) = Inr u \<and> d_env b = Inr [] \<and> d_options b = Inr [])"

lemma plain_run:
  assumes "plain_handle repo"
  shows "\<exists>w'. run_checked (reply_sys f) example_config repo args no_secondary ol st ok w =
     (Inr \<lparr>cr_stdout = f args, cr_stderr = [], cr_exit_code = 0, cr_truncated = False\<rparr>, w')
     \<and> w_log w' = w_log w @ [args]"
proof -
  from assms obtain b u where "rp_dest repo = Some b" "d_uri b (rp_path repo) = Inr u" "d_env b = Inr []"
      "d_options b = Inr []" "rp_password repo \<noteq> []"
    by (auto simp: plain_handle_def)
  then obtain w' where "run_checked (reply_sys f) example_config repo args no_secondary ol st ok w =
     (Inr \<lparr>cr_stdout = f args, cr_stderr = [], cr_exit_code = 0, cr_truncated = False\<rparr>, w')"
    by (simp add: run_checked_def run_def run_prepare_def example_config_def no_secondary_def
      wrap_err_def merge_options_def run_command_def write_password_file_def mkdir_temp_def write_file_def
      reply_sys_def exec_command_def defer_remove_def option_args_def prog_bind_def Let_def
      classify_exit_def exit_ok_def)
  with run_checked_ok [OF this] show ?thesis by blast
qed

lemma week_plan_runs:
  assumes "plain_handle repo"
  shows "\<exists>w' pre. forget_planned (reply_sys (\<lambda>_. ''[]'')) example_config retention_codec repo
     ((spec_for week_keeps False False)\<lparr>fs_protected := []\<rparr>) w = (Inr (plan_of example_groups), w')
     \<and> w_log w' = w_log w @ pre @ [[''forget'', ''0123abcd'']]"
proof -
  let ?S = "reply_sys (\<lambda>_. ''[]'')" and ?spec = "(spec_for week_keeps False False)\<lparr>fs_protected := []\<rparr>"
  have trim: "trim_space ''[]'' = ''[]''" by code_simp
  have codec: "js_groups retention_codec b = Inr example_groups" for b
    by (simp add: retention_codec_def)
  have parse: "parse_forget_plan retention_codec ''[]'' = Inr (plan_of example_groups)"
    by (simp add: parse_forget_plan_def trim retention_codec_def)
  obtain args where args: "forget_args (preview_spec ?spec) = Inr args" "\<exists>a. forget_args ?spec = Inr a"
    by (simp add: forget_args_def keeps_def spec_for_def week_keeps_def no_keeps_def preview_spec_def Let_def)
  obtain w1 where w1: "preview_groups ?S example_config retention_codec repo ?spec w = (Inr (Some example_groups), w1)"
      "w_log w1 = w_log w @ [args]"
    using plain_run [OF assms, of "\<lambda>_. ''[]''" args False False False w]
    by (auto simp: preview_groups_def args(1) parse trim codec)
  have none: "\<not> list_ex awaits_receipt (all_snapshots example_groups)"
    by (simp add: all_snapshots_def example_groups_def awaits_receipt_def example_snapshot_def)
  have safe: "safe_loop ?spec [] example_groups [] [] = (example_groups, [''0123abcd''])"
    by (simp add: example_groups_def settle_group_def untouchable_def awaits_receipt_def spec_for_def
        example_snapshot_def completion_receipt_tag_def)
  have v: "validate_snapshot_id ''0123abcd'' = Inr ()"
    by (simp add: validate_snapshot_id_iff is_hex_def is_digit_def)
  obtain w2 where w2: "run_checked ?S example_config repo [''forget'', ''0123abcd''] no_secondary False False False w1
      = (Inr \<lparr>cr_stdout = ''[]'', cr_stderr = [], cr_exit_code = 0, cr_truncated = False\<rparr>, w2)"
      "w_log w2 = w_log w1 @ [[''forget'', ''0123abcd'']]"
    using plain_run [OF assms, of "\<lambda>_. ''[]''"] by blast
  have "carry_out ?S example_config repo ?spec [''0123abcd''] w1 = (Inr (), w2)"
    using w2 by (simp add: carry_out_def forget_snapshots_def v spec_for_def)
  moreover have "js_encode_groups retention_codec example_groups = Inr ''[]''"
    by (simp add: retention_codec_def)
  ultimately have "forget_planned ?S example_config retention_codec repo ?spec w = (Inr (plan_of example_groups), w2)"
    using args(2) w1(1) none safe parse by (auto simp: forget_planned_def)
  with w1(2) w2(2) show ?thesis by auto
qed

lemma sample_reads:
  "fst (retention_for sample_engine ''r1'' sample_state) = Inr week_keeps"
  "fst (any_job_running sample_engine sample_state) = Inr False"
  "fst (incomplete_snapshots sample_engine ''r1'' sample_state) = Inr []"
  "fst (repositories (eg_store sample_engine) (es_db sample_state)) = Inr [approved_repository]"
  "fst (get_repository (eg_store sample_engine) ''r1'' (es_db sample_state)) = Inr approved_repository"
  by code_simp+

lemma sample_handle:
  obtains repo where "fst (open_repository sample_engine ''r1'' True sample_state) = Inr repo" "plain_handle repo"
proof -
  have "case fst (open_repository sample_engine ''r1'' True sample_state) of Inl e \<Rightarrow> False
     | Inr repo \<Rightarrow> rp_password repo = ''pw'' \<and> (case rp_dest repo of None \<Rightarrow> False
       | Some b \<Rightarrow> d_uri b (rp_path repo) = Inr ''/mnt/nas/cp1'' \<and> d_env b = Inr [] \<and> d_options b = Inr [])"
    by code_simp
  then show thesis
    using that by (auto simp: plain_handle_def split: sum.splits option.splits)
qed

lemma reads_pair: "reads_only m \<Longrightarrow> fst (m s) = r \<Longrightarrow> m s = (r, s)"
  unfolding reads_only_def by (metis prod.collapse)

lemma sample_apply_deletes:
  "[''forget'', ''0123abcd''] \<in> set (w_log (es_world (snd (apply_retention sample_engine m ''r1'' sample_state))))"
proof -
  obtain repo where repo: "fst (open_repository sample_engine ''r1'' True sample_state) = Inr repo" "plain_handle repo"
    by (rule sample_handle)
  have get: "on_store (get_repository (eg_store sample_engine) ''r1'') sample_state = (Inr approved_repository, sample_state)"
    by (rule reads_pair [OF reads_only_store]) (simp_all add: fst_on_store sample_reads)
  have ok: "rp_approved_at approved_repository = Some 5" "rp_approved_keeps approved_repository = week_keeps"
    by (simp_all add: approved_repository_def)
  have eq: "apply_retention sample_engine m ''r1'' sample_state = apply_tail sample_engine m ''r1'' week_keeps repo [] sample_state"
    using get ok reads_pair [OF reads_only_retention_for sample_reads(1)] reads_pair [OF reads_only_open_repository repo(1)]
      reads_pair [OF reads_only_engine(2) sample_reads(3)]
    by (simp add: apply_retention_def apply_tail_def apply_rest_def [abs_def])
  obtain w' pre where run: "forget_planned (reply_sys (\<lambda>_. ''[]'')) example_config retention_codec repo
      ((spec_for week_keeps False False)\<lparr>fs_protected := []\<rparr>) (es_world sample_state) = (Inr (plan_of example_groups), w')"
      "w_log w' = w_log (es_world sample_state) @ pre @ [[''forget'', ''0123abcd'']]"
    using week_plan_runs [OF repo(2)] by blast
  let ?s1 = "sample_state\<lparr>es_world := w'\<rparr>"
  have step: "or_failed sample_engine m ''r1'' id (planned sample_engine repo ((spec_for week_keeps False False)\<lparr>fs_protected := []\<rparr>))
      sample_state = (Inr (plan_of example_groups), ?s1)"
    using run(1) by (simp add: or_failed_def planned_def on_restic_def sample_engine_def)
  have "apply_tail sample_engine m ''r1'' week_keeps repo [] sample_state
      = apply_rest sample_engine m ''r1'' repo (plan_of example_groups) ?s1"
    using step by (simp add: apply_tail_def)
  moreover have "commands_only (\<lambda>_. True) (apply_rest sample_engine m ''r1'' repo (plan_of example_groups))"
    by (rule apply_rest_commands) simp
  then obtain new where "w_log (es_world (snd (apply_rest sample_engine m ''r1'' repo (plan_of example_groups) ?s1)))
      = w_log (es_world ?s1) @ new"
    unfolding commands_only_iff by blast
  ultimately show ?thesis using run(2) eq by simp
qed

section \<open>The keep policy in force\<close>

text \<open>
  What is kept in a repository is the least policy that is at least as generous, in each of
  its five counts, as every enabled schedule that writes there; it is never negative, and when
  there is one it is a policy restic is started with. With no such schedule there is no policy
  and nothing is planned or deleted.
\<close>

theorem merged_policy_most_generous:
  assumes "retention_for E i s = (Inr kp, s')"
  shows "\<exists>ps. fst (policies (eg_store E) (es_db s)) = Inr ps \<and>
    (\<forall>c. at_most kp c \<longleftrightarrow> at_most no_keeps c \<and> list_all (\<lambda>p. \<not> writes_here i p \<or> at_most (po_retention p) c) ps)
    \<and> s' = s \<and> (\<exists>args. forget_args (spec_for kp dry False) = Inr args)"
proof -
  from assms obtain ps where ps: "fst (policies (eg_store E) (es_db s)) = Inr ps" "kp = merged_loop ps i no_keeps"
      and s': "s' = s" "\<not> empty_retention kp"
    by (auto simp: retention_for_Inr merged_retention_def)
  have up: "at_most no_keeps kp" "\<forall>p \<in> set ps. writes_here i p \<longrightarrow> at_most (po_retention p) kp"
    using merged_loop_upper [of no_keeps ps i] by (simp_all add: ps(2))
  have "at_most kp c \<longleftrightarrow> at_most no_keeps c \<and> (\<forall>p \<in> set ps. writes_here i p \<longrightarrow> at_most (po_retention p) c)" for c
    using up merged_loop_least [of no_keeps c ps i] at_most_trans unfolding ps(2) by blast
  moreover have "\<exists>args. forget_args (spec_for kp dry False) = Inr args"
    using up(1) s'(2)
    by (auto simp: at_most_def no_keeps_def empty_retention_def forget_args_def keeps_def spec_for_def Let_def)
  ultimately show ?thesis
    using ps(1) s'(1) by (auto simp: list_all_iff)
qed

theorem merged_policy_most_generous_witness:
  "\<exists>args. forget_args (spec_for week_keeps False False) = Inr args"
  using merged_policy_most_generous [OF reads_pair [OF reads_only_retention_for sample_reads(1)], of False] by blast

section \<open>Nothing is deleted unseen\<close>

text \<open>
  C2. The sweep, which runs unattended, deletes backups only where an operator agreed. If it gave
  any command that deletes snapshots, then no backup or restore was pending or running, and all of
  them were for one repository that has an approval on record, given for exactly the keep policy
  that the enabled schedules amount to now, which keeps something; and none of them names a
  snapshot that a job left incomplete.
\<close>

theorem sweep_deletes_only_approved:
  assumes "sweep_retention E m now s = (r, s')"
  shows "\<exists>new. w_log (es_world s') = w_log (es_world s) @ new \<and>
    (list_ex deletes new \<longrightarrow> nothing_running E (es_db s) \<and>
      (\<exists>i. list_all (\<lambda>args. deletes args \<longrightarrow> approved_for E i (es_db s) \<and> tl args \<noteq> [] \<and>
         (\<forall>x \<in> set (tl args). \<not> known_incomplete E i (es_db s) x)) new))"
  using sweep_well [OF assms] unfolding deletes_well_def .

theorem sweep_deletes_only_approved_witness:
  "nothing_running sample_engine sample_db \<and>
   [''forget'', ''0123abcd''] \<in> set (w_log (es_world (snd (sweep_retention sample_engine sample_moment 1000 sample_state))))"
proof -
  let ?run = "sweep_retention sample_engine sample_moment 1000 sample_state"
  have idle: "last_retention_attempt (rp_retention approved_repository) = zero_time"
    by (simp add: last_retention_attempt_def approved_repository_def example_repository_def no_retention_def)
  have repo: "rp_initialised_at approved_repository = Some 2" "rp_id approved_repository = ''r1''"
      "approval_covers approved_repository week_keeps"
    by (simp_all add: approved_repository_def approval_covers_def)
  have "on_store (repositories (eg_store sample_engine)) sample_state = (Inr [approved_repository], sample_state)"
    by (rule reads_pair [OF reads_only_store]) (simp_all add: fst_on_store sample_reads)
  then have "?run = quietly (apply_retention sample_engine sample_moment ''r1'') sample_state"
    using reads_pair [OF reads_only_engine(3) sample_reads(2)] reads_pair [OF reads_only_retention_for sample_reads(1)] idle repo
    by (simp add: sweep_retention_def is_zero_def)
  then have del: "[''forget'', ''0123abcd''] \<in> set (w_log (es_world (snd ?run)))"
    using sample_apply_deletes [of sample_moment] by (simp add: quietly_def)
  have run: "?run = (fst ?run, snd ?run)" by simp
  have "w_log (es_world sample_state) = []" by (simp add: sample_state_def example_world_def)
  moreover have "deletes [''forget'', ''0123abcd'']" by (simp add: deletes_def)
  ultimately have "nothing_running sample_engine (es_db sample_state)"
    using sweep_deletes_only_approved [OF run] del by (auto simp: list_ex_iff)
  with del show ?thesis by (simp add: sample_state_def)
qed

section \<open>Approving and withdrawing\<close>

lemma get_repository_Inr:
  "fst (get_repository B i db) = Inr r \<longleftrightarrow> bo_get B BRepositories i db = Some (DRepository r)"
proof -
  have "fst (get_repository B i db) = Inr r \<longleftrightarrow> (\<exists>s'. get_repository B i db = (Inr r, s'))"
    by (metis fst_conv prod.collapse)
  then show ?thesis by (simp add: get_repository_def)
qed

lemma on_store_get:
  "on_store (get_repository B i) s = (Inr r, s') \<longleftrightarrow> s' = s \<and> bo_get B BRepositories i (es_db s) = Some (DRepository r)"
  by (auto simp: on_store_Inr get_repository_def)

context bolt_store
begin

lemma put_known_repository:
  assumes "put_repository B nid now r s = (Inr r', s')" "rp_id r \<noteq> []"
  shows "bo_get B BRepositories (rp_id r) s' = Some (DRepository r)"
  using assms put_get [of BRepositories "rp_id r" "DRepository r" s _ s' BRepositories "rp_id r"]
  by (auto simp: put_repository_def prog_bind_eq_Inr)

lemma repos_keyed_id: "repos_keyed B s \<Longrightarrow> bo_get B BRepositories i s = Some (DRepository r) \<Longrightarrow> rp_id r = i \<and> i \<noteq> []"
  by (auto simp: repos_keyed_def)

end

text \<open>
  An approval is an approval of what was read. When approving succeeds, the plan on record was
  taken under exactly the keep policy the schedules amount to at that moment, and that policy is
  what the stored approval covers from then on; the plan stays as it was and restic is not run.
\<close>

theorem approval_is_of_the_plan:
  assumes "bolt_store (eg_store E)" "repos_keyed (eg_store E) (es_db s)"
    and "approve_retention E m i s = (Inr u, s')"
  shows "\<exists>before after kp. fst (get_repository (eg_store E) i (es_db s)) = Inr before
    \<and> plan_approvable before kp \<and> retention_for E i s = (Inr kp, s)
    \<and> fst (get_repository (eg_store E) i (es_db s')) = Inr after
    \<and> approval_covers after kp \<and> rp_retention after = rp_retention before \<and> es_world s' = es_world s"
proof -
  let ?B = "eg_store E"
  from assms(3) obtain before kp s1 where
    get: "bo_get ?B BRepositories i (es_db s) = Some (DRepository before)" and
    plan: "rt_planned_at (rp_retention before) \<noteq> None" "kp = rt_planned_keeps (rp_retention before)" and
    ret: "retention_for E i s = (Inr kp, s1)" and
    put: "prog_bind (on_store (put_repository ?B (mo_new_id m) (mo_now m)
        (before\<lparr>rp_approved_at := Some (mo_now m), rp_approved_keeps := kp\<rparr>))) (\<lambda>_. prog_return ()) s1 = (Inr u, s')"
    by (auto simp: approve_retention_def prog_bind_eq_Inr [of "on_store (get_repository _ _)"] on_store_get
        prog_bind_eq_Inr [of "retention_for _ _"] split: if_splits)
  have s1: "s1 = s" using ret by (simp add: retention_for_Inr)
  let ?after = "before\<lparr>rp_approved_at := Some (mo_now m), rp_approved_keeps := kp\<rparr>"
  from put obtain r' db where stored: "put_repository ?B (mo_new_id m) (mo_now m) ?after (es_db s) = (Inr r', db)"
      "s' = s\<lparr>es_db := db\<rparr>"
    by (auto simp: prog_bind_eq_Inr on_store_Inr s1)
  have "rp_id before = i" "i \<noteq> []"
    using bolt_store.repos_keyed_id [OF assms(1,2) get] by auto
  with bolt_store.put_known_repository [OF assms(1) stored(1)]
  have "bo_get ?B BRepositories i db = Some (DRepository ?after)" by simp
  with get plan ret s1 stored(2) show ?thesis
    by (auto simp: get_repository_Inr plan_approvable_def approval_covers_def)
qed

definition planned_repository :: repository where
  "planned_repository = approved_repository\<lparr>rp_approved_at := None, rp_approved_keeps := no_keeps,
     rp_retention := no_retention\<lparr>rt_planned_at := Some 9, rt_planned_keeps := week_keeps\<rparr>\<rparr>"

definition planned_state :: "(mem_db, unit) engine_state" where
  "planned_state = started (sample_db(BRepositories := [(''r1'', DRepository planned_repository)])) example_world default_settings"

lemma planned_state_facts:
  "repos_keyed mem_bolt (es_db planned_state)" "repos_keyed mem_bolt (es_db sample_state)"
  "eg_store sample_engine = mem_bolt"
  by (auto simp: repos_keyed_def planned_state_def sample_state_def sample_db_def mem_bolt_def planned_repository_def
      approved_repository_def sample_engine_def split: if_splits)

theorem approval_is_of_the_plan_witness:
  "\<exists>after. fst (get_repository mem_bolt ''r1'' (es_db (snd (approve_retention sample_engine sample_moment ''r1'' planned_state)))) = Inr after
     \<and> rp_approved_at after \<noteq> None \<and> rp_approved_keeps after = week_keeps"
proof -
  let ?run = "approve_retention sample_engine sample_moment ''r1'' planned_state"
  have "fst ?run = Inr ()" by code_simp
  then have run: "?run = (Inr (), snd ?run)" by (metis prod.collapse)
  have store: "bolt_store (eg_store sample_engine)" by (simp only: planned_state_facts(3) mem.bolt_store_axioms)
  from approval_is_of_the_plan [OF store planned_state_facts(1) [folded planned_state_facts(3)] run]
  obtain before after kp where a: "fst (get_repository mem_bolt ''r1'' (es_db planned_state)) = Inr before"
      "plan_approvable before kp" "fst (get_repository mem_bolt ''r1'' (es_db (snd ?run))) = Inr after"
      "approval_covers after kp"
    by (auto simp: planned_state_facts(3))
  have "fst (get_repository mem_bolt ''r1'' (es_db planned_state)) = Inr planned_repository"
    by (simp add: get_repository_Inr planned_state_def mem_bolt_def)
  with a show ?thesis
    by (auto simp: plan_approvable_def approval_covers_def planned_repository_def)
qed

text \<open>
  Withdrawing an approval stops retention at once. From then on, whatever the schedules say
  and whatever else has changed in the store, as long as the repository's own record is the one
  the withdrawal left, applying retention to it is refused before restic is run or anything is written.
\<close>

theorem withdrawn_approval_deletes_nothing:
  assumes "bolt_store (eg_store E)" "repos_keyed (eg_store E) (es_db s)"
    and "withdraw_retention E m i s = (Inr u, s')"
    and "bo_get (eg_store E) BRepositories i (es_db t) = bo_get (eg_store E) BRepositories i (es_db s')"
  shows "\<exists>e. apply_retention E m2 i t = (Inl e, t)"
proof -
  let ?B = "eg_store E"
  from assms(3) obtain before where
    get: "bo_get ?B BRepositories i (es_db s) = Some (DRepository before)" and
    put: "prog_bind (on_store (put_repository ?B (mo_new_id m) (mo_now m)
        (before\<lparr>rp_approved_at := None, rp_approved_keeps := no_keeps\<rparr>))) (\<lambda>_. prog_return ()) s = (Inr u, s')"
    by (auto simp: withdraw_retention_def prog_bind_eq_Inr [of "on_store (get_repository _ _)"] on_store_get)
  let ?after = "before\<lparr>rp_approved_at := None, rp_approved_keeps := no_keeps\<rparr>"
  from put obtain r' db where stored: "put_repository ?B (mo_new_id m) (mo_now m) ?after (es_db s) = (Inr r', db)"
      "s' = s\<lparr>es_db := db\<rparr>"
    by (auto simp: prog_bind_eq_Inr on_store_Inr)
  have "rp_id before = i" "i \<noteq> []"
    using bolt_store.repos_keyed_id [OF assms(1,2) get] by auto
  with bolt_store.put_known_repository [OF assms(1) stored(1)] assms(4) stored(2)
  have "on_store (get_repository ?B i) t = (Inr ?after, t)" by (simp add: on_store_get)
  then show ?thesis by (simp add: apply_retention_def)
qed

theorem withdrawn_approval_deletes_nothing_witness:
  "\<exists>e s'. snd (withdraw_retention sample_engine sample_moment ''r1'' sample_state) = s'
     \<and> apply_retention sample_engine sample_moment ''r1'' s' = (Inl e, s')"
proof -
  let ?run = "withdraw_retention sample_engine sample_moment ''r1'' sample_state"
  have "fst ?run = Inr ()" by code_simp
  then have run: "?run = (Inr (), snd ?run)" by (metis prod.collapse)
  have store: "bolt_store (eg_store sample_engine)" by (simp only: planned_state_facts(3) mem.bolt_store_axioms)
  from withdrawn_approval_deletes_nothing [OF store planned_state_facts(2) [folded planned_state_facts(3)] run refl]
  show ?thesis by blast
qed

end
