(* ===== verification/Policy_Cover.thy ===== *)
theory Policy_Cover
  imports Node_Types
begin

text \<open>
  The smallest set of schedules that refreshes every missing copy: \<open>minimumPolicyCover\<close> and
  \<open>greedyPolicyCover\<close> of \<open>internal/node/removal.go\<close>. A Go map of wanted repositories is the list of
  its keys; the order in which one call of the search ranges over it is a parameter that may
  differ from call to call. The flags of what is chosen are the membership in what is selected.
\<close>

section \<open>Candidates\<close>

record policy_cover =
  pc_policy :: policy
  pc_repositories :: "string list"

fun wanted_ids :: "string list \<Rightarrow> string list \<Rightarrow> string list \<Rightarrow> string list" where
  "wanted_ids wanted seen [] = []"
| "wanted_ids wanted seen (r # rs) =
     (if r \<in> set wanted \<and> r \<notin> set seen then r # wanted_ids wanted (r # seen) rs
      else wanted_ids wanted seen rs)"

fun cover_candidates :: "string list \<Rightarrow> policy list \<Rightarrow> policy_cover list" where
  "cover_candidates wanted [] = []"
| "cover_candidates wanted (p # ps) =
     (let rs = wanted_ids wanted [] (po_repository_ids p)
      in if length rs > 0 then \<lparr>pc_policy = p, pc_repositories = rs\<rparr> # cover_candidates wanted ps
         else cover_candidates wanted ps)"

section \<open>The greedy cover\<close>

definition added_by :: "string list \<Rightarrow> policy_cover \<Rightarrow> nat" where
  "added_by covered c = length (filter (\<lambda>r. r \<notin> set covered) (pc_repositories c))"

fun greedy_best :: "string list \<Rightarrow> nat list \<Rightarrow> nat \<Rightarrow> policy_cover list \<Rightarrow> nat option \<Rightarrow> nat \<Rightarrow> nat option" where
  "greedy_best covered used i [] best gain = best"
| "greedy_best covered used i (c # cs) best gain =
     (if i \<in> set used then greedy_best covered used (i + 1) cs best gain
      else if added_by covered c > gain then greedy_best covered used (i + 1) cs (Some i) (added_by covered c)
      else greedy_best covered used (i + 1) cs best gain)"

definition cover_all :: "string list \<Rightarrow> string list \<Rightarrow> string list" where
  "cover_all rs covered = fold List.insert rs covered"

lemma greedy_best_unused:
  "greedy_best covered used i cs best gain = Some j \<Longrightarrow>
     best = Some j \<or> i \<le> j \<and> j < i + length cs \<and> j \<notin> set used \<and> 0 < added_by covered (cs ! (j - i))"
proof (induction covered used i cs best gain rule: greedy_best.induct)
  case (2 covered used i c cs best gain)
  show ?case
  proof (cases "i \<notin> set used \<and> added_by covered c > gain")
    case True
    then show ?thesis using 2 by (fastforce simp: nth_Cons' Suc_le_eq)
  next
    case False
    then have "greedy_best covered used (i + 1) cs best gain = Some j"
      using "2.prems" by (auto split: if_splits)
    then show ?thesis using 2 False by (fastforce simp: nth_Cons' Suc_le_eq)
  qed
qed simp

function greedy_loop :: "string list \<Rightarrow> policy_cover list \<Rightarrow> string list \<Rightarrow> nat list \<Rightarrow> policy list \<Rightarrow> policy list" where
  "greedy_loop wanted cs covered used selected =
     (if length covered < length wanted then
        case greedy_best covered used 0 cs None 0 of
          None \<Rightarrow> []
        | Some i \<Rightarrow> greedy_loop wanted cs (cover_all (pc_repositories (cs ! i)) covered) (i # used)
                     (selected @ [pc_policy (cs ! i)])
      else selected)"
  by pat_completeness auto
termination
proof (relation "measure (\<lambda>(w, cs, c, used, s). card ({..<length cs} - set used))")
  fix wanted cs covered used selected i
  assume "greedy_best covered used 0 cs None 0 = Some i"
  from greedy_best_unused [OF this] have "i \<in> {..<length cs} - set used" by simp
  then have "card ({..<length cs} - set (i # used)) < card ({..<length cs} - set used)"
    by (intro psubset_card_mono) auto
  then show "((wanted, cs, cover_all (pc_repositories (cs ! i)) covered, i # used, selected @ [pc_policy (cs ! i)]),
      wanted, cs, covered, used, selected) \<in> measure (\<lambda>(w, cs, c, used, s). card ({..<length cs} - set used))"
    by simp
qed simp

declare greedy_loop.simps [simp del]

definition greedy_policy_cover :: "string list \<Rightarrow> policy_cover list \<Rightarrow> policy list" where
  "greedy_policy_cover wanted cs = greedy_loop wanted cs [] [] []"

section \<open>The search for a smaller one\<close>

definition available :: "policy_cover list \<Rightarrow> nat list \<Rightarrow> string \<Rightarrow> nat list" where
  "available cs selected r =
     filter (\<lambda>i. \<not> (i \<in> set selected \<or> \<not> list_ex (\<lambda>x. x = r) (pc_repositories (cs ! i)))) [0..<length cs]"

text \<open>None: some uncovered repository has no schedule left. An empty \<open>pick\<close> is none yet.\<close>

fun pick_options :: "policy_cover list \<Rightarrow> (string \<Rightarrow> nat) \<Rightarrow> nat list \<Rightarrow> string list \<Rightarrow> string \<Rightarrow> nat list \<Rightarrow> nat list option" where
  "pick_options cs covered selected [] pick options = Some options"
| "pick_options cs covered selected (r # rs) pick options =
     (if covered r > 0 then pick_options cs covered selected rs pick options
      else let av = available cs selected r in
        if length av = 0 then None
        else if pick = [] \<or> length av < length options then pick_options cs covered selected rs r av
        else pick_options cs covered selected rs pick options)"

fun count_up :: "string list \<Rightarrow> (string \<Rightarrow> nat) \<Rightarrow> string \<Rightarrow> nat" where
  "count_up [] covered = covered"
| "count_up (r # rs) covered = count_up rs (covered(r := covered r + 1))"

lemma pick_options_available:
  "pick_options cs covered selected rs pick options = Some opts \<Longrightarrow>
     opts = options \<or> (\<exists>r \<in> set rs. covered r = 0 \<and> opts = available cs selected r)"
  by (induction cs covered selected rs pick options rule: pick_options.induct)
    (auto simp: Let_def split: if_splits)

lemma available_iff: "i \<in> set (available cs selected r) \<longleftrightarrow> i < length cs \<and> i \<notin> set selected \<and> r \<in> set (pc_repositories (cs ! i))"
  by (auto simp: available_def list_ex_iff)

function cover_search :: "(nat list \<Rightarrow> string list) \<Rightarrow> policy_cover list \<Rightarrow> string list \<Rightarrow> (string \<Rightarrow> nat) \<Rightarrow> nat list \<Rightarrow>
    policy list \<Rightarrow> policy list" where
  "cover_search ord cs wanted covered selected best =
     (if list_all (\<lambda>r. covered r \<noteq> 0) wanted then
        (if length selected < length best then map (\<lambda>i. pc_policy (cs ! i)) selected else best)
      else if length selected + 1 \<ge> length best then best
      else case pick_options cs covered selected (ord selected) [] [] of
        None \<Rightarrow> best
      | Some options \<Rightarrow>
          fold (\<lambda>i best. cover_search ord cs wanted (count_up (pc_repositories (cs ! i)) covered) (selected @ [i]) best)
            options best)"
  by pat_completeness auto
termination
proof (relation "measure (\<lambda>(ord, cs, w, c, selected, b). card ({..<length cs} - set selected))")
  fix ord :: "nat list \<Rightarrow> string list" and cs :: "policy_cover list" and wanted covered selected best options i b
  assume "pick_options cs covered selected (ord selected) [] [] = Some options" "i \<in> set options"
  with pick_options_available [OF this(1)] have "i \<in> {..<length cs} - set selected"
    by (auto simp: available_iff)
  then have "card ({..<length cs} - set (selected @ [i])) < card ({..<length cs} - set selected)"
    by (intro psubset_card_mono) auto
  then show "((ord, cs, wanted, count_up (pc_repositories (cs ! i)) covered, selected @ [i], b),
      ord, cs, wanted, covered, selected, best) \<in> measure (\<lambda>(ord, cs, w, c, selected, b). card ({..<length cs} - set selected))"
    by simp
qed simp

declare cover_search.simps [simp del]

definition minimum_policy_cover :: "(nat list \<Rightarrow> string list) \<Rightarrow> string list \<Rightarrow> policy list \<Rightarrow> policy list" where
  "minimum_policy_cover ord missing ps =
     (let wanted = remdups missing; cs = cover_candidates wanted ps; best = greedy_policy_cover wanted cs
      in if length best = 0 then [] else cover_search ord cs wanted (\<lambda>_. 0) [] best)"


section \<open>Covers\<close>

definition is_cover :: "string list \<Rightarrow> policy list \<Rightarrow> bool" where
  "is_cover missing ps \<longleftrightarrow> (\<forall>r \<in> set missing. \<exists>p \<in> set ps. r \<in> set (po_repository_ids p))"

lemma set_wanted_ids: "set (wanted_ids wanted seen rs) = {r \<in> set rs. r \<in> set wanted \<and> r \<notin> set seen}"
  by (induction wanted seen rs rule: wanted_ids.induct) auto

lemma set_cover_candidates:
  "c \<in> set (cover_candidates wanted ps) \<longleftrightarrow>
     pc_policy c \<in> set ps \<and> pc_repositories c = wanted_ids wanted [] (po_repository_ids (pc_policy c)) \<and>
     pc_repositories c \<noteq> []"
  by (induction ps) (auto simp: Let_def)

lemma candidate_nth:
  assumes "i < length (cover_candidates wanted ps)"
  shows "pc_policy (cover_candidates wanted ps ! i) \<in> set ps"
    "set (pc_repositories (cover_candidates wanted ps ! i)) =
       set (po_repository_ids (pc_policy (cover_candidates wanted ps ! i))) \<inter> set wanted"
  using nth_mem [OF assms] by (auto simp: set_cover_candidates set_wanted_ids)

lemma candidate_exists:
  assumes "p \<in> set ps" "r \<in> set wanted" "r \<in> set (po_repository_ids p)"
  shows "\<exists>i < length (cover_candidates wanted ps). pc_policy (cover_candidates wanted ps ! i) = p \<and>
    r \<in> set (pc_repositories (cover_candidates wanted ps ! i))"
proof -
  let ?c = "\<lparr>pc_policy = p, pc_repositories = wanted_ids wanted [] (po_repository_ids p)\<rparr>"
  have "r \<in> set (wanted_ids wanted [] (po_repository_ids p))" using assms by (simp add: set_wanted_ids)
  then have "?c \<in> set (cover_candidates wanted ps)" using assms(1) by (auto simp: set_cover_candidates)
  then obtain i where "i < length (cover_candidates wanted ps)" "cover_candidates wanted ps ! i = ?c"
    by (metis in_set_conv_nth)
  then show ?thesis using \<open>r \<in> set (wanted_ids _ _ _)\<close> by auto
qed

text \<open>A set of candidate indices that reaches every wanted repository.\<close>

definition covering :: "policy_cover list \<Rightarrow> string list \<Rightarrow> nat set \<Rightarrow> bool" where
  "covering cs wanted T \<longleftrightarrow>
     T \<subseteq> {..<length cs} \<and> (\<forall>r \<in> set wanted. \<exists>i \<in> T. r \<in> set (pc_repositories (cs ! i)))"

lemma covering_finite: "covering cs wanted T \<Longrightarrow> finite T"
  by (auto simp: covering_def intro: finite_subset)

lemma covering_of_cover:
  assumes "is_cover missing qs" "set qs \<subseteq> set ps"
  shows "\<exists>T. covering (cover_candidates (remdups missing) ps) (remdups missing) T \<and> card T \<le> length qs"
proof -
  define cs where "cs = cover_candidates (remdups missing) ps"
  define Q where "Q = {q \<in> set qs. \<exists>i < length cs. pc_policy (cs ! i) = q}"
  have "\<forall>q \<in> Q. \<exists>i. i < length cs \<and> pc_policy (cs ! i) = q" by (auto simp: Q_def)
  then obtain f where f: "\<And>q. q \<in> Q \<Longrightarrow> f q < length cs \<and> pc_policy (cs ! f q) = q" by metis
  have "\<exists>i \<in> f ` Q. r \<in> set (pc_repositories (cs ! i))" if r: "r \<in> set missing" for r
  proof -
    from assms(1) r obtain q where q: "q \<in> set qs" "r \<in> set (po_repository_ids q)" by (auto simp: is_cover_def)
    with assms(2) r have "q \<in> Q"
      using candidate_exists [of q ps r "remdups missing"] by (auto simp: cs_def Q_def)
    with f q r have "r \<in> set (pc_repositories (cs ! f q))"
      using candidate_nth(2) [of "f q" "remdups missing" ps] by (auto simp: cs_def)
    with \<open>q \<in> Q\<close> show ?thesis by blast
  qed
  moreover have "f ` Q \<subseteq> {..<length cs}" using f by auto
  ultimately have "covering cs (remdups missing) (f ` Q)" by (simp add: covering_def)
  moreover have "finite Q" "Q \<subseteq> set qs" by (auto simp: Q_def)
  then have "card (f ` Q) \<le> length qs"
    by (meson card_image_le card_length card_mono finite_set le_trans)
  ultimately show ?thesis unfolding cs_def by blast
qed

lemma cover_of_indices:
  assumes "covering (cover_candidates (remdups missing) ps) (remdups missing) (set is)"
  shows "is_cover missing (map (\<lambda>i. pc_policy (cover_candidates (remdups missing) ps ! i)) is)"
    "set (map (\<lambda>i. pc_policy (cover_candidates (remdups missing) ps ! i)) is) \<subseteq> set ps"
proof -
  have lt: "i < length (cover_candidates (remdups missing) ps)" if "i \<in> set is" for i
    using assms that by (auto simp: covering_def)
  show "set (map (\<lambda>i. pc_policy (cover_candidates (remdups missing) ps ! i)) is) \<subseteq> set ps"
    using lt candidate_nth(1) by auto
  show "is_cover missing (map (\<lambda>i. pc_policy (cover_candidates (remdups missing) ps ! i)) is)"
    unfolding is_cover_def
  proof
    fix r assume "r \<in> set missing"
    with assms obtain i where "i \<in> set is" "r \<in> set (pc_repositories (cover_candidates (remdups missing) ps ! i))"
      by (auto simp: covering_def)
    then show "\<exists>p \<in> set (map (\<lambda>i. pc_policy (cover_candidates (remdups missing) ps ! i)) is). r \<in> set (po_repository_ids p)"
      using lt candidate_nth(2) by force
  qed
qed


section \<open>The greedy cover covers\<close>

definition chosen_policies :: "policy_cover list \<Rightarrow> nat list \<Rightarrow> policy list" where
  "chosen_policies cs is = map (\<lambda>i. pc_policy (cs ! i)) is"

definition valid_choice :: "policy_cover list \<Rightarrow> string list \<Rightarrow> policy list \<Rightarrow> bool" where
  "valid_choice cs wanted best \<longleftrightarrow> (\<exists>is. best = chosen_policies cs is \<and> covering cs wanted (set is))"

lemma greedy_best_None:
  "greedy_best covered used i cs best gain = None \<Longrightarrow>
     best = None \<and> (gain = 0 \<longrightarrow> (\<forall>k < length cs. i + k \<notin> set used \<longrightarrow> added_by covered (cs ! k) = 0))"
proof (induction covered used i cs best gain rule: greedy_best.induct)
  case (2 covered used i c cs best gain)
  have "\<not> (i \<notin> set used \<and> added_by covered c > gain)" using 2 by auto
  with 2 have rest: "best = None \<and> (gain = 0 \<longrightarrow> (\<forall>k < length cs. i + 1 + k \<notin> set used \<longrightarrow> added_by covered (cs ! k) = 0))"
    by (auto split: if_splits)
  have "added_by covered ((c # cs) ! k) = 0"
    if "gain = 0" "k < length (c # cs)" "i + k \<notin> set used" for k
    using that rest \<open>\<not> (i \<notin> set used \<and> _)\<close> by (cases k) auto
  with rest show ?case by blast
qed simp

lemma added_by_0: "added_by covered c = 0 \<longleftrightarrow> set (pc_repositories c) \<subseteq> set covered"
  by (auto simp: added_by_def filter_empty_conv)

lemma set_cover_all: "set (cover_all rs covered) = set rs \<union> set covered"
  unfolding cover_all_def by (induction rs arbitrary: covered) auto

lemma distinct_cover_all: "distinct covered \<Longrightarrow> distinct (cover_all rs covered)"
  unfolding cover_all_def by (induction rs arbitrary: covered) auto

lemma greedy_loop_valid:
  assumes "distinct wanted" "\<forall>c \<in> set cs. set (pc_repositories c) \<subseteq> set wanted" "distinct covered"
    and "set covered = (\<Union>i \<in> set used. set (pc_repositories (cs ! i)))" "set used \<subseteq> {..<length cs}"
    and "selected = chosen_policies cs (rev used)"
  shows "valid_choice cs wanted (greedy_loop wanted cs covered used selected) \<or>
    greedy_loop wanted cs covered used selected = [] \<and> (\<forall>T. \<not> covering cs wanted T)"
  using assms
proof (induction wanted cs covered used selected rule: greedy_loop.induct)
  case (1 wanted cs covered used selected)
  have sub: "set covered \<subseteq> set wanted"
    using "1.prems"(2,4,5) by (auto dest: nth_mem)
  show ?case
  proof (cases "length covered < length wanted")
    case False
    with "1.prems"(1,3) sub have "set covered = set wanted"
      by (metis List.finite_set card_seteq distinct_card linorder_not_less)
    with "1.prems"(4,5) have "covering cs wanted (set (rev used))"
      by (force simp: covering_def)
    with False "1.prems"(6) show ?thesis
      by (auto simp: greedy_loop.simps [of wanted] valid_choice_def)
  next
    case True
    show ?thesis
    proof (cases "greedy_best covered used 0 cs None 0")
      case None
      have "set (pc_repositories (cs ! i)) \<subseteq> set covered" if "i < length cs" for i
        using greedy_best_None [OF None] that "1.prems"(4) by (cases "i \<in> set used") (auto simp: added_by_0)
      moreover from True "1.prems"(1,3) have "card (set covered) < card (set wanted)"
        by (simp add: distinct_card)
      then obtain r where "r \<in> set wanted" "r \<notin> set covered"
        by (metis List.finite_set card_mono linorder_not_less subsetI)
      ultimately have "\<not> covering cs wanted T" for T by (auto simp: covering_def)
      with True None show ?thesis by (simp add: greedy_loop.simps [of wanted])
    next
      case (Some i)
      with greedy_best_unused [OF Some] have i: "i < length cs" by simp
      with "1.IH" [OF True Some] "1.prems" Some True show ?thesis
        by (auto simp: greedy_loop.simps [of wanted cs covered] set_cover_all distinct_cover_all chosen_policies_def)
    qed
  qed
qed

section \<open>The search finds the smallest\<close>

lemma count_up_pos: "0 < count_up rs covered r \<longleftrightarrow> 0 < covered r \<or> r \<in> set rs"
  by (induction rs arbitrary: covered) auto

lemma pick_options_uncovered:
  "pick_options cs covered selected rs [] options = Some opts \<Longrightarrow> \<exists>r \<in> set rs. covered r = 0 \<Longrightarrow>
     \<exists>r \<in> set rs. covered r = 0 \<and> opts = available cs selected r"
proof (induction rs)
  case (Cons r rs)
  show ?case
  proof (cases "covered r > 0")
    case False
    with Cons.prems(1) have "pick_options cs covered selected rs r (available cs selected r) = Some opts"
      by (auto simp: Let_def split: if_splits)
    from pick_options_available [OF this] False show ?thesis by auto
  qed (use Cons in auto)
qed simp

lemma pick_options_None:
  "pick_options cs covered selected rs pick options = None \<Longrightarrow>
     \<exists>r \<in> set rs. covered r = 0 \<and> available cs selected r = []"
  by (induction cs covered selected rs pick options rule: pick_options.induct)
    (auto simp: Let_def split: if_splits)

lemma fold_improves:
  assumes "\<And>i b. i \<in> set is \<Longrightarrow> V b \<Longrightarrow> V (f i b) \<and> m (f i b) \<le> m b \<and> (\<forall>T. P i T \<longrightarrow> m (f i b) \<le> c T)"
    and "V b"
  shows "V (fold f is b) \<and> m (fold f is b) \<le> (m b :: nat) \<and> (\<forall>i \<in> set is. \<forall>T. P i T \<longrightarrow> m (fold f is b) \<le> c T)"
  using assms
proof (induction "is" arbitrary: b)
  case (Cons i "is")
  from Cons.prems have step: "V (f i b)" "m (f i b) \<le> m b" "\<forall>T. P i T \<longrightarrow> m (f i b) \<le> c T" by auto
  from Cons.IH [OF _ step(1)] Cons.prems(1)
  have rest: "V (fold f is (f i b))" "m (fold f is (f i b)) \<le> m (f i b)"
    "\<forall>j \<in> set is. \<forall>T. P j T \<longrightarrow> m (fold f is (f i b)) \<le> c T" by auto
  with step show ?case by (auto intro: le_trans)
qed simp


text \<open>What the counters of a state of the search say.\<close>

definition counts :: "policy_cover list \<Rightarrow> nat list \<Rightarrow> (string \<Rightarrow> nat) \<Rightarrow> bool" where
  "counts cs selected covered \<longleftrightarrow> (\<forall>r. 0 < covered r \<longleftrightarrow> (\<exists>i \<in> set selected. r \<in> set (pc_repositories (cs ! i))))"

lemma counts_up: "counts cs selected covered \<Longrightarrow> counts cs (selected @ [i]) (count_up (pc_repositories (cs ! i)) covered)"
  by (auto simp: counts_def count_up_pos)

lemma uncovered_branches:
  assumes "counts cs selected covered" "covering cs wanted T" "r \<in> set wanted" "covered r = 0"
  shows "\<exists>i \<in> T. i \<in> set (available cs selected r)"
proof -
  from assms(2,3) obtain i where "i \<in> T" "r \<in> set (pc_repositories (cs ! i))" "i < length cs"
    unfolding covering_def by blast
  moreover from assms(1,4) this(2) have "i \<notin> set selected"
    unfolding counts_def by (metis less_irrefl)
  ultimately show ?thesis by (auto simp: available_iff)
qed

lemma cover_search_least:
  assumes "counts cs selected covered" "distinct selected" "set selected \<subseteq> {..<length cs}"
    and "\<And>sel. set (ord sel) = set wanted" "valid_choice cs wanted best"
  shows "valid_choice cs wanted (cover_search ord cs wanted covered selected best) \<and>
    length (cover_search ord cs wanted covered selected best) \<le> length best \<and>
    (\<forall>T. covering cs wanted T \<and> set selected \<subseteq> T \<longrightarrow> length (cover_search ord cs wanted covered selected best) \<le> card T)"
  using assms
proof (induction ord cs wanted covered selected best rule: cover_search.induct)
  case (1 ord cs wanted covered selected best)
  let ?b = "cover_search ord cs wanted covered selected best"
  have sel: "length selected \<le> card T" if "covering cs wanted T" "set selected \<subseteq> T" for T
    using that "1.prems"(2) by (metis card_mono covering_finite distinct_card)
  show ?case
  proof (cases "list_all (\<lambda>r. covered r \<noteq> 0) wanted")
    case True
    then have "\<exists>i \<in> set selected. r \<in> set (pc_repositories (cs ! i))" if "r \<in> set wanted" for r
      using that "1.prems"(1) by (auto simp: counts_def list_all_iff)
    with "1.prems"(3) have "covering cs wanted (set selected)" by (simp add: covering_def)
    then have "valid_choice cs wanted (map (\<lambda>i. pc_policy (cs ! i)) selected)"
      by (auto simp: valid_choice_def chosen_policies_def)
    then show ?thesis
      using True "1.prems"(5) sel by (fastforce simp: cover_search.simps [of ord])
  next
    case more: False
    then obtain r0 where r0: "r0 \<in> set wanted" "covered r0 = 0" by (auto simp: list_all_iff)
    have grows: "length selected + 1 \<le> card T" if T: "covering cs wanted T" "set selected \<subseteq> T" for T
    proof -
      from uncovered_branches [OF "1.prems"(1) T(1) r0] obtain i where "i \<in> T" "i \<notin> set selected"
        by (auto simp: available_iff)
      with T have "set selected \<subset> T" by auto
      from psubset_card_mono [OF covering_finite [OF T(1)] this] show ?thesis
        using "1.prems"(2) by (simp add: distinct_card)
    qed
    show ?thesis
    proof (cases "length selected + 1 \<ge> length best")
      case True
      with more have "?b = best" by (simp add: cover_search.simps [of ord])
      with True grows "1.prems"(5) show ?thesis by (metis le_trans order_refl)
    next
      case room: False
      show ?thesis
      proof (cases "pick_options cs covered selected (ord selected) [] []")
        case None
        then obtain r where "r \<in> set wanted" "covered r = 0" "available cs selected r = []"
          using pick_options_None "1.prems"(4) by metis
        then have "\<not> covering cs wanted T" for T using uncovered_branches [OF "1.prems"(1)] by fastforce
        with more room None "1.prems"(5) show ?thesis by (simp add: cover_search.simps [of ord])
      next
        case (Some opts)
        with pick_options_uncovered [OF Some] r0 "1.prems"(4) obtain r where
          r: "r \<in> set wanted" "covered r = 0" "opts = available cs selected r" by blast
        let ?f = "\<lambda>i best. cover_search ord cs wanted (count_up (pc_repositories (cs ! i)) covered) (selected @ [i]) best"
        have "?b = fold ?f opts best" using more room Some by (simp add: cover_search.simps [of ord cs wanted covered])
        moreover have "valid_choice cs wanted (fold ?f opts best) \<and> length (fold ?f opts best) \<le> length best \<and>
            (\<forall>i \<in> set opts. \<forall>T. covering cs wanted T \<and> set (selected @ [i]) \<subseteq> T \<longrightarrow> length (fold ?f opts best) \<le> card T)"
        proof (rule fold_improves [where P = "\<lambda>i T. covering cs wanted T \<and> set (selected @ [i]) \<subseteq> T" and c = card])
          fix i b assume "i \<in> set opts" "valid_choice cs wanted b"
          with r(3) "1.prems" have "i < length cs" "i \<notin> set selected" by (auto simp: available_iff)
          with "1.IH" [OF more room Some \<open>i \<in> set opts\<close> counts_up [OF "1.prems"(1)]] "1.prems" \<open>valid_choice cs wanted b\<close>
          show "valid_choice cs wanted (?f i b) \<and> length (?f i b) \<le> length b \<and>
              (\<forall>T. covering cs wanted T \<and> set (selected @ [i]) \<subseteq> T \<longrightarrow> length (?f i b) \<le> card T)" by auto
        qed (rule "1.prems"(5))
        moreover have "\<exists>i \<in> set opts. set (selected @ [i]) \<subseteq> T" if "covering cs wanted T" "set selected \<subseteq> T" for T
          using uncovered_branches [OF "1.prems"(1) that(1) r(1,2)] that(2) r(3) by auto
        ultimately show ?thesis by metis
      qed
    qed
  qed
qed

lemma policy_cover_least:
  fixes ps :: "policy list"
  assumes "\<And>sel. set (ord sel) = set missing"
  defines "chosen \<equiv> minimum_policy_cover ord missing ps"
  shows "if missing = [] \<or> \<not> is_cover missing ps then chosen = []
    else is_cover missing chosen \<and> set chosen \<subseteq> set ps \<and>
      (\<forall>qs. set qs \<subseteq> set ps \<and> is_cover missing qs \<longrightarrow> length chosen \<le> length qs)"
proof -
  define cs where "cs = cover_candidates (remdups missing) ps"
  define best where "best = greedy_policy_cover (remdups missing) cs"
  have chosen: "chosen = (if best = [] then [] else cover_search ord cs (remdups missing) (\<lambda>_. 0) [] best)"
    by (simp add: chosen_def minimum_policy_cover_def Let_def cs_def best_def)
  have "\<forall>c \<in> set cs. set (pc_repositories c) \<subseteq> set (remdups missing)"
    by (auto simp: cs_def set_cover_candidates set_wanted_ids)
  then have greedy: "valid_choice cs (remdups missing) best \<or> best = [] \<and> (\<forall>T. \<not> covering cs (remdups missing) T)"
    unfolding best_def greedy_policy_cover_def by (intro greedy_loop_valid) (auto simp: chosen_policies_def)
  have some: "\<exists>T. covering cs (remdups missing) T \<and> card T \<le> length qs" if "is_cover missing qs" "set qs \<subseteq> set ps" for qs
    using covering_of_cover [OF that] by (simp add: cs_def)
  have ok: "is_cover missing b \<and> set b \<subseteq> set ps" if "valid_choice cs (remdups missing) b" for b
  proof -
    from that obtain "is" where "b = chosen_policies cs is" "covering cs (remdups missing) (set is)"
      by (auto simp: valid_choice_def)
    with cover_of_indices [of missing ps "is"] show ?thesis by (simp add: cs_def chosen_policies_def)
  qed
  show ?thesis
  proof (cases "missing = [] \<or> \<not> is_cover missing ps")
    case True
    have "best = []"
    proof (cases "missing = []")
      case True
      then show ?thesis by (simp add: best_def greedy_policy_cover_def greedy_loop.simps)
    next
      case False
      with True have "\<not> is_cover missing ps" by simp
      with ok greedy show ?thesis by (fastforce simp: is_cover_def)
    qed
    with True chosen show ?thesis by simp
  next
    case False
    with some [of ps] greedy have valid: "valid_choice cs (remdups missing) best" by auto
    have "\<not> is_cover missing []" using False by (cases missing) (auto simp: is_cover_def)
    with ok [OF valid] have "best \<noteq> []" by auto
    with chosen have c: "chosen = cover_search ord cs (remdups missing) (\<lambda>_. 0) [] best" by simp
    have least: "valid_choice cs (remdups missing) chosen \<and>
        (\<forall>T. covering cs (remdups missing) T \<and> set [] \<subseteq> T \<longrightarrow> length chosen \<le> card T)"
      unfolding c using cover_search_least [of cs "[]" "\<lambda>_. 0" ord "remdups missing" best] assms(1) valid
      by (simp add: counts_def)
    have "length chosen \<le> length qs" if "set qs \<subseteq> set ps" "is_cover missing qs" for qs
      using some [OF that(2,1)] least by (auto intro: le_trans)
    with ok [of chosen] least False show ?thesis by simp
  qed
qed

text \<open>
  C17. The schedules chosen to refresh missing copies are a smallest set that does it: each is
  one of those offered, together they write to every missing repository, and no other choice
  of schedules does with fewer. Nothing is chosen only when nothing is missing or when all the
  schedules together do not reach every repository. The order of Go's maps does not matter.
\<close>

theorem minimum_policy_cover_least:
  assumes "\<And>sel. set (ord sel) = set missing"
  shows "let chosen = minimum_policy_cover ord missing ps in
    if missing = [] \<or> \<not> is_cover missing ps then chosen = []
    else is_cover missing chosen \<and> set chosen \<subseteq> set ps \<and>
      (\<forall>qs. set qs \<subseteq> set ps \<and> is_cover missing qs \<longrightarrow> length chosen \<le> length qs)"
  using policy_cover_least [OF assms] by (simp add: Let_def)

definition sending_to :: "string list \<Rightarrow> policy" where
  "sending_to rs = \<lparr>po_id = [], po_name = [], po_schedule_cron = [], po_payload_mode = [], po_compression = [],
     po_limit_upload_kib = 0, po_retention = \<lparr>keep_last = 0, keep_daily = 0, keep_weekly = 0, keep_monthly = 0, keep_yearly = 0\<rparr>,
     po_repository_ids = rs, po_accounts = [], po_excludes = [], po_skip_homedir = False, po_skip_databases = False,
     po_skip_email = False, po_include_system = False, po_retry_failed = False, po_alert_no_backup_days = 0,
     po_alert_run_hours = 0, po_enabled = True, po_last_run_at = None, po_created_at = 0\<rparr>"

text \<open>The greedy choice takes three schedules here, the first one with four repositories.\<close>

theorem minimum_policy_cover_least_witness:
  "length (minimum_policy_cover (\<lambda>_. [''a'', ''b'', ''c'', ''d'', ''e'', ''f'']) [''a'', ''b'', ''c'', ''d'', ''e'', ''f'']
     [sending_to [''a'', ''b'', ''d'', ''e''], sending_to [''a'', ''b'', ''c''], sending_to [''d'', ''e'', ''f'']]) \<le> 2"
proof -
  let ?ids = "[''a'', ''b'', ''c'', ''d'', ''e'', ''f'']"
  let ?qs = "[sending_to [''a'', ''b'', ''c''], sending_to [''d'', ''e'', ''f'']]"
  let ?ps = "sending_to [''a'', ''b'', ''d'', ''e''] # ?qs"
  have "is_cover ?ids ?qs" "is_cover ?ids ?ps" by (simp_all add: is_cover_def sending_to_def)
  then show ?thesis
    using minimum_policy_cover_least [of "\<lambda>_. ?ids" ?ids ?ps] by (auto simp: Let_def dest: spec [of _ ?qs])
qed

end
