(* ===== verification/Node_Removal.thy ===== *)
theory Node_Removal
  imports Node_Retention Policy_Cover
begin

text \<open>
  Whether an account may be removed, and preparing it: \<open>internal/node/removal.go\<close>. The answer rests on
  the recorded jobs only. The cron library is a parameter: it refuses an expression or gives the
  next time after one.
\<close>

section \<open>Which schedules promise a copy, and how fresh\<close>

type_synonym cron_api = "string \<Rightarrow> (instant \<Rightarrow> instant) res"

text \<open>Arithmetic on \<open>time.Duration\<close> wraps around at 64 bits.\<close>

definition wrap64 :: "int \<Rightarrow> duration" where
  "wrap64 d = sint (word_of_int d :: 64 word)"

definition full_account_policy :: "policy \<Rightarrow> string \<Rightarrow> bool" where
  "full_account_policy p account =
     (if \<not> po_enabled p \<or> length (po_repository_ids p) = 0 \<or> po_skip_homedir p \<or> po_skip_databases p \<or> po_skip_email p
      then False
      else if all_accounts p then True
      else list_ex (\<lambda>covered. covered = account) (po_accounts p))"

definition policy_freshness :: "cron_api \<Rightarrow> policy \<Rightarrow> instant \<Rightarrow> duration option" where
  "policy_freshness cron p now =
     (case cron (po_schedule_cron p) of
        Inl _ \<Rightarrow> None
      | Inr next \<Rightarrow>
          let first = next now; interval = time_sub (next first) first
          in if interval \<le> 0 then None
             else let due = (if po_alert_no_backup_days p > 0 then wrap64 (po_alert_no_backup_days p * 24 * hour)
                             else wrap64 (2 * interval))
                  in if due > 0 then Some due else None)"

section \<open>The decision for one account\<close>

record removal_safety =
  rs_enforced :: bool
  rs_allowed :: bool
  rs_detail :: string
  rs_missing :: "string list"

definition refused :: "string \<Rightarrow> removal_safety" where
  "refused detail = \<lparr>rs_enforced = False, rs_allowed = False, rs_detail = detail, rs_missing = []\<rparr>"

text \<open>\<open>expected\<close>: how old a copy at each promised repository may be, the strictest schedule deciding.\<close>

fun expect_repositories :: "duration \<Rightarrow> string list \<Rightarrow> (string \<times> duration) list \<Rightarrow> (string \<times> duration) list" where
  "expect_repositories due [] expected = expected"
| "expect_repositories due (r # rs) expected =
     (case map_of expected r of
        None \<Rightarrow> expect_repositories due rs (AList.update r due expected)
      | Some current \<Rightarrow>
          if due < current then expect_repositories due rs (AList.update r due expected)
          else expect_repositories due rs expected)"

fun expect_policies :: "cron_api \<Rightarrow> string \<Rightarrow> instant \<Rightarrow> policy list \<Rightarrow> (string \<times> duration) list \<Rightarrow> string list \<Rightarrow>
    (string \<times> duration) list \<times> string list" where
  "expect_policies cron account now [] expected full = (expected, full)"
| "expect_policies cron account now (p # ps) expected full =
     (if \<not> full_account_policy p account then expect_policies cron account now ps expected full
      else case policy_freshness cron p now of
        None \<Rightarrow> expect_policies cron account now ps expected full
      | Some due \<Rightarrow>
          expect_policies cron account now ps (expect_repositories due (po_repository_ids p) expected) (po_id p # full))"

definition latest_at :: "(string \<times> instant) list \<Rightarrow> string \<Rightarrow> instant" where
  "latest_at latest r = (case map_of latest r of Some t \<Rightarrow> t | None \<Rightarrow> zero_time)"

fun latest_targets :: "(string \<times> duration) list \<Rightarrow> instant \<Rightarrow> job_target list \<Rightarrow> (string \<times> instant) list \<Rightarrow>
    (string \<times> instant) list" where
  "latest_targets expected at [] latest = latest"
| "latest_targets expected at (t # ts) latest =
     (if jt_status t \<noteq> TargetSuccess \<or> jt_incomplete t then latest_targets expected at ts latest
      else if map_of expected (jt_repository_id t) \<noteq> None \<and> at > latest_at latest (jt_repository_id t)
      then latest_targets expected at ts (AList.update (jt_repository_id t) at latest)
      else latest_targets expected at ts latest)"

definition copy_time :: "node_job \<Rightarrow> instant" where
  "copy_time j = (case jb_finished_at j of Some t \<Rightarrow> t | None \<Rightarrow> jb_queued_at j)"

fun latest_copies :: "(string \<times> duration) list \<Rightarrow> string list \<Rightarrow> node_job list \<Rightarrow> (string \<times> instant) list \<Rightarrow>
    (string \<times> instant) list" where
  "latest_copies expected full [] latest = latest"
| "latest_copies expected full (j # js) latest =
     (if jb_status j \<noteq> StatusSuccess \<or> \<not> jb_complete_account j \<or> jb_policy_id j \<notin> set full
      then latest_copies expected full js latest
      else latest_copies expected full js (latest_targets expected (copy_time j) (jb_targets j) latest))"

text \<open>\<open>%.8s\<close>: the first eight characters.\<close>

fun first_runes :: "nat \<Rightarrow> string \<Rightarrow> string" where
  "first_runes 0 s = []"
| "first_runes (Suc n) s =
     (if s = [] then [] else take (max 1 (rune_len s)) s @ first_runes n (drop (max 1 (rune_len s)) s))"

definition short_repository_id :: "string \<Rightarrow> string" where
  "short_repository_id i =
     (if length i > 8 then ''repository '' @ first_runes 8 i else ''repository '' @ i)"

fun missing_copies :: "instant \<Rightarrow> (string \<Rightarrow> string) \<Rightarrow> (string \<times> instant) list \<Rightarrow> (string \<times> duration) list \<Rightarrow>
    string list \<times> string list \<times> string list \<Rightarrow> string list \<times> string list \<times> string list" where
  "missing_copies now names latest [] acc = acc"
| "missing_copies now names latest ((r, due) # es) (never, stale, ids) =
     (let name = (if names r = [] then short_repository_id r else names r) in
      case map_of latest r of
        None \<Rightarrow> missing_copies now names latest es (never @ [name], stale, ids @ [r])
      | Some at \<Rightarrow>
          if time_sub now at > due then missing_copies now names latest es (never, stale @ [name], ids @ [r])
          else missing_copies now names latest es (never, stale, ids))"

definition account_removal_safety :: "cron_api \<Rightarrow> string \<Rightarrow> instant \<Rightarrow> policy list \<Rightarrow> node_job list \<Rightarrow> (string \<Rightarrow> string) \<Rightarrow>
    removal_safety" where
  "account_removal_safety cron account now ps js names =
     (if account = [] then refused ''cPanel removal hook did not name an account''
      else case expect_policies cron account now ps [] [] of (expected, full) \<Rightarrow>
        if length expected = 0 then refused ''no enabled full-account backup policy covers this account''
        else case missing_copies now names (latest_copies expected full js []) expected ([], [], []) of
          (never, stale, ids) \<Rightarrow>
            if length never > 0 \<or> length stale > 0 then
              let parts = (if length never > 0 then [''no complete copy at '' @ join_with '', '' (sort_strings never)] else [])
                        @ (if length stale > 0 then [''stale complete copy at '' @ join_with '', '' (sort_strings stale)] else [])
              in \<lparr>rs_enforced = False, rs_allowed = False, rs_detail = join_with ''; '' parts, rs_missing = sort_strings ids\<rparr>
            else \<lparr>rs_enforced = False, rs_allowed = True,
                  rs_detail = ''recent complete copies exist at every promised destination'', rs_missing = []\<rparr>)"

section \<open>Decisions from the store\<close>

definition name_of :: "(string \<times> string) list \<Rightarrow> string \<Rightarrow> string" where
  "name_of names i = (case map_of names i of Some n \<Rightarrow> n | None \<Rightarrow> [])"

text \<open>A later record of the same identifier replaces an earlier one, so the list is read backwards.\<close>

definition repository_display_names :: "('db, 'x) engine \<Rightarrow> ('db, 'x, string \<Rightarrow> string) eprog" where
  "repository_display_names E =
     prog_bind (on_store (repositories (eg_store E))) (\<lambda>rs.
     prog_bind (on_store (destinations (eg_store E))) (\<lambda>ds.
       let destination_names = rev (map (\<lambda>d. (destination.ds_id d, destination.ds_name d)) ds)
       in prog_return (name_of (rev (map (\<lambda>r. (rp_id r, name_of destination_names (rp_destination_id r))) rs)))))"

definition account_removal_safeties :: "('db, 'x) engine \<Rightarrow> cron_api \<Rightarrow> string list \<Rightarrow> instant \<Rightarrow>
    ('db, 'x, (string \<times> removal_safety) list) eprog" where
  "account_removal_safeties E cron accounts now =
     prog_bind (on_store (get_settings (eg_store E))) (\<lambda>st.
       if \<not> st_protect_account_removal st then
         prog_return (map (\<lambda>a. (a, \<lparr>rs_enforced = False, rs_allowed = True,
           rs_detail = ''termination protection is disabled'', rs_missing = []\<rparr>)) accounts)
       else
         prog_bind (on_store (policies (eg_store E))) (\<lambda>ps.
         prog_bind (on_store (jobs (eg_store E) 0)) (\<lambda>js.
         prog_bind (repository_display_names E) (\<lambda>names.
           prog_return (map (\<lambda>a. (a, (account_removal_safety cron a now ps
             (filter (\<lambda>j. jb_account j = a) js) names)\<lparr>rs_enforced := True\<rparr>)) accounts)))))"

definition removal_safety_for :: "('db, 'x) engine \<Rightarrow> cron_api \<Rightarrow> string \<Rightarrow> instant \<Rightarrow> ('db, 'x, removal_safety) eprog" where
  "removal_safety_for E cron account now =
     prog_bind (account_removal_safeties E cron [account] now) (\<lambda>decisions.
       prog_return (case map_of decisions account of Some d \<Rightarrow> d | None \<Rightarrow> refused []))"

section \<open>Preparing a removal\<close>

definition preparing_policies :: "cron_api \<Rightarrow> string \<Rightarrow> instant \<Rightarrow> policy list \<Rightarrow> policy list" where
  "preparing_policies cron account now ps =
     filter (\<lambda>p. full_account_policy p account \<and> policy_freshness cron p now \<noteq> None) ps"

definition queued_job :: "string \<Rightarrow> string \<Rightarrow> node_job" where
  "queued_job policy_id account =
     \<lparr>jb_id = [], jb_policy_id = policy_id, jb_account = account, jb_complete_account = False,
      jb_status = StatusPending, jb_targets = [], jb_staging_err = [], jb_progress = None,
      jb_queued_at = zero_time, jb_started_at = None, jb_finished_at = None\<rparr>"

definition queue_removal_preparation :: "('db, 'x) engine \<Rightarrow> cron_api \<Rightarrow> (nat list \<Rightarrow> string list) \<Rightarrow> (nat \<Rightarrow> string) \<Rightarrow> instant \<Rightarrow>
    string \<Rightarrow> instant \<Rightarrow> ('db, 'x, policy list) eprog" where
  "queue_removal_preparation E cron ord new_id clock account now =
     prog_bind (removal_safety_for E cron account now) (\<lambda>decision.
       if \<not> rs_enforced decision then prog_fail (ErrMsg ''node: account-removal protection is not enabled'' [])
       else if rs_allowed decision then
         prog_fail (ErrMsg ''node: this account already has every recent complete copy required for removal'' [])
       else if length (rs_missing decision) = 0 then
         prog_fail (ErrMsg ''node: cannot prepare this account'' [rs_detail decision])
       else prog_bind (on_store (policies (eg_store E))) (\<lambda>ps.
         let selected = minimum_policy_cover ord (rs_missing decision) (preparing_policies cron account now ps) in
         if length selected = 0 then
           prog_fail (ErrMsg ''node: no enabled full-account schedules can refresh every missing copy'' [])
         else prog_bind (on_store (running_job_for (eg_store E) account)) (\<lambda>busy.
           if busy then prog_fail (ErrMsg ''node: account already has work in flight'' [account])
           else prog_bind (on_store (put_jobs (eg_store E) new_id clock (map (\<lambda>p. queued_job (po_id p) account) selected))) (\<lambda>_.
             prog_return selected))))"


section \<open>What the decision means\<close>

definition promising :: "cron_api \<Rightarrow> string \<Rightarrow> instant \<Rightarrow> policy \<Rightarrow> duration \<Rightarrow> bool" where
  "promising cron account now p due \<longleftrightarrow> full_account_policy p account \<and> policy_freshness cron p now = Some due"

text \<open>A complete copy of the account at r, taken at the given time by one of the given schedules.\<close>

definition copy_at :: "string set \<Rightarrow> string \<Rightarrow> node_job \<Rightarrow> instant \<Rightarrow> bool" where
  "copy_at ids r j at \<longleftrightarrow> jb_status j = StatusSuccess \<and> jb_complete_account j \<and> jb_policy_id j \<in> ids \<and>
     at = copy_time j \<and> zero_time < at \<and>
     (\<exists>t \<in> set (jb_targets j). jt_repository_id t = r \<and> jt_status t = TargetSuccess \<and> \<not> jt_incomplete t)"

lemma map_of_update [simp]: "map_of (AList.update k v al) = (map_of al)(k \<mapsto> v)"
  by (rule update_conv')

lemma expect_repositories_map:
  "map_of (expect_repositories due rs ex) r =
     (if r \<in> set rs then Some (case map_of ex r of None \<Rightarrow> due | Some c \<Rightarrow> min due c) else map_of ex r)"
  by (induction due rs ex rule: expect_repositories.induct) (auto split: option.splits if_splits)

lemma expect_repositories_distinct:
  "distinct (map fst ex) \<Longrightarrow> distinct (map fst (expect_repositories due rs ex))"
  by (induction due rs ex rule: expect_repositories.induct) (auto simp: distinct_update split: option.splits)

definition promise_of :: "cron_api \<Rightarrow> string \<Rightarrow> instant \<Rightarrow> policy \<Rightarrow> duration option" where
  "promise_of cron account now p = (if full_account_policy p account then policy_freshness cron p now else None)"

lemma promising_iff: "promising cron account now p due \<longleftrightarrow> promise_of cron account now p = Some due"
  by (simp add: promising_def promise_of_def)

lemma expect_policies_Cons:
  "expect_policies cron account now (p # ps) ex full = (case promise_of cron account now p of
     None \<Rightarrow> expect_policies cron account now ps ex full
   | Some due \<Rightarrow> expect_policies cron account now ps (expect_repositories due (po_repository_ids p) ex) (po_id p # full))"
  by (auto simp: promise_of_def)

lemma expect_policies_distinct:
  "distinct (map fst ex) \<Longrightarrow> distinct (map fst (fst (expect_policies cron account now ps ex full)))"
  by (induction ps arbitrary: ex full)
    (auto simp: expect_policies_Cons expect_repositories_distinct simp del: expect_policies.simps(2) split: option.splits)

lemma expect_policies_None:
  "map_of (fst (expect_policies cron account now ps ex full)) r = None \<longleftrightarrow> map_of ex r = None \<and>
     (\<forall>p \<in> set ps. \<forall>due. promising cron account now p due \<longrightarrow> r \<notin> set (po_repository_ids p))"
  by (induction ps arbitrary: ex full)
    (auto simp: expect_policies_Cons promising_iff expect_repositories_map simp del: expect_policies.simps(2) split: option.splits)

lemma expect_policies_bound:
  "(\<forall>d. map_of (fst (expect_policies cron account now ps ex full)) r = Some d \<longrightarrow> t \<le> d) \<longleftrightarrow>
     (\<forall>d. map_of ex r = Some d \<longrightarrow> t \<le> d) \<and>
     (\<forall>p \<in> set ps. \<forall>due. promising cron account now p due \<and> r \<in> set (po_repository_ids p) \<longrightarrow> t \<le> due)"
  by (induction ps arbitrary: ex full)
    (auto simp: expect_policies_Cons promising_iff expect_repositories_map simp del: expect_policies.simps(2) split: option.splits)

lemma expect_policies_full:
  "set (snd (expect_policies cron account now ps ex full)) =
     set full \<union> po_id ` {p \<in> set ps. promise_of cron account now p \<noteq> None}"
  by (induction ps arbitrary: ex full)
    (auto simp: expect_policies_Cons simp del: expect_policies.simps(2) split: option.splits)

text \<open>The latest copies: a property that later times keep holds of the latest exactly when it holds of some copy.\<close>

definition good_times :: "(string \<times> instant) list \<Rightarrow> bool" where
  "good_times latest \<longleftrightarrow> (\<forall>r t. map_of latest r = Some t \<longrightarrow> zero_time < t)"

definition reached :: "(instant \<Rightarrow> bool) \<Rightarrow> (string \<times> instant) list \<Rightarrow> string \<Rightarrow> bool" where
  "reached Q latest r \<longleftrightarrow> (\<exists>t. map_of latest r = Some t \<and> Q t)"

lemma latest_targets_reached:
  assumes "\<And>t u. Q t \<Longrightarrow> t \<le> u \<Longrightarrow> Q u" "good_times latest" "map_of expected r \<noteq> None"
  shows "good_times (latest_targets expected at ts latest) \<and>
    (reached Q (latest_targets expected at ts latest) r \<longleftrightarrow> reached Q latest r \<or>
       zero_time < at \<and> Q at \<and> (\<exists>t \<in> set ts. jt_repository_id t = r \<and> jt_status t = TargetSuccess \<and> \<not> jt_incomplete t))"
  using assms(2)
proof (induction ts arbitrary: latest)
  case (Cons t ts)
  let ?r = "jt_repository_id t"
  show ?case
  proof (cases "jt_status t = TargetSuccess \<and> \<not> jt_incomplete t \<and> map_of expected ?r \<noteq> None \<and> at > latest_at latest ?r")
    case True
    then have "good_times (AList.update ?r at latest)" "zero_time < at"
      using Cons.prems by (auto simp: good_times_def latest_at_def split: option.splits if_splits dest: less_trans)
    moreover have "reached Q (AList.update ?r at latest) r \<longleftrightarrow> reached Q latest r \<or> r = ?r \<and> Q at"
      using True assms(1) by (auto simp: reached_def latest_at_def split: option.splits)
    ultimately show ?thesis using True Cons.IH [of "AList.update ?r at latest"] by auto
  next
    case False
    have "reached Q latest r" if "jt_status t = TargetSuccess" "\<not> jt_incomplete t" "?r = r" "zero_time < at" "Q at"
      using that False assms(1,3) by (auto simp: reached_def latest_at_def not_less split: option.splits)
    then show ?thesis using False Cons.IH [OF Cons.prems] by (auto split: if_splits)
  qed
qed simp

lemma latest_copies_reached:
  assumes "\<And>t u. Q t \<Longrightarrow> t \<le> u \<Longrightarrow> Q u" "good_times latest" "map_of expected r \<noteq> None"
  shows "reached Q (latest_copies expected full js latest) r \<longleftrightarrow>
    reached Q latest r \<or> (\<exists>j \<in> set js. \<exists>at. copy_at (set full) r j at \<and> Q at)"
  using assms(2)
proof (induction js arbitrary: latest)
  case (Cons j js)
  show ?case
  proof (cases "jb_status j \<noteq> StatusSuccess \<or> \<not> jb_complete_account j \<or> jb_policy_id j \<notin> set full")
    case False
    with latest_targets_reached [OF assms(1) Cons.prems assms(3), where at = "copy_time j" and ts = "jb_targets j"] Cons.IH
    show ?thesis by (auto simp: copy_at_def)
  qed (use Cons in \<open>auto simp: copy_at_def\<close>)
qed simp


definition fresh_at :: "instant \<Rightarrow> (string \<times> instant) list \<Rightarrow> string \<times> duration \<Rightarrow> bool" where
  "fresh_at now latest e \<longleftrightarrow> reached (\<lambda>t. time_sub now t \<le> snd e) latest (fst e)"

lemma missing_copies_result:
  "missing_copies now names latest es (never, stale, ids) = (never', stale', ids') \<Longrightarrow>
     ids' = ids @ map fst (filter (\<lambda>e. \<not> fresh_at now latest e) es) \<and>
     length never' + length stale' = length never + length stale + length (filter (\<lambda>e. \<not> fresh_at now latest e) es)"
proof (induction es arbitrary: never stale ids)
  case (Cons e es)
  obtain r due where e: "e = (r, due)" by force
  show ?case
    using Cons.prems
    by (cases "map_of latest r") (auto simp: e Let_def fresh_at_def reached_def split: if_splits dest!: Cons.IH)
qed simp

lemma time_sub_mono: "t \<le> u \<Longrightarrow> time_sub now u \<le> time_sub now t"
  by (auto simp: time_sub_def)

text \<open>The schedules that promise copies of the account, and whether one of their copies is recent enough.\<close>

definition promisers :: "cron_api \<Rightarrow> string \<Rightarrow> instant \<Rightarrow> policy list \<Rightarrow> string set" where
  "promisers cron account now ps = po_id ` {p \<in> set ps. promise_of cron account now p \<noteq> None}"

definition recent_copy :: "string set \<Rightarrow> node_job list \<Rightarrow> string \<Rightarrow> instant \<Rightarrow> duration \<Rightarrow> bool" where
  "recent_copy ids js r now due \<longleftrightarrow> (\<exists>j \<in> set js. \<exists>at. copy_at ids r j at \<and> time_sub now at \<le> due)"

definition promised :: "cron_api \<Rightarrow> string \<Rightarrow> instant \<Rightarrow> policy list \<Rightarrow> string \<Rightarrow> duration \<Rightarrow> bool" where
  "promised cron account now ps r due \<longleftrightarrow>
     (\<exists>p \<in> set ps. promising cron account now p due \<and> r \<in> set (po_repository_ids p))"

lemma expected_repository:
  assumes "expect_policies cron account now ps [] [] = (expected, full)"
  shows "(\<exists>d. (r, d) \<in> set expected) \<longleftrightarrow> (\<exists>due. promised cron account now ps r due)"
    "(r, d) \<in> set expected \<Longrightarrow> t \<le> d \<longleftrightarrow> (\<forall>due. promised cron account now ps r due \<longrightarrow> t \<le> due)"
    "set full = promisers cron account now ps"
proof -
  have m: "(r, d) \<in> set expected \<longleftrightarrow> map_of expected r = Some d" for r d
    using expect_policies_distinct [of "[]" cron account now ps "[]"] assms by (simp add: map_of_eq_Some_iff)
  show "(\<exists>d. (r, d) \<in> set expected) \<longleftrightarrow> (\<exists>due. promised cron account now ps r due)"
    using expect_policies_None [of cron account now ps "[]" "[]" r] assms
    by (auto simp: m promised_def)
  show "(r, d) \<in> set expected \<Longrightarrow> t \<le> d \<longleftrightarrow> (\<forall>due. promised cron account now ps r due \<longrightarrow> t \<le> due)"
    using expect_policies_bound [of cron account now ps "[]" "[]" r t] assms by (auto simp: m promised_def)
  show "set full = promisers cron account now ps"
    using expect_policies_full [of cron account now ps "[]" "[]"] assms by (simp add: promisers_def)
qed

lemma entry_fresh_iff:
  assumes "expect_policies cron account now ps [] [] = (expected, full)" "(r, d) \<in> set expected"
  shows "fresh_at now (latest_copies expected full js []) (r, d) \<longleftrightarrow>
    (\<forall>due. promised cron account now ps r due \<longrightarrow> recent_copy (promisers cron account now ps) js r now due)"
proof -
  from assms(2) have "map_of expected r \<noteq> None" by (metis domIff dom_map_of_conv_image_fst fst_conv imageI)
  then have reach: "fresh_at now (latest_copies expected full js []) (r, d) \<longleftrightarrow> recent_copy (set full) js r now d"
    using latest_copies_reached [of "\<lambda>t. time_sub now t \<le> d" "[]" expected r full js]
    by (auto simp: fresh_at_def good_times_def reached_def recent_copy_def intro: order_trans [OF time_sub_mono])
  have dues: "t \<le> d \<longleftrightarrow> (\<forall>due. promised cron account now ps r due \<longrightarrow> t \<le> due)" for t
    using expected_repository(2) [OF assms] .
  have "promised cron account now ps r d"
  proof -
    from expected_repository(1) [OF assms(1), of r] assms(2) obtain due0 where "promised cron account now ps r due0" by blast
    let ?D = "{due. promised cron account now ps r due}"
    have "?D \<subseteq> (\<lambda>p. the (promise_of cron account now p)) ` set ps"
      by (force simp: promised_def promising_iff)
    then have "finite ?D" by (rule finite_subset) simp
    moreover have "?D \<noteq> {}" using \<open>promised cron account now ps r due0\<close> by blast
    ultimately have min: "Min ?D \<in> ?D" "\<forall>due \<in> ?D. Min ?D \<le> due"
      using Min_in Min_le by blast+
    from min(1) dues [of d] have "d \<le> Min ?D" by blast
    moreover from min(2) dues [of "Min ?D"] have "Min ?D \<le> d" by blast
    ultimately have "d = Min ?D" by simp
    with min(1) show ?thesis by (metis mem_Collect_eq)
  qed
  with dues [of d] show ?thesis
    unfolding reach expected_repository(3) [OF assms(1)]
    by (auto simp: recent_copy_def intro: order_trans)
qed

lemma removal_safety_split:
  assumes "account \<noteq> []" "\<exists>r due. promised cron account now ps r due"
  shows "rs_allowed (account_removal_safety cron account now ps js names) \<longleftrightarrow>
      rs_missing (account_removal_safety cron account now ps js names) = []"
    "r \<in> set (rs_missing (account_removal_safety cron account now ps js names)) \<longleftrightarrow>
      (\<exists>due. promised cron account now ps r due \<and> \<not> recent_copy (promisers cron account now ps) js r now due)"
proof -
  obtain expected full where ex: "expect_policies cron account now ps [] [] = (expected, full)" by force
  obtain never stale ids where
    m: "missing_copies now names (latest_copies expected full js []) expected ([], [], []) = (never, stale, ids)"
    using prod_cases3 by blast
  from assms(2) expected_repository(1) [OF ex] have "expected \<noteq> []" by fastforce
  from missing_copies_result [OF m] have
    ids: "ids = map fst (filter (\<lambda>e. \<not> fresh_at now (latest_copies expected full js []) e) expected)" and
    len: "length never + length stale = length ids" by simp_all
  have safety: "rs_allowed (account_removal_safety cron account now ps js names) = (ids = []) \<and>
      set (rs_missing (account_removal_safety cron account now ps js names)) = set ids"
    using assms(1) ex m \<open>expected \<noteq> []\<close> len
    by (cases never; cases stale; cases ids) (simp_all add: account_removal_safety_def Let_def)
  then show "rs_allowed (account_removal_safety cron account now ps js names) \<longleftrightarrow>
      rs_missing (account_removal_safety cron account now ps js names) = []"
    by (metis set_empty)
  have "r \<in> set ids \<longleftrightarrow> (\<exists>d. (r, d) \<in> set expected \<and> \<not> fresh_at now (latest_copies expected full js []) (r, d))"
    by (auto simp: ids image_iff)
  also have "\<dots> \<longleftrightarrow> (\<exists>due. promised cron account now ps r due \<and> \<not> recent_copy (promisers cron account now ps) js r now due)"
    using entry_fresh_iff [OF ex] expected_repository(1) [OF ex] by metis
  finally show "r \<in> set (rs_missing (account_removal_safety cron account now ps js names)) \<longleftrightarrow>
      (\<exists>due. promised cron account now ps r due \<and> \<not> recent_copy (promisers cron account now ps) js r now due)"
    using safety by simp
qed

lemma removal_needs_promise:
  assumes "\<not> (\<exists>r due. promised cron account now ps r due) \<or> account = []"
  shows "account_removal_safety cron account now ps js names =
    refused (if account = [] then ''cPanel removal hook did not name an account''
             else ''no enabled full-account backup policy covers this account'')"
proof (cases "account = []")
  case False
  obtain expected full where ex: "expect_policies cron account now ps [] [] = (expected, full)" by force
  have "expected = []"
  proof (cases expected)
    case (Cons e es)
    then show ?thesis using expected_repository(1) [OF ex, of "fst e"] assms False by (cases e) auto
  qed simp
  with ex False show ?thesis by (simp add: account_removal_safety_def)
qed (simp add: account_removal_safety_def)

lemma removal_allowed:
  "rs_allowed (account_removal_safety cron account now ps js names) \<longleftrightarrow>
     account \<noteq> [] \<and> (\<exists>r due. promised cron account now ps r due) \<and>
     (\<forall>r due. promised cron account now ps r due \<longrightarrow> recent_copy (promisers cron account now ps) js r now due)"
proof (cases "account \<noteq> [] \<and> (\<exists>r due. promised cron account now ps r due)")
  case True
  with removal_safety_split [of account cron now ps] show ?thesis
    by (metis ex_in_conv set_empty)
next
  case False
  with removal_needs_promise show ?thesis by (auto simp: refused_def)
qed


text \<open>
  C27. An account may be removed exactly when it is named, some enabled schedule of the whole
  account promises a copy somewhere, and every repository so promised holds a copy, recent
  enough for each schedule that promises it, that a successful complete job of such a schedule
  left there without failing or leaving anything out.
\<close>

theorem removal_allowed_iff:
  "rs_allowed (account_removal_safety cron account now ps js names) \<longleftrightarrow>
     account \<noteq> [] \<and> (\<exists>r due. promised cron account now ps r due) \<and>
     (\<forall>r due. promised cron account now ps r due \<longrightarrow> recent_copy (promisers cron account now ps) js r now due)"
  by (rule removal_allowed)

definition daily :: cron_api where
  "daily e = Inr (\<lambda>t. t + 24 * hour)"

definition complete_run :: "string \<Rightarrow> string list \<Rightarrow> instant \<Rightarrow> node_job" where
  "complete_run policy_id rs t = (queued_job policy_id ''bob'')\<lparr>jb_complete_account := True, jb_status := StatusSuccess,
     jb_finished_at := Some t, jb_targets := map (\<lambda>r. \<lparr>jt_repository_id = r, jt_status = TargetSuccess, jt_snapshot_id = ''s'',
       jt_bytes_added = 1, jt_bytes_processed = 1, jt_duration_secs = 0, jt_incomplete = False, jt_error = [], jt_detail = []\<rparr>) rs\<rparr>"

lemma daily_promise:
  "promise_of daily ''bob'' (100 * hour) (sending_to (r # rs)) = Some (48 * hour)"
  by (simp add: promise_of_def full_account_policy_def all_accounts_def sending_to_def policy_freshness_def daily_def
      Let_def time_sub_def max_duration_def min_duration_def hour_def wrap64_def)

lemma daily_promised:
  "promised daily ''bob'' (100 * hour) [sending_to [''r1'']] r due \<longleftrightarrow> r = ''r1'' \<and> due = 48 * hour"
  by (auto simp: promised_def promising_iff daily_promise) (auto simp: sending_to_def)

lemma daily_promisers: "promisers daily ''bob'' (100 * hour) [sending_to [''r1'']] = {[]}"
proof -
  have "po_id (sending_to [''r1'']) = []" by (simp add: sending_to_def)
  then show ?thesis by (auto simp: promisers_def daily_promise)
qed

theorem removal_allowed_iff_witness:
  "rs_allowed (account_removal_safety daily ''bob'' (100 * hour) [sending_to [''r1'']] [complete_run [] [''r1''] (90 * hour)] (\<lambda>_. []))
   \<and> \<not> rs_allowed (account_removal_safety daily ''bob'' (100 * hour) [sending_to [''r1'']] [complete_run [] [''r1''] (50 * hour)] (\<lambda>_. []))"
  unfolding removal_allowed_iff daily_promised daily_promisers
  by (auto simp: recent_copy_def copy_at_def complete_run_def queued_job_def copy_time_def
      zero_time_def hour_def time_sub_def max_duration_def min_duration_def)

section \<open>What preparing a removal achieves\<close>

definition ran_well :: "instant \<Rightarrow> policy \<Rightarrow> node_job \<Rightarrow> bool" where
  "ran_well now p j \<longleftrightarrow> now \<le> copy_time j \<and> (\<forall>r \<in> set (po_repository_ids p). copy_at {po_id p} r j (copy_time j))"

lemma recent_copy_more:
  "recent_copy ids js r now due \<Longrightarrow> set js \<subseteq> set js' \<Longrightarrow> recent_copy ids js' r now due"
  by (auto simp: recent_copy_def)

lemma preparing_promises:
  "p \<in> set (preparing_policies cron account now ps) \<longleftrightarrow> p \<in> set ps \<and> promise_of cron account now p \<noteq> None"
  by (auto simp: preparing_policies_def promise_of_def)

lemma promise_positive: "promise_of cron account now p = Some due \<Longrightarrow> 0 < due"
  by (auto simp: promise_of_def policy_freshness_def Let_def split: if_splits sum.splits)



lemma daily_missing:
  "rs_missing (account_removal_safety daily ''bob'' (100 * hour) [sending_to [''r1'']] [] (\<lambda>_. [])) = [''r1'']"
  by (simp add: account_removal_safety_def full_account_policy_def all_accounts_def sending_to_def policy_freshness_def daily_def
      Let_def time_sub_def max_duration_def min_duration_def hour_def wrap64_def short_repository_id_def sort_strings_def)



section \<open>Queueing the preparation\<close>

lemma reads_only_names [commands]: "reads_only (repository_display_names E)"
  unfolding repository_display_names_def Let_def by (intro reads_only_bind reads_only_store reads_only_basic; simp)

lemma reads_only_safeties [commands]: "reads_only (account_removal_safeties E cron accounts now)"
  unfolding account_removal_safeties_def
  by (intro reads_only_bind reads_only_if reads_only_names reads_only_store reads_only_basic; simp)

lemma reads_only_removal [commands]: "reads_only (removal_safety_for E cron account now)"
  unfolding removal_safety_for_def by (intro reads_only_bind reads_only_safeties reads_only_basic)

lemma reads_only_on_store [commands]:
  "reads_only (on_store (running_job_for B i) :: ('db, 'x, bool) eprog)" "reads_only (on_store (policies B) :: ('db, 'x, policy list) eprog)"
  by (rule reads_only_store, simp)+

lemma queueing_fails:
  assumes "bolt_store B" "prog_bind (on_store (put_jobs B nid now js)) (\<lambda>_. prog_return x) s = (Inl e, t)"
  shows "t = s"
  using assms(2) bolt_store.put_jobs_Inl [OF assms(1)]
  by (auto simp: prog_bind_def on_store_def split: prod.splits sum.splits)

definition prepared_jobs :: "string \<Rightarrow> policy list \<Rightarrow> node_job list \<Rightarrow> bool" where
  "prepared_jobs account selected js \<longleftrightarrow> length js = length selected \<and>
     (\<forall>n < length selected. jb_policy_id (js ! n) = po_id (selected ! n) \<and> jb_account (js ! n) = account \<and>
        jb_status (js ! n) = StatusPending)"

lemma queue_plan_stored:
  assumes "bolt_store B" "inj new_id"
    and "put_jobs B new_id clock (map (\<lambda>p. queued_job (po_id p) account) selected) db = (Inr js, db')"
  shows "prepared_jobs account selected js"
    "stored B BJobs as_job j db' \<Longrightarrow> j \<in> set js \<or> stored B BJobs as_job j db"
    "j \<in> set js \<Longrightarrow> stored B BJobs as_job j db'"
proof -
  let ?new = "map (\<lambda>p. queued_job (po_id p) account) selected"
  have new: "list_all fresh_job ?new" "inj_on new_id {..< length ?new}"
    using assms(2) by (auto simp: list_all_iff fresh_job_def queued_job_def is_zero_def intro: inj_on_subset)
  note st = bolt_store.put_jobs_stored [OF assms(1,3) new]
  show "prepared_jobs account selected js"
    using st(1) assms(3) prepare_jobs_nth
    by (force simp: prepared_jobs_def put_jobs_def prog_bind_eq_Inr prepare_job_def queued_job_def Let_def no_status_def)
  show "stored B BJobs as_job j db' \<Longrightarrow> j \<in> set js \<or> stored B BJobs as_job j db" "j \<in> set js \<Longrightarrow> stored B BJobs as_job j db'"
    unfolding st(3) by (auto simp: stored_def)
qed

text \<open>
  A preparation is queued whole or not at all, and only for an account at rest: on any error
  nothing has changed; otherwise removal was enforced and refused, no job of the account was
  unfinished, and what was added is one pending job of the account per chosen schedule.
\<close>

theorem preparation_queued:
  assumes "bolt_store (eg_store E)" "inj new_id"
    and "queue_removal_preparation E cron ord new_id clock account now s = (r, s')"
  shows "(\<exists>e. r = Inl e \<and> s' = s) \<or>
    (\<exists>selected js decision. r = Inr selected \<and> removal_safety_for E cron account now s = (Inr decision, s) \<and>
       rs_enforced decision \<and> \<not> rs_allowed decision \<and> prepared_jobs account selected js \<and>
       (\<forall>j. stored (eg_store E) BJobs as_job j (es_db s) \<and> jb_account j = account \<longrightarrow> terminal (jb_status j)) \<and>
       (\<forall>j. stored (eg_store E) BJobs as_job j (es_db s') \<longrightarrow> j \<in> set js \<or> stored (eg_store E) BJobs as_job j (es_db s)) \<and>
       (\<forall>j \<in> set js. stored (eg_store E) BJobs as_job j (es_db s')))"
proof -
  note unfolded = assms(3) [unfolded queue_removal_preparation_def Let_def]
  note reads = commands
  show ?thesis
  proof (cases r)
    case (Inl e)
    have "s' = s"
    proof (rule ccontr)
      assume "s' \<noteq> s"
      with unfolded Inl show False
        by (auto dest!: queueing_fails [OF assms(1)] reads_only_Inl [OF reads_only_removal] reads_only_Inl [OF reads_only_on_store(2)]
            reads_only_Inl [OF reads_only_on_store(1)] split: if_splits)
    qed
    with Inl show ?thesis by blast
  next
    case (Inr selected)
    let ?new = "\<lambda>selected. map (\<lambda>p. queued_job (po_id p) account) selected"
    from unfolded Inr obtain decision js where d: "removal_safety_for E cron account now s = (Inr decision, s)"
        "rs_enforced decision" "\<not> rs_allowed decision"
      and idle: "on_store (running_job_for (eg_store E) account) s = (Inr False, s)"
      and put: "on_store (put_jobs (eg_store E) new_id clock (?new selected)) s = (Inr js, s')"
      by (auto simp: reads_only_Inr [OF reads_only_removal] reads_only_Inr [OF reads_only_on_store(1)]
          reads_only_Inr [OF reads_only_on_store(2)] prog_bind_eq_Inr [of "on_store (put_jobs B n c j)" for B n c j] split: if_splits)
    from put obtain db where put': "put_jobs (eg_store E) new_id clock (?new selected) (es_db s) = (Inr js, db)" "s' = s\<lparr>es_db := db\<rparr>"
      by (auto simp: on_store_def split: prod.splits)
    note st = queue_plan_stored [OF assms(1,2) put'(1)]
    moreover have "terminal (jb_status j)" if "stored (eg_store E) BJobs as_job j (es_db s)" "jb_account j = account" for j
      using idle_account(1) [OF assms(1) _ that] idle by (auto simp: on_store_def split: prod.splits)
    ultimately show ?thesis using d Inr put'(2) by auto
  qed
qed


definition protecting_db :: mem_db where
  "protecting_db = (\<lambda>_. [])
     (BSettings := [(settings_key, DSettings (default_settings\<lparr>st_protect_account_removal := True\<rparr>))],
      BPolicies := [(''p1'', DPolicy ((sending_to [''r1''])\<lparr>po_id := ''p1''\<rparr>))])"

definition marks :: "nat \<Rightarrow> string" where
  "marks n = replicate (Suc n) CHR ''x''"

definition prepare_bob :: "(mem_db, unit, policy list) eprog" where
  "prepare_bob = queue_removal_preparation sample_engine daily (\<lambda>_. [''r1'']) marks 7 ''bob'' (100 * hour)"

theorem preparation_queued_witness:
  "\<exists>js. prepared_jobs ''bob'' [(sending_to [''r1''])\<lparr>po_id := ''p1''\<rparr>] js \<and>
     (\<forall>j \<in> set js. stored mem_bolt BJobs as_job j (es_db (snd (prepare_bob (started protecting_db example_world default_settings)))))"
proof -
  let ?run = "prepare_bob (started protecting_db example_world default_settings)"
  have ok: "fst ?run = Inr [(sending_to [''r1''])\<lparr>po_id := ''p1''\<rparr>]" by code_simp
  have "inj marks" by (rule injI) (metis Suc_inject length_replicate marks_def)
  moreover have "bolt_store (eg_store sample_engine)" by (simp add: sample_engine_def mem.bolt_store_axioms)
  ultimately show ?thesis
    using preparation_queued [of sample_engine marks daily "\<lambda>_. [''r1'']" 7 "''bob''" "100 * hour"
        "started protecting_db example_world default_settings" "fst ?run" "snd ?run"] ok
    by (auto simp: prepare_bob_def sample_engine_def)
qed

end
