(* ===== verification/Payload.thy ===== *)
theory Payload
  imports Staging
begin

text \<open>
  What is backed up for one account and how it is recognised again: planning a payload
  (\<open>internal/pkgacct/pkgacct.go\<close>) and telling the roles of a snapshot's paths apart
  (\<open>Parts\<close>, \<open>classifyPaths\<close> of \<open>internal/reassemble/reassemble.go\<close>).
\<close>

section \<open>What pkgacct on this server can do\<close>

type_synonym mode = string

definition mode_split :: mode where "mode_split = ''split''"
definition mode_monolithic :: mode where "mode_monolithic = ''monolithic''"
definition mode_system :: mode where "mode_system = ''system''"

datatype part_kind = PartMetadata | PartHomedir | PartDatabase | PartArchive | PartSystem

record part =
  pt_kind :: part_kind
  pt_path :: string

record payload =
  pl_mode :: mode
  pl_account :: string
  pl_parts :: "part list"
  pl_dump_paths :: "(string \<times> string) list"
  pl_degraded :: bool
  pl_reasons :: "string list"

definition payload_paths :: "payload \<Rightarrow> string list" where
  "payload_paths p = map pt_path (pl_parts p)"

record capabilities =
  ca_no_compress :: string
  ca_skip_homedir :: string
  ca_skip_db :: string
  ca_skip_mail :: string
  ca_skip_mail_config :: string

definition known_flags :: "string \<Rightarrow> string list" where
  "known_flags key =
     (if key = ''nocompress'' then [''--nocompress'', ''--uncompressed'']
      else if key = ''skiphomedir'' then [''--skiphomedir'', ''--skiphome'']
      else if key = ''skipdb'' then [''--skipdb'', ''--skipmysql'']
      else if key = ''skipmail'' then [''--skipmail'']
      else if key = ''skipmailconfig'' then [''--skipmailconfig'']
      else [])"

definition is_flag_separator :: "char \<Rightarrow> bool" where
  "is_flag_separator c \<longleftrightarrow>
     c = CHR '' '' \<or> c = CHR 0x09 \<or> c = CHR 0x0A \<or> c = CHR 0x0D \<or>
     c = CHR '','' \<or> c = CHR ''['' \<or> c = CHR '']'' \<or> c = CHR ''|'' \<or> c = CHR ''-'' \<or> c = CHR ''=''"

text \<open>\<open>strings.FieldsFunc\<close>\<close>

fun fields_func :: "(char \<Rightarrow> bool) \<Rightarrow> string \<Rightarrow> string \<Rightarrow> string list" where
  "fields_func sep cur [] = (if cur = [] then [] else [rev cur])"
| "fields_func sep cur (c # cs) =
     (if sep c then (if cur = [] then [] else [rev cur]) @ fields_func sep [] cs
      else fields_func sep (c # cur) cs)"

fun find_flag :: "string list \<Rightarrow> string list \<Rightarrow> string" where
  "find_flag toks [] = []"
| "find_flag toks (flag # flags) =
     (if list_ex (\<lambda>field. field = trim_prefix flag ''--'') toks then flag else find_flag toks flags)"

definition probe_capabilities :: "string \<Rightarrow> capabilities" where
  "probe_capabilities help =
     (let toks = fields_func is_flag_separator [] help; find = (\<lambda>key. find_flag toks (known_flags key))
      in \<lparr>ca_no_compress = find ''nocompress'', ca_skip_homedir = find ''skiphomedir'', ca_skip_db = find ''skipdb'',
          ca_skip_mail = find ''skipmail'', ca_skip_mail_config = find ''skipmailconfig''\<rparr>)"

section \<open>Planning a payload\<close>

record plan_request =
  pq_account :: string
  pq_home_dir :: string
  pq_databases :: "string list"
  pq_staging_dir :: string
  pq_mode :: mode
  pq_caps :: capabilities
  pq_skip_homedir :: bool
  pq_skip_databases :: bool
  pq_skip_email :: bool

definition plan_split :: "plan_request \<Rightarrow> payload res" where
  "plan_split q =
     (if pq_home_dir q = [] then Inl (ErrMsg ''pkgacct: split mode needs the account home directory'' [])
      else
        let metadata = [\<lparr>pt_kind = PartMetadata, pt_path = file_join (pq_staging_dir q) ''metadata''\<rparr>];
            home = (if \<not> pq_skip_homedir q then [\<lparr>pt_kind = PartHomedir, pt_path = pq_home_dir q\<rparr>] else []);
            dumps = length (pq_databases q) > 0 \<and> \<not> pq_skip_databases q;
            database_dir = file_join (pq_staging_dir q) ''databases'';
            database = (if dumps then [\<lparr>pt_kind = PartDatabase, pt_path = database_dir\<rparr>] else []);
            degraded = (ca_skip_homedir (pq_caps q) = [])
        in Inr \<lparr>pl_mode = mode_split, pl_account = pq_account q, pl_parts = metadata @ home @ database,
             pl_dump_paths = (if dumps then fold (\<lambda>db. AList.update db (file_join database_dir (db @ ''.sql''))) (pq_databases q) []
                              else []),
             pl_degraded = degraded, pl_reasons = (if degraded then [''cannot exclude the home directory''] else [])\<rparr>)"

definition plan_monolithic :: "plan_request \<Rightarrow> payload res" where
  "plan_monolithic q =
     (let path = file_join (pq_staging_dir q) (''cpmove-'' @ pq_account q @ ''.tar'');
          compressed = (ca_no_compress (pq_caps q) = []);
          reasons = (if compressed then [''cannot disable compression''] else [])
            @ (if pq_skip_email q then [''the mailbox names and password hashes are in this backup''] else [])
      in Inr \<lparr>pl_mode = mode_monolithic, pl_account = pq_account q,
           pl_parts = [\<lparr>pt_kind = PartArchive, pt_path = (if compressed then path @ ''.gz'' else path)\<rparr>],
           pl_dump_paths = [], pl_degraded = (length reasons > 0), pl_reasons = reasons\<rparr>)"

definition plan_payload :: "plan_request \<Rightarrow> payload res" where
  "plan_payload q =
     (if pq_account q = [] then Inl (ErrMsg ''pkgacct: account is required'' [])
      else if pq_staging_dir q = [] then Inl (ErrMsg ''pkgacct: staging directory is required'' [])
      else if pq_mode q = mode_split then plan_split q
      else if pq_mode q = mode_monolithic \<or> pq_mode q = [] then plan_monolithic q
      else Inl (ErrMsg ''pkgacct: unknown mode'' [pq_mode q]))"

definition command_args :: "string \<Rightarrow> string \<Rightarrow> mode \<Rightarrow> capabilities \<Rightarrow> bool \<Rightarrow> string list" where
  "command_args account staging_dir mode caps skip_email =
     (let given = (\<lambda>flag. if flag \<noteq> [] then [flag] else [])
      in (if skip_email then given (ca_skip_mail caps) @ given (ca_skip_mail_config caps) else [])
         @ given (ca_no_compress caps)
         @ (if mode = mode_split then given (ca_skip_homedir caps) @ given (ca_skip_db caps) else [])
         @ [account, if mode = mode_split then file_join staging_dir ''metadata'' else staging_dir])"

section \<open>Checking what was staged\<close>

text \<open>The parts that are missing or empty.\<close>

definition part_missing :: "os_api \<Rightarrow> part \<Rightarrow> (nodes, bool) prog" where
  "part_missing fs p =
     (\<lambda>d. case fst (fs_stat fs (pt_path p) d) of
        Inl _ \<Rightarrow> (Inr True, d)
      | Inr None \<Rightarrow> (Inr True, d)
      | Inr (Some n) \<Rightarrow>
          if is_dir n then
            (case fst (fs_readdir fs (pt_path p) d) of
               Inl _ \<Rightarrow> (Inr True, d)
             | Inr entries \<Rightarrow> (Inr (length entries = 0), d))
          else (Inr (file_size n = 0), d))"

fun missing_parts :: "os_api \<Rightarrow> part list \<Rightarrow> (nodes, part list) prog" where
  "missing_parts fs [] = prog_return []"
| "missing_parts fs (p # ps) =
     prog_bind (part_missing fs p) (\<lambda>missing.
     prog_bind (missing_parts fs ps) (\<lambda>rest. prog_return (if missing then p # rest else rest)))"

definition verify_payload :: "os_api \<Rightarrow> payload \<Rightarrow> (nodes, unit) prog" where
  "verify_payload fs p =
     prog_bind (missing_parts fs (pl_parts p)) (\<lambda>missing.
       if length missing > 0
       then prog_fail (ErrMsg ''pkgacct: the staged payload is incomplete'' (map pt_path missing))
       else prog_return ())"

section \<open>The roles of a snapshot's paths\<close>

record parts =
  sp_metadata :: string
  sp_homedir :: string
  sp_databases :: string
  sp_archive :: string
  sp_system :: string

definition no_parts :: parts where
  "no_parts = \<lparr>sp_metadata = [], sp_homedir = [], sp_databases = [], sp_archive = [], sp_system = []\<rparr>"

definition parts_mode :: "parts \<Rightarrow> mode" where
  "parts_mode p = (if sp_archive p \<noteq> [] then mode_monolithic else mode_split)"

fun classify_loop :: "parts \<Rightarrow> string list \<Rightarrow> parts res" where
  "classify_loop found [] = Inr found"
| "classify_loop found (p # ps) =
     (if has_suffix p ''/metadata'' then classify_loop (found\<lparr>sp_metadata := p\<rparr>) ps
      else if has_suffix p ''/databases'' then classify_loop (found\<lparr>sp_databases := p\<rparr>) ps
      else if has_suffix p ''/system'' then classify_loop (found\<lparr>sp_system := p\<rparr>) ps
      else if has_suffix p ''.tar'' \<or> has_suffix p ''.tar.gz'' then classify_loop (found\<lparr>sp_archive := p\<rparr>) ps
      else if sp_homedir found \<noteq> []
           then Inl (ErrMsg ''reassemble: snapshot has two candidate home directories'' [sp_homedir found, p])
      else classify_loop (found\<lparr>sp_homedir := p\<rparr>) ps)"

definition classify_paths :: "string list \<Rightarrow> parts res" where
  "classify_paths paths =
     res_bind (classify_loop no_parts paths) (\<lambda>found.
       if sp_system found \<noteq> [] then
         (if sp_metadata found \<noteq> [] \<or> sp_homedir found \<noteq> [] \<or> sp_archive found \<noteq> []
          then Inl (ErrMsg ''reassemble: snapshot mixes the settings of the server with the parts of an account'' [])
          else Inr found)
       else if sp_archive found \<noteq> [] \<and> (sp_metadata found \<noteq> [] \<or> sp_homedir found \<noteq> [])
         then Inl (ErrMsg ''reassemble: snapshot mixes a monolithic archive with split Parts'' [])
       else if sp_archive found \<noteq> [] then Inr found
       else if sp_metadata found = [] then Inl (ErrMsg ''reassemble: snapshot has no metadata part'' [])
       else if sp_homedir found = [] then Inl (ErrMsg ''reassemble: snapshot has no home directory part'' [])
       else Inr found)"

section \<open>A planned payload is recognised\<close>

lemma file_join_ends:
  assumes "is_abs a" "plain_seg name"
  shows "\<exists>pre. file_join a name = pre @ CHR ''/'' # name"
proof -
  have "a \<noteq> []" using assms(1) by (auto simp: is_abs_def)
  moreover have "split_at CHR ''/'' name = [name]" using assms(2) by (simp add: split_no_sep plain_seg_def)
  ultimately have join: "file_join a name = CHR ''/'' # join_with ''/'' (root_segs a @ [name])"
    using path_join_plain [OF assms(1), of name] assms(2) by (simp add: file_join_def)
  show ?thesis
  proof (cases "root_segs a = []")
    case True
    with join show ?thesis by (intro exI [of _ "[]"]) simp
  next
    case False
    with join show ?thesis by (intro exI [of _ "CHR ''/'' # join_with ''/'' (root_segs a)"]) (simp add: join_with_snoc)
  qed
qed

lemma plain_parts: "plain_seg ''metadata''" "plain_seg ''databases''"
  by (simp_all add: plain_seg_def)

text \<open>A home directory that is told apart from the staged parts by its path.\<close>

definition home_named :: "string \<Rightarrow> bool" where
  "home_named p \<longleftrightarrow> \<not> has_suffix p ''/metadata'' \<and> \<not> has_suffix p ''/databases'' \<and> \<not> has_suffix p ''/system'' \<and>
     \<not> has_suffix p ''.tar'' \<and> \<not> has_suffix p ''.tar.gz''"

lemma classify_staged:
  assumes "is_abs dir"
  shows "classify_loop found (file_join dir ''metadata'' # ps) = classify_loop (found\<lparr>sp_metadata := file_join dir ''metadata''\<rparr>) ps"
    "classify_loop found (file_join dir ''databases'' # ps) = classify_loop (found\<lparr>sp_databases := file_join dir ''databases''\<rparr>) ps"
    "file_join dir ''metadata'' \<noteq> []"
proof -
  obtain p q where "file_join dir ''metadata'' = p @ ''/metadata''" "file_join dir ''databases'' = q @ ''/databases''"
    using file_join_ends [OF assms plain_parts(1)] file_join_ends [OF assms plain_parts(2)] by auto
  then show "classify_loop found (file_join dir ''metadata'' # ps) = classify_loop (found\<lparr>sp_metadata := file_join dir ''metadata''\<rparr>) ps"
    "classify_loop found (file_join dir ''databases'' # ps) = classify_loop (found\<lparr>sp_databases := file_join dir ''databases''\<rparr>) ps"
    "file_join dir ''metadata'' \<noteq> []"
    by (simp_all add: has_suffix_def)
qed


text \<open>
  C37. A backup that leaves the home directory out cannot be read back: its paths are refused, so
  neither the account nor a single database can be restored from it.
\<close>

theorem homeless_backup_unreadable:
  assumes "plan_payload q = Inr p" "is_abs (pq_staging_dir q)" "pq_mode q = mode_split" "pq_skip_homedir q"
  shows "classify_paths (payload_paths p) = Inl (ErrMsg ''reassemble: snapshot has no home directory part'' [])"
proof -
  from assms(1,3) have "plan_split q = Inr p" by (auto simp: plan_payload_def split: if_splits)
  with assms(4) show ?thesis
    using classify_staged(3) [OF assms(2)]
    by (auto simp: plan_split_def payload_paths_def classify_paths_def classify_staged(1,2) [OF assms(2)] no_parts_def Let_def
        split: if_splits simp del: classify_loop.simps(2))
qed

section \<open>Nothing promised is missing\<close>

definition staged_well :: "os_api \<Rightarrow> nodes \<Rightarrow> part \<Rightarrow> bool" where
  "staged_well fs d p \<longleftrightarrow> fst (part_missing fs p d) = Inr False"

lemma part_missing_state: "part_missing fs p d = (Inr (\<not> staged_well fs d p), d)"
  by (auto simp: staged_well_def part_missing_def split: sum.splits option.splits)

lemma missing_parts_filter: "missing_parts fs ps d = (Inr (filter (\<lambda>p. \<not> staged_well fs d p) ps), d)"
  by (induction ps) (simp_all add: prog_return_def prog_bind_def part_missing_state)

text \<open>
  A staged payload passes its check exactly when every part it promises is there and not empty:
  a file with something in it, or a directory that can be read and holds an entry. The check
  changes nothing.
\<close>

theorem verified_payload_whole:
  "verify_payload fs p d = (r, d') \<Longrightarrow> d' = d \<and>
     (r = Inr () \<longleftrightarrow> (\<forall>x \<in> set (pl_parts p). \<exists>n. os_fault fs OpStat (pt_path x) d = None \<and> map_of d (pt_path x) = Some n \<and>
        (if is_dir n then os_fault fs OpReadDir (pt_path x) d = None \<and> children (dir_prefix (pt_path x)) d \<noteq> []
         else file_size n \<noteq> 0)))"
proof -
  have part: "staged_well fs d x \<longleftrightarrow> (\<exists>n. os_fault fs OpStat (pt_path x) d = None \<and> map_of d (pt_path x) = Some n \<and>
        (if is_dir n then os_fault fs OpReadDir (pt_path x) d = None \<and> children (dir_prefix (pt_path x)) d \<noteq> []
         else file_size n \<noteq> 0))" for x
    by (auto simp: staged_well_def part_missing_def fs_stat_def fs_readdir_def guarded_def split: option.splits sum.splits)
  assume "verify_payload fs p d = (r, d')"
  then show ?thesis
    unfolding part [symmetric]
    by (auto simp: verify_payload_def missing_parts_filter prog_bind_def prog_fail_def prog_return_def filter_empty_conv split: if_splits)
qed

section \<open>Examples\<close>

definition modern_pkgacct :: capabilities where
  "modern_pkgacct = probe_capabilities ''pkgacct [--skiphomedir] [--nocompress] [--skipdb] [--skipmail]''"

definition bob_request :: plan_request where
  "bob_request = \<lparr>pq_account = ''bob'', pq_home_dir = ''/home/bob'', pq_databases = [''bob_wp''], pq_staging_dir = ''/stage/stage-bob'',
     pq_mode = mode_split, pq_caps = modern_pkgacct, pq_skip_homedir = False, pq_skip_databases = False, pq_skip_email = False\<rparr>"

definition bob_payload :: payload where
  "bob_payload = (case plan_payload bob_request of Inr p \<Rightarrow> p | Inl _ \<Rightarrow> undefined)"

lemma bob_planned: "plan_payload bob_request = Inr bob_payload"
  by (simp add: bob_payload_def plan_payload_def plan_split_def bob_request_def mode_split_def Let_def)

lemma bob_staged: "is_abs (pq_staging_dir bob_request)" "plain_seg (''cpmove-'' @ pq_account bob_request @ ''.tar'')"
    "home_named (pq_home_dir bob_request)"
  by (simp_all add: bob_request_def is_abs_def plain_seg_def home_named_def has_suffix_def)


lemma homeless_planned: "\<exists>p. plan_payload (bob_request\<lparr>pq_skip_homedir := True\<rparr>) = Inr p"
  by (simp add: plan_payload_def plan_split_def bob_request_def mode_split_def Let_def)

theorem homeless_backup_unreadable_witness:
  "\<exists>p e. plan_payload (bob_request\<lparr>pq_skip_homedir := True\<rparr>) = Inr p \<and> classify_paths (payload_paths p) = Inl e"
proof -
  obtain p where p: "plan_payload (bob_request\<lparr>pq_skip_homedir := True\<rparr>) = Inr p" using homeless_planned by blast
  from homeless_backup_unreadable [OF p] bob_staged(1) p show ?thesis by (auto simp: bob_request_def)
qed

definition quiet_disk :: os_api where
  "quiet_disk = \<lparr>os_fault = (\<lambda>op p d. None), os_left = (\<lambda>p d q. False), os_statfs = (\<lambda>p d. Inr (0, 0)), os_now = 0,
     fl_positive = (\<lambda>x. False), fl_scale = (\<lambda>n m. n)\<rparr>"

definition half_staged :: nodes where
  "half_staged = [(''/home/bob'', FDir 1), (''/home/bob/a'', FFile 1 1), (''/stage/stage-bob/metadata'', FDir 1)]"

lemma half_staged_facts:
  "\<lparr>pt_kind = PartMetadata, pt_path = ''/stage/stage-bob/metadata''\<rparr> \<in> set (pl_parts bob_payload)"
  "children (dir_prefix ''/stage/stage-bob/metadata'') half_staged = []"
  by code_simp+

theorem verified_payload_whole_witness: "fst (verify_payload quiet_disk bob_payload half_staged) \<noteq> Inr ()"
proof
  assume ok: "fst (verify_payload quiet_disk bob_payload half_staged) = Inr ()"
  from bspec [OF iffD1 [OF conjunct2 [OF verified_payload_whole [OF surjective_pairing]] ok] half_staged_facts(1)]
  obtain n where "map_of half_staged ''/stage/stage-bob/metadata'' = Some n"
      "is_dir n \<longrightarrow> children (dir_prefix ''/stage/stage-bob/metadata'') half_staged \<noteq> []" "\<not> is_dir n \<longrightarrow> file_size n \<noteq> 0"
    by (auto split: if_splits)
  then show False by (auto simp: half_staged_facts(2) is_dir_def) (auto simp: half_staged_def)
qed

end
