(* ===== verification/Granular.thy ===== *)
theory Granular
  imports Payload
begin

text \<open>
  What has to come out of a snapshot to restore one thing rather than a whole account:
  \<open>internal/granular/granular.go\<close>. Nothing here runs restic; a request becomes the paths and archive
  members that satisfy it.
\<close>

section \<open>Kinds\<close>

text \<open>A kind is a string in the source, one of these or any other.\<close>

definition g_files :: string where "g_files = ''files''"
definition g_website :: string where "g_website = ''website''"
definition g_mailbox :: string where "g_mailbox = ''mailbox''"
definition g_database :: string where "g_database = ''database''"
definition g_dns :: string where "g_dns = ''dns''"
definition g_ssl :: string where "g_ssl = ''ssl''"
definition g_settings :: string where "g_settings = ''settings''"
definition g_cron :: string where "g_cron = ''cron''"
definition g_domains :: string where "g_domains = ''domains''"
definition g_ftp :: string where "g_ftp = ''ftp''"
definition g_dbusers :: string where "g_dbusers = ''dbusers''"
definition g_system :: string where "g_system = ''system''"

lemmas g_kinds = g_files_def g_website_def g_mailbox_def g_database_def g_dns_def g_ssl_def g_settings_def g_cron_def
  g_domains_def g_ftp_def g_dbusers_def g_system_def

definition kind_title :: "string \<Rightarrow> string" where
  "kind_title k =
     (if k = g_files then ''Files or folders''
      else if k = g_website then ''Website files''
      else if k = g_mailbox then ''A mailbox''
      else if k = g_database then ''A database''
      else if k = g_dns then ''DNS records''
      else if k = g_ssl then ''SSL certificates''
      else if k = g_settings then ''Panel configuration''
      else if k = g_cron then ''Cron jobs''
      else if k = g_domains then ''Domains''
      else if k = g_ftp then ''FTP accounts''
      else if k = g_dbusers then ''Database users''
      else if k = g_system then ''Server settings''
      else k)"

definition needs_names :: "string \<Rightarrow> bool" where
  "needs_names k \<longleftrightarrow> k = g_files \<or> k = g_mailbox \<or> k = g_database"

definition lists_items :: "string \<Rightarrow> bool" where
  "lists_items k \<longleftrightarrow> k \<in> {g_dbusers, g_dns, g_ssl, g_domains, g_cron, g_ftp} \<or> needs_names k"

definition picks_items :: "string \<Rightarrow> bool" where
  "picks_items k \<longleftrightarrow> (if k = g_cron \<or> k = g_ftp then False else lists_items k)"

record g_request =
  gq_kind :: string
  gq_account :: string
  gq_names :: "string list"

record g_plan =
  gp_include :: "string list"
  gp_members :: "string list"
  gp_metadata :: string
  gp_description :: string

section \<open>Names\<close>

definition usable_database_char :: "char \<Rightarrow> bool" where
  "usable_database_char c \<longleftrightarrow>
     char_in CHR ''a'' CHR ''z'' c \<or> char_in CHR ''A'' CHR ''Z'' c \<or> char_in CHR ''0'' CHR ''9'' c \<or> c = CHR ''_'' \<or> c = CHR ''$''"

definition usable_database_name :: "string \<Rightarrow> unit res" where
  "usable_database_name database =
     (if database = [] then Inl (ErrMsg ''granular: no database named'' [])
      else if has_prefix database ''-'' \<or> length database > 64
      then Inl (ErrMsg ''granular: not a usable database name'' [database])
      else if \<not> list_all usable_database_char database then Inl (ErrMsg ''granular: not a usable database name'' [database])
      else Inr ())"

definition usable_database_user :: "string \<Rightarrow> unit res" where
  "usable_database_user user =
     (if user = [] \<or> length user > 32 then Inl (ErrMsg ''granular: not a usable database user name'' [user])
      else case usable_database_name user of
        Inl _ \<Rightarrow> Inl (ErrMsg ''granular: not a usable database user name'' [user])
      | Inr _ \<Rightarrow> Inr ())"

definition label_char :: "char \<Rightarrow> bool" where
  "label_char c \<longleftrightarrow>
     char_in CHR ''a'' CHR ''z'' c \<or> char_in CHR ''A'' CHR ''Z'' c \<or> char_in CHR ''0'' CHR ''9'' c \<or> c = CHR ''-'' \<or> c = CHR ''_''"

definition usable_label :: "string \<Rightarrow> bool" where
  "usable_label label \<longleftrightarrow>
     (if label = [] \<or> length label > 63 \<or> hd label = CHR ''-'' \<or> last label = CHR ''-'' then False
      else list_all label_char label)"

definition usable_domain_name :: "string \<Rightarrow> unit res" where
  "usable_domain_name domain =
     (let refuse = Inl (ErrMsg ''granular: not a domain name'' [domain]); labels = split_at CHR ''.'' domain in
      if domain = [] \<or> length domain > 253 then refuse
      else if length labels < 2 then refuse
      else if \<not> list_all usable_label labels then refuse
      else Inr ())"

definition plain_name :: "string \<Rightarrow> unit res" where
  "plain_name name =
     (if name = [] then Inl (ErrMsg ''granular: empty name'' [])
      else if contains_any name [CHR ''/'', CHR 0x5C] \<or> contains_str name ''..''
      then Inl (ErrMsg ''granular: not a database name'' [name])
      else Inr ())"

text \<open>\<open>path.Join\<close> of two elements.\<close>

definition join2 :: "string \<Rightarrow> string \<Rightarrow> string" where
  "join2 a b = (if a = [] \<and> b = [] then [] else if b = [] then path_clean a else file_join a b)"

definition under_home :: "string \<Rightarrow> string \<Rightarrow> string res" where
  "under_home home name =
     (let name = trim_space name in
      if name = [] then Inl (ErrMsg ''granular: empty path'' [])
      else let full = path_clean (if \<not> has_prefix name ''/'' then join2 home name else name)
        in if full \<noteq> home \<and> \<not> has_prefix full (home @ ''/'')
           then Inl (ErrMsg ''granular: is not inside'' [name, home]) else Inr full)"

section \<open>Members of the metadata archive\<close>

definition settings_members :: "string list" where
  "settings_members = [''cp/'', ''meta/'', ''quota'', ''shell'', ''shadow'', ''digestshadow'', ''userconfig/'', ''version'', ''packaged_in_version'']"

definition cron_members :: "string list" where "cron_members = [''cron/'']"
definition ftp_members :: "string list" where "ftp_members = [''proftpdpasswd'']"
definition mail_members :: "string list" where "mail_members = [''va/'', ''vad/'', ''vf/'', ''meta/mailserver'']"
definition ssl_always :: "string list" where
  "ssl_always = [''ssl/'', ''sslcerts/'', ''sslkeys/'', ''has_sslstorage'', ''autossl.json'']"
definition domain_always :: "string list" where
  "domain_always = [''userdata/main'', ''userdata/cache.json'', ''ips/'', ''addons'']"

text \<open>The loop all three share: every name is checked, then its members are added.\<close>

fun members_for :: "(string \<Rightarrow> string list) \<Rightarrow> string list \<Rightarrow> string list res" where
  "members_for f [] = Inr []"
| "members_for f (name # names) =
     res_bind (usable_domain_name name) (\<lambda>_. res_bind (members_for f names) (\<lambda>rest. Inr (f name @ rest)))"

definition dns_members :: "string list \<Rightarrow> string list res" where
  "dns_members names =
     (if length names = 0 then Inr [''dnszones/''] else members_for (\<lambda>name. [''dnszones/'' @ name @ ''.db'']) names)"

definition ssl_members :: "string list \<Rightarrow> string list res" where
  "ssl_members names =
     (if length names = 0 then Inr ([''apache_tls/''] @ ssl_always)
      else res_bind (members_for (\<lambda>name. [''apache_tls/'' @ name]) names) (\<lambda>ms. Inr (ms @ ssl_always)))"

definition domain_members :: "string list \<Rightarrow> string list res" where
  "domain_members names =
     (if length names = 0 then Inr [''userdata/'', ''dnszones/'', ''ips/'', ''addons'']
      else res_bind (members_for (\<lambda>name. [''userdata/'' @ name, ''userdata/'' @ name @ ''_SSL'',
             ''userdata/'' @ name @ ''.php-fpm.yaml'', ''dnszones/'' @ name @ ''.db'']) names) (\<lambda>ms. Inr (ms @ domain_always)))"

section \<open>Plans\<close>

definition join_and :: "string list \<Rightarrow> string" where
  "join_and values =
     (case values of
        [] \<Rightarrow> []
      | [a] \<Rightarrow> a
      | [a, b] \<Rightarrow> a @ '' and '' @ b
      | _ \<Rightarrow> join_with '', '' (butlast values) @ '' and '' @ last values)"

definition for_names :: "string list \<Rightarrow> string" where
  "for_names names = (if length names = 0 then [] else '' for '' @ join_and names)"

definition build_metadata :: "parts \<Rightarrow> string list \<Rightarrow> string \<Rightarrow> g_plan res" where
  "build_metadata P members description =
     (if sp_metadata P = [] then Inl (ErrMsg ''granular: this snapshot has no account metadata in it'' [description])
      else Inr \<lparr>gp_include = [sp_metadata P], gp_members = members, gp_metadata = sp_metadata P, gp_description = description\<rparr>)"

definition build_chosen :: "parts \<Rightarrow> g_request \<Rightarrow> (string list \<Rightarrow> string list res) \<Rightarrow> string \<Rightarrow> g_plan res" where
  "build_chosen P q members description =
     res_bind (members (gq_names q)) (\<lambda>chosen. build_metadata P chosen (description @ for_names (gq_names q)))"

fun all_under_home :: "string \<Rightarrow> string list \<Rightarrow> string list res" where
  "all_under_home home [] = Inr []"
| "all_under_home home (name # names) =
     res_bind (under_home home name) (\<lambda>full. res_bind (all_under_home home names) (\<lambda>rest. Inr (full # rest)))"

definition build_homedir :: "parts \<Rightarrow> string list \<Rightarrow> string \<Rightarrow> g_plan res" where
  "build_homedir P relative description =
     (if sp_homedir P = [] then Inl (ErrMsg ''granular: this snapshot has no home directory in it'' [])
      else res_bind (all_under_home (sp_homedir P) relative) (\<lambda>include.
        Inr \<lparr>gp_include = include, gp_members = [], gp_metadata = [], gp_description = description\<rparr>))"

definition build_files :: "parts \<Rightarrow> g_request \<Rightarrow> g_plan res" where
  "build_files P q = build_homedir P (gq_names q) ''the named files''"

definition build_mailbox :: "parts \<Rightarrow> g_request \<Rightarrow> g_plan res" where
  "build_mailbox P q =
     res_bind (build_homedir P (map (join2 ''mail'') (gq_names q)) (''the mail for '' @ join_with '', '' (gq_names q))) (\<lambda>plan.
       if sp_metadata P \<noteq> []
       then Inr (plan\<lparr>gp_metadata := sp_metadata P, gp_members := mail_members, gp_include := gp_include plan @ [sp_metadata P]\<rparr>)
       else Inr plan)"

fun all_dumps :: "string \<Rightarrow> string list \<Rightarrow> string list res" where
  "all_dumps dir [] = Inr []"
| "all_dumps dir (name # names) =
     res_bind (plain_name name) (\<lambda>_. res_bind (all_dumps dir names) (\<lambda>rest. Inr (join2 dir (name @ ''.sql'') # rest)))"

definition build_database :: "parts \<Rightarrow> g_request \<Rightarrow> g_plan res" where
  "build_database P q =
     (if sp_databases P = [] then Inl (ErrMsg ''granular: this snapshot holds no separate database dumps'' [])
      else res_bind (all_dumps (sp_databases P) (gq_names q)) (\<lambda>include.
        Inr \<lparr>gp_include = include, gp_members = [], gp_metadata = [],
             gp_description = ''the database '' @ join_with '', '' (gq_names q)\<rparr>))"

definition database_users_file :: string where "database_users_file = ''_users.sql''"
definition runnable_users_file :: string where "runnable_users_file = ''_users-runnable.sql''"
definition users_auth_file :: string where "users_auth_file = database_users_file @ ''-auth.json''"

fun check_all :: "(string \<Rightarrow> unit res) \<Rightarrow> string list \<Rightarrow> unit res" where
  "check_all f [] = Inr ()"
| "check_all f (x # xs) = res_bind (f x) (\<lambda>_. check_all f xs)"

definition build_database_users :: "parts \<Rightarrow> string list \<Rightarrow> g_plan res" where
  "build_database_users P names =
     (if sp_databases P = [] then Inl (ErrMsg ''granular: this backup holds no databases'' [])
      else res_bind (check_all usable_database_user names) (\<lambda>_.
        Inr \<lparr>gp_include = [join2 (sp_databases P) database_users_file, join2 (sp_databases P) runnable_users_file,
               join2 (sp_databases P) users_auth_file],
             gp_members = [], gp_metadata = [],
             gp_description = ''the database users and their grants'' @ for_names names\<rparr>))"

definition build_plan :: "parts \<Rightarrow> g_request \<Rightarrow> g_plan res" where
  "build_plan P q =
     (let k = gq_kind q in
      if gq_account q = [] then Inl (ErrMsg ''granular: account is required'' [])
      else if needs_names k \<and> length (gq_names q) = 0 then Inl (ErrMsg ''granular: needs at least one name'' [k])
      else if k = g_files then build_files P q
      else if k = g_website then build_homedir P [''public_html''] ''the website files''
      else if k = g_mailbox then build_mailbox P q
      else if k = g_database then build_database P q
      else if k = g_dns then build_chosen P q dns_members ''the DNS records''
      else if k = g_ssl then build_chosen P q ssl_members ''the SSL certificates and keys''
      else if k = g_settings then build_metadata P settings_members ''the panel configuration''
      else if k = g_cron then build_metadata P cron_members ''the cron jobs''
      else if k = g_domains then build_chosen P q domain_members ''the domains''
      else if k = g_ftp then build_metadata P ftp_members ''the FTP accounts''
      else if k = g_dbusers then build_database_users P (gq_names q)
      else if k = g_system then
        (if sp_system P = [] then Inl (ErrMsg ''granular: this is a backup of an account'' [])
         else Inr \<lparr>gp_include = [sp_system P], gp_members = [], gp_metadata = [], gp_description = ''the server'' @ [CHR 0x27] @ ''s settings''\<rparr>)
      else Inl (ErrMsg ''granular: unknown restore kind'' [k]))"

fun add_new :: "string list \<Rightarrow> string list \<Rightarrow> string list" where
  "add_new old [] = old"
| "add_new old (value # vs) = (if list_ex (\<lambda>e. e = value) old then add_new old vs else add_new (old @ [value]) vs)"

fun build_loop :: "parts \<Rightarrow> g_request list \<Rightarrow> g_plan \<Rightarrow> string list \<Rightarrow> g_plan res" where
  "build_loop P [] merged descriptions = Inr (merged\<lparr>gp_description := join_and descriptions\<rparr>)"
| "build_loop P (q # qs) merged descriptions =
     res_bind (build_plan P q) (\<lambda>plan.
       build_loop P qs
         (merged\<lparr>gp_include := add_new (gp_include merged) (gp_include plan),
                 gp_members := add_new (gp_members merged) (gp_members plan),
                 gp_metadata := (if gp_metadata plan \<noteq> [] then gp_metadata plan else gp_metadata merged)\<rparr>)
         (descriptions @ [gp_description plan]))"

definition build_all :: "parts \<Rightarrow> g_request list \<Rightarrow> g_plan res" where
  "build_all P qs =
     (if length qs = 0 then Inl (ErrMsg ''granular: nothing was asked for'' [])
      else if length qs = 1 then build_plan P (qs ! 0)
      else build_loop P qs \<lparr>gp_include = [], gp_members = [], gp_metadata = [], gp_description = []\<rparr> [])"

section \<open>A plan stays inside the account\<close>

text \<open>
  A path of the snapshot this account may be given: its metadata part, its system part, a path in
  its home directory that does not climb, or a file directly inside its database part.
\<close>

definition within_parts :: "parts \<Rightarrow> string \<Rightarrow> bool" where
  "within_parts P p \<longleftrightarrow>
     p = sp_metadata P \<or> p = sp_system P \<or>
     lies_under (sp_homedir P) p \<and> ''..'' \<notin> set (split_at CHR ''/'' p) \<or>
     (\<exists>n. plain_seg n \<and> p = sp_databases P @ ''/'' @ n)"

lemma split_join_segs: "list_all plain_seg gs \<Longrightarrow> split_at CHR ''/'' (CHR ''/'' # join_with ''/'' gs) = [] # (if gs = [] then [[]] else gs)"
proof (induction gs)
  case (Cons g gs)
  have g: "CHR ''/'' \<notin> set g" using Cons.prems by (simp add: plain_seg_def)
  show ?case
  proof (cases "gs = []")
    case True
    with g show ?thesis by (simp add: split_no_sep)
  next
    case False
    then have "join_with ''/'' (g # gs) = g @ CHR ''/'' # join_with ''/'' gs" by (simp add: join_with_Cons)
    with Cons False g show ?thesis by (simp add: split_at_sep split_no_sep)
  qed
qed simp

lemma clean_abs_no_dots:
  assumes "is_abs p"
  shows "''..'' \<notin> set (split_at CHR ''/'' (path_clean p))"
proof -
  have "path_clean p = CHR ''/'' # join_with ''/'' (root_segs p)"
    using assms by (simp add: path_clean_def is_abs_def root_segs_def Let_def)
  then have "set (split_at CHR ''/'' (path_clean p)) \<subseteq> insert [] (set (root_segs p))"
    using split_join_segs [OF root_segs_plain [of p]] by auto
  then show ?thesis using root_segs_plain [of p] by (auto simp: list_all_iff plain_seg_def)
qed

lemma under_home_within:
  assumes "under_home home name = Inr full" "is_abs home"
  shows "lies_under home full \<and> ''..'' \<notin> set (split_at CHR ''/'' full)"
proof -
  let ?name = "trim_space name"
  from assms(1) have ne: "?name \<noteq> []" and full: "full = path_clean (if \<not> has_prefix ?name ''/'' then join2 home ?name else ?name)"
      "lies_under home full"
    by (auto simp: under_home_def Let_def lies_under_def split: if_splits)
  have "is_abs (if \<not> has_prefix ?name ''/'' then join2 home ?name else ?name)"
    using ne assms(2)
    by (auto simp: is_abs_def join2_def file_join_def path_join_def path_clean_def Let_def split: if_splits) 
       (cases home; auto)+
  with full show ?thesis using clean_abs_no_dots by simp
qed

definition told_apart :: "parts \<Rightarrow> bool" where
  "told_apart P \<longleftrightarrow> (sp_homedir P = [] \<or> is_abs (sp_homedir P)) \<and> (sp_databases P = [] \<or> good_dir (sp_databases P))"

lemma all_under_home_within:
  "all_under_home home names = Inr ps \<Longrightarrow> is_abs home \<Longrightarrow> p \<in> set ps \<Longrightarrow>
     lies_under home p \<and> ''..'' \<notin> set (split_at CHR ''/'' p)"
  by (induction names arbitrary: ps) (auto simp: res_bind_eq_Inr under_home_within)

lemma build_homedir_within:
  assumes "build_homedir P names d = Inr plan" "told_apart P"
  shows "\<forall>p \<in> set (gp_include plan). within_parts P p" "gp_metadata plan = []"
  using assms all_under_home_within [of "sp_homedir P" names]
  by (auto simp: build_homedir_def res_bind_eq_Inr within_parts_def told_apart_def split: if_splits)

lemma dump_within:
  assumes "good_dir dir" "plain_seg name"
  shows "join2 dir name = dir @ ''/'' @ name"
proof -
  have "name \<noteq> []" "dir \<noteq> []" using assms by (auto simp: plain_seg_def good_dir_def is_abs_def)
  with good_dir_facts(2) [OF assms] show ?thesis by (simp add: join2_def)
qed

lemma plain_name_dump: "plain_name name = Inr () \<Longrightarrow> plain_seg (name @ ''.sql'')"
  by (auto simp: plain_name_def plain_seg_def contains_any_def list_ex_iff append_eq_Cons_conv split: if_splits)

lemma all_dumps_within:
  "all_dumps dir names = Inr ps \<Longrightarrow> good_dir dir \<Longrightarrow> p \<in> set ps \<Longrightarrow> \<exists>n. plain_seg n \<and> p = dir @ ''/'' @ n"
proof (induction names arbitrary: ps)
  case (Cons name names)
  then obtain rest where "plain_name name = Inr ()" and rest: "all_dumps dir names = Inr rest"
      and ps: "ps = join2 dir (name @ ''.sql'') # rest"
    by (auto simp: res_bind_eq_Inr)
  then have n: "plain_seg (name @ ''.sql'')" by (simp add: plain_name_dump)
  show ?case
  proof (cases "p \<in> set rest")
    case False
    with Cons.prems(3) ps have "p = join2 dir (name @ ''.sql'')" by simp
    with dump_within [OF Cons.prems(2) n] n show ?thesis by blast
  qed (rule Cons.IH [OF rest Cons.prems(2)])
qed simp

lemma users_files_plain: "plain_seg database_users_file" "plain_seg runnable_users_file" "plain_seg users_auth_file"
  by (simp_all add: plain_seg_def database_users_file_def runnable_users_file_def users_auth_file_def)

definition confined :: "parts \<Rightarrow> g_plan \<Rightarrow> bool" where
  "confined P plan \<longleftrightarrow> (\<forall>p \<in> set (gp_include plan). within_parts P p) \<and> gp_metadata plan \<in> {[], sp_metadata P}"

lemma metadata_confined: "build_metadata P ms d = Inr plan \<Longrightarrow> confined P plan"
  by (auto simp: build_metadata_def confined_def within_parts_def split: if_splits)

lemma chosen_confined: "build_chosen P q f d = Inr plan \<Longrightarrow> confined P plan"
  by (auto simp: build_chosen_def res_bind_eq_Inr intro: metadata_confined)

lemma homedir_confined: "build_homedir P ns d = Inr plan \<Longrightarrow> told_apart P \<Longrightarrow> confined P plan"
  using build_homedir_within by (auto simp: confined_def)

lemma mailbox_confined:
  assumes "build_mailbox P q = Inr plan" "told_apart P"
  shows "confined P plan"
proof -
  from assms(1) obtain mid d where mid: "build_homedir P (map (join2 ''mail'') (gq_names q)) d = Inr mid"
      and plan: "plan = (if sp_metadata P \<noteq> [] then mid\<lparr>gp_metadata := sp_metadata P, gp_members := mail_members,
        gp_include := gp_include mid @ [sp_metadata P]\<rparr> else mid)"
    by (auto simp: build_mailbox_def res_bind_eq_Inr split: if_splits)
  have "within_parts P (sp_metadata P)" by (simp add: within_parts_def)
  with homedir_confined [OF mid assms(2)] plan show ?thesis by (auto simp: confined_def)
qed

lemma database_confined:
  assumes "build_database P q = Inr plan" "told_apart P"
  shows "confined P plan"
proof -
  from assms obtain ps where "all_dumps (sp_databases P) (gq_names q) = Inr ps" "good_dir (sp_databases P)"
      and "gp_include plan = ps" "gp_metadata plan = []"
    by (auto simp: build_database_def res_bind_eq_Inr told_apart_def split: if_splits)
  with all_dumps_within [of "sp_databases P" "gq_names q" ps] show ?thesis by (auto simp: confined_def within_parts_def)
qed

lemma database_users_confined:
  assumes "build_database_users P names = Inr plan" "told_apart P"
  shows "confined P plan"
proof -
  from assms have "good_dir (sp_databases P)" and meta: "gp_metadata plan = []"
      and "gp_include plan = map (join2 (sp_databases P)) [database_users_file, runnable_users_file, users_auth_file]"
    by (auto simp: build_database_users_def res_bind_eq_Inr told_apart_def split: if_splits)
  then have "gp_include plan = map (\<lambda>n. sp_databases P @ ''/'' @ n) [database_users_file, runnable_users_file, users_auth_file]"
    by (simp add: dump_within users_files_plain)
  with meta users_files_plain show ?thesis by (auto simp: confined_def within_parts_def)
qed

lemmas plans_confined = metadata_confined chosen_confined homedir_confined mailbox_confined database_confined database_users_confined

lemma system_confined: "gp_include plan = [sp_system P] \<Longrightarrow> gp_metadata plan = [] \<Longrightarrow> confined P plan"
  by (simp add: confined_def within_parts_def)

lemma build_plan_confined: "build_plan P q = Inr plan \<Longrightarrow> told_apart P \<Longrightarrow> confined P plan"
  unfolding build_plan_def Let_def build_files_def
  by (simp only: split: if_split_asm) (auto intro: plans_confined system_confined)

lemma set_add_new [simp]: "set (add_new xs ys) = set xs \<union> set ys"
  by (induction xs ys rule: add_new.induct) (auto simp: list_ex_iff)

lemma distinct_add_new: "distinct xs \<Longrightarrow> distinct (add_new xs ys)"
  by (induction xs ys rule: add_new.induct) (auto simp: list_ex_iff)

lemma build_loop_iff:
  "build_loop P qs merged ds = Inr plan \<longleftrightarrow>
     (\<exists>plans. map (build_plan P) qs = map Inr plans \<and>
        plan = fold (\<lambda>p m. m\<lparr>gp_include := add_new (gp_include m) (gp_include p), gp_members := add_new (gp_members m) (gp_members p),
           gp_metadata := (if gp_metadata p \<noteq> [] then gp_metadata p else gp_metadata m)\<rparr>) plans merged
         \<lparr>gp_description := join_and (ds @ map gp_description plans)\<rparr>)"
proof (induction qs arbitrary: merged ds)
  case (Cons q qs)
  show ?case
  proof (cases "build_plan P q")
    case (Inr p)
    then show ?thesis by (auto simp: Cons.IH Cons_eq_map_conv)
  qed (auto simp: map_eq_Cons_conv)
qed auto

text \<open>What each request of a basket contributes, gathered one after another.\<close>

lemma gathered_facts:
  defines "step \<equiv> \<lambda>p m. m\<lparr>gp_include := add_new (gp_include m) (gp_include p), gp_members := add_new (gp_members m) (gp_members p),
           gp_metadata := (if gp_metadata p \<noteq> [] then gp_metadata p else gp_metadata m)\<rparr>"
  shows "set (gp_include (fold step ps m)) = set (gp_include m) \<union> (\<Union>p \<in> set ps. set (gp_include p)) \<and>
    set (gp_members (fold step ps m)) = set (gp_members m) \<union> (\<Union>p \<in> set ps. set (gp_members p)) \<and>
    (distinct (gp_include m) \<longrightarrow> distinct (gp_include (fold step ps m))) \<and>
    (distinct (gp_members m) \<longrightarrow> distinct (gp_members (fold step ps m))) \<and>
    gp_metadata (fold step ps m) \<in> insert (gp_metadata m) (gp_metadata ` set ps)"
proof (induction ps arbitrary: m)
  case (Cons p ps)
  show ?case using Cons.IH [of "step p m"] by (auto simp: step_def distinct_add_new)
qed simp

lemma map_all_Inr: "(\<exists>ys. map f xs = map Inr ys) \<longleftrightarrow> (\<forall>x \<in> set xs. \<exists>y. f x = Inr y)"
proof (induction xs)
  case (Cons x xs)
  then show ?case by (auto simp: Cons_eq_map_conv)
qed simp

lemma build_all_gathers:
  assumes "build_all P qs = Inr plan"
  shows "\<exists>plans. map (build_plan P) qs = map Inr plans \<and> plans \<noteq> [] \<and>
    set (gp_include plan) = (\<Union>p \<in> set plans. set (gp_include p)) \<and>
    set (gp_members plan) = (\<Union>p \<in> set plans. set (gp_members p)) \<and>
    (length qs \<noteq> 1 \<longrightarrow> distinct (gp_include plan) \<and> distinct (gp_members plan)) \<and>
    gp_metadata plan \<in> insert [] (gp_metadata ` set plans)"
proof (cases "length qs = 1")
  case True
  then obtain q where "qs = [q]" by (auto simp: length_Suc_conv)
  with assms show ?thesis by (intro exI [of _ "[plan]"]) (simp add: build_all_def)
next
  case False
  with assms have ne: "qs \<noteq> []"
    and loop: "build_loop P qs \<lparr>gp_include = [], gp_members = [], gp_metadata = [], gp_description = []\<rparr> [] = Inr plan"
    by (auto simp: build_all_def split: if_splits)
  from loop [unfolded build_loop_iff] obtain plans where map: "map (build_plan P) qs = map Inr plans" and plan: "plan =
      (fold (\<lambda>p m. m\<lparr>gp_include := add_new (gp_include m) (gp_include p), gp_members := add_new (gp_members m) (gp_members p),
           gp_metadata := (if gp_metadata p \<noteq> [] then gp_metadata p else gp_metadata m)\<rparr>) plans
         \<lparr>gp_include = [], gp_members = [], gp_metadata = [], gp_description = []\<rparr>)\<lparr>gp_description := join_and ([] @ map gp_description plans)\<rparr>"
    by blast
  from map ne have "plans \<noteq> []" by auto
  with map show ?thesis
    using gathered_facts [of plans "\<lparr>gp_include = [], gp_members = [], gp_metadata = [], gp_description = []\<rparr>"]
    by (intro exI [of _ plans]) (simp add: plan)
qed

lemma build_all_succeeds:
  "(\<exists>plan. build_all P qs = Inr plan) \<longleftrightarrow> qs \<noteq> [] \<and> (\<forall>q \<in> set qs. \<exists>p. build_plan P q = Inr p)"
proof (cases "length qs \<le> 1")
  case True
  then have "qs = [] \<or> (\<exists>q. qs = [q])" by (cases qs) auto
  then show ?thesis by (auto simp: build_all_def)
next
  case False
  then have "build_all P qs = build_loop P qs \<lparr>gp_include = [], gp_members = [], gp_metadata = [], gp_description = []\<rparr> []"
      and "qs \<noteq> []"
    by (auto simp: build_all_def)
  then show ?thesis by (simp add: build_loop_iff map_all_Inr [symmetric])
qed

section \<open>Properties\<close>

definition split_parts :: parts where
  "split_parts = \<lparr>sp_metadata = ''/var/gniza/bob/metadata'', sp_homedir = ''/home/bob'', sp_databases = ''/var/gniza/bob/databases'', sp_archive = [], sp_system = []\<rparr>"

definition asked :: "g_request list" where
  "asked = [\<lparr>gq_kind = g_files, gq_account = ''bob'', gq_names = [''public_html/a.php'']\<rparr>,
            \<lparr>gq_kind = g_database, gq_account = ''bob'', gq_names = [''bob_wp'']\<rparr>,
            \<lparr>gq_kind = g_dns, gq_account = ''bob'', gq_names = [''example.com'']\<rparr>]"

lemma asked_plan:
  "\<exists>plan. build_all split_parts asked = Inr plan \<and>
     gp_include plan = [''/home/bob/public_html/a.php'', ''/var/gniza/bob/databases/bob_wp.sql'', ''/var/gniza/bob/metadata''] \<and>
     gp_members plan = [''dnszones/example.com.db'']"
proof -
  have "case build_all split_parts asked of Inl e \<Rightarrow> False
    | Inr plan \<Rightarrow> gp_include plan = [''/home/bob/public_html/a.php'', ''/var/gniza/bob/databases/bob_wp.sql'', ''/var/gniza/bob/metadata''] \<and>
       gp_members plan = [''dnszones/example.com.db'']"
    by code_simp
  then show ?thesis by (auto split: sum.splits)
qed

text \<open>
  C18. Whatever is asked for, and however the names are spelled, a restore plan takes out of the
  snapshot only the account's own parts: its metadata, the server settings, paths that lie in the
  home directory and do not climb out of it with a dot-dot, and plain files directly inside the
  directory of dumps; and the archive it unpacks members from is the metadata part or none.
\<close>

theorem granular_plan_confined:
  assumes "build_all P qs = Inr plan" and "told_apart P"
  shows "(\<forall>p \<in> set (gp_include plan).
            p = sp_metadata P \<or> p = sp_system P \<or>
            lies_under (sp_homedir P) p \<and> ''..'' \<notin> set (split_at CHR ''/'' p) \<or>
            (\<exists>n. plain_seg n \<and> p = sp_databases P @ ''/'' @ n)) \<and>
         gp_metadata plan \<in> {[], sp_metadata P}"
proof -
  from build_all_gathers [OF assms(1)] obtain plans where map: "map (build_plan P) qs = map Inr plans"
    and inc: "set (gp_include plan) = (\<Union>p \<in> set plans. set (gp_include p))"
    and meta: "gp_metadata plan \<in> insert [] (gp_metadata ` set plans)"
    by blast
  have conf: "confined P p" if "p \<in> set plans" for p
  proof -
    from that map have "Inr p \<in> set (map (build_plan P) qs)" by simp
    then obtain q where "build_plan P q = Inr p" by auto
    then show ?thesis using assms(2) by (rule build_plan_confined)
  qed
  have "within_parts P p" if "p \<in> set (gp_include plan)" for p
    using that inc conf by (auto simp: confined_def)
  moreover have "gp_metadata ` set plans \<subseteq> {[], sp_metadata P}" using conf by (auto simp: confined_def)
  then have "gp_metadata plan \<in> {[], sp_metadata P}" using meta by blast
  ultimately show ?thesis by (simp add: within_parts_def)
qed

lemma granular_plan_confined_witness:
  "\<exists>plan. build_all split_parts asked = Inr plan \<and>
     gp_include plan = [''/home/bob/public_html/a.php'', ''/var/gniza/bob/databases/bob_wp.sql'', ''/var/gniza/bob/metadata''] \<and>
     gp_metadata plan \<in> {[], sp_metadata split_parts}"
proof -
  from asked_plan obtain plan where plan: "build_all split_parts asked = Inr plan"
    and inc: "gp_include plan = [''/home/bob/public_html/a.php'', ''/var/gniza/bob/databases/bob_wp.sql'', ''/var/gniza/bob/metadata'']"
    by blast
  have apart: "told_apart split_parts" by code_simp
  from conjI [OF plan conjI [OF inc conjunct2 [OF granular_plan_confined [OF plan apart]]]] show ?thesis by (rule exI)
qed

text \<open>
  C31. A basket of requests is planned whole or not at all, and the merged plan refines the plans of
  its requests: it exists exactly when each of them has a plan, the paths and members it takes out
  are exactly those the requests take out between them, and a basket of several names none of them
  twice.
\<close>

theorem basket_refines_requests:
  assumes "qs \<noteq> []"
  shows "((\<exists>plan. build_all P qs = Inr plan) \<longleftrightarrow> (\<forall>q \<in> set qs. \<exists>p. build_plan P q = Inr p)) \<and>
    (\<forall>plan. build_all P qs = Inr plan \<longrightarrow>
       set (gp_include plan) = {x. \<exists>q p. q \<in> set qs \<and> build_plan P q = Inr p \<and> x \<in> set (gp_include p)} \<and>
       set (gp_members plan) = {x. \<exists>q p. q \<in> set qs \<and> build_plan P q = Inr p \<and> x \<in> set (gp_members p)} \<and>
       (length qs > 1 \<longrightarrow> distinct (gp_include plan) \<and> distinct (gp_members plan)))"
proof (intro conjI allI impI)
  show "(\<exists>plan. build_all P qs = Inr plan) \<longleftrightarrow> (\<forall>q \<in> set qs. \<exists>p. build_plan P q = Inr p)"
    using assms by (simp add: build_all_succeeds)
next
  fix plan
  assume "build_all P qs = Inr plan"
  from build_all_gathers [OF this] obtain plans where map: "map (build_plan P) qs = map Inr plans"
    and inc: "set (gp_include plan) = (\<Union>p \<in> set plans. set (gp_include p))"
    and mem: "set (gp_members plan) = (\<Union>p \<in> set plans. set (gp_members p))"
    and dist: "length qs \<noteq> 1 \<longrightarrow> distinct (gp_include plan) \<and> distinct (gp_members plan)"
    by blast
  have plans: "p \<in> set plans \<longleftrightarrow> (\<exists>q \<in> set qs. build_plan P q = Inr p)" for p
  proof -
    have "p \<in> set plans \<longleftrightarrow> Inr p \<in> set (map Inr plans :: g_plan res list)" by auto
    also have "\<dots> \<longleftrightarrow> (\<exists>q \<in> set qs. build_plan P q = Inr p)" unfolding map [symmetric] by force
    finally show ?thesis .
  qed
  show "set (gp_include plan) = {x. \<exists>q p. q \<in> set qs \<and> build_plan P q = Inr p \<and> x \<in> set (gp_include p)}"
    using inc plans by blast
  show "set (gp_members plan) = {x. \<exists>q p. q \<in> set qs \<and> build_plan P q = Inr p \<and> x \<in> set (gp_members p)}"
    using mem plans by blast
  show "distinct (gp_include plan)" if "length qs > 1" using dist that by auto
  show "distinct (gp_members plan)" if "length qs > 1" using dist that by auto
qed

lemma basket_refines_requests_witness:
  "length asked = 3 \<and> list_all (\<lambda>q. \<exists>p. build_plan split_parts q = Inr p) asked \<and>
   (\<exists>plan. build_all split_parts asked = Inr plan \<and> distinct (gp_include plan) \<and> gp_members plan = [''dnszones/example.com.db''])"
proof -
  have ne: "asked \<noteq> []" and len: "length asked = 3" by (simp_all add: asked_def)
  from asked_plan obtain plan where plan: "build_all split_parts asked = Inr plan" "gp_members plan = [''dnszones/example.com.db'']" by blast
  from basket_refines_requests [OF ne, of split_parts] plan len show ?thesis by (auto simp: list_all_iff)
qed

end
