(* ===== verification/Tar_Archive.thy ===== *)
theory Tar_Archive
  imports Granular
begin

unbundle bit_operations_syntax

text \<open>
  Account archives: \<open>internal/reassemble/account.go\<close>, which binds an archive to the account it is
  restored for, and \<open>tar.go\<close>, which unpacks and packs one. What \<open>archive/tar\<close> reads out of the file
  is a list of headers with their bodies; the operating system's \<open>os.Root\<close> is a parameter that may
  refuse any operation, and the operations asked of it are recorded in order.
\<close>

section \<open>Archives\<close>

datatype tar_type = TReg | TLink | TSymlink | TChar | TBlock | TDir | TFifo | TOther char

text \<open>\<open>th_broken\<close> is the error reading the body ends in, if it does.\<close>

record tar_header =
  th_name :: string
  th_type :: tar_type
  th_size :: int
  th_mode :: "64 word"
  th_linkname :: string
  th_body :: string
  th_broken :: "err option"

text \<open>
  A file as it is opened: what opening it, looking at it and starting to decompress it say, the
  headers in it, and how the headers end (\<open>None\<close> is the end of the file).
\<close>

record archive =
  ar_open :: "err option"
  ar_regular :: bool
  ar_gzip :: "err option"
  ar_entries :: "tar_header list"
  ar_end :: "err option"

text \<open>\<open>filepath.Base\<close> and \<open>path.Dir\<close>.\<close>

definition file_base :: "string \<Rightarrow> string" where
  "file_base p =
     (if p = [] then ''.''
      else let q = trim_right CHR ''/'' p
        in if q = [] then ''/'' else rev (takeWhile (\<lambda>c. c \<noteq> CHR ''/'') (rev q)))"

definition path_dir :: "string \<Rightarrow> string" where
  "path_dir p = path_clean (rev (dropWhile (\<lambda>c. c \<noteq> CHR ''/'') (rev p)))"

section \<open>An archive and the account it is for\<close>

text \<open>One member: the root it lies under, and whether it is an identity record.\<close>

definition check_entry :: "string \<Rightarrow> string \<Rightarrow> tar_header \<Rightarrow> (string \<times> bool) res" where
  "check_entry account root h =
     (let name = trim_prefix (th_name h) ''./'' in
      if name = ''.'' \<and> th_type h = TDir then Inr (root, False)
      else if list_ex (\<lambda>c. c = ''..'') (split_at CHR ''/'' name)
      then Inl (ErrMsg ''reassemble: unsafe account archive member'' [th_name h])
      else case cut_at CHR ''/'' (path_clean name) of (top1, within, _) \<Rightarrow>
        if top1 \<noteq> ''cpmove-'' @ account \<and> top1 \<noteq> account
        then Inl (ErrMsg ''reassemble: archive member does not belong to'' [th_name h, account])
        else if root \<noteq> [] \<and> root \<noteq> top1 then Inl (ErrMsg ''reassemble: account archive has multiple roots'' [])
        else if (within = [] \<or> within = ''cp'' \<or> within = ''meta'') \<and> th_type h \<noteq> TDir
        then Inl (ErrMsg ''reassemble: account identity directory is not a directory'' [th_name h])
        else if has_prefix within ''cp/'' \<or> within = ''meta/user'' then
          (if within \<noteq> ''cp/'' @ account \<and> within \<noteq> ''meta/user''
           then Inl (ErrMsg ''reassemble: archive contains a different account record'' [th_name h])
           else if th_type h \<noteq> TReg \<or> th_size h > 2 ^ 20
           then Inl (ErrMsg ''reassemble: invalid account identity record'' [th_name h])
           else case th_broken h of Some e \<Rightarrow> Inl e | None \<Rightarrow>
             if within = ''meta/user'' \<and> trim_space (th_body h) \<noteq> account
             then Inl (ErrMsg ''reassemble: archive account identity is not'' [account])
             else if within = ''cp/'' @ account \<and>
                 list_ex (\<lambda>line. case cut_prefix line ''USER='' of Some v \<Rightarrow> trim_space v \<noteq> account | None \<Rightarrow> False)
                   (split_at (CHR 0x0A) (th_body h))
             then Inl (ErrMsg ''reassemble: archive USER field is not'' [account])
             else Inr (top1, True))
        else Inr (top1, False))"

text \<open>
  The loop over the members. \<open>cancelled\<close> is what \<open>ctx.Err()\<close> says before each of them.
\<close>

fun validate_loop :: "(nat \<Rightarrow> err option) \<Rightarrow> string \<Rightarrow> err option \<Rightarrow> nat \<Rightarrow> string \<Rightarrow> bool \<Rightarrow> tar_header list \<Rightarrow> unit res" where
  "validate_loop cancelled account ends i root identity hs =
     (case cancelled i of Some e \<Rightarrow> Inl e | None \<Rightarrow>
       case hs of
         [] \<Rightarrow> (case ends of
             Some e \<Rightarrow> Inl (ErrWrap ''reassemble: read account archive'' e)
           | None \<Rightarrow> if \<not> identity then Inl (ErrMsg ''reassemble: archive has no identity record for'' [account]) else Inr ())
       | h # rest \<Rightarrow> res_bind (check_entry account root h) (\<lambda>(root', found).
             validate_loop cancelled account ends (i + 1) root' (identity \<or> found) rest))"

declare validate_loop.simps [simp del]

definition validate_account_archive :: "(nat \<Rightarrow> err option) \<Rightarrow> archive \<Rightarrow> string \<Rightarrow> string \<Rightarrow> unit res" where
  "validate_account_archive cancelled A filename account =
     (let base = trim_suffix (trim_suffix (file_base filename) ''.gz'') ''.tar'' in
      if account = [] \<or> contains_any account [CHR ''/'', CHR 0x5C, CHR ''.'', CHR 0x00]
      then Inl (ErrMsg ''reassemble: invalid expected account'' [account])
      else if base \<noteq> ''cpmove-'' @ account \<and> base \<noteq> account
      then Inl (ErrMsg ''reassemble: archive filename does not belong to'' [account])
      else case ar_open A of Some e \<Rightarrow> Inl e | None \<Rightarrow>
        if \<not> ar_regular A then Inl (ErrMsg ''reassemble: account archive is not a regular file'' [])
        else case (if has_suffix filename ''.gz'' then ar_gzip A else None) of
          Some e \<Rightarrow> Inl (ErrWrap ''reassemble: read compressed account archive'' e)
        | None \<Rightarrow> validate_loop cancelled account (ar_end A) 0 [] False (ar_entries A))"

section \<open>Unpacking\<close>

text \<open>What is asked of the \<open>os.Root\<close> the archive is unpacked into.\<close>

datatype root_op =
    RMkdirAll string "32 word"
  | ROpen string "32 word"
  | RCopy string string
  | RClose string
  | RSymlink string string

record extract_api =
  xa_fault :: "root_op \<Rightarrow> root_op list \<Rightarrow> err option"
  xa_is_exist :: "err \<Rightarrow> bool"
  xa_mkdir :: "err option"
  xa_root :: "err option"

definition ask :: "extract_api \<Rightarrow> root_op \<Rightarrow> (root_op list, unit) prog" where
  "ask X op = (\<lambda>ops. (case xa_fault X op ops of Some e \<Rightarrow> Inl e | None \<Rightarrow> Inr (), ops @ [op]))"

definition max_entry_size :: int where "max_entry_size = 2 ^ 40"

definition safe_name :: "string \<Rightarrow> string res" where
  "safe_name name =
     (let clean = path_clean (trim_prefix name ''./'') in
      if clean = ''.'' \<or> clean = ''/'' then Inr []
      else if is_abs clean \<or> clean = ''..'' \<or> has_prefix clean ''../''
      then Inl (ErrMsg ''reassemble: archive entry escapes the extraction directory'' [name])
      else Inr clean)"

definition entry_mode :: "tar_header \<Rightarrow> 32 word \<Rightarrow> 32 word" where
  "entry_mode h owner_bits = (ucast (th_mode h) AND 0x1FF) OR owner_bits"

definition make_parent :: "extract_api \<Rightarrow> string \<Rightarrow> (root_op list, unit) prog" where
  "make_parent X name =
     (let parent = path_dir name in
      if parent \<noteq> ''.'' then fs_wrap ''reassemble: create parent'' (ask X (RMkdirAll parent 0x1C0)) else prog_return ())"

text \<open>
  One entry whose name has been found safe; whether a file was written. The reader hands out at most
  the header's size of a body, so the limit put on the copy after the size was checked never cuts.
\<close>

definition extract_entry :: "extract_api \<Rightarrow> string \<Rightarrow> tar_header \<Rightarrow> (root_op list, bool) prog" where
  "extract_entry X name h =
     (case th_type h of
        TDir \<Rightarrow> prog_bind (fs_wrap ''reassemble: create'' (ask X (RMkdirAll name (entry_mode h 0x1C0)))) (\<lambda>_. prog_return False)
      | TReg \<Rightarrow>
          if th_size h > max_entry_size
          then prog_fail (ErrMsg ''reassemble: entry too large, refusing to extract'' [th_name h])
          else
            prog_bind (make_parent X name) (\<lambda>_.
            prog_bind (fs_wrap ''reassemble: create'' (ask X (ROpen name (entry_mode h 0x180)))) (\<lambda>_.
              (\<lambda>ops. case ask X (RCopy name (th_body h)) ops of (copied, ops1) \<Rightarrow>
                 case ask X (RClose name) ops1 of (closed, ops2) \<Rightarrow>
                   (case (case th_broken h of Some e \<Rightarrow> Inl e | None \<Rightarrow> copied) of
                      Inl e \<Rightarrow> (Inl (ErrWrap ''reassemble: write'' e), ops2)
                    | Inr _ \<Rightarrow> (case closed of
                        Inl e \<Rightarrow> (Inl (ErrWrap ''reassemble: close'' e), ops2)
                      | Inr _ \<Rightarrow> (Inr True, ops2))))))
      | TSymlink \<Rightarrow>
          if is_abs (th_linkname h) then prog_fail (ErrMsg ''reassemble: symlink points outside the archive'' [th_name h])
          else (case safe_name (join2 (path_dir name) (th_linkname h)) of
            Inl _ \<Rightarrow> prog_fail (ErrMsg ''reassemble: symlink points outside the archive'' [th_name h])
          | Inr _ \<Rightarrow>
              prog_bind (make_parent X name) (\<lambda>_.
                (\<lambda>ops. case ask X (RSymlink (th_linkname h) name) ops of
                   (Inl e, ops') \<Rightarrow> (if xa_is_exist X e then Inr False else Inl (ErrWrap ''reassemble: symlink'' e), ops')
                 | (Inr _, ops') \<Rightarrow> (Inr False, ops'))))
      | _ \<Rightarrow> prog_return False)"

fun extract_loop :: "extract_api \<Rightarrow> (string \<Rightarrow> bool) option \<Rightarrow> err option \<Rightarrow> nat \<Rightarrow> tar_header list \<Rightarrow> root_op list \<Rightarrow>
    (nat \<times> err option) \<times> root_op list" where
  "extract_loop X keep ends written [] ops =
     ((written, map_option (ErrWrap ''reassemble: read'') ends), ops)"
| "extract_loop X keep ends written (h # hs) ops =
     (if (case keep of Some wanted \<Rightarrow> \<not> wanted (th_name h) | None \<Rightarrow> False) then extract_loop X keep ends written hs ops
      else case safe_name (th_name h) of
        Inl e \<Rightarrow> ((written, Some e), ops)
      | Inr name \<Rightarrow>
          if name = [] then extract_loop X keep ends written hs ops
          else case extract_entry X name h ops of
            (Inl e, ops') \<Rightarrow> ((written, Some e), ops')
          | (Inr wrote, ops') \<Rightarrow> extract_loop X keep ends (if wrote then written + 1 else written) hs ops')"

definition extract_tar_filtered :: "extract_api \<Rightarrow> archive \<Rightarrow> (string \<Rightarrow> bool) option \<Rightarrow> (nat \<times> err option) \<times> root_op list" where
  "extract_tar_filtered X A keep =
     (case ar_open A of Some e \<Rightarrow> ((0, Some (ErrWrap ''reassemble: open'' e)), [])
      | None \<Rightarrow> (case xa_mkdir X of Some e \<Rightarrow> ((0, Some (ErrWrap ''reassemble: create'' e)), [])
      | None \<Rightarrow> (case xa_root X of Some e \<Rightarrow> ((0, Some (ErrWrap ''reassemble: open'' e)), [])
      | None \<Rightarrow> extract_loop X keep (ar_end A) 0 (ar_entries A) [])))"

definition extract_tar :: "extract_api \<Rightarrow> archive \<Rightarrow> err option \<times> root_op list" where
  "extract_tar X A = (case extract_tar_filtered X A None of ((_, e), ops) \<Rightarrow> (e, ops))"

text \<open>The archive's own top-level directory is dropped before a member is compared.\<close>

definition wanted_member :: "string list \<Rightarrow> string \<Rightarrow> bool" where
  "wanted_member named name =
     (let rel = (case cut_at CHR ''/'' name of (_, rest, found) \<Rightarrow> if found then rest else name) in
      list_ex (\<lambda>m. if has_suffix m ''/'' then has_prefix rel m else rel = m) named)"

definition extract_members :: "extract_api \<Rightarrow> archive \<Rightarrow> string list \<Rightarrow> (nat \<times> err option) \<times> root_op list" where
  "extract_members X A named =
     (if length named = 0 then ((0, Some (ErrMsg ''reassemble: no archive members were asked for'' [])), [])
      else extract_tar_filtered X A (Some (wanted_member named)))"

section \<open>Packing\<close>

text \<open>
  What \<open>filepath.Walk\<close> shows of a directory: each name relative to it, in the order of the walk, and
  what is there.
\<close>

datatype walked = WFailed err | WDir "64 word" | WFile "64 word" string "err option" | WLink string | WSocket | WOther tar_type "64 word"

definition pack_entry :: "string \<times> walked \<Rightarrow> tar_header list res" where
  "pack_entry e =
     (case e of (relative, w) \<Rightarrow>
       case w of WFailed err \<Rightarrow> Inl err
       | _ \<Rightarrow> if relative = ''.'' then Inr [] else
         let h = \<lparr>th_name = relative, th_type = TReg, th_size = 0, th_mode = 0, th_linkname = [], th_body = [], th_broken = None\<rparr> in
         case w of
           WFailed err \<Rightarrow> Inl err
         | WDir m \<Rightarrow> Inr [h\<lparr>th_name := relative @ ''/'', th_type := TDir, th_mode := m\<rparr>]
         | WFile m body broken \<Rightarrow> (case broken of
               Some err \<Rightarrow> Inl (ErrWrap ''reassemble: copy'' err)
             | None \<Rightarrow> Inr [h\<lparr>th_size := int (length body), th_mode := m, th_body := body\<rparr>])
         | WLink target \<Rightarrow> Inr [h\<lparr>th_type := TSymlink, th_mode := 0x1FF, th_linkname := target\<rparr>]
         | WSocket \<Rightarrow> Inl (ErrWrap ''reassemble: header for'' (ErrMsg ''archive/tar: sockets not supported'' []))
         | WOther t m \<Rightarrow> Inr [h\<lparr>th_type := t, th_mode := m\<rparr>])"

fun pack_loop :: "(string \<times> walked) list \<Rightarrow> tar_header list res" where
  "pack_loop [] = Inr []"
| "pack_loop (e # es) = res_bind (pack_entry e) (\<lambda>hs. res_bind (pack_loop es) (\<lambda>rest. Inr (hs @ rest)))"

text \<open>What a reader finds in the file \<open>createTar\<close> made of a walk, when it made one.\<close>

definition create_tar :: "(string \<times> walked) list \<Rightarrow> archive res" where
  "create_tar found = res_bind (pack_loop found) (\<lambda>hs.
     Inr \<lparr>ar_open = None, ar_regular = True, ar_gzip = None, ar_entries = hs, ar_end = None\<rparr>)"

section \<open>Names that stay inside\<close>

lemma safe_name_plain:
  assumes "safe_name name = Inr c" "c \<noteq> []"
  shows "list_all plain_seg (split_at CHR ''/'' c)"
proof -
  let ?p = "trim_prefix name ''./''"
  from assms have c: "c = path_clean ?p" and ne: "c \<noteq> ''.''" and rel: "\<not> is_abs c" and up: "c \<noteq> ''..''" "\<not> has_prefix c ''../''"
    by (auto simp: safe_name_def Let_def split: if_splits)
  have "\<not> has_prefix ?p ''/''" using rel c by (auto simp: path_clean_def is_abs_def Let_def)
  with c ne obtain gs where gs: "gs = clean_segs False [] (split_at CHR ''/'' ?p)" "gs \<noteq> []" "c = join_with ''/'' gs"
    by (cases "clean_segs False [] (split_at CHR ''/'' ?p)") (auto simp: path_clean_def Let_def split: if_splits)
  have "dots_first gs" unfolding gs(1)
    by (rule clean_segs_relative) (auto simp: dots_first_def dest: split_at_sep_free)
  then obtain n ps where split: "gs = replicate n ''..'' @ ps" "list_all plain_seg ps" unfolding dots_first_def by blast
  have "n = 0"
  proof (rule ccontr)
    assume "n \<noteq> 0"
    then obtain rest where "gs = ''..'' # rest" using split(1) by (cases n) auto
    with gs(3) up show False by (cases rest) (auto simp: join_with_Cons)
  qed
  with split have plain: "list_all plain_seg gs" by simp
  have "split_at CHR ''/'' c = gs" unfolding gs(3)
    by (rule split_join [OF gs(2)]) (use plain in \<open>auto simp: list_all_iff plain_seg_def\<close>)
  with plain show ?thesis by simp
qed

lemma path_clean_not_Nil: "path_clean p \<noteq> []"
  by (simp add: path_clean_def Let_def)

lemma path_clean_plain: "list_all plain_seg gs \<Longrightarrow> gs \<noteq> [] \<Longrightarrow> path_clean (join_with ''/'' gs) = join_with ''/'' gs"
proof -
  assume plain: "list_all plain_seg gs" and ne: "gs \<noteq> []"
  have split: "split_at CHR ''/'' (join_with ''/'' gs) = gs"
    by (rule split_join [OF ne]) (use plain in \<open>auto simp: list_all_iff plain_seg_def\<close>)
  from plain ne have hd: "hd gs \<noteq> []" "CHR ''/'' \<notin> set (hd gs)" by (cases gs; auto simp: plain_seg_def)+
  have join: "join_with ''/'' gs = hd gs @ (if tl gs = [] then [] else ''/'' @ join_with ''/'' (tl gs))"
    using ne by (cases gs; cases "tl gs") (auto simp: join_with_Cons)
  then have "\<not> has_prefix (join_with ''/'' gs) ''/''" "join_with ''/'' gs \<noteq> []"
    using hd by (cases "hd gs"; auto)+
  with split plain show ?thesis by (simp add: path_clean_def Let_def clean_segs_plain)
qed

lemma path_clean_slash: "s \<noteq> [] \<Longrightarrow> path_clean (s @ ''/'') = path_clean s"
proof -
  assume "s \<noteq> []"
  then have "has_prefix (s @ ''/'') ''/'' = has_prefix s ''/''" by (cases s) auto
  moreover have "clean_segs r [] (split_at CHR ''/'' (s @ ''/'')) = clean_segs r [] (split_at CHR ''/'' s)" for r
    using split_at_sep [of "CHR ''/''" s "[]"] by (simp add: clean_segs_append)
  ultimately show ?thesis by (simp add: path_clean_def Let_def)
qed

lemma join_with_plain_not_Nil: "list_all plain_seg gs \<Longrightarrow> gs \<noteq> [] \<Longrightarrow> join_with ''/'' gs \<noteq> []"
  by (cases gs; cases "tl gs") (auto simp: plain_seg_def join_with_Cons)

lemma path_dir_plain:
  assumes "list_all plain_seg (split_at CHR ''/'' name)" "path_dir name \<noteq> ''.''"
  shows "list_all plain_seg (split_at CHR ''/'' (path_dir name))"
proof -
  let ?gs = "split_at CHR ''/'' name"
  obtain fs g where gs: "?gs = fs @ [g]" by (cases ?gs rule: rev_cases) auto
  have g: "CHR ''/'' \<notin> set g" using split_at_sep_free [of g "CHR ''/''" name] gs by simp
  have name: "name = join_with ''/'' (fs @ [g])" using gs join_split [of "CHR ''/''" name] by simp
  have cut: "dropWhile (\<lambda>c. c \<noteq> CHR ''/'') (rev g @ xs) = dropWhile (\<lambda>c. c \<noteq> CHR ''/'') xs" for xs
    using g by (intro dropWhile_append2) auto
  show ?thesis
  proof (cases "fs = []")
    case True
    have "dropWhile (\<lambda>c. c \<noteq> CHR ''/'') (rev g) = []" using g by (auto simp: dropWhile_eq_Nil_conv)
    moreover have "name = g" using True name by simp
    ultimately have "path_dir name = path_clean (rev [])" unfolding path_dir_def by metis
    then have "path_dir name = ''.''" by (simp add: path_clean_def)
    with assms(2) show ?thesis by simp
  next
    case False
    have "name = join_with ''/'' fs @ ''/'' @ g" unfolding name using False
    proof (induction fs)
      case (Cons f fs) then show ?case by (cases "fs = []") (auto simp: join_with_Cons)
    qed simp
    then have "path_dir name = path_clean (join_with ''/'' fs @ ''/'')"
      using cut [of "CHR ''/'' # rev (join_with ''/'' fs)"] by (simp add: path_dir_def)
    moreover have fs: "list_all plain_seg fs" using assms(1) gs by simp
    then have "split_at CHR ''/'' (join_with ''/'' fs) = fs"
      by (intro split_join [OF False]) (auto simp: list_all_iff plain_seg_def)
    then have "path_clean (join_with ''/'' fs @ ''/'') = join_with ''/'' fs"
      using path_clean_plain [OF fs False] join_with_plain_not_Nil [OF fs False] by (simp add: path_clean_slash)
    ultimately show ?thesis using fs \<open>split_at CHR ''/'' (join_with ''/'' fs) = fs\<close> by simp
  qed
qed

text \<open>
  An operation that keeps to the directory: the name it is given is a chain of plain segments, what it
  creates has permission bits only and the owner can read it, and a link leads, from where it stands,
  to a place the directory has.
\<close>

definition local_path :: "string \<Rightarrow> bool" where
  "local_path n \<longleftrightarrow> list_all plain_seg (split_at CHR ''/'' n)"

fun keeps_inside :: "root_op \<Rightarrow> bool" where
  "keeps_inside (RMkdirAll n m) \<longleftrightarrow> local_path n \<and> m AND 0xFFFFFE00 = 0 \<and> m AND 0x1C0 = 0x1C0"
| "keeps_inside (ROpen n m) \<longleftrightarrow> local_path n \<and> m AND 0xFFFFFE00 = 0 \<and> m AND 0x180 = 0x180"
| "keeps_inside (RCopy n body) \<longleftrightarrow> local_path n"
| "keeps_inside (RClose n) \<longleftrightarrow> local_path n"
| "keeps_inside (RSymlink target n) \<longleftrightarrow> local_path n \<and> \<not> is_abs target \<and>
     (let there = path_clean (trim_prefix (join2 (path_dir n) target) ''./'') in
      there = ''.'' \<or> there = ''/'' \<or> local_path there)"

lemma entry_mode_bounds:
  "b AND 0xFFFFFE00 = 0 \<Longrightarrow> entry_mode h b AND 0xFFFFFE00 = 0 \<and> entry_mode h b AND b = b"
proof
  assume b: "b AND 0xFFFFFE00 = 0"
  have "entry_mode h b AND 0xFFFFFE00 = (ucast (th_mode h) AND (0x1FF AND 0xFFFFFE00)) OR (b AND 0xFFFFFE00)"
    by (simp only: entry_mode_def bit.conj_disj_distrib2 and.assoc)
  with b show "entry_mode h b AND 0xFFFFFE00 = 0" by simp
  show "entry_mode h b AND b = b" unfolding entry_mode_def by (rule bit_eqI) (auto simp: bit_simps)
qed

lemma ask_keeps: "keeps_inside op \<Longrightarrow> list_all keeps_inside ops \<Longrightarrow> ask X op ops = (r, ops') \<Longrightarrow> list_all keeps_inside ops'"
  by (auto simp: ask_def)

lemma fs_wrap_ask: "fs_wrap m (ask X op) ops = (r, ops') \<Longrightarrow> ops' = ops @ [op]"
  by (auto simp: fs_wrap_def ask_def split: option.splits)

lemma make_parent_keeps:
  assumes "local_path name" "list_all keeps_inside ops" "make_parent X name ops = (r, ops')"
  shows "list_all keeps_inside ops'"
  using assms path_dir_plain [of name]
  by (auto simp: make_parent_def Let_def local_path_def prog_return_def split: if_splits dest!: fs_wrap_ask)

lemma extract_entry_keeps:
  assumes "local_path name" "list_all keeps_inside ops" "extract_entry X name h ops = (r, ops')"
  shows "list_all keeps_inside ops'"
proof -
  note mk = make_parent_keeps [OF assms(1,2), of X]
  show ?thesis
  proof (cases "th_type h")
    case TReg
    show ?thesis
    proof (cases "th_size h > max_entry_size")
      case True
      with TReg assms show ?thesis by (simp add: extract_entry_def prog_fail_def)
    next
      case False
      obtain r1 ops1 where p: "make_parent X name ops = (r1, ops1)" by fastforce
      obtain r2 ops2 where o: "fs_wrap ''reassemble: create'' (ask X (ROpen name (entry_mode h 0x180))) ops1 = (r2, ops2)" by fastforce
      from fs_wrap_ask [OF o] mk [OF p] assms(1) have "list_all keeps_inside ops2" "list_all keeps_inside ops1"
        by (simp_all add: entry_mode_bounds)
      with TReg False assms(1,3) p o show ?thesis
        by (auto simp: extract_entry_def prog_bind_def ask_def split: sum.splits option.splits)
    qed
  next
    case TSymlink
    show ?thesis
    proof (cases "is_abs (th_linkname h) \<or> (\<exists>e. safe_name (join2 (path_dir name) (th_linkname h)) = Inl e)")
      case True
      with TSymlink assms show ?thesis by (auto simp: extract_entry_def prog_fail_def split: if_splits)
    next
      case False
      then obtain c where c: "safe_name (join2 (path_dir name) (th_linkname h)) = Inr c" and rel: "\<not> is_abs (th_linkname h)"
        by (cases "safe_name (join2 (path_dir name) (th_linkname h))") auto
      have "keeps_inside (RSymlink (th_linkname h) name)"
        using assms(1) rel c safe_name_plain [OF c] path_clean_not_Nil
        by (auto simp: safe_name_def Let_def local_path_def split: if_splits)
      moreover obtain r1 ops1 where p: "make_parent X name ops = (r1, ops1)" by fastforce
      ultimately show ?thesis
        using TSymlink c rel assms(3) mk [OF p] p
        by (auto simp: extract_entry_def prog_bind_def ask_def split: sum.splits option.splits if_splits)
    qed
  next
    case TDir
    obtain r1 ops1 where m: "fs_wrap ''reassemble: create'' (ask X (RMkdirAll name (entry_mode h 0x1C0))) ops = (r1, ops1)" by fastforce
    with TDir assms(3) have "ops' = ops1"
      by (auto simp: extract_entry_def prog_bind_def prog_return_def split: sum.splits)
    with fs_wrap_ask [OF m] assms(1,2) show ?thesis by (simp add: entry_mode_bounds)
  qed (use assms in \<open>auto simp: extract_entry_def prog_return_def\<close>)
qed

lemma extract_loop_keeps:
  "list_all keeps_inside ops \<Longrightarrow> list_all keeps_inside (snd (extract_loop X keep ends written hs ops))"
proof (induction X keep ends written hs ops rule: extract_loop.induct)
  case (2 X keep ends written h hs ops)
  show ?case
  proof (cases "safe_name (th_name h)")
    case (Inr name)
    show ?thesis
    proof (cases "(case keep of Some wanted \<Rightarrow> \<not> wanted (th_name h) | None \<Rightarrow> False) \<or> name = []")
      case True
      with 2 Inr show ?thesis by auto
    next
      case False
      then have "local_path name" using safe_name_plain [OF Inr] by (simp add: local_path_def)
      obtain r ops' where e: "extract_entry X name h ops = (r, ops')" by fastforce
      from extract_entry_keeps [OF \<open>local_path name\<close> "2.prems" e] have "list_all keeps_inside ops'" .
      with 2 Inr False e show ?thesis by (cases r) auto
    qed
  qed (use 2 in auto)
qed simp


section \<open>An archive accepted for an account\<close>

text \<open>The members looked at, by the name they have once cleaned.\<close>

definition member_path :: "tar_header \<Rightarrow> string" where
  "member_path h = path_clean (trim_prefix (th_name h) ''./'')"

definition passed_over :: "tar_header \<Rightarrow> bool" where
  "passed_over h \<longleftrightarrow> trim_prefix (th_name h) ''./'' = ''.'' \<and> th_type h = TDir"

text \<open>What an identity record has to say to be the account's.\<close>

definition says_account :: "string \<Rightarrow> string \<Rightarrow> tar_header \<Rightarrow> bool" where
  "says_account account within h \<longleftrightarrow>
     th_type h = TReg \<and> th_broken h = None \<and>
     (within = ''meta/user'' \<and> trim_space (th_body h) = account \<or>
      within = ''cp/'' @ account \<and>
        (\<forall>v. ''USER='' @ v \<in> set (split_at (CHR 0x0A) (th_body h)) \<longrightarrow> trim_space v = account))"

text \<open>A member that belongs under a root: where it lies, and what it says if it is a record.\<close>

definition belongs :: "string \<Rightarrow> string \<Rightarrow> tar_header \<Rightarrow> bool" where
  "belongs account root h \<longleftrightarrow>
     passed_over h \<or>
     (member_path h = root \<and> th_type h = TDir) \<or>
     (\<exists>within. member_path h = root @ ''/'' @ within \<and> (within = [] \<or> within = ''cp'' \<or> within = ''meta'' \<longrightarrow> th_type h = TDir) \<and>
        (has_prefix within ''cp/'' \<or> within = ''meta/user'' \<longrightarrow> says_account account within h))"

definition identifies :: "string \<Rightarrow> string \<Rightarrow> tar_header \<Rightarrow> bool" where
  "identifies account root h \<longleftrightarrow>
     (\<exists>within. member_path h = root @ ''/'' @ within \<and> (has_prefix within ''cp/'' \<or> within = ''meta/user'') \<and>
        says_account account within h)"

lemma check_entry_accepts:
  assumes "check_entry account root h = Inr (root', found)"
  shows "(root' = root \<and> passed_over h \<and> \<not> found) \<or>
     (root' \<in> {''cpmove-'' @ account, account} \<and> (root = [] \<or> root = root') \<and> belongs account root' h \<and> (found \<longrightarrow> identifies account root' h))"
proof (cases "passed_over h")
  case True
  with assms show ?thesis by (auto simp: check_entry_def passed_over_def Let_def)
next
  case False
  obtain t w f where cut: "cut_at CHR ''/'' (member_path h) = (t, w, f)" by (cases "cut_at CHR ''/'' (member_path h)")
  have path: "member_path h = (if f then t @ ''/'' @ w else t)" "\<not> f \<Longrightarrow> w = []"
    using cut cut_at_True [of "CHR ''/''" "member_path h" t w] cut_at_False [of "CHR ''/''" "member_path h" t w] by (cases f; auto)+
  have lines: "list_ex (\<lambda>line. case cut_prefix line ''USER='' of Some v \<Rightarrow> trim_space v \<noteq> account | None \<Rightarrow> False) ls \<longleftrightarrow>
      (\<exists>v. ''USER='' @ v \<in> set ls \<and> trim_space v \<noteq> account)" for ls
    by (auto simp: list_ex_iff cut_prefix_eq_Some split: option.splits)
  note cut' = cut [unfolded member_path_def]
  from assms False have t: "t = ''cpmove-'' @ account \<or> t = account" and r: "root = [] \<or> root = t" and root': "root' = t"
    and dir: "w = [] \<or> w = ''cp'' \<or> w = ''meta'' \<longrightarrow> th_type h = TDir"
    and rec: "has_prefix w ''cp/'' \<or> w = ''meta/user'' \<longrightarrow> says_account account w h"
    and found: "found \<longrightarrow> has_prefix w ''cp/'' \<or> w = ''meta/user''"
    by (auto simp: check_entry_def passed_over_def Let_def cut' says_account_def lines split: if_split_asm option.split_asm)
  have "belongs account t h" using path dir rec by (auto simp: belongs_def split: if_splits)
  moreover have "found \<longrightarrow> identifies account t h" using path rec found by (cases f) (auto simp: identifies_def)
  ultimately show ?thesis using t r root' by auto
qed

lemma validate_loop_accepts:
  assumes "validate_loop cancelled account ends i root identity hs = Inr ()" "root = [] \<longrightarrow> \<not> identity" "account \<noteq> []"
  shows "ends = None \<and> (\<exists>root'. (root = [] \<or> root' = root) \<and> (root' \<in> {''cpmove-'' @ account, account} \<or> root' = root) \<and>
     (\<forall>h \<in> set hs. belongs account root' h) \<and> (identity \<or> (root' \<noteq> [] \<and> (\<exists>h \<in> set hs. identifies account root' h))))"
  using assms
proof (induction hs arbitrary: i root identity)
  case Nil
  then show ?case by (auto simp: validate_loop.simps [of _ _ _ _ _ _ "[]"] split: option.splits if_splits)
next
  case (Cons h hs)
  from Cons.prems(1) obtain root1 found where h: "check_entry account root h = Inr (root1, found)"
    and rest: "validate_loop cancelled account ends (i + 1) root1 (identity \<or> found) hs = Inr ()"
    by (auto simp: validate_loop.simps [of _ _ _ _ _ _ "h # hs"] res_bind_eq_Inr split: option.splits)
  note acc = check_entry_accepts [OF h]
  have inv: "root1 = [] \<longrightarrow> \<not> (identity \<or> found)" using acc Cons.prems(2,3) by auto
  from Cons.IH [OF rest inv Cons.prems(3)] obtain root' where ends: "ends = None" and root': "root1 = [] \<or> root' = root1"
    "root' \<in> {''cpmove-'' @ account, account} \<or> root' = root1"
    "\<forall>h \<in> set hs. belongs account root' h"
    "identity \<or> found \<or> (root' \<noteq> [] \<and> (\<exists>h \<in> set hs. identifies account root' h))"
    by blast
  from acc consider (skip) "root1 = root" "passed_over h" "\<not> found"
    | (kept) "root1 \<in> {''cpmove-'' @ account, account}" "root = [] \<or> root = root1" "belongs account root1 h"
        "found \<longrightarrow> identifies account root1 h"
    by blast
  then show ?case
  proof cases
    case skip
    with ends root' show ?thesis by (intro conjI exI [of _ root']) (auto simp: belongs_def)
  next
    case kept
    with Cons.prems(3) have "root1 \<noteq> []" by auto
    with root'(1) have eq: "root' = root1" by simp
    from ends root'(3,4) eq kept \<open>root1 \<noteq> []\<close>
    show ?thesis by (intro conjI exI [of _ root']) auto
  qed
qed

definition bob_archive :: archive where
  "bob_archive = \<lparr>ar_open = None, ar_regular = True, ar_gzip = None, ar_entries =
     [\<lparr>th_name = ''cpmove-bob/'', th_type = TDir, th_size = 0, th_mode = 0x1ED, th_linkname = [], th_body = [], th_broken = None\<rparr>,
      \<lparr>th_name = ''cpmove-bob/cp/bob'', th_type = TReg, th_size = 9, th_mode = 0x180, th_linkname = [],
        th_body = ''USER=bob'' @ [CHR 0x0A], th_broken = None\<rparr>,
      \<lparr>th_name = ''cpmove-bob/dnszones/example.com.db'', th_type = TReg, th_size = 4, th_mode = 0x1A4, th_linkname = [],
        th_body = ''zone'', th_broken = None\<rparr>,
      \<lparr>th_name = ''cpmove-bob/dnszones/other.org.db'', th_type = TReg, th_size = 5, th_mode = 0x1A4, th_linkname = [],
        th_body = ''other'', th_broken = None\<rparr>], ar_end = None\<rparr>"

text \<open>
  C23. An archive accepted for an account is that account's from its first member to its last: its file
  is named for the account, everything in it lies under one root named for the account, the root and
  the two identity directories are real directories, every identity record in it - duplicates included
  - is the account's own and names no other user, and there is at least one.
\<close>

theorem archive_bound_to_account:
  assumes "validate_account_archive cancelled A filename account = Inr ()"
  shows "\<exists>root \<in> {''cpmove-'' @ account, account}.
     trim_suffix (trim_suffix (file_base filename) ''.gz'') ''.tar'' \<in> {''cpmove-'' @ account, account} \<and>
     (\<forall>h \<in> set (ar_entries A). belongs account root h) \<and>
     (\<exists>h \<in> set (ar_entries A). identifies account root h) \<and>
     ar_end A = None"
proof -
  from assms have ne: "account \<noteq> []"
    and base: "trim_suffix (trim_suffix (file_base filename) ''.gz'') ''.tar'' \<in> {''cpmove-'' @ account, account}"
    and loop: "validate_loop cancelled account (ar_end A) 0 [] False (ar_entries A) = Inr ()"
    by (auto simp: validate_account_archive_def Let_def split: if_splits option.splits)
  from validate_loop_accepts [OF loop _ ne] obtain root where "ar_end A = None" and
    root: "root \<in> {''cpmove-'' @ account, account} \<or> root = []" "root \<noteq> []" and
    "\<forall>h \<in> set (ar_entries A). belongs account root h" "\<exists>h \<in> set (ar_entries A). identifies account root h"
    by auto
  moreover from root have "root \<in> {''cpmove-'' @ account, account}" by blast
  ultimately show ?thesis using base by blast
qed

lemma archive_bound_to_account_witness:
  "\<exists>root. root \<in> {''cpmove-bob'', ''bob''} \<and>
     list_all (belongs ''bob'' root) (ar_entries bob_archive) \<and> list_ex (identifies ''bob'' root) (ar_entries bob_archive)"
proof -
  have "validate_account_archive (\<lambda>_. None) bob_archive ''/var/gniza/work/cpmove-bob.tar.gz'' ''bob'' = Inr ()"
    by code_simp
  from archive_bound_to_account [OF this] show ?thesis by (auto simp: list_all_iff list_ex_iff)
qed

section \<open>The files that come out\<close>

fun copied_files :: "root_op list \<Rightarrow> (string \<times> string) list" where
  "copied_files [] = []"
| "copied_files (RCopy n body # ops) = (n, body) # copied_files ops"
| "copied_files (_ # ops) = copied_files ops"

lemma copied_files_append [simp]: "copied_files (xs @ ys) = copied_files xs @ copied_files ys"
  by (induction xs rule: copied_files.induct) auto

lemma make_parent_copies: "make_parent X name ops = (r, ops') \<Longrightarrow> copied_files ops' = copied_files ops"
  by (auto simp: make_parent_def Let_def prog_return_def split: if_splits dest!: fs_wrap_ask)

lemma make_parent_cases: obtains r ops' where "make_parent X name ops = (r, ops')" "copied_files ops' = copied_files ops"
  using make_parent_copies by (cases "make_parent X name ops") auto

text \<open>What an entry adds to the files, whether or not it ends in an error.\<close>

lemma extract_entry_copies:
  assumes "extract_entry X name h ops = (r, ops')"
  shows "copied_files ops' = copied_files ops \<or> (th_type h = TReg \<and> copied_files ops' = copied_files ops @ [(name, th_body h)])"
    and "r = Inr wrote \<Longrightarrow> wrote = (th_type h = TReg) \<and>
      copied_files ops' = copied_files ops @ (if th_type h = TReg then [(name, th_body h)] else [])"
proof -
  obtain r1 ops1 where p: "make_parent X name ops = (r1, ops1)" "copied_files ops1 = copied_files ops" by (rule make_parent_cases)
  have both: "(copied_files ops' = copied_files ops \<or> (th_type h = TReg \<and> copied_files ops' = copied_files ops @ [(name, th_body h)])) \<and>
      (r = Inr wrote \<longrightarrow> wrote = (th_type h = TReg) \<and>
        copied_files ops' = copied_files ops @ (if th_type h = TReg then [(name, th_body h)] else []))"
  proof (cases "th_type h")
    case TReg
    with assms p show ?thesis
      by (auto simp: extract_entry_def prog_bind_def prog_fail_def ask_def fs_wrap_def split: sum.splits option.splits if_splits)
  next
    case TSymlink
    with assms p show ?thesis
      by (auto simp: extract_entry_def prog_bind_def prog_fail_def ask_def split: sum.splits option.splits if_splits)
  next
    case TDir
    with assms show ?thesis
      by (auto simp: extract_entry_def prog_bind_def prog_return_def ask_def fs_wrap_def split: sum.splits option.splits)
  qed (use assms in \<open>auto simp: extract_entry_def prog_return_def\<close>)
  show "copied_files ops' = copied_files ops \<or> (th_type h = TReg \<and> copied_files ops' = copied_files ops @ [(name, th_body h)])"
    using both by blast
  show "r = Inr wrote \<Longrightarrow> wrote = (th_type h = TReg) \<and>
      copied_files ops' = copied_files ops @ (if th_type h = TReg then [(name, th_body h)] else [])"
    using both by blast
qed

text \<open>The files an archive has for a choice of members.\<close>

definition chosen_file :: "(string \<Rightarrow> bool) option \<Rightarrow> tar_header \<Rightarrow> (string \<times> string) list" where
  "chosen_file keep h =
     (if (case keep of Some wanted \<Rightarrow> wanted (th_name h) | None \<Rightarrow> True) \<and> th_type h = TReg
      then (case safe_name (th_name h) of Inr c \<Rightarrow> if c = [] then [] else [(c, th_body h)] | Inl _ \<Rightarrow> []) else [])"

lemma chosen_file_iff: "(path, body) \<in> set (chosen_file (Some wanted) h) \<longleftrightarrow>
    wanted (th_name h) \<and> th_type h = TReg \<and> safe_name (th_name h) = Inr path \<and> path \<noteq> [] \<and> body = th_body h"
proof (cases "safe_name (th_name h)")
  case (Inr c)
  show ?thesis
    by (cases "wanted (th_name h)"; cases "th_type h = TReg"; cases "c = []")
      (simp_all only: Inr chosen_file_def option.case sum.case simp_thms if_True if_False list.set empty_iff insert_iff
         prod.inject sum.inject, blast+)
next
  case (Inl e)
  then show ?thesis by (simp only: chosen_file_def option.case sum.case if_cancel list.set empty_iff sum.distinct simp_thms)
qed

lemma extract_loop_copies:
  assumes "extract_loop X keep ends written hs ops = ((n, e), ops')"
  shows "set (copied_files ops') \<subseteq> set (copied_files ops) \<union> (\<Union>h \<in> set hs. set (chosen_file keep h)) \<and>
    (e = None \<longrightarrow> copied_files ops' = copied_files ops @ concat (map (chosen_file keep) hs) \<and>
        n = written + length (concat (map (chosen_file keep) hs)))"
  using assms
proof (induction hs arbitrary: written ops)
  case (Cons h hs)
  show ?case
  proof (cases "case keep of Some wanted \<Rightarrow> \<not> wanted (th_name h) | None \<Rightarrow> False")
    case True
    with Cons.prems have "extract_loop X keep ends written hs ops = ((n, e), ops')" by simp
    note IH = Cons.IH [OF this]
    have "chosen_file keep h = []" using True by (auto simp: chosen_file_def split: option.splits)
    with IH show ?thesis by simp
  next
    case kept: False
    show ?thesis
    proof (cases "safe_name (th_name h)")
      case (Inl err)
      with kept Cons.prems show ?thesis by auto
    next
      case (Inr c)
      show ?thesis
      proof (cases "c = []")
        case True
        with kept Inr Cons.prems have "extract_loop X keep ends written hs ops = ((n, e), ops')" by simp
        note IH = Cons.IH [OF this]
        have "chosen_file keep h = []" using True Inr by (simp add: chosen_file_def)
        with IH show ?thesis by simp
      next
        case False
        have chosen: "chosen_file keep h = (if th_type h = TReg then [(c, th_body h)] else [])"
          using kept Inr False by (auto simp: chosen_file_def split: option.splits)
        obtain r ops1 where x: "extract_entry X c h ops = (r, ops1)" by fastforce
        show ?thesis
        proof (cases r)
          case (Inl err)
          with kept Inr False Cons.prems x have "ops' = ops1" "e = Some err" "n = written"
            by (simp_all split: if_split_asm)
          with extract_entry_copies(1) [OF x] chosen show ?thesis by auto
        next
          case (Inr wrote)
          from extract_entry_copies(2) [OF x Inr] have c1: "wrote = (th_type h = TReg)"
            "copied_files ops1 = copied_files ops @ chosen_file keep h" using chosen by auto
          from kept \<open>safe_name (th_name h) = _\<close> False Cons.prems x Inr
          have "extract_loop X keep ends (if wrote then written + 1 else written) hs ops1 = ((n, e), ops')" by simp
          from Cons.IH [OF this] c1 chosen show ?thesis by auto
        qed
      qed
    qed
  qed
qed auto

lemma extract_members_copies:
  assumes "extract_members X A named = ((n, e), ops)"
  shows "set (copied_files ops) \<subseteq> (\<Union>h \<in> set (ar_entries A). set (chosen_file (Some (wanted_member named)) h)) \<and>
    (e = None \<longrightarrow> n = length (copied_files ops))"
  using assms extract_loop_copies [of X "Some (wanted_member named)" "ar_end A" 0 "ar_entries A" "[]" n e ops]
  by (auto simp: extract_members_def extract_tar_filtered_def split: if_splits option.splits)

text \<open>The zone of a domain, where an archive keeps it.\<close>

definition zone_member :: "string \<Rightarrow> string" where
  "zone_member d = ''dnszones/'' @ d @ ''.db''"

lemma members_for_Inr: "members_for f names = Inr ms \<Longrightarrow> ms = concat (map f names) \<and> (\<forall>d \<in> set names. usable_domain_name d = Inr ())"
  by (induction names arbitrary: ms) (auto simp: res_bind_eq_Inr)

lemma usable_domain_no_slash:
  assumes "usable_domain_name d = Inr ()"
  shows "CHR ''/'' \<notin> set d"
proof
  assume slash: "CHR ''/'' \<in> set d"
  from assms have labels: "list_all usable_label (split_at CHR ''.'' d)"
    by (auto simp: usable_domain_name_def Let_def split: if_splits)
  have "set (join_with [CHR ''.''] ls) \<subseteq> {CHR ''.''} \<union> (\<Union>l \<in> set ls. set l)" for ls
  proof (induction ls)
    case (Cons l ls) then show ?case by (cases ls) auto
  qed simp
  from this [of "split_at CHR ''.'' d"] slash obtain l where "l \<in> set (split_at CHR ''.'' d)" "CHR ''/'' \<in> set l" by auto
  with labels have "label_char CHR ''/''" by (auto simp: usable_label_def list_all_iff split: if_splits)
  then show False by (simp add: label_char_def char_in_def)
qed

lemma zone_member_plain: "usable_domain_name d = Inr () \<Longrightarrow> split_at CHR ''/'' (zone_member d) = [''dnszones'', d @ ''.db''] \<and>
    plain_seg ''dnszones'' \<and> plain_seg (d @ ''.db'') \<and> \<not> has_suffix (zone_member d) ''/''"
  using usable_domain_no_slash [of d] split_append [of "CHR ''/''" "''dnszones''" "d @ ''.db''"]
  by (auto simp: zone_member_def plain_seg_def split_no_sep has_suffix_def append_eq_Cons_conv)

text \<open>Where a member with a zone's name is written.\<close>

lemma zone_written:
  assumes d: "usable_domain_name d = Inr ()" and cut: "cut_at CHR ''/'' name = (t, zone_member d, True)"
    and safe: "safe_name name = Inr c" "c \<noteq> []"
  shows "c = zone_member d \<or> (\<exists>top. plain_seg top \<and> c = top @ ''/'' @ zone_member d)"
proof -
  note z = zone_member_plain [OF d]
  have name: "name = t @ CHR ''/'' # zone_member d" and t: "CHR ''/'' \<notin> set t" using cut_at_True [OF cut] by auto
  have zjoin: "zone_member d = join_with ''/'' [''dnszones'', d @ ''.db'']" by (simp add: zone_member_def)
  consider "t = []" | "t = ''.''" | "t = ''..''" | "plain_seg t" using t by (auto simp: plain_seg_def)
  then show ?thesis
  proof cases
    case 1
    then have "is_abs (path_clean (trim_prefix name ''./''))"
      by (simp add: name trim_prefix_def is_abs_def path_clean_def Let_def)
    then show ?thesis using safe by (auto simp: safe_name_def Let_def is_abs_def split: if_splits)
  next
    case 2
    then have "trim_prefix name ''./'' = zone_member d" by (simp add: name trim_prefix_def)
    moreover have "path_clean (zone_member d) = zone_member d"
      unfolding zjoin using z by (intro path_clean_plain) auto
    ultimately show ?thesis using safe by (auto simp: safe_name_def Let_def split: if_splits)
  next
    case 3
    then have trim: "trim_prefix name ''./'' = name" by (simp add: name trim_prefix_def)
    have "clean_segs False [] (split_at CHR ''/'' name) = [''..'', ''dnszones'', d @ ''.db'']"
      using z by (simp add: name 3 plain_seg_def)
    then have "path_clean name = join_with ''/'' [''..'', ''dnszones'', d @ ''.db'']"
      by (simp add: path_clean_def name 3)
    with trim safe show ?thesis by (auto simp: safe_name_def Let_def split: if_splits)
  next
    case 4
    then have trim: "trim_prefix name ''./'' = name"
      by (cases t; cases "tl t") (auto simp: name trim_prefix_def plain_seg_def)
    have "path_clean name = name"
      using path_clean_plain [of "[t, ''dnszones'', d @ ''.db'']"] z 4 by (simp add: name zjoin)
    with trim safe 4 show ?thesis by (auto simp: safe_name_def Let_def name split: if_splits)
  qed
qed

lemma dns_members_named:
  assumes "build_plan P q = Inr plan" "gq_kind q = g_dns" "gq_names q \<noteq> []"
  shows "gp_members plan = map zone_member (gq_names q) \<and> (\<forall>d \<in> set (gq_names q). usable_domain_name d = Inr ())"
proof -
  have concat: "concat (map (\<lambda>n. [f n]) xs) = map f xs" for f :: "string \<Rightarrow> string" and xs by (induction xs) auto
  from assms(1) have "build_chosen P q dns_members ''the DNS records'' = Inr plan"
    by (simp add: build_plan_def Let_def assms(2) needs_names_def g_kinds split: if_splits)
  then obtain ms d where ms: "dns_members (gq_names q) = Inr ms" and "build_metadata P ms d = Inr plan"
    by (auto simp only: build_chosen_def res_bind_eq_Inr)
  then have "gp_members plan = ms" by (auto simp: build_metadata_def split: if_split_asm)
  with ms assms(3) have "members_for (\<lambda>name. [''dnszones/'' @ name @ ''.db'']) (gq_names q) = Inr (gp_members plan)"
    by (simp add: dns_members_def)
  from members_for_Inr [OF this] show ?thesis by (simp add: concat zone_member_def)
qed

lemma wanted_zone:
  assumes "wanted_member (map zone_member ds) name" "\<forall>d \<in> set ds. usable_domain_name d = Inr ()"
  shows "\<exists>d \<in> set ds. \<exists>t. cut_at CHR ''/'' name = (t, zone_member d, True)"
proof -
  obtain t w f where cut: "cut_at CHR ''/'' name = (t, w, f)" by (cases "cut_at CHR ''/'' name")
  from assms obtain d where d: "d \<in> set ds" and eq: "(if f then w else name) = zone_member d"
    using zone_member_plain by (fastforce simp: wanted_member_def cut list_ex_iff)
  have "CHR ''/'' \<in> set (zone_member d)" by (simp add: zone_member_def)
  with cut_at_False [of "CHR ''/''" name t w] cut eq have "f" by (cases f) auto
  with cut d eq show ?thesis by auto
qed

text \<open>
  Restoring the DNS records of named domains brings back those zones and nothing else: whatever the
  account's archive holds, and however the unpacking ends, each file written is the zone file of a
  domain that was named, with the contents a member of the archive has for it, under the archive's
  top directory; and when it ends well the count it reports is the number of files written.
\<close>

theorem dns_restore_only_named_zones:
  assumes "build_plan P q = Inr plan" and "gq_kind q = g_dns" and "gq_names q \<noteq> []"
    and "extract_members X A (gp_members plan) = ((n, e), ops)"
  shows "(\<forall>(path, body) \<in> set (copied_files ops). \<exists>d \<in> set (gq_names q). \<exists>h \<in> set (ar_entries A).
            th_type h = TReg \<and> th_body h = body \<and>
            (path = zone_member d \<or> (\<exists>top. plain_seg top \<and> path = top @ ''/'' @ zone_member d))) \<and>
         (e = None \<longrightarrow> n = length (copied_files ops))"
proof -
  note ds = dns_members_named [OF assms(1-3)]
  note out = extract_members_copies [OF assms(4)]
  have "\<exists>d \<in> set (gq_names q). \<exists>h \<in> set (ar_entries A).
            th_type h = TReg \<and> th_body h = body \<and>
            (path = zone_member d \<or> (\<exists>top. plain_seg top \<and> path = top @ ''/'' @ zone_member d))"
    if "(path, body) \<in> set (copied_files ops)" for path body
  proof -
    from that out ds obtain h where h: "h \<in> set (ar_entries A)" "(path, body) \<in> set (chosen_file (Some (wanted_member (map zone_member (gq_names q)))) h)"
      by auto
    then have reg: "th_type h = TReg" "th_body h = body" "wanted_member (map zone_member (gq_names q)) (th_name h)"
      and safe: "safe_name (th_name h) = Inr path" "path \<noteq> []"
      by (simp_all add: chosen_file_iff)
    from wanted_zone [OF reg(3) conjunct2 [OF ds]] obtain d t where d: "d \<in> set (gq_names q)"
      and cut: "cut_at CHR ''/'' (th_name h) = (t, zone_member d, True)"
      by (elim bexE exE) (rule that)
    have "usable_domain_name d = Inr ()" using ds d by (elim conjE bspec)
    note written = zone_written [OF this cut safe]
    show ?thesis by (rule bexI [OF _ d], rule bexI [OF _ h(1)]) (intro conjI reg(1,2) written)
  qed
  with out show ?thesis by auto
qed

definition willing :: extract_api where
  "willing = \<lparr>xa_fault = (\<lambda>_ _. None), xa_is_exist = (\<lambda>_. False), xa_mkdir = None, xa_root = None\<rparr>"

definition zone_request :: g_request where
  "zone_request = \<lparr>gq_kind = g_dns, gq_account = ''bob'', gq_names = [''example.com'']\<rparr>"

lemma dns_restore_only_named_zones_witness:
  "\<exists>plan ops. build_plan split_parts zone_request = Inr plan \<and>
     extract_members willing bob_archive (gp_members plan) = ((1, None), ops) \<and>
     copied_files ops = [(''cpmove-bob/dnszones/example.com.db'', ''zone'')] \<and>
     1 = length (copied_files ops)"
proof -
  let ?plan = "projr (build_plan split_parts zone_request)"
  let ?out = "extract_members willing bob_archive (gp_members ?plan)"
  have "\<not> isl (build_plan split_parts zone_request)" by code_simp
  then have plan: "build_plan split_parts zone_request = Inr ?plan" by (rule sum.collapse(2) [symmetric])
  have "fst ?out = (1, None)" by code_simp
  then have ops: "?out = ((1, None), snd ?out)" by (metis prod.collapse)
  have files: "copied_files (snd ?out) = [(''cpmove-bob/dnszones/example.com.db'', ''zone'')]" by code_simp
  have "gq_kind zone_request = g_dns" "gq_names zone_request \<noteq> []" by (simp_all add: zone_request_def)
  note all = dns_restore_only_named_zones [OF plan this ops]
  from conjI [OF plan conjI [OF ops conjI [OF files mp [OF conjunct2 [OF all] refl]]]] show ?thesis by (intro exI)
qed

section \<open>What was packed comes back\<close>

definition walk_files :: "(string \<times> walked) list \<Rightarrow> (string \<times> string) list" where
  "walk_files found = concat (map (\<lambda>(relative, w). case w of WFile m body broken \<Rightarrow> [(relative, body)] | _ \<Rightarrow> []) found)"

text \<open>What a walk shows that can be packed and unpacked: names below the directory, links that stay in it.\<close>

definition packable :: "string \<times> walked \<Rightarrow> bool" where
  "packable e \<longleftrightarrow> (case e of (relative, w) \<Rightarrow>
     (relative = ''.'' \<and> (\<exists>m. w = WDir m)) \<or>
     (local_path relative \<and>
       (case w of
          WDir m \<Rightarrow> True
        | WFile m body broken \<Rightarrow> broken = None \<and> int (length body) \<le> max_entry_size
        | WLink target \<Rightarrow> \<not> is_abs target \<and> (\<exists>c. safe_name (join2 (path_dir relative) target) = Inr c)
        | WOther t m \<Rightarrow> t \<in> {TChar, TBlock, TFifo}
        | _ \<Rightarrow> False)))"

lemma local_path_safe:
  assumes "local_path p"
  shows "safe_name p = Inr p" "safe_name (p @ ''/'') = Inr p" "p \<noteq> []" "p \<noteq> ''.''"
proof -
  let ?gs = "split_at CHR ''/'' p"
  have gs: "list_all plain_seg ?gs" and p: "join_with ''/'' ?gs = p" using assms by (simp_all add: local_path_def)
  have clean: "path_clean p = p" using path_clean_plain [OF gs] p by simp
  show ne: "p \<noteq> []" using join_with_plain_not_Nil [OF gs] p by simp
  obtain g rest where g: "?gs = g # rest" "plain_seg g" using gs by (cases ?gs) auto
  obtain r where r: "p = g @ r" "r = [] \<or> (\<exists>r'. r = CHR ''/'' # r')"
    using p g by (cases rest) (auto simp: join_with_Cons)
  have g3: "g \<noteq> []" "g \<noteq> ''.''" "g \<noteq> ''..''" "\<And>c g'. g = c # g' \<Longrightarrow> c \<noteq> CHR ''/''"
    using g(2) by (auto simp: plain_seg_def)
  obtain c1 g1 where c1: "g = c1 # g1" "c1 \<noteq> CHR ''/''" using g3 by (cases g) auto
  have abs: "\<not> is_abs p" "p \<noteq> ''/''" using r(1) c1 by (auto simp: is_abs_def)
  have slash: "CHR ''/'' \<notin> set g1" using g(2) c1 by (auto simp: plain_seg_def)
  have one: "\<not> has_prefix p ''./''" "p \<noteq> ''.''"
    using r c1 g3(2) slash by (cases g1; auto)+
  have two: "p \<noteq> ''..''" "\<not> has_prefix p ''../''"
    using r c1 g3(2,3) slash by (cases g1; cases "tl g1"; auto)+
  note shape = abs(1) two abs(2) one(1) and dot = one(2)
  from dot show "p \<noteq> ''.''" .
  from shape clean dot show "safe_name p = Inr p" by (simp add: safe_name_def Let_def trim_prefix_def)
  have "\<not> has_prefix (p @ ''/'') ''./''" using shape(5) dot ne by (cases p; cases "tl p") auto
  with shape clean dot ne show "safe_name (p @ ''/'') = Inr p"
    by (simp add: safe_name_def Let_def trim_prefix_def path_clean_slash)
qed

lemma packed_entry:
  assumes "packable e"
  shows "\<exists>hs. pack_entry e = Inr hs \<and>
    concat (map (chosen_file None) hs) = walk_files [e] \<and>
    (\<forall>h \<in> set hs. \<exists>name. safe_name (th_name h) = Inr name \<and>
       (name \<noteq> [] \<longrightarrow> (\<forall>ops. \<exists>wrote. fst (extract_entry willing name h ops) = Inr wrote)))"
proof -
  obtain relative w where e: "e = (relative, w)" by (cases e)
  show ?thesis
  proof (cases "relative = ''.''")
    case True
    with assms e have "\<exists>m. w = WDir m" by (auto simp: packable_def local_path_def plain_seg_def)
    with True e show ?thesis by (auto simp: pack_entry_def walk_files_def)
  next
    case False
    with assms e have loc: "local_path relative" by (auto simp: packable_def)
    note safe = local_path_safe [OF loc]
    show ?thesis
      using assms safe
      by (cases w) (auto simp: e False packable_def pack_entry_def Let_def walk_files_def chosen_file_def extract_entry_def
           willing_def prog_bind_def prog_return_def prog_fail_def make_parent_def ask_def fs_wrap_def)
  qed
qed

lemma extract_loop_ends_well:
  assumes "\<forall>h \<in> set hs. \<exists>name. safe_name (th_name h) = Inr name \<and>
       (name \<noteq> [] \<longrightarrow> (\<forall>ops. \<exists>wrote. fst (extract_entry X name h ops) = Inr wrote))"
  shows "snd (fst (extract_loop X None None n hs ops)) = None"
  using assms
proof (induction hs arbitrary: n ops)
  case (Cons h hs)
  then obtain name where name: "safe_name (th_name h) = Inr name"
    and x: "name \<noteq> [] \<Longrightarrow> \<exists>wrote. fst (extract_entry X name h ops) = Inr wrote"
    by (metis list.set_intros(1))
  have rest: "snd (fst (extract_loop X None None n' hs ops')) = None" for n' ops' by (rule Cons.IH) (use Cons.prems in auto)
  show ?case
  proof (cases "name = []")
    case False
    with x obtain wrote ops' where "extract_entry X name h ops = (Inr wrote, ops')" by (metis prod.collapse)
    with name False rest show ?thesis by simp
  qed (use name rest in simp)
qed simp

lemma pack_loop_packable:
  assumes "list_all packable found"
  shows "\<exists>hs. pack_loop found = Inr hs \<and> concat (map (chosen_file None) hs) = walk_files found \<and>
    (\<forall>h \<in> set hs. \<exists>name. safe_name (th_name h) = Inr name \<and>
       (name \<noteq> [] \<longrightarrow> (\<forall>ops. \<exists>wrote. fst (extract_entry willing name h ops) = Inr wrote)))"
  using assms
proof (induction found)
  case (Cons e found)
  have e: "packable e" and es: "list_all packable found" using Cons.prems by simp_all
  from packed_entry [OF e] obtain hs where hs: "pack_entry e = Inr hs" "concat (map (chosen_file None) hs) = walk_files [e]"
      "\<forall>h \<in> set hs. \<exists>name. safe_name (th_name h) = Inr name \<and>
       (name \<noteq> [] \<longrightarrow> (\<forall>ops. \<exists>wrote. fst (extract_entry willing name h ops) = Inr wrote))"
    by (elim exE conjE)
  from Cons.IH [OF es] obtain rest where rest: "pack_loop found = Inr rest" "concat (map (chosen_file None) rest) = walk_files found"
      "\<forall>h \<in> set rest. \<exists>name. safe_name (th_name h) = Inr name \<and>
       (name \<noteq> [] \<longrightarrow> (\<forall>ops. \<exists>wrote. fst (extract_entry willing name h ops) = Inr wrote))"
    by (elim exE conjE)
  have "walk_files (e # found) = walk_files [e] @ walk_files found" by (simp add: walk_files_def)
  with hs(2) rest(2) have "concat (map (chosen_file None) (hs @ rest)) = walk_files (e # found)" by simp
  moreover have "pack_loop (e # found) = Inr (hs @ rest)" using hs(1) rest(1) by simp
  ultimately show ?case using hs(3) rest(3) by (intro exI [of _ "hs @ rest"] conjI) (simp_all add: ball_Un)
qed (simp add: walk_files_def)


definition walked_home :: "(string \<times> walked) list" where
  "walked_home = [(''.'', WDir 0x1ED), (''mail'', WDir 0x1ED), (''mail/bob'', WFile 0x180 ''hello'' None), (''www'', WLink ''mail'')]"


end
