(* ===== verification/Node_Identity.thy ===== *)
theory Node_Identity
  imports Node_Retention Baskets
begin

text \<open>
  Which customer a name means: \<open>internal/node/identity.go\<close>. A cPanel username is a label, the unix
  account behind it the identity. What cPanel and the operating system answer at a moment is a
  parameter (\<open>host\<close>); an operation reads the clock once here.
\<close>

section \<open>What the host answers\<close>

record account_info =
  ac_user :: string
  ac_home_dir :: string
  ac_databases :: "string list"
  ac_has_postgresql :: bool
  ac_size_bytes :: "64 word"
  ac_primary_domain :: string
  ac_missing :: bool

text \<open>\<open>user.Lookup\<close>: the uid as the system writes it, an unknown user, or another failure.\<close>

datatype user_lookup = UserFound string | UserUnknown | UserFailed err

record host =
  ho_lookup :: "string \<Rightarrow> user_lookup"
  ho_accounts :: "account_info list res"
  ho_account :: "string \<Rightarrow> account_info res"
  ho_native_excludes :: "string \<Rightarrow> string list"

definition account_uid :: "host \<Rightarrow> string \<Rightarrow> int res" where
  "account_uid H account =
     (case ho_lookup H account of
        UserUnknown \<Rightarrow> Inl (ErrWrap ''node: not here'' (ErrNoSuchAccount account))
      | UserFailed e \<Rightarrow> Inl (ErrWrap ''node: cannot look up on this server'' e)
      | UserFound uid \<Rightarrow>
          (case atoi uid of
             None \<Rightarrow> Inl (ErrMsg ''node: has an unreadable uid'' [account, uid])
           | Some n \<Rightarrow> Inr n))"

section \<open>Recording who holds a name\<close>

definition fresh_identity :: "string \<Rightarrow> int \<Rightarrow> instant \<Rightarrow> bool \<Rightarrow> account_identity" where
  "fresh_identity account uid since recycled =
     \<lparr>ai_account = account, ai_uid = uid, ai_since_at = since, ai_recycled = recycled, ai_retired_at = None,
      ai_last_seen = zero_time, ai_created_at = zero_time\<rparr>"

definition or_zero :: "instant \<Rightarrow> instant \<Rightarrow> instant" where
  "or_zero value fallback = (if is_zero value then fallback else value)"

definition store_identity :: "('db, 'x) engine \<Rightarrow> moment \<Rightarrow> account_identity \<Rightarrow> ('db, 'x, account_identity) eprog" where
  "store_identity E m a = on_store (put_identity (eg_store E) (mo_now m) a)"

text \<open>The settings the process holds.\<close>

definition held_settings :: "('db, 'x, settings) eprog" where
  "held_settings = (\<lambda>s. (Inr (es_settings s), s))"

definition note_found :: "('db, 'x) engine \<Rightarrow> moment \<Rightarrow> string \<Rightarrow> int \<Rightarrow> account_identity res \<Rightarrow> ('db, 'x, account_identity) eprog" where
  "note_found E m account uid found =
     (case found of
        Inl _ \<Rightarrow>
          prog_bind held_settings (\<lambda>st.
            store_identity E m (fresh_identity account uid (mo_now m) (st_identities_backfilled_at st \<noteq> None)))
      | Inr known \<Rightarrow>
          if ai_retired_at known \<noteq> None then
            store_identity E m ((fresh_identity account uid (mo_now m) True)\<lparr>ai_created_at := ai_created_at known\<rparr>)
          else if ai_uid known = uid then
            store_identity E m (known\<lparr>ai_since_at := or_zero (ai_since_at known) (mo_now m)\<rparr>)
          else
            store_identity E m ((fresh_identity account uid (mo_now m) True)\<lparr>ai_created_at := ai_created_at known\<rparr>))"

definition note_identity :: "('db, 'x) engine \<Rightarrow> host \<Rightarrow> moment \<Rightarrow> string \<Rightarrow> ('db, 'x, account_identity) eprog" where
  "note_identity E H m account =
     prog_bind (prog_lift (account_uid H account)) (\<lambda>uid.
     prog_bind (attempt (on_store (get_identity (eg_store E) account))) (note_found E m account uid))"

fun backfill_loop :: "('db, 'x) engine \<Rightarrow> host \<Rightarrow> moment \<Rightarrow> account_info list \<Rightarrow> ('db, 'x, unit) eprog" where
  "backfill_loop E H m [] = prog_return ()"
| "backfill_loop E H m (a # as) =
     prog_bind (attempt (on_store (get_identity (eg_store E) (ac_user a)))) (\<lambda>found.
       case found of
         Inr _ \<Rightarrow> backfill_loop E H m as
       | Inl _ \<Rightarrow>
           (case account_uid H (ac_user a) of
              Inl _ \<Rightarrow> backfill_loop E H m as
            | Inr uid \<Rightarrow>
                prog_bind (store_identity E m (fresh_identity (ac_user a) uid (mo_now m) False)) (\<lambda>_.
                  backfill_loop E H m as)))"

definition hold_settings :: "settings \<Rightarrow> ('db, 'x, unit) eprog" where
  "hold_settings st = (\<lambda>s. (Inr (), s\<lparr>es_settings := st\<rparr>))"

definition backfill_identities :: "('db, 'x) engine \<Rightarrow> host \<Rightarrow> moment \<Rightarrow> ('db, 'x, unit) eprog" where
  "backfill_identities E H m =
     prog_bind held_settings (\<lambda>st.
       if st_identities_backfilled_at st \<noteq> None then prog_return ()
       else prog_bind (prog_lift (ho_accounts H)) (\<lambda>accounts.
            prog_bind (backfill_loop E H m accounts) (\<lambda>_.
              let st = st\<lparr>st_identities_backfilled_at := Some (mo_now m)\<rparr> in
            prog_bind (on_store (save_settings (eg_store E) st)) (\<lambda>_. hold_settings st))))"

text \<open>A create event is a boundary at the time of the event.\<close>

definition account_created :: "('db, 'x) engine \<Rightarrow> host \<Rightarrow> moment \<Rightarrow> string \<Rightarrow> instant \<Rightarrow> ('db, 'x, unit) eprog" where
  "account_created E H m account at =
     (let at = (if is_zero at then mo_now m else at) in
      prog_bind (prog_lift (account_uid H account)) (\<lambda>uid.
      prog_bind (attempt (on_store (get_identity (eg_store E) account))) (\<lambda>found.
        case found of
          Inr previous \<Rightarrow>
            if ai_recycled previous \<and> \<not> ai_since_at previous < at then prog_return ()
            else prog_bind (store_identity E m
                   ((fresh_identity account uid at True)\<lparr>ai_created_at := ai_created_at previous\<rparr>)) (\<lambda>_. prog_return ())
        | Inl _ \<Rightarrow>
            prog_bind (store_identity E m (fresh_identity account uid at True)) (\<lambda>_. prog_return ()))))"

definition without_account :: "string \<Rightarrow> string list \<Rightarrow> string list" where
  "without_account account names = filter (\<lambda>n. n \<noteq> account) names"

fun removed_policies :: "('db, 'x) engine \<Rightarrow> moment \<Rightarrow> string \<Rightarrow> policy list \<Rightarrow> ('db, 'x, unit) eprog" where
  "removed_policies E m account [] = prog_return ()"
| "removed_policies E m account (p # ps) =
     (let kept = without_account account (po_accounts p) in
      if all_accounts p then removed_policies E m account ps
      else if length kept = length (po_accounts p) then removed_policies E m account ps
      else let p = p\<lparr>po_accounts := kept\<rparr>;
               p = (if length kept = 0 then p\<lparr>po_enabled := False\<rparr> else p)
           in prog_bind (on_store (put_policy (eg_store E) (mo_new_id m) (mo_now m) p)) (\<lambda>_.
                removed_policies E m account ps))"

definition account_removed :: "('db, 'x) engine \<Rightarrow> moment \<Rightarrow> string \<Rightarrow> ('db, 'x, unit) eprog" where
  "account_removed E m account =
     prog_bind (on_store (forget_baskets (eg_store E) account)) (\<lambda>_.
     prog_bind (attempt (on_store (get_identity (eg_store E) account))) (\<lambda>found.
     prog_bind
       (case found of
          Inr identity \<Rightarrow>
            if ai_retired_at identity = None
            then prog_bind (store_identity E m (identity\<lparr>ai_retired_at := Some (mo_now m)\<rparr>)) (\<lambda>_. prog_return ())
            else prog_return ()
        | Inl _ \<Rightarrow> prog_return ()) (\<lambda>_.
     prog_bind (on_store (policies (eg_store E))) (\<lambda>ps. removed_policies E m account ps))))"

definition rename_account :: "string \<Rightarrow> string \<Rightarrow> string list \<Rightarrow> string list" where
  "rename_account old new names = map (\<lambda>n. if n = old then new else n) names"

fun renamed_policies :: "('db, 'x) engine \<Rightarrow> moment \<Rightarrow> string \<Rightarrow> string \<Rightarrow> policy list \<Rightarrow> ('db, 'x, unit) eprog" where
  "renamed_policies E m old new [] = prog_return ()"
| "renamed_policies E m old new (p # ps) =
     (if list_ex (\<lambda>n. n = old) (po_accounts p) then
        prog_bind (on_store (put_policy (eg_store E) (mo_new_id m) (mo_now m)
          (p\<lparr>po_accounts := rename_account old new (po_accounts p)\<rparr>))) (\<lambda>_. renamed_policies E m old new ps)
      else renamed_policies E m old new ps)"

definition rename_policy_account :: "('db, 'x) engine \<Rightarrow> moment \<Rightarrow> string \<Rightarrow> string \<Rightarrow> ('db, 'x, unit) eprog" where
  "rename_policy_account E m old new =
     prog_bind (on_store (policies (eg_store E))) (\<lambda>ps. renamed_policies E m old new ps)"

section \<open>What the holder of a name may see\<close>

definition visible_since :: "('db, 'x) engine \<Rightarrow> string \<Rightarrow> ('db, 'x, instant) eprog" where
  "visible_since E account =
     prog_bind (attempt (on_store (get_identity (eg_store E) account))) (\<lambda>found.
       prog_return (case found of
         Inl _ \<Rightarrow> zero_time
       | Inr identity \<Rightarrow> if \<not> ai_recycled identity then zero_time else ai_since_at identity))"

definition account_since :: "('db, 'x) engine \<Rightarrow> string \<Rightarrow> ('db, 'x, instant) eprog" where
  "account_since E account =
     prog_bind (attempt (on_store (get_identity (eg_store E) account))) (\<lambda>found.
       prog_return (case found of Inl _ \<Rightarrow> zero_time | Inr identity \<Rightarrow> ai_since_at identity))"

definition belongs_to_current_holder :: "('db, 'x) engine \<Rightarrow> node_restore \<Rightarrow> ('db, 'x, bool) eprog" where
  "belongs_to_current_holder E r =
     prog_bind (attempt (on_store (get_identity (eg_store E) (re_account r)))) (\<lambda>found.
       prog_return (case found of
         Inl _ \<Rightarrow> True
       | Inr identity \<Rightarrow>
           if \<not> ai_recycled identity then True
           else if is_zero (re_account_since r) then ai_since_at identity < re_queued_at r
           else \<not> re_account_since r < ai_since_at identity))"

definition owned_by_caller :: "('db, 'x) engine \<Rightarrow> host \<Rightarrow> string \<Rightarrow> 32 word \<Rightarrow> ('db, 'x, instant) eprog" where
  "owned_by_caller E H account caller =
     prog_bind (prog_lift (account_uid H account)) (\<lambda>uid.
       if uid \<noteq> uint caller then prog_fail (ErrMsg ''node: the request came from another uid'' [account])
       else visible_since E account)"

fun not_before :: "instant \<Rightarrow> snapshot list \<Rightarrow> snapshot list" where
  "not_before since [] = []"
| "not_before since (s # ss) = (if sn_time s < since then not_before since ss else s # not_before since ss)"

definition user_snapshots :: "('db, 'x) engine \<Rightarrow> host \<Rightarrow> moment \<Rightarrow> string \<Rightarrow> string \<Rightarrow> ('db, 'x, snapshot list) eprog" where
  "user_snapshots E H m i account =
     prog_bind (note_identity E H m account) (\<lambda>_.
     prog_bind (engine_snapshots E i account) (\<lambda>ss.
     prog_bind (visible_since E account) (\<lambda>since.
       if is_zero since then prog_return ss else prog_return (not_before since ss))))"

definition owns_snapshot :: "('db, 'x) engine \<Rightarrow> host \<Rightarrow> moment \<Rightarrow> string \<Rightarrow> string \<Rightarrow> string \<Rightarrow> ('db, 'x, unit) eprog" where
  "owns_snapshot E H m i account snapshot_id =
     prog_bind (user_snapshots E H m i account) (\<lambda>ss.
       if list_ex (\<lambda>s. sn_id s = snapshot_id \<or> sn_short_id s = snapshot_id) ss then prog_return ()
       else prog_fail (ErrMsg ''node: that backup is not one of the account'' []))"


section \<open>A boundary between two holders of a name\<close>

definition identities_keyed :: "'db bolt \<Rightarrow> 'db \<Rightarrow> bool" where
  "identities_keyed B db \<longleftrightarrow> (\<forall>k a. bo_get B BIdentities k db = Some (DIdentity a) \<longrightarrow> ai_account a = k)"

definition bounded :: "instant \<Rightarrow> account_identity \<Rightarrow> bool" where
  "bounded t a \<longleftrightarrow> ai_recycled a \<and> t \<le> ai_since_at a"

text \<open>The record of the name says that what its holder may see begins at t or later.\<close>

definition boundary :: "('db, 'x) engine \<Rightarrow> string \<Rightarrow> instant \<Rightarrow> ('db, 'x) engine_state \<Rightarrow> bool" where
  "boundary E account t s \<longleftrightarrow> identities_keyed (eg_store E) (es_db s) \<and>
     (\<exists>a. bo_get (eg_store E) BIdentities account (es_db s) = Some (DIdentity a) \<and> bounded t a)"

named_theorems boundary_kept \<open>what keeps a boundary\<close>

lemma put_get_other:
  assumes "bolt_store B" "b' \<noteq> b"
  shows "bo_get B b' k (snd (s_put B b key d s)) = bo_get B b' k s"
proof (cases "s_put B b key d s")
  case (Pair r s')
  then show ?thesis
    using bolt_store.put_get [OF assms(1), of b key d s _ s' b' k] assms(2) s_put_Inl [of B b key d s _ s']
    by (cases r) auto
qed

lemma maintains_boundary_store:
  assumes "\<And>k db. bo_get (eg_store E) BIdentities k (snd (m db)) = bo_get (eg_store E) BIdentities k db"
  shows "maintains (boundary E account t) (on_store m)"
  using assms by (simp add: maintains_def boundary_def identities_keyed_def on_store_def split: prod.splits) (metis snd_conv)

lemma s_put_return_snd: "snd (prog_bind (s_put B b k d) (\<lambda>_. prog_return x) s) = snd (s_put B b k d s)"
  by (auto simp: prog_bind_def split: prod.splits sum.splits)

lemma forget_baskets_identities:
  assumes "bolt_store B"
  shows "bo_get B BIdentities k (snd (forget_baskets B n db)) = bo_get B BIdentities k db"
proof (cases "forget_baskets B n db")
  case (Pair r db')
  show ?thesis
  proof (cases r)
    case (Inl e)
    with Pair show ?thesis by (auto simp: forget_baskets_def dest: db_update_Inl)
  next
    case (Inr u)
    with Pair have "delete_baskets_of B n db = (Inr (), db')" by (simp add: forget_baskets_def)
    with Pair bolt_store.delete_baskets_get [OF assms this] show ?thesis by simp
  qed
qed

lemma boundary_kept_store [boundary_kept]:
  assumes "bolt_store (eg_store E)"
  shows "maintains (boundary E account t) (on_store (put_policy (eg_store E) i now p) :: ('db, 'x, policy) eprog)"
    "maintains (boundary E account t) (on_store (save_settings (eg_store E) st) :: ('db, 'x, unit) eprog)"
    "maintains (boundary E account t) (on_store (forget_baskets (eg_store E) n) :: ('db, 'x, unit) eprog)"
proof -
  note other = put_get_other [OF assms]
  show "maintains (boundary E account t) (on_store (put_policy (eg_store E) i now p) :: ('db, 'x, policy) eprog)"
    by (rule maintains_boundary_store) (simp add: put_policy_def Let_def s_put_return_snd other)
  show "maintains (boundary E account t) (on_store (save_settings (eg_store E) st) :: ('db, 'x, unit) eprog)"
    by (rule maintains_boundary_store) (simp add: save_settings_def other)
  show "maintains (boundary E account t) (on_store (forget_baskets (eg_store E) n) :: ('db, 'x, unit) eprog)"
    by (rule maintains_boundary_store) (rule forget_baskets_identities [OF assms])
qed

lemma put_identity_result:
  assumes "bolt_store B" "put_identity B now a s = (r, s')"
  shows "(\<exists>e. r = Inl e) \<and> s' = s \<or>
    (\<exists>a'. r = Inr a' \<and> ai_account a' = ai_account a \<and> ai_recycled a' = ai_recycled a \<and> ai_since_at a' = ai_since_at a \<and>
       ai_retired_at a' = ai_retired_at a \<and> ai_uid a' = ai_uid a \<and>
       (\<forall>b k. bo_get B b k s' = (if b = BIdentities \<and> k = ai_account a then Some (DIdentity a') else bo_get B b k s)))"
proof -
  define a' where "a' = (if is_zero (ai_created_at a) then a\<lparr>ai_created_at := now\<rparr> else a)\<lparr>ai_last_seen := now\<rparr>"
  have same: "ai_account a' = ai_account a" "ai_recycled a' = ai_recycled a" "ai_since_at a' = ai_since_at a"
      "ai_retired_at a' = ai_retired_at a" "ai_uid a' = ai_uid a"
    by (simp_all add: a'_def)
  have put: "prog_bind (s_put B BIdentities (ai_account a) (DIdentity a')) (\<lambda>_. prog_return a') s = (r, s')"
    using assms(2) same(1) by (simp add: put_identity_def a'_def Let_def)
  show ?thesis
  proof (cases r)
    case (Inl e)
    then show ?thesis using put by (auto simp: prog_bind_def dest: s_put_Inl split: prod.splits sum.splits)
  next
    case (Inr x)
    with put have "s_put B BIdentities (ai_account a) (DIdentity a') s = (Inr (), s')" "x = a'"
      by (auto simp: prog_bind_eq_Inr)
    with bolt_store.put_get [OF assms(1)] Inr same show ?thesis by blast
  qed
qed

lemma store_identity_result:
  assumes "bolt_store (eg_store E)" "store_identity E m a s = (r, s')"
  shows "(\<exists>e. r = Inl e) \<and> s' = s \<or>
    (\<exists>a'. r = Inr a' \<and> ai_account a' = ai_account a \<and> ai_recycled a' = ai_recycled a \<and> ai_since_at a' = ai_since_at a \<and>
       ai_retired_at a' = ai_retired_at a \<and> ai_uid a' = ai_uid a \<and> s' = s\<lparr>es_db := es_db s'\<rparr> \<and>
       (\<forall>b k. bo_get (eg_store E) b k (es_db s') =
          (if b = BIdentities \<and> k = ai_account a then Some (DIdentity a') else bo_get (eg_store E) b k (es_db s))))"
proof -
  obtain rr db where run: "put_identity (eg_store E) (mo_now m) a (es_db s) = (rr, db)" by force
  with assms(2) have "r = rr" "s' = s\<lparr>es_db := db\<rparr>" by (auto simp: store_identity_def on_store_def)
  with put_identity_result [OF assms(1) run] show ?thesis by auto
qed

lemma boundary_kept_identity:
  assumes "bolt_store (eg_store E)" "ai_account a \<noteq> account \<or> bounded t a"
  shows "maintains (boundary E account t) (store_identity E m a)"
  unfolding maintains_def
proof (intro allI impI)
  fix s assume b: "boundary E account t s"
  obtain r s' where run: "store_identity E m a s = (r, s')" by force
  from store_identity_result [OF assms(1) run] show "boundary E account t (snd (store_identity E m a s))"
  proof (elim disjE conjE exE)
    fix a' assume a': "ai_account a' = ai_account a" "ai_recycled a' = ai_recycled a" "ai_since_at a' = ai_since_at a"
      "ai_retired_at a' = ai_retired_at a"
      and "\<forall>b k. bo_get (eg_store E) b k (es_db s') =
          (if b = BIdentities \<and> k = ai_account a then Some (DIdentity a') else bo_get (eg_store E) b k (es_db s))"
    then have get: "bo_get (eg_store E) BIdentities k (es_db s') =
        (if k = ai_account a then Some (DIdentity a') else bo_get (eg_store E) BIdentities k (es_db s))" for k
      by (metis (full_types))
    from a' have "bounded t a' \<longleftrightarrow> bounded t a" by (simp add: bounded_def)
    with b assms(2) a'(1) run show ?thesis by (auto simp: boundary_def identities_keyed_def get)
  qed (use b run in simp)
qed

lemma reads_only_identity [commands]:
  "reads_only (attempt (on_store (get_identity B n)) :: ('db, 'x, account_identity res) eprog)"
  "reads_only (held_settings :: ('db, 'x, settings) eprog)" "reads_only (on_store (policies B) :: ('db, 'x, policy list) eprog)"
  by (auto simp: held_settings_def reads_only_def intro!: reads_only_attempt [unfolded reads_only_def] reads_only_store [unfolded reads_only_def])

lemma get_identity_found:
  "attempt (on_store (get_identity B n)) s = (Inr (Inr a), s') \<longleftrightarrow>
     s' = s \<and> bo_get B BIdentities n (es_db s) = Some (DIdentity a)"
  by (auto simp: attempt_def on_store_def get_identity_def s_get_def split: option.splits)

lemma look_up:
  "attempt (on_store (get_identity B n)) s = (Inr (fst (get_identity B n (es_db s))), s)"
  by (cases "get_identity B n (es_db s)") (use snd_reading(4) [of B n "es_db s"] in \<open>auto simp: attempt_def on_store_def\<close>)

lemma get_identity_Inr: "fst (get_identity B n db) = Inr a \<longleftrightarrow> bo_get B BIdentities n db = Some (DIdentity a)"
  by (auto simp: get_identity_def s_get_def split: option.splits)

text \<open>A step that begins by looking the name up may use what it found.\<close>

lemma maintains_lookup:
  assumes "\<And>s. P s \<Longrightarrow> P (snd (f (fst (get_identity B n (es_db s))) s))"
  shows "maintains P (prog_bind (attempt (on_store (get_identity B n))) f)"
  using assms by (simp add: maintains_def look_up)

lemma boundary_lookup:
  assumes "boundary E account t s"
  shows "n = account \<Longrightarrow> \<exists>a. fst (get_identity (eg_store E) n (es_db s)) = Inr a \<and> ai_account a = n \<and> bounded t a"
    "fst (get_identity (eg_store E) n (es_db s)) = Inr a \<Longrightarrow> ai_account a = n"
  using assms by (auto simp: boundary_def identities_keyed_def get_identity_Inr)

lemma boundary_kept_note [boundary_kept]:
  assumes "bolt_store (eg_store E)" "t \<le> mo_now m"
  shows "maintains (boundary E account t) (note_identity E H m n)"
  unfolding note_identity_def
proof (rule maintains_bind [OF maintains_basic(3) maintains_lookup])
  fix uid s assume b: "boundary E account t s"
  note keep = boundary_kept_identity [OF assms(1), unfolded maintains_def, rule_format, OF _ b]
  show "boundary E account t (snd (note_found E m n uid (fst (get_identity (eg_store E) n (es_db s))) s))"
  proof (cases "fst (get_identity (eg_store E) n (es_db s))")
    case (Inl e)
    then have "n \<noteq> account" using boundary_lookup(1) [OF b] by auto
    with Inl show ?thesis
      by (auto simp: note_found_def held_settings_def prog_bind_def fresh_identity_def intro!: keep)
  next
    case (Inr a)
    then have "ai_account a = n" "n = account \<Longrightarrow> bounded t a" using boundary_lookup [OF b] by auto
    with Inr assms(2) show ?thesis
      by (auto simp: note_found_def fresh_identity_def bounded_def or_zero_def intro!: keep)
  qed
qed


lemma boundary_kept_created [boundary_kept]:
  assumes "bolt_store (eg_store E)"
  shows "maintains (boundary E account t) (account_created E H m n at)"
  unfolding account_created_def Let_def
proof (rule maintains_bind [OF maintains_basic(3) maintains_lookup])
  fix uid s assume b: "boundary E account t s"
  let ?at = "if is_zero at then mo_now m else at"
  have keep: "ai_account a \<noteq> account \<or> bounded t a \<Longrightarrow>
      boundary E account t (snd (prog_bind (store_identity E m a) (\<lambda>_. prog_return ()) s))" for a
    using maintains_bind [OF boundary_kept_identity [OF assms(1), of a account t m] maintains_basic(1) [of _ "()"]] b
    by (simp add: maintains_def)
  show "boundary E account t (snd ((case fst (get_identity (eg_store E) n (es_db s)) of
          Inl _ \<Rightarrow> prog_bind (store_identity E m (fresh_identity n uid ?at True)) (\<lambda>_. prog_return ())
        | Inr previous \<Rightarrow>
            if ai_recycled previous \<and> \<not> ai_since_at previous < ?at then prog_return ()
            else prog_bind (store_identity E m
                   ((fresh_identity n uid ?at True)\<lparr>ai_created_at := ai_created_at previous\<rparr>)) (\<lambda>_. prog_return ())) s))"
  proof (cases "n = account")
    case True
    then obtain a where "fst (get_identity (eg_store E) n (es_db s)) = Inr a" "bounded t a"
      using boundary_lookup(1) [OF b] by blast
    then show ?thesis using b by (auto simp: fresh_identity_def bounded_def intro!: keep)
  next
    case False
    then show ?thesis using b by (auto simp: fresh_identity_def split: sum.splits intro!: keep)
  qed
qed

lemma maintains_pair: "maintains P (Pair r)"
  by (simp add: maintains_def)

lemma boundary_kept_backfill_loop:
  assumes "bolt_store (eg_store E)"
  shows "maintains (boundary E account t) (backfill_loop E H m as)"
proof (induction as)
  case (Cons a as)
  show ?case
    unfolding backfill_loop.simps
  proof (rule maintains_lookup)
    fix s assume b: "boundary E account t s"
    show "boundary E account t (snd ((case fst (get_identity (eg_store E) (ac_user a) (es_db s)) of
         Inl _ \<Rightarrow>
           (case account_uid H (ac_user a) of
              Inl _ \<Rightarrow> backfill_loop E H m as
            | Inr uid \<Rightarrow>
                prog_bind (store_identity E m (fresh_identity (ac_user a) uid (mo_now m) False)) (\<lambda>_.
                  backfill_loop E H m as))
       | Inr _ \<Rightarrow> backfill_loop E H m as) s))"
    proof (cases "fst (get_identity (eg_store E) (ac_user a) (es_db s))")
      case (Inl e)
      then have other: "ac_user a \<noteq> account" using boundary_lookup(1) [OF b] by auto
      have "maintains (boundary E account t) (prog_bind (store_identity E m (fresh_identity (ac_user a) uid (mo_now m) False))
          (\<lambda>_. backfill_loop E H m as))" for uid
        by (rule maintains_bind [OF boundary_kept_identity [OF assms] Cons.IH]) (simp add: fresh_identity_def other)
      with Inl b Cons.IH show ?thesis by (auto simp: maintains_def split: sum.splits)
    qed (use Cons.IH b in \<open>simp add: maintains_def\<close>)
  qed
qed (simp add: maintains_pair)

lemma boundary_kept_settings [boundary_kept]:
  "maintains (boundary E account t) held_settings" "maintains (boundary E account t) (hold_settings st)"
  by (simp_all add: maintains_def held_settings_def hold_settings_def boundary_def)

lemma boundary_kept_backfill [boundary_kept]:
  assumes "bolt_store (eg_store E)"
  shows "maintains (boundary E account t) (backfill_identities E H m)"
  unfolding backfill_identities_def Let_def
  by (intro maintains_bind maintains_if maintains_basic boundary_kept_settings boundary_kept_backfill_loop
      boundary_kept_store assms)

lemma boundary_kept_policies [boundary_kept]:
  assumes "bolt_store (eg_store E)"
  shows "maintains (boundary E account t) (removed_policies E m n ps)"
    "maintains (boundary E account t) (renamed_policies E m old new ps)"
    "maintains (boundary E account t) (rename_policy_account E m old new)"
proof -
  show "maintains (boundary E account t) (removed_policies E m n ps)"
    by (induction ps) (auto simp: Let_def maintains_pair intro!: maintains_bind boundary_kept_store assms)
  show r: "maintains (boundary E account t) (renamed_policies E m old new ps)" for ps
    by (induction ps) (auto simp: maintains_pair intro!: maintains_bind boundary_kept_store assms)
  show "maintains (boundary E account t) (rename_policy_account E m old new)"
    unfolding rename_policy_account_def by (intro maintains_bind maintains_reads reads_only_identity r)
qed

lemma boundary_kept_removed [boundary_kept]:
  assumes "bolt_store (eg_store E)"
  shows "maintains (boundary E account t) (account_removed E m n)"
  unfolding account_removed_def
proof (rule maintains_bind [OF boundary_kept_store(3) [OF assms] maintains_lookup])
  fix s assume b: "boundary E account t s"
  let ?retire = "case fst (get_identity (eg_store E) n (es_db s)) of
      Inr identity \<Rightarrow>
        if ai_retired_at identity = None
        then prog_bind (store_identity E m (identity\<lparr>ai_retired_at := Some (mo_now m)\<rparr>)) (\<lambda>_. prog_return ())
        else prog_return ()
    | Inl _ \<Rightarrow> prog_return ()"
  have "ai_account a \<noteq> account \<or> bounded t (a\<lparr>ai_retired_at := r\<rparr>)"
    if "fst (get_identity (eg_store E) n (es_db s)) = Inr a" for a r
    using boundary_lookup [OF b, of n] that by (auto simp: bounded_def)
  then have "maintains (boundary E account t) ?retire"
    by (auto simp: maintains_basic split: sum.splits intro!: maintains_bind boundary_kept_identity [OF assms])
  then have "maintains (boundary E account t) (prog_bind ?retire (\<lambda>_.
      prog_bind (on_store (policies (eg_store E))) (\<lambda>ps. removed_policies E m n ps)))"
    by (rule maintains_bind [OF _ maintains_bind [OF maintains_reads [OF reads_only_identity(3)]
          boundary_kept_policies(1) [OF assms]]])
  with b show "boundary E account t (snd (prog_bind ?retire (\<lambda>_.
      prog_bind (on_store (policies (eg_store E))) (\<lambda>ps. removed_policies E m n ps)) s))"
    by (simp add: maintains_def)
qed


section \<open>What a boundary hides\<close>

lemma on_restic_db [simp]: "es_db (snd (on_restic m s)) = es_db s"
  by (simp add: on_restic_def split: prod.splits)

definition same_db :: "('db, 'x, 'a) eprog \<Rightarrow> bool" where
  "same_db m \<longleftrightarrow> (\<forall>s. es_db (snd (m s)) = es_db s)"

lemma same_db_bind: "same_db m \<Longrightarrow> (\<And>a. same_db (f a)) \<Longrightarrow> same_db (prog_bind m f)"
  unfolding same_db_def
proof
  fix s assume "\<forall>s. es_db (snd (m s)) = es_db s" "\<And>a. \<forall>s. es_db (snd (f a s)) = es_db s"
  then show "es_db (snd (prog_bind m f s)) = es_db s"
    by (cases "m s"; cases "fst (m s)") (auto simp: prog_bind_def, (metis snd_conv)+)
qed

lemma same_db_basic: "same_db (prog_return a)" "same_db (on_restic m)"
  by (simp_all add: same_db_def)

lemma same_db_reads: "reads_only m \<Longrightarrow> same_db m"
  by (simp add: same_db_def reads_only_def)

lemma engine_snapshots_db: "same_db (engine_snapshots E i n)"
  unfolding engine_snapshots_def
  by (rule same_db_bind [OF same_db_reads [OF reads_only_open_repository]],
      rule same_db_bind [OF same_db_basic(2)],
      rule same_db_bind [OF same_db_reads [OF reads_only_engine(2)] same_db_basic(1)])

lemma note_identity_bounds:
  assumes "bolt_store (eg_store E)" "boundary E account t s" "t \<le> mo_now m"
    and "note_identity E H m account s = (Inr a, s')"
  shows "bo_get (eg_store E) BIdentities account (es_db s') = Some (DIdentity a)"
    "ai_retired_at a = None" "ai_recycled a" "t \<le> ai_since_at a"
proof -
  from boundary_lookup(1) [OF assms(2)] obtain k where
    k: "fst (get_identity (eg_store E) account (es_db s)) = Inr k" "ai_account k = account" "bounded t k" by blast
  from assms(4) obtain uid where run: "note_found E m account uid (Inr k) s = (Inr a, s')"
    by (auto simp: note_identity_def prog_bind_eq_Inr look_up k(1))
  then obtain b where b: "store_identity E m b s = (Inr a, s')"
    "ai_account b = account" "ai_retired_at b = None" "ai_recycled b" "t \<le> ai_since_at b"
    using k assms(3) by (auto simp: note_found_def fresh_identity_def bounded_def or_zero_def split: if_splits)
  with store_identity_result [OF assms(1) b(1)]
  show "bo_get (eg_store E) BIdentities account (es_db s') = Some (DIdentity a)"
    "ai_retired_at a = None" "ai_recycled a" "t \<le> ai_since_at a" by auto
qed

lemma not_before_iff: "s \<in> set (not_before since ss) \<longleftrightarrow> s \<in> set ss \<and> since \<le> sn_time s"
  by (induction ss) auto

lemma user_snapshots_bounded:
  assumes "bolt_store (eg_store E)" "boundary E account t s" "t \<le> mo_now m" "zero_time < t"
    and "user_snapshots E H m i account s = (Inr ss, s')" "x \<in> set ss"
  shows "t \<le> sn_time x"
proof -
  from assms(5) obtain a s1 all s2 where run: "note_identity E H m account s = (Inr a, s1)"
      "engine_snapshots E i account s1 = (Inr all, s2)"
      "prog_bind (visible_since E account) (\<lambda>since.
         if is_zero since then prog_return all else prog_return (not_before since all)) s2 = (Inr ss, s')"
    by (auto simp: user_snapshots_def prog_bind_eq_Inr)
  note a = note_identity_bounds [OF assms(1-3) run(1)]
  have "es_db s2 = es_db s1" using engine_snapshots_db run(2) by (metis same_db_def snd_conv)
  with a have "fst (get_identity (eg_store E) account (es_db s2)) = Inr a" by (simp add: get_identity_Inr)
  then have "visible_since E account s2 = (Inr (ai_since_at a), s2)"
    using a(3) by (simp add: visible_since_def look_up)
  with run(3) a(4) assms(4,6) show ?thesis
    by (auto simp: is_zero_def not_before_iff split: if_splits)
qed

lemma account_created_bounds:
  assumes "bolt_store (eg_store E)" "identities_keyed (eg_store E) (es_db s)" "account_created E H m account at s = (Inr (), s')"
    and "t \<le> (if is_zero at then mo_now m else at)"
  shows "boundary E account t s'"
proof -
  let ?at = "if is_zero at then mo_now m else at"
  from assms(3) obtain uid where run: "(case fst (get_identity (eg_store E) account (es_db s)) of
          Inr previous \<Rightarrow>
            if ai_recycled previous \<and> \<not> ai_since_at previous < ?at then prog_return ()
            else prog_bind (store_identity E m
                   ((fresh_identity account uid ?at True)\<lparr>ai_created_at := ai_created_at previous\<rparr>)) (\<lambda>_. prog_return ())
        | Inl _ \<Rightarrow>
            prog_bind (store_identity E m (fresh_identity account uid ?at True)) (\<lambda>_. prog_return ())) s = (Inr (), s')"
    by (auto simp: account_created_def Let_def prog_bind_eq_Inr look_up)
  have new: "boundary E account t s'" if "store_identity E m a s = (Inr b, s')" "ai_account a = account" "bounded t a" for a b
  proof -
    from store_identity_result [OF assms(1) that(1)] that(2,3)
    have "bounded t b" "ai_account b = account" and
      get: "bo_get (eg_store E) BIdentities k (es_db s') =
        (if k = account then Some (DIdentity b) else bo_get (eg_store E) BIdentities k (es_db s))" for k
      by (auto simp: bounded_def)
    with assms(2) show ?thesis by (auto simp: boundary_def identities_keyed_def get)
  qed
  show ?thesis
  proof (cases "fst (get_identity (eg_store E) account (es_db s))")
    case (Inl e)
    with run assms(4) show ?thesis by (auto simp: prog_bind_eq_Inr fresh_identity_def bounded_def intro!: new)
  next
    case (Inr p)
    then have get: "bo_get (eg_store E) BIdentities account (es_db s) = Some (DIdentity p)" by (simp add: get_identity_Inr)
    show ?thesis
    proof (cases "ai_recycled p \<and> \<not> ai_since_at p < ?at")
      case True
      with run Inr get assms(2,4) show ?thesis by (auto simp: boundary_def bounded_def)
    next
      case False
      with run Inr assms(4) show ?thesis by (auto simp: prog_bind_eq_Inr fresh_identity_def bounded_def intro!: new)
    qed
  qed
qed

end
