(* ===== verification/Node_Queue.thy ===== *)
theory Node_Queue
  imports Node_Identity Node_Removal
begin

text \<open>
  Asking for work: the queueing functions of \<open>internal/node/run.go\<close> and \<open>identity.go\<close>. The lock that
  makes the check for unfinished work and the insertion one operation makes each of these
  functions one step.
\<close>

section \<open>Backups\<close>

definition system_account :: string where "system_account = ''@system''"

definition queue_backup :: "('db, 'x) engine \<Rightarrow> moment \<Rightarrow> string \<Rightarrow> string \<Rightarrow> ('db, 'x, node_job) eprog" where
  "queue_backup E m policy_id account =
     prog_bind (on_store (running_job_for (eg_store E) account)) (\<lambda>running.
       if running then prog_fail (ErrMsg ''node: account already has work in flight'' [account])
       else on_store (put_job (eg_store E) (mo_new_id m) (mo_now m) (queued_job policy_id account)))"

definition queue_coverage_repair :: "('db, 'x) engine \<Rightarrow> moment \<Rightarrow> string \<Rightarrow> string \<Rightarrow> ('db, 'x, node_job) eprog" where
  "queue_coverage_repair E m policy_id account =
     prog_bind (on_store (get_policy (eg_store E) policy_id)) (\<lambda>p.
       if \<not> po_enabled p \<or> length (po_repository_ids p) = 0
       then prog_fail (ErrMsg ''node: that schedule is not enabled with a destination'' [])
       else if \<not> (all_accounts p \<or> list_ex (\<lambda>selected. selected = account) (po_accounts p))
       then prog_fail (ErrMsg ''node: schedule does not cover'' [po_name p, account])
       else queue_backup E m (po_id p) account)"

text \<open>The schedule of all accounts a new account is first backed up by.\<close>

definition takes_everything :: "policy \<Rightarrow> bool" where
  "takes_everything p \<longleftrightarrow> \<not> po_skip_homedir p \<and> \<not> po_skip_databases p \<and> \<not> po_skip_email p"

fun initial_loop :: "policy list \<Rightarrow> policy option \<Rightarrow> bool \<Rightarrow> policy option" where
  "initial_loop [] selected selected_full = selected"
| "initial_loop (p # ps) selected selected_full =
     (if \<not> po_enabled p \<or> \<not> all_accounts p \<or> length (po_repository_ids p) = 0 then initial_loop ps selected selected_full
      else let full = takes_everything p in
        if (case selected of
              None \<Rightarrow> True
            | Some q \<Rightarrow> full \<and> \<not> selected_full
                \<or> full = selected_full \<and> length (po_repository_ids p) > length (po_repository_ids q))
        then initial_loop ps (Some p) full
        else initial_loop ps selected selected_full)"

definition queue_initial_backup :: "('db, 'x) engine \<Rightarrow> moment \<Rightarrow> string \<Rightarrow> ('db, 'x, bool) eprog" where
  "queue_initial_backup E m account =
     prog_bind (on_store (running_job_for (eg_store E) account)) (\<lambda>running.
       if running then prog_return False
       else prog_bind (on_store (policies (eg_store E))) (\<lambda>ps.
         case initial_loop ps None False of
           None \<Rightarrow> prog_return False
         | Some selected \<Rightarrow> prog_bind (queue_backup E m (po_id selected) account) (\<lambda>_. prog_return True)))"

section \<open>A backup at suspension\<close>

record suspension_backup =
  su_enabled :: bool
  su_queued :: bool
  su_busy :: bool
  su_policies :: "policy list"

definition suspension_wanted :: "policy list \<Rightarrow> string list" where
  "suspension_wanted candidates = remdups (concat (map po_repository_ids candidates))"

definition queue_suspension_backup :: "('db, 'x) engine \<Rightarrow> (nat list \<Rightarrow> string list) \<Rightarrow> (nat \<Rightarrow> string) \<Rightarrow> instant \<Rightarrow> string \<Rightarrow>
    ('db, 'x, suspension_backup) eprog" where
  "queue_suspension_backup E ord new_id clock account =
     prog_bind (on_store (get_settings (eg_store E))) (\<lambda>st.
       if \<not> st_backup_on_suspension st
       then prog_return \<lparr>su_enabled = False, su_queued = False, su_busy = False, su_policies = []\<rparr>
       else prog_bind (on_store (policies (eg_store E))) (\<lambda>ps.
         let candidates = filter (\<lambda>p. full_account_policy p account) ps;
             selected = minimum_policy_cover ord (suspension_wanted candidates) candidates;
             result = \<lparr>su_enabled = True, su_queued = False, su_busy = False, su_policies = selected\<rparr>
         in if length selected = 0 then prog_return result
            else prog_bind (on_store (running_job_for (eg_store E) account)) (\<lambda>busy.
              if busy then prog_return (result\<lparr>su_busy := True\<rparr>)
              else prog_bind (on_store (put_jobs (eg_store E) new_id clock (map (\<lambda>p. queued_job (po_id p) account) selected)))
                     (\<lambda>_. prog_return (result\<lparr>su_queued := True\<rparr>)))))"

section \<open>Restores\<close>

definition kind_account :: string where "kind_account = ''account''"
definition kind_files :: string where "kind_files = ''files''"
definition kind_items :: string where "kind_items = ''items''"
definition kind_verify :: string where "kind_verify = ''verify''"

text \<open>\<open>granular.Kind.CanApply\<close>: the parts of an account that can be written back into it.\<close>

definition can_apply :: "string \<Rightarrow> bool" where
  "can_apply k \<longleftrightarrow> k = ''files'' \<or> k = ''website'' \<or> k = ''mailbox'' \<or> k = ''database'' \<or> k = ''dbusers'' \<or> k = ''cron''"

fun check_apply_parts :: "selection list \<Rightarrow> unit res" where
  "check_apply_parts [] = Inr ()"
| "check_apply_parts (x # xs) =
     (if \<not> can_apply (se_kind x)
      then Inl (ErrMsg ''node: a restore of this kind cannot be written into the live account'' [se_kind x])
      else check_apply_parts xs)"

definition check_restore :: "node_restore \<Rightarrow> unit res" where
  "check_restore r =
     (if re_kind r = kind_files \<and> length (re_include_paths r) = 0
      then Inl (ErrMsg ''node: a files restore needs at least one path'' [])
      else if re_apply r then
        if re_kind r = kind_account then Inr ()
        else if re_kind r = kind_items then check_apply_parts (selections r)
        else Inl (ErrMsg ''node: only a whole-account restore can be applied'' [])
      else Inr ())"

definition put_if_idle :: "('db, 'x) engine \<Rightarrow> moment \<Rightarrow> node_restore \<Rightarrow> ('db, 'x, node_restore) eprog" where
  "put_if_idle E m r =
     prog_bind (on_store (running_job_for (eg_store E) (re_account r))) (\<lambda>running.
       if running then prog_fail (ErrMsg ''node: account already has work in flight'' [re_account r])
       else on_store (put_restore (eg_store E) (mo_new_id m) (mo_now m) r))"

definition queue_restore :: "('db, 'x) engine \<Rightarrow> moment \<Rightarrow> node_restore \<Rightarrow> ('db, 'x, node_restore) eprog" where
  "queue_restore E m r =
     (if re_snapshot_id r = [] then prog_fail (ErrMsg ''node: restore needs a snapshot'' [])
      else prog_bind (if is_zero (re_account_since r) then account_since E (re_account r)
                      else prog_return (re_account_since r)) (\<lambda>since.
        let r = r\<lparr>re_account_since := since\<rparr>;
            r = (if re_kind r = [] then r\<lparr>re_kind := kind_account\<rparr> else r)
        in if re_kind r = kind_verify then put_if_idle E m r
           else prog_bind (prog_lift (check_restore r)) (\<lambda>_. put_if_idle E m r)))"


section \<open>Nothing is queued beside unfinished work\<close>

definition idle :: "'db bolt \<Rightarrow> string \<Rightarrow> 'db \<Rightarrow> bool" where
  "idle B account db \<longleftrightarrow>
     (\<forall>j. stored B BJobs as_job j db \<and> jb_account j = account \<longrightarrow> terminal (jb_status j)) \<and>
     (\<forall>r. stored B BRestores as_restore r db \<and> re_account r = account \<longrightarrow> terminal (re_status r))"

lemma put_get_fail: "s_put B b k d s = (Inl e, t) \<Longrightarrow> t = s"
  by (rule s_put_Inl)

lemma idle_gate:
  assumes "bolt_store (eg_store E)"
    and "prog_bind (on_store (running_job_for (eg_store E) account)) (\<lambda>running. if running then prog_fail e else m) s = (r, s')"
  shows "(\<exists>e. r = Inl e) \<and> s' = s \<or> idle (eg_store E) account (es_db s) \<and> m s = (r, s')"
proof -
  obtain rr where look: "on_store (running_job_for (eg_store E) account) s = (rr, s)"
    "running_job_for (eg_store E) account (es_db s) = (rr, es_db s)"
    using snd_reading(3) [of "eg_store E" account "es_db s"]
    by (cases "running_job_for (eg_store E) account (es_db s)") (auto simp: on_store_def)
  show ?thesis
  proof (cases rr)
    case (Inr running)
    with look assms(2) idle_account [OF assms(1), of account "es_db s" "es_db s"] show ?thesis
      by (cases running) (auto simp: idle_def)
  qed (use look assms(2) in auto)
qed

lemma on_store_put:
  assumes "bolt_store B" "on_store (prog_bind (s_put B b k d) (\<lambda>_. prog_return x)) s = (r, s')"
  shows "(\<exists>e. r = Inl e) \<and> s' = s \<or>
    r = Inr x \<and> s' = s\<lparr>es_db := es_db s'\<rparr> \<and>
      (\<forall>b' k'. bo_get B b' k' (es_db s') = (if b' = b \<and> k' = k then Some d else bo_get B b' k' (es_db s)))"
proof (cases "s_put B b k d (es_db s)")
  case (Pair rr db)
  then show ?thesis
    using assms(2) bolt_store.put_get [OF assms(1), of b k d "es_db s" _ db] put_get_fail [of B b k d "es_db s" _ db]
    by (cases rr) (auto simp: on_store_def)
qed

definition asks_safely :: "node_restore \<Rightarrow> bool" where
  "asks_safely r \<longleftrightarrow> re_snapshot_id r \<noteq> [] \<and> (re_kind r = kind_files \<longrightarrow> re_include_paths r \<noteq> []) \<and>
     (re_apply r \<and> re_kind r \<noteq> kind_verify \<longrightarrow> re_kind r = kind_account \<or>
        re_kind r = kind_items \<and> (\<forall>x \<in> set (selections r). can_apply (se_kind x)))"

lemma check_apply_parts_Inr: "check_apply_parts xs = Inr u \<longleftrightarrow> (\<forall>x \<in> set xs. can_apply (se_kind x))"
  by (induction xs) auto

lemma put_if_idle_result:
  assumes "bolt_store (eg_store E)" "re_id r = []" "re_status r = no_status" "put_if_idle E m r s = (res, s')"
  shows "(\<exists>e. res = Inl e) \<and> s' = s \<or>
    (\<exists>q. res = Inr q \<and> idle (eg_store E) (re_account r) (es_db s) \<and> s' = s\<lparr>es_db := es_db s'\<rparr> \<and>
       q = r\<lparr>re_id := mo_new_id m, re_queued_at := mo_now m, re_status := StatusPending\<rparr> \<and>
       (\<forall>b k. bo_get (eg_store E) b k (es_db s') =
          (if b = BRestores \<and> k = re_id q then Some (DRestore q) else bo_get (eg_store E) b k (es_db s))))"
proof -
  let ?q = "r\<lparr>re_id := mo_new_id m, re_queued_at := mo_now m, re_status := StatusPending\<rparr>"
  have put: "put_restore (eg_store E) (mo_new_id m) (mo_now m) r =
      prog_bind (s_put (eg_store E) BRestores (re_id ?q) (DRestore ?q)) (\<lambda>_. prog_return ?q)"
    using assms(2,3) by (simp add: put_restore_def Let_def)
  from idle_gate [OF assms(1) assms(4) [unfolded put_if_idle_def]] show ?thesis
  proof (elim disjE conjE)
    assume idle: "idle (eg_store E) (re_account r) (es_db s)"
      and run: "on_store (put_restore (eg_store E) (mo_new_id m) (mo_now m) r) s = (res, s')"
    with on_store_put [OF assms(1) run [unfolded put]] show ?thesis by auto
  qed simp
qed

text \<open>
  C29. A restore is queued only beside no unfinished work of its account and only if it can be
  carried out as asked: it names a snapshot, a restore of files names paths, and one that
  writes into the live account is of the whole account or only of parts that can be written
  back. Otherwise it is refused and nothing has changed.
\<close>

theorem queued_restore_is_safe:
  assumes "bolt_store (eg_store E)" "re_id r = []" "re_status r = no_status" "queue_restore E m r s = (res, s')"
  shows "(\<exists>e. res = Inl e) \<and> s' = s \<or>
    (\<exists>q. res = Inr q \<and> asks_safely q \<and> re_status q = StatusPending \<and> idle (eg_store E) (re_account r) (es_db s) \<and>
       re_account q = re_account r \<and> s' = s\<lparr>es_db := es_db s'\<rparr> \<and>
       (\<forall>b k. bo_get (eg_store E) b k (es_db s') =
          (if b = BRestores \<and> k = mo_new_id m then Some (DRestore q) else bo_get (eg_store E) b k (es_db s))))"
proof (cases "re_snapshot_id r = []")
  case False
  define since where "since = (if is_zero (re_account_since r)
    then (case fst (get_identity (eg_store E) (re_account r) (es_db s)) of Inl _ \<Rightarrow> zero_time | Inr i \<Rightarrow> ai_since_at i)
    else re_account_since r)"
  define q where "q = (let q = r\<lparr>re_account_since := since\<rparr> in if re_kind q = [] then q\<lparr>re_kind := kind_account\<rparr> else q)"
  have run: "(if re_kind q = kind_verify then put_if_idle E m q
      else prog_bind (prog_lift (check_restore q)) (\<lambda>_. put_if_idle E m q)) s = (res, s')"
    using assms(4) False by (auto simp: queue_restore_def account_since_def look_up since_def q_def Let_def split: if_splits)
  have q: "re_id q = []" "re_status q = no_status" "re_account q = re_account r" "re_snapshot_id q \<noteq> []"
    using assms(2,3) False by (auto simp: q_def Let_def)
  show ?thesis
  proof (cases "re_kind q = kind_verify \<or> check_restore q = Inr ()")
    case True
    then have "asks_safely (q\<lparr>re_id := mo_new_id m, re_queued_at := mo_now m, re_status := StatusPending\<rparr>)"
      using q(4) by (auto simp: asks_safely_def check_restore_def check_apply_parts_Inr selections_def kind_files_def
          kind_items_def kind_account_def kind_verify_def split: if_splits)
    moreover have "put_if_idle E m q s = (res, s')" using run True by (auto split: if_splits)
    ultimately show ?thesis using put_if_idle_result [OF assms(1) q(1,2), of m s res s'] q(3) by auto
  next
    case refused: False
    then obtain e where "check_restore q = Inl e" by (cases "check_restore q") auto
    with run refused show ?thesis by auto
  qed
qed (use assms(4) in \<open>auto simp: queue_restore_def\<close>)


definition database_request :: node_restore where
  "database_request = \<lparr>re_id = [], re_account = ''bob'', re_repository_id = ''r1'', re_snapshot_id = ''0a1b2c3d'',
     re_kind = kind_items, re_include_paths = [], re_target_dir = [], re_item_kind = ''database'', re_item_names = [''bob_wp''],
     re_items = [], re_unrestricted = False, re_apply = True, re_status = no_status, re_bytes_restored = 0,
     re_progress = None, re_archive_path = [], re_restored_to = [], re_detail = [], re_partial_source = False,
     re_skipped_parts = [], re_hint = [], re_applied = False, re_error = [], re_account_since = 0, re_queued_at = 0,
     re_started_at = None, re_finished_at = None\<rparr>"

definition empty_state :: "(mem_db, unit) engine_state" where
  "empty_state = started (\<lambda>_. []) example_world default_settings"

lemma sample_store: "bolt_store (eg_store sample_engine)" "eg_store sample_engine = mem_bolt"
  by (simp_all add: sample_engine_def mem.bolt_store_axioms)

theorem queued_restore_is_safe_witness:
  "\<exists>q. bo_get mem_bolt BRestores ''n1'' (es_db (snd (queue_restore sample_engine sample_moment database_request empty_state)))
     = Some (DRestore q) \<and> asks_safely q"
proof -
  let ?run = "queue_restore sample_engine sample_moment database_request empty_state"
  have "case fst ?run of Inr q \<Rightarrow> True | Inl e \<Rightarrow> False" by code_simp
  moreover have "re_id database_request = []" "re_status database_request = no_status" "mo_new_id sample_moment = ''n1''"
    by (simp_all add: database_request_def sample_moment_def)
  ultimately show ?thesis
    using queued_restore_is_safe [of sample_engine database_request sample_moment empty_state "fst ?run" "snd ?run"] sample_store
    by (auto split: sum.splits)
qed

section \<open>Which schedule a new account is first backed up by\<close>

definition takes_new_accounts :: "policy \<Rightarrow> bool" where
  "takes_new_accounts p \<longleftrightarrow> po_enabled p \<and> all_accounts p \<and> length (po_repository_ids p) \<noteq> 0"

definition protects_more :: "policy \<Rightarrow> policy \<Rightarrow> bool" where
  "protects_more p q \<longleftrightarrow> takes_everything p \<and> \<not> takes_everything q
     \<or> takes_everything p = takes_everything q \<and> length (po_repository_ids p) > length (po_repository_ids q)"

lemma protects_more_trans: "protects_more p q \<Longrightarrow> \<not> protects_more r q \<or> protects_more p r \<or> protects_more r p \<or>
    takes_everything p = takes_everything r \<and> length (po_repository_ids p) = length (po_repository_ids r)"
  by (auto simp: protects_more_def)

lemma initial_loop_best:
  "(\<forall>q. selected = Some q \<longrightarrow> takes_new_accounts q \<and> full = takes_everything q) \<Longrightarrow>
   (case initial_loop ps selected full of
      None \<Rightarrow> selected = None \<and> (\<forall>p \<in> set ps. \<not> takes_new_accounts p)
    | Some b \<Rightarrow> (b \<in> set ps \<or> selected = Some b) \<and> takes_new_accounts b \<and>
        (\<forall>q. selected = Some q \<longrightarrow> \<not> protects_more q b) \<and>
        (\<forall>p \<in> set ps. takes_new_accounts p \<longrightarrow> \<not> protects_more p b))"
proof (induction ps arbitrary: selected full)
  case (Cons p ps)
  have flip: "\<not> protects_more q b" if "protects_more p q" "\<not> protects_more p b" for q b
    using that by (auto simp: protects_more_def)
  show ?case
  proof (cases "takes_new_accounts p")
    case False
    then have "initial_loop (p # ps) selected full = initial_loop ps selected full"
      by (auto simp: takes_new_accounts_def)
    with Cons.IH [OF Cons.prems] False show ?thesis by (auto split: option.splits)
  next
    case True
    show ?thesis
    proof (cases "\<forall>q. selected = Some q \<longrightarrow> protects_more p q")
      case better: True
      then have "initial_loop (p # ps) selected full = initial_loop ps (Some p) (takes_everything p)"
        using True Cons.prems by (auto simp: takes_new_accounts_def protects_more_def Let_def split: option.splits)
      with Cons.IH [of "Some p" "takes_everything p"] True better flip show ?thesis
        by (auto split: option.splits)
    next
      case worse: False
      then obtain q where q: "selected = Some q" "\<not> protects_more p q" by blast
      then have "initial_loop (p # ps) selected full = initial_loop ps selected full"
        using True Cons.prems by (auto simp: takes_new_accounts_def protects_more_def Let_def)
      moreover have "\<not> protects_more p b" if "\<not> protects_more q b" for b
        using q(2) that by (auto simp: protects_more_def)
      ultimately show ?thesis using Cons.IH [OF Cons.prems] q by (auto split: option.splits)
    qed
  qed
qed (auto split: option.splits simp: protects_more_def)

text \<open>
  A new account is first backed up under the schedule of all accounts that protects it
  most: no other enabled one with a destination takes the whole account where that one does
  not, or takes as much and writes more copies. Without such a schedule nothing is chosen.
\<close>

theorem initial_backup_protects_most:
  "case initial_loop ps None False of
     None \<Rightarrow> (\<forall>p \<in> set ps. \<not> takes_new_accounts p)
   | Some b \<Rightarrow> b \<in> set ps \<and> takes_new_accounts b \<and> (\<forall>p \<in> set ps. takes_new_accounts p \<longrightarrow> \<not> protects_more p b)"
  using initial_loop_best [of None False ps] by (auto split: option.splits)

theorem initial_backup_protects_most_witness:
  "\<exists>b. initial_loop [(sending_to [''r1'', ''r2''])\<lparr>po_skip_email := True\<rparr>, sending_to [''r1'']] None False = Some b
     \<and> \<not> protects_more (sending_to [''r1'']) b"
  using initial_backup_protects_most [of "[(sending_to [''r1'', ''r2''])\<lparr>po_skip_email := True\<rparr>, sending_to [''r1'']]"]
  by (auto simp: takes_new_accounts_def all_accounts_def sending_to_def split: option.splits)

section \<open>What a backup at suspension reaches\<close>

text \<open>
  C33. The backups queued when an account is suspended reach every repository any enabled
  schedule of the whole account promises, with as few schedules as that takes; they are queued
  only beside no unfinished work, all of them or none, and nothing else changes the server.
\<close>

theorem suspension_reaches_every_promise:
  assumes "bolt_store (eg_store E)" "inj new_id" "fst (policies (eg_store E) (es_db s)) = Inr ps"
    and "\<And>sel. set (ord sel) = set (suspension_wanted (filter (\<lambda>p. full_account_policy p account) ps))"
    and "queue_suspension_backup E ord new_id clock account s = (Inr res, s')" "su_enabled res"
  shows "(\<forall>p \<in> set ps. full_account_policy p account \<longrightarrow> is_cover (po_repository_ids p) (su_policies res)) \<and>
    (\<forall>qs. set qs \<subseteq> set (filter (\<lambda>p. full_account_policy p account) ps) \<and>
       (\<forall>p \<in> set ps. full_account_policy p account \<longrightarrow> is_cover (po_repository_ids p) qs) \<longrightarrow>
       length (su_policies res) \<le> length qs) \<and>
    (if su_queued res
     then idle (eg_store E) account (es_db s) \<and> (\<exists>js. prepared_jobs account (su_policies res) js \<and>
       (\<forall>j. stored (eg_store E) BJobs as_job j (es_db s') \<longrightarrow> j \<in> set js \<or> stored (eg_store E) BJobs as_job j (es_db s)) \<and>
       (\<forall>j \<in> set js. stored (eg_store E) BJobs as_job j (es_db s')))
     else s' = s)"
proof -
  define cand where "cand = filter (\<lambda>p. full_account_policy p account) ps"
  define chosen where "chosen = minimum_policy_cover ord (suspension_wanted cand) cand"
  have look: "on_store (policies (eg_store E)) s = (Inr ps, s)"
    using assms(3) snd_listing(3) [of "eg_store E" "es_db s"] by (cases "policies (eg_store E) (es_db s)") (auto simp: on_store_def)
  have set: "reads_only (on_store (get_settings (eg_store E)) :: ('a, 'b, settings) eprog)" by (rule reads_only_store) simp
  from assms(5,6) obtain st where rest: "(if length chosen = 0
      then prog_return \<lparr>su_enabled = True, su_queued = False, su_busy = False, su_policies = chosen\<rparr>
      else prog_bind (on_store (running_job_for (eg_store E) account)) (\<lambda>busy.
        if busy then prog_return \<lparr>su_enabled = True, su_queued = False, su_busy = True, su_policies = chosen\<rparr>
        else prog_bind (on_store (put_jobs (eg_store E) new_id clock (map (\<lambda>p. queued_job (po_id p) account) chosen)))
               (\<lambda>_. prog_return \<lparr>su_enabled = True, su_queued = True, su_busy = False, su_policies = chosen\<rparr>))) s = (Inr res, s')"
    by (auto simp: queue_suspension_backup_def reads_only_Inr [OF set] look Let_def cand_def chosen_def
        cong: if_cong split: if_splits)
  have pol: "su_policies res = chosen"
    using rest by (auto simp: prog_bind_eq_Inr split: if_splits)
  have covers: "is_cover (suspension_wanted cand) qs \<longleftrightarrow> (\<forall>p \<in> set ps. full_account_policy p account \<longrightarrow> is_cover (po_repository_ids p) qs)" for qs
    by (auto simp: is_cover_def suspension_wanted_def cand_def)
  have all: "is_cover (suspension_wanted cand) cand" by (auto simp: is_cover_def suspension_wanted_def)
  have least: "is_cover (suspension_wanted cand) chosen \<and> (\<forall>qs. set qs \<subseteq> set cand \<and> is_cover (suspension_wanted cand) qs \<longrightarrow> length chosen \<le> length qs)"
    using policy_cover_least [of ord "suspension_wanted cand" cand] assms(4) all
    by (auto simp: chosen_def cand_def is_cover_def split: if_splits)
  have queued: "if su_queued res
     then idle (eg_store E) account (es_db s) \<and> (\<exists>js. prepared_jobs account chosen js \<and>
       (\<forall>j. stored (eg_store E) BJobs as_job j (es_db s') \<longrightarrow> j \<in> set js \<or> stored (eg_store E) BJobs as_job j (es_db s)) \<and>
       (\<forall>j \<in> set js. stored (eg_store E) BJobs as_job j (es_db s')))
     else s' = s"
  proof (cases "su_queued res")
    case False
    with rest show ?thesis by (auto simp: reads_only_Inr [OF reads_only_on_store(1)] prog_bind_eq_Inr [of "on_store (put_jobs B n c j)" for B n c j]
        split: if_splits)
  next
    case True
    with rest obtain js where idle: "on_store (running_job_for (eg_store E) account) s = (Inr False, s)"
      and put: "on_store (put_jobs (eg_store E) new_id clock (map (\<lambda>p. queued_job (po_id p) account) chosen)) s = (Inr js, s')"
      by (auto simp: reads_only_Inr [OF reads_only_on_store(1)] prog_bind_eq_Inr [of "on_store (put_jobs B n c j)" for B n c j]
          split: if_splits)
    from put obtain db where put': "put_jobs (eg_store E) new_id clock (map (\<lambda>p. queued_job (po_id p) account) chosen) (es_db s) = (Inr js, db)"
      "es_db s' = db"
      by (auto simp: on_store_def split: prod.splits)
    from idle obtain t where "running_job_for (eg_store E) account (es_db s) = (Inr False, t)"
      by (auto simp: on_store_def split: prod.splits)
    from idle_account [OF assms(1) this] have "idle (eg_store E) account (es_db s)" by (auto simp: idle_def)
    with True queue_plan_stored [OF assms(1,2) put'(1)] put'(2) show ?thesis by auto
  qed
  with least show ?thesis unfolding pol covers [symmetric] cand_def [symmetric] by blast
qed


definition suspending_db :: mem_db where
  "suspending_db = (\<lambda>_. [])
     (BSettings := [(settings_key, DSettings (default_settings\<lparr>st_backup_on_suspension := True\<rparr>))],
      BPolicies := [(''p1'', DPolicy ((sending_to [''r1'', ''r2''])\<lparr>po_id := ''p1''\<rparr>))])"

definition suspend_bob :: "(mem_db, unit, suspension_backup) eprog" where
  "suspend_bob = queue_suspension_backup sample_engine (\<lambda>_. [''r1'', ''r2'']) marks 7 ''bob''"

theorem suspension_reaches_every_promise_witness:
  "\<exists>res. fst (suspend_bob (started suspending_db example_world default_settings)) = Inr res \<and> su_queued res \<and>
     is_cover [''r1'', ''r2''] (su_policies res)"
proof -
  let ?s = "started suspending_db example_world default_settings"
  let ?p = "(sending_to [''r1'', ''r2''])\<lparr>po_id := ''p1''\<rparr>"
  let ?res = "\<lparr>su_enabled = True, su_queued = True, su_busy = False, su_policies = [?p]\<rparr>"
  have run: "fst (suspend_bob ?s) = Inr ?res" by code_simp
  have ps: "fst (policies (eg_store sample_engine) (es_db ?s)) = Inr [?p]" by code_simp
  have full: "full_account_policy ?p ''bob''" by code_simp
  have "inj marks" by (rule injI) (metis Suc_inject length_replicate marks_def)
  with suspension_reaches_every_promise [OF sample_store(1) _ ps, of marks "\<lambda>_. [''r1'', ''r2'']" "''bob''" 7 ?res "snd (suspend_bob ?s)"]
    run full show ?thesis
    by (auto simp: suspension_wanted_def suspend_bob_def prod_eq_iff) (auto simp: sending_to_def is_cover_def)
qed

end
