(* ===== verification/Notices.thy ===== *)
theory Notices
  imports Node_Queue
begin

text \<open>
  Telling people: the pure part of \<open>internal/notify/notify.go\<close> and \<open>internal/node/notify.go\<close>, with
  the sealing of credentials in \<open>internal/node/secrets.go\<close>. A sender (\<open>senders.go\<close>: mail, ntfy, Telegram, a
  webhook) is a parameter that may fail; what is handed to it is recorded with the channel's id.
\<close>

section \<open>Events and channels\<close>

definition ev_failed :: string where "ev_failed = ''backup_failed''"
definition ev_partial :: string where "ev_partial = ''backup_partial''"
definition ev_succeeded :: string where "ev_succeeded = ''backup_ok''"
definition ev_overdue :: string where "ev_overdue = ''overdue''"
definition ev_stuck :: string where "ev_stuck = ''stuck''"
definition ev_destination_down :: string where "ev_destination_down = ''destination_down''"
definition ev_restore :: string where "ev_restore = ''restore''"
definition ev_started :: string where "ev_started = ''started''"

lemmas events = ev_failed_def ev_partial_def ev_succeeded_def ev_overdue_def ev_stuck_def ev_destination_down_def
  ev_restore_def ev_started_def

definition severity_info :: string where "severity_info = ''info''"
definition severity_warning :: string where "severity_warning = ''warning''"
definition severity_error :: string where "severity_error = ''error''"

definition event_severity :: "string \<Rightarrow> string" where
  "event_severity e =
     (if e = ev_failed \<or> e = ev_stuck \<or> e = ev_destination_down \<or> e = ev_overdue then severity_error
      else if e = ev_partial then severity_warning else severity_info)"

definition message_severity :: "message \<Rightarrow> string" where
  "message_severity m = (if ms_level m \<noteq> [] then ms_level m else event_severity (ms_event m))"

definition notice :: "string \<Rightarrow> string \<Rightarrow> message" where
  "notice event account = \<lparr>ms_event = event, ms_level = [], ms_host = [], ms_account = account\<rparr>"

record notify_channel =
  nc_kind :: string
  nc_name :: string
  nc_config :: gomap
  nc_secrets :: gomap
  nc_events :: "string list"

definition wants :: "notify_channel \<Rightarrow> string \<Rightarrow> bool" where
  "wants ch event =
     (if length (nc_events ch) = 0 then event_severity event \<noteq> severity_info
      else list_ex (\<lambda>wanted. wanted = event) (nc_events ch))"

definition notify_kinds :: "string list" where "notify_kinds = [''smtp'', ''ntfy'', ''telegram'', ''webhook'']"

definition required_settings :: "string \<Rightarrow> string list \<times> string list" where
  "required_settings kind =
     (if kind = ''smtp'' then ([''host'', ''from'', ''to''], [])
      else if kind = ''ntfy'' then ([''topic''], [])
      else if kind = ''telegram'' then ([''chat_id''], [''token''])
      else if kind = ''webhook'' then ([''url''], [])
      else ([], []))"

definition missing_settings :: "notify_channel \<Rightarrow> string list" where
  "missing_settings ch =
     (case required_settings (nc_kind ch) of (config, secrets) \<Rightarrow>
        sort_strings (filter (\<lambda>key. trim_space (gm_get (nc_config ch) key) = []) config
                    @ filter (\<lambda>key. trim_space (gm_get (nc_secrets ch) key) = []) secrets))"

type_synonym sender = "notify_channel \<Rightarrow> message \<Rightarrow> (string \<times> message) list \<Rightarrow> err option"

definition send :: "sender \<Rightarrow> string \<Rightarrow> notify_channel \<Rightarrow> message \<Rightarrow> ('db, 'x, unit) eprog" where
  "send N i ch m =
     (\<lambda>s. if \<not> list_ex (\<lambda>k. k = nc_kind ch) notify_kinds
          then (Inl (ErrMsg ''notify: not a way of sending anything'' [nc_kind ch]), s)
          else (case N ch m (es_outbox s) of Some e \<Rightarrow> Inl e | None \<Rightarrow> Inr (), s\<lparr>es_outbox := es_outbox s @ [(i, m)]\<rparr>))"

section \<open>Sealing\<close>

record seal_api =
  sl_encode :: "gomap \<Rightarrow> string res"
  sl_seal :: "string \<Rightarrow> string res"
  sl_key_id :: string

definition seal_credentials :: "('db, 'x) engine \<Rightarrow> seal_api \<Rightarrow> moment \<Rightarrow> gomap \<Rightarrow> ('db, 'x, string) eprog" where
  "seal_credentials E S m secrets =
     (if length secrets = 0 then prog_return []
      else prog_bind (err_wrap ''node: encode credentials'' (prog_lift (sl_encode S secrets))) (\<lambda>encoded.
           prog_bind (prog_lift (sl_seal S encoded)) (\<lambda>sealed.
             on_store (put_secret (eg_store E) (mo_new_id m) (mo_now m) ''backend_credentials'' sealed (sl_key_id S)))))"

definition seal_repository_password :: "('db, 'x) engine \<Rightarrow> seal_api \<Rightarrow> moment \<Rightarrow> string \<Rightarrow> ('db, 'x, string) eprog" where
  "seal_repository_password E S m password =
     prog_bind (prog_lift (sl_seal S password)) (\<lambda>sealed.
       on_store (put_secret (eg_store E) (mo_new_id m) (mo_now m) ''repository_password'' sealed (sl_key_id S)))"

section \<open>The engine's channels\<close>

definition channel_for :: "('db, 'x) engine \<Rightarrow> channel \<Rightarrow> ('db, 'x, notify_channel) eprog" where
  "channel_for E held =
     (let ch = \<lparr>nc_kind = ch_kind held, nc_name = ch_name held, nc_config = ch_config held, nc_secrets = [],
                nc_events = ch_events held\<rparr> in
      if ch_secrets_id held = [] then prog_return ch
      else prog_bind (open_secret E (ch_secrets_id held)) (\<lambda>plaintext.
           prog_bind (decode_secrets E plaintext) (\<lambda>secrets. prog_return (ch\<lparr>nc_secrets := secrets\<rparr>))))"

definition given_secrets :: "gomap \<Rightarrow> gomap" where
  "given_secrets secrets = filter (\<lambda>(key, value). trim_space value \<noteq> []) secrets"

definition save_channel :: "('db, 'x) engine \<Rightarrow> seal_api \<Rightarrow> moment \<Rightarrow> moment \<Rightarrow> channel \<Rightarrow> gomap \<Rightarrow> ('db, 'x, channel) eprog" where
  "save_channel E S m1 m2 ch secrets =
     (if trim_space (ch_name ch) = [] then prog_fail (ErrMsg ''node: give the channel a name'' [])
      else if \<not> list_ex (\<lambda>k. k = ch_kind ch) notify_kinds
      then prog_fail (ErrMsg ''node: not a way of sending anything'' [ch_kind ch])
      else
        let given = given_secrets secrets in
        prog_bind
          (if length given > 0
           then prog_bind (seal_credentials E S m1 given) (\<lambda>i. prog_return (ch\<lparr>ch_secrets_id := i\<rparr>))
           else if ch_id ch \<noteq> [] then
             prog_bind (attempt (on_store (get_channel (eg_store E) (ch_id ch)))) (\<lambda>r. prog_return
               (case r of Inl _ \<Rightarrow> ch
                | Inr previous \<Rightarrow> ch\<lparr>ch_secrets_id := ch_secrets_id previous, ch_created_at := ch_created_at previous,
                    ch_last_sent := ch_last_sent previous, ch_last_error := ch_last_error previous\<rparr>))
           else prog_return ch) (\<lambda>ch.
        prog_bind (channel_for E ch) (\<lambda>built.
          if length (missing_settings built) > 0
          then prog_fail (ErrMsg ''node: needs'' (ch_kind ch # missing_settings built))
          else on_store (put_channel (eg_store E) (mo_new_id m2) (mo_now m2) ch))))"

definition record_send :: "('db, 'x) engine \<Rightarrow> moment \<Rightarrow> channel \<Rightarrow> err option \<Rightarrow> ('db, 'x, unit) eprog" where
  "record_send E m held send_err =
     quietly (on_store (put_channel (eg_store E) (mo_new_id m) (mo_now m)
       (case send_err of
          Some e \<Rightarrow> held\<lparr>ch_last_error := eg_error E e\<rparr>
        | None \<Rightarrow> held\<lparr>ch_last_error := [], ch_last_sent := Some (mo_now m)\<rparr>)))"

definition error_of :: "'a res \<Rightarrow> err option" where
  "error_of r = (case r of Inl e \<Rightarrow> Some e | Inr _ \<Rightarrow> None)"

definition notify_one :: "('db, 'x) engine \<Rightarrow> sender \<Rightarrow> moment \<Rightarrow> message \<Rightarrow> channel \<Rightarrow> ('db, 'x, unit) eprog" where
  "notify_one E N m msg held =
     (if \<not> ch_enabled held then prog_return ()
      else prog_bind (attempt (channel_for E held)) (\<lambda>r.
        case r of
          Inl e \<Rightarrow> record_send E m held (Some e)
        | Inr ch \<Rightarrow>
            if \<not> wants ch (ms_event msg) then prog_return ()
            else prog_bind (attempt (send N (ch_id held) ch msg)) (\<lambda>sent. record_send E m held (error_of sent))))"

fun notify_loop :: "('db, 'x) engine \<Rightarrow> sender \<Rightarrow> moment \<Rightarrow> message \<Rightarrow> channel list \<Rightarrow> ('db, 'x, unit) eprog" where
  "notify_loop E N m msg [] = prog_return ()"
| "notify_loop E N m msg (c # cs) = prog_bind (notify_one E N m msg c) (\<lambda>_. notify_loop E N m msg cs)"

definition notify :: "('db, 'x) engine \<Rightarrow> sender \<Rightarrow> moment \<Rightarrow> message \<Rightarrow> ('db, 'x, unit) eprog" where
  "notify E N m msg =
     prog_bind held_settings (\<lambda>st.
       let msg = (if ms_host msg = [] then msg\<lparr>ms_host := st_hostname st\<rparr> else msg) in
     prog_bind (attempt (on_store (channels (eg_store E)))) (\<lambda>r.
       case r of Inl _ \<Rightarrow> prog_return () | Inr cs \<Rightarrow> notify_loop E N m msg cs))"

definition test_channel :: "('db, 'x) engine \<Rightarrow> sender \<Rightarrow> moment \<Rightarrow> string \<Rightarrow> ('db, 'x, unit) eprog" where
  "test_channel E N m i =
     prog_bind (on_store (get_channel (eg_store E) i)) (\<lambda>held.
     prog_bind (channel_for E held) (\<lambda>ch.
     prog_bind held_settings (\<lambda>st.
     prog_bind (attempt (send N i ch ((notice ev_restore [])\<lparr>ms_host := st_hostname st\<rparr>))) (\<lambda>sent.
     prog_bind (record_send E m held (error_of sent)) (\<lambda>_. prog_lift sent)))))"

section \<open>Everyone who asked is told\<close>

text \<open>What a channel's credentials open to depends on the secrets only.\<close>

definition opened :: "('db, 'x) engine \<Rightarrow> 'db \<Rightarrow> channel \<Rightarrow> notify_channel option" where
  "opened E db held =
     (let ch = \<lparr>nc_kind = ch_kind held, nc_name = ch_name held, nc_config = ch_config held, nc_secrets = [],
                nc_events = ch_events held\<rparr> in
      if ch_secrets_id held = [] then Some ch
      else case bo_get (eg_store E) BSecrets (ch_secrets_id held) db of
        Some (DSecret sec) \<Rightarrow>
          (case eg_vault_open E (sc_ciphertext sec) of
             Inr plaintext \<Rightarrow> (case eg_decode_secrets E plaintext of Inr secrets \<Rightarrow> Some (ch\<lparr>nc_secrets := secrets\<rparr>) | Inl _ \<Rightarrow> None)
           | Inl _ \<Rightarrow> None)
      | _ \<Rightarrow> None)"

definition listens :: "('db, 'x) engine \<Rightarrow> 'db \<Rightarrow> string \<Rightarrow> channel \<Rightarrow> bool" where
  "listens E db event held \<longleftrightarrow>
     ch_enabled held \<and> ch_kind held \<in> set notify_kinds \<and>
     (case opened E db held of Some ch \<Rightarrow> wants ch event | None \<Rightarrow> False)"

lemma channel_for_opened:
  "\<exists>r. channel_for E held s = (r, s) \<and> (case r of Inl _ \<Rightarrow> opened E (es_db s) held = None
      | Inr ch \<Rightarrow> opened E (es_db s) held = Some ch \<and> nc_kind ch = ch_kind held)"
  by (auto simp: channel_for_def opened_def Let_def prog_bind_def prog_return_def open_secret_def decode_secrets_def on_store_def
      get_secret_def s_get_def prog_lift_def err_wrap_def split: option.splits sum.splits prod.splits doc.splits)

lemma record_send_facts:
  assumes "bolt_store (eg_store E)"
  shows "fst (record_send E m held e s) = Inr ()" "es_outbox (snd (record_send E m held e s)) = es_outbox s"
    "b \<noteq> BChannels \<Longrightarrow> bo_get (eg_store E) b k (es_db (snd (record_send E m held e s))) = bo_get (eg_store E) b k (es_db s)"
    "es_settings (snd (record_send E m held e s)) = es_settings s"
  by (auto simp: record_send_def quietly_def on_store_def put_channel_def Let_def s_put_return_snd put_get_other [OF assms]
      split: prod.splits) (metis snd_conv put_get_other [OF assms] s_put_return_snd)+

definition channels_only :: "('db, 'x) engine \<Rightarrow> ('db, 'x) engine_state \<Rightarrow> ('db, 'x) engine_state \<Rightarrow> bool" where
  "channels_only E s s' \<longleftrightarrow>
     (\<forall>b k. b \<noteq> BChannels \<longrightarrow> bo_get (eg_store E) b k (es_db s') = bo_get (eg_store E) b k (es_db s)) \<and> es_settings s' = es_settings s"

lemma opened_channels_only: "channels_only E s s' \<Longrightarrow> opened E (es_db s') c = opened E (es_db s) c"
proof -
  assume "channels_only E s s'"
  then have "bo_get (eg_store E) BSecrets k (es_db s') = bo_get (eg_store E) BSecrets k (es_db s)" for k
    by (simp add: channels_only_def)
  then show ?thesis unfolding opened_def by presburger
qed

lemma notify_one_facts:
  assumes "bolt_store (eg_store E)"
  shows "fst (notify_one E N m msg c s) = Inr () \<and> channels_only E s (snd (notify_one E N m msg c s)) \<and>
    es_outbox (snd (notify_one E N m msg c s)) =
      es_outbox s @ (if listens E (es_db s) (ms_event msg) c then [(ch_id c, msg)] else [])"
proof -
  note rec = record_send_facts [OF assms]
  obtain r where r: "channel_for E c s = (r, s)" and o: "case r of Inl _ \<Rightarrow> opened E (es_db s) c = None
      | Inr ch \<Rightarrow> opened E (es_db s) c = Some ch \<and> nc_kind ch = ch_kind c"
    using channel_for_opened by blast
  show ?thesis
  proof (cases "ch_enabled c")
    case False
    then show ?thesis by (simp add: notify_one_def prog_return_def channels_only_def listens_def)
  next
    case on: True
    show ?thesis
    proof (cases r)
      case (Inl e)
      with on r o show ?thesis
        by (auto simp: notify_one_def prog_bind_def attempt_def channels_only_def listens_def rec)
    next
      case (Inr ch)
      with o have op: "opened E (es_db s) c = Some ch" "nc_kind ch = ch_kind c" by simp_all
      show ?thesis
      proof (cases "wants ch (ms_event msg)")
        case False
        with on r Inr op show ?thesis
          by (simp add: notify_one_def prog_bind_def attempt_def prog_return_def channels_only_def listens_def)
      next
        case True
        obtain t s1 where snt: "send N (ch_id c) ch msg s = (t, s1)" by fastforce
        then have s1: "es_db s1 = es_db s" "es_settings s1 = es_settings s"
          "es_outbox s1 = es_outbox s @ (if ch_kind c \<in> set notify_kinds then [(ch_id c, msg)] else [])"
          using op by (auto simp: send_def list_ex_iff split: if_splits)
        have "notify_one E N m msg c s = record_send E m c (error_of t) s1"
          using on r Inr True snt by (simp add: notify_one_def prog_bind_def attempt_def)
        with s1 True on op show ?thesis by (simp add: channels_only_def listens_def rec)
      qed
    qed
  qed
qed

lemma notify_loop_facts:
  assumes "bolt_store (eg_store E)"
  shows "fst (notify_loop E N m msg cs s) = Inr () \<and> channels_only E s (snd (notify_loop E N m msg cs s)) \<and>
    es_outbox (snd (notify_loop E N m msg cs s)) =
      es_outbox s @ map (\<lambda>c. (ch_id c, msg)) (filter (listens E (es_db s) (ms_event msg)) cs)"
proof (induction cs arbitrary: s)
  case (Cons c cs)
  obtain r s1 where one: "notify_one E N m msg c s = (r, s1)" by fastforce
  with notify_one_facts [OF assms, of N m msg c s] have r: "r = Inr ()" and only: "channels_only E s s1"
    and out: "es_outbox s1 = es_outbox s @ (if listens E (es_db s) (ms_event msg) c then [(ch_id c, msg)] else [])"
    by simp_all
  have "listens E (es_db s1) ev x = listens E (es_db s) ev x" for ev x
    using opened_channels_only [OF only] by (simp add: listens_def)
  then have same: "filter (listens E (es_db s1) ev) xs = filter (listens E (es_db s) ev) xs" for ev xs
    by (intro filter_cong) simp_all
  from one r have "notify_loop E N m msg (c # cs) s = notify_loop E N m msg cs s1" by (simp add: prog_bind_def)
  with Cons.IH [of s1] only out same show ?case by (auto simp: channels_only_def)
qed (simp add: prog_return_def channels_only_def)

text \<open>
  Whoever asked is told. Each enabled channel whose credentials open and which wants the event is
  handed the message, once and in the order the channels were made, whatever became of the ones
  before it - a sender that fails, a channel whose credentials cannot be read; nobody else is. Telling
  people never fails the work it is about and changes nothing in the store but the channels' own
  records of it.
\<close>

theorem everyone_who_asked_is_told:
  assumes "bolt_store (eg_store E)" and "channels (eg_store E) (es_db s) = (Inr cs, db)"
  shows "\<exists>host. fst (notify E N m msg s) = Inr () \<and>
    es_outbox (snd (notify E N m msg s)) = es_outbox s @
      map (\<lambda>c. (ch_id c, msg\<lparr>ms_host := host\<rparr>)) (filter (listens E (es_db s) (ms_event msg)) cs) \<and>
    (\<forall>b k. b \<noteq> BChannels \<longrightarrow> bo_get (eg_store E) b k (es_db (snd (notify E N m msg s))) = bo_get (eg_store E) b k (es_db s))"
proof -
  let ?host = "if ms_host msg = [] then st_hostname (es_settings s) else ms_host msg"
  have "db = es_db s" using assms(2) snd_reading(6) [of "eg_store E" "es_db s"] by simp
  then have "notify E N m msg s = notify_loop E N m (msg\<lparr>ms_host := ?host\<rparr>) cs s"
    using assms(2) by (simp add: notify_def held_settings_def prog_bind_def attempt_def on_store_def Let_def)
  with notify_loop_facts [OF assms(1), of N m "msg\<lparr>ms_host := ?host\<rparr>" cs s] show ?thesis
    by (intro exI [of _ ?host]) (simp add: channels_only_def)
qed

definition sample_channel :: "string \<Rightarrow> string list \<Rightarrow> bool \<Rightarrow> channel" where
  "sample_channel i evs on = \<lparr>ch_id = i, ch_name = i, ch_kind = ''ntfy'', ch_config = [(''topic'', ''ops'')], ch_secrets_id = [],
     ch_events = evs, ch_enabled = on, ch_last_sent = None, ch_last_error = [], ch_created_at = 1\<rparr>"

definition listening_state :: "(mem_db, unit) engine_state" where
  "listening_state = started (mem_with BChannels
     [(''c1'', DChannel (sample_channel ''c1'' [] True)), (''c2'', DChannel (sample_channel ''c2'' [] False)),
      (''c3'', DChannel (sample_channel ''c3'' [''backup_failed''] True)), (''c4'', DChannel (sample_channel ''c4'' [''restore''] True))])
     example_world default_settings"

lemma everyone_who_asked_is_told_witness:
  "\<exists>host. map fst (es_outbox (snd (notify sample_engine (\<lambda>_ _ _. Some ErrNotFound) sample_moment (notice ev_failed ''bob'') listening_state)))
     = [''c1'', ''c3''] \<and>
    fst (notify sample_engine (\<lambda>_ _ _. Some ErrNotFound) sample_moment (notice ev_failed ''bob'') listening_state) = Inr () \<and>
    host = st_hostname default_settings"
proof -
  let ?cs = "[sample_channel ''c1'' [] True, sample_channel ''c2'' [] False, sample_channel ''c3'' [''backup_failed''] True,
    sample_channel ''c4'' [''restore''] True]"
  have "fst (channels mem_bolt (es_db listening_state)) = Inr ?cs" by code_simp
  then have cs: "channels (eg_store sample_engine) (es_db listening_state) = (Inr ?cs, snd (channels mem_bolt (es_db listening_state)))"
    by (simp only: sample_store(2) prod_eq_iff fst_conv snd_conv)
  from everyone_who_asked_is_told [OF sample_store(1) cs, of "\<lambda>_ _ _. Some ErrNotFound" sample_moment "notice ev_failed ''bob''"]
  show ?thesis
    by (auto simp: listens_def opened_def sample_channel_def wants_def event_severity_def events notice_def severity_error_def
        severity_info_def notify_kinds_def listening_state_def started_def)
qed

end
