(* ===== verification/Hook_Spool.thy ===== *)
theory Hook_Spool
  imports Staging
begin

text \<open>
  Events a cPanel hook writes down while the service is not running: \<open>internal/hookspool\<close>. The
  file system is a list of paths and contents; which file calls fail and the JSON of an event
  are parameters.
\<close>

section \<open>Events\<close>

record hook_event =
  he_at :: instant
  he_event :: string
  he_account :: string
  he_payload :: string

type_synonym spool = "(string \<times> string) list"

datatype json = JNull | JBool bool | JNumber string | JString string | JArray "json list" | JObject "(string \<times> json) list"

text \<open>
  \<open>sp_open\<close>, \<open>sp_write\<close>: whether creating a file that is not there, or writing and syncing it, fails;
  a failing write leaves the bytes
  written so far. \<open>sp_list\<close>, \<open>sp_read\<close>, \<open>sp_remove\<close>: the same for the
  other calls. \<open>sp_json\<close> is \<open>json.Unmarshal\<close> into a value of any shape.
\<close>

record spool_api =
  sp_mkdir :: "err option"
  sp_open :: "string \<Rightarrow> err option"
  sp_write :: "string \<Rightarrow> (nat \<times> err) option"
  sp_list :: "err option"
  sp_read :: "string \<Rightarrow> err option"
  sp_remove :: "string \<Rightarrow> err option"
  sp_encode :: "hook_event \<Rightarrow> string res"
  sp_decode :: "string \<Rightarrow> hook_event res"
  sp_json :: "string \<Rightarrow> json option"
  sp_now :: instant

definition spooled :: "string \<Rightarrow> bool" where
  "spooled e \<longleftrightarrow> e = ''create'' \<or> e = ''remove''"

definition max_payload :: nat where "max_payload = 2 ^ 20"

section \<open>The account an event names\<close>

definition user_char :: "char \<Rightarrow> bool" where
  "user_char c \<longleftrightarrow> char_in CHR ''a'' CHR ''z'' c \<or> char_in CHR ''0'' CHR ''9'' c \<or> c = CHR ''_''"

definition safe_cpanel_user :: "string \<Rightarrow> bool" where
  "safe_cpanel_user v =
     (if v = [] \<or> length v > 16 then False
      else if \<not> list_all user_char v then False
      else \<not> has_prefix v ''_'')"

fun first_found :: "string list \<Rightarrow> string" where
  "first_found [] = []"
| "first_found (x # xs) = (if x \<noteq> [] then x else first_found xs)"

definition user_field :: "(string \<times> json) list \<Rightarrow> string \<Rightarrow> string" where
  "user_field fs key = (case map_of fs key of Some (JString v) \<Rightarrow> (if safe_cpanel_user v then v else []) | _ \<Rightarrow> [])"

lemma size_of_field: "map_of fs k = Some v \<Longrightarrow> size v < Suc (size_list (size_prod (\<lambda>x. 0) size) fs)"
proof -
  assume "map_of fs k = Some v"
  then have "(k, v) \<in> set fs" by (rule map_of_SomeD)
  then show ?thesis by (induction fs) auto
qed

function walk_json :: "json \<Rightarrow> string" where
  "walk_json (JObject fs) =
     first_found
       ((case map_of fs ''data'' of Some d \<Rightarrow> walk_json d | None \<Rightarrow> [])
        # map (user_field fs) [''user'', ''username'', ''cpuser'']
        @ map (\<lambda>k. case map_of fs k of Some v \<Rightarrow> walk_json v | None \<Rightarrow> [])
            (sort_strings (filter (\<lambda>k. k \<noteq> ''data'') (map fst fs))))"
| "walk_json (JArray xs) = first_found (map walk_json xs)"
| "walk_json (JString v) = []"
| "walk_json (JNumber v) = []"
| "walk_json (JBool v) = []"
| "walk_json JNull = []"
  by pat_completeness auto
termination
  by (relation "measure size") (auto dest: size_of_field intro: le_less_trans [OF size_list_estimation'])

definition account_in :: "spool_api \<Rightarrow> string \<Rightarrow> string" where
  "account_in A raw = (case sp_json A raw of None \<Rightarrow> [] | Some v \<Rightarrow> walk_json v)"


section \<open>Writing an event down\<close>

definition unix_epoch :: instant where "unix_epoch = 62135596800 * 1000000000"

definition unix_nano :: "instant \<Rightarrow> int" where
  "unix_nano t = sint (word_of_int (t - unix_epoch) :: 64 word)"

text \<open>\<open>%020d\<close>\<close>

definition pad20 :: "int \<Rightarrow> string" where
  "pad20 i =
     (if i < 0 then CHR ''-'' # replicate (19 - length (nat_str (nat (- i)))) CHR ''0'' @ nat_str (nat (- i))
      else replicate (20 - length (nat_str (nat i))) CHR ''0'' @ nat_str (nat i))"

definition event_base :: "hook_event \<Rightarrow> string" where
  "event_base e = pad20 (unix_nano (he_at e)) @ ''-'' @ he_event e @ ''-'' @ he_account e"

definition event_path :: "string \<Rightarrow> string \<Rightarrow> nat \<Rightarrow> string" where
  "event_path dir base attempt =
     (if attempt > 0 then file_join dir (base @ ''-'' @ itoa (int attempt) @ ''.json'')
      else file_join dir (base @ ''.json''))"

fun write_attempts :: "spool_api \<Rightarrow> string \<Rightarrow> string \<Rightarrow> string \<Rightarrow> nat list \<Rightarrow> (spool, string) prog" where
  "write_attempts A dir base body [] = prog_fail (ErrMsg ''hookspool: could not find a free name'' [])"
| "write_attempts A dir base body (n # ns) =
     (\<lambda>sp. let name = event_path dir base n in
        if map_of sp name \<noteq> None then write_attempts A dir base body ns sp
        else case sp_open A name of
          Some e \<Rightarrow> (Inl (ErrWrap ''hookspool: write'' e), sp)
        | None \<Rightarrow>
            (case sp_write A name of
               Some (part, e) \<Rightarrow> (Inl (ErrWrap ''hookspool: write'' e), (name, take part body) # sp)
             | None \<Rightarrow> (Inr name, (name, body) # sp)))"

definition completed_event :: "spool_api \<Rightarrow> hook_event \<Rightarrow> hook_event" where
  "completed_event A e =
     (let e = (if is_zero (he_at e) then e\<lparr>he_at := sp_now A\<rparr> else e)
      in if he_account e = [] then e\<lparr>he_account := account_in A (he_payload e)\<rparr> else e)"

definition spool_write :: "spool_api \<Rightarrow> string \<Rightarrow> hook_event \<Rightarrow> (spool, string) prog" where
  "spool_write A dir e =
     (if \<not> spooled (he_event e) then prog_fail (ErrMsg ''hookspool: is not an event worth replaying'' [he_event e])
      else if length (he_payload e) > max_payload then prog_fail (ErrMsg ''hookspool: the payload is larger than 1 MiB'' [])
      else let e = completed_event A e in
        case sp_mkdir A of
          Some err \<Rightarrow> prog_fail (ErrWrap ''hookspool: make'' err)
        | None \<Rightarrow>
            (case sp_encode A e of
               Inl err \<Rightarrow> prog_fail (ErrWrap ''hookspool: encode'' err)
             | Inr body \<Rightarrow> write_attempts A dir (event_base e) body [0 ..< 100]))"

section \<open>Reading the events back\<close>

fun json_names :: "string \<Rightarrow> spool \<Rightarrow> string list" where
  "json_names pre [] = []"
| "json_names pre ((p, body) # sp) =
     (case cut_prefix p pre of
        Some name \<Rightarrow>
          if name \<noteq> [] \<and> CHR ''/'' \<notin> set name \<and> has_suffix name ''.json'' then name # json_names pre sp
          else json_names pre sp
      | None \<Rightarrow> json_names pre sp)"

fun read_events :: "spool_api \<Rightarrow> string \<Rightarrow> spool \<Rightarrow> string list \<Rightarrow> (hook_event \<times> string) list \<times> err list" where
  "read_events A dir sp [] = ([], [])"
| "read_events A dir sp (name # names) =
     (let path = file_join dir name; rest = read_events A dir sp names in
      case (sp_read A path, map_of sp path) of
        (None, Some body) \<Rightarrow>
          (case sp_decode A body of
             Inl e \<Rightarrow> (fst rest, ErrWrap ''hookspool: read'' e # snd rest)
           | Inr event \<Rightarrow>
               if \<not> spooled (he_event event) \<or> he_account event = []
               then (fst rest, ErrMsg ''hookspool: does not describe an account event'' [path] # snd rest)
               else ((event, path) # fst rest, snd rest))
      | (Some e, _) \<Rightarrow> (fst rest, ErrWrap ''hookspool: read'' e # snd rest)
      | (None, None) \<Rightarrow> (fst rest, ErrMsg ''hookspool: read'' [path] # snd rest))"

text \<open>A directory that is not there holds nothing; \<open>sp_list\<close> is any other error.\<close>

definition spool_pending :: "spool_api \<Rightarrow> string \<Rightarrow> spool \<Rightarrow> (hook_event \<times> string) list \<times> err list" where
  "spool_pending A dir sp =
     (case sp_list A of
        Some e \<Rightarrow> ([], [ErrWrap ''hookspool: read'' e])
      | None \<Rightarrow> read_events A dir sp (sort_strings (json_names (dir_prefix dir) sp)))"

definition spool_done :: "spool_api \<Rightarrow> string \<Rightarrow> (spool, unit) prog" where
  "spool_done A path =
     (\<lambda>sp. case sp_remove A path of
        Some e \<Rightarrow> (Inl (ErrWrap ''hookspool: remove'' e), sp)
      | None \<Rightarrow> (Inr (), filter (\<lambda>f. fst f \<noteq> path) sp))"

section \<open>Only names of accounts\<close>

lemma first_found_in: "first_found xs = [] \<or> first_found xs \<in> set xs"
  by (induction xs) auto

lemma user_field_safe: "user_field fs k = [] \<or> safe_cpanel_user (user_field fs k)"
  by (auto simp: user_field_def split: option.splits json.splits)

lemma walk_json_safe: "walk_json v = [] \<or> safe_cpanel_user (walk_json v)"
proof (induction v rule: walk_json.induct)
  case (1 fs)
  let ?vals = "(case map_of fs ''data'' of Some d \<Rightarrow> walk_json d | None \<Rightarrow> [])
        # map (user_field fs) [''user'', ''username'', ''cpuser'']
        @ map (\<lambda>k. case map_of fs k of Some v \<Rightarrow> walk_json v | None \<Rightarrow> [])
            (sort_strings (filter (\<lambda>k. k \<noteq> ''data'') (map fst fs)))"
  have "\<forall>x \<in> set ?vals. x = [] \<or> safe_cpanel_user x"
    using 1 user_field_safe by (auto split: option.splits)
  moreover have "walk_json (JObject fs) = first_found ?vals" by (simp only: walk_json.simps)
  ultimately show ?case using first_found_in [of ?vals] by metis
next
  case (2 xs)
  have "walk_json (JArray xs) = first_found (map walk_json xs)" by (simp only: walk_json.simps)
  moreover have "\<forall>x \<in> set (map walk_json xs). x = [] \<or> safe_cpanel_user x" using 2 by auto
  ultimately show ?case using first_found_in [of "map walk_json xs"] by metis
qed simp_all

text \<open>
  C36. Whatever cPanel sends a hook, what is taken for the account is nothing or a name that can
  be one: one to sixteen bytes of lower-case letters, digits and underscores, not beginning
  with an underscore. In particular it names no path.
\<close>

theorem hook_account_is_a_name:
  "account_in A raw = [] \<or>
     length (account_in A raw) \<le> 16 \<and> list_all user_char (account_in A raw) \<and> hd (account_in A raw) \<noteq> CHR ''_'' \<and>
     CHR ''/'' \<notin> set (account_in A raw) \<and> CHR ''.'' \<notin> set (account_in A raw)"
proof -
  have ok: "length v \<le> 16 \<and> list_all user_char v \<and> hd v \<noteq> CHR ''_'' \<and> CHR ''/'' \<notin> set v \<and> CHR ''.'' \<notin> set v"
    if "safe_cpanel_user v" for v
  proof -
    from that have v: "length v \<le> 16" "list_all user_char v" "v \<noteq> []" "\<not> has_prefix v ''_''"
      by (auto simp: safe_cpanel_user_def split: if_splits)
    moreover have "\<not> user_char CHR ''/''" "\<not> user_char CHR ''.''" by (simp_all add: user_char_def char_in_def)
    moreover have "hd v \<noteq> CHR ''_''" using v(3,4) by (cases v) auto
    ultimately show ?thesis by (auto simp: list_all_iff)
  qed
  show ?thesis
    using walk_json_safe ok by (auto simp: account_in_def split: option.splits)
qed

section \<open>The order of events\<close>

lemma digits_val_acc: "digits_val acc xs = acc * 10 ^ length xs + digits_val 0 xs"
proof (induction xs arbitrary: acc)
  case (Cons x xs)
  show ?case using Cons [of "10 * acc + digit_val x"] Cons [of "digit_val x"] by (simp add: algebra_simps)
qed simp

lemma digits_val_less: "list_all is_digit xs \<Longrightarrow> digits_val 0 xs < 10 ^ length xs"
proof (induction xs)
  case (Cons x xs)
  then have "digit_val x + 1 \<le> 10" "digits_val 0 xs < 10 ^ length xs" by (auto simp: digit_val_def is_digit_def)
  then have "digit_val x * 10 ^ length xs \<le> 9 * 10 ^ length xs" by (intro mult_right_mono) simp_all
  with \<open>digits_val 0 xs < 10 ^ length xs\<close> have "digit_val x * 10 ^ length xs + digits_val 0 xs < 10 * 10 ^ length xs"
    by linarith
  then show ?case by (simp add: digits_val_acc [of "digit_val x"])
qed simp

text \<open>Numbers written with equally many digits compare as their texts do.\<close>

lemma digits_order:
  assumes "list_all is_digit xs" "list_all is_digit ys" "length xs = length ys" "digits_val 0 xs < digits_val 0 ys"
  shows "str_less (xs @ a) (ys @ b)"
  using assms(3,1,2,4)
proof (induction xs ys rule: list_induct2)
  case (Cons x xs y ys)
  then have xs: "digits_val 0 xs < 10 ^ length xs" and ys: "digits_val 0 ys < 10 ^ length xs"
    using digits_val_less [of xs] digits_val_less [of ys] by auto
  have less: "digit_val x * 10 ^ length xs + digits_val 0 xs < digit_val y * 10 ^ length xs + digits_val 0 ys"
    using Cons.prems Cons.hyps by (simp add: digits_val_acc [of "digit_val x"] digits_val_acc [of "digit_val y"])
  have "digit_val x \<le> digit_val y"
  proof (rule ccontr)
    assume "\<not> digit_val x \<le> digit_val y"
    then have "(digit_val y + 1) * 10 ^ length xs \<le> digit_val x * 10 ^ length xs" by (intro mult_right_mono) auto
    with less ys show False by simp
  qed
  then consider "digit_val x < digit_val y" | "digit_val x = digit_val y" by linarith
  then show ?case
  proof cases
    case 1
    have "(of_char x :: nat) < of_char y" using 1 by (simp add: digit_val_def)
    then show ?thesis by simp
  next
    case 2
    moreover have "48 \<le> (of_char x :: nat)" "48 \<le> (of_char y :: nat)" using Cons.prems by (simp_all add: is_digit_def)
    ultimately have "(of_char x :: nat) = of_char y" unfolding digit_val_def by linarith
    then have "x = y" by simp
    with Cons less 2 show ?thesis by (simp add: digits_val_acc [of "digit_val y"])
  qed
qed simp

lemma nat_str_length: "0 < n \<Longrightarrow> m < 10 ^ n \<Longrightarrow> length (nat_str m) \<le> n"
proof (induction n arbitrary: m)
  case (Suc n)
  show ?case
  proof (cases "m < 10")
    case True
    then show ?thesis by (simp add: nat_str.simps)
  next
    case False
    with Suc.prems have "0 < n" by (cases n) auto
    moreover have "m div 10 < 10 ^ n" using Suc.prems(2) by (simp add: less_mult_imp_div_less)
    ultimately show ?thesis using Suc.IH False by (subst nat_str.simps) simp
  qed
qed simp

lemma digits_val_zeros: "digits_val 0 (replicate n CHR ''0'' @ xs) = digits_val 0 xs"
  by (induction n) (simp_all add: digit_val_def)

lemma pad20_digits:
  assumes "0 \<le> i" "i < 2 ^ 63"
  shows "list_all is_digit (pad20 i)" "length (pad20 i) = 20" "digits_val 0 (pad20 i) = nat i"
proof -
  have "nat i < 2 ^ 63" using assms by (simp add: nat_less_iff)
  then have "length (nat_str (nat i)) \<le> 20" by (intro nat_str_length) simp_all
  then show "list_all is_digit (pad20 i)" "length (pad20 i) = 20" "digits_val 0 (pad20 i) = nat i"
    using assms nat_str_digits [of "nat i"] 
    by (auto simp: pad20_def digits_val_nat_str digits_val_zeros list_all_iff is_digit_def)
qed

text \<open>The moments a nanosecond count since 1970 can hold.\<close>

definition countable_time :: "instant \<Rightarrow> bool" where
  "countable_time t \<longleftrightarrow> unix_epoch \<le> t \<and> t < unix_epoch + 2 ^ 63"

lemma unix_nano_exact: "countable_time t \<Longrightarrow> unix_nano t = t - unix_epoch"
  by (simp add: countable_time_def unix_nano_def int_word_sint del: of_int_diff)

lemma event_base_order:
  assumes "countable_time (he_at e)" "countable_time (he_at f)" "he_at e < he_at f"
  shows "str_less (event_base e @ a) (event_base f @ b)"
proof -
  let ?i = "he_at e - unix_epoch" and ?j = "he_at f - unix_epoch"
  have i: "0 \<le> ?i" "?i < 2 ^ 63" and j: "0 \<le> ?j" "?j < 2 ^ 63" "?i < ?j" using assms by (auto simp: countable_time_def)
  have "str_less (pad20 ?i @ (''-'' @ he_event e @ ''-'' @ he_account e @ a))
      (pad20 ?j @ (''-'' @ he_event f @ ''-'' @ he_account f @ b))"
    using pad20_digits [OF i] pad20_digits [OF j(1,2)] i j by (intro digits_order) simp_all
  then show ?thesis using assms by (simp add: event_base_def unix_nano_exact)
qed

section \<open>What the directory holds\<close>

text \<open>An event whose file name can be read back: its account names no directory.\<close>

definition nameable :: "hook_event \<Rightarrow> bool" where
  "nameable e \<longleftrightarrow> countable_time (he_at e) \<and> spooled (he_event e) \<and> CHR ''/'' \<notin> set (he_account e)"

definition attempt_suffix :: "nat \<Rightarrow> string" where
  "attempt_suffix n = (if n > 0 then ''-'' @ itoa (int n) else []) @ ''.json''"

lemma digit_not_slash: "is_digit c \<Longrightarrow> c \<noteq> CHR ''/''"
  by (auto simp: is_digit_def)

lemma event_path_name:
  assumes "good_dir dir" "nameable e"
  shows "event_path dir (event_base e) n = dir @ ''/'' @ event_base e @ attempt_suffix n"
    "CHR ''/'' \<notin> set (event_base e @ attempt_suffix n)" "plain_seg (event_base e @ attempt_suffix n)"
proof -
  have i: "0 \<le> he_at e - unix_epoch" "he_at e - unix_epoch < 2 ^ 63"
    using assms(2) by (auto simp: nameable_def countable_time_def)
  have digits: "CHR ''/'' \<notin> set w" if "list_all is_digit w" for w
    using that by (auto simp: list_all_iff dest: digit_not_slash)
  have "CHR ''/'' \<notin> set (pad20 (unix_nano (he_at e)))" "CHR ''/'' \<notin> set (he_event e)" "CHR ''/'' \<notin> set (he_account e)"
    using digits [OF pad20_digits(1) [OF i]] assms(2) by (auto simp: nameable_def spooled_def unix_nano_exact)
  then have "CHR ''/'' \<notin> set (event_base e)" by (simp add: event_base_def)
  moreover have "CHR ''/'' \<notin> set (attempt_suffix n)"
    using digits [OF nat_str_digits [of n]] by (simp add: attempt_suffix_def itoa_def)
  ultimately show no: "CHR ''/'' \<notin> set (event_base e @ attempt_suffix n)" by simp
  have "length (event_base e) > 2" using pad20_digits(2) [OF i] assms(2)
    by (simp add: event_base_def nameable_def unix_nano_exact)
  then have "length (event_base e @ attempt_suffix n) > 2" by simp
  then have "event_base e @ attempt_suffix n \<notin> {[], ''.'', ''..''}"
    by (metis empty_iff insert_iff length_Cons less_numeral_extra(3) list.size(3) not_less_iff_gr_or_eq numeral_2_eq_2 One_nat_def lessI not_less0)
  with no show seg: "plain_seg (event_base e @ attempt_suffix n)" by (simp add: plain_seg_def)
  from good_dir_facts(2) [OF assms(1) seg]
  show "event_path dir (event_base e) n = dir @ ''/'' @ event_base e @ attempt_suffix n"
    by (auto simp: event_path_def attempt_suffix_def)
qed

text \<open>
  Every file that decodes holds the event its name was made from, and no two files have the same
  name.
\<close>

definition spool_sound :: "(string \<Rightarrow> hook_event res) \<Rightarrow> string \<Rightarrow> spool \<Rightarrow> bool" where
  "spool_sound dec dir sp \<longleftrightarrow>
     distinct (map fst sp) \<and>
     (\<forall>p body e. (p, body) \<in> set sp \<longrightarrow> dec body = Inr e \<longrightarrow>
        nameable e \<and> (\<exists>n. p = dir @ ''/'' @ event_base e @ attempt_suffix n))"

text \<open>
  What the code relies on in \<open>encoding/json\<close>: an encoded event decodes to itself, and a cut-off
  encoding does not decode.
\<close>

definition codec :: "(hook_event \<Rightarrow> string res) \<Rightarrow> (string \<Rightarrow> hook_event res) \<Rightarrow> bool" where
  "codec enc dec \<longleftrightarrow>
     (\<forall>e b. enc e = Inr b \<longrightarrow> dec b = Inr e \<and> (\<forall>n < length b. \<exists>err. dec (take n b) = Inl err))"

text \<open>The directory over time: hooks write, the service removes what it has recorded.\<close>

inductive spooling :: "(hook_event \<Rightarrow> string res) \<Rightarrow> (string \<Rightarrow> hook_event res) \<Rightarrow> string \<Rightarrow> spool \<Rightarrow> bool"
  for enc dec dir where
  spooling_new: "spooling enc dec dir []"
| spooling_write: "spooling enc dec dir sp \<Longrightarrow> sp_encode A = enc \<Longrightarrow> nameable (completed_event A e) \<Longrightarrow>
    spool_write A dir e sp = (r, sp') \<Longrightarrow> spooling enc dec dir sp'"
| spooling_done: "spooling enc dec dir sp \<Longrightarrow> spool_done A path sp = (u, sp') \<Longrightarrow> spooling enc dec dir sp'"

lemma spool_sound_added:
  assumes "spool_sound dec dir sp" "map_of sp p = None" "nameable e" "p = dir @ ''/'' @ event_base e @ attempt_suffix n"
    and "\<And>f. dec b = Inr f \<Longrightarrow> f = e"
  shows "spool_sound dec dir ((p, b) # sp)"
  using assms by (fastforce simp: spool_sound_def map_of_eq_None_iff)

lemma write_attempts_sound:
  assumes "good_dir dir" "codec enc dec" "enc e = Inr body" "nameable e"
  shows "spool_sound dec dir sp \<Longrightarrow> write_attempts A dir (event_base e) body ns sp = (r, sp') \<Longrightarrow> spool_sound dec dir sp'"
proof (induction ns)
  case (Cons n ns)
  note path = event_path_name(1) [OF assms(1,4)]
  have part: "dec (take k body) = Inr f \<Longrightarrow> f = e" for k f
    using assms(2,3) unfolding codec_def by (cases "k < length body") (metis Inl_Inr_False, auto)
  from Cons.prems(2) consider "map_of sp (event_path dir (event_base e) n) \<noteq> None" "write_attempts A dir (event_base e) body ns sp = (r, sp')"
    | "sp' = sp" | k where "map_of sp (event_path dir (event_base e) n) = None" "sp' = (event_path dir (event_base e) n, take k body) # sp"
    by (auto simp: Let_def split: if_splits option.splits) (metis order_refl take_all)
  then show ?case
  proof cases
    case 1
    with Cons show ?thesis by blast
  next
    case 2
    with Cons.prems(1) show ?thesis by simp
  next
    case (3 k)
    with spool_sound_added [OF Cons.prems(1) 3(1) assms(4) path part] show ?thesis by simp
  qed
qed (simp add: prog_fail_def)

lemma spooling_sound:
  assumes "spooling enc dec dir sp" "good_dir dir" "codec enc dec"
  shows "spool_sound dec dir sp"
  using assms(1)
proof induction
  case (spooling_write sp A e r sp')
  then show ?case
    using write_attempts_sound [OF assms(2,3)]
    by (auto simp: spool_write_def prog_fail_def Let_def split: if_splits option.splits sum.splits)
next
  case (spooling_done sp A path u sp')
  then show ?case by (auto simp: spool_sound_def spool_done_def distinct_map_filter split: option.splits)
qed (simp add: spool_sound_def)

lemma read_events_from:
  assumes "spool_sound (sp_decode A) dir sp" "good_dir dir"
    and "sorted_wrt (\<lambda>a b. \<not> str_less b a) names" "\<forall>name \<in> set names. plain_seg name"
  shows "sorted (map (\<lambda>x. he_at (fst x)) (fst (read_events A dir sp names))) \<and>
     (\<forall>e path. (e, path) \<in> set (fst (read_events A dir sp names)) \<longrightarrow>
        nameable e \<and> (\<exists>name \<in> set names. \<exists>n. name = event_base e @ attempt_suffix n))"
  using assms(3,4)
proof (induction names)
  case (Cons name names)
  have ih: "sorted (map (\<lambda>x. he_at (fst x)) (fst (read_events A dir sp names)))"
    "(e, path) \<in> set (fst (read_events A dir sp names)) \<Longrightarrow>
       nameable e \<and> (\<exists>name \<in> set names. \<exists>n. name = event_base e @ attempt_suffix n)" for e path
    using Cons by simp_all blast+
  have here: "nameable e \<and> (\<exists>n. name = event_base e @ attempt_suffix n)"
    if "map_of sp (file_join dir name) = Some body" "sp_decode A body = Inr e" for body e
    using assms(1) that good_dir_facts(2) [OF assms(2)] Cons.prems(2)
    by (fastforce simp: spool_sound_def dest!: map_of_SomeD)
  have before: "he_at e \<le> he_at f"
    if "nameable e" "name = event_base e @ attempt_suffix n" "(f, path) \<in> set (fst (read_events A dir sp names))" for e n f path
  proof (rule ccontr)
    assume late: "\<not> he_at e \<le> he_at f"
    from ih(2) [OF that(3)] obtain m name2 where f: "nameable f" "name2 \<in> set names" "name2 = event_base f @ attempt_suffix m"
      by blast
    with late that(1,2) have "str_less name2 name" by (auto simp: nameable_def intro: event_base_order)
    with f(2) Cons.prems(1) show False by auto
  qed
  show ?case using ih here before by (auto simp: Let_def split: option.splits sum.splits if_splits) (blast+)?
qed simp

lemma json_names_plain: "name \<in> set (json_names pre sp) \<Longrightarrow> plain_seg name"
  by (induction pre sp rule: json_names.induct)
     (auto simp: plain_seg_def has_suffix_def split: option.splits if_splits)

text \<open>
  C22. However hooks and the service took turns, and whatever calls failed and left half an event
  behind, the events waiting in the spool are handed to the service in the order in which they
  happened.
\<close>

theorem pending_in_event_order:
  assumes "spooling enc dec dir sp" "good_dir dir" "codec enc dec" "sp_decode A = dec"
  shows "sorted (map (\<lambda>x. he_at (fst x)) (fst (spool_pending A dir sp)))"
proof -
  have "sorted (map (\<lambda>x. he_at (fst x)) (fst (read_events A dir sp (sort_strings (json_names (dir_prefix dir) sp)))))"
    using read_events_from [of A dir sp "sort_strings (json_names (dir_prefix dir) sp)"]
      spooling_sound [OF assms(1-3)] assms(2,4) str_order.sorted_go_sort json_names_plain
    by (simp add: sort_strings_def)
  then show ?thesis by (simp add: spool_pending_def split: option.splits)
qed

lemma read_events_finds:
  "name \<in> set names \<Longrightarrow> sp_read A (file_join dir name) = None \<Longrightarrow> map_of sp (file_join dir name) = Some body \<Longrightarrow>
     sp_decode A body = Inr e \<Longrightarrow> spooled (he_event e) \<Longrightarrow> he_account e \<noteq> [] \<Longrightarrow>
     (e, file_join dir name) \<in> set (fst (read_events A dir sp names))"
  by (induction names) (auto simp: Let_def split: option.splits sum.splits)

lemma json_names_finds:
  "(pre @ name, body) \<in> set sp \<Longrightarrow> plain_seg name \<Longrightarrow> has_suffix name ''.json'' \<Longrightarrow> name \<in> set (json_names pre sp)"
  by (induction pre sp rule: json_names.induct) (auto simp: plain_seg_def cut_prefix_def has_prefix_iff split: option.splits)

lemma write_attempts_Inr:
  "write_attempts A dir base body ns sp = (Inr path, sp') \<Longrightarrow>
     \<exists>n. path = event_path dir base n \<and> sp' = (path, body) # sp"
  by (induction ns) (auto simp: prog_fail_def Let_def split: if_splits option.splits)

text \<open>
  A hook that was told its event is kept can rely on it: the event, with the moment and the
  account filled in, is among those the service finds waiting.
\<close>

theorem written_event_is_pending:
  assumes "spool_write A dir e sp = (Inr path, sp')" "good_dir dir" "codec (sp_encode A) (sp_decode B)"
    and "nameable (completed_event A e)" "he_account (completed_event A e) \<noteq> []"
    and "sp_list B = None" "sp_read B path = None"
  shows "(completed_event A e, path) \<in> set (fst (spool_pending B dir sp'))"
proof -
  let ?e = "completed_event A e"
  from assms(1) obtain body n where w: "sp_encode A ?e = Inr body" "path = event_path dir (event_base ?e) n" "sp' = (path, body) # sp"
    by (auto simp: spool_write_def prog_fail_def Let_def split: if_splits option.splits sum.splits dest!: write_attempts_Inr)
  let ?name = "event_base ?e @ attempt_suffix n"
  have path: "path = dir @ ''/'' @ ?name" and name: "plain_seg ?name"
    using event_path_name(1,3) [OF assms(2,4)] w(2) by simp_all
  then have join: "file_join dir ?name = path" using good_dir_facts(2) [OF assms(2)] by simp
  have "has_suffix ?name ''.json''" by (simp add: attempt_suffix_def has_suffix_def)
  then have "?name \<in> set (json_names (dir_prefix dir) sp')"
    using json_names_finds [of "dir_prefix dir" ?name body sp'] name path w(3) good_dir_facts(1) [OF assms(2)] by simp
  moreover have "sp_decode B body = Inr ?e" using assms(3) w(1) by (simp add: codec_def)
  ultimately have "(?e, file_join dir ?name) \<in> set (fst (read_events B dir sp' (sort_strings (json_names (dir_prefix dir) sp'))))"
    using assms(4,5,7) w(3) join by (intro read_events_finds) (auto simp: nameable_def)
  with join show ?thesis using assms(6) by (simp add: spool_pending_def)
qed

section \<open>A spool with two events\<close>

definition ended :: hook_event where
  "ended = \<lparr>he_at = unix_epoch + 7, he_event = ''remove'', he_account = ''bob'', he_payload = []\<rparr>"

definition begun :: hook_event where
  "begun = \<lparr>he_at = unix_epoch + 12, he_event = ''create'', he_account = ''bob'', he_payload = []\<rparr>"

definition two_events :: spool_api where
  "two_events = \<lparr>sp_mkdir = None, sp_open = \<lambda>p. None, sp_write = \<lambda>p. None, sp_list = None, sp_read = \<lambda>p. None,
     sp_remove = \<lambda>p. None,
     sp_encode = \<lambda>e. if e = ended then Inr ''1'' else if e = begun then Inr ''2'' else Inl (ErrMsg ''json'' []),
     sp_decode = \<lambda>b. if b = ''1'' then Inr ended else if b = ''2'' then Inr begun else Inl (ErrMsg ''json'' []),
     sp_json = \<lambda>s. None, sp_now = zero_time\<rparr>"

lemma two_codec: "codec (sp_encode two_events) (sp_decode two_events)"
  by (auto simp: codec_def two_events_def split: if_splits)

lemma two_nameable: "completed_event two_events ended = ended" "completed_event two_events begun = begun"
    "nameable ended" "nameable begun"
  by (simp_all add: completed_event_def ended_def begun_def nameable_def countable_time_def spooled_def is_zero_def
      zero_time_def unix_epoch_def)

lemma two_dir: "good_dir ''/s''"
  by code_simp

lemma two_pads: "pad20 7 = ''00000000000000000007''" "pad20 12 = ''00000000000000000012''"
  by code_simp+

lemma two_bases: "event_base ended = ''00000000000000000007-remove-bob''" "event_base begun = ''00000000000000000012-create-bob''"
  using two_nameable(3,4)
  by (simp_all add: event_base_def unix_nano_exact nameable_def) (simp_all add: ended_def begun_def two_pads)

lemma two_paths: "event_path ''/s'' (event_base ended) n = ''/s/00000000000000000007-remove-bob'' @ attempt_suffix n"
    "event_path ''/s'' (event_base begun) n = ''/s/00000000000000000012-create-bob'' @ attempt_suffix n"
  unfolding event_path_name(1) [OF two_dir two_nameable(3)] event_path_name(1) [OF two_dir two_nameable(4)]
  by (simp_all add: two_bases)

definition first_spool :: spool where
  "first_spool = [(''/s/00000000000000000012-create-bob.json'', ''2'')]"

definition second_spool :: spool where
  "second_spool = (''/s/00000000000000000007-remove-bob.json'', ''1'') # first_spool"

lemma two_writes:
  "spool_write two_events ''/s'' begun [] = (Inr ''/s/00000000000000000012-create-bob.json'', first_spool)"
  "spool_write two_events ''/s'' ended first_spool = (Inr ''/s/00000000000000000007-remove-bob.json'', second_spool)"
proof -
  have "[0 ..< 100] = (0::nat) # [1 ..< 100]" by (simp add: upt_rec)
  then show "spool_write two_events ''/s'' begun [] = (Inr ''/s/00000000000000000012-create-bob.json'', first_spool)"
    "spool_write two_events ''/s'' ended first_spool = (Inr ''/s/00000000000000000007-remove-bob.json'', second_spool)"
    using two_nameable two_paths [of 0]
    by (simp_all add: spool_write_def Let_def max_payload_def attempt_suffix_def two_events_def nameable_def)
       (simp_all add: begun_def ended_def first_spool_def second_spool_def)
qed

lemma spooling_two: "spooling (sp_encode two_events) (sp_decode two_events) ''/s'' second_spool"
  by (rule spooling_write [OF spooling_write [OF spooling_new refl _ two_writes(1)] refl _ two_writes(2)])
     (simp_all add: two_nameable)

theorem pending_in_event_order_witness:
  "sorted (map (\<lambda>x. he_at (fst x)) (fst (spool_pending two_events ''/s'' second_spool)))"
  using pending_in_event_order [OF spooling_two two_dir two_codec refl] .

theorem written_event_is_pending_witness:
  "(ended, ''/s/00000000000000000007-remove-bob.json'') \<in> set (fst (spool_pending two_events ''/s'' second_spool))"
  using written_event_is_pending [OF two_writes(2) two_dir two_codec] two_nameable
  by (simp add: two_events_def ended_def)

end
