(* ===== verification/Node_Lifecycle.thy ===== *)
theory Node_Lifecycle
  imports Node_Queue Hook_Spool "HOL-Library.AList"
begin

text \<open>
  Catching up with cPanel: the replay of what hooks left in the spool and the reconciliation of the
  account list, \<open>ReplayHookSpool\<close> and \<open>reconcileAccounts\<close> of \<open>internal/node/identity.go\<close>. An
  iteration reads the clock once (\<open>ms\<close>); the order in which Go walks a map is a parameter.
\<close>

section \<open>Replaying the spool\<close>

definition on_spool :: "(spool, 'a) prog \<Rightarrow> ('db, 'x, 'a) eprog" where
  "on_spool m = (\<lambda>s. case m (es_spool s) of (r, sp) \<Rightarrow> (r, s\<lparr>es_spool := sp\<rparr>))"

text \<open>\<open>errors.Is (err, ErrNoSuchAccount)\<close>\<close>

definition no_such_account :: "err \<Rightarrow> bool" where
  "no_such_account e \<longleftrightarrow> (case err_root e of ErrNoSuchAccount _ \<Rightarrow> True | _ \<Rightarrow> False)"

definition replay_event :: "('db, 'x) engine \<Rightarrow> host \<Rightarrow> moment \<Rightarrow> hook_event \<Rightarrow> ('db, 'x, unit) eprog" where
  "replay_event E H m ev =
     (if he_event ev = ''create'' then account_created E H m (he_account ev) (he_at ev)
      else if he_event ev = ''remove'' then account_removed E m (he_account ev)
      else prog_return ())"

definition replay_entry :: "('db, 'x) engine \<Rightarrow> host \<Rightarrow> spool_api \<Rightarrow> moment \<Rightarrow> hook_event \<times> string \<Rightarrow> ('db, 'x, unit) eprog" where
  "replay_entry E H A m entry =
     prog_bind (attempt (replay_event E H m (fst entry))) (\<lambda>r. case r of
       Inl e \<Rightarrow> if no_such_account e then quietly (on_spool (spool_done A (snd entry))) else prog_return ()
     | Inr _ \<Rightarrow>
         prog_bind (attempt (on_spool (spool_done A (snd entry)))) (\<lambda>cleared. case cleared of
           Inl _ \<Rightarrow> prog_return ()
         | Inr _ \<Rightarrow>
             if he_event (fst entry) \<noteq> ''create'' then prog_return ()
             else quietly (queue_initial_backup E m (he_account (fst entry)))))"

fun replay_loop :: "('db, 'x) engine \<Rightarrow> host \<Rightarrow> spool_api \<Rightarrow> (nat \<Rightarrow> moment) \<Rightarrow> nat \<Rightarrow> (hook_event \<times> string) list \<Rightarrow>
    ('db, 'x, unit) eprog" where
  "replay_loop E H A ms i [] = prog_return ()"
| "replay_loop E H A ms i (entry # es) =
     prog_bind (replay_entry E H A (ms i) entry) (\<lambda>_. replay_loop E H A ms (i + 1) es)"

definition replay_hook_spool :: "('db, 'x) engine \<Rightarrow> host \<Rightarrow> spool_api \<Rightarrow> string \<Rightarrow> (nat \<Rightarrow> moment) \<Rightarrow> ('db, 'x, unit) eprog" where
  "replay_hook_spool E H A dir ms =
     (if dir = [] then prog_return ()
      else (\<lambda>s. replay_loop E H A ms 0 (fst (spool_pending A dir (es_spool s))) s))"

section \<open>Reconciling the account list\<close>

fun current_accounts :: "host \<Rightarrow> account_info list \<Rightarrow> (string \<times> int) list \<Rightarrow> (string \<times> int) list" where
  "current_accounts H [] current = current"
| "current_accounts H (a # as) current =
     (case account_uid H (ac_user a) of
        Inl _ \<Rightarrow> current_accounts H as current
      | Inr uid \<Rightarrow> current_accounts H as (AList.update (ac_user a) uid current))"

definition by_name :: "account_identity list \<Rightarrow> string \<Rightarrow> account_identity option" where
  "by_name ids = map_of (rev (map (\<lambda>a. (ai_account a, a)) ids))"

text \<open>The first record of the uid that is not retired and whose name is gone.\<close>

fun find_renamed :: "(string \<times> int) list \<Rightarrow> int \<Rightarrow> nat \<Rightarrow> account_identity list \<Rightarrow> nat option" where
  "find_renamed current uid i [] = None"
| "find_renamed current uid i (c # cs) =
     (if ai_uid c \<noteq> uid \<or> ai_retired_at c \<noteq> None then find_renamed current uid (i + 1) cs
      else if map_of current (ai_account c) = None then Some i
      else find_renamed current uid (i + 1) cs)"

definition renamed_identity :: "string \<Rightarrow> int \<Rightarrow> account_identity \<Rightarrow> account_identity" where
  "renamed_identity name uid from =
     (fresh_identity name uid (ai_since_at from) (ai_recycled from))\<lparr>ai_created_at := ai_created_at from\<rparr>"

definition reconcile_name :: "('db, 'x) engine \<Rightarrow> host \<Rightarrow> bool \<Rightarrow> (string \<times> int) list \<Rightarrow> (string \<Rightarrow> account_identity option) \<Rightarrow>
    moment \<Rightarrow> account_identity list \<Rightarrow> string \<times> int \<Rightarrow> ('db, 'x, account_identity list) eprog" where
  "reconcile_name E H allow current known m ids account =
     (case account of (name, uid) \<Rightarrow>
       (case known name of
          Some identity \<Rightarrow>
            prog_bind (if ai_uid identity = uid \<and> ai_retired_at identity = None then store_identity E m identity
                       else note_identity E H m name) (\<lambda>_. prog_return ids)
        | None \<Rightarrow>
            (case (if allow then find_renamed current uid 0 ids else None) of
               None \<Rightarrow> prog_bind (note_identity E H m name) (\<lambda>_. prog_return ids)
             | Some i \<Rightarrow>
                 let from = ids ! i; gone = from\<lparr>ai_retired_at := Some (mo_now m)\<rparr> in
                 prog_bind (rename_policy_account E m (ai_account from) name) (\<lambda>_.
                 prog_bind (store_identity E m (renamed_identity name uid from)) (\<lambda>_.
                 prog_bind (store_identity E m gone) (\<lambda>_. prog_return (ids[i := gone])))))))"

fun reconcile_loop :: "('db, 'x) engine \<Rightarrow> host \<Rightarrow> bool \<Rightarrow> (string \<times> int) list \<Rightarrow> (string \<Rightarrow> account_identity option) \<Rightarrow>
    (nat \<Rightarrow> moment) \<Rightarrow> nat \<Rightarrow> account_identity list \<Rightarrow> (string \<times> int) list \<Rightarrow> ('db, 'x, unit) eprog" where
  "reconcile_loop E H allow current known ms i ids [] = prog_return ()"
| "reconcile_loop E H allow current known ms i ids (a # as) =
     prog_bind (reconcile_name E H allow current known (ms i) ids a) (\<lambda>ids.
       reconcile_loop E H allow current known ms (i + 1) ids as)"

definition reconcile_accounts :: "('db, 'x) engine \<Rightarrow> host \<Rightarrow> spool_api \<Rightarrow> string \<Rightarrow> ((string \<times> int) list \<Rightarrow> (string \<times> int) list) \<Rightarrow>
    (nat \<Rightarrow> moment) \<Rightarrow> (nat \<Rightarrow> moment) \<Rightarrow> bool \<Rightarrow> ('db, 'x, unit) eprog" where
  "reconcile_accounts E H A dir ord rs ms allow =
     prog_bind (replay_hook_spool E H A dir rs) (\<lambda>_.
     prog_bind (prog_lift (ho_accounts H)) (\<lambda>accounts.
     prog_bind (on_store (identities (eg_store E))) (\<lambda>ids.
       let current = current_accounts H accounts [] in
       reconcile_loop E H allow current (by_name ids) ms 0 ids (ord current))))"

section \<open>Neither forgets a boundary\<close>

lemma boundary_kept_spool [boundary_kept]: "maintains (boundary E account t) (on_spool m)"
  by (simp add: maintains_def on_spool_def boundary_def split: prod.splits)

lemma boundary_kept_queue [boundary_kept]:
  fixes E :: "('db, 'x) engine"
  assumes "bolt_store (eg_store E)"
  shows "maintains (boundary E account t) (queue_backup E m p n)"
    "maintains (boundary E account t) (queue_initial_backup E m n)"
proof -
  have reads: "maintains (boundary E account t) (on_store (running_job_for (eg_store E) n) :: ('db, 'x, bool) eprog)" for n
    by (intro maintains_reads reads_only_store) simp
  have put: "maintains (boundary E account t) (on_store (put_job (eg_store E) i now j) :: ('db, 'x, node_job) eprog)" for i now j
    by (rule maintains_boundary_store) (simp add: put_job_def Let_def s_put_return_snd put_get_other [OF assms])
  show b: "maintains (boundary E account t) (queue_backup E m p n)" for p
    unfolding queue_backup_def
    by (intro maintains_bind reads maintains_if maintains_basic put)
  show "maintains (boundary E account t) (queue_initial_backup E m n)"
    unfolding queue_initial_backup_def
    by (intro maintains_bind reads maintains_if maintains_reads [OF reads_only_identity(3)] maintains_basic)
       (auto simp: maintains_basic split: option.splits intro!: maintains_bind b)
qed

lemma boundary_kept_entry [boundary_kept]:
  assumes "bolt_store (eg_store E)"
  shows "maintains (boundary E account t) (replay_entry E H A m e)"
proof -
  note kept = boundary_kept_created [OF assms] boundary_kept_removed [OF assms] boundary_kept_spool
    boundary_kept_queue [OF assms] maintains_basic
  show ?thesis
    unfolding replay_entry_def replay_event_def
    by (rule maintains_bind [OF maintains_attempt])
       (auto split: sum.splits intro!: kept maintains_quietly maintains_bind maintains_attempt)
qed

lemma boundary_kept_replay_loop:
  "bolt_store (eg_store E) \<Longrightarrow> maintains (boundary E account t) (replay_loop E H A ms i es)"
  by (induction es arbitrary: i) (auto intro!: maintains_bind boundary_kept_entry maintains_basic simp: maintains_pair)

lemma boundary_kept_replay [boundary_kept]:
  "bolt_store (eg_store E) \<Longrightarrow> maintains (boundary E account t) (replay_hook_spool E H A dir ms)"
  using boundary_kept_replay_loop [of E account t H A ms 0]
  by (auto simp: replay_hook_spool_def maintains_def prog_return_def)

text \<open>What the reconciliation remembers of the store does not contradict the boundary.\<close>

definition agrees :: "string \<Rightarrow> instant \<Rightarrow> account_identity list \<Rightarrow> bool" where
  "agrees account t ids \<longleftrightarrow> (\<forall>a \<in> set ids. ai_account a = account \<longrightarrow> bounded t a)"

definition knows :: "string \<Rightarrow> instant \<Rightarrow> (string \<Rightarrow> account_identity option) \<Rightarrow> bool" where
  "knows account t known \<longleftrightarrow> known account \<noteq> None \<and>
     (\<forall>n a. known n = Some a \<longrightarrow> ai_account a = n \<and> (n = account \<longrightarrow> bounded t a))"

lemma find_renamed_bound: "find_renamed current uid i ids = Some k \<Longrightarrow> i \<le> k \<and> k < i + length ids"
  by (induction current uid i ids rule: find_renamed.induct) (fastforce split: if_splits)+

lemma boundary_kept_reconcile_name:
  assumes "bolt_store (eg_store E)" "t \<le> mo_now m" "agrees account t ids" "knows account t known" "boundary E account t s"
  shows "boundary E account t (snd (reconcile_name E H allow current known m ids a s)) \<and>
    (\<forall>ids' s'. reconcile_name E H allow current known m ids a s = (Inr ids', s') \<longrightarrow> agrees account t ids')"
proof -
  obtain name uid where a: "a = (name, uid)" by (cases a)
  note kept = boundary_kept_identity [OF assms(1)] boundary_kept_note [OF assms(1,2)] boundary_kept_policies(3) [OF assms(1)]
    maintains_basic(1)
  show ?thesis
  proof (cases "known name")
    case (Some identity)
    then have "ai_account identity \<noteq> account \<or> bounded t identity" using assms(4) by (auto simp: knows_def)
    then have "maintains (boundary E account t) (prog_bind (if ai_uid identity = uid \<and> ai_retired_at identity = None
        then store_identity E m identity else note_identity E H m name) (\<lambda>_. prog_return ids))"
      by (intro maintains_bind maintains_if kept)
    then show ?thesis
      using assms(3,5) Some by (auto simp: reconcile_name_def a maintains_def prog_bind_eq_Inr)
  next
    case None
    show ?thesis
    proof (cases "if allow then find_renamed current uid 0 ids else None")
      case no: None
      have "maintains (boundary E account t) (prog_bind (note_identity E H m name) (\<lambda>_. prog_return ids))"
        by (intro maintains_bind kept)
      then show ?thesis
        using assms(3,5) None no by (auto simp: reconcile_name_def a maintains_def prog_bind_eq_Inr)
    next
      case (Some i)
      then have "i < length ids" using find_renamed_bound [of current uid 0 ids i] by (auto split: if_splits)
      then have fr: "ai_account (ids ! i) \<noteq> account \<or> bounded t (ids ! i)" using assms(3) by (auto simp: agrees_def)
      let ?gone = "(ids ! i)\<lparr>ai_retired_at := Some (mo_now m)\<rparr>"
      have gone: "ai_account ?gone \<noteq> account \<or> bounded t ?gone" using fr by (auto simp: bounded_def)
      have "name \<noteq> account" using None assms(4) by (auto simp: knows_def)
      then have new: "ai_account (renamed_identity name uid (ids ! i)) \<noteq> account"
        by (simp add: renamed_identity_def fresh_identity_def)
      have "maintains (boundary E account t) (prog_bind (rename_policy_account E m (ai_account (ids ! i)) name) (\<lambda>_.
          prog_bind (store_identity E m (renamed_identity name uid (ids ! i))) (\<lambda>_.
          prog_bind (store_identity E m ?gone) (\<lambda>_. prog_return (ids[i := ?gone])))))"
        using new gone by (intro maintains_bind kept) auto
      moreover have "agrees account t (ids[i := ?gone])"
        using assms(3) gone set_update_subset_insert [of ids i ?gone] by (auto simp: agrees_def)
      ultimately show ?thesis
        using assms(5) None Some by (auto simp: reconcile_name_def a maintains_def prog_bind_eq_Inr Let_def)
    qed
  qed
qed

lemma boundary_kept_reconcile_loop:
  assumes "bolt_store (eg_store E)" "\<And>k. t \<le> mo_now (ms k)" "knows account t known"
  shows "agrees account t ids \<Longrightarrow> boundary E account t s \<Longrightarrow>
    boundary E account t (snd (reconcile_loop E H allow current known ms i ids as s))"
proof (induction as arbitrary: i ids s)
  case (Cons a as)
  note step = boundary_kept_reconcile_name [OF assms(1) assms(2) [of i] Cons.prems(1) assms(3) Cons.prems(2),
      where a = a and H = H and allow = allow and current = current]
  show ?case
    unfolding reconcile_loop.simps
  proof (rule maintains_from)
    fix ids' s' assume "reconcile_name E H allow current known (ms i) ids a s = (Inr ids', s')" "boundary E account t s'"
    with step have "agrees account t ids'" by blast
    then show "boundary E account t (snd (reconcile_loop E H allow current known ms (i + 1) ids' as s'))"
      by (rule Cons.IH) fact
  qed (use step in blast)
qed (simp add: prog_return_def)

lemma boundary_kept_reconcile [boundary_kept]:
  assumes "bolt_store (eg_store E)" "\<And>k. t \<le> mo_now (ms k)"
  shows "maintains (boundary E account t) (reconcile_accounts E H A dir ord rs ms allow)"
  unfolding reconcile_accounts_def Let_def
proof (rule maintains_bind [OF boundary_kept_replay [OF assms(1)] maintains_bind [OF maintains_basic(3)]])
  fix accounts
  show "maintains (boundary E account t) (prog_bind (on_store (identities (eg_store E))) (\<lambda>ids.
      reconcile_loop E H allow (current_accounts H accounts []) (by_name ids) ms 0 ids (ord (current_accounts H accounts []))))"
    unfolding maintains_def
  proof (intro allI impI, rule maintains_from)
    fix s ids s' assume b: "boundary E account t s" "on_store (identities (eg_store E)) s = (Inr ids, s')" "boundary E account t s'"
    then have l: "identities (eg_store E) (es_db s) = (Inr ids, es_db s)"
      using snd_reading(5) [of "eg_store E" "es_db s"]
      by (cases "identities (eg_store E) (es_db s)") (auto simp: on_store_def)
    have elem: "a \<in> set ids \<longleftrightarrow> stored (eg_store E) BIdentities as_identity a (es_db s)" for a
      using bolt_store.sorted_list_Inr(2) [OF assms(1) l [unfolded identities_def]] .
    have "a \<in> set ids \<longleftrightarrow> bo_get (eg_store E) BIdentities (ai_account a) (es_db s) = Some (DIdentity a)" for a
      using b(1) unfolding elem stored_def boundary_def identities_keyed_def
      by auto
    note elem = this
    from b(1) obtain a where a: "bo_get (eg_store E) BIdentities account (es_db s) = Some (DIdentity a)" "bounded t a"
      "ai_account a = account" by (auto simp: boundary_def identities_keyed_def)
    have agr: "agrees account t ids" using a by (auto simp: agrees_def elem)
    have kn: "by_name ids n = Some c \<Longrightarrow> c \<in> set ids \<and> ai_account c = n" for n c
      by (auto simp: by_name_def dest!: map_of_SomeD)
    have "account \<in> dom (by_name ids)"
      using a elem by (auto simp: by_name_def dom_map_of_conv_image_fst image_iff)
    then have "knows account t (by_name ids)" using kn agr by (auto simp: knows_def agrees_def)
    with agr b(3) show "boundary E account t (snd (reconcile_loop E H allow (current_accounts H accounts []) (by_name ids) ms 0 ids
        (ord (current_accounts H accounts [])) s'))"
      by (intro boundary_kept_reconcile_loop [OF assms])
  next
    fix s assume "boundary E account t s"
    then show "boundary E account t (snd (on_store (identities (eg_store E)) s))"
      using snd_reading(5) [of "eg_store E" "es_db s"]
      by (cases "identities (eg_store E) (es_db s)") (auto simp: on_store_def boundary_def)
  qed
qed

section \<open>A name that has changed hands\<close>

lemma boundary_kept_listing:
  assumes "bolt_store (eg_store E)" "t \<le> mo_now m"
  shows "maintains (boundary E account t) (user_snapshots E H m i n)"
proof -
  have db: "maintains (boundary E account t) p" if "same_db p" for p
    using that by (auto simp: maintains_def same_db_def boundary_def)
  have since: "same_db (visible_since E n)"
    by (simp add: same_db_def visible_since_def prog_bind_def look_up prog_return_def)
  show ?thesis
    unfolding user_snapshots_def
    by (intro maintains_bind boundary_kept_note [OF assms] db engine_snapshots_db since maintains_if maintains_basic)
qed

text \<open>
  What may happen to the service afterwards: anything identity.go does, for any account, in any
  order and however its calls fail, and anything else that leaves the identity records alone. Only
  the clock does not run backwards past t.
\<close>

inductive later :: "('db, 'x) engine \<Rightarrow> instant \<Rightarrow> ('db, 'x) engine_state \<Rightarrow> ('db, 'x) engine_state \<Rightarrow> bool"
  for E t s where
  later_now: "later E t s s"
| later_noted: "later E t s u \<Longrightarrow> t \<le> mo_now m \<Longrightarrow> later E t s (snd (note_identity E H m n u))"
| later_created: "later E t s u \<Longrightarrow> later E t s (snd (account_created E H m n at u))"
| later_removed: "later E t s u \<Longrightarrow> later E t s (snd (account_removed E m n u))"
| later_renamed: "later E t s u \<Longrightarrow> later E t s (snd (rename_policy_account E m old new u))"
| later_backfilled: "later E t s u \<Longrightarrow> later E t s (snd (backfill_identities E H m u))"
| later_replayed: "later E t s u \<Longrightarrow> later E t s (snd (replay_hook_spool E H A dir rs u))"
| later_reconciled: "later E t s u \<Longrightarrow> (\<And>k. t \<le> mo_now (ms k)) \<Longrightarrow>
    later E t s (snd (reconcile_accounts E H A dir ord rs ms allow u))"
| later_listed: "later E t s u \<Longrightarrow> t \<le> mo_now m \<Longrightarrow> later E t s (snd (user_snapshots E H m i n u))"
| later_other: "later E t s u \<Longrightarrow> (\<And>k. bo_get (eg_store E) BIdentities k (es_db v) = bo_get (eg_store E) BIdentities k (es_db u)) \<Longrightarrow>
    later E t s v"

lemma later_boundary:
  assumes "later E t s u" "bolt_store (eg_store E)" "boundary E account t s"
  shows "boundary E account t u"
  using assms(1)
proof induction
  case (later_noted u m H n)
  then show ?case using boundary_kept_note [OF assms(2)] by (auto simp: maintains_def)
next
  case (later_reconciled u ms H A dir ord rs allow)
  then show ?case using boundary_kept_reconcile [OF assms(2)] unfolding maintains_def by blast
next
  case (later_listed u m H i n)
  then show ?case using boundary_kept_listing [OF assms(2)] by (auto simp: maintains_def)
next
  case (later_other u v)
  then show ?case by (auto simp: boundary_def identities_keyed_def)
qed (use assms(3) boundary_kept_created [OF assms(2)] boundary_kept_removed [OF assms(2)] boundary_kept_backfill [OF assms(2)]
    boundary_kept_policies(3) [OF assms(2)] boundary_kept_replay [OF assms(2)] in \<open>simp_all add: maintains_def\<close>)


definition old_and_new :: "(mem_db, unit) engine" where
  "old_and_new = sample_engine\<lparr>eg_codec := example_codec
     [(example_snapshot ''00aa'' [''account:bob''])\<lparr>sn_time := 40\<rparr>, (example_snapshot ''00bb'' [''account:bob''])\<lparr>sn_time := 900\<rparr>]\<rparr>"

definition one_account :: host where
  "one_account = \<lparr>ho_lookup = (\<lambda>n. if n = ''bob'' then UserFound ''1001'' else UserUnknown), ho_accounts = Inr [],
     ho_account = (\<lambda>n. Inl ErrNotFound), ho_native_excludes = (\<lambda>_. [])\<rparr>"

definition created_bob :: "(mem_db, unit) engine_state" where
  "created_bob = snd (account_created old_and_new one_account sample_moment ''bob'' 500 sample_state)"


section \<open>An event is kept until it is recorded\<close>

definition keyed :: "('db, 'x) engine \<Rightarrow> ('db, 'x) engine_state \<Rightarrow> bool" where
  "keyed E s \<longleftrightarrow> identities_keyed (eg_store E) (es_db s)"

lemma keyed_kept_identity:
  assumes "bolt_store (eg_store E)"
  shows "maintains (keyed E) (store_identity E m a)"
  unfolding maintains_def
proof (intro allI impI)
  fix s assume k: "keyed E s"
  obtain r s' where run: "store_identity E m a s = (r, s')" by fastforce
  from store_identity_result [OF assms run] show "keyed E (snd (store_identity E m a s))"
  proof (elim disjE exE conjE)
    fix a' assume "ai_account a' = ai_account a" and get: "\<forall>b k. bo_get (eg_store E) b k (es_db s') =
          (if b = BIdentities \<and> k = ai_account a then Some (DIdentity a') else bo_get (eg_store E) b k (es_db s))"
    then have "bo_get (eg_store E) BIdentities n (es_db s') = Some (DIdentity c) \<Longrightarrow> ai_account c = n" for n c
      using k by (cases "n = ai_account a") (auto simp: keyed_def identities_keyed_def)
    with run show ?thesis by (auto simp: keyed_def identities_keyed_def)
  qed (use k run in simp)
qed

lemma keyed_kept_store:
  assumes "\<And>k db. bo_get (eg_store E) BIdentities k (snd (m db)) = bo_get (eg_store E) BIdentities k db"
  shows "maintains (keyed E) (on_store m)"
  using assms by (simp add: maintains_def keyed_def identities_keyed_def on_store_def split: prod.splits) (metis snd_conv)

lemma keyed_kept_replay:
  assumes "bolt_store (eg_store E)"
  shows "maintains (keyed E) (replay_entry E H A m entry)"
proof -
  note other = put_get_other [OF assms]
  have policy: "maintains (keyed E) (on_store (put_policy (eg_store E) i now p))" for i now p
    by (rule keyed_kept_store) (simp add: put_policy_def Let_def s_put_return_snd other)
  have job: "maintains (keyed E) (on_store (put_job (eg_store E) i now j))" for i now j
    by (rule keyed_kept_store) (simp add: put_job_def Let_def s_put_return_snd other)
  have baskets: "maintains (keyed E) (on_store (forget_baskets (eg_store E) n))" for n
    by (rule keyed_kept_store) (rule forget_baskets_identities [OF assms])
  have reads: "maintains (keyed E) (on_store (running_job_for (eg_store E) n))"
      "maintains (keyed E) (on_store (policies (eg_store E)))" "maintains (keyed E) (attempt (on_store (get_identity (eg_store E) n)))" for n
    by (intro keyed_kept_store maintains_attempt; simp)+
  have removed: "maintains (keyed E) (removed_policies E m n ps)" for n ps
    by (induction ps) (auto simp: Let_def maintains_pair intro!: maintains_bind policy)
  have spool: "maintains (keyed E) (on_spool p)" for p
    by (simp add: maintains_def on_spool_def keyed_def split: prod.splits)
  note kept = keyed_kept_identity [OF assms] policy job baskets reads removed spool maintains_basic maintains_if
  have event: "maintains (keyed E) (replay_event E H m ev)" for ev
    unfolding replay_event_def account_created_def account_removed_def Let_def
    by (intro maintains_if maintains_bind kept) (auto split: sum.splits intro!: maintains_bind kept)
  have queue: "maintains (keyed E) (queue_initial_backup E m n)" for n
    unfolding queue_initial_backup_def queue_backup_def
    by (intro maintains_bind kept) (auto split: option.splits intro!: maintains_bind kept)
  show ?thesis
    unfolding replay_entry_def
    by (intro maintains_bind maintains_attempt event)
       (auto split: sum.splits intro!: maintains_bind maintains_attempt maintains_quietly kept queue)
qed

lemma keyed_kept_loop: "bolt_store (eg_store E) \<Longrightarrow> maintains (keyed E) (replay_loop E H A ms i es)"
  by (induction es arbitrary: i) (auto intro!: maintains_bind keyed_kept_replay maintains_basic simp: maintains_pair)

definition waiting :: "string \<Rightarrow> ('db, 'x) engine_state \<Rightarrow> bool" where
  "waiting path s \<longleftrightarrow> path \<in> fst ` set (es_spool s)"

lemma waiting_kept:
  "maintains (waiting path) (on_store m)" "maintains (waiting path) held_settings"
  "path' \<noteq> path \<Longrightarrow> maintains (waiting path) (on_spool (spool_done A path'))"
  by (auto simp: maintains_def waiting_def on_store_def held_settings_def on_spool_def spool_done_def image_iff
      split: prod.splits option.splits)

lemma waiting_kept_event: "maintains (waiting path) (replay_event E H m ev)"
proof -
  have removed: "maintains (waiting path) (removed_policies E m n ps)" for n and ps
    by (induction ps) (auto simp: Let_def maintains_pair intro!: maintains_bind waiting_kept)
  show ?thesis
    unfolding replay_event_def account_created_def account_removed_def store_identity_def Let_def
    by (intro maintains_if maintains_bind maintains_attempt waiting_kept maintains_basic)
       (auto split: sum.splits intro!: maintains_bind maintains_attempt waiting_kept maintains_basic removed)
qed

lemma waiting_kept_queue: "maintains (waiting path) (queue_initial_backup E m n)"
  unfolding queue_initial_backup_def queue_backup_def
  by (intro maintains_bind waiting_kept maintains_if maintains_basic)
     (auto split: option.splits intro!: maintains_bind waiting_kept maintains_basic)

lemma waiting_kept_entry: "snd entry \<noteq> path \<Longrightarrow> maintains (waiting path) (replay_entry E H A m entry)"
  unfolding replay_entry_def
  by (intro maintains_bind maintains_attempt waiting_kept_event)
     (auto split: sum.splits intro!: maintains_bind maintains_attempt maintains_quietly waiting_kept waiting_kept_queue maintains_basic)

text \<open>The store's own errors do not say that there is no such account.\<close>

definition store_errors :: "'db bolt \<Rightarrow> bool" where
  "store_errors B \<longleftrightarrow> (\<forall>b k d db e db'. s_put B b k d db = (Inl e, db') \<longrightarrow> \<not> no_such_account e)"

lemma created_fails_for:
  assumes "store_errors (eg_store E)" "account_created E H m n at s = (Inl e, s')" "no_such_account e"
  shows "\<exists>e. account_uid H n = Inl e \<and> no_such_account e"
proof (cases "account_uid H n")
  case (Inr uid)
  have "\<not> no_such_account e" if "store_identity E m a u = (Inl e, u')" for a e u u'
    using that assms(1) by (auto simp: store_identity_def on_store_def put_identity_def Let_def prog_bind_def store_errors_def prog_return_def
        split: prod.splits sum.splits if_splits) blast+
  then have "fst (prog_bind (store_identity E m a) (\<lambda>_. prog_return ()) u) \<noteq> Inl e" for a u
    using assms(3) by (auto simp: prog_bind_def prog_return_def split: prod.splits sum.splits)
  moreover have "fst (account_created E H m n at s) = Inl e" using assms(2) by simp
  ultimately show ?thesis
    using Inr by (auto simp: account_created_def Let_def prog_bind_def prog_lift_def look_up prog_return_def split: sum.splits if_splits)
qed (use assms(2,3) in \<open>auto simp: account_created_def Let_def prog_bind_def prog_lift_def\<close>)

definition unrecorded :: "('db, 'x) engine \<Rightarrow> host \<Rightarrow> hook_event \<Rightarrow> string \<Rightarrow> ('db, 'x) engine_state \<Rightarrow> bool" where
  "unrecorded E H ev path s \<longleftrightarrow> waiting path s \<or> boundary E (he_account ev) (he_at ev) s \<or>
     (\<exists>e. account_uid H (he_account ev) = Inl e \<and> no_such_account e)"

lemma replay_entry_records:
  assumes "bolt_store (eg_store E)" "store_errors (eg_store E)" "keyed E s" "waiting path s"
    and "he_event ev = ''create''" "he_at ev \<noteq> zero_time"
  shows "unrecorded E H ev path (snd (replay_entry E H A m (ev, path) s))"
proof -
  let ?rest = "prog_bind (attempt (on_spool (spool_done A path)))
        (\<lambda>cleared. case cleared of Inl _ \<Rightarrow> prog_return () | Inr _ \<Rightarrow> if he_event ev \<noteq> ''create'' then prog_return ()
           else quietly (queue_initial_backup E m (he_account ev)))"
  obtain r s1 where run: "replay_event E H m ev s = (r, s1)" by fastforce
  then have created: "account_created E H m (he_account ev) (he_at ev) s = (r, s1)" by (simp add: replay_event_def assms(5))
  have wait: "waiting path s1" using waiting_kept_event run assms(4) unfolding maintains_def by (metis snd_conv)
  show ?thesis
  proof (cases r)
    case (Inl e)
    show ?thesis
    proof (cases "no_such_account e")
      case True
      with created_fails_for [OF assms(2)] created Inl show ?thesis by (auto simp: unrecorded_def)
    next
      case False
      with wait run Inl show ?thesis
        by (simp add: unrecorded_def replay_entry_def prog_bind_def attempt_def prog_return_def)
    qed
  next
    case (Inr u)
    have "boundary E (he_account ev) (he_at ev) s1"
      using account_created_bounds [OF assms(1) assms(3) [unfolded keyed_def]] created Inr assms(6) by (simp add: is_zero_def)
    moreover have "maintains (boundary E (he_account ev) (he_at ev)) ?rest"
      by (intro maintains_bind maintains_attempt boundary_kept_spool)
         (auto split: sum.splits intro!: maintains_quietly boundary_kept_queue [OF assms(1)] maintains_basic)
    moreover have "replay_entry E H A m (ev, path) s = ?rest s1"
      by (simp add: replay_entry_def attempt_def prog_bind_def [of "\<lambda>s. case replay_event E H m ev s of (r, t) \<Rightarrow> (Inr r, t)"] run Inr assms(5))
    ultimately show ?thesis by (simp add: unrecorded_def maintains_def)
  qed
qed

lemma unrecorded_kept:
  assumes "bolt_store (eg_store E)" "path \<notin> snd ` set es"
  shows "maintains (unrecorded E H ev path) (replay_loop E H A ms i es)"
proof -
  have "maintains (waiting path) (replay_loop E H A ms i es)"
    using assms(2) by (induction es arbitrary: i) (auto intro!: maintains_bind waiting_kept_entry maintains_basic simp: maintains_pair)
  with boundary_kept_replay_loop [OF assms(1), of "he_account ev" "he_at ev" H A ms i es]
  show ?thesis unfolding maintains_def unrecorded_def by blast
qed

lemma replay_loop_records:
  assumes "bolt_store (eg_store E)" "store_errors (eg_store E)" "he_event ev = ''create''" "he_at ev \<noteq> zero_time"
  shows "keyed E s \<Longrightarrow> waiting path s \<Longrightarrow> distinct (map snd es) \<Longrightarrow> (ev, path) \<in> set es \<Longrightarrow>
    unrecorded E H ev path (snd (replay_loop E H A ms i es s))"
proof (induction es arbitrary: i s)
  case (Cons x es)
  have keyed: "keyed E (snd (replay_entry E H A (ms i) x s))"
    using keyed_kept_replay [OF assms(1)] Cons.prems(1) by (simp add: maintains_def)
  show ?case
  proof (cases "x = (ev, path)")
    case True
    have here: "unrecorded E H ev path (snd (replay_entry E H A (ms i) x s))"
      unfolding True by (rule replay_entry_records [OF assms(1,2) Cons.prems(1,2) assms(3,4)])
    have "path \<notin> snd ` set es" using Cons.prems(3) True by auto
    from unrecorded_kept [OF assms(1) this] have "maintains (unrecorded E H ev path) (replay_loop E H A ms (i + 1) es)" .
    then have kept: "unrecorded E H ev path u \<Longrightarrow> unrecorded E H ev path (snd (replay_loop E H A ms (i + 1) es u))" for u
      by (simp add: maintains_def)
    show ?thesis
      unfolding replay_loop.simps by (rule maintains_from [where P = "unrecorded E H ev path"]) (erule kept, rule here)
  next
    case False
    then have "snd x \<noteq> path" "(ev, path) \<in> set es" using Cons.prems(3,4) by (force simp: image_iff)+
    then have "waiting path (snd (replay_entry E H A (ms i) x s))"
      using waiting_kept_entry [of x path] Cons.prems(2) unfolding maintains_def by blast
    with keyed Cons \<open>(ev, path) \<in> set es\<close> show ?thesis
      unfolding replay_loop.simps
      by (cases "replay_entry E H A (ms i) x s"; cases "fst (replay_entry E H A (ms i) x s)")
         (auto simp: prog_bind_def unrecorded_def)
  qed
qed simp

text \<open>
  C30. Replaying what hooks wrote down loses nothing that matters: a creation that was waiting is
  still waiting afterwards, or the ownership boundary it tells of is on record, or the account is
  gone. This holds for every waiting file and wherever a call fails.
\<close>

theorem replay_records_boundaries:
  assumes "bolt_store (eg_store E)" "store_errors (eg_store E)" "identities_keyed (eg_store E) (es_db s)"
    and "(ev, path) \<in> set (fst (spool_pending A dir (es_spool s)))"
    and "distinct (map snd (fst (spool_pending A dir (es_spool s))))" "path \<in> fst ` set (es_spool s)"
    and "he_event ev = ''create''" "he_at ev \<noteq> zero_time" "replay_hook_spool E H A dir ms s = (r, s')"
  shows "path \<in> fst ` set (es_spool s') \<or> boundary E (he_account ev) (he_at ev) s' \<or>
    (\<exists>e. account_uid H (he_account ev) = Inl e \<and> no_such_account e)"
proof (cases "dir = []")
  case True
  with assms(6,9) show ?thesis by (auto simp: replay_hook_spool_def prog_return_def)
next
  case False
  with assms(9) have "s' = snd (replay_loop E H A ms 0 (fst (spool_pending A dir (es_spool s))) s)"
    by (simp add: replay_hook_spool_def)
  with replay_loop_records [OF assms(1,2,7,8), of s path "fst (spool_pending A dir (es_spool s))" H A ms 0] assms(3-6)
  show ?thesis by (simp add: unrecorded_def waiting_def keyed_def)
qed

definition spooled_bob :: "(mem_db, unit) engine_state" where
  "spooled_bob = sample_state\<lparr>es_spool := first_spool\<rparr>"

lemma sample_store_errors: "store_errors (eg_store sample_engine)"
  by (auto simp: store_errors_def sample_store s_put_def mem_bolt_def db_update_def tx_put_def marshal_def no_such_account_def prog_fail_def
      split: sum.splits if_splits option.splits)

lemma bob_pending: "fst (spool_pending two_events ''/s'' (es_spool spooled_bob)) = [(begun, ''/s/00000000000000000012-create-bob.json'')]"
  by (simp add: spooled_bob_def) code_simp

theorem replay_records_boundaries_witness:
  "boundary sample_engine ''bob'' (unix_epoch + 12)
     (snd (replay_hook_spool sample_engine one_account two_events ''/s'' (\<lambda>_. sample_moment) spooled_bob))"
proof -
  let ?run = "replay_hook_spool sample_engine one_account two_events ''/s'' (\<lambda>_. sample_moment) spooled_bob"
  have keyed: "identities_keyed (eg_store sample_engine) (es_db spooled_bob)"
    by (simp add: identities_keyed_def sample_store spooled_bob_def sample_state_def sample_db_def mem_bolt_def)
  have "es_spool (snd ?run) = []" by code_simp
  moreover have "(begun, ''/s/00000000000000000012-create-bob.json'') \<in> set (fst (spool_pending two_events ''/s'' (es_spool spooled_bob)))"
      "distinct (map snd (fst (spool_pending two_events ''/s'' (es_spool spooled_bob))))"
    by (simp_all add: bob_pending)
  moreover have "''/s/00000000000000000012-create-bob.json'' \<in> fst ` set (es_spool spooled_bob)"
    by (simp add: spooled_bob_def first_spool_def)
  moreover have "account_uid one_account ''bob'' = Inr 1001" by code_simp
  moreover have "he_event begun = ''create''" "he_at begun = unix_epoch + 12" "he_account begun = ''bob''" "he_at begun \<noteq> zero_time"
    by (simp_all add: begun_def unix_epoch_def zero_time_def)
  ultimately show ?thesis
    using replay_records_boundaries [OF sample_store(1) sample_store_errors keyed, of begun _ two_events "''/s''" one_account "\<lambda>_. sample_moment" "fst ?run" "snd ?run"]
    by simp
qed

end
