(* ===== verification/Node_Schedule.thy ===== *)
theory Node_Schedule
  imports Notices Node_Lifecycle
begin

text \<open>
  When work is queued and what is said when it is not: \<open>Schedule\<close>, \<open>watchForTrouble\<close>, \<open>probeDestinations\<close>,
  \<open>accountsFor\<close>, \<open>RunPolicyNow\<close> of \<open>internal/node/run.go\<close> and \<open>TestDestination\<close> of \<open>node.go\<close>. The cron
  library is the parameter of \<open>Node_Removal\<close>; reaching a destination is a parameter.
\<close>

section \<open>Which accounts a schedule covers\<close>

definition accounts_for :: "host \<Rightarrow> policy \<Rightarrow> string list res" where
  "accounts_for H p =
     (if \<not> all_accounts p then Inr (po_accounts p)
      else res_bind (ho_accounts H) (\<lambda>accounts. Inr (map ac_user accounts)))"

text \<open>Each account of a run is queued; one that cannot be is skipped. \<open>ms\<close> are the clock and identifiers.\<close>

fun queue_accounts :: "('db, 'x) engine \<Rightarrow> (nat \<Rightarrow> moment) \<Rightarrow> nat \<Rightarrow> string \<Rightarrow> string list \<Rightarrow> ('db, 'x, nat \<times> string list) eprog" where
  "queue_accounts E ms i policy_id [] = prog_return (0, [])"
| "queue_accounts E ms i policy_id (account # as) =
     prog_bind (attempt (queue_backup E (ms i) policy_id account)) (\<lambda>r.
     prog_bind (queue_accounts E ms (i + 1) policy_id as) (\<lambda>(queued, passed_by).
       prog_return (case r of Inl _ \<Rightarrow> (queued, account # passed_by) | Inr _ \<Rightarrow> (queued + 1, passed_by))))"

definition run_policy_now :: "('db, 'x) engine \<Rightarrow> host \<Rightarrow> (nat \<Rightarrow> moment) \<Rightarrow> string \<Rightarrow> ('db, 'x, nat \<times> string list) eprog" where
  "run_policy_now E H ms policy_id =
     prog_bind (on_store (get_policy (eg_store E) policy_id)) (\<lambda>p.
       if length (po_repository_ids p) = 0
       then prog_fail (ErrMsg ''node: has no destination, so there is nowhere to send a backup'' [po_name p])
       else prog_bind (prog_lift (accounts_for H p)) (\<lambda>accounts.
         if length accounts = 0 then prog_fail (ErrMsg ''node: covers no accounts'' [po_name p])
         else queue_accounts E ms 0 (po_id p) accounts))"

section \<open>What is due\<close>

definition catch_up_window :: duration where "catch_up_window = 2 * hour"

text \<open>
  Where the search for the next run starts: the last run, but never further back than the window.
\<close>

definition search_from :: "policy \<Rightarrow> instant \<Rightarrow> instant" where
  "search_from p now =
     (let last = (case po_last_run_at p of Some at \<Rightarrow> at | None \<Rightarrow> zero_time);
          earliest = now - catch_up_window
      in if is_zero last \<or> last < earliest then earliest else last)"

definition policy_due :: "cron_api \<Rightarrow> policy \<Rightarrow> instant \<Rightarrow> bool" where
  "policy_due cron p now \<longleftrightarrow>
     (case cron (po_schedule_cron p) of Inl _ \<Rightarrow> False | Inr next \<Rightarrow> \<not> next (search_from p now) > now)"

text \<open>The server's own configuration goes first.\<close>

definition run_accounts :: "policy \<Rightarrow> string list \<Rightarrow> string list" where
  "run_accounts p accounts = (if po_include_system p then system_account # accounts else accounts)"

definition fire_policy :: "('db, 'x) engine \<Rightarrow> host \<Rightarrow> cron_api \<Rightarrow> (nat \<Rightarrow> moment) \<Rightarrow> instant \<Rightarrow> policy \<Rightarrow> ('db, 'x, nat) eprog" where
  "fire_policy E H cron ms now p =
     (if \<not> po_enabled p \<or> length (po_repository_ids p) = 0 then prog_return 0
      else if \<not> policy_due cron p now then prog_return 0
      else case accounts_for H p of
        Inl _ \<Rightarrow> prog_return 0
      | Inr accounts \<Rightarrow>
          prog_bind (on_store (set_policy_last_run (eg_store E) (po_id p) now)) (\<lambda>_.
          prog_bind (queue_accounts E ms 0 (po_id p) (run_accounts p accounts))
            (\<lambda>(queued, _). prog_return queued)))"

fun schedule_loop :: "('db, 'x) engine \<Rightarrow> host \<Rightarrow> cron_api \<Rightarrow> (nat \<Rightarrow> nat \<Rightarrow> moment) \<Rightarrow> nat \<Rightarrow> instant \<Rightarrow> policy list \<Rightarrow> ('db, 'x, nat) eprog" where
  "schedule_loop E H cron ms i now [] = prog_return 0"
| "schedule_loop E H cron ms i now (p # ps) =
     prog_bind (fire_policy E H cron (ms i) now p) (\<lambda>queued.
     prog_bind (schedule_loop E H cron ms (i + 1) now ps) (\<lambda>rest. prog_return (queued + rest)))"

definition reconcile_every :: duration where "reconcile_every = 60000000000"

definition reconcile_step :: "('db, 'x, unit) eprog \<Rightarrow> instant \<Rightarrow> ('db, 'x, unit) eprog" where
  "reconcile_step reconcile now =
     (\<lambda>s. if time_sub now (es_last_reconcile s) \<ge> reconcile_every
          then (case reconcile s of
                  (Inl _, s') \<Rightarrow> (Inr (), s')
                | (Inr _, s') \<Rightarrow> (Inr (), s'\<lparr>es_last_reconcile := now\<rparr>))
          else (Inr (), s))"

text \<open>
  One tick: the chores, none of which can fail it (\<open>before\<close> reconciling: the sweeps and the watch),
  then the schedules.
\<close>

definition schedule :: "('db, 'x) engine \<Rightarrow> host \<Rightarrow> cron_api \<Rightarrow> (nat \<Rightarrow> nat \<Rightarrow> moment) \<Rightarrow> ('db, 'x, unit) eprog \<Rightarrow> ('db, 'x, unit) eprog \<Rightarrow>
    instant \<Rightarrow> ('db, 'x, nat) eprog" where
  "schedule E H cron ms chores reconcile now =
     prog_bind (quietly chores) (\<lambda>_.
     prog_bind (reconcile_step reconcile now) (\<lambda>_.
     prog_bind (on_store (policies (eg_store E))) (\<lambda>ps. schedule_loop E H cron ms 0 now ps)))"

section \<open>Reaching a destination\<close>

text \<open>\<open>da_space\<close> is \<open>None\<close> for a kind that cannot say how much room it has.\<close>

record dest_api =
  da_preflight :: "dest \<Rightarrow> err option"
  da_space :: "dest \<Rightarrow> (64 word \<times> 64 word) res option"

definition notify_destination :: "('db, 'x) engine \<Rightarrow> sender \<Rightarrow> moment \<Rightarrow> destination \<Rightarrow> err option \<Rightarrow> ('db, 'x, unit) eprog" where
  "notify_destination E N m d reach_err =
     (let was_down = (ds_last_check_error d \<noteq> []) in
      case reach_err of
        None \<Rightarrow> if was_down then notify E N m ((notice ev_destination_down [])\<lparr>ms_level := severity_info\<rparr>) else prog_return ()
      | Some _ \<Rightarrow> if was_down then prog_return () else notify E N m (notice ev_destination_down []))"

definition measure_space :: "('db, 'x) engine \<Rightarrow> dest_api \<Rightarrow> instant \<Rightarrow> dest \<Rightarrow> destination_space" where
  "measure_space E D now built =
     (let unmeasured = \<lparr>dp_total_bytes = 0, dp_free_bytes = 0, dp_measured_at = Some now, dp_error = [], dp_unsupported = False\<rparr> in
      case da_space D built of
        None \<Rightarrow> unmeasured\<lparr>dp_unsupported := True\<rparr>
      | Some (Inl e) \<Rightarrow> unmeasured\<lparr>dp_error := eg_error E e\<rparr>
      | Some (Inr (whole, left)) \<Rightarrow> unmeasured\<lparr>dp_total_bytes := whole, dp_free_bytes := left\<rparr>)"

definition test_destination :: "('db, 'x) engine \<Rightarrow> sender \<Rightarrow> dest_api \<Rightarrow> moment \<Rightarrow> string \<Rightarrow> ('db, 'x, unit) eprog" where
  "test_destination E N D m i =
     prog_bind (on_store (get_destination (eg_store E) i)) (\<lambda>d.
     prog_bind (build_spec E d) (\<lambda>spec.
     prog_bind (prog_lift (build spec)) (\<lambda>built.
       let check_err = da_preflight D built in
     prog_bind (notify_destination E N m d check_err) (\<lambda>_.
       let d = d\<lparr>ds_last_checked_at := Some (mo_now m),
                 ds_last_check_error := (case check_err of Some e \<Rightarrow> eg_error E e | None \<Rightarrow> []),
                 ds_space := (case check_err of None \<Rightarrow> measure_space E D (mo_now m) built | Some _ \<Rightarrow> ds_space d)\<rparr> in
     prog_bind (on_store (put_destination (eg_store E) (mo_new_id m) (mo_now m) d)) (\<lambda>_.
       case check_err of Some e \<Rightarrow> prog_fail e | None \<Rightarrow> prog_return ())))))"

definition probe_every :: duration where "probe_every = hour"

fun probe_loop :: "('db, 'x) engine \<Rightarrow> sender \<Rightarrow> dest_api \<Rightarrow> moment \<Rightarrow> destination list \<Rightarrow> ('db, 'x, unit) eprog" where
  "probe_loop E N D m [] = prog_return ()"
| "probe_loop E N D m (d # ds) = prog_bind (quietly (test_destination E N D m (ds_id d))) (\<lambda>_. probe_loop E N D m ds)"

definition probe_destinations :: "('db, 'x) engine \<Rightarrow> sender \<Rightarrow> dest_api \<Rightarrow> moment \<Rightarrow> instant \<Rightarrow> ('db, 'x, unit) eprog" where
  "probe_destinations E N D m now =
     (\<lambda>s. if time_sub now (es_last_probe s) < probe_every then (Inr (), s)
          else prog_bind (attempt (on_store (destinations (eg_store E)))) (\<lambda>r.
             case r of Inl _ \<Rightarrow> prog_return () | Inr ds \<Rightarrow> probe_loop E N D m ds) (s\<lparr>es_last_probe := now\<rparr>))"

section \<open>Watching for trouble\<close>

definition watch_every :: duration where "watch_every = 300000000000"

text \<open>The shortest patience any schedule asks for.\<close>

fun stuck_after :: "policy list \<Rightarrow> duration \<Rightarrow> duration" where
  "stuck_after [] limit = limit"
| "stuck_after (p # ps) limit =
     stuck_after ps
       (if po_alert_run_hours p > 0 \<and> wrap64 (po_alert_run_hours p * hour) < limit then wrap64 (po_alert_run_hours p * hour)
        else limit)"

definition stuck_key :: "string \<Rightarrow> string" where "stuck_key i = ''stuck:'' @ i"
definition overdue_key :: "string \<Rightarrow> string" where "overdue_key account = ''overdue:'' @ account"

text \<open>\<open>alerted\<close> is the set of what has been said; the notices come out in the order they are sent.\<close>

fun stuck_loop :: "instant \<Rightarrow> duration \<Rightarrow> node_job list \<Rightarrow> string list \<Rightarrow> string list \<times> message list" where
  "stuck_loop now limit [] alerted = (alerted, [])"
| "stuck_loop now limit (j # js) alerted =
     (case (if terminal (jb_status j) then None else jb_started_at j) of
        None \<Rightarrow> stuck_loop now limit js alerted
      | Some at \<Rightarrow>
          if time_sub now at < limit \<or> stuck_key (jb_id j) \<in> set alerted then stuck_loop now limit js alerted
          else case stuck_loop now limit js (stuck_key (jb_id j) # alerted) of
            (alerted', said) \<Rightarrow> (alerted', notice ev_stuck (jb_account j) # said))"

text \<open>The newest success of each account.\<close>

fun latest_success :: "node_job list \<Rightarrow> (string \<times> node_job) list \<Rightarrow> (string \<times> node_job) list" where
  "latest_success [] latest = latest"
| "latest_success (j # js) latest =
     (if jb_status j \<noteq> StatusSuccess then latest_success js latest
      else case map_of latest (jb_account j) of
        None \<Rightarrow> latest_success js (AList.update (jb_account j) j latest)
      | Some previous \<Rightarrow>
          if jb_queued_at j > jb_queued_at previous then latest_success js (AList.update (jb_account j) j latest)
          else latest_success js latest)"

text \<open>How long without a success is too long; nothing when the schedule is not watched.\<close>

definition overdue_limit :: "cron_api \<Rightarrow> instant \<Rightarrow> policy \<Rightarrow> duration option" where
  "overdue_limit cron now p =
     (if \<not> po_enabled p \<or> length (po_repository_ids p) = 0 then None
      else case cron (po_schedule_cron p) of
        Inl _ \<Rightarrow> None
      | Inr next \<Rightarrow>
          if po_alert_no_backup_days p < 0 then None
          else let first = next now;
                   overdue = (if po_alert_no_backup_days p > 0 then wrap64 (po_alert_no_backup_days p * 24 * hour)
                              else wrap64 (2 * time_sub (next first) first))
               in if overdue \<le> 0 then None else Some overdue)"

fun overdue_accounts :: "instant \<Rightarrow> duration \<Rightarrow> (string \<times> node_job) list \<Rightarrow> string list \<Rightarrow> string list \<Rightarrow> string list \<times> message list" where
  "overdue_accounts now overdue latest [] alerted = (alerted, [])"
| "overdue_accounts now overdue latest (account # as) alerted =
     (if (case map_of latest account of Some good \<Rightarrow> time_sub now (jb_queued_at good) < overdue | None \<Rightarrow> False)
      then overdue_accounts now overdue latest as (removeAll (overdue_key account) alerted)
      else if overdue_key account \<in> set alerted then overdue_accounts now overdue latest as alerted
      else case overdue_accounts now overdue latest as (overdue_key account # alerted) of
        (alerted', said) \<Rightarrow> (alerted', notice ev_overdue account # said))"

fun overdue_loop :: "cron_api \<Rightarrow> host \<Rightarrow> instant \<Rightarrow> (string \<times> node_job) list \<Rightarrow> policy list \<Rightarrow> string list \<Rightarrow> string list \<times> message list" where
  "overdue_loop cron H now latest [] alerted = (alerted, [])"
| "overdue_loop cron H now latest (p # ps) alerted =
     (case overdue_limit cron now p of
        None \<Rightarrow> overdue_loop cron H now latest ps alerted
      | Some overdue \<Rightarrow>
          (case accounts_for H p of
             Inl _ \<Rightarrow> overdue_loop cron H now latest ps alerted
           | Inr accounts \<Rightarrow>
               (case overdue_accounts now overdue latest accounts alerted of
                  (alerted1, said1) \<Rightarrow>
                    (case overdue_loop cron H now latest ps alerted1 of (alerted2, said2) \<Rightarrow> (alerted2, said1 @ said2)))))"

definition watch_step :: "cron_api \<Rightarrow> host \<Rightarrow> instant \<Rightarrow> node_job list \<Rightarrow> policy list \<Rightarrow> string list \<Rightarrow> string list \<times> message list" where
  "watch_step cron H now js ps alerted =
     (case stuck_loop now (stuck_after ps (6 * hour)) js alerted of
        (alerted1, said1) \<Rightarrow>
          (case overdue_loop cron H now (latest_success js []) ps alerted1 of (alerted2, said2) \<Rightarrow> (alerted2, said1 @ said2)))"

fun notify_all :: "('db, 'x) engine \<Rightarrow> sender \<Rightarrow> moment \<Rightarrow> message list \<Rightarrow> ('db, 'x, unit) eprog" where
  "notify_all E N m [] = prog_return ()"
| "notify_all E N m (x # xs) = prog_bind (notify E N m x) (\<lambda>_. notify_all E N m xs)"

text \<open>
  Sending a message neither reads nor changes what has been said, so the messages of a step are sent
  after it was worked out, in their order.
\<close>

definition watch_for_trouble :: "('db, 'x) engine \<Rightarrow> sender \<Rightarrow> dest_api \<Rightarrow> host \<Rightarrow> cron_api \<Rightarrow> moment \<Rightarrow> instant \<Rightarrow> ('db, 'x, unit) eprog" where
  "watch_for_trouble E N D H cron m now =
     (\<lambda>s. if time_sub now (es_last_watch s) < watch_every then (Inr (), s)
          else prog_bind (attempt (on_store (channels (eg_store E)))) (\<lambda>r.
            case r of
              Inl _ \<Rightarrow> prog_return ()
            | Inr cs \<Rightarrow>
                if \<not> list_ex ch_enabled cs then prog_return ()
                else
                  prog_bind (probe_destinations E N D m now) (\<lambda>_.
                  prog_bind (attempt (on_store (jobs (eg_store E) 0))) (\<lambda>rj.
                    case rj of Inl _ \<Rightarrow> prog_return () | Inr js \<Rightarrow>
                  prog_bind (attempt (on_store (policies (eg_store E)))) (\<lambda>rp.
                    case rp of Inl _ \<Rightarrow> prog_return () | Inr ps \<Rightarrow>
                      (\<lambda>s. case watch_step cron H now js ps (es_alerted s) of
                         (alerted, said) \<Rightarrow> notify_all E N m said (s\<lparr>es_alerted := alerted\<rparr>))))))
            (s\<lparr>es_last_watch := now\<rparr>))"

section \<open>Each scheduled time fires once\<close>

text \<open>A schedule: the times it names, and the library's answer for the next one.\<close>

definition comes_round :: "(instant \<Rightarrow> bool) \<Rightarrow> (instant \<Rightarrow> instant) \<Rightarrow> bool" where
  "comes_round due next \<longleftrightarrow> (\<forall>a. due (next a) \<and> a < next a \<and> (\<forall>t. due t \<and> a < t \<longrightarrow> next a \<le> t))"

text \<open>A time that is to be made up for: past, after the last run and inside the window.\<close>

definition owed :: "policy \<Rightarrow> instant \<Rightarrow> instant \<Rightarrow> bool" where
  "owed p now t \<longleftrightarrow> now - catch_up_window < t \<and> t \<le> now \<and>
     (\<forall>at. po_last_run_at p = Some at \<and> at \<noteq> zero_time \<longrightarrow> at < t)"

lemma policy_due_iff:
  assumes "cron (po_schedule_cron p) = Inr next" "comes_round due next"
  shows "policy_due cron p now \<longleftrightarrow> (\<exists>t. due t \<and> owed p now t)"
proof -
  let ?f = "search_from p now"
  have "policy_due cron p now \<longleftrightarrow> next ?f \<le> now" using assms(1) by (simp add: policy_due_def not_less)
  also have "\<dots> \<longleftrightarrow> (\<exists>t. due t \<and> ?f < t \<and> t \<le> now)"
    using assms(2) unfolding comes_round_def by (meson order_trans)
  also have "\<dots> \<longleftrightarrow> (\<exists>t. due t \<and> owed p now t)"
    by (intro ex_cong1) (auto simp: search_from_def owed_def Let_def is_zero_def split: option.splits)
  finally show ?thesis .
qed

text \<open>What the library says for a date that never comes - the zero time - is never after now.\<close>

lemma impossible_date_always_due:
  "cron (po_schedule_cron p) = Inr (\<lambda>_. zero_time) \<Longrightarrow> zero_time \<le> now \<Longrightarrow> policy_due cron (p\<lparr>po_last_run_at := at\<rparr>) now"
  by (simp add: policy_due_def)

lemma queue_backup_result:
  assumes "bolt_store (eg_store E)" "queue_backup E m policy_id account s = (r, s')"
  shows "(\<exists>e. r = Inl e) \<and> s' = s \<or>
    (\<exists>j. r = Inr j \<and> idle (eg_store E) account (es_db s) \<and>
       j = (queued_job policy_id account)\<lparr>jb_id := mo_new_id m, jb_queued_at := mo_now m\<rparr> \<and> s' = s\<lparr>es_db := es_db s'\<rparr> \<and>
       (\<forall>b k. bo_get (eg_store E) b k (es_db s') =
          (if b = BJobs \<and> k = mo_new_id m then Some (DJob j) else bo_get (eg_store E) b k (es_db s))))"
proof -
  let ?j = "(queued_job policy_id account)\<lparr>jb_id := mo_new_id m, jb_queued_at := mo_now m\<rparr>"
  have put: "put_job (eg_store E) (mo_new_id m) (mo_now m) (queued_job policy_id account) =
      prog_bind (s_put (eg_store E) BJobs (jb_id ?j) (DJob ?j)) (\<lambda>_. prog_return ?j)"
    by (simp add: put_job_def queued_job_def Let_def)
  from idle_gate [OF assms(1) assms(2) [unfolded queue_backup_def]] show ?thesis
  proof (elim disjE conjE)
    assume idle: "idle (eg_store E) account (es_db s)"
      and run: "on_store (put_job (eg_store E) (mo_new_id m) (mo_now m) (queued_job policy_id account)) s = (r, s')"
    from on_store_put [OF assms(1) run [unfolded put]] idle show ?thesis by auto
  qed simp
qed

definition waiting_job :: "'db bolt \<Rightarrow> string \<Rightarrow> string \<Rightarrow> string \<Rightarrow> 'db \<Rightarrow> bool" where
  "waiting_job B policy_id account k db \<longleftrightarrow>
     (\<exists>j. bo_get B BJobs k db = Some (DJob j) \<and> jb_account j = account \<and> jb_policy_id j = policy_id \<and> jb_status j = StatusPending)"

lemma queue_accounts_result:
  assumes "bolt_store (eg_store E)" "inj (\<lambda>i. mo_new_id (ms i))"
  shows "\<exists>n passed. fst (queue_accounts E ms i policy_id as s) = Inr (n, passed) \<and> n + length passed = length as \<and>
    (\<forall>b k. b \<noteq> BJobs \<or> (\<forall>l \<ge> i. k \<noteq> mo_new_id (ms l)) \<longrightarrow>
        bo_get (eg_store E) b k (es_db (snd (queue_accounts E ms i policy_id as s))) = bo_get (eg_store E) b k (es_db s)) \<and>
    (\<forall>a \<in> set as. a \<in> set passed \<or> (\<exists>k. waiting_job (eg_store E) policy_id a k (es_db (snd (queue_accounts E ms i policy_id as s)))))"
proof (induction as arbitrary: i s)
  case (Cons a as)
  obtain r s1 where q: "queue_backup E (ms i) policy_id a s = (r, s1)" by fastforce
  from Cons.IH [of "i + 1" s1] obtain n passed where rest: "fst (queue_accounts E ms (i + 1) policy_id as s1) = Inr (n, passed)"
    and len: "n + length passed = length as"
    and other: "\<And>b k. b \<noteq> BJobs \<or> (\<forall>l \<ge> i + 1. k \<noteq> mo_new_id (ms l)) \<Longrightarrow>
        bo_get (eg_store E) b k (es_db (snd (queue_accounts E ms (i + 1) policy_id as s1))) = bo_get (eg_store E) b k (es_db s1)"
    and jobs: "\<And>x. x \<in> set as \<Longrightarrow> x \<in> set passed \<or>
        (\<exists>k. waiting_job (eg_store E) policy_id x k (es_db (snd (queue_accounts E ms (i + 1) policy_id as s1))))"
    by blast
  let ?out = "case r of Inl _ \<Rightarrow> (n, a # passed) | Inr _ \<Rightarrow> (n + 1, passed)"
  have run: "queue_accounts E ms i policy_id (a # as) s = (Inr ?out, snd (queue_accounts E ms (i + 1) policy_id as s1))"
    using q rest by (cases "queue_accounts E ms (i + 1) policy_id as s1") (simp add: prog_bind_def attempt_def prog_return_def)
  from queue_backup_result [OF assms(1) q] show ?case
  proof (elim disjE conjE exE)
    fix e
    assume "r = Inl e" "s1 = s"
    with run len other jobs show ?thesis by (intro exI [of _ n] exI [of _ "a # passed"]) auto
  next
    fix j
    assume r: "r = Inr j" and j: "j = (queued_job policy_id a)\<lparr>jb_id := mo_new_id (ms i), jb_queued_at := mo_now (ms i)\<rparr>"
      and put: "\<forall>b k. bo_get (eg_store E) b k (es_db s1) =
          (if b = BJobs \<and> k = mo_new_id (ms i) then Some (DJob j) else bo_get (eg_store E) b k (es_db s))"
    have fresh: "\<forall>l \<ge> i + 1. mo_new_id (ms i) \<noteq> mo_new_id (ms l)"
      using injD [OF assms(2), of i] by fastforce
    have "waiting_job (eg_store E) policy_id a (mo_new_id (ms i)) (es_db (snd (queue_accounts E ms (i + 1) policy_id as s1)))"
      using other [of BJobs "mo_new_id (ms i)"] fresh put j by (auto simp: waiting_job_def queued_job_def)
    with run r len other jobs put show ?thesis
      by (intro exI [of _ "n + 1"] exI [of _ passed]) auto
  qed
qed (simp add: prog_return_def)

text \<open>A schedule that is due, up to the record of its run.\<close>

lemma fire_policy_cases:
  assumes "bolt_store (eg_store E)" "po_enabled p" "po_repository_ids p \<noteq> []" "accounts_for H p = Inr accounts"
    and "bo_get (eg_store E) BPolicies (po_id p) (es_db s) = Some (DPolicy p)" "inj (\<lambda>i. mo_new_id (ms i))"
    and "fire_policy E H cron ms now p s = (Inr n, s')"
  shows "(\<not> policy_due cron p now \<longrightarrow> n = 0 \<and> s' = s) \<and>
    (policy_due cron p now \<longrightarrow>
       bo_get (eg_store E) BPolicies (po_id p) (es_db s') = Some (DPolicy (p\<lparr>po_last_run_at := Some now\<rparr>)) \<and>
       (\<exists>passed. n + length passed = length (run_accounts p accounts) \<and>
          (\<forall>a \<in> set (run_accounts p accounts).
             a \<in> set passed \<or> (\<exists>k. waiting_job (eg_store E) (po_id p) a k (es_db s')))))"
proof (cases "policy_due cron p now")
  case False
  with assms show ?thesis by (auto simp: fire_policy_def prog_return_def)
next
  case True
  let ?as = "run_accounts p accounts"
  obtain r db where set: "set_policy_last_run (eg_store E) (po_id p) now (es_db s) = (r, db)" by fastforce
  have get: "get_policy (eg_store E) (po_id p) (es_db s) = (Inr p, es_db s)"
    using assms(5) by (simp add: get_policy_def s_get_def)
  from assms(2-4,7) True set have run: "prog_bind (queue_accounts E ms 0 (po_id p) ?as) (\<lambda>(queued, _). prog_return queued)
      (s\<lparr>es_db := db\<rparr>) = (Inr n, s')" and "r = Inr ()"
    by (auto simp: fire_policy_def on_store_def prog_bind_def split: sum.splits)
  with set get have put: "s_put (eg_store E) BPolicies (po_id p) (DPolicy (p\<lparr>po_last_run_at := Some now\<rparr>)) (es_db s) = (Inr (), db)"
    by (simp add: set_policy_last_run_def)
  from queue_accounts_result [OF assms(1,6), of 0 "po_id p" ?as "s\<lparr>es_db := db\<rparr>"] obtain m passed
    where q: "fst (queue_accounts E ms 0 (po_id p) ?as (s\<lparr>es_db := db\<rparr>)) = Inr (m, passed)" and "m + length passed = length ?as"
      and other: "\<And>b k. b \<noteq> BJobs \<Longrightarrow> bo_get (eg_store E) b k (es_db (snd (queue_accounts E ms 0 (po_id p) ?as (s\<lparr>es_db := db\<rparr>)))) = bo_get (eg_store E) b k db"
      and jobs: "\<forall>a \<in> set ?as. a \<in> set passed \<or>
        (\<exists>k. waiting_job (eg_store E) (po_id p) a k (es_db (snd (queue_accounts E ms 0 (po_id p) ?as (s\<lparr>es_db := db\<rparr>)))))"
    by auto
  from run q have "n = m" "s' = snd (queue_accounts E ms 0 (po_id p) ?as (s\<lparr>es_db := db\<rparr>))"
    by (cases "queue_accounts E ms 0 (po_id p) ?as (s\<lparr>es_db := db\<rparr>)"; simp add: prog_return_def)+
  moreover have "bo_get (eg_store E) BPolicies (po_id p) db = Some (DPolicy (p\<lparr>po_last_run_at := Some now\<rparr>))"
    using bolt_store.put_get [OF assms(1) put, of BPolicies "po_id p"] by simp
  ultimately show ?thesis using True other [of BPolicies "po_id p"] jobs \<open>m + length passed = length ?as\<close> by auto
qed


definition day :: duration where "day = 24 * hour"

definition midnight :: cron_api where
  "midnight spec = (if spec = [] then Inl ErrNotFound else Inr (\<lambda>a. (a div day + 1) * day))"

lemma midnight_comes_round: "comes_round (\<lambda>t. day dvd t) (\<lambda>a. (a div day + 1) * day)"
proof -
  have pos: "day > 0" by (simp add: day_def hour_def)
  have "(a div day + 1) * day \<le> t" if "day dvd t" "a < t" for a t :: instant
  proof -
    from that(1) obtain k where t: "t = k * day" by (metis dvd_def mult.commute)
    have "a div day < k"
    proof (rule ccontr)
      assume "\<not> a div day < k"
      then have "k * day \<le> (a div day) * day" using pos by (intro mult_right_mono) auto
      also have "\<dots> \<le> a" using div_mult_mod_eq [of a day] pos_mod_sign [OF pos, of a] by linarith
      finally show False using that(2) t by simp
    qed
    then have "(a div day + 1) * day \<le> k * day" using pos by (intro mult_right_mono) auto
    then show ?thesis unfolding t .
  qed
  moreover have "a < (a div day + 1) * day" for a :: instant
  proof -
    have "a = a div day * day + a mod day" by simp
    moreover have "a mod day < day" using pos by simp
    moreover have "(a div day + 1) * day = a div day * day + day" by (simp add: distrib_right)
    ultimately show ?thesis by linarith
  qed
  ultimately show ?thesis by (simp add: comes_round_def)
qed

definition nightly :: policy where
  "nightly = example_policy\<lparr>po_schedule_cron := ''0 0 * * *'', po_accounts := [''bob'', ''eve''], po_last_run_at := Some 5\<rparr>"

definition numbered :: "nat \<Rightarrow> moment" where
  "numbered i = \<lparr>mo_now = 1000, mo_new_id = CHR ''n'' # replicate i CHR ''x''\<rparr>"

definition quiet_host :: host where
  "quiet_host = \<lparr>ho_lookup = (\<lambda>_. UserUnknown), ho_accounts = Inr [], ho_account = (\<lambda>_. Inl ErrNotFound), ho_native_excludes = (\<lambda>_. [])\<rparr>"

definition planned_state :: "(mem_db, unit) engine_state" where
  "planned_state = started (mem_with BPolicies [(''p1'', DPolicy nightly)]) example_world default_settings"


section \<open>What is said about trouble\<close>

definition stuck_keys :: "string list \<Rightarrow> string set" where
  "stuck_keys alerted = {i. stuck_key i \<in> set alerted}"

lemma stuck_key_inj [simp]: "stuck_key i = stuck_key j \<longleftrightarrow> i = j"
  by (simp add: stuck_key_def)

lemma keys_apart [simp]: "stuck_key i \<noteq> overdue_key a"
  by (simp add: stuck_key_def overdue_key_def)

definition overlong :: "instant \<Rightarrow> duration \<Rightarrow> node_job \<Rightarrow> bool" where
  "overlong now limit j \<longleftrightarrow> \<not> terminal (jb_status j) \<and> (\<exists>at. jb_started_at j = Some at \<and> limit \<le> time_sub now at)"

text \<open>Each stuck notice is paid for by a key that was not there before.\<close>

lemma stuck_loop_keys:
  assumes "stuck_loop now limit js alerted = (alerted', said)"
  shows "stuck_keys alerted' = stuck_keys alerted \<union> jb_id ` {j \<in> set js. overlong now limit j} \<and>
    length said + card (stuck_keys alerted) = card (stuck_keys alerted') \<and> (\<forall>m \<in> set said. ms_event m = ev_stuck)"
  using assms
proof (induction js arbitrary: alerted alerted' said)
  case (Cons j js)
  have fin: "finite (stuck_keys xs)" for xs
    by (rule finite_subset [of _ "(\<lambda>k. drop 6 k) ` set xs"]) (force simp: stuck_keys_def stuck_key_def image_iff)+
  show ?case
  proof (cases "overlong now limit j")
    case False
    then have "stuck_loop now limit (j # js) alerted = stuck_loop now limit js alerted"
      by (auto simp: overlong_def split: option.splits)
    with Cons.prems Cons.IH [of alerted alerted' said] False show ?thesis by auto
  next
    case True
    then obtain at where at: "\<not> terminal (jb_status j)" "jb_started_at j = Some at" "\<not> time_sub now at < limit"
      by (auto simp: overlong_def)
    show ?thesis
    proof (cases "stuck_key (jb_id j) \<in> set alerted")
      case there: True
      with at Cons.prems have "stuck_loop now limit js alerted = (alerted', said)" by simp
      with Cons.IH [of alerted alerted' said] there True show ?thesis by (auto simp: stuck_keys_def)
    next
      case new: False
      with at Cons.prems obtain said' where rest: "stuck_loop now limit js (stuck_key (jb_id j) # alerted) = (alerted', said')"
        and said: "said = notice ev_stuck (jb_account j) # said'"
        by (auto split: prod.splits)
      have "stuck_keys (stuck_key (jb_id j) # alerted) = insert (jb_id j) (stuck_keys alerted)" by (auto simp: stuck_keys_def)
      moreover have "jb_id j \<notin> stuck_keys alerted" using new by (simp add: stuck_keys_def)
      ultimately show ?thesis
        using Cons.IH [OF rest] said True fin [of alerted] by (auto simp: notice_def)
    qed
  qed
qed simp

lemma overdue_accounts_keys:
  "overdue_accounts now overdue latest as alerted = (alerted', said) \<Longrightarrow>
     stuck_keys alerted' = stuck_keys alerted \<and> (\<forall>m \<in> set said. ms_event m = ev_overdue)"
proof (induction now overdue latest as alerted arbitrary: alerted' said rule: overdue_accounts.induct)
  case (2 now overdue latest account as alerted)
  let ?good = "case map_of latest account of Some good \<Rightarrow> time_sub now (jb_queued_at good) < overdue | None \<Rightarrow> False"
  have gone: "stuck_keys (removeAll (overdue_key account) alerted) = stuck_keys alerted"
    "stuck_keys (overdue_key account # alerted) = stuck_keys alerted"
    by (auto simp: stuck_keys_def)
  consider ?good | "\<not> ?good" "overdue_key account \<in> set alerted" | "\<not> ?good" "overdue_key account \<notin> set alerted" by blast
  then show ?case
  proof cases
    case 1
    with 2 gone show ?thesis by simp
  next
    case 2
    with "2.prems" "2.IH"(2) show ?thesis by simp
  next
    case 3
    with "2.prems" "2.IH"(3) gone show ?thesis by (auto simp: notice_def split: prod.splits)
  qed
qed simp

lemma overdue_loop_keys:
  "overdue_loop cron H now latest ps alerted = (alerted', said) \<Longrightarrow>
     stuck_keys alerted' = stuck_keys alerted \<and> (\<forall>m \<in> set said. ms_event m = ev_overdue)"
proof (induction ps arbitrary: alerted alerted' said)
  case (Cons p ps)
  show ?case
  proof (cases "overdue_limit cron now p")
    case (Some overdue)
    show ?thesis
    proof (cases "accounts_for H p")
      case (Inr accounts)
      obtain a1 s1 where one: "overdue_accounts now overdue latest accounts alerted = (a1, s1)" by fastforce
      with Cons.prems Some Inr obtain s2 where two: "overdue_loop cron H now latest ps a1 = (alerted', s2)" "said = s1 @ s2"
        by (auto split: prod.splits)
      from overdue_accounts_keys [OF one] Cons.IH [OF two(1)] two(2) show ?thesis by auto
    qed (use Cons Some in auto)
  qed (use Cons in auto)
qed simp

text \<open>One watch after another, each with what it finds.\<close>

fun watches :: "cron_api \<Rightarrow> (host \<times> instant \<times> node_job list \<times> policy list) list \<Rightarrow> string list \<Rightarrow> string list \<times> message list" where
  "watches cron [] alerted = (alerted, [])"
| "watches cron ((H, now, js, ps) # ws) alerted =
     (case watch_step cron H now js ps alerted of (alerted1, said1) \<Rightarrow>
        (case watches cron ws alerted1 of (alerted2, said2) \<Rightarrow> (alerted2, said1 @ said2)))"

definition stuck_jobs :: "(host \<times> instant \<times> node_job list \<times> policy list) list \<Rightarrow> string set" where
  "stuck_jobs ws = {i. \<exists>(H, now, js, ps) \<in> set ws. \<exists>j \<in> set js. jb_id j = i \<and> overlong now (stuck_after ps (6 * hour)) j}"

lemma watch_step_keys:
  assumes "watch_step cron H now js ps alerted = (alerted', said)"
  shows "stuck_keys alerted' = stuck_keys alerted \<union> jb_id ` {j \<in> set js. overlong now (stuck_after ps (6 * hour)) j} \<and>
    length (filter (\<lambda>m. ms_event m = ev_stuck) said) + card (stuck_keys alerted) = card (stuck_keys alerted')"
proof -
  obtain a1 s1 where one: "stuck_loop now (stuck_after ps (6 * hour)) js alerted = (a1, s1)" by fastforce
  with assms obtain s2 where two: "overdue_loop cron H now (latest_success js []) ps a1 = (alerted', s2)" "said = s1 @ s2"
    by (auto simp: watch_step_def split: prod.splits)
  note k1 = stuck_loop_keys [OF one] and k2 = overdue_loop_keys [OF two(1)]
  have "filter (\<lambda>m. ms_event m = ev_stuck) s1 = s1" using k1 by (simp add: filter_id_conv)
  moreover have "filter (\<lambda>m. ms_event m = ev_stuck) s2 = []" using k2 by (auto simp: filter_empty_conv events)
  ultimately show ?thesis using k1 k2 two(2) by simp
qed

lemma watches_keys:
  "watches cron ws alerted = (alerted', said) \<Longrightarrow>
     stuck_keys alerted' = stuck_keys alerted \<union> stuck_jobs ws \<and>
     length (filter (\<lambda>m. ms_event m = ev_stuck) said) + card (stuck_keys alerted) = card (stuck_keys alerted')"
proof (induction ws arbitrary: alerted alerted' said)
  case (Cons w ws)
  obtain H now js ps where w: "w = (H, now, js, ps)" by (cases w)
  obtain a1 s1 where one: "watch_step cron H now js ps alerted = (a1, s1)" by fastforce
  with Cons.prems w obtain s2 where two: "watches cron ws a1 = (alerted', s2)" "said = s1 @ s2"
    by (auto split: prod.splits)
  have "stuck_jobs (w # ws) = jb_id ` {j \<in> set js. overlong now (stuck_after ps (6 * hour)) j} \<union> stuck_jobs ws"
    by (auto simp: stuck_jobs_def w)
  with watch_step_keys [OF one] Cons.IH [OF two(1)] two(2) show ?case by auto
qed (simp add: stuck_jobs_def)

text \<open>
  A run that does not end is reported, and reported once. Over all the watches of a process, the
  stuck notices that are sent are exactly as many as there are runs some watch found running longer
  than the shortest patience any schedule asks for: none is passed over, and none is said again at the
  next watch five minutes later.
\<close>

theorem stuck_run_said_once:
  "length (filter (\<lambda>m. ms_event m = ev_stuck) (snd (watches cron ws []))) = card (stuck_jobs ws)"
proof -
  obtain alerted said where run: "watches cron ws [] = (alerted, said)" by fastforce
  have "stuck_keys [] = {}" by (simp add: stuck_keys_def)
  with watches_keys [OF run] run show ?thesis by simp
qed


definition backed_up_bob :: node_job where
  "backed_up_bob = (queued_job ''p1'' ''bob'')\<lparr>jb_id := ''j1'', jb_status := StatusSuccess, jb_queued_at := 7 * day\<rparr>"

definition fortnightly :: policy where
  "fortnightly = nightly\<lparr>po_accounts := [''bob''], po_alert_no_backup_days := 14\<rparr>"


end
