(* ===== verification/Agent_Job.thy ===== *)
theory Agent_Job
  imports Payload Node_Lifecycle Node_Retention
begin

text \<open>
  One backup job on one server: \<open>RunJob\<close> and what it calls in \<open>internal/agent/agent.go\<close>, with the wire
  types of \<open>internal/protocol/protocol.go\<close>. The state is the staging directory and the world restic runs
  in. Packaging an account (\<open>Provider.Stage\<close>) is a parameter that may do anything to the disk; the time
  limit of an upload is one of the ways the child process of the runner may fail.
\<close>

section \<open>The assignment and its report\<close>

record upload_target =
  tg_repository_id :: string
  tg_spec :: dest_spec
  tg_repo_path :: string
  tg_repo_password :: string

record job_assignment =
  as_job_id :: string
  as_cpanel_user :: string
  as_size_estimate :: "64 word"
  as_payload_mode :: mode
  as_excludes :: "string list"
  as_skip_homedir :: bool
  as_skip_databases :: bool
  as_skip_email :: bool
  as_retry_failed :: bool
  as_limit_upload_kib :: int
  as_targets :: "upload_target list"

record target_report =
  tp_repository_id :: string
  tp_status :: target_status
  tp_snapshot_id :: string
  tp_bytes_added :: nat
  tp_bytes_processed :: nat
  tp_duration_secs :: "64 word"
  tp_incomplete :: bool
  tp_error :: string
  tp_detail :: string

record job_report =
  jr_targets :: "target_report list"
  jr_staging_error :: string

record stage_request =
  sq_account :: account_info
  sq_staging_dir :: string
  sq_mode :: mode
  sq_skip_homedir :: bool
  sq_skip_databases :: bool
  sq_skip_email :: bool

text \<open>
  \<open>ag_share\<close> is the floating-point fifth of a size, \<open>ag_seconds\<close> the time an upload took, \<open>ag_error\<close>
  the text of an error, \<open>ag_watched\<close> whether somebody follows the progress.
\<close>

record 'x agent =
  ag_sys :: "'x sys"
  ag_runner :: runner_config
  ag_codec :: json_codec
  ag_net :: net_api
  ag_os :: os_api
  ag_manager :: manager
  ag_host :: host
  ag_stage :: "stage_request \<Rightarrow> nodes \<Rightarrow> payload res \<times> nodes"
  ag_stage_system :: "string \<Rightarrow> nodes \<Rightarrow> payload res \<times> nodes"
  ag_hostname :: string
  ag_share :: "64 word \<Rightarrow> 64 word"
  ag_seconds :: "upload_target \<Rightarrow> 64 word"
  ag_error :: "err \<Rightarrow> string"
  ag_watched :: bool

type_synonym ('x, 'a) aprog = "(nodes \<times> 'x world, 'a) prog"

definition on_disk :: "(nodes, 'a) prog \<Rightarrow> ('x, 'a) aprog" where
  "on_disk m = (\<lambda>(d, w). case m d of (r, d') \<Rightarrow> (r, (d', w)))"

section \<open>How much room, and which parts\<close>

definition split_staging_floor :: "64 word" where "split_staging_floor = 512 * 2 ^ 20"
definition system_staging_estimate :: "64 word" where "system_staging_estimate = 256 * 2 ^ 20"

definition staging_estimate :: "('x, 'b) agent_scheme \<Rightarrow> 64 word \<Rightarrow> mode \<Rightarrow> 64 word" where
  "staging_estimate A bytes mode =
     (if mode \<noteq> mode_split then bytes
      else if ag_share A bytes < split_staging_floor then split_staging_floor else ag_share A bytes)"

definition skip_tags :: "job_assignment \<Rightarrow> string list" where
  "skip_tags a =
     (if as_skip_homedir a then [skip_tag_prefix @ ''homedir''] else [])
     @ (if as_skip_databases a then [skip_tag_prefix @ ''databases''] else [])
     @ (if as_skip_email a then [skip_tag_prefix @ ''email''] else [])"

fun find_target :: "upload_target list \<Rightarrow> string \<Rightarrow> upload_target option" where
  "find_target [] i = None"
| "find_target (t # ts) i = (if tg_repository_id t = i then Some t else find_target ts i)"

definition max_detail :: nat where "max_detail = 16 * 1024"

definition ellipsis :: string where "ellipsis = [char_of (0xE2 :: nat), char_of (0x80 :: nat), char_of (0xA6 :: nat)]"

text \<open>The last 16 KiB, from the first whole line on.\<close>

definition trim_detail :: "string \<Rightarrow> string" where
  "trim_detail text =
     (let trimmed = trim_space text in
      if length trimmed \<le> max_detail then trimmed
      else let cut = drop (length trimmed - max_detail) trimmed;
               cut = (if nl \<in> set cut then tl (dropWhile (\<lambda>c. c \<noteq> nl) cut) else cut)
           in ellipsis @ '' earlier output omitted '' @ ellipsis @ [nl] @ cut)"

section \<open>Uploading to one repository\<close>

definition no_backup :: backup_result where
  "no_backup = \<lparr>br_summary = zero_summary, br_incomplete = False, br_stderr = []\<rparr>"

text \<open>
  \<open>Backup\<close> with what it returns beside an error: a snapshot whose receipt could not be written comes
  back as incomplete, together with the error. \<open>Restic_Client\<close> keeps the error only.
\<close>

definition write_snapshot :: "'x sys \<Rightarrow> runner_config \<Rightarrow> json_codec \<Rightarrow> repository_handle \<Rightarrow> backup_spec \<Rightarrow>
    ('x world, backup_result) prog" where
  "write_snapshot S cfg J repo spec =
     prog_bind (prog_lift (backup_args spec)) (\<lambda>args.
     prog_bind (run_checked S cfg repo args no_secondary (bs_on_progress spec) False True) (\<lambda>result.
     prog_bind (prog_lift (parse_backup_summary J (cr_stdout result))) (\<lambda>summary.
       if bm_snapshot_id summary = []
       then prog_fail (ErrMsg ''resticrun: restic reported no snapshot id'' [])
       else prog_return \<lparr>br_summary = summary, br_incomplete = (cr_exit_code result = exit_incomplete_read),
              br_stderr = cr_stderr result\<rparr>)))"

definition backup_outcome :: "'x sys \<Rightarrow> runner_config \<Rightarrow> json_codec \<Rightarrow> repository_handle \<Rightarrow> backup_spec \<Rightarrow>
    'x world \<Rightarrow> (backup_result \<times> err option) \<times> 'x world" where
  "backup_outcome S cfg J repo spec0 w =
     (let spec = tag_for_completion spec0 in
      case write_snapshot S cfg J repo spec w of
        (Inl e, w') \<Rightarrow> ((no_backup, Some e), w')
      | (Inr b, w') \<Rightarrow>
          if bs_record_completion spec \<and> \<not> br_incomplete b then
            (case record_completion S cfg J repo (bs_host spec) (bm_snapshot_id (br_summary b)) w' of
               (Inl e, w'') \<Rightarrow> ((b\<lparr>br_incomplete := True\<rparr>,
                  Some (ErrWrap ''resticrun: snapshot was written but completion could not be recorded'' e)), w'')
             | (Inr _, w'') \<Rightarrow> ((b, None), w''))
          else ((b, None), w'))"

definition upload_spec :: "('x, 'b) agent_scheme \<Rightarrow> job_assignment \<Rightarrow> payload \<Rightarrow> backup_spec" where
  "upload_spec A a payload =
     \<lparr>bs_record_completion = True, bs_paths = payload_paths payload,
      bs_tags = [''account:'' @ as_cpanel_user a, ''mode:'' @ pl_mode payload] @ skip_tags a,
      bs_host = ag_hostname A, bs_exclude = as_excludes a, bs_limit_upload_kib = as_limit_upload_kib a,
      bs_on_progress = ag_watched A\<rparr>"

definition failed_report :: "upload_target \<Rightarrow> target_report" where
  "failed_report t =
     \<lparr>tp_repository_id = tg_repository_id t, tp_status = TargetFailed, tp_snapshot_id = [], tp_bytes_added = 0,
      tp_bytes_processed = 0, tp_duration_secs = 0, tp_incomplete = False, tp_error = [], tp_detail = []\<rparr>"

definition target_repository :: "('x, 'b) agent_scheme \<Rightarrow> upload_target \<Rightarrow> dest \<Rightarrow> repository_handle" where
  "target_repository A t dest =
     \<lparr>rp_dest = Some (backend_of (ag_net A) dest), rp_path = tg_repo_path t, rp_password = tg_repo_password t\<rparr>"

definition incomplete_text :: string where
  "incomplete_text = ''backup is incomplete: some source files could not be read''"

definition report_backup :: "('x, 'b) agent_scheme \<Rightarrow> upload_target \<Rightarrow> backup_result \<Rightarrow> err option \<Rightarrow> target_report" where
  "report_backup A t b e =
     (let result = (failed_report t)\<lparr>tp_duration_secs := ag_seconds A t,
            tp_snapshot_id := bm_snapshot_id (br_summary b), tp_bytes_added := bm_data_added (br_summary b),
            tp_bytes_processed := bm_total_bytes_processed (br_summary b), tp_incomplete := br_incomplete b,
            tp_detail := trim_detail (br_stderr b)\<rparr> in
      case e of
        Some e \<Rightarrow> result\<lparr>tp_error := ag_error A e\<rparr>
      | None \<Rightarrow> if br_incomplete b then result\<lparr>tp_status := TargetFailed, tp_error := incomplete_text\<rparr>
                else result\<lparr>tp_status := TargetSuccess\<rparr>)"

definition backup_target :: "('x, 'b) agent_scheme \<Rightarrow> job_assignment \<Rightarrow> payload \<Rightarrow> upload_target \<Rightarrow> ('x, target_report) aprog" where
  "backup_target A a payload t =
     (case build (tg_spec t) of
        Inl e \<Rightarrow> prog_return ((failed_report t)\<lparr>tp_error := ag_error A e\<rparr>)
      | Inr dest \<Rightarrow>
          (\<lambda>(d, w). case backup_outcome (ag_sys A) (ag_runner A) (ag_codec A) (target_repository A t dest)
                            (upload_spec A a payload) w of
             ((b, e), w') \<Rightarrow> (Inr (report_backup A t b e), (d, w'))))"

section \<open>The job\<close>

fun upload_loop :: "('x, 'b) agent_scheme \<Rightarrow> job_assignment \<Rightarrow> payload \<Rightarrow> upload_target list \<Rightarrow> ('x, target_report list) aprog" where
  "upload_loop A a payload [] = prog_return []"
| "upload_loop A a payload (t # ts) =
     prog_bind (backup_target A a payload t) (\<lambda>r.
     prog_bind (upload_loop A a payload ts) (\<lambda>rs. prog_return (r # rs)))"

definition failed_twice :: "string \<Rightarrow> string \<Rightarrow> string" where
  "failed_twice first second = ''failed twice: '' @ first @ '' (and on retry: '' @ second @ '')''"

definition retry_one :: "('x, 'b) agent_scheme \<Rightarrow> job_assignment \<Rightarrow> payload \<Rightarrow> target_report \<Rightarrow> ('x, target_report) aprog" where
  "retry_one A a payload r =
     (if tp_status r \<noteq> TargetFailed then prog_return r
      else case find_target (as_targets a) (tp_repository_id r) of
        None \<Rightarrow> prog_return r
      | Some t \<Rightarrow>
          prog_bind (backup_target A a payload t) (\<lambda>retried.
            if tp_status retried = TargetSuccess then prog_return retried
            else prog_return (r\<lparr>tp_error := failed_twice (tp_error r) (tp_error retried)\<rparr>)))"

fun retry_loop :: "('x, 'b) agent_scheme \<Rightarrow> job_assignment \<Rightarrow> payload \<Rightarrow> target_report list \<Rightarrow> ('x, target_report list) aprog" where
  "retry_loop A a payload [] = prog_return []"
| "retry_loop A a payload (r # rs) =
     prog_bind (retry_one A a payload r) (\<lambda>r'.
     prog_bind (retry_loop A a payload rs) (\<lambda>rs'. prog_return (r' # rs')))"

definition upload_all :: "('x, 'b) agent_scheme \<Rightarrow> job_assignment \<Rightarrow> payload \<Rightarrow> ('x, job_report) aprog" where
  "upload_all A a payload =
     prog_bind (upload_loop A a payload (as_targets a)) (\<lambda>reports.
     prog_bind (if as_retry_failed a then retry_loop A a payload reports else prog_return reports) (\<lambda>reports.
       prog_return \<lparr>jr_targets = reports, jr_staging_error = []\<rparr>))"

definition not_staged :: "('x, 'b) agent_scheme \<Rightarrow> err \<Rightarrow> job_report" where
  "not_staged A e = \<lparr>jr_targets = [], jr_staging_error = ag_error A e\<rparr>"

text \<open>Packaging, then the check that every part is there.\<close>

definition stage_payload :: "('x, 'b) agent_scheme \<Rightarrow> job_assignment \<Rightarrow> account_info \<Rightarrow> dir \<Rightarrow> ('x, payload) aprog" where
  "stage_payload A a account dir =
     on_disk (prog_bind
       (if as_cpanel_user a = system_account then ag_stage_system A (sd_path dir)
        else ag_stage A \<lparr>sq_account = account, sq_staging_dir = sd_path dir, sq_mode = as_payload_mode a,
               sq_skip_homedir = as_skip_homedir a, sq_skip_databases = as_skip_databases a,
               sq_skip_email = as_skip_email a\<rparr>)
       (\<lambda>payload. prog_bind (verify_payload (ag_os A) payload) (\<lambda>_. prog_return payload)))"

definition no_account :: account_info where
  "no_account = \<lparr>ac_user = [], ac_home_dir = [], ac_databases = [], ac_has_postgresql = False, ac_size_bytes = 0,
     ac_primary_domain = [], ac_missing = False\<rparr>"

definition job_account :: "('x, 'b) agent_scheme \<Rightarrow> job_assignment \<Rightarrow> account_info res" where
  "job_account A a = (if as_cpanel_user a = system_account then Inr no_account else ho_account (ag_host A) (as_cpanel_user a))"

definition job_estimate :: "('x, 'b) agent_scheme \<Rightarrow> job_assignment \<Rightarrow> account_info \<Rightarrow> 64 word" where
  "job_estimate A a account =
     (if as_cpanel_user a = system_account then system_staging_estimate
      else staging_estimate A (if as_size_estimate a > ac_size_bytes account then as_size_estimate a else ac_size_bytes account)
             (as_payload_mode a))"

definition run_job :: "('x, 'b) agent_scheme \<Rightarrow> job_assignment \<Rightarrow> ('x, job_report) aprog" where
  "run_job A a =
     (case job_account A a of
        Inl e \<Rightarrow> prog_return (not_staged A e)
      | Inr account \<Rightarrow>
          prog_bind (attempt (on_disk (allocate (ag_os A) (ag_manager A) (as_cpanel_user a) (job_estimate A a account)))) (\<lambda>r.
          case r of
            Inl e \<Rightarrow> prog_return (not_staged A e)
          | Inr dir \<Rightarrow>
              prog_bind (attempt (stage_payload A a account dir)) (\<lambda>staged.
              prog_bind (case staged of Inl e \<Rightarrow> prog_return (not_staged A e) | Inr payload \<Rightarrow> upload_all A a payload) (\<lambda>report.
              prog_bind (quietly (on_disk (release (ag_os A) (ag_manager A) (Some dir)))) (\<lambda>_. prog_return report)))))"

section \<open>A reported success is a stored backup\<close>

lemma backup_by_outcome:
  "backup S cfg J repo spec w =
     (case backup_outcome S cfg J repo spec w of ((b, None), w') \<Rightarrow> (Inr b, w') | ((b, Some e), w') \<Rightarrow> (Inl e, w'))"
  unfolding backup_def backup_outcome_def write_snapshot_def
  by (auto simp: Let_def prog_bind_def prog_lift_def prog_return_def prog_fail_def wrap_err_def
      split: sum.splits prod.splits if_splits)

text \<open>Restic was run for the staged payload and then, successfully, for the receipt of just that snapshot.\<close>

definition stored_whole :: "('x, 'b) agent_scheme \<Rightarrow> job_assignment \<Rightarrow> payload \<Rightarrow> string \<Rightarrow> string list list \<Rightarrow> bool" where
  "stored_whole A a p i calls \<longleftrightarrow>
     (\<exists>args file receipt before after. backup_args (tag_for_completion (upload_spec A a p)) = Inr args \<and>
        backup_args (receipt_spec file (ag_hostname A) i) = Inr receipt \<and> calls = before @ [args, receipt] @ after)"

lemma stored_whole_more: "stored_whole A a p i calls \<Longrightarrow> stored_whole A a p i (xs @ calls @ ys)"
  unfolding stored_whole_def by (metis append.assoc)

definition honest :: "('x, 'b) agent_scheme \<Rightarrow> job_assignment \<Rightarrow> payload \<Rightarrow> string list list \<Rightarrow> target_report \<Rightarrow> bool" where
  "honest A a p calls r \<longleftrightarrow>
     tp_status r = TargetFailed \<or>
     tp_status r = TargetSuccess \<and> \<not> tp_incomplete r \<and> tp_snapshot_id r \<noteq> [] \<and> stored_whole A a p (tp_snapshot_id r) calls"

lemma honest_more: "honest A a p calls r \<Longrightarrow> honest A a p (xs @ calls @ ys) r"
  by (auto simp: honest_def stored_whole_more)

lemmas honest_before = honest_more [of _ _ _ _ _ _ "[]", simplified]
  and honest_after = honest_more [of _ _ _ _ _ "[]", simplified]

lemma write_snapshot_log:
  "write_snapshot S cfg J repo spec w = (r, w') \<Longrightarrow> \<exists>new. w_log w' = w_log w @ new"
  by (auto simp: write_snapshot_def prog_bind_def prog_lift_def prog_fail_def prog_return_def
      split: sum.splits prod.splits if_splits dest!: run_checked_log)

lemma write_snapshot_ok:
  "write_snapshot S cfg J repo spec w = (Inr b, w') \<Longrightarrow>
     bm_snapshot_id (br_summary b) \<noteq> [] \<and> (\<exists>args. backup_args spec = Inr args \<and> w_log w' = w_log w @ [args])"
  by (auto simp: write_snapshot_def prog_bind_eq_Inr prog_lift_def prog_fail_def prog_return_def split: if_splits
      dest!: run_checked_ok)

lemma record_completion_log:
  "record_completion S cfg J repo host i w = (r, w') \<Longrightarrow> \<exists>new. w_log w' = w_log w @ new"
  by (auto simp: record_completion_def prog_bind_def prog_lift_def prog_fail_def Let_def defer_remove_def remove_all_def
      mkdir_temp_def write_file_def split: sum.splits prod.splits if_splits option.splits dest!: run_checked_log)

lemma backup_outcome_facts:
  assumes "backup_outcome S cfg J repo spec w = ((b, e), w')"
  shows "\<exists>new. w_log w' = w_log w @ new \<and>
    (e = None \<and> \<not> br_incomplete b \<and> bs_record_completion spec \<longrightarrow> bm_snapshot_id (br_summary b) \<noteq> [] \<and>
       (\<exists>args file receipt. backup_args (tag_for_completion spec) = Inr args \<and>
          backup_args (receipt_spec file (bs_host spec) (bm_snapshot_id (br_summary b))) = Inr receipt \<and> new = [args, receipt]))"
proof -
  let ?spec = "tag_for_completion spec"
  have keep: "bs_record_completion ?spec = bs_record_completion spec" "bs_host ?spec = bs_host spec"
    by (simp_all add: tag_for_completion_def)
  obtain r1 w1 where wr: "write_snapshot S cfg J repo ?spec w = (r1, w1)" by fastforce
  show ?thesis
  proof (cases r1)
    case (Inl x)
    with assms wr write_snapshot_log [OF wr] show ?thesis by (auto simp: backup_outcome_def Let_def)
  next
    case (Inr b1)
    from write_snapshot_ok [OF wr [unfolded Inr]] obtain args where
      id: "bm_snapshot_id (br_summary b1) \<noteq> []" and args: "backup_args ?spec = Inr args" "w_log w1 = w_log w @ [args]" by blast
    show ?thesis
    proof (cases "bs_record_completion spec \<and> \<not> br_incomplete b1")
      case False
      with assms wr Inr args keep show ?thesis by (auto simp: backup_outcome_def Let_def)
    next
      case True
      obtain r2 w2 where rec: "record_completion S cfg J repo (bs_host spec) (bm_snapshot_id (br_summary b1)) w1 = (r2, w2)" by fastforce
      show ?thesis
      proof (cases r2)
        case (Inl x)
        with assms wr Inr True keep rec have "e \<noteq> None" "w' = w2" by (auto simp: backup_outcome_def Let_def)
        with record_completion_log [OF rec] args show ?thesis by auto
      next
        case ended: (Inr u)
        with assms wr Inr True keep rec have "e = None" "w' = w2" "b = b1" by (auto simp: backup_outcome_def Let_def)
        with record_completion_ok [OF rec [unfolded ended]] args id show ?thesis by auto
      qed
    qed
  qed
qed

lemma report_backup_simps [simp]:
  "tp_repository_id (report_backup A t b e) = tg_repository_id t"
  "tp_snapshot_id (report_backup A t b e) = bm_snapshot_id (br_summary b)"
  "tp_incomplete (report_backup A t b e) = br_incomplete b"
  "tp_status (report_backup A t b e) = (if e = None \<and> \<not> br_incomplete b then TargetSuccess else TargetFailed)"
  by (cases e; simp add: report_backup_def failed_report_def Let_def)+

text \<open>One step of the upload: the disk stays as it is, the log grows, the report is about its target and honest.\<close>

lemma backup_target_facts:
  "\<exists>r w' new. backup_target A a p t (d, w) = (Inr r, (d, w')) \<and> w_log w' = w_log w @ new \<and>
     tp_repository_id r = tg_repository_id t \<and> honest A a p new r"
proof (cases "build (tg_spec t)")
  case (Inl e)
  then show ?thesis by (simp add: backup_target_def prog_return_def honest_def failed_report_def)
next
  case (Inr dest)
  obtain b e w' where out: "backup_outcome (ag_sys A) (ag_runner A) (ag_codec A) (target_repository A t dest) (upload_spec A a p) w
      = ((b, e), w')" by (metis prod.collapse)
  have spec: "bs_record_completion (upload_spec A a p)" "bs_host (upload_spec A a p) = ag_hostname A" by (simp_all add: upload_spec_def)
  from backup_outcome_facts [OF out, unfolded spec] obtain new where new: "w_log w' = w_log w @ new"
    and ok: "e = None \<and> \<not> br_incomplete b \<and> True \<longrightarrow> bm_snapshot_id (br_summary b) \<noteq> [] \<and>
       (\<exists>args file receipt. backup_args (tag_for_completion (upload_spec A a p)) = Inr args \<and>
          backup_args (receipt_spec file (ag_hostname A) (bm_snapshot_id (br_summary b))) = Inr receipt \<and> new = [args, receipt])"
    using spec(1) by blast
  have "honest A a p new (report_backup A t b e)"
  proof (cases "e = None \<and> \<not> br_incomplete b")
    case True
    with ok show ?thesis unfolding honest_def stored_whole_def by (metis append_Nil append_Nil2 report_backup_simps(2,3,4))
  qed (auto simp: honest_def)
  with out new Inr show ?thesis by (simp add: backup_target_def)
qed


lemma upload_loop_facts:
  "\<exists>rs w' new. upload_loop A a p ts (d, w) = (Inr rs, (d, w')) \<and> w_log w' = w_log w @ new \<and>
     map tp_repository_id rs = map tg_repository_id ts \<and> list_all (honest A a p new) rs"
proof (induction ts arbitrary: w)
  case (Cons t ts)
  obtain r w1 n1 where one: "backup_target A a p t (d, w) = (Inr r, (d, w1))" "w_log w1 = w_log w @ n1"
    "tp_repository_id r = tg_repository_id t" "honest A a p n1 r"
    using backup_target_facts by blast
  obtain rs w2 n2 where rest: "upload_loop A a p ts (d, w1) = (Inr rs, (d, w2))" "w_log w2 = w_log w1 @ n2"
    "map tp_repository_id rs = map tg_repository_id ts" "list_all (honest A a p n2) rs"
    using Cons.IH by blast
  have "list_all (honest A a p (n1 @ n2)) rs"
    using rest(4) by (rule list.pred_mono_strong) (rule honest_before)
  with one rest honest_after [OF one(4)] show ?case by (auto simp: prog_return_def)
qed (simp add: prog_return_def)

lemma find_target_id: "find_target ts i = Some t \<Longrightarrow> tg_repository_id t = i"
  by (induction ts) (auto split: if_splits)

lemma retry_one_facts:
  assumes "honest A a p before r"
  shows "\<exists>r' w' new. retry_one A a p r (d, w) = (Inr r', (d, w')) \<and> w_log w' = w_log w @ new \<and>
     tp_repository_id r' = tp_repository_id r \<and> honest A a p (before @ new) r' \<and>
     (tp_status r = TargetSuccess \<longrightarrow> r' = r) \<and>
     (tp_status r' \<noteq> TargetSuccess \<longrightarrow> (\<exists>text. r' = r\<lparr>tp_error := text\<rparr>))"
proof (cases "tp_status r \<noteq> TargetFailed \<or> find_target (as_targets a) (tp_repository_id r) = None")
  case True
  with assms have "retry_one A a p r (d, w) = (Inr r, (d, w))" "\<exists>text. r = r\<lparr>tp_error := text\<rparr>"
    by (auto simp: retry_one_def prog_return_def intro!: exI [of _ "tp_error r"])
  with assms show ?thesis by (intro exI [of _ r] exI [of _ w] exI [of _ "[]"]) simp
next
  case False
  then obtain t where t: "tp_status r = TargetFailed" "find_target (as_targets a) (tp_repository_id r) = Some t" by auto
  obtain r2 w2 new where again: "backup_target A a p t (d, w) = (Inr r2, (d, w2))" "w_log w2 = w_log w @ new"
    "tp_repository_id r2 = tg_repository_id t" "honest A a p new r2"
    using backup_target_facts by blast
  show ?thesis
  proof (cases "tp_status r2 = TargetSuccess")
    case True
    with t again find_target_id [OF t(2)] honest_before [OF again(4)] show ?thesis
      by (simp add: retry_one_def prog_return_def)
  next
    case False
    with t again show ?thesis by (auto simp: retry_one_def prog_return_def honest_def)
  qed
qed

definition improved :: "target_report \<Rightarrow> target_report \<Rightarrow> bool" where
  "improved r r' \<longleftrightarrow> tp_repository_id r' = tp_repository_id r \<and> (tp_status r = TargetSuccess \<longrightarrow> r' = r) \<and>
     (tp_status r' \<noteq> TargetSuccess \<longrightarrow> (\<exists>text. r' = r\<lparr>tp_error := text\<rparr>))"

lemma retry_loop_facts:
  "list_all (honest A a p before) rs \<Longrightarrow>
     \<exists>rs' w' new. retry_loop A a p rs (d, w) = (Inr rs', (d, w')) \<and> w_log w' = w_log w @ new \<and>
       list_all2 improved rs rs' \<and> list_all (honest A a p (before @ new)) rs'"
proof (induction rs arbitrary: before w)
  case (Cons r rs)
  obtain r' w1 n1 where one: "retry_one A a p r (d, w) = (Inr r', (d, w1))" "w_log w1 = w_log w @ n1"
    "improved r r'" "honest A a p (before @ n1) r'"
    unfolding improved_def using retry_one_facts [of A a p before r] Cons.prems by fastforce
  have "list_all (honest A a p (before @ n1)) rs"
    using Cons.prems by (auto simp: list_all_iff honest_after)
  from Cons.IH [OF this] obtain rs' w2 n2 where rest: "retry_loop A a p rs (d, w1) = (Inr rs', (d, w2))"
    "w_log w2 = w_log w1 @ n2" "list_all2 improved rs rs'" "list_all (honest A a p ((before @ n1) @ n2)) rs'"
    by blast
  from one rest honest_after [OF one(4), of n2] show ?case by (simp add: prog_return_def)
qed (simp add: prog_return_def)

lemma improved_ids: "list_all2 improved rs rs' \<Longrightarrow> map tp_repository_id rs' = map tp_repository_id rs"
  by (induction rule: list_all2_induct) (simp_all add: improved_def)

lemma upload_all_facts:
  "\<exists>rs w' new. upload_all A a p (d, w) = (Inr \<lparr>jr_targets = rs, jr_staging_error = []\<rparr>, (d, w')) \<and> w_log w' = w_log w @ new \<and>
     map tp_repository_id rs = map tg_repository_id (as_targets a) \<and> list_all (honest A a p new) rs"
proof -
  obtain rs w1 n1 where first: "upload_loop A a p (as_targets a) (d, w) = (Inr rs, (d, w1))" "w_log w1 = w_log w @ n1"
    "map tp_repository_id rs = map tg_repository_id (as_targets a)" "list_all (honest A a p n1) rs"
    using upload_loop_facts by blast
  show ?thesis
  proof (cases "as_retry_failed a")
    case False
    with first show ?thesis by (simp add: upload_all_def prog_return_def)
  next
    case True
    from retry_loop_facts [OF first(4)] obtain rs' w2 n2 where "retry_loop A a p rs (d, w1) = (Inr rs', (d, w2))"
      "w_log w2 = w_log w1 @ n2" "list_all2 improved rs rs'" "list_all (honest A a p (n1 @ n2)) rs'" by blast
    with first True improved_ids show ?thesis by (simp add: upload_all_def prog_return_def)
  qed
qed

lemma stage_payload_world:
  "stage_payload A a account dir (d, w) = (r, s) \<Longrightarrow> snd s = w"
  by (auto simp: stage_payload_def on_disk_def split: prod.splits)

lemma verify_payload_state: "snd (verify_payload fs p d) = d"
proof -
  have one: "\<And>x e. snd (part_missing fs x e) = e" and two: "\<And>x e. \<exists>b. fst (part_missing fs x e) = Inr b"
    by (auto simp: part_missing_def split: sum.splits option.splits)
  have "snd (missing_parts fs ps e) = e \<and> (\<exists>m. fst (missing_parts fs ps e) = Inr m)" for ps e
  proof (induction ps arbitrary: e)
    case (Cons x ps)
    obtain b where "part_missing fs x e = (Inr b, e)" using one [of x e] two [of x e] by (metis prod.collapse)
    moreover obtain m where "missing_parts fs ps e = (Inr m, e)" using Cons.IH by (metis prod.collapse)
    ultimately show ?case by (simp add: prog_return_def)
  qed (simp add: prog_return_def)
  then obtain m where "missing_parts fs (pl_parts p) d = (Inr m, d)" by (metis prod.collapse)
  then show ?thesis by (simp add: verify_payload_def prog_return_def prog_fail_def)
qed

lemma stage_payload_verified:
  "stage_payload A a account dir (d, w) = (Inr p, (d', w')) \<Longrightarrow> verify_payload (ag_os A) p d' = (Inr (), d')"
proof -
  assume run: "stage_payload A a account dir (d, w) = (Inr p, (d', w'))"
  then obtain d1 where "verify_payload (ag_os A) p d1 = (Inr (), d')"
    by (auto simp: stage_payload_def on_disk_def prog_bind_eq_Inr prog_return_def split: prod.splits)
  with verify_payload_state [of "ag_os A" p d1] show ?thesis by auto
qed

text \<open>A job always ends with a report; what restic was asked to do is in the log.\<close>

lemma run_job_facts:
  "\<exists>report d' w'. run_job A a (d, w) = (Inr report, (d', w')) \<and>
    ((jr_targets report = [] \<and> (\<exists>e. jr_staging_error report = ag_error A e) \<and> w_log w' = w_log w) \<or>
    (\<exists>account dir d1 p dp new. job_account A a = Inr account \<and>
       allocate (ag_os A) (ag_manager A) (as_cpanel_user a) (job_estimate A a account) d = (Inr dir, d1) \<and>
       stage_payload A a account dir (d1, w) = (Inr p, (dp, w)) \<and>
       jr_staging_error report = [] \<and> w_log w' = w_log w @ new \<and>
       map tp_repository_id (jr_targets report) = map tg_repository_id (as_targets a) \<and> list_all (honest A a p new) (jr_targets report)))"
proof (cases "job_account A a")
  case (Inl e)
  then show ?thesis by (auto simp: run_job_def not_staged_def prog_return_def)
next
  case (Inr account)
  obtain r1 d1 where al: "allocate (ag_os A) (ag_manager A) (as_cpanel_user a) (job_estimate A a account) d = (r1, d1)" by fastforce
  then have al': "on_disk (allocate (ag_os A) (ag_manager A) (as_cpanel_user a) (job_estimate A a account)) (d, w) = (r1, (d1, w))"
    by (simp add: on_disk_def)
  show ?thesis
  proof (cases r1)
    case (Inl e)
    with Inr al' show ?thesis
      by (auto simp: run_job_def not_staged_def prog_return_def prog_bind_def attempt_def)
  next
    case dir: (Inr dir)
    obtain r2 d2 where st: "stage_payload A a account dir (d1, w) = (r2, (d2, w))"
      using stage_payload_world by (metis prod.collapse)
    show ?thesis
    proof (cases r2)
      case (Inl e)
      with Inr al' dir st show ?thesis
        by (auto simp: run_job_def not_staged_def prog_return_def prog_bind_def attempt_def quietly_def on_disk_def split: prod.splits)
    next
      case p: (Inr p)
      obtain rs w2 new where up: "upload_all A a p (d2, w) = (Inr \<lparr>jr_targets = rs, jr_staging_error = []\<rparr>, (d2, w2))"
        "w_log w2 = w_log w @ new" "map tp_repository_id rs = map tg_repository_id (as_targets a)" "list_all (honest A a p new) rs"
        using upload_all_facts by blast
      with Inr al' dir st p have "\<exists>d'. run_job A a (d, w) = (Inr \<lparr>jr_targets = rs, jr_staging_error = []\<rparr>, (d', w2))"
        by (auto simp: run_job_def prog_return_def prog_bind_def attempt_def quietly_def on_disk_def split: prod.splits)
      with up Inr al [unfolded dir] st [unfolded p] show ?thesis by fastforce
    qed
  qed
qed


definition packaged_bob :: nodes where
  "packaged_bob = [(''/stage/stage-bob/databases/bob_wp.sql'', FFile 9 5), (''/stage/stage-bob/databases'', FDir 5),
     (''/stage/stage-bob/metadata/cpmove-bob.tar'', FFile 7 5), (''/stage/stage-bob/metadata'', FDir 5)]"

definition bob_home :: nodes where
  "bob_home = [(''/home/bob'', FDir 1), (''/home/bob/index.php'', FFile 3 1)]"

definition bob_account :: account_info where
  "bob_account = no_account\<lparr>ac_user := ''bob'', ac_home_dir := ''/home/bob'', ac_databases := [''bob_wp''], ac_size_bytes := 4096\<rparr>"

definition example_agent :: "unit agent" where
  "example_agent = \<lparr>ag_sys = reply_sys (\<lambda>_. ''{}''), ag_runner = example_config, ag_codec = example_codec [],
     ag_net = \<lparr>na_is_ipv6 = (\<lambda>_. False), na_parse = (\<lambda>_. Inl ErrNotFound), na_string = u_host\<rparr>, ag_os = example_os\<lparr>os_statfs := (\<lambda>_ _. Inr (2 ^ 30, 4))\<rparr>,
     ag_manager = example_manager, ag_host = one_account\<lparr>ho_account := (\<lambda>_. Inr bob_account)\<rparr>,
     ag_stage = (\<lambda>q d. if sq_staging_dir q = ''/stage/stage-bob'' then (Inr bob_payload, packaged_bob @ d) else (Inl ErrNotFound, d)), ag_stage_system = (\<lambda>_ d. (Inl ErrNotFound, d)), ag_hostname = ''cp1'',
     ag_share = (\<lambda>n. n div 5), ag_seconds = (\<lambda>_. 0), ag_error = (\<lambda>_. ''error''), ag_watched = False\<rparr>"

definition bob_job :: job_assignment where
  "bob_job = \<lparr>as_job_id = ''j1'', as_cpanel_user = ''bob'', as_size_estimate = 0, as_payload_mode = mode_split, as_excludes = [],
     as_skip_homedir = False, as_skip_databases = False, as_skip_email = False, as_retry_failed = True, as_limit_upload_kib = 0,
     as_targets = [\<lparr>tg_repository_id = ''r1'', tg_spec = \<lparr>ds_type = TypeLocal, ds_config = [(''root'', ''/mnt/nas'')], ds_secrets = []\<rparr>,
       tg_repo_path = ''cp1'', tg_repo_password = ''pw''\<rparr>]\<rparr>"

lemma plain_backup:
  assumes "plain_handle repo" "bs_paths spec \<noteq> []" "bs_record_completion spec"
  shows "\<exists>b w'. backup_outcome (reply_sys (\<lambda>_. ''{}'')) example_config (example_codec ss) repo spec w = ((b, None), w') \<and>
    \<not> br_incomplete b \<and> bm_snapshot_id (br_summary b) = ''0123abcd''"
proof -
  let ?S = "reply_sys (\<lambda>_. ''{}'')" and ?out = "\<lparr>cr_stdout = ''{}'', cr_stderr = [], cr_exit_code = 0, cr_truncated = False\<rparr>"
  have "bs_paths (tag_for_completion spec) \<noteq> []" using assms(2) by (simp add: tag_for_completion_def)
  then obtain args where args: "backup_args (tag_for_completion spec) = Inr args"
    by (simp add: backup_args_def)
  obtain w1 where run: "run_checked ?S example_config repo args no_secondary (bs_on_progress (tag_for_completion spec)) False True w = (Inr ?out, w1)"
    using plain_run [OF assms(1), of "\<lambda>_. ''{}''" args] by blast
  have v: "validate_snapshot_id ''0123abcd'' = Inr ()"
    by (simp add: validate_snapshot_id_iff is_hex_def is_digit_def)
  define dir where "dir = rc_runtime_dir example_config @ ''/x''"
  have mk: "mkdir_temp ?S (rc_runtime_dir example_config) ''gniza-completion-'' w1 = (Inr dir, w1\<lparr>w_ext := ()\<rparr>)"
    by (simp add: mkdir_temp_def reply_sys_def dir_def)
  obtain w2 where wf: "write_file ?S (dir @ ''/completed'') (''0123abcd'' @ [nl]) 0x180 (w1\<lparr>w_ext := ()\<rparr>) = (Inr (), w2)"
    by (simp add: write_file_def reply_sys_def)
  obtain rargs where r: "backup_args (receipt_spec (dir @ ''/completed'') (bs_host (tag_for_completion spec)) ''0123abcd'') = Inr rargs"
    by (simp add: backup_args_def receipt_spec_def)
  obtain w3 where run2: "run_checked ?S example_config repo rargs no_secondary False False False w2 = (Inr ?out, w3)"
    using plain_run [OF assms(1), of "\<lambda>_. ''{}''"] by blast
  have "record_completion ?S example_config (example_codec ss) repo (bs_host (tag_for_completion spec)) ''0123abcd'' w1
      = (Inr (), remove_all dir w3)"
    by (simp add: record_completion_def v mk r wf [simplified] run2 example_parse defer_remove_def Let_def)
  with args run assms(3) show ?thesis
    by (simp add: backup_outcome_def write_snapshot_def Let_def example_parse exit_incomplete_read_def tag_for_completion_def prog_return_def)
qed

lemma bob_job_runs:
  "\<exists>report s r. run_job example_agent bob_job (bob_home, example_world) = (Inr report, s) \<and> jr_targets report = [r] \<and>
     tp_repository_id r = ''r1'' \<and> tp_status r = TargetSuccess \<and> tp_snapshot_id r = ''0123abcd''"
proof -
  let ?A = example_agent and ?t = "hd (as_targets bob_job)"
  have account: "job_account ?A bob_job = Inr bob_account"
    by (simp add: job_account_def bob_job_def example_agent_def system_account_def)
  have "fst (allocate (ag_os ?A) (ag_manager ?A) ''bob'' (job_estimate ?A bob_job bob_account) bob_home) =
      Inr \<lparr>sd_path = ''/stage/stage-bob'', sd_retained = False, sd_key = ''bob''\<rparr>" by code_simp
  then obtain d1 where dir: "allocate (ag_os ?A) (ag_manager ?A) ''bob'' (job_estimate ?A bob_job bob_account) bob_home =
      (Inr \<lparr>sd_path = ''/stage/stage-bob'', sd_retained = False, sd_key = ''bob''\<rparr>, d1)"
    by (cases "allocate (ag_os ?A) (ag_manager ?A) ''bob'' (job_estimate ?A bob_job bob_account) bob_home") auto
  from allocate_Inr(8) [OF this] have d1: "d1 = (''/stage/stage-bob'', FDir 5) # bob_home" by (simp add: example_agent_def example_os_def)
  have "fst (verify_payload (ag_os ?A) bob_payload (packaged_bob @ (''/stage/stage-bob'', FDir 5) # bob_home)) = Inr ()" by code_simp
  with verify_payload_state have "verify_payload (ag_os ?A) bob_payload (packaged_bob @ d1) = (Inr (), packaged_bob @ d1)"
    unfolding d1 by (metis prod.collapse)
  then have staged: "stage_payload ?A bob_job bob_account \<lparr>sd_path = ''/stage/stage-bob'', sd_retained = False, sd_key = ''bob''\<rparr>
      (d1, example_world) = (Inr bob_payload, (packaged_bob @ d1, example_world))"
    by (simp add: stage_payload_def on_disk_def bob_job_def system_account_def prog_return_def) (simp add: example_agent_def)
  have targets: "as_targets bob_job = [?t]" by (simp add: bob_job_def)
  obtain dest where dest: "build (tg_spec ?t) = Inr dest" and plain: "plain_handle (target_repository ?A ?t dest)"
  proof -
    have "case build (tg_spec ?t) of Inl e \<Rightarrow> False | Inr dest \<Rightarrow>
       d_uri (backend_of (ag_net ?A) dest) ''cp1'' = Inr ''/mnt/nas/cp1'' \<and> d_env (backend_of (ag_net ?A) dest) = Inr [] \<and>
       d_options (backend_of (ag_net ?A) dest) = Inr []" by code_simp
    then show thesis
      using that by (auto simp: plain_handle_def target_repository_def bob_job_def split: sum.splits)
  qed
  have spec: "bs_paths (upload_spec ?A bob_job bob_payload) \<noteq> []" "bs_record_completion (upload_spec ?A bob_job bob_payload)"
    by (simp_all add: upload_spec_def) code_simp
  obtain b w' where out: "backup_outcome (ag_sys ?A) (ag_runner ?A) (ag_codec ?A) (target_repository ?A ?t dest)
      (upload_spec ?A bob_job bob_payload) example_world = ((b, None), w')" "\<not> br_incomplete b" "bm_snapshot_id (br_summary b) = ''0123abcd''"
    using plain_backup [OF plain spec, of "[]" example_world] by (auto simp: example_agent_def)
  have ok: "tp_status (report_backup ?A ?t b None) = TargetSuccess" using out(2) by simp
  have "upload_all ?A bob_job bob_payload (packaged_bob @ d1, example_world) =
      (Inr \<lparr>jr_targets = [report_backup ?A ?t b None], jr_staging_error = []\<rparr>, (packaged_bob @ d1, w'))"
    by (subst upload_all_def, subst targets) (simp add: backup_target_def dest out(1,2) prog_return_def retry_one_def ok)
  moreover have "as_cpanel_user bob_job = ''bob''" "tg_repository_id ?t = ''r1''" by (simp_all add: bob_job_def)
  ultimately show ?thesis
    using account dir staged out ok
    by (auto simp: run_job_def on_disk_def attempt_def quietly_def prog_bind_def prog_return_def split: prod.splits)
qed



section \<open>A job cleans up after itself\<close>

text \<open>Packaging writes below the directory it is given and nowhere else.\<close>

definition stages_below :: "('x, 'b) agent_scheme \<Rightarrow> bool" where
  "stages_below A \<longleftrightarrow>
     (\<forall>q d r d' path. ag_stage A q d = (r, d') \<and> \<not> lies_under (sq_staging_dir q) path \<longrightarrow> map_of d' path = map_of d path) \<and>
     (\<forall>dir d r d' path. ag_stage_system A dir d = (r, d') \<and> \<not> lies_under dir path \<longrightarrow> map_of d' path = map_of d path)"

lemma stage_payload_below:
  assumes "stages_below A" "stage_payload A a account dir (d, w) = (r, (d', w'))" "\<not> lies_under (sd_path dir) path"
  shows "map_of d' path = map_of d path"
proof -
  let ?q = "\<lparr>sq_account = account, sq_staging_dir = sd_path dir, sq_mode = as_payload_mode a, sq_skip_homedir = as_skip_homedir a,
     sq_skip_databases = as_skip_databases a, sq_skip_email = as_skip_email a\<rparr>"
  let ?packed = "if as_cpanel_user a = system_account then ag_stage_system A (sd_path dir) else ag_stage A ?q"
  obtain r1 d1 where one: "?packed d = (r1, d1)" by fastforce
  have below: "map_of d1 path = map_of d path"
  proof (cases "as_cpanel_user a = system_account")
    case True
    with one have "ag_stage_system A (sd_path dir) d = (r1, d1)" by simp
    with assms(1,3) show ?thesis unfolding stages_below_def by blast
  next
    case False
    with one have "ag_stage A ?q d = (r1, d1)" by simp
    moreover have "\<not> lies_under (sq_staging_dir ?q) path" using assms(3) by simp
    ultimately show ?thesis using assms(1) unfolding stages_below_def by blast
  qed
  have "snd (prog_bind ?packed (\<lambda>payload. prog_bind (verify_payload (ag_os A) payload) (\<lambda>_. prog_return payload)) d) = d1"
  proof (cases r1)
    case (Inl e)
    with one show ?thesis by (simp only: prog_bind_def prod.case sum.case snd_conv)
  next
    case (Inr p)
    with one have "prog_bind ?packed (\<lambda>payload. prog_bind (verify_payload (ag_os A) payload) (\<lambda>_. prog_return payload)) d
        = prog_bind (verify_payload (ag_os A) p) (\<lambda>_. prog_return p) d1"
      by (simp only: prog_bind_def prod.case sum.case)
    moreover obtain v where "verify_payload (ag_os A) p d1 = (v, d1)"
      using verify_payload_state [of "ag_os A" p d1] by (metis prod.collapse)
    ultimately show ?thesis by (cases v) (simp_all add: prog_return_def)
  qed
  with assms(2) have "d' = d1" unfolding stage_payload_def on_disk_def by (auto split: prod.splits)
  with below show ?thesis by simp
qed

lemma stage_path_clean:
  assumes "good_root M" "validate_key key = Inr ()"
  shows "file_join (mg_root M) (stage_prefix @ key) = mg_root M @ ''/stage-'' @ key"
    "path_clean (mg_root M @ ''/stage-'' @ key) = mg_root M @ ''/stage-'' @ key"
    "path_clean (mg_root M) = mg_root M"
proof -
  have "list_all key_char key" using assms(2) by (auto simp: validate_key_def split: if_splits)
  then have plain: "plain_seg (stage_prefix @ key)"
    by (auto simp: plain_seg_def stage_prefix_def list_all_iff dest: key_char_plain)
  show first: "file_join (mg_root M) (stage_prefix @ key) = mg_root M @ ''/stage-'' @ key"
    using good_root_facts(3) [OF assms(1) plain] by (simp add: stage_prefix_def)
  with good_root_facts(1) [OF assms(1)] show "path_clean (mg_root M @ ''/stage-'' @ key) = mg_root M @ ''/stage-'' @ key"
    by (simp add: file_join_def path_join_def stage_prefix_def)
  show "path_clean (mg_root M) = mg_root M" using assms(1) by (simp add: good_root_def)
qed



end
