(* ===== verification/Engine_Frames.thy ===== *)
theory Engine_Frames
  imports Notices
begin

text \<open>
  What a program of the engine may change. A \<open>frame\<close> is a reflexive and transitive relation between
  the states before and after; three of them are used: the store outside some buckets, the messages
  sent, and the world outside (restic, the staging directory). The rules that compose programs are
  proved once, in the locale, and rest on no operation.
\<close>

definition relates :: "(('db, 'x) engine_state \<Rightarrow> ('db, 'x) engine_state \<Rightarrow> bool) \<Rightarrow> ('db, 'x, 'a) eprog \<Rightarrow> bool" where
  "relates R m \<longleftrightarrow> (\<forall>s. R s (snd (m s)))"

lemma relatesD: "relates R m \<Longrightarrow> m s = (r, s') \<Longrightarrow> R s s'"
  by (metis relates_def snd_conv)

locale frame =
  fixes R :: "('db, 'x) engine_state \<Rightarrow> ('db, 'x) engine_state \<Rightarrow> bool"
  assumes same: "R s s" and onward: "R s t \<Longrightarrow> R t u \<Longrightarrow> R s u"
begin

lemma basic: "relates R (prog_return a)" "relates R (prog_fail e)" "relates R (prog_lift r)" "relates R (Pair r)"
  by (simp_all add: relates_def prog_return_def prog_fail_def prog_lift_def same)

lemma reading: "reads_only m \<Longrightarrow> relates R m"
  by (simp add: relates_def reads_only_def same)

lemma bind:
  assumes "relates R m" "\<And>a. relates R (f a)"
  shows "relates R (prog_bind m f)"
  unfolding relates_def
proof
  fix s
  obtain r s1 where m: "m s = (r, s1)" by force
  with assms(1) have "R s s1" by (rule relatesD)
  moreover have "R s1 (snd (f a s1))" for a using assms(2) [of a] by (simp add: relates_def)
  ultimately show "R s (snd (prog_bind m f s))" using m by (cases r) (auto simp: prog_bind_def intro: onward)
qed

lemma quiet: "relates R m \<Longrightarrow> relates R (quietly m)" "relates R m \<Longrightarrow> relates R (attempt m)"
  by (simp_all add: relates_def quietly_def attempt_eq)

lemma wrap: "relates R m \<Longrightarrow> relates R (err_wrap msg m)"
proof -
  assume m: "relates R m"
  have "R s (snd (err_wrap msg m s))" for s
    using m by (cases "m s"; cases "fst (m s)") (auto simp: relates_def err_wrap_def dest: spec [of _ s])
  then show "relates R (err_wrap msg m)" by (simp add: relates_def)
qed

lemma cond: "relates R m \<Longrightarrow> relates R n \<Longrightarrow> relates R (if b then m else n)"
  by simp

lemma on_sum: "(\<And>e. relates R (f e)) \<Longrightarrow> (\<And>a. relates R (g a)) \<Longrightarrow> relates R (case r of Inl e \<Rightarrow> f e | Inr a \<Rightarrow> g a)"
  by (cases r) simp_all

lemma on_option: "relates R m \<Longrightarrow> (\<And>a. relates R (g a)) \<Longrightarrow> relates R (case r of None \<Rightarrow> m | Some a \<Rightarrow> g a)"
  by (cases r) simp_all

lemmas steps = basic bind quiet wrap cond on_sum on_option

end

section \<open>The store outside some buckets\<close>

definition same_outside :: "('db, 'x) engine \<Rightarrow> bucket set \<Rightarrow> ('db, 'x) engine_state \<Rightarrow> ('db, 'x) engine_state \<Rightarrow> bool" where
  "same_outside E bs s s' \<longleftrightarrow>
     (\<forall>b k. b \<notin> bs \<longrightarrow> bo_get (eg_store E) b k (es_db s') = bo_get (eg_store E) b k (es_db s))"

definition same_outbox :: "('db, 'x) engine_state \<Rightarrow> ('db, 'x) engine_state \<Rightarrow> bool" where
  "same_outbox s s' \<longleftrightarrow> es_outbox s' = es_outbox s"

definition same_world :: "('db, 'x) engine_state \<Rightarrow> ('db, 'x) engine_state \<Rightarrow> bool" where
  "same_world s s' \<longleftrightarrow> es_world s' = es_world s \<and> es_staging s' = es_staging s"

text \<open>The record of commands only grows.\<close>

definition log_grows :: "('db, 'x) engine_state \<Rightarrow> ('db, 'x) engine_state \<Rightarrow> bool" where
  "log_grows s s' \<longleftrightarrow> (\<exists>new. w_log (es_world s') = w_log (es_world s) @ new)"

interpretation outside: frame "same_outside E bs"
  by unfold_locales (auto simp: same_outside_def)

interpretation outbox: frame same_outbox
  by unfold_locales (auto simp: same_outbox_def)

interpretation world: frame same_world
  by unfold_locales (auto simp: same_world_def)

interpretation grows: frame log_grows
  by unfold_locales (auto simp: log_grows_def)

lemma same_outsideD: "same_outside E bs s s' \<Longrightarrow> b \<notin> bs \<Longrightarrow> bo_get (eg_store E) b k (es_db s') = bo_get (eg_store E) b k (es_db s)"
  by (simp add: same_outside_def)

lemma same_outside_mono: "same_outside E bs s s' \<Longrightarrow> bs \<subseteq> cs \<Longrightarrow> same_outside E cs s s'"
  by (auto simp: same_outside_def)

lemma relates_outside_mono: "relates (same_outside E bs) m \<Longrightarrow> bs \<subseteq> cs \<Longrightarrow> relates (same_outside E cs) m"
  unfolding relates_def by (blast intro: same_outside_mono)

lemma log_grows_world: "same_world s s' \<Longrightarrow> log_grows s s'"
  by (simp add: same_world_def log_grows_def)

lemma relates_grows_world: "relates same_world m \<Longrightarrow> relates log_grows m"
  unfolding relates_def by (blast intro: log_grows_world)

section \<open>What the operations keep\<close>

named_theorems framed \<open>what operations of the engine leave alone\<close>

lemma store_frame [framed]:
  "relates same_outbox (on_store m)" "relates same_world (on_store m)" "relates log_grows (on_store m)"
  by (simp_all add: relates_def on_store_def same_outbox_def same_world_def log_grows_def split: prod.splits)

lemma restic_frame [framed]:
  "relates same_outbox (on_restic m)" "relates (same_outside E bs) (on_restic m)"
  by (simp_all add: relates_def on_restic_def same_outbox_def same_outside_def split: prod.splits)

lemma put_frame:
  assumes "bolt_store (eg_store E)" "b \<in> bs"
  shows "relates (same_outside E bs) (on_store (s_put (eg_store E) b key d))"
    "relates (same_outside E bs) (on_store (prog_bind (s_put (eg_store E) b key d) (\<lambda>_. prog_return x)))"
  using assms put_get_other [OF assms(1)]
  by (auto simp: relates_def same_outside_def on_store_def s_put_return_snd split: prod.splits)
    (metis put_get_other s_put_return_snd snd_conv)+

lemma put_job_frame [framed]:
  "bolt_store (eg_store E) \<Longrightarrow> BJobs \<in> bs \<Longrightarrow> relates (same_outside E bs) (on_store (put_job (eg_store E) i now j))"
  unfolding put_job_def Let_def by (rule put_frame(2))

lemma put_restore_frame [framed]:
  "bolt_store (eg_store E) \<Longrightarrow> BRestores \<in> bs \<Longrightarrow> relates (same_outside E bs) (on_store (put_restore (eg_store E) i now r))"
  unfolding put_restore_def Let_def by (rule put_frame(2))

lemma put_channel_frame [framed]:
  "bolt_store (eg_store E) \<Longrightarrow> BChannels \<in> bs \<Longrightarrow> relates (same_outside E bs) (on_store (put_channel (eg_store E) i now c))"
  unfolding put_channel_def Let_def by (rule put_frame(2))

lemma put_identity_frame [framed]:
  "bolt_store (eg_store E) \<Longrightarrow> BIdentities \<in> bs \<Longrightarrow> relates (same_outside E bs) (on_store (put_identity (eg_store E) now a))"
  unfolding put_identity_def Let_def by (rule put_frame(2))

lemma on_store_bind: "on_store (prog_bind m f) = prog_bind (on_store m) (\<lambda>a. on_store (f a))"
  by (auto simp: prog_bind_def on_store_def fun_eq_iff split: prod.splits sum.splits)

lemma mark_initialised_frame [framed]:
  assumes "bolt_store (eg_store E)" "BRepositories \<in> bs"
  shows "relates (same_outside E bs) (on_store (mark_repository_initialised (eg_store E) now i))"
  unfolding mark_repository_initialised_def on_store_bind
  by (intro outside.bind outside.reading reads_only_store put_frame assms) simp

lemma held_settings_frame: "reads_only held_settings"
  by (simp add: reads_only_def held_settings_def)

lemma note_identity_frame [framed]:
  "bolt_store (eg_store E) \<Longrightarrow> BIdentities \<in> bs \<Longrightarrow> relates (same_outside E bs) (note_identity E H m account)"
  "relates same_outbox (note_identity E H m account)" "relates same_world (note_identity E H m account)"
  unfolding note_identity_def note_found_def store_identity_def
  by (intro outside.steps framed outside.reading reads_only_identity; assumption)
    (intro outbox.steps framed outbox.reading reads_only_identity world.steps world.reading)+

lemma channel_for_frame: "reads_only (channel_for E c)"
  by (auto simp: reads_only_def) (metis channel_for_opened snd_conv)

lemma record_send_frame [framed]:
  "bolt_store (eg_store E) \<Longrightarrow> BChannels \<in> bs \<Longrightarrow> relates (same_outside E bs) (record_send E m held e)"
  "relates same_world (record_send E m held e)"
  unfolding record_send_def by (intro outside.quiet world.quiet framed; assumption)+

lemma send_frame [framed]: "relates (same_outside E bs) (send N i ch msg)" "relates same_world (send N i ch msg)"
  by (simp_all add: relates_def send_def same_outside_def same_world_def)

lemma notify_one_frame [framed]:
  "bolt_store (eg_store E) \<Longrightarrow> BChannels \<in> bs \<Longrightarrow> relates (same_outside E bs) (notify_one E N m msg c)"
  "relates same_world (notify_one E N m msg c)"
  unfolding notify_one_def
  by (intro outside.steps outside.reading channel_for_frame framed; assumption)
    (intro world.steps world.reading channel_for_frame framed)

lemma notify_loop_frame [framed]:
  "bolt_store (eg_store E) \<Longrightarrow> BChannels \<in> bs \<Longrightarrow> relates (same_outside E bs) (notify_loop E N m msg cs)"
  "relates same_world (notify_loop E N m msg cs)"
  by (induction cs) (simp_all, (intro outside.steps world.steps framed; assumption?)+)

lemma channels_frame: "reads_only (on_store (channels B) :: ('db, 'x, channel list) eprog)"
  by (rule reads_only_store) simp

lemma notify_frame [framed]:
  "bolt_store (eg_store E) \<Longrightarrow> BChannels \<in> bs \<Longrightarrow> relates (same_outside E bs) (notify E N m msg)"
  "relates same_world (notify E N m msg)"
  unfolding notify_def Let_def
  by (intro outside.steps outside.reading held_settings_frame reads_only_attempt channels_frame framed; assumption)
    (intro world.steps world.reading held_settings_frame reads_only_attempt channels_frame framed)

text \<open>Telling people never fails.\<close>

lemma notify_succeeds:
  assumes "bolt_store (eg_store E)"
  shows "fst (notify E N m msg s) = Inr ()"
proof -
  obtain r where r: "channels (eg_store E) (es_db s) = (r, es_db s)"
    using snd_reading(6) [of "eg_store E" "es_db s"] by (metis prod.collapse)
  have "fst (notify_loop E N m msg' cs s) = Inr ()" for msg' cs
    using notify_loop_facts [OF assms] by blast
  with r show ?thesis
    by (cases r) (simp_all add: notify_def held_settings_def prog_bind_def attempt_def on_store_def Let_def prog_return_def)
qed

end
