(* ===== verification/Node_Run.thy ===== *)
theory Node_Run
  imports Node_Schedule Agent_Job Engine_Frames
begin

text \<open>
  Carrying out a backup: \<open>EnsureProvisioned\<close>, \<open>AddDestination\<close>, \<open>runBackup\<close> and what they call
  (\<open>internal/node/run.go\<close>, \<open>node.go\<close>). The worker is the agent of \<open>Agent_Job\<close> with the engine's own
  restic. The moments \<open>ms 0, ms 1, ...\<close> are the readings of the clock and the identifiers a run uses, in
  order. What a run's progress writes into its own record meanwhile is overwritten at its end.
\<close>

section \<open>Repositories come into being\<close>

definition repository_already_there :: "string \<Rightarrow> bool" where
  "repository_already_there text = contains_str text ''config file already exists''"

definition provision_one :: "('db, 'x) engine \<Rightarrow> moment \<Rightarrow> repository \<Rightarrow> ('db, 'x, unit) eprog" where
  "provision_one E m repo =
     prog_bind (open_repository E (rp_id repo) False) (\<lambda>handle.
     prog_bind
       (if rp_chunker_source repo \<noteq> []
        then err_wrap ''node: open chunker source'' (prog_bind (open_repository E (rp_chunker_source repo) False) (\<lambda>source. prog_return (Some source)))
        else prog_return None) (\<lambda>source.
     prog_bind (attempt (on_restic (init_repository (eg_sys E) (eg_runner E) handle source))) (\<lambda>made.
       case made of
         Inl e \<Rightarrow> prog_fail (if repository_already_there (eg_error E e)
                             then ErrMsg ''there is already a repository at'' [rp_repo_path repo] else e)
       | Inr _ \<Rightarrow> on_store (mark_repository_initialised (eg_store E) (mo_now m) (rp_id repo)))))"

fun provision_loop :: "('db, 'x) engine \<Rightarrow> moment \<Rightarrow> repository list \<Rightarrow> ('db, 'x, nat) eprog" where
  "provision_loop E m [] = prog_return 0"
| "provision_loop E m (repo # repos) =
     (if rp_initialised_at repo \<noteq> None then provision_loop E m repos
      else prog_bind (provision_one E m repo) (\<lambda>_.
           prog_bind (provision_loop E m repos) (\<lambda>n. prog_return (n + 1))))"

definition ensure_provisioned :: "('db, 'x) engine \<Rightarrow> moment \<Rightarrow> ('db, 'x, nat) eprog" where
  "ensure_provisioned E m = prog_bind (on_store (repositories (eg_store E))) (provision_loop E m)"

text \<open>\<open>password\<close> is what the vault generates.\<close>

definition new_repository :: "('db, 'x) engine \<Rightarrow> seal_api \<Rightarrow> moment \<Rightarrow> moment \<Rightarrow> string res \<Rightarrow> string \<Rightarrow> string \<Rightarrow> ('db, 'x, repository) eprog" where
  "new_repository E S m1 m2 password destination_id path =
     prog_bind (prog_lift password) (\<lambda>pw.
     prog_bind (seal_repository_password E S m1 pw) (\<lambda>i.
       on_store (put_repository (eg_store E) (mo_new_id m2) (mo_now m2)
         \<lparr>rp_id = [], rp_destination_id = destination_id, rp_repo_path = path, rp_password_secret_id = i, rp_chunker_source = [],
          rp_initialised_at = None, rp_recovery_noted_at = None, rp_approved_at = None, rp_approved_keeps = no_keeps,
          rp_retention = no_retention, rp_created_at = zero_time\<rparr>)))"

definition add_destination :: "('db, 'x) engine \<Rightarrow> seal_api \<Rightarrow> (nat \<Rightarrow> moment) \<Rightarrow> string res \<Rightarrow> destination \<Rightarrow> gomap \<Rightarrow> string \<Rightarrow>
    ('db, 'x, destination \<times> repository) eprog" where
  "add_destination E S ms password d secrets repository_path =
     prog_bind (prog_lift (build \<lparr>dest_spec.ds_type = dtype_of (destination.ds_type d),
        dest_spec.ds_config = destination.ds_config d, dest_spec.ds_secrets = secrets\<rparr>)) (\<lambda>_.
     prog_bind (seal_credentials E S (ms 0) secrets) (\<lambda>i.
     prog_bind (on_store (put_destination (eg_store E) (mo_new_id (ms 1)) (mo_now (ms 1)) (d\<lparr>ds_credentials_secret_id := i\<rparr>))) (\<lambda>stored.
     prog_bind (new_repository E S (ms 2) (ms 3) password (ds_id stored) repository_path) (\<lambda>repo.
       prog_return (stored, repo)))))"

definition save_destination :: "('db, 'x) engine \<Rightarrow> moment \<Rightarrow> destination \<Rightarrow> ('db, 'x, unit) eprog" where
  "save_destination E m d =
     prog_bind (build_spec E d) (\<lambda>spec.
     prog_bind (prog_lift (build spec)) (\<lambda>_.
     prog_bind (on_store (put_destination (eg_store E) (mo_new_id m) (mo_now m) d)) (\<lambda>_. prog_return ())))"

section \<open>What a job is asked to do\<close>

definition excludes_for :: "policy \<Rightarrow> account_info \<Rightarrow> string list \<Rightarrow> string list" where
  "excludes_for p account native =
     po_excludes p
     @ (if po_skip_email p \<and> ac_home_dir account \<noteq> []
        then [file_join (ac_home_dir account) ''mail'', file_join (ac_home_dir account) ''etc''] else [])
     @ native"

definition target_for :: "('db, 'x) engine \<Rightarrow> string \<Rightarrow> ('db, 'x, upload_target) eprog" where
  "target_for E i =
     prog_bind (on_store (get_repository (eg_store E) i)) (\<lambda>repo.
     prog_bind (on_store (get_destination (eg_store E) (rp_destination_id repo))) (\<lambda>d.
     prog_bind (build_spec E d) (\<lambda>spec.
     prog_bind (prog_lift (build spec)) (\<lambda>_.
     prog_bind (open_secret E (rp_password_secret_id repo)) (\<lambda>password.
       prog_return \<lparr>tg_repository_id = i, tg_spec = spec, tg_repo_path = rp_repo_path repo, tg_repo_password = password\<rparr>)))))"

fun targets_for :: "('db, 'x) engine \<Rightarrow> string list \<Rightarrow> ('db, 'x, upload_target list) eprog" where
  "targets_for E [] = prog_return []"
| "targets_for E (i # is) =
     prog_bind (target_for E i) (\<lambda>t. prog_bind (targets_for E is) (\<lambda>ts. prog_return (t # ts)))"

definition assignment_for :: "('db, 'x) engine \<Rightarrow> host \<Rightarrow> node_job \<Rightarrow> policy \<Rightarrow> account_info \<Rightarrow> ('db, 'x, job_assignment) eprog" where
  "assignment_for E H j p account =
     prog_bind (targets_for E (po_repository_ids p)) (\<lambda>targets.
       if length targets = 0 then prog_fail (ErrMsg ''node: policy has no repositories'' [po_name p])
       else prog_return
         \<lparr>as_job_id = jb_id j, as_cpanel_user = jb_account j, as_size_estimate = ac_size_bytes account,
          as_payload_mode = po_payload_mode p,
          as_excludes = excludes_for p account (ho_native_excludes H (ac_home_dir account)),
          as_skip_homedir = po_skip_homedir p, as_skip_databases = po_skip_databases p, as_skip_email = po_skip_email p,
          as_retry_failed = po_retry_failed p, as_limit_upload_kib = po_limit_upload_kib p, as_targets = targets\<rparr>)"

section \<open>Running it\<close>

definition worker :: "('db, 'x) engine \<Rightarrow> 'x agent \<Rightarrow> 'x agent" where
  "worker E A = A\<lparr>ag_sys := eg_sys E, ag_runner := eg_runner E, ag_codec := eg_codec E, ag_net := eg_net E,
     ag_error := eg_error E, ag_watched := True\<rparr>"

definition on_worker :: "('x, 'a) aprog \<Rightarrow> ('db, 'x, 'a) eprog" where
  "on_worker m = (\<lambda>s. case m (es_staging s, es_world s) of (r, (d, w)) \<Rightarrow> (r, s\<lparr>es_staging := d, es_world := w\<rparr>))"

definition fail_job :: "('db, 'x) engine \<Rightarrow> moment \<Rightarrow> node_job \<Rightarrow> string \<Rightarrow> ('db, 'x, unit) eprog" where
  "fail_job E m j reason =
     prog_bind (on_store (put_job (eg_store E) (mo_new_id m) (mo_now m)
       (j\<lparr>jb_status := StatusFailed, jb_progress := None, jb_staging_err := reason, jb_finished_at := Some (mo_now m)\<rparr>)))
       (\<lambda>_. prog_return ())"

definition notify_backup :: "('db, 'x) engine \<Rightarrow> sender \<Rightarrow> moment \<Rightarrow> node_job \<Rightarrow> ('db, 'x, unit) eprog" where
  "notify_backup E N m j =
     (case jb_status j of
        StatusSuccess \<Rightarrow> notify E N m (notice ev_succeeded (jb_account j))
      | StatusPartialSuccess \<Rightarrow> notify E N m (notice ev_partial (jb_account j))
      | StatusFailed \<Rightarrow> notify E N m (notice ev_failed (jb_account j))
      | _ \<Rightarrow> prog_return ())"

definition target_of_report :: "target_report \<Rightarrow> job_target" where
  "target_of_report r =
     \<lparr>jt_repository_id = tp_repository_id r, jt_status = tp_status r, jt_snapshot_id = tp_snapshot_id r,
      jt_bytes_added = tp_bytes_added r, jt_bytes_processed = tp_bytes_processed r, jt_duration_secs = tp_duration_secs r,
      jt_incomplete = tp_incomplete r, jt_error = tp_error r, jt_detail = tp_detail r\<rparr>"

definition result_of :: "target_status \<Rightarrow> bool \<Rightarrow> target_result" where
  "result_of status incomplete =
     \<lparr>tr_repository_id = [], tr_status = status, tr_snapshot_id = [], tr_bytes_added = 0, tr_bytes_processed = 0,
      tr_duration = 0, tr_attempt = 0, tr_incomplete = incomplete, tr_err = []\<rparr>"

definition finished_job :: "policy \<Rightarrow> job_report \<Rightarrow> instant \<Rightarrow> node_job \<Rightarrow> node_job" where
  "finished_job p report now j =
     (let failed_stage = (jr_staging_error report \<noteq> []);
          targets = map target_of_report (jr_targets report);
          targets = (if failed_stage then map (\<lambda>t. t\<lparr>jt_status := TargetFailed, jt_error := jr_staging_error report\<rparr>) targets
                     else targets);
          results = (if failed_stage then map (\<lambda>_. result_of TargetFailed False) (po_repository_ids p)
                     else map (\<lambda>r. result_of (tp_status r) (tp_incomplete r)) (jr_targets report))
      in j\<lparr>jb_staging_err := jr_staging_error report, jb_targets := targets, jb_status := rollup results,
           jb_progress := None, jb_finished_at := Some now\<rparr>)"

definition whole_account :: "policy \<Rightarrow> string \<Rightarrow> bool" where
  "whole_account p account \<longleftrightarrow>
     account \<noteq> system_account \<and> \<not> po_skip_homedir p \<and> \<not> po_skip_databases p \<and> \<not> po_skip_email p"

definition perform_backup :: "('db, 'x) engine \<Rightarrow> sender \<Rightarrow> 'x agent \<Rightarrow> (nat \<Rightarrow> moment) \<Rightarrow> node_job \<Rightarrow> policy \<Rightarrow> account_info \<Rightarrow> ('db, 'x, unit) eprog" where
  "perform_backup E N A ms j p account =
     prog_bind (attempt (assignment_for E (ag_host A) j p account)) (\<lambda>r.
     case r of
       Inl e \<Rightarrow> fail_job E (ms 1) j (eg_error E e)
     | Inr a \<Rightarrow>
         let j = j\<lparr>jb_complete_account := whole_account p (jb_account j), jb_status := StatusRunning,
                   jb_started_at := Some (mo_now (ms 3))\<rparr> in
         prog_bind (on_store (put_job (eg_store E) (mo_new_id (ms 3)) (mo_now (ms 3)) j)) (\<lambda>_.
         prog_bind (notify E N (ms 3) (notice ev_started (jb_account j))) (\<lambda>_.
         prog_bind (on_worker (run_job (worker E A) a)) (\<lambda>report.
           let j = finished_job p report (mo_now (ms 4)) j in
         prog_bind (on_store (put_job (eg_store E) (mo_new_id (ms 4)) (mo_now (ms 4)) j)) (\<lambda>_.
           notify_backup E N (ms 5) j)))))"

definition run_backup :: "('db, 'x) engine \<Rightarrow> sender \<Rightarrow> 'x agent \<Rightarrow> (nat \<Rightarrow> moment) \<Rightarrow> node_job \<Rightarrow> ('db, 'x, unit) eprog" where
  "run_backup E N A ms j =
     prog_bind (quietly (ensure_provisioned E (ms 0))) (\<lambda>_.
     prog_bind (attempt (on_store (get_policy (eg_store E) (jb_policy_id j)))) (\<lambda>r.
     case r of
       Inl e \<Rightarrow> fail_job E (ms 1) j (''policy: '' @ eg_error E e)
     | Inr p \<Rightarrow>
         if jb_account j = system_account
         then perform_backup E N A ms j p (no_account\<lparr>ac_user := system_account\<rparr>)
         else (case ho_account (ag_host A) (jb_account j) of
             Inl e \<Rightarrow> fail_job E (ms 1) j (''account: '' @ eg_error E e)
           | Inr account \<Rightarrow>
               prog_bind (quietly (note_identity E (ag_host A) (ms 2) (jb_account j))) (\<lambda>_.
                 perform_backup E N A ms j p account))))"

section \<open>Provisioning\<close>

lemma init_step:
  "run_checked S cfg repo (init_args uri) extra False False False w = (r, w') \<Longrightarrow>
     \<exists>uris. w_log w' = w_log w @ map init_args uris \<and> (\<not> isl r \<longrightarrow> length uris = 1)"
  using run_checked_log [of S cfg repo "init_args uri" extra False False False w r w']
    run_checked_ok [of S cfg repo "init_args uri" extra False False False w _ w']
  by (cases r) (auto intro: exI [of _ "[]"] exI [of _ "[uri]"])

lemma init_repository_log:
  assumes "init_repository S cfg repo source w = (r, w')"
  shows "\<exists>uris. w_log w' = w_log w @ map init_args uris \<and> (\<not> isl r \<longrightarrow> length uris = 1)"
proof (cases source)
  case None
  obtain r1 w1 where one: "run_checked S cfg repo (init_args []) no_secondary False False False w = (r1, w1)" by fastforce
  with assms None have "w' = w1" "isl r = isl r1"
    by (auto simp: init_repository_def prog_bind_def prog_return_def split: sum.splits)
  with init_step [OF one] show ?thesis by simp
next
  case (Some src)
  show ?thesis
  proof (cases "chunker_settings src")
    case (Inl e)
    with assms Some show ?thesis by (auto simp: init_repository_def intro!: exI [of _ "[]"])
  next
    case settings: (Inr u)
    obtain uri options env where u: "u = (uri, options, env)" by (cases u)
    obtain r1 w1 where wp: "write_password_file S (rc_runtime_dir cfg) (rp_password src) w = (r1, w1)" by fastforce
    note log1 = write_password_file_log [OF wp]
    show ?thesis
    proof (cases r1)
      case (Inl e)
      with assms Some settings u wp log1 show ?thesis by (auto simp: init_repository_def intro!: exI [of _ "[]"])
    next
      case (Inr v)
      obtain path dir where v: "v = (path, dir)" by (cases v)
      let ?extra = "\<lparr>sec_options = options, sec_env = fold (\<lambda>(k, v). gm_put k v) env [(''RESTIC_FROM_PASSWORD_FILE'', path)]\<rparr>"
      obtain r2 w2 where two: "run_checked S cfg repo (init_args uri) ?extra False False False w1 = (r2, w2)" by fastforce
      with assms Some settings u wp Inr v have "w' = remove_all dir w2" "isl r = isl r2"
        by (auto simp: init_repository_def prog_bind_def prog_return_def defer_remove_def Let_def split: sum.splits prod.splits)
      with init_step [OF two] log1 show ?thesis by (simp add: remove_all_def)
    qed
  qed
qed

lemma init_frame [framed]: "relates log_grows (on_restic (init_repository S cfg repo source))"
  by (auto simp: relates_def log_grows_def on_restic_def split: prod.splits dest!: init_repository_log)

lemma provision_one_frame [framed]:
  "bolt_store (eg_store E) \<Longrightarrow> BRepositories \<in> bs \<Longrightarrow> relates (same_outside E bs) (provision_one E m repo)"
  "relates same_outbox (provision_one E m repo)" "relates log_grows (provision_one E m repo)"
  unfolding provision_one_def
  by (intro outside.steps outside.reading commands framed; assumption)
    (intro outbox.steps outbox.reading grows.steps grows.reading commands framed)+

lemma provision_loop_frame [framed]:
  "bolt_store (eg_store E) \<Longrightarrow> BRepositories \<in> bs \<Longrightarrow> relates (same_outside E bs) (provision_loop E m repos)"
  "relates same_outbox (provision_loop E m repos)" "relates log_grows (provision_loop E m repos)"
proof (induction repos)
  case (Cons r rs)
  {
    case 1
    with Cons(1) show ?case by (auto intro!: outside.bind outside.basic framed)
  next
    case 2
    with Cons(2) show ?case by (auto intro!: outbox.bind outbox.basic framed)
  next
    case 3
    with Cons(3) show ?case by (auto intro!: grows.bind grows.basic framed)
  }
qed (simp_all add: outside.basic outbox.basic grows.basic)

lemma repositories_frame: "reads_only (on_store (repositories B) :: ('db, 'x, repository list) eprog)"
  by (rule reads_only_store) simp

lemma ensure_provisioned_frame [framed]:
  "bolt_store (eg_store E) \<Longrightarrow> BRepositories \<in> bs \<Longrightarrow> relates (same_outside E bs) (ensure_provisioned E m)"
  "relates same_outbox (ensure_provisioned E m)" "relates log_grows (ensure_provisioned E m)"
  unfolding ensure_provisioned_def
  by (intro outside.bind outside.reading repositories_frame framed; assumption)
    (intro outbox.bind outbox.reading grows.bind grows.reading repositories_frame framed)+

definition made :: "('db, 'x) engine \<Rightarrow> 'db \<Rightarrow> string \<Rightarrow> bool" where
  "made E db i \<longleftrightarrow> (\<exists>repo. bo_get (eg_store E) BRepositories i db = Some (DRepository repo) \<and> rp_initialised_at repo \<noteq> None)"

lemma made_marked:
  assumes "bolt_store (eg_store E)" "on_store (mark_repository_initialised (eg_store E) now i) s = (Inr u, s')"
  shows "made E (es_db s') k \<longleftrightarrow> k = i \<or> made E (es_db s) k" "es_world s' = es_world s"
proof -
  from assms(2) obtain repo where repo: "bo_get (eg_store E) BRepositories i (es_db s) = Some (DRepository repo)"
    and put: "on_store (s_put (eg_store E) BRepositories i (DRepository (repo\<lparr>rp_initialised_at := Some now\<rparr>))) s = (Inr u, s')"
    by (auto simp: mark_repository_initialised_def on_store_bind prog_bind_eq_Inr on_store_def get_repository_def s_get_def
        split: option.splits prod.splits doc.splits)
  from put have "bo_get (eg_store E) b' k' (es_db s') = (if b' = BRepositories \<and> k' = i
      then Some (DRepository (repo\<lparr>rp_initialised_at := Some now\<rparr>)) else bo_get (eg_store E) b' k' (es_db s))" for b' k'
    by (auto simp: on_store_def bolt_store.put_get [OF assms(1)] split: prod.splits)
  then show "made E (es_db s') k \<longleftrightarrow> k = i \<or> made E (es_db s) k" by (auto simp: made_def)
  show "es_world s' = es_world s" using put by (auto simp: on_store_def split: prod.splits)
qed

lemma source_reads:
  "reads_only (if c then err_wrap msg (prog_bind (open_repository E i b) (\<lambda>source. prog_return (Some source))) else prog_return None)"
  by (intro reads_only_if reads_only_wrap reads_only_bind reads_only_open_repository reads_only_basic)

lemma provision_one_result:
  assumes "bolt_store (eg_store E)" "provision_one E m repo s = (Inr u, s')"
  shows "(\<forall>k. made E (es_db s') k \<longleftrightarrow> k = rp_id repo \<or> made E (es_db s) k) \<and>
    (\<exists>uri. w_log (es_world s') = w_log (es_world s) @ [init_args uri])"
proof -
  from assms(2) obtain handle source s1 where
    inits: "on_restic (init_repository (eg_sys E) (eg_runner E) handle source) s = (Inr (), s1)"
    and marked: "on_store (mark_repository_initialised (eg_store E) (mo_now m) (rp_id repo)) s1 = (Inr u, s')"
    unfolding provision_one_def reads_bind [OF reads_only_open_repository] reads_bind [OF source_reads]
    by (auto simp: prog_bind_eq_Inr attempt_eq prog_fail_def split: sum.splits) (metis prod.collapse)
  from inits have "es_db s1 = es_db s" by (auto simp: on_restic_def split: prod.splits)
  moreover from inits init_repository_log obtain uris where "w_log (es_world s1) = w_log (es_world s) @ map init_args uris" "length uris = 1"
    by (fastforce simp: on_restic_def split: prod.splits)
  then have "\<exists>uri. w_log (es_world s1) = w_log (es_world s) @ [init_args uri]" by (cases uris) auto
  ultimately show ?thesis using made_marked [OF assms(1) marked] by auto
qed

lemma provision_loop_result:
  assumes "bolt_store (eg_store E)"
  shows "provision_loop E m repos s = (Inr n, s') \<Longrightarrow>
    n = length (filter (\<lambda>r. rp_initialised_at r = None) repos) \<and>
    (\<forall>k. made E (es_db s') k \<longleftrightarrow> made E (es_db s) k \<or> (\<exists>r \<in> set repos. rp_initialised_at r = None \<and> rp_id r = k)) \<and>
    (\<exists>uris. length uris = n \<and> w_log (es_world s') = w_log (es_world s) @ map init_args uris)"
proof (induction repos arbitrary: s n)
  case (Cons r rs)
  show ?case
  proof (cases "rp_initialised_at r = None")
    case False
    with Cons show ?thesis by auto
  next
    case True
    with Cons.prems obtain u s1 k where one: "provision_one E m r s = (Inr u, s1)" and rest: "provision_loop E m rs s1 = (Inr k, s')"
      and n: "n = k + 1" by (auto simp: prog_bind_eq_Inr prog_return_def)
    from provision_one_result [OF assms one] obtain uri where log: "w_log (es_world s1) = w_log (es_world s) @ [init_args uri]"
      and made: "\<And>i. made E (es_db s1) i \<longleftrightarrow> i = rp_id r \<or> made E (es_db s) i" by blast
    from Cons.IH [OF rest] obtain uris where uris: "length uris = k" "w_log (es_world s') = w_log (es_world s1) @ map init_args uris"
      and len: "k = length (filter (\<lambda>r. rp_initialised_at r = None) rs)"
      and later: "\<And>i. made E (es_db s') i \<longleftrightarrow> made E (es_db s1) i \<or> (\<exists>r \<in> set rs. rp_initialised_at r = None \<and> rp_id r = i)"
      by blast
    have "length (uri # uris) = n \<and> w_log (es_world s') = w_log (es_world s) @ map init_args (uri # uris)"
      using n uris log by simp
    moreover have "n = length (filter (\<lambda>r. rp_initialised_at r = None) (r # rs))" using True n len by simp
    moreover have "made E (es_db s') i \<longleftrightarrow> made E (es_db s) i \<or> (\<exists>x \<in> set (r # rs). rp_initialised_at x = None \<and> rp_id x = i)" for i
      using later [of i] made [of i] True by auto
    ultimately show ?thesis by blast
  qed
qed (auto simp: prog_return_def)

text \<open>
  Before a backup the destinations are made ready: when provisioning succeeds every repository on
  record exists, restic was asked to create exactly those that did not, once each, and the count it
  reports is theirs.
\<close>

theorem provisioning_makes_repositories:
  assumes "bolt_store (eg_store E)" and "repositories (eg_store E) (es_db s) = (Inr repos, es_db s)"
    and "\<forall>r \<in> set repos. bo_get (eg_store E) BRepositories (rp_id r) (es_db s) = Some (DRepository r)"
    and "ensure_provisioned E m s = (Inr n, s')"
  shows "(\<forall>r \<in> set repos. \<exists>r'. bo_get (eg_store E) BRepositories (rp_id r) (es_db s') = Some (DRepository r') \<and> rp_initialised_at r' \<noteq> None) \<and>
    n = length (filter (\<lambda>r. rp_initialised_at r = None) repos) \<and>
    (\<exists>uris. length uris = n \<and> w_log (es_world s') = w_log (es_world s) @ map init_args uris)"
proof -
  have "provision_loop E m repos s = (Inr n, s')"
    using assms(2,4) by (simp add: ensure_provisioned_def prog_bind_def on_store_def)
  from provision_loop_result [OF assms(1) this] assms(3) show ?thesis
    by (auto simp: made_def)
qed

section \<open>A backup from the queue to the record\<close>

lemma target_for_facts:
  "reads_only (target_for E i)" "target_for E i s = (Inr t, s') \<Longrightarrow> tg_repository_id t = i"
  unfolding target_for_def
  by (intro reads_only_bind reads_only_store commands; simp)
    (auto simp: prog_bind_eq_Inr prog_return_def)

lemma targets_for_facts:
  "reads_only (targets_for E is)" "targets_for E is s = (Inr ts, s') \<Longrightarrow> map tg_repository_id ts = is"
proof (induction "is" arbitrary: s ts)
  case (Cons i "is")
  {
    case 1
    show ?case using Cons(1) by (auto intro!: reads_only_bind target_for_facts commands)
  next
    case 2
    with Cons(2) target_for_facts(2) show ?case by (fastforce simp: prog_bind_eq_Inr prog_return_def)
  }
qed (auto simp: prog_return_def reads_only_def)

lemma assignment_for_facts:
  "reads_only (assignment_for E H j p account)"
  "assignment_for E H j p account s = (Inr a, s') \<Longrightarrow>
     map tg_repository_id (as_targets a) = po_repository_ids p \<and> as_cpanel_user a = jb_account j \<and> po_repository_ids p \<noteq> [] \<and>
     as_skip_homedir a = po_skip_homedir p \<and> as_skip_databases a = po_skip_databases p \<and> as_skip_email a = po_skip_email p"
  unfolding assignment_for_def
  by (intro reads_only_bind reads_only_if targets_for_facts commands)
    (auto simp: prog_bind_eq_Inr prog_return_def prog_fail_def split: if_splits dest: targets_for_facts(2))

text \<open>What a finished job is, given its report.\<close>

lemma finished_job_simps [simp]:
  "jb_id (finished_job p report now j) = jb_id j" "jb_account (finished_job p report now j) = jb_account j"
  "jb_progress (finished_job p report now j) = None" "jb_finished_at (finished_job p report now j) = Some now"
  "jb_complete_account (finished_job p report now j) = jb_complete_account j"
  by (simp_all add: finished_job_def Let_def)

lemma honest_closed: "honest A a p new r \<Longrightarrow> \<not> open_target (result_of (tp_status r) (tp_incomplete r))"
  by (auto simp: honest_def open_target_def result_of_def)

lemma finished_job_terminal:
  assumes "list_all (honest A a q new) (jr_targets report)"
  shows "terminal (jb_status (finished_job p report now j))"
  using assms by (auto simp: finished_job_def Let_def rollup_unfold list_all_iff open_target_def result_of_def dest!: honest_closed)

lemma finished_job_success:
  assumes "list_all (honest A a q new) (jr_targets report)" "jb_status (finished_job p report now j) = StatusSuccess"
  shows "jr_staging_error report = [] \<and> jb_targets (finished_job p report now j) = map target_of_report (jr_targets report) \<and>
    (\<forall>r \<in> set (jr_targets report). tp_status r = TargetSuccess \<and> \<not> tp_incomplete r \<and> tp_snapshot_id r \<noteq> [] \<and>
       stored_whole A a q (tp_snapshot_id r) new)"
proof (cases "jr_staging_error report = []")
  case True
  with assms(2) have "rollup (map (\<lambda>r. result_of (tp_status r) (tp_incomplete r)) (jr_targets report)) = StatusSuccess"
    by (simp add: finished_job_def Let_def)
  then have "\<forall>r \<in> set (jr_targets report). tp_status r \<noteq> TargetFailed"
    by (auto simp: rollup_unfold bad_copy_def result_of_def split: if_splits)
  with assms(1) True show ?thesis by (auto simp: finished_job_def Let_def list_all_iff honest_def)
next
  case False
  with assms(2) show ?thesis
    by (auto simp: finished_job_def Let_def rollup_unfold result_of_def good_copy_def split: if_splits)
qed

text \<open>The job is put, then the listeners are told; the record is what was put.\<close>

lemma put_job_stored:
  assumes "bolt_store (eg_store E)" "jb_id j \<noteq> []" "on_store (put_job (eg_store E) i now j) s = (Inr j', s')"
  shows "bo_get (eg_store E) BJobs (jb_id j) (es_db s') = Some (DJob j)" "j' = j" "s' = s\<lparr>es_db := es_db s'\<rparr>"
  using on_store_put [OF assms(1), of BJobs "jb_id j" "DJob j" j s "Inr j'" s'] assms(2,3) by (auto simp: put_job_def)

lemma notify_backup_frame [framed]:
  "bolt_store (eg_store E) \<Longrightarrow> BChannels \<in> bs \<Longrightarrow> relates (same_outside E bs) (notify_backup E N m j)"
  "relates same_world (notify_backup E N m j)"
  unfolding notify_backup_def
  by (cases "jb_status j"; simp; intro outside.basic framed; assumption)
    (cases "jb_status j"; simp; intro world.basic framed)


text \<open>
  What the record of a job says when it is over: it is terminal, and if it says success then each
  repository of the schedule holds a complete copy, stored by the commands \<open>new\<close> of this run.
\<close>

definition on_record :: "('db, 'x) engine \<Rightarrow> 'x agent \<Rightarrow> policy \<Rightarrow> string \<Rightarrow> string list list \<Rightarrow> node_job \<Rightarrow> bool" where
  "on_record E A p account new j \<longleftrightarrow>
     terminal (jb_status j) \<and> jb_progress j = None \<and> jb_finished_at j \<noteq> None \<and>
     (jb_status j = StatusSuccess \<longrightarrow>
        (\<exists>a q. map jt_repository_id (jb_targets j) = po_repository_ids p \<and> po_repository_ids p \<noteq> [] \<and> as_cpanel_user a = account \<and>
           jb_complete_account j = (account \<noteq> system_account \<and> skip_tags a = []) \<and>
           (\<forall>t \<in> set (jb_targets j). jt_status t = TargetSuccess \<and> \<not> jt_incomplete t \<and> jt_snapshot_id t \<noteq> [] \<and>
              stored_whole (worker E A) a q (jt_snapshot_id t) new)))"

lemma fail_job_facts:
  assumes "bolt_store (eg_store E)" "jb_id j \<noteq> []" "fail_job E m j reason s = (Inr (), s')"
  shows "bo_get (eg_store E) BJobs (jb_id j) (es_db s') = Some (DJob (j\<lparr>jb_status := StatusFailed, jb_progress := None,
       jb_staging_err := reason, jb_finished_at := Some (mo_now m)\<rparr>))"
    "es_outbox s' = es_outbox s" "es_world s' = es_world s"
proof -
  let ?j = "j\<lparr>jb_status := StatusFailed, jb_progress := None, jb_staging_err := reason, jb_finished_at := Some (mo_now m)\<rparr>"
  from assms(3) obtain j2 where put: "on_store (put_job (eg_store E) (mo_new_id m) (mo_now m) ?j) s = (Inr j2, s')"
    by (auto simp: fail_job_def prog_bind_eq_Inr prog_return_def)
  from put_job_stored(1) [OF assms(1) _ put] assms(2)
  show "bo_get (eg_store E) BJobs (jb_id j) (es_db s') = Some (DJob ?j)" by simp
  show "es_outbox s' = es_outbox s" using relatesD [OF store_frame(1) put] by (simp add: same_outbox_def)
  show "es_world s' = es_world s" using relatesD [OF store_frame(2) put] by (simp add: same_world_def)
qed

lemma on_record_failed:
  "on_record E A p account new (j\<lparr>jb_status := StatusFailed, jb_progress := None, jb_staging_err := reason, jb_finished_at := Some now\<rparr>)"
  by (simp add: on_record_def)

text \<open>Everything a run does to its own job record is in the two puts.\<close>

lemma perform_backup_facts:
  assumes "bolt_store (eg_store E)" "jb_id j \<noteq> []" "perform_backup E N A ms j p account s = (Inr (), s')"
  shows "\<exists>j' new. bo_get (eg_store E) BJobs (jb_id j) (es_db s') = Some (DJob j') \<and>
     w_log (es_world s') = w_log (es_world s) @ new \<and> on_record E A p (jb_account j) new j'"
proof -
  obtain r where asg: "assignment_for E (ag_host A) j p account s = (r, s)"
    using assignment_for_facts(1) [of E "ag_host A" j p account] unfolding reads_only_def by (metis prod.collapse)
  show ?thesis
  proof (cases r)
    case (Inl e)
    with assms(3) asg have "fail_job E (ms 1) j (eg_error E e) s = (Inr (), s')"
      by (simp add: perform_backup_def prog_bind_def attempt_def)
    note failed = fail_job_facts [OF assms(1,2) this]
    from failed(1,3) on_record_failed show ?thesis by (metis append_Nil2)
  next
    case (Inr a)
    note facts = assignment_for_facts(2) [OF asg [unfolded Inr]]
    define j1 where "j1 = j\<lparr>jb_complete_account := whole_account p (jb_account j), jb_status := StatusRunning, jb_started_at := Some (mo_now (ms 3))\<rparr>"
    from assms(3) asg Inr obtain jx s1 u s2 report s3 jy s4 where
      put1: "on_store (put_job (eg_store E) (mo_new_id (ms 3)) (mo_now (ms 3)) j1) s = (Inr jx, s1)" and
      told: "notify E N (ms 3) (notice ev_started (jb_account j1)) s1 = (Inr u, s2)" and
      run: "on_worker (run_job (worker E A) a) s2 = (Inr report, s3)" and
      put2: "on_store (put_job (eg_store E) (mo_new_id (ms 4)) (mo_now (ms 4)) (finished_job p report (mo_now (ms 4)) j1)) s3 = (Inr jy, s4)" and
      last: "notify_backup E N (ms 5) (finished_job p report (mo_now (ms 4)) j1) s4 = (Inr (), s')"
      by (auto simp: perform_backup_def prog_bind_eq_Inr attempt_eq Let_def j1_def)
    let ?j = "finished_job p report (mo_now (ms 4)) j1"
    have id: "jb_id j1 = jb_id j" "jb_account j1 = jb_account j" by (simp_all add: j1_def)
    from run_job_facts [of "worker E A" a "es_staging s2" "es_world s2"] run
    obtain d' w' new q where rj: "run_job (worker E A) a (es_staging s2, es_world s2) = (Inr report, (d', w'))" and
      log: "w_log w' = w_log (es_world s2) @ new" and hon: "list_all (honest (worker E A) a q new) (jr_targets report)" and
      ids: "jr_targets report = [] \<or> map tp_repository_id (jr_targets report) = map tg_repository_id (as_targets a)"
      by (fastforce simp: on_worker_def)
    from rj run have s3: "es_world s3 = w'" "es_db s3 = es_db s2" by (auto simp: on_worker_def)
    have "bo_get (eg_store E) BJobs (jb_id ?j) (es_db s') = bo_get (eg_store E) BJobs (jb_id ?j) (es_db s4)"
      using same_outsideD [OF relatesD [OF notify_backup_frame(1) [OF assms(1), of "{BChannels}"] last]] by simp
    with put_job_stored(1) [OF assms(1) _ put2] assms(2) id have stored: "bo_get (eg_store E) BJobs (jb_id j) (es_db s') = Some (DJob ?j)"
      by simp
    have w1: "es_world s1 = es_world s" "es_world s2 = es_world s1" "es_world s4 = es_world s3" "es_world s' = es_world s4"
      using relatesD [OF store_frame(2) put1] relatesD [OF notify_frame(2) told] relatesD [OF store_frame(2) put2]
        relatesD [OF notify_backup_frame(2) last] by (simp_all add: same_world_def)
    with log s3 have logs: "w_log (es_world s') = w_log (es_world s) @ new" by simp
    have whole: "jb_complete_account ?j = (as_cpanel_user a \<noteq> system_account \<and> skip_tags a = [])"
      using facts by (auto simp: j1_def whole_account_def skip_tags_def)
    have good: "map jt_repository_id (jb_targets ?j) = po_repository_ids p \<and>
        (\<forall>t \<in> set (jb_targets ?j). jt_status t = TargetSuccess \<and> \<not> jt_incomplete t \<and> jt_snapshot_id t \<noteq> [] \<and>
           stored_whole (worker E A) a q (jt_snapshot_id t) new)" if "jb_status ?j = StatusSuccess"
    proof -
      note fine = finished_job_success [OF hon that]
      have "jr_targets report \<noteq> []" using that fine by (auto simp: finished_job_def rollup_unfold)
      with ids facts fine show ?thesis by (simp add: target_of_report_def comp_def)
    qed
    have "terminal (jb_status ?j)" using finished_job_terminal [OF hon] .
    then have "on_record E A p (jb_account j) new ?j"
      unfolding on_record_def using whole good facts id by auto
    with stored logs show ?thesis by blast
  qed
qed

text \<open>A store that accepts what is put into it.\<close>

definition store_accepts :: "'db bolt \<Rightarrow> bool" where
  "store_accepts B \<longleftrightarrow> (\<forall>b k d db. k \<noteq> [] \<longrightarrow> fst (s_put B b k d db) = Inr ())"

lemma put_job_accepted:
  "store_accepts (eg_store E) \<Longrightarrow> jb_id j \<noteq> [] \<Longrightarrow> \<exists>j' s'. on_store (put_job (eg_store E) i now j) s = (Inr j', s')"
  by (auto simp: put_job_def on_store_def store_accepts_def Let_def prog_bind_def prog_return_def split: prod.splits sum.splits)
    (metis fst_conv sum.distinct(1))+

lemma fail_job_accepted: "store_accepts (eg_store E) \<Longrightarrow> jb_id j \<noteq> [] \<Longrightarrow> fst (fail_job E m j reason s) = Inr ()"
  using put_job_accepted [of E "j\<lparr>jb_status := StatusFailed, jb_progress := None, jb_staging_err := reason,
    jb_finished_at := Some (mo_now m)\<rparr>" "mo_new_id m" "mo_now m" s]
  by (auto simp: fail_job_def prog_bind_def prog_return_def)

lemma perform_backup_ends:
  assumes "bolt_store (eg_store E)" "store_accepts (eg_store E)" "jb_id j \<noteq> []"
  shows "fst (perform_backup E N A ms j p account s) = Inr ()"
proof -
  obtain r where asg: "assignment_for E (ag_host A) j p account s = (r, s)"
    using assignment_for_facts(1) [of E "ag_host A" j p account] unfolding reads_only_def by (metis prod.collapse)
  show ?thesis
  proof (cases r)
    case (Inl e)
    with asg fail_job_accepted [OF assms(2,3)] show ?thesis
      by (simp add: perform_backup_def prog_bind_def attempt_def)
  next
    case (Inr a)
    define j1 where "j1 = j\<lparr>jb_complete_account := whole_account p (jb_account j), jb_status := StatusRunning, jb_started_at := Some (mo_now (ms 3))\<rparr>"
    have id: "jb_id j1 \<noteq> []" using assms(3) by (simp add: j1_def)
    obtain jx s1 where put1: "on_store (put_job (eg_store E) (mo_new_id (ms 3)) (mo_now (ms 3)) j1) s = (Inr jx, s1)"
      using put_job_accepted [OF assms(2) id] by blast
    obtain s2 where told: "notify E N (ms 3) (notice ev_started (jb_account j1)) s1 = (Inr (), s2)"
      using notify_succeeds [OF assms(1)] by (metis prod.collapse)
    obtain report s3 where run: "on_worker (run_job (worker E A) a) s2 = (Inr report, s3)"
      using run_job_facts [of "worker E A" a "es_staging s2" "es_world s2"] by (fastforce simp: on_worker_def)
    obtain jy s4 where put2: "on_store (put_job (eg_store E) (mo_new_id (ms 4)) (mo_now (ms 4)) (finished_job p report (mo_now (ms 4)) j1)) s3 = (Inr jy, s4)"
      using put_job_accepted [OF assms(2), of "finished_job p report (mo_now (ms 4)) j1"] id by fastforce
    have "fst (notify_backup E N (ms 5) (finished_job p report (mo_now (ms 4)) j1) s4) = Inr ()"
      by (simp add: notify_backup_def notify_succeeds [OF assms(1)] prog_return_def split: job_status.split)
    with asg Inr put1 told run put2 show ?thesis
      by (simp add: perform_backup_def prog_bind_def attempt_def Let_def j1_def)
  qed
qed

text \<open>Whatever fails - a destination, the account, restic, a channel - a run comes to its end.\<close>

lemma run_backup_ends:
  assumes "bolt_store (eg_store E)" "store_accepts (eg_store E)" "jb_id j \<noteq> []"
  shows "fst (run_backup E N A ms j s) = Inr ()"
proof -
  obtain r1 s1 where pr: "ensure_provisioned E (ms 0) s = (r1, s1)" by fastforce
  obtain r s2 where pol: "on_store (get_policy (eg_store E) (jb_policy_id j)) s1 = (r, s2)" by fastforce
  have "fst (prog_bind (quietly (note_identity E (ag_host A) (ms 2) (jb_account j))) (\<lambda>_. perform_backup E N A ms j p account) s2) = Inr ()" for p account
    using perform_backup_ends [OF assms] by (simp add: prog_bind_def quietly_def)
  with pr pol show ?thesis
    by (cases r) (simp_all add: run_backup_def prog_bind_def quietly_def attempt_def fail_job_accepted [OF assms(2,3)]
        perform_backup_ends [OF assms] split: sum.split)
qed

lemma run_backup_accounted:
  assumes "bolt_store (eg_store E)" and "jb_id j \<noteq> []"
    and "bo_get (eg_store E) BPolicies (jb_policy_id j) (es_db s) = Some (DPolicy p)"
    and "run_backup E N A ms j s = (Inr (), s')"
  shows "\<exists>j' before new. bo_get (eg_store E) BJobs (jb_id j) (es_db s') = Some (DJob j') \<and>
     w_log (es_world s') = w_log (es_world s) @ before @ new \<and> on_record E A p (jb_account j) new j'"
proof -
  obtain r1 s1 where pr: "ensure_provisioned E (ms 0) s = (r1, s1)" by fastforce
  have "bo_get (eg_store E) BPolicies (jb_policy_id j) (es_db s1) = Some (DPolicy p)"
    using same_outsideD [OF relatesD [OF ensure_provisioned_frame(1) [OF assms(1), of "{BRepositories}"] pr]] assms(3) by simp
  then have pol: "on_store (get_policy (eg_store E) (jb_policy_id j)) s1 = (Inr p, s1)"
    by (simp add: on_store_def get_policy_def s_get_def)
  obtain before where before: "w_log (es_world s1) = w_log (es_world s) @ before"
    using relatesD [OF ensure_provisioned_frame(3) pr] by (auto simp: log_grows_def)
  have after: ?thesis if "\<exists>j' new. bo_get (eg_store E) BJobs (jb_id j) (es_db s') = Some (DJob j') \<and>
     w_log (es_world s') = w_log (es_world s1) @ new \<and> on_record E A p (jb_account j) new j'"
    using that before by auto
  show ?thesis
  proof (cases "jb_account j = system_account")
    case True
    with assms(4) pr pol have "perform_backup E N A ms j p (no_account\<lparr>ac_user := system_account\<rparr>) s1 = (Inr (), s')"
      by (simp add: run_backup_def prog_bind_def quietly_def attempt_def)
    from perform_backup_facts [OF assms(1,2) this] after show ?thesis by blast
  next
    case named: False
    show ?thesis
    proof (cases "ho_account (ag_host A) (jb_account j)")
      case (Inl e)
      with assms(4) pr pol named have "fail_job E (ms 1) j (''account: '' @ eg_error E e) s1 = (Inr (), s')"
        by (simp add: run_backup_def prog_bind_def quietly_def attempt_def)
      note failed = fail_job_facts [OF assms(1,2) this]
      show ?thesis using after failed(1,3) on_record_failed by (metis append_Nil2)
    next
      case (Inr account)
      obtain r2 s2 where nt: "note_identity E (ag_host A) (ms 2) (jb_account j) s1 = (r2, s2)" by fastforce
      with assms(4) pr pol named Inr have "perform_backup E N A ms j p account s2 = (Inr (), s')"
        by (simp add: run_backup_def prog_bind_def quietly_def attempt_def)
      from perform_backup_facts [OF assms(1,2) this] relatesD [OF note_identity_frame(3) nt] after
      show ?thesis by (auto simp: same_world_def)
    qed
  qed
qed



text \<open>
  C40. A backup that fails before it starts fails in silence: when the schedule of a job is gone, or
  the account cannot be read, the job is recorded as failed with the reason, and no channel is told,
  although a failed backup is one of the events a channel can ask for.
\<close>

theorem early_failure_is_silent:
  assumes "bolt_store (eg_store E)" and "jb_id j \<noteq> []"
    and "bo_get (eg_store E) BPolicies (jb_policy_id j) (es_db s) = None \<or>
      jb_account j \<noteq> system_account \<and> isl (ho_account (ag_host A) (jb_account j))"
    and "run_backup E N A ms j s = (Inr (), s')"
  shows "es_outbox s' = es_outbox s \<and>
    (\<exists>j'. bo_get (eg_store E) BJobs (jb_id j) (es_db s') = Some (DJob j') \<and> jb_status j' = StatusFailed \<and> jb_account j' = jb_account j)"
proof -
  obtain r1 s1 where pr: "ensure_provisioned E (ms 0) s = (r1, s1)" by fastforce
  have quiet: "es_outbox s1 = es_outbox s" using relatesD [OF ensure_provisioned_frame(2) pr] by (simp add: same_outbox_def)
  have same: "bo_get (eg_store E) BPolicies (jb_policy_id j) (es_db s1) = bo_get (eg_store E) BPolicies (jb_policy_id j) (es_db s)"
    using same_outsideD [OF relatesD [OF ensure_provisioned_frame(1) [OF assms(1), of "{BRepositories}"] pr]] by simp
  obtain r where pol: "on_store (get_policy (eg_store E) (jb_policy_id j)) s1 = (r, s1)"
    using reads_only_store [of "get_policy (eg_store E) (jb_policy_id j)"] unfolding reads_only_def
    by (metis prod.collapse snd_reading(8))
  have "\<exists>reason. fail_job E (ms 1) j reason s1 = (Inr (), s')"
  proof (cases r)
    case (Inl e)
    with assms(4) pr pol show ?thesis by (auto simp: run_backup_def prog_bind_def quietly_def attempt_def)
  next
    case (Inr p)
    with pol same assms(3) have "jb_account j \<noteq> system_account" "isl (ho_account (ag_host A) (jb_account j))"
      by (auto simp: on_store_def get_policy_def s_get_def)
    with Inr assms(4) pr pol show ?thesis
      by (cases "ho_account (ag_host A) (jb_account j)") (auto simp: run_backup_def prog_bind_def quietly_def attempt_def)
  qed
  then obtain reason where "fail_job E (ms 1) j reason s1 = (Inr (), s')" by blast
  note failed = fail_job_facts [OF assms(1,2) this]
  from failed(1,2) quiet show ?thesis by auto
qed


lemma mem_bolt_accepts: "store_accepts mem_bolt"
  by (simp add: store_accepts_def s_put_def mem_bolt_def marshal_def db_update_def tx_put_def)

definition queued_bob :: node_job where
  "queued_bob = (queued_job ''p1'' ''bob'')\<lparr>jb_id := ''j1'', jb_queued_at := 900\<rparr>"

lemma sample_run_ends: "jb_id j \<noteq> [] \<Longrightarrow> run_backup sample_engine N A ms j s = (Inr (), snd (run_backup sample_engine N A ms j s))"
  using run_backup_ends [of sample_engine j N A ms s] sample_store mem_bolt_accepts by (metis prod.collapse)



theorem early_failure_is_silent_witness:
  "es_outbox (snd (run_backup sample_engine (\<lambda>_ _ _. None) example_agent (\<lambda>_. sample_moment) (queued_bob\<lparr>jb_policy_id := ''gone''\<rparr>) sample_state)) = []"
proof -
  let ?j = "queued_bob\<lparr>jb_policy_id := ''gone''\<rparr>"
  have gone: "bo_get (eg_store sample_engine) BPolicies (jb_policy_id ?j) (es_db sample_state) = None \<or>
      jb_account ?j \<noteq> system_account \<and> isl (ho_account (ag_host example_agent) (jb_account ?j))"
    by (simp add: sample_store(2) sample_state_def sample_db_def mem_bolt_def)
  have id: "jb_id ?j \<noteq> []" by (simp add: queued_bob_def)
  from early_failure_is_silent [OF sample_store(1) id gone sample_run_ends [OF id]] show ?thesis
    by (simp add: sample_state_def started_def)
qed

theorem provisioning_makes_repositories_witness:
  "fst (ensure_provisioned sample_engine sample_moment sample_state) = Inr 0 \<and>
   w_log (es_world (snd (ensure_provisioned sample_engine sample_moment sample_state))) = []"
proof -
  have list: "repositories (eg_store sample_engine) (es_db sample_state) = (Inr [approved_repository], es_db sample_state)"
    using sample_reads(4) by (metis prod.collapse snd_listing(4))
  then have "ensure_provisioned sample_engine sample_moment sample_state = (Inr 0, sample_state)"
    by (simp add: ensure_provisioned_def prog_bind_def on_store_def approved_repository_def prog_return_def)
  moreover have "\<forall>r \<in> set [approved_repository]. bo_get (eg_store sample_engine) BRepositories (rp_id r) (es_db sample_state) = Some (DRepository r)"
    by (simp add: sample_store(2) sample_state_def sample_db_def mem_bolt_def approved_repository_def)
  ultimately have "\<exists>uris. length uris = 0 \<and> w_log (es_world sample_state) = w_log (es_world sample_state) @ map init_args uris"
    using provisioning_makes_repositories [OF sample_store(1) list] by blast
  with \<open>ensure_provisioned sample_engine sample_moment sample_state = (Inr 0, sample_state)\<close> show ?thesis
    by (simp add: sample_state_def example_world_def)
qed

end
