(* ===== verification/Node_Recovery.thy ===== *)
theory Node_Recovery
  imports Node_Run
begin

text \<open>
  Two ends of a backup's life: \<open>internal/node/recover.go\<close>, which points a fresh server at backups
  that already exist and says which of them to restore, and \<open>internal/node/forget_account.go\<close>, which
  removes the backups of a customer who has left. With them the small operations of \<open>run.go\<close> that
  choose a snapshot or run one restic command: \<open>QueueDrill\<close>, \<open>QueueDownload\<close>, \<open>Forget\<close>, \<open>Check\<close>.
\<close>

section \<open>What a repository holds\<close>

record account_backups =
  ab_account :: string
  ab_snapshots :: nat
  ab_latest :: instant
  ab_latest_id :: string

text \<open>\<open>cn_repository\<close> is None for the zero value that \<open>Summarise\<close> leaves there.\<close>

record contents =
  cn_accounts :: "account_backups list"
  cn_system :: bool
  cn_system_at :: instant
  cn_snapshots :: nat
  cn_repository :: "repository option"

definition seen_again :: "snapshot \<Rightarrow> account_backups \<Rightarrow> account_backups" where
  "seen_again s found =
     (let found = found\<lparr>ab_snapshots := ab_snapshots found + 1\<rparr> in
      if sn_time s > ab_latest found then found\<lparr>ab_latest := sn_time s, ab_latest_id := sn_id s\<rparr> else found)"

text \<open>The Go map from names to their entries, in the order of first appearance.\<close>

fun count_snapshot :: "string \<Rightarrow> snapshot \<Rightarrow> account_backups list \<Rightarrow> account_backups list" where
  "count_snapshot account s [] =
     [seen_again s \<lparr>ab_account = account, ab_snapshots = 0, ab_latest = zero_time, ab_latest_id = []\<rparr>]"
| "count_snapshot account s (found # others) =
     (if ab_account found = account then seen_again s found # others else found # count_snapshot account s others)"

fun contents_loop :: "snapshot list \<Rightarrow> contents \<Rightarrow> contents" where
  "contents_loop [] c = c"
| "contents_loop (s # ss) c =
     (let account = snapshot_account s in
      if account = [] then contents_loop ss c
      else if account = system_account then
        contents_loop ss (c\<lparr>cn_system := True,
          cn_system_at := (if sn_time s > cn_system_at c then sn_time s else cn_system_at c)\<rparr>)
      else contents_loop ss (c\<lparr>cn_accounts := count_snapshot account s (cn_accounts c)\<rparr>))"

definition summarise_contents :: "snapshot list \<Rightarrow> contents" where
  "summarise_contents ss =
     (let c = contents_loop ss \<lparr>cn_accounts = [], cn_system = False, cn_system_at = zero_time,
                cn_snapshots = length ss, cn_repository = None\<rparr>
      in c\<lparr>cn_accounts := go_sort (\<lambda>a b. str_less (ab_account a) (ab_account b)) (cn_accounts c)\<rparr>)"

definition contents_of :: "('db, 'x) engine \<Rightarrow> string \<Rightarrow> ('db, 'x, contents) eprog" where
  "contents_of E i =
     prog_bind (engine_snapshots E i []) (\<lambda>ss.
     prog_bind (on_store (get_repository (eg_store E) i)) (\<lambda>stored.
       prog_return ((summarise_contents ss)\<lparr>cn_repository := Some stored\<rparr>)))"

section \<open>Pointing a fresh server at its backups\<close>

record attach_request =
  at_destination :: destination
  at_secrets :: gomap
  at_repository_path :: string
  at_password :: string

definition every_snapshot :: snapshot_filter where
  "every_snapshot = \<lparr>sf_tags = [], sf_host = [], sf_latest = 0\<rparr>"

definition attach :: "('db, 'x) engine \<Rightarrow> seal_api \<Rightarrow> (nat \<Rightarrow> moment) \<Rightarrow> attach_request \<Rightarrow> ('db, 'x, contents) eprog" where
  "attach E S ms req =
     (if trim_space (at_password req) = [] then
        prog_fail (ErrMsg ''node: the recovery key is required -- without it these backups cannot be read'' [])
      else if trim_space (at_repository_path req) = [] then
        prog_fail (ErrMsg ''node: which folder inside that destination? It is usually the old server's hostname'' [])
      else prog_bind (prog_lift (build \<lparr>dest_spec.ds_type = dtype_of (destination.ds_type (at_destination req)),
             dest_spec.ds_config = destination.ds_config (at_destination req), dest_spec.ds_secrets = at_secrets req\<rparr>)) (\<lambda>built.
      prog_bind (err_wrap ''node: could not read that repository. Check the folder and the recovery key''
        (on_restic (snapshots (eg_sys E) (eg_runner E) (eg_codec E)
           \<lparr>rp_dest = Some (backend_of (eg_net E) built), rp_path = at_repository_path req, rp_password = at_password req\<rparr>
           every_snapshot))) (\<lambda>ss.
      prog_bind (seal_credentials E S (ms 0) (at_secrets req)) (\<lambda>secret_id.
      prog_bind (on_store (put_destination (eg_store E) (mo_new_id (ms 1)) (mo_now (ms 1))
        ((at_destination req)\<lparr>ds_credentials_secret_id := secret_id\<rparr>))) (\<lambda>stored.
      prog_bind (seal_repository_password E S (ms 2) (at_password req)) (\<lambda>password_id.
      prog_bind (on_store (put_repository (eg_store E) (mo_new_id (ms 4)) (mo_now (ms 4))
        \<lparr>rp_id = [], rp_destination_id = ds_id stored, rp_repo_path = at_repository_path req,
         rp_password_secret_id = password_id, rp_chunker_source = [], rp_initialised_at = Some (mo_now (ms 3)),
         rp_recovery_noted_at = Some (mo_now (ms 3)), rp_approved_at = None, rp_approved_keeps = no_keeps,
         rp_retention = no_retention, rp_created_at = zero_time\<rparr>)) (\<lambda>repo.
        prog_return ((summarise_contents ss)\<lparr>cn_repository := Some repo\<rparr>))))))))"

section \<open>Which backup a recovery takes\<close>

definition no_snapshot :: snapshot where
  "no_snapshot = \<lparr>sn_id = [], sn_short_id = [], sn_time = zero_time, sn_paths = [], sn_hostname = [], sn_tags = [],
     sn_read_complete = False, sn_read_failed = False, sn_bytes_processed = 0, sn_files_processed = 0, sn_data_added = 0\<rparr>"

definition newer_of :: "snapshot \<Rightarrow> snapshot \<Rightarrow> snapshot" where
  "newer_of held s = (if sn_id held = [] \<or> sn_time s > sn_time held then s else held)"

fun recovery_loop :: "string \<Rightarrow> instant \<Rightarrow> snapshot \<Rightarrow> snapshot \<Rightarrow> nat \<Rightarrow> snapshot list \<Rightarrow> snapshot \<times> snapshot \<times> nat" where
  "recovery_loop account as_of chosen partial held [] = (chosen, partial, held)"
| "recovery_loop account as_of chosen partial held (s # ss) =
     (if snapshot_account s \<noteq> account then recovery_loop account as_of chosen partial held ss
      else if \<not> is_zero as_of \<and> sn_time s > as_of then recovery_loop account as_of chosen partial (held + 1) ss
      else if \<not> snapshot_complete s then recovery_loop account as_of chosen (newer_of partial s) (held + 1) ss
      else recovery_loop account as_of (newer_of chosen s) partial (held + 1) ss)"

definition newest_for_recovery :: "snapshot list \<Rightarrow> string \<Rightarrow> instant \<Rightarrow> snapshot \<times> snapshot \<times> nat" where
  "newest_for_recovery ss account as_of = recovery_loop account as_of no_snapshot no_snapshot 0 ss"

definition snapshot_name :: "snapshot \<Rightarrow> string" where
  "snapshot_name s = (if sn_short_id s \<noteq> [] then sn_short_id s else sn_id s)"

definition said_list :: "string list \<Rightarrow> string" where
  "said_list names =
     (case names of
        [] \<Rightarrow> ''anything''
      | [n] \<Rightarrow> n
      | _ \<Rightarrow> join_with '', '' (butlast names) @ '' and '' @ List.last names)"

definition snapshot_as_of :: "('db, 'x) engine \<Rightarrow> string \<Rightarrow> string \<Rightarrow> instant \<Rightarrow> ('db, 'x, string) eprog" where
  "snapshot_as_of E i account as_of =
     prog_bind (engine_snapshots E i []) (\<lambda>ss.
       case newest_for_recovery ss account as_of of (chosen, partial, held) \<Rightarrow>
         if sn_id chosen \<noteq> [] then prog_return (sn_id chosen)
         else if sn_id partial \<noteq> [] then
           prog_fail (ErrMsg ''node: every backup was taken without something, so none of them holds the whole account''
             [account, said_list (skipped partial), snapshot_name partial])
         else if held > 0 then
           prog_fail (ErrMsg ''node: no backup from then or earlier -- the oldest here is newer'' [account])
         else prog_fail (ErrMsg ''node: this destination holds no backup of the account'' [account]))"

definition latest_snapshot :: "('db, 'x) engine \<Rightarrow> string \<Rightarrow> string \<Rightarrow> ('db, 'x, string) eprog" where
  "latest_snapshot E i account = snapshot_as_of E i account zero_time"

section \<open>The newest backup anywhere\<close>

fun newest_in :: "string \<Rightarrow> snapshot list \<Rightarrow> snapshot \<times> string \<Rightarrow> snapshot \<times> string" where
  "newest_in i [] found = found"
| "newest_in i (s # ss) found =
     (if sn_time s > sn_time (fst found) then newest_in i ss (s, i) else newest_in i ss found)"

text \<open>A destination that cannot be read is passed over; the last error is kept.\<close>

fun newest_loop :: "('db, 'x) engine \<Rightarrow> string \<Rightarrow> repository list \<Rightarrow> snapshot \<times> string \<Rightarrow> err option \<Rightarrow>
    ('db, 'x, (snapshot \<times> string) \<times> err option) eprog" where
  "newest_loop E account [] found e = prog_return (found, e)"
| "newest_loop E account (repo # repos) found e =
     (if rp_initialised_at repo = None then newest_loop E account repos found e
      else prog_bind (attempt (engine_snapshots E (rp_id repo) account)) (\<lambda>r.
        case r of
          Inl e' \<Rightarrow> newest_loop E account repos found (Some e')
        | Inr ss \<Rightarrow> newest_loop E account repos (newest_in (rp_id repo) ss found) e))"

definition restore_of :: "string \<Rightarrow> string \<Rightarrow> string \<Rightarrow> string \<Rightarrow> node_restore" where
  "restore_of account repository_id snapshot_id kind =
     \<lparr>re_id = [], re_account = account, re_repository_id = repository_id, re_snapshot_id = snapshot_id,
      re_kind = kind, re_include_paths = [], re_target_dir = [], re_item_kind = [], re_item_names = [],
      re_items = [], re_unrestricted = False, re_apply = False, re_status = no_status, re_bytes_restored = 0,
      re_progress = None, re_archive_path = [], re_restored_to = [], re_detail = [], re_partial_source = False,
      re_skipped_parts = [], re_hint = [], re_applied = False, re_error = [], re_account_since = zero_time,
      re_queued_at = zero_time, re_started_at = None, re_finished_at = None\<rparr>"

definition queue_drill :: "('db, 'x) engine \<Rightarrow> moment \<Rightarrow> string \<Rightarrow> ('db, 'x, node_restore) eprog" where
  "queue_drill E m account =
     prog_bind (on_store (repositories (eg_store E))) (\<lambda>repos.
     prog_bind (newest_loop E account repos (no_snapshot, []) None) (\<lambda>(found, _).
       if snd found = [] then prog_fail (ErrMsg ''node: the account has no backup to rehearse'' [account])
       else queue_restore E m (restore_of account (snd found) (sn_id (fst found)) kind_verify)))"

definition queue_download :: "('db, 'x) engine \<Rightarrow> moment \<Rightarrow> string \<Rightarrow> ('db, 'x, node_restore) eprog" where
  "queue_download E m account =
     prog_bind (on_store (repositories (eg_store E))) (\<lambda>repos.
     prog_bind (newest_loop E account repos (no_snapshot, []) None) (\<lambda>(found, last_err).
       if snd found = [] then
         (case last_err of
            Some e \<Rightarrow> prog_fail (ErrWrap ''node: no backup could be found'' e)
          | None \<Rightarrow> prog_fail (ErrMsg ''node: the account has no backup yet'' [account]))
       else queue_restore E m (restore_of account (snd found) (sn_id (fst found)) kind_account)))"

section \<open>One command on one repository\<close>

definition engine_forget :: "('db, 'x) engine \<Rightarrow> string \<Rightarrow> retention \<Rightarrow> bool \<Rightarrow> ('db, 'x, unit) eprog" where
  "engine_forget E i keep and_prune =
     prog_bind (open_repository E i True) (\<lambda>repo.
     prog_bind (incomplete_snapshots E i) (\<lambda>incomplete.
       on_restic (forget (eg_sys E) (eg_runner E) (eg_codec E) repo
         \<lparr>fs_protected = incomplete, fs_keep_last = keep_last keep, fs_keep_daily = keep_daily keep,
          fs_keep_weekly = keep_weekly keep, fs_keep_monthly = keep_monthly keep, fs_keep_yearly = keep_yearly keep,
          fs_tags = [], fs_group_by = ''host,tags'', fs_prune = and_prune, fs_dry_run = False\<rparr>)))"

definition engine_check :: "('db, 'x) engine \<Rightarrow> string \<Rightarrow> int \<Rightarrow> ('db, 'x, unit) eprog" where
  "engine_check E i percent =
     prog_bind (open_repository E i False) (\<lambda>repo.
       on_restic (check (eg_sys E) (eg_runner E) repo \<lparr>cs_read_data_subset_percent = percent\<rparr>))"

section \<open>Forgetting a customer who has left\<close>

definition tagged_account :: "string \<Rightarrow> snapshot_filter" where
  "tagged_account account = \<lparr>sf_tags = [''account:'' @ account], sf_host = [], sf_latest = 0\<rparr>"

fun forget_loop :: "('db, 'x) engine \<Rightarrow> string \<Rightarrow> repository list \<Rightarrow> ('db, 'x, nat) eprog" where
  "forget_loop E account [] = prog_return 0"
| "forget_loop E account (kept # others) =
     prog_bind (open_repository E (rp_id kept) True) (\<lambda>repo.
     prog_bind (on_restic (snapshots (eg_sys E) (eg_runner E) (eg_codec E) repo (tagged_account account))) (\<lambda>ss.
       if length ss = 0 then forget_loop E account others
       else prog_bind (on_restic (forget_snapshots (eg_sys E) (eg_runner E) repo (map sn_id ss))) (\<lambda>_.
            prog_bind (forget_loop E account others) (\<lambda>n. prog_return (length ss + n)))))"

text \<open>The number removed before an error is only used in the log.\<close>

definition forget_account_backups :: "('db, 'x) engine \<Rightarrow> string \<Rightarrow> ('db, 'x, nat) eprog" where
  "forget_account_backups E account =
     (if account = [] then prog_fail (ErrMsg ''node: no account was named'' [])
      else prog_bind (attempt (on_store (get_identity (eg_store E) account))) (\<lambda>r.
        case r of
          Inl _ \<Rightarrow> prog_fail (ErrMsg ''node: not an account this server has records for'' [account])
        | Inr identity \<Rightarrow>
            if ai_retired_at identity = None
            then prog_fail (ErrMsg ''node: still on this server, so its backups are not forgotten'' [account])
            else prog_bind (on_store (repositories (eg_store E))) (\<lambda>repos.
                 prog_bind (forget_loop E account repos) (\<lambda>removed.
                 prog_bind (on_store (forget_account (eg_store E) account)) (\<lambda>_. prog_return removed)))))"

definition deleted_sweep_every :: duration where "deleted_sweep_every = 6 * hour"

text \<open>Whose time is up: gone before the cutoff, and the name not on the server again.\<close>

definition time_is_up :: "instant \<Rightarrow> string list \<Rightarrow> account_identity \<Rightarrow> bool" where
  "time_is_up cutoff here identity \<longleftrightarrow>
     (case ai_retired_at identity of None \<Rightarrow> False | Some at \<Rightarrow> \<not> at > cutoff) \<and> ai_account identity \<notin> set here"

fun deleted_loop :: "('db, 'x) engine \<Rightarrow> instant \<Rightarrow> string list \<Rightarrow> account_identity list \<Rightarrow> ('db, 'x, unit) eprog" where
  "deleted_loop E cutoff here [] = prog_return ()"
| "deleted_loop E cutoff here (identity # others) =
     (if \<not> time_is_up cutoff here identity then deleted_loop E cutoff here others
      else prog_bind (quietly (forget_account_backups E (ai_account identity))) (\<lambda>_. deleted_loop E cutoff here others))"

definition sweep_deleted_accounts :: "('db, 'x) engine \<Rightarrow> host \<Rightarrow> instant \<Rightarrow> ('db, 'x, unit) eprog" where
  "sweep_deleted_accounts E H now =
     prog_bind held_settings (\<lambda>st.
     let life = sint (keep_deleted_accounts_for st) in
     if life \<le> 0 then prog_return ()
     else prog_bind (\<lambda>s. (Inr (es_last_deleted_sweep s), s)) (\<lambda>last_sweep.
     if \<not> is_zero last_sweep \<and> time_sub now last_sweep < deleted_sweep_every then prog_return ()
     else prog_bind (attempt (any_job_running E)) (\<lambda>busy.
     if busy \<noteq> Inr False then prog_return ()
     else prog_bind (\<lambda>s. (Inr (), s\<lparr>es_last_deleted_sweep := now\<rparr>)) (\<lambda>_.
          prog_bind (attempt (on_store (identities (eg_store E)))) (\<lambda>known.
          case known of Inl _ \<Rightarrow> prog_return () | Inr known \<Rightarrow>
            (case ho_accounts H of Inl _ \<Rightarrow> prog_return () | Inr live \<Rightarrow>
               deleted_loop E (now - life) (map ac_user live) known))))))"

section \<open>A recovery takes the newest whole backup\<close>

definition recoverable :: "string \<Rightarrow> instant \<Rightarrow> snapshot \<Rightarrow> bool" where
  "recoverable account as_of s \<longleftrightarrow> snapshot_account s = account \<and> (is_zero as_of \<or> sn_time s \<le> as_of)"

lemma recovery_loop_eq:
  "recovery_loop account as_of chosen partial held ss =
     (foldl newer_of chosen (filter (\<lambda>s. recoverable account as_of s \<and> snapshot_complete s) ss),
      foldl newer_of partial (filter (\<lambda>s. recoverable account as_of s \<and> \<not> snapshot_complete s) ss),
      held + length (filter (\<lambda>s. snapshot_account s = account) ss))"
  by (induction ss arbitrary: chosen partial held) (auto simp: recoverable_def)

text \<open>The newest of a list, once something with an id is held.\<close>

lemma newer_fold:
  assumes "\<And>x. x \<in> set ss \<Longrightarrow> sn_id x \<noteq> []" "sn_id held \<noteq> []"
  shows "foldl newer_of held ss \<in> insert held (set ss) \<and>
    (\<forall>y \<in> insert held (set ss). sn_time y \<le> sn_time (foldl newer_of held ss))"
  using assms
proof (induction ss arbitrary: held)
  case (Cons s ss)
  have "sn_id (newer_of held s) \<noteq> []" using Cons.prems by (simp add: newer_of_def)
  from Cons.IH [OF _ this] Cons.prems have ih:
    "foldl newer_of held (s # ss) \<in> insert (newer_of held s) (set ss)"
    "\<forall>y \<in> insert (newer_of held s) (set ss). sn_time y \<le> sn_time (foldl newer_of held (s # ss))"
    by simp_all
  have "newer_of held s \<in> {held, s}" "sn_time held \<le> sn_time (newer_of held s)" "sn_time s \<le> sn_time (newer_of held s)"
    using Cons.prems(2) by (auto simp: newer_of_def)
  moreover have "sn_time (newer_of held s) \<le> sn_time (foldl newer_of held (s # ss))" using ih(2) by (rule bspec) simp
  ultimately show ?case using ih by fastforce
qed simp

lemma newest_of:
  assumes "\<And>x. x \<in> set ss \<Longrightarrow> sn_id x \<noteq> []"
  shows "ss = [] \<and> foldl newer_of no_snapshot ss = no_snapshot \<or>
    foldl newer_of no_snapshot ss \<in> set ss \<and> (\<forall>y \<in> set ss. sn_time y \<le> sn_time (foldl newer_of no_snapshot ss))"
proof (cases ss)
  case (Cons s rest)
  then have "newer_of no_snapshot s = s" by (simp add: newer_of_def no_snapshot_def)
  with newer_fold [of rest s] assms Cons show ?thesis by auto
qed simp

text \<open>
  C25. The backup a recovery takes is one of the account, whole, not from after the moment asked for,
  and no other such backup in the repository is newer; the recovery is refused exactly when there is
  no such backup.
\<close>

theorem recovery_takes_newest_whole:
  assumes "engine_snapshots E i [] s = (Inr ss, t)" "list_all (\<lambda>x. sn_id x \<noteq> []) ss"
    and "snapshot_as_of E i account as_of s = (r, s')"
  shows "s' = t \<and> (case r of
      Inr taken \<Rightarrow> \<exists>x \<in> set ss. sn_id x = taken \<and> recoverable account as_of x \<and> snapshot_complete x \<and>
        (\<forall>y \<in> set ss. recoverable account as_of y \<and> snapshot_complete y \<longrightarrow> sn_time y \<le> sn_time x)
    | Inl e \<Rightarrow> \<forall>y \<in> set ss. \<not> (recoverable account as_of y \<and> snapshot_complete y))"
proof -
  let ?whole = "filter (\<lambda>s. recoverable account as_of s \<and> snapshot_complete s) ss"
  let ?chosen = "foldl newer_of no_snapshot ?whole"
  have ids: "x \<in> set ss \<Longrightarrow> sn_id x \<noteq> []" for x using assms(2) by (simp add: list_all_iff)
  have run: "s' = t \<and> (if sn_id ?chosen \<noteq> [] then r = Inr (sn_id ?chosen) else \<exists>e. r = Inl e)"
    using assms(1,3) by (auto simp: snapshot_as_of_def newest_for_recovery_def recovery_loop_eq split: if_splits)
  have "?whole = [] \<and> ?chosen = no_snapshot \<or> ?chosen \<in> set ?whole \<and> (\<forall>y \<in> set ?whole. sn_time y \<le> sn_time ?chosen)"
    by (rule newest_of) (use ids in simp)
  then show ?thesis
  proof (elim disjE conjE)
    assume "?whole = []" "?chosen = no_snapshot"
    with run show ?thesis by (auto simp: no_snapshot_def filter_empty_conv)
  next
    assume c: "?chosen \<in> set ?whole" "\<forall>y \<in> set ?whole. sn_time y \<le> sn_time ?chosen"
    then have "sn_id ?chosen \<noteq> []" using ids by simp
    with run c show ?thesis by (auto intro!: bexI [of _ ?chosen])
  qed
qed

text \<open>The listing holds a whole backup, an older whole one and a newer one taken without the databases.\<close>

definition three_backups :: "(mem_db, unit) engine" where
  "three_backups = sample_engine\<lparr>eg_codec := example_codec
     [(example_snapshot ''00aa'' [''account:bob''])\<lparr>sn_time := 40\<rparr>, (example_snapshot ''00bb'' [''account:bob''])\<lparr>sn_time := 60\<rparr>,
      (example_snapshot ''00cc'' [''account:bob'', ''skip:databases''])\<lparr>sn_time := 90\<rparr>]\<rparr>"

theorem recovery_takes_newest_whole_witness:
  "fst (snapshot_as_of three_backups ''r1'' ''bob'' 0 sample_state) = Inr ''00bb''"
proof -
  let ?list = "engine_snapshots three_backups ''r1'' [] sample_state"
  let ?run = "snapshot_as_of three_backups ''r1'' ''bob'' 0 sample_state"
  let ?view = "\<lambda>x. (sn_id x, sn_time x, snapshot_account x, snapshot_complete x)"
  have "map_sum (\<lambda>_. ()) (map ?view) (fst ?list) =
    Inr [(''00aa'', 40, ''bob'', True), (''00bb'', 60, ''bob'', True), (''00cc'', 90, ''bob'', False)]" by code_simp
  then obtain ss where "fst ?list = Inr ss" and
    view: "map ?view ss = [(''00aa'', 40, ''bob'', True), (''00bb'', 60, ''bob'', True), (''00cc'', 90, ''bob'', False)]"
    by (cases "fst ?list") auto
  then have list: "?list = (Inr ss, snd ?list)" by (metis prod.collapse)
  obtain a b c where ss: "ss = [a, b, c]" and
    ids: "sn_id a = ''00aa''" "sn_id b = ''00bb''" "sn_id c = ''00cc''" "sn_time a = 40" "sn_time b = 60"
      "snapshot_account b = ''bob''" "snapshot_complete b" "\<not> snapshot_complete c"
    using view by (auto simp: map_eq_Cons_conv)
  then have "list_all (\<lambda>x. sn_id x \<noteq> []) ss" "recoverable ''bob'' 0 b"
    by (simp_all add: recoverable_def is_zero_def zero_time_def)
  with recovery_takes_newest_whole [OF list _ prod.collapse [symmetric, of ?run]] ss ids show ?thesis
    by (cases "fst ?run") auto
qed

section \<open>What forgetting runs and keeps\<close>

text \<open>A deletion forgets by name exactly what restic listed for the account.\<close>

definition forgets_listed :: "('db, 'x) engine \<Rightarrow> string \<Rightarrow> string list \<Rightarrow> bool" where
  "forgets_listed E account args \<longleftrightarrow> \<not> deletes args \<or>
     (\<exists>repo w ss w'. snapshots (eg_sys E) (eg_runner E) (eg_codec E) repo (tagged_account account) w = (Inr ss, w') \<and>
        ss \<noteq> [] \<and> args = ''forget'' # map sn_id ss)"

definition named_count :: "string list list \<Rightarrow> nat" where
  "named_count calls = sum_list (map (\<lambda>a. length (tl a)) (filter deletes calls))"

lemma named_count_append [simp]: "named_count (xs @ ys) = named_count xs + named_count ys"
  by (simp add: named_count_def)

lemma none_named: "list_all (\<lambda>a. \<not> deletes a) calls \<Longrightarrow> named_count calls = 0"
  by (simp add: named_count_def list_all_iff)

lemma logs_onlyD: "logs_only P m \<Longrightarrow> m w = (r, w') \<Longrightarrow> \<exists>new. w_log w' = w_log w @ new \<and> list_all P new"
  unfolding logs_only_def by blast

lemma snapshots_no_deletion: "logs_only (\<lambda>a. \<not> deletes a) (snapshots S cfg J repo flt)"
proof -
  have "logs_only (\<lambda>a. \<not> deletes a) (raw_snapshots S cfg J repo f)" for f
    unfolding raw_snapshots_def by (intro logs_only_bind) (auto intro: logging)
  then show ?thesis
    unfolding snapshots_def by (intro logs_only_bind) (auto intro: logging)
qed

lemma named_not_dry: "validate_snapshot_id ''--dry-run'' \<noteq> Inr ()"
  by code_simp

lemma forget_snapshots_run:
  assumes "forget_snapshots S cfg repo ids w = (Inr u, w')"
  shows "w_log w' = w_log w @ [''forget'' # ids] \<and> deletes (''forget'' # ids)"
proof -
  from assms obtain args res where args: "named_ids ids [''forget''] = Inr args"
    and run: "run_checked S cfg repo args no_secondary False False False w = (Inr res, w')"
    by (auto simp: forget_snapshots_def prog_bind_eq_Inr split: if_splits)
  from named_ids_eq [OF args] have "args = ''forget'' # ids" "''--dry-run'' \<notin> set ids" using named_not_dry by auto
  with run_checked_ok [OF run] show ?thesis by (simp add: deletes_def)
qed

lemma forget_loop_facts:
  assumes "forget_loop E account repos s = (r, s')"
  shows "es_db s' = es_db s \<and> (\<exists>new. w_log (es_world s') = w_log (es_world s) @ new \<and> list_all (forgets_listed E account) new \<and>
    (\<forall>n. r = Inr n \<longrightarrow> named_count new = n))"
  using assms
proof (induction repos arbitrary: s r s')
  case Nil
  then show ?case by (auto simp: named_count_def)
next
  case (Cons kept others)
  obtain ro where opened: "open_repository E (rp_id kept) True s = (ro, s)"
    using reads_only_open_repository [of E "rp_id kept" True] by (metis prod.collapse reads_only_def)
  show ?case
  proof (cases ro)
    case (Inl e)
    with Cons.prems opened show ?thesis by (auto intro!: exI [of _ "[]"])
  next
    case (Inr repo)
    obtain rl w1 where list: "snapshots (eg_sys E) (eg_runner E) (eg_codec E) repo (tagged_account account) (es_world s) = (rl, w1)"
      by fastforce
    then obtain new1 where new1: "w_log w1 = w_log (es_world s) @ new1" "list_all (\<lambda>a. \<not> deletes a) new1"
      using logs_onlyD [OF snapshots_no_deletion] by blast
    then have n1: "list_all (forgets_listed E account) new1" by (simp add: list_all_iff forgets_listed_def)
    let ?s1 = "s\<lparr>es_world := w1\<rparr>"
    show ?thesis
    proof (cases rl)
      case (Inl e)
      with Cons.prems opened Inr list new1 n1 show ?thesis by (auto simp: on_restic_def)
    next
      case rl: (Inr ss)
      show ?thesis
      proof (cases "ss = []")
        case True
        with Cons.prems opened Inr list rl have "forget_loop E account others ?s1 = (r, s')" by (auto simp: on_restic_def)
        from Cons.IH [OF this] obtain new2 where "es_db s' = es_db s" "w_log (es_world s') = w_log w1 @ new2"
          "list_all (forgets_listed E account) new2" "\<forall>n. r = Inr n \<longrightarrow> named_count new2 = n" by auto
        with new1 n1 none_named [OF new1(2)] show ?thesis by (intro conjI exI [of _ "new1 @ new2"]) auto
      next
        case False
        obtain rf w2 where del: "forget_snapshots (eg_sys E) (eg_runner E) repo (map sn_id ss) w1 = (rf, w2)" by fastforce
        have "logs_only (forgets_listed E account) (forget_snapshots (eg_sys E) (eg_runner E) repo (map sn_id ss))"
          using list rl False by (intro logs_only_forget_snapshots) (auto simp: forgets_listed_def)
        then obtain new2 where new2: "w_log w2 = w_log w1 @ new2" "list_all (forgets_listed E account) new2"
          using del by (blast dest: logs_onlyD)
        let ?s2 = "s\<lparr>es_world := w2\<rparr>"
        show ?thesis
        proof (cases rf)
          case (Inl e)
          with Cons.prems opened Inr list rl False del have "r = Inl e" "s' = ?s2" by (auto simp: on_restic_def)
          with new1 n1 new2 show ?thesis by (intro conjI exI [of _ "new1 @ new2"]) auto
        next
          case rf: (Inr u)
          obtain r3 where rest: "forget_loop E account others ?s2 = (r3, s')" "r = map_sum (\<lambda>e. e) (\<lambda>n. length ss + n) r3"
            using Cons.prems opened Inr list rl False del rf
            by (cases "forget_loop E account others ?s2"; cases "fst (forget_loop E account others ?s2)")
              (auto simp: on_restic_def)
          from Cons.IH [OF rest(1)] obtain new3 where new3: "es_db s' = es_db s" "w_log (es_world s') = w_log w2 @ new3"
            "list_all (forgets_listed E account) new3" "\<forall>n. r3 = Inr n \<longrightarrow> named_count new3 = n" by auto
          from forget_snapshots_run [OF del [unfolded rf]] new2(1)
          have "new2 = [''forget'' # map sn_id ss]" "deletes (''forget'' # map sn_id ss)" by auto
          then have "named_count new2 = length ss" by (simp add: named_count_def)
          with new1 n1 new2 new3 none_named [OF new1(2)] rest(2) show ?thesis
            by (intro conjI exI [of _ "new1 @ new2 @ new3"]) (cases r3; auto)+
        qed
      qed
    qed
  qed
qed

lemma forget_account_on_store:
  assumes "bolt_store (eg_store E)" "on_store (forget_account (eg_store E) account) s = (r, s')"
  shows "es_world s' = es_world s \<and> (case r of Inl e \<Rightarrow> es_db s' = es_db s
    | Inr _ \<Rightarrow> \<forall>b k. bo_get (eg_store E) b k (es_db s') = (case bo_get (eg_store E) b k (es_db s) of
        Some d \<Rightarrow> if about_account account b k d then None else Some d | None \<Rightarrow> None))"
  using assms(2) bolt_store.forget_account_get [OF assms(1)] bolt_store.forget_account_Inl [OF assms(1)]
  by (auto simp: on_store_def split: prod.splits sum.splits)

text \<open>What one forgetting does, whatever fails.\<close>

lemma forget_account_backups_facts:
  assumes "bolt_store (eg_store E)" "forget_account_backups E account s = (r, s')"
  shows "\<exists>new. w_log (es_world s') = w_log (es_world s) @ new \<and> list_all (forgets_listed E account) new \<and>
    (new \<noteq> [] \<or> \<not> isl r \<longrightarrow> (\<exists>a at. stored (eg_store E) BIdentities as_identity a (es_db s) \<and>
       get_identity (eg_store E) account (es_db s) = (Inr a, es_db s) \<and> ai_retired_at a = Some at)) \<and>
    (case r of Inl e \<Rightarrow> es_db s' = es_db s
     | Inr n \<Rightarrow> named_count new = n \<and> (\<forall>b k. bo_get (eg_store E) b k (es_db s') = (case bo_get (eg_store E) b k (es_db s) of
         Some d \<Rightarrow> if about_account account b k d then None else Some d | None \<Rightarrow> None)))"
proof -
  obtain ri where look: "get_identity (eg_store E) account (es_db s) = (ri, es_db s)"
    by (metis snd_reading(4) prod.collapse)
  obtain rr where repos: "repositories (eg_store E) (es_db s) = (rr, es_db s)"
    by (metis snd_listing(4) prod.collapse)
  show ?thesis
  proof (cases "account \<noteq> [] \<and> (\<exists>a at rs. ri = Inr a \<and> ai_retired_at a = Some at \<and> rr = Inr rs)")
    case False
    then have "(\<exists>e. r = Inl e) \<and> s' = s"
      using assms(2) look repos
      by (cases ri; cases rr) (auto simp: forget_account_backups_def attempt_def on_store_def split: if_splits option.splits)
    then show ?thesis by (intro exI [of _ "[]"]) auto
  next
    case True
    then obtain a at rs where a: "account \<noteq> []" "ri = Inr a" "ai_retired_at a = Some at" "rr = Inr rs" by blast
    obtain rl s1 where loop: "forget_loop E account rs s = (rl, s1)" by fastforce
    from forget_loop_facts [OF loop] obtain new where db: "es_db s1 = es_db s" and
      new: "w_log (es_world s1) = w_log (es_world s) @ new" "list_all (forgets_listed E account) new"
      and count: "\<forall>n. rl = Inr n \<longrightarrow> named_count new = n" by auto
    have known: "stored (eg_store E) BIdentities as_identity a (es_db s)"
      using look a(2) by (auto simp: get_identity_def stored_def)
    show ?thesis
    proof (cases rl)
      case (Inl e)
      with assms(2) look repos a loop have "r = Inl e" "s' = s1"
        by (auto simp: forget_account_backups_def attempt_def on_store_def)
      with new db known look a show ?thesis by (intro exI [of _ new]) auto
    next
      case (Inr n)
      obtain rf where del: "on_store (forget_account (eg_store E) account) s1 = (rf, s')" "r = map_sum (\<lambda>e. e) (\<lambda>_. n) rf"
        using assms(2) look repos a loop Inr
        by (cases "on_store (forget_account (eg_store E) account) s1"; cases "fst (on_store (forget_account (eg_store E) account) s1)")
          (auto simp: forget_account_backups_def attempt_def on_store_def)
      from forget_account_on_store [OF assms(1) del(1)] new db known look a count Inr del(2) show ?thesis
        by (intro exI [of _ new]) (cases rf; auto)
    qed
  qed
qed

section \<open>Only who is gone for long enough\<close>

definition due :: "('db, 'x) engine \<Rightarrow> host \<Rightarrow> instant \<Rightarrow> ('db, 'x) engine_state \<Rightarrow> account_identity \<Rightarrow> bool" where
  "due E H now s a \<longleftrightarrow>
     stored (eg_store E) BIdentities as_identity a (es_db s) \<and>
     (\<exists>at. ai_retired_at a = Some at \<and> at \<le> now - sint (keep_deleted_accounts_for (es_settings s))) \<and>
     0 < sint (keep_deleted_accounts_for (es_settings s)) \<and>
     (\<exists>live. ho_accounts H = Inr live \<and> ai_account a \<notin> ac_user ` set live)"

text \<open>What is lost is about somebody on the list, and every deletion is of somebody on it.\<close>

definition loses_only :: "('db, 'x) engine \<Rightarrow> string set \<Rightarrow> ('db, 'x) engine_state \<Rightarrow> ('db, 'x) engine_state \<Rightarrow> bool" where
  "loses_only E names s s' \<longleftrightarrow>
     (\<forall>b k. bo_get (eg_store E) b k (es_db s') = bo_get (eg_store E) b k (es_db s) \<or>
        bo_get (eg_store E) b k (es_db s') = None \<and>
        (\<exists>d name. bo_get (eg_store E) b k (es_db s) = Some d \<and> name \<in> names \<and> about_account name b k d)) \<and>
     (\<exists>new. w_log (es_world s') = w_log (es_world s) @ new \<and>
        list_all (\<lambda>args. \<exists>name \<in> names. forgets_listed E name args) new)"

lemma loses_only_onward:
  assumes "loses_only E names s t" "loses_only E names t u"
  shows "loses_only E names s u"
proof -
  from assms obtain n1 n2 where "w_log (es_world t) = w_log (es_world s) @ n1" "w_log (es_world u) = w_log (es_world t) @ n2"
    "list_all (\<lambda>args. \<exists>name \<in> names. forgets_listed E name args) n1" "list_all (\<lambda>args. \<exists>name \<in> names. forgets_listed E name args) n2"
    by (auto simp: loses_only_def)
  then have "w_log (es_world u) = w_log (es_world s) @ (n1 @ n2) \<and>
    list_all (\<lambda>args. \<exists>name \<in> names. forgets_listed E name args) (n1 @ n2)" by simp
  moreover have "bo_get (eg_store E) b k (es_db u) = bo_get (eg_store E) b k (es_db s) \<or>
      bo_get (eg_store E) b k (es_db u) = None \<and>
      (\<exists>d name. bo_get (eg_store E) b k (es_db s) = Some d \<and> name \<in> names \<and> about_account name b k d)" for b k
  proof -
    have "bo_get (eg_store E) b k (es_db t) = bo_get (eg_store E) b k (es_db s) \<or>
      bo_get (eg_store E) b k (es_db t) = None \<and>
      (\<exists>d name. bo_get (eg_store E) b k (es_db s) = Some d \<and> name \<in> names \<and> about_account name b k d)"
      using assms(1) unfolding loses_only_def by (elim conjE allE)
    moreover have "bo_get (eg_store E) b k (es_db u) = bo_get (eg_store E) b k (es_db t) \<or>
      bo_get (eg_store E) b k (es_db u) = None \<and>
      (\<exists>d name. bo_get (eg_store E) b k (es_db t) = Some d \<and> name \<in> names \<and> about_account name b k d)"
      using assms(2) unfolding loses_only_def by (elim conjE allE)
    ultimately show ?thesis by (elim disjE conjE exE) auto
  qed
  ultimately show ?thesis unfolding loses_only_def by (intro conjI allI exI [of _ "n1 @ n2"]) simp_all
qed

interpretation losing: frame "loses_only E names"
  by unfold_locales (simp add: loses_only_def, rule loses_only_onward)

lemma loses_only_forget:
  assumes "bolt_store (eg_store E)" "account \<in> names"
  shows "relates (loses_only E names) (forget_account_backups E account)"
  unfolding relates_def
proof
  fix s
  obtain r s' where run: "forget_account_backups E account s = (r, s')" by fastforce
  from forget_account_backups_facts [OF assms(1) run] obtain new where
    new: "w_log (es_world s') = w_log (es_world s) @ new" "list_all (forgets_listed E account) new"
    and db: "case r of Inl e \<Rightarrow> es_db s' = es_db s
     | Inr n \<Rightarrow> \<forall>b k. bo_get (eg_store E) b k (es_db s') = (case bo_get (eg_store E) b k (es_db s) of
         Some d \<Rightarrow> if about_account account b k d then None else Some d | None \<Rightarrow> None)"
    by (cases r) auto
  have "list_all (\<lambda>args. \<exists>name \<in> names. forgets_listed E name args) new"
    using new(2) assms(2) by (auto simp: list_all_iff)
  moreover have "bo_get (eg_store E) b k (es_db s') = bo_get (eg_store E) b k (es_db s) \<or>
      bo_get (eg_store E) b k (es_db s') = None \<and>
      (\<exists>d name. bo_get (eg_store E) b k (es_db s) = Some d \<and> name \<in> names \<and> about_account name b k d)" for b k
    using db assms(2) by (cases r) (auto split: option.splits if_splits)
  ultimately show "loses_only E names s (snd (forget_account_backups E account s))"
    using run new(1) by (auto simp: loses_only_def)
qed

lemma loses_only_loop:
  assumes "bolt_store (eg_store E)" "\<And>a. a \<in> set known \<Longrightarrow> time_is_up cutoff here a \<Longrightarrow> ai_account a \<in> names"
  shows "relates (loses_only E names) (deleted_loop E cutoff here known)"
  using assms(2)
  by (induction known) (auto intro!: losing.basic losing.bind losing.quiet loses_only_forget [OF assms(1)])

lemma quietly_result: "fst (quietly m s) = Inr ()"
  by (simp add: quietly_def)

lemma deleted_loop_result: "fst (deleted_loop E cutoff here known s) = Inr ()"
  by (induction known arbitrary: s) (auto simp: prog_bind_def quietly_def)

lemma sweep_deleted_cases:
  "(\<exists>at. sweep_deleted_accounts E H now s = (Inr (), s\<lparr>es_last_deleted_sweep := at\<rparr>)) \<or>
   (\<exists>known live. 0 < sint (keep_deleted_accounts_for (es_settings s)) \<and> any_job_running E s = (Inr False, s) \<and>
      identities (eg_store E) (es_db s) = (Inr known, es_db s) \<and> ho_accounts H = Inr live \<and>
      sweep_deleted_accounts E H now s =
        deleted_loop E (now - sint (keep_deleted_accounts_for (es_settings s))) (map ac_user live) known
          (s\<lparr>es_last_deleted_sweep := now\<rparr>))"
proof -
  have same: "\<exists>at. s = s\<lparr>es_last_deleted_sweep := at\<rparr>" by (rule exI [of _ "es_last_deleted_sweep s"]) simp
  obtain rb where busy: "any_job_running E s = (rb, s)"
    using reads_only_engine(3) [of E] by (metis prod.collapse reads_only_def)
  obtain rk where known: "identities (eg_store E) (es_db s) = (rk, es_db s)"
    by (metis snd_reading(5) prod.collapse)
  show ?thesis
    using busy known
    by (cases rk; cases "ho_accounts H")
      (auto simp: same sweep_deleted_accounts_def held_settings_def Let_def attempt_def on_store_def prog_bind_def split: if_splits)
qed

lemma loses_only_due:
  assumes "loses_only E {ai_account a |a. due E H now s a} (s\<lparr>es_last_deleted_sweep := now\<rparr>) s'"
  shows "\<forall>b k. bo_get (eg_store E) b k (es_db s') = bo_get (eg_store E) b k (es_db s) \<or>
       bo_get (eg_store E) b k (es_db s') = None \<and>
       (\<exists>d a. bo_get (eg_store E) b k (es_db s) = Some d \<and> due E H now s a \<and> about_account (ai_account a) b k d)"
    and "\<exists>new. w_log (es_world s') = w_log (es_world s) @ new \<and>
       (\<forall>args \<in> set new. deletes args \<longrightarrow> (\<exists>a. due E H now s a \<and> forgets_listed E (ai_account a) args))"
proof -
  from assms have "\<forall>b k. bo_get (eg_store E) b k (es_db s') = bo_get (eg_store E) b k (es_db s) \<or>
       bo_get (eg_store E) b k (es_db s') = None \<and>
       (\<exists>d name. bo_get (eg_store E) b k (es_db s) = Some d \<and> name \<in> {ai_account a |a. due E H now s a} \<and> about_account name b k d)"
    unfolding loses_only_def by simp
  then show "\<forall>b k. bo_get (eg_store E) b k (es_db s') = bo_get (eg_store E) b k (es_db s) \<or>
       bo_get (eg_store E) b k (es_db s') = None \<and>
       (\<exists>d a. bo_get (eg_store E) b k (es_db s) = Some d \<and> due E H now s a \<and> about_account (ai_account a) b k d)"
    by blast
  from assms obtain new where "w_log (es_world s') = w_log (es_world s) @ new"
    "\<forall>args \<in> set new. \<exists>name \<in> {ai_account a |a. due E H now s a}. forgets_listed E name args"
    unfolding loses_only_def by (auto simp: list_all_iff)
  then show "\<exists>new. w_log (es_world s') = w_log (es_world s) @ new \<and>
       (\<forall>args \<in> set new. deletes args \<longrightarrow> (\<exists>a. due E H now s a \<and> forgets_listed E (ai_account a) args))"
    by blast
qed


text \<open>Bob left long ago, and somebody has his name again; Alice left too and is not back.\<close>

definition left_and_back :: "(mem_db, unit) engine_state" where
  "left_and_back = started ((\<lambda>_. [])(BIdentities :=
     [(''alice'', DIdentity ((fresh_identity ''alice'' 1001 0 False)\<lparr>ai_retired_at := Some 5\<rparr>)),
      (''bob'', DIdentity ((fresh_identity ''bob'' 1002 0 False)\<lparr>ai_retired_at := Some 5\<rparr>))])) example_world default_settings"

definition bob_is_back :: host where
  "bob_is_back = \<lparr>ho_lookup = (\<lambda>_. UserFound ''1003''), ho_accounts = Inr [no_account\<lparr>ac_user := ''bob''\<rparr>],
     ho_account = (\<lambda>_. Inl ErrNotFound), ho_native_excludes = (\<lambda>_. [])\<rparr>"


section \<open>Nothing is stored for a repository that cannot be read\<close>

lemma put_repository_stored:
  assumes "bolt_store (eg_store E)" "on_store (put_repository (eg_store E) i now repo) s = (Inr q, s')" "rp_id repo = []"
  shows "bo_get (eg_store E) BRepositories (rp_id q) (es_db s') = Some (DRepository q) \<and>
    q = repo\<lparr>rp_id := i, rp_created_at := now, rp_chunker_source := rp_chunker_source q\<rparr>"
proof -
  define new where "new existing = (let repo = repo\<lparr>rp_id := i, rp_created_at := now\<rparr> in
      if rp_chunker_source repo = [] \<and> length existing > 0 then repo\<lparr>rp_chunker_source := chunker_source existing\<rparr> else repo)"
    for existing
  obtain rr where list: "repositories (eg_store E) (es_db s) = (rr, es_db s)"
    by (metis snd_listing(4) prod.collapse)
  have unfolded: "put_repository (eg_store E) i now repo = prog_bind (repositories (eg_store E))
      (\<lambda>existing. prog_bind (s_put (eg_store E) BRepositories (rp_id (new existing)) (DRepository (new existing))) (\<lambda>_. prog_return (new existing)))"
    using assms(3) by (simp add: put_repository_def new_def Let_def)
  show ?thesis
  proof (cases rr)
    case (Inl e)
    with assms(2) list show ?thesis by (simp add: unfolded on_store_def)
  next
    case (Inr existing)
    have run: "on_store (prog_bind (s_put (eg_store E) BRepositories (rp_id (new existing)) (DRepository (new existing)))
        (\<lambda>_. prog_return (new existing))) s = (Inr q, s')"
      using assms(2) list Inr by (simp add: unfolded on_store_def)
    from on_store_put [OF assms(1) run] show ?thesis by (auto simp: new_def Let_def)
  qed
qed

text \<open>
  Attaching proves the key before it stores anything: unless restic listed the snapshots of that
  folder with that password, attaching fails and the records are as they were. When it succeeds the
  repository is on record as one that exists already, at the folder and the destination just stored,
  which a later backup does not try to create.
\<close>

theorem attach_reads_before_storing:
  assumes "bolt_store (eg_store E)" "attach E S ms req s = (r, s')"
  shows "isl r \<and> es_db s' = es_db s \<or>
    (\<exists>built ss w'. build \<lparr>dest_spec.ds_type = dtype_of (destination.ds_type (at_destination req)),
           dest_spec.ds_config = destination.ds_config (at_destination req), dest_spec.ds_secrets = at_secrets req\<rparr> = Inr built \<and>
       snapshots (eg_sys E) (eg_runner E) (eg_codec E)
         \<lparr>rp_dest = Some (backend_of (eg_net E) built), rp_path = at_repository_path req, rp_password = at_password req\<rparr>
         every_snapshot (es_world s) = (Inr ss, w') \<and>
       (\<forall>c. r = Inr c \<longrightarrow> cn_accounts c = cn_accounts (summarise_contents ss) \<and>
          (\<exists>repo. cn_repository c = Some repo \<and> rp_initialised_at repo = Some (mo_now (ms 3)) \<and>
             rp_repo_path repo = at_repository_path req \<and>
             bo_get (eg_store E) BRepositories (rp_id repo) (es_db s') = Some (DRepository repo))))"
proof -
  define spec where "spec = \<lparr>dest_spec.ds_type = dtype_of (destination.ds_type (at_destination req)),
    dest_spec.ds_config = destination.ds_config (at_destination req), dest_spec.ds_secrets = at_secrets req\<rparr>"
  define handle where "handle = (\<lambda>built. \<lparr>rp_dest = Some (backend_of (eg_net E) built),
    rp_path = at_repository_path req, rp_password = at_password req\<rparr>)"
  note folded = assms(2) [unfolded attach_def, folded spec_def]
  show ?thesis
  proof (cases "trim_space (at_password req) = [] \<or> trim_space (at_repository_path req) = [] \<or> isl (build spec)")
    case True
    then have "isl r \<and> s' = s" using folded by (cases "build spec") (auto split: if_splits)
    then show ?thesis by simp
  next
    case False
    then obtain built where built: "build spec = Inr built" by (cases "build spec") auto
    obtain ro w' where rl: "snapshots (eg_sys E) (eg_runner E) (eg_codec E) (handle built) every_snapshot (es_world s) = (ro, w')"
      by fastforce
    show ?thesis
    proof (cases ro)
      case (Inl e)
      then have "isl r \<and> s' = s\<lparr>es_world := w'\<rparr>"
        using folded False built rl by (auto simp: handle_def err_wrap_def on_restic_def)
      then show ?thesis by simp
    next
      case (Inr ss)
      have "cn_accounts c = cn_accounts (summarise_contents ss) \<and>
          (\<exists>repo. cn_repository c = Some repo \<and> rp_initialised_at repo = Some (mo_now (ms 3)) \<and>
             rp_repo_path repo = at_repository_path req \<and>
             bo_get (eg_store E) BRepositories (rp_id repo) (es_db s') = Some (DRepository repo))" if "r = Inr c" for c
      proof -
        from that folded False built rl Inr obtain repo0 q s1 where
          put: "on_store (put_repository (eg_store E) (mo_new_id (ms 4)) (mo_now (ms 4)) repo0) s1 = (Inr q, s')"
          and repo0: "rp_id repo0 = []" "rp_initialised_at repo0 = Some (mo_now (ms 3))" "rp_repo_path repo0 = at_repository_path req"
          and c: "c = (summarise_contents ss)\<lparr>cn_repository := Some q\<rparr>"
          by (auto simp: handle_def err_wrap_def on_restic_def prog_bind_eq_Inr)
        from put_repository_stored [OF assms(1) put repo0(1)] have
          stored: "bo_get (eg_store E) BRepositories (rp_id q) (es_db s') = Some (DRepository q)"
          and q: "q = repo0\<lparr>rp_id := mo_new_id (ms 4), rp_created_at := mo_now (ms 4), rp_chunker_source := rp_chunker_source q\<rparr>"
          by auto
        have "rp_initialised_at q = rp_initialised_at repo0" "rp_repo_path q = rp_repo_path repo0"
          by (subst q, simp)+
        with stored c repo0 show ?thesis by simp
      qed
      with built rl Inr show ?thesis unfolding spec_def handle_def by blast
    qed
  qed
qed

definition plain_seal :: seal_api where
  "plain_seal = \<lparr>sl_encode = (\<lambda>_. Inr []), sl_seal = Inr, sl_key_id = []\<rparr>"

definition old_server :: attach_request where
  "old_server = \<lparr>at_destination = sample_destination, at_secrets = [], at_repository_path = ''old.example.com'', at_password = ''key''\<rparr>"

definition nothing_there :: "(mem_db, unit) engine" where
  "nothing_there = sample_engine\<lparr>eg_codec := example_codec []\<rparr>"

definition old_handle :: repository_handle where
  "old_handle = \<lparr>rp_dest = Some (backend_of (eg_net nothing_there) (DestLocal \<lparr>l_root = ''/mnt/nas''\<rparr>)), rp_path = ''old.example.com'', rp_password = ''key''\<rparr>"

lemma old_server_builds:
  "build \<lparr>dest_spec.ds_type = dtype_of (destination.ds_type (at_destination old_server)),
     dest_spec.ds_config = destination.ds_config (at_destination old_server), dest_spec.ds_secrets = at_secrets old_server\<rparr>
   = Inr (DestLocal \<lparr>l_root = ''/mnt/nas''\<rparr>)"
  by code_simp

lemma old_server_read: "\<not> isl (fst (snapshots (eg_sys nothing_there) (eg_runner nothing_there) (eg_codec nothing_there)
    old_handle every_snapshot example_world))"
  by code_simp

lemma old_server_named: "trim_space (at_password old_server) \<noteq> []" "trim_space (at_repository_path old_server) \<noteq> []"
  by code_simp+

theorem attach_reads_before_storing_witness:
  "case attach nothing_there plain_seal (\<lambda>_. sample_moment) old_server empty_state of
     (Inl e, s') \<Rightarrow> False
   | (Inr c, s') \<Rightarrow> map_option rp_initialised_at (cn_repository c) = Some (Some 1000)"
proof -
  let ?run = "attach nothing_there plain_seal (\<lambda>_. sample_moment) old_server empty_state"
  obtain ss w' where list: "snapshots (eg_sys nothing_there) (eg_runner nothing_there) (eg_codec nothing_there)
      old_handle every_snapshot example_world = (Inr ss, w')"
    using old_server_read by (metis prod.collapse isl_def sum.exhaust)
  have store: "eg_store nothing_there = mem_bolt" "bolt_store (eg_store nothing_there)" "es_world empty_state = example_world"
    using sample_store by (simp_all add: nothing_there_def empty_state_def)
  have "\<not> isl (fst ?run)"
    using list old_server_named old_server_builds
    by (simp add: attach_def store old_handle_def err_wrap_def on_restic_def seal_credentials_def old_server_def
        seal_repository_password_def plain_seal_def on_store_def put_destination_def put_secret_def put_repository_def
        repositories_def sorted_list_def s_list_def s_put_def mem_bolt_def marshal_def db_update_def tx_put_def
        empty_state_def started_def sample_moment_def sample_destination_def Let_def)
  with attach_reads_before_storing [OF store(2) prod.collapse [symmetric, of ?run]] show ?thesis
    by (cases "fst ?run"; cases ?run) (auto simp: sample_moment_def)
qed

end
