(* ===== verification/Node_Restart.thy ===== *)
theory Node_Restart
  imports Node_Run
begin

text \<open>
  What the engine does when the process starts again, and what it keeps in the work directory
  (\<open>internal/node/node.go\<close>): \<open>RecoverFromRestart\<close>, \<open>SweepWorkdir\<close>, \<open>RetainedOutput\<close>, \<open>DeleteOutput\<close>;
  with them the recovery card an operator writes down and the listings of a snapshot.
\<close>

definition on_staging :: "(nodes, 'a) prog \<Rightarrow> ('db, 'x, 'a) eprog" where
  "on_staging m = on_worker (on_disk m)"

section \<open>Collected output\<close>

fun sweep_outputs :: "'x agent \<Rightarrow> instant \<Rightarrow> staged_output list \<Rightarrow> ('db, 'x, unit) eprog" where
  "sweep_outputs A cutoff [] = prog_return ()"
| "sweep_outputs A cutoff (out # outs) =
     (if ou_at out > cutoff then sweep_outputs A cutoff outs
      else prog_bind (quietly (on_staging (release (ag_os A) (ag_manager A) (Some (ou_dir out))))) (\<lambda>_.
           sweep_outputs A cutoff outs))"

definition sweep_workdir :: "'x agent \<Rightarrow> instant \<Rightarrow> ('db, 'x, unit) eprog" where
  "sweep_workdir A now =
     prog_bind held_settings (\<lambda>st.
     let ttl = sint (keep_output_for st) in
     if ttl \<le> 0 then prog_return ()
     else prog_bind (on_staging (retained_outputs (ag_os A) (ag_manager A))) (sweep_outputs A (now - ttl)))"

fun delete_named_output :: "'x agent \<Rightarrow> string \<Rightarrow> staged_output list \<Rightarrow> ('db, 'x, unit) eprog" where
  "delete_named_output A key [] = prog_fail (ErrMsg ''node: there is no collected output of that name'' [key])"
| "delete_named_output A key (out # outs) =
     (if sd_key (ou_dir out) \<noteq> key then delete_named_output A key outs
      else on_staging (release (ag_os A) (ag_manager A) (Some (ou_dir out))))"

definition delete_output :: "'x agent \<Rightarrow> string \<Rightarrow> ('db, 'x, unit) eprog" where
  "delete_output A key = prog_bind (on_staging (retained_outputs (ag_os A) (ag_manager A))) (delete_named_output A key)"

section \<open>After a restart\<close>

definition interrupted_text :: string where "interrupted_text = ''interrupted by a service restart''"

definition interrupted_job :: "instant \<Rightarrow> node_job \<Rightarrow> node_job" where
  "interrupted_job now j = j\<lparr>jb_status := StatusFailed, jb_staging_err := interrupted_text, jb_finished_at := Some now\<rparr>"

definition interrupted_restore :: "instant \<Rightarrow> node_restore \<Rightarrow> node_restore" where
  "interrupted_restore now r = r\<lparr>re_status := StatusFailed, re_error := interrupted_text, re_finished_at := Some now\<rparr>"

text \<open>Each loop says how many it closed.\<close>

fun close_jobs :: "('db, 'x) engine \<Rightarrow> moment \<Rightarrow> node_job list \<Rightarrow> ('db, 'x, nat) eprog" where
  "close_jobs E m [] = prog_return 0"
| "close_jobs E m (j # js) =
     (if jb_status j \<noteq> StatusRunning then close_jobs E m js
      else prog_bind (on_store (put_job (eg_store E) (mo_new_id m) (mo_now m) (interrupted_job (mo_now m) j))) (\<lambda>_.
           prog_bind (close_jobs E m js) (\<lambda>n. prog_return (n + 1))))"

fun close_restores :: "('db, 'x) engine \<Rightarrow> moment \<Rightarrow> node_restore list \<Rightarrow> ('db, 'x, nat) eprog" where
  "close_restores E m [] = prog_return 0"
| "close_restores E m (r # rs) =
     (if re_status r \<noteq> StatusRunning then close_restores E m rs
      else prog_bind (on_store (put_restore (eg_store E) (mo_new_id m) (mo_now m) (interrupted_restore (mo_now m) r))) (\<lambda>_.
           prog_bind (close_restores E m rs) (\<lambda>n. prog_return (n + 1))))"

fun release_dirs :: "'x agent \<Rightarrow> dir list \<Rightarrow> ('db, 'x, unit) eprog" where
  "release_dirs A [] = prog_return ()"
| "release_dirs A (d # ds) =
     prog_bind (quietly (on_staging (release (ag_os A) (ag_manager A) (Some d)))) (\<lambda>_. release_dirs A ds)"

definition recover_from_restart :: "('db, 'x) engine \<Rightarrow> 'x agent \<Rightarrow> moment \<Rightarrow> ('db, 'x, nat) eprog" where
  "recover_from_restart E A m =
     prog_bind (on_store (jobs (eg_store E) 0)) (\<lambda>js.
     prog_bind (close_jobs E m js) (\<lambda>closed_jobs.
     prog_bind (on_store (restores (eg_store E) 0)) (\<lambda>rs.
     prog_bind (close_restores E m rs) (\<lambda>closed_restores.
     prog_bind (on_staging (active (ag_os A) (ag_manager A))) (\<lambda>dirs.
     prog_bind (release_dirs A dirs) (\<lambda>_.
     prog_bind (quietly (sweep_workdir A (mo_now m))) (\<lambda>_.
       prog_return (closed_jobs + closed_restores))))))))"

section \<open>The recovery card\<close>

text \<open>\<open>OpenRepository\<close> always gives a destination, so the branches without one are never taken.\<close>

definition repository_password :: "('db, 'x) engine \<Rightarrow> string \<Rightarrow> ('db, 'x, string) eprog" where
  "repository_password E i =
     prog_bind (on_store (get_repository (eg_store E) i)) (\<lambda>repo. open_secret E (rp_password_secret_id repo))"

definition note_recovery_key :: "('db, 'x) engine \<Rightarrow> moment \<Rightarrow> string \<Rightarrow> ('db, 'x, unit) eprog" where
  "note_recovery_key E m i =
     prog_bind (on_store (get_repository (eg_store E) i)) (\<lambda>repo.
     prog_bind (on_store (put_repository (eg_store E) (mo_new_id m) (mo_now m) (repo\<lparr>rp_recovery_noted_at := Some (mo_now m)\<rparr>)))
       (\<lambda>_. prog_return ()))"

record recovery_card =
  rc_destination :: string
  rc_repository :: string
  rc_uri :: string
  rc_password :: string
  rc_hostname :: string
  rc_restic_options :: string
  rc_identity_path :: string
  rc_known_hosts_path :: string
  rc_private_key :: string
  rc_host_key :: string
  rc_user :: string
  rc_host :: string

text \<open>Looking up a Go map gives the empty string for a missing key.\<close>

definition config_value :: "gomap \<Rightarrow> string \<Rightarrow> string" where
  "config_value g k = (case map_of g k of None \<Rightarrow> [] | Some v \<Rightarrow> v)"

definition kept_file :: "(string \<Rightarrow> string option) \<Rightarrow> string \<Rightarrow> string" where
  "kept_file read path = (if path = [] then [] else case read path of None \<Rightarrow> [] | Some text \<Rightarrow> trim_space text)"

definition recovery :: "('db, 'x) engine \<Rightarrow> (string \<Rightarrow> string option) \<Rightarrow> string \<Rightarrow> ('db, 'x, recovery_card) eprog" where
  "recovery E read i =
     prog_bind (on_store (get_repository (eg_store E) i)) (\<lambda>repo.
     prog_bind (on_store (get_destination (eg_store E) (rp_destination_id repo))) (\<lambda>dest.
     prog_bind (open_repository E i False) (\<lambda>opened.
     prog_bind (prog_lift (case rp_dest opened of None \<Rightarrow> Inr [] | Some b \<Rightarrow> d_uri b (rp_repo_path repo))) (\<lambda>uri.
     prog_bind (repository_password E i) (\<lambda>password.
     prog_bind held_settings (\<lambda>st.
       let config = destination.ds_config dest;
           options = (case rp_dest opened of None \<Rightarrow> Inl ErrNotFound | Some b \<Rightarrow> d_options b)
       in prog_return
         \<lparr>rc_destination = ds_name dest, rc_repository = rp_repo_path repo, rc_uri = uri, rc_password = password,
          rc_hostname = st_hostname st,
          rc_restic_options = (case options of Inl _ \<Rightarrow> [] | Inr g \<Rightarrow> config_value g ''sftp.args''),
          rc_identity_path = config_value config ''identity_file'',
          rc_known_hosts_path = config_value config ''known_hosts_file'',
          rc_private_key = kept_file read (config_value config ''identity_file''),
          rc_host_key = kept_file read (config_value config ''known_hosts_file''),
          rc_user = config_value config ''user'', rc_host = config_value config ''host''\<rparr>))))))"

section \<open>Looking into a snapshot\<close>

definition browse :: "('db, 'x) engine \<Rightarrow> string \<Rightarrow> string \<Rightarrow> string list \<Rightarrow> ('db, 'x, entry list) eprog" where
  "browse E i snapshot_id subpaths =
     prog_bind (open_repository E i False) (\<lambda>repo.
       on_restic (ls (eg_sys E) (eg_runner E) (eg_codec E) repo snapshot_id subpaths))"

section \<open>Nothing is left running\<close>

abbreviation held :: "('db, 'x) engine \<Rightarrow> ('db, 'x) engine_state \<Rightarrow> bucket \<Rightarrow> string \<Rightarrow> doc option" where
  "held E s b k \<equiv> bo_get (eg_store E) b k (es_db s)"

text \<open>Jobs and restores are stored under their own ids.\<close>

definition work_keyed :: "('db, 'x) engine \<Rightarrow> ('db, 'x) engine_state \<Rightarrow> bool" where
  "work_keyed E s \<longleftrightarrow>
     (\<forall>k j. held E s BJobs k = Some (DJob j) \<longrightarrow> jb_id j = k \<and> k \<noteq> []) \<and>
     (\<forall>k r. held E s BRestores k = Some (DRestore r) \<longrightarrow> re_id r = k \<and> k \<noteq> [])"

fun closed_doc :: "instant \<Rightarrow> doc \<Rightarrow> doc" where
  "closed_doc now (DJob j) = DJob (if jb_status j = StatusRunning then interrupted_job now j else j)"
| "closed_doc now (DRestore r) = DRestore (if re_status r = StatusRunning then interrupted_restore now r else r)"
| "closed_doc now d = d"

text \<open>Every document of the bucket that one of the listed things was read from is closed or as before.\<close>

definition closes :: "('db, 'x) engine \<Rightarrow> bucket \<Rightarrow> instant \<Rightarrow> string set \<Rightarrow> bool \<Rightarrow> ('db, 'x) engine_state \<Rightarrow> ('db, 'x) engine_state \<Rightarrow> bool" where
  "closes E b now ids all s s' \<longleftrightarrow>
     s' = s\<lparr>es_db := es_db s'\<rparr> \<and>
     (\<forall>b' k. held E s' b' k = held E s b' k \<or> b' = b \<and> k \<in> ids \<and> held E s' b' k = map_option (closed_doc now) (held E s b k)) \<and>
     (all \<longrightarrow> (\<forall>k \<in> ids. held E s' b k = map_option (closed_doc now) (held E s b k)))"

lemma closed_doc_twice: "closed_doc now (closed_doc now d) = closed_doc now d"
  by (cases d) (auto simp: interrupted_job_def interrupted_restore_def)

lemma closes_none: "closes E b now ids False s s" "closes E b now {} all s s"
  by (simp_all add: closes_def)

lemma closes_step:
  assumes "closes E b now {i} True s t" "closes E b now ids all t u"
  shows "closes E b now (insert i ids) all s u"
  unfolding closes_def
proof (intro conjI allI impI ballI)
  from assms show "u = s\<lparr>es_db := es_db u\<rparr>" unfolding closes_def by (metis engine_state.surjective engine_state.update_convs(1) engine_state.ext_inject)
next
  fix b' k
  have t: "held E t b' k = held E s b' k \<or> b' = b \<and> k = i \<and> held E t b' k = map_option (closed_doc now) (held E s b k)"
    using assms(1) unfolding closes_def by auto
  have u: "held E u b' k = held E t b' k \<or> b' = b \<and> k \<in> ids \<and> held E u b' k = map_option (closed_doc now) (held E t b k)"
    using assms(2) unfolding closes_def by blast
  show "held E u b' k = held E s b' k \<or>
      b' = b \<and> k \<in> insert i ids \<and> held E u b' k = map_option (closed_doc now) (held E s b k)"
    using t u by (auto simp: option.map_comp comp_def closed_doc_twice)
next
  fix k assume all and k: "k \<in> insert i ids"
  have t: "held E t b k = held E s b k \<or> k = i \<and> held E t b k = map_option (closed_doc now) (held E s b k)"
      "held E t b i = map_option (closed_doc now) (held E s b i)"
    using assms(1) unfolding closes_def by auto
  have u: "held E u b k = held E t b k \<or> held E u b k = map_option (closed_doc now) (held E t b k)"
      "k \<in> ids \<Longrightarrow> held E u b k = map_option (closed_doc now) (held E t b k)"
    using assms(2) \<open>all\<close> unfolding closes_def by auto
  show "held E u b k = map_option (closed_doc now) (held E s b k)"
    using t u k by (auto simp: option.map_comp comp_def closed_doc_twice)
qed

lemma close_jobs_closes:
  assumes "bolt_store (eg_store E)" "close_jobs E m js s = (r, s')"
    and "\<And>j. j \<in> set js \<Longrightarrow> jb_id j \<noteq> [] \<and> held E s BJobs (jb_id j) = Some (DJob j)" "distinct (map jb_id js)"
  shows "closes E BJobs (mo_now m) (jb_id ` set js) (\<not> isl r) s s'"
  using assms(2-)
proof (induction js arbitrary: s r s')
  case Nil
  then show ?case by (auto simp: closes_def)
next
  case (Cons j js)
  have j: "jb_id j \<noteq> []" "held E s BJobs (jb_id j) = Some (DJob j)" using Cons.prems(2) by auto
  have other: "jb_id y \<noteq> jb_id j" if "y \<in> set js" for y using Cons.prems(3) that by (auto simp: image_iff)
  show ?case
  proof (cases "jb_status j = StatusRunning")
    case False
    have "closes E BJobs (mo_now m) {jb_id j} True s s" using j False by (auto simp: closes_def)
    moreover have "closes E BJobs (mo_now m) (jb_id ` set js) (\<not> isl r) s s'"
      by (rule Cons.IH) (use Cons.prems False in auto)
    ultimately show ?thesis using closes_step by fastforce
  next
    case True
    let ?put = "on_store (put_job (eg_store E) (mo_new_id m) (mo_now m) (interrupted_job (mo_now m) j))"
    have id: "jb_id (interrupted_job (mo_now m) j) = jb_id j" by (simp add: interrupted_job_def)
    obtain rp s1 where put: "?put s = (rp, s1)" by fastforce
    have put': "on_store (prog_bind (s_put (eg_store E) BJobs (jb_id j) (DJob (interrupted_job (mo_now m) j)))
        (\<lambda>_. prog_return (interrupted_job (mo_now m) j))) s = (rp, s1)"
      using put j(1) id by (simp add: put_job_def Let_def)
    from on_store_put [OF assms(1) put'] show ?thesis
    proof (elim disjE exE conjE)
      fix e assume "rp = Inl e" "s1 = s"
      with Cons.prems(1) True put have "r = Inl e" "s' = s" by auto
      then show ?thesis by (simp add: closes_none)
    next
      assume rp: "rp = Inr (interrupted_job (mo_now m) j)" and s1: "s1 = s\<lparr>es_db := es_db s1\<rparr>"
        and get: "\<forall>b' k'. held E s1 b' k' = (if b' = BJobs \<and> k' = jb_id j then Some (DJob (interrupted_job (mo_now m) j)) else held E s b' k')"
      have first: "closes E BJobs (mo_now m) {jb_id j} True s s1" using s1 get j(2) True by (auto simp: closes_def)
      obtain r2 where rest: "close_jobs E m js s1 = (r2, s')" "isl r2 = isl r"
        using Cons.prems(1) True put rp by (cases "close_jobs E m js s1"; cases "fst (close_jobs E m js s1)") auto
      have "closes E BJobs (mo_now m) (jb_id ` set js) (\<not> isl r2) s1 s'"
        by (rule Cons.IH [OF rest(1)]) (use Cons.prems get other in auto)
      with closes_step [OF first this] rest(2) show ?thesis by simp
    qed
  qed
qed

lemma close_restores_closes:
  assumes "bolt_store (eg_store E)" "close_restores E m rs s = (r, s')"
    and "\<And>x. x \<in> set rs \<Longrightarrow> re_id x \<noteq> [] \<and> held E s BRestores (re_id x) = Some (DRestore x)" "distinct (map re_id rs)"
  shows "closes E BRestores (mo_now m) (re_id ` set rs) (\<not> isl r) s s'"
  using assms(2-)
proof (induction rs arbitrary: s r s')
  case Nil
  then show ?case by (auto simp: closes_def)
next
  case (Cons x xs)
  have x: "re_id x \<noteq> []" "held E s BRestores (re_id x) = Some (DRestore x)" using Cons.prems(2) by auto
  have other: "re_id y \<noteq> re_id x" if "y \<in> set xs" for y using Cons.prems(3) that by (auto simp: image_iff)
  show ?case
  proof (cases "re_status x = StatusRunning")
    case False
    have "closes E BRestores (mo_now m) {re_id x} True s s" using x False by (auto simp: closes_def)
    moreover have "closes E BRestores (mo_now m) (re_id ` set xs) (\<not> isl r) s s'"
      by (rule Cons.IH) (use Cons.prems False in auto)
    ultimately show ?thesis using closes_step by fastforce
  next
    case True
    let ?new = "interrupted_restore (mo_now m) x"
    obtain rp s1 where put: "on_store (put_restore (eg_store E) (mo_new_id m) (mo_now m) ?new) s = (rp, s1)" by fastforce
    have "re_id ?new = re_id x" "re_status ?new \<noteq> no_status" by (simp_all add: interrupted_restore_def no_status_def)
    then have put': "on_store (prog_bind (s_put (eg_store E) BRestores (re_id x) (DRestore ?new)) (\<lambda>_. prog_return ?new)) s = (rp, s1)"
      using put x(1) by (simp add: put_restore_def Let_def)
    from on_store_put [OF assms(1) put'] show ?thesis
    proof (elim disjE exE conjE)
      fix e assume "rp = Inl e" "s1 = s"
      with Cons.prems(1) True put have "r = Inl e" "s' = s" by auto
      then show ?thesis by (simp add: closes_none)
    next
      assume rp: "rp = Inr ?new" and s1: "s1 = s\<lparr>es_db := es_db s1\<rparr>"
        and get: "\<forall>b' k'. held E s1 b' k' = (if b' = BRestores \<and> k' = re_id x then Some (DRestore ?new) else held E s b' k')"
      have first: "closes E BRestores (mo_now m) {re_id x} True s s1" using s1 get x(2) True by (auto simp: closes_def)
      obtain r2 where rest: "close_restores E m xs s1 = (r2, s')" "isl r2 = isl r"
        using Cons.prems(1) True put rp by (cases "close_restores E m xs s1"; cases "fst (close_restores E m xs s1)") auto
      have "closes E BRestores (mo_now m) (re_id ` set xs) (\<not> isl r2) s1 s'"
        by (rule Cons.IH [OF rest(1)]) (use Cons.prems get other in auto)
      with closes_step [OF first this] rest(2) show ?thesis by simp
    qed
  qed
qed

text \<open>What a listing names is what the bucket holds, each key once.\<close>

lemma listed_keys:
  assumes "bolt_store B" "sorted_list B b sel lt s = (Inr xs, s')"
    and "\<And>k d x. bo_get B b k s = Some d \<Longrightarrow> sel d = Some x \<Longrightarrow> key x = k"
  shows "distinct (map key xs)" "key ` set xs = {k. bo_get B b k s \<noteq> None}"
proof -
  from assms(2) obtain ys where ys: "map (sel \<circ> snd) (bo_entries B b s) = map Some ys" "xs = go_sort lt ys"
    by (auto simp: sorted_list_def prog_bind_eq_Inr)
  have in_store: "bo_get B b (fst e) s = Some (snd e)" if "e \<in> set (bo_entries B b s)" for e
    using that bolt_store.entries_get [OF assms(1)] bolt_store.entries_distinct [OF assms(1)]
    by (metis map_of_eq_Some_iff prod.collapse)
  have keys: "map key ys = map fst (bo_entries B b s)"
  proof (rule nth_equalityI)
    show len: "length (map key ys) = length (map fst (bo_entries B b s))" using ys(1) by (metis length_map)
    fix i assume i: "i < length (map key ys)"
    with len have e: "bo_entries B b s ! i \<in> set (bo_entries B b s)" by simp
    have "sel (snd (bo_entries B b s ! i)) = Some (ys ! i)"
      using ys(1) i len by (metis (no_types, lifting) comp_apply length_map nth_map)
    with assms(3) [OF in_store [OF e]] i len show "map key ys ! i = map fst (bo_entries B b s) ! i" by simp
  qed
  have "mset (map key xs) = mset (map key ys)" by (simp add: ys(2))
  with keys bolt_store.entries_distinct [OF assms(1)] show "distinct (map key xs)" by (metis mset_eq_imp_distinct_iff)
  have "key ` set xs = set (map fst (bo_entries B b s))" by (simp add: ys(2) flip: keys)
  also have "\<dots> = {k. bo_get B b k s \<noteq> None}"
    by (auto simp: map_of_eq_None_iff simp flip: bolt_store.entries_get [OF assms(1)])
  finally show "key ` set xs = {k. bo_get B b k s \<noteq> None}" .
qed

lemma listed_jobs:
  assumes "bolt_store (eg_store E)" "work_keyed E s" "jobs (eg_store E) 0 (es_db s) = (Inr js, db)"
  shows "distinct (map jb_id js)" "jb_id ` set js = {k. held E s BJobs k \<noteq> None}"
    "\<And>j. j \<in> set js \<Longrightarrow> jb_id j \<noteq> [] \<and> held E s BJobs (jb_id j) = Some (DJob j)"
proof -
  from assms(3) have l: "sorted_list (eg_store E) BJobs as_job job_order (es_db s) = (Inr js, db)"
    by (auto simp: jobs_def prog_bind_eq_Inr)
  have key: "jb_id x = k" if "held E s BJobs k = Some d" "as_job d = Some x" for k d x
    using that assms(2) by (cases d) (auto simp: work_keyed_def)
  from listed_keys [OF assms(1) l, of jb_id] key show "distinct (map jb_id js)" "jb_id ` set js = {k. held E s BJobs k \<noteq> None}"
    by blast+
  show "jb_id j \<noteq> [] \<and> held E s BJobs (jb_id j) = Some (DJob j)" if "j \<in> set js" for j
  proof -
    from that bolt_store.sorted_list_Inr(2) [OF assms(1) l] obtain k d where
      k: "held E s BJobs k = Some d" "as_job d = Some j" by (auto simp: stored_def)
    then have "d = DJob j" by (cases d) auto
    with k key [OF k] assms(2) show ?thesis by (auto simp: work_keyed_def)
  qed
qed

lemma listed_restores:
  assumes "bolt_store (eg_store E)" "work_keyed E s" "restores (eg_store E) 0 (es_db s) = (Inr rs, db)"
  shows "distinct (map re_id rs)" "re_id ` set rs = {k. held E s BRestores k \<noteq> None}"
    "\<And>x. x \<in> set rs \<Longrightarrow> re_id x \<noteq> [] \<and> held E s BRestores (re_id x) = Some (DRestore x)"
proof -
  from assms(3) have l: "sorted_list (eg_store E) BRestores as_restore restore_order (es_db s) = (Inr rs, db)"
    by (auto simp: restores_def prog_bind_eq_Inr)
  have key: "re_id x = k" if "held E s BRestores k = Some d" "as_restore d = Some x" for k d x
    using that assms(2) by (cases d) (auto simp: work_keyed_def)
  from listed_keys [OF assms(1) l, of re_id] key show "distinct (map re_id rs)" "re_id ` set rs = {k. held E s BRestores k \<noteq> None}"
    by blast+
  show "re_id x \<noteq> [] \<and> held E s BRestores (re_id x) = Some (DRestore x)" if "x \<in> set rs" for x
  proof -
    from that bolt_store.sorted_list_Inr(2) [OF assms(1) l] obtain k d where
      k: "held E s BRestores k = Some d" "as_restore d = Some x" by (auto simp: stored_def)
    then have "d = DRestore x" by (cases d) auto
    with k key [OF k] assms(2) show ?thesis by (auto simp: work_keyed_def)
  qed
qed

section \<open>What goes from the work directory\<close>

text \<open>Only the work directory changes, and only by losing paths in P.\<close>

definition clears :: "(string \<Rightarrow> bool) \<Rightarrow> ('db, 'x) engine_state \<Rightarrow> ('db, 'x) engine_state \<Rightarrow> bool" where
  "clears P s s' \<longleftrightarrow> s' = s\<lparr>es_staging := es_staging s'\<rparr> \<and> loses P (es_staging s) (es_staging s')"

interpretation clearing: frame "clears P"
proof
  show "clears P s s" for s by (simp add: clears_def)
  show "clears P s u" if "clears P s t" "clears P t u" for s t u
  proof -
    from that(1) have t: "t = s\<lparr>es_staging := es_staging t\<rparr>" by (simp add: clears_def)
    from that(2) have u: "u = t\<lparr>es_staging := es_staging u\<rparr>" by (simp add: clears_def)
    have "u = (s\<lparr>es_staging := es_staging t\<rparr>)\<lparr>es_staging := es_staging u\<rparr>" by (subst u, subst t) simp
    then have "u = s\<lparr>es_staging := es_staging u\<rparr>" by simp
    with that show ?thesis unfolding clears_def by (blast intro: loses_trans)
  qed
qed

lemma on_staging_eq: "on_staging m s = (case m (es_staging s) of (r, d) \<Rightarrow> (r, s\<lparr>es_staging := d\<rparr>))"
  by (cases s) (simp add: on_staging_def on_worker_def on_disk_def split: prod.splits)

lemma clears_release:
  assumes "\<And>q. lies_under (sd_path dir) q \<Longrightarrow> P q"
  shows "relates (clears P) (quietly (on_staging (release fs M (Some dir))))"
  unfolding relates_def quietly_def
proof
  fix s :: "('a, 'b) engine_state"
  obtain r d where run: "release fs M (Some dir) (es_staging s) = (r, d)" by fastforce
  from release_loses [OF run] have "loses P (es_staging s) d" by (rule loses_mono) (rule assms)
  with run show "clears P s (snd (Inr (), snd (on_staging (release fs M (Some dir)) s)))"
    by (simp add: clears_def on_staging_eq)
qed

lemma clears_release_dirs:
  "(\<And>dir q. dir \<in> set dirs \<Longrightarrow> lies_under (sd_path dir) q \<Longrightarrow> P q) \<Longrightarrow> relates (clears P) (release_dirs A dirs)"
  by (induction dirs) (auto intro!: clearing.basic clearing.bind clears_release)

lemma clears_sweep_outputs:
  "(\<And>out q. out \<in> set outs \<Longrightarrow> ou_at out \<le> cutoff \<Longrightarrow> lies_under (sd_path (ou_dir out)) q \<Longrightarrow> P q) \<Longrightarrow>
     relates (clears P) (sweep_outputs A cutoff outs)"
  by (induction outs) (auto simp: not_less intro!: clearing.basic clearing.bind clears_release)

text \<open>Finished output whose time is up, and work in progress, as they lie in the work directory.\<close>

definition expired :: "'x agent \<Rightarrow> settings \<Rightarrow> instant \<Rightarrow> nodes \<Rightarrow> string \<Rightarrow> bool" where
  "expired A st now d q \<longleftrightarrow> 0 < sint (keep_output_for st) \<and>
     (\<exists>outs d' out. retained_outputs (ag_os A) (ag_manager A) d = (Inr outs, d') \<and> out \<in> set outs \<and>
        ou_at out \<le> now - sint (keep_output_for st) \<and> lies_under (sd_path (ou_dir out)) q)"

definition unfinished :: "'x agent \<Rightarrow> nodes \<Rightarrow> string \<Rightarrow> bool" where
  "unfinished A d q \<longleftrightarrow>
     (\<exists>dirs d' dir. active (ag_os A) (ag_manager A) d = (Inr dirs, d') \<and> dir \<in> set dirs \<and> lies_under (sd_path dir) q)"

lemma sweep_workdir_clears:
  "clears (expired A (es_settings s) now (es_staging s)) s (snd (sweep_workdir A now s))"
proof -
  obtain ro d where list: "retained_outputs (ag_os A) (ag_manager A) (es_staging s) = (ro, d)" by fastforce
  from retained_outputs_state [OF this] have d: "d = es_staging s" .
  show ?thesis
  proof (cases "0 < sint (keep_output_for (es_settings s)) \<and> \<not> isl ro")
    case False
    then have "snd (sweep_workdir A now s) = s"
      using list d by (cases ro) (auto simp: sweep_workdir_def held_settings_def Let_def on_staging_eq prog_bind_def)
    then show ?thesis by (simp add: clearing.same)
  next
    case True
    then obtain outs where ro: "ro = Inr outs" by (cases ro) auto
    have "sweep_workdir A now s = sweep_outputs A (now - sint (keep_output_for (es_settings s))) outs s"
      using True list d ro by (simp add: sweep_workdir_def held_settings_def Let_def on_staging_eq)
    moreover have "relates (clears (expired A (es_settings s) now (es_staging s)))
        (sweep_outputs A (now - sint (keep_output_for (es_settings s))) outs :: ('a, 'b, unit) eprog)"
      by (rule clears_sweep_outputs) (use True list ro in \<open>auto simp: expired_def\<close>)
    ultimately show ?thesis by (simp add: relates_def)
  qed
qed

section \<open>A restart as a whole\<close>

lemma closed_doc_fields:
  "closed_doc now d = DJob j' \<Longrightarrow> \<exists>j. d = DJob j \<and> jb_id j' = jb_id j \<and> jb_status j' \<noteq> StatusRunning"
  "closed_doc now d = DRestore r' \<Longrightarrow> \<exists>r. d = DRestore r \<and> re_id r' = re_id r \<and> re_status r' \<noteq> StatusRunning"
  by (cases d; auto simp: interrupted_job_def interrupted_restore_def split: if_splits)+

lemma closes_keyed:
  assumes "work_keyed E s" "closes E b now ids all s s'"
  shows "work_keyed E s'"
proof -
  have same: "held E s' b' k = held E s b' k \<or> held E s' b' k = map_option (closed_doc now) (held E s b' k)" for b' k
    using assms(2) unfolding closes_def by metis
  have "jb_id j = k \<and> k \<noteq> []" if "held E s' BJobs k = Some (DJob j)" for k j
    using same [of BJobs k] that assms(1) closed_doc_fields(1) [of now] by (fastforce simp: work_keyed_def)
  moreover have "re_id x = k \<and> k \<noteq> []" if "held E s' BRestores k = Some (DRestore x)" for k x
    using same [of BRestores k] that assms(1) closed_doc_fields(2) [of now] by (fastforce simp: work_keyed_def)
  ultimately show ?thesis by (simp add: work_keyed_def)
qed

lemma closes_parts:
  assumes "closes E b now ids all s s'"
  shows "es_staging s' = es_staging s" "es_settings s' = es_settings s" "es_world s' = es_world s"
    "b' \<noteq> b \<Longrightarrow> held E s' b' k = held E s b' k"
    "held E s' b k = held E s b k \<or> held E s' b k = map_option (closed_doc now) (held E s b k)"
    "all \<Longrightarrow> ids = {k. held E s b k \<noteq> None} \<Longrightarrow> held E s' b k = map_option (closed_doc now) (held E s b k)"
proof -
  from assms have s': "s' = s\<lparr>es_db := es_db s'\<rparr>" unfolding closes_def by blast
  show "es_staging s' = es_staging s" "es_settings s' = es_settings s" "es_world s' = es_world s"
    by (subst s', simp)+
  show "held E s' b' k = held E s b' k" if "b' \<noteq> b"
    using assms that unfolding closes_def by blast
  show "held E s' b k = held E s b k \<or> held E s' b k = map_option (closed_doc now) (held E s b k)"
    using assms unfolding closes_def by blast
  show "held E s' b k = map_option (closed_doc now) (held E s b k)" if all "ids = {k. held E s b k \<noteq> None}"
  proof (cases "k \<in> ids")
    case True
    with assms that(1) show ?thesis unfolding closes_def by blast
  next
    case False
    with that(2) assms have "held E s b k = None" "held E s' b k = held E s b k" unfolding closes_def by blast+
    then show ?thesis by simp
  qed
qed

lemma clears_parts:
  assumes "clears P s s'"
  shows "es_db s' = es_db s" "es_world s' = es_world s" "es_settings s' = es_settings s" "loses P (es_staging s) (es_staging s')"
proof -
  from assms have s': "s' = s\<lparr>es_staging := es_staging s'\<rparr>" and l: "loses P (es_staging s) (es_staging s')"
    by (simp_all add: clears_def)
  show "es_db s' = es_db s" "es_world s' = es_world s" "es_settings s' = es_settings s" by (subst s', simp)+
  show "loses P (es_staging s) (es_staging s')" by (rule l)
qed

text \<open>What the records say after the two loops, and what is gone from the disk after the rest.\<close>

definition restarted :: "('db, 'x) engine \<Rightarrow> 'x agent \<Rightarrow> instant \<Rightarrow> bool \<Rightarrow> ('db, 'x) engine_state \<Rightarrow> ('db, 'x) engine_state \<Rightarrow> bool" where
  "restarted E A now all s s' \<longleftrightarrow>
     es_world s' = es_world s \<and>
     (\<forall>b k. held E s' b k = held E s b k \<or>
        b \<in> {BJobs, BRestores} \<and> held E s' b k = map_option (closed_doc now) (held E s b k)) \<and>
     (all \<longrightarrow> (\<forall>b \<in> {BJobs, BRestores}. \<forall>k. held E s' b k = map_option (closed_doc now) (held E s b k))) \<and>
     (\<exists>d. loses (unfinished A (es_staging s)) (es_staging s) d \<and>
        loses (expired A (es_settings s) now d) d (es_staging s'))"

lemma restarted_same: "restarted E A now False s s"
  unfolding restarted_def by (auto intro: exI [of _ "es_staging s"])

lemma restarted_weaken: "restarted E A now all s s' \<Longrightarrow> restarted E A now False s s'"
  unfolding restarted_def by blast

lemma restarted_jobs:
  "closes E BJobs now ids False s s' \<Longrightarrow> restarted E A now False s s'"
  unfolding restarted_def using closes_parts(1-5) [of E BJobs now ids False s s']
  by (metis insertCI loses_refl)

lemma restarted_both:
  assumes "closes E BJobs now js all s s1" "js = {k. held E s BJobs k \<noteq> None}" all
    "closes E BRestores now rs all' s1 s2" "all' \<Longrightarrow> rs = {k. held E s1 BRestores k \<noteq> None}"
    "es_db s3 = es_db s2 \<and> es_world s3 = es_world s2" "loses (unfinished A (es_staging s2)) (es_staging s2) d"
    "loses (expired A (es_settings s2) now d) d (es_staging s3)"
  shows "restarted E A now all' s s3"
proof -
  note j = closes_parts [OF assms(1)] and r = closes_parts [OF assms(4)]
  have db: "es_db s3 = es_db s2" "es_world s3 = es_world s2" using assms(6) by simp_all
  have jobs: "held E s3 BJobs k = map_option (closed_doc now) (held E s BJobs k)" for k
    using j(6) [OF assms(3,2)] r(4) [of BJobs k] db by simp
  have restores: "held E s3 BRestores k = held E s BRestores k \<or>
      held E s3 BRestores k = map_option (closed_doc now) (held E s BRestores k)"
    "all' \<Longrightarrow> held E s3 BRestores k = map_option (closed_doc now) (held E s BRestores k)" for k
    using j(4) [of BRestores k] r(5) [of k] r(6) [of k] assms(5) db by simp_all
  have other: "b \<notin> {BJobs, BRestores} \<Longrightarrow> held E s3 b k = held E s b k" for b k
    using j(4) [of b k] r(4) [of b k] db by simp
  have "held E s3 b k = held E s b k \<or>
      b \<in> {BJobs, BRestores} \<and> held E s3 b k = map_option (closed_doc now) (held E s b k)" for b k
    using jobs [of k] restores(1) [of k] other [of b k] by (cases "b = BJobs"; cases "b = BRestores") auto
  moreover have "\<exists>d. loses (unfinished A (es_staging s)) (es_staging s) d \<and>
      loses (expired A (es_settings s) now d) d (es_staging s3)"
    using assms(7,8) j(1,2) r(1,2) by metis
  ultimately show ?thesis
    using jobs restores(2) db j(3) r(3) by (simp add: restarted_def)
qed


text \<open>One backup was running and one was queued when the process died.\<close>

definition was_running :: node_job where
  "was_running = (example_job ''j1'' 4)\<lparr>jb_status := StatusRunning\<rparr>"

definition was_queued :: node_job where
  "was_queued = (example_job ''j2'' 5)\<lparr>jb_status := StatusPending\<rparr>"

definition died :: "(mem_db, unit) engine_state" where
  "died = (started ((\<lambda>_. [])(BJobs := [(''j1'', DJob was_running), (''j2'', DJob was_queued)])) example_world default_settings)
     \<lparr>es_staging := [(mg_root (ag_manager example_agent), FDir 0)]\<rparr>"

lemma died_recovers: "\<not> isl (fst (recover_from_restart sample_engine example_agent sample_moment died))"
  by code_simp


end
