(* ===== verification/Inventory.thy ===== *)
theory Inventory
  imports Tar_Archive Restic_Client
begin

text \<open>
  What a backup holds in the parts of an account that are not files (\<open>internal/inventory\<close>): the names
  inside the metadata archive, the database users with their grants, and the short memory in front of
  both. Reading JSON and streaming out of a repository are parameters. The memory is modelled for one
  reader at a time, which its lock and its pending entries bring about.
\<close>

section \<open>Database users and their grants\<close>

record db_auth =
  au_hash :: string
  au_plugin :: string

record db_grant =
  gt_database :: string
  gt_privileges :: "string list"

type_synonym auth_map = "(string \<times> (string \<times> db_auth) list) list"
type_synonym grant_map = "(string \<times> db_grant list) list"

text \<open>
  The expression the code matches a grant line with: both greedy groups take as much as they can, so
  the places a separator can be are tried from the last one on.
\<close>

definition splits_at :: "string \<Rightarrow> string \<Rightarrow> (string \<times> string) list" where
  "splits_at sep s =
     rev (map (\<lambda>i. (take i s, drop (i + length sep) s)) (filter (\<lambda>i. has_prefix (drop i s) sep) [1..<length s]))"

fun first_some :: "('a \<Rightarrow> 'b option) \<Rightarrow> 'a list \<Rightarrow> 'b option" where
  "first_some f [] = None"
| "first_some f (x # xs) = (case f x of Some y \<Rightarrow> Some y | None \<Rightarrow> first_some f xs)"

text \<open>The end of the line: \<open>'user'@'host'\<close> with no quote inside either.\<close>

definition quote :: char where "quote = CHR 0x27"

definition grantee_of :: "string \<Rightarrow> (string \<times> string) option" where
  "grantee_of s =
     (case cut_at quote s of
        (before, rest, opened) \<Rightarrow>
          if \<not> opened \<or> before \<noteq> [] then None
          else (case cut_at quote rest of
            (user, rest, closed) \<Rightarrow>
              if \<not> closed \<or> user = [] then None
              else (case cut_prefix rest [CHR ''@'', quote] of
                 None \<Rightarrow> None
               | Some rest \<Rightarrow> (case cut_at quote rest of
                   (host, rest, ended) \<Rightarrow> if \<not> ended \<or> host = [] \<or> rest \<noteq> [] then None else Some (user, host)))))"

definition staged_grant :: "string \<Rightarrow> (string \<times> string \<times> string \<times> string) option" where
  "staged_grant line =
     (case cut_prefix line ''GRANT '' of
        None \<Rightarrow> None
      | Some s \<Rightarrow> first_some (\<lambda>(privileges, rest).
          first_some (\<lambda>(database, rest). case grantee_of rest of None \<Rightarrow> None | Some (u, h) \<Rightarrow> Some (privileges, database, u, h))
            (splits_at ''`.* TO '' rest)) (splits_at '' ON `'' s))"

fun unescape_grant_database :: "string \<Rightarrow> string option" where
  "unescape_grant_database [] = Some []"
| "unescape_grant_database (c # cs) =
     (if c = CHR 0x5C then (case cs of [] \<Rightarrow> None | d # ds \<Rightarrow> map_option (Cons d) (unescape_grant_database ds))
      else if c = CHR ''_'' \<or> c = CHR ''%'' then None
      else map_option (Cons c) (unescape_grant_database cs))"

fun add_grant :: "string \<Rightarrow> db_grant \<Rightarrow> grant_map \<Rightarrow> grant_map" where
  "add_grant who g [] = [(who, [g])]"
| "add_grant who g ((w, gs) # m) = (if w = who then (w, gs @ [g]) # m else (w, gs) # add_grant who g m)"

definition privileges_of :: "string \<Rightarrow> string list" where
  "privileges_of s = filter (\<lambda>p. p \<noteq> []) (map trim_space (split_at CHR '','' s))"

definition grant_line :: "string \<Rightarrow> string" where
  "grant_line line = trim_space (trim_suffix (trim_space line) '';'')"

definition parse_grant :: "string \<Rightarrow> (string \<times> db_grant) option res" where
  "parse_grant raw =
     (let line = grant_line raw in
      if line = [] \<or> has_prefix line ''--'' \<or> has_prefix line ''CREATE USER '' then Inr None
      else if \<not> has_prefix line ''GRANT '' then Inl (ErrMsg ''inventory: the database users in this backup hold a line this cannot read'' [])
      else case staged_grant line of
        None \<Rightarrow> Inl (ErrMsg ''inventory: a grant in this backup is not one on a single database'' [])
      | Some (privileges, pattern, u, h) \<Rightarrow>
          (case unescape_grant_database pattern of
             None \<Rightarrow> Inl (ErrMsg ''inventory: a grant in this backup is on a pattern rather than on one database'' [pattern])
           | Some database \<Rightarrow> Inr (Some (u @ ''@'' @ h, \<lparr>gt_database = database, gt_privileges = privileges_of privileges\<rparr>))))"

fun grants_loop :: "string list \<Rightarrow> grant_map \<Rightarrow> grant_map res" where
  "grants_loop [] m = Inr m"
| "grants_loop (line # lines) m =
     (case parse_grant line of
        Inl e \<Rightarrow> Inl e
      | Inr None \<Rightarrow> grants_loop lines m
      | Inr (Some (who, g)) \<Rightarrow> grants_loop lines (add_grant who g m))"

definition parse_grants :: "string \<Rightarrow> grant_map res" where
  "parse_grants raw = grants_loop (split_at nl raw) []"

definition grants_for :: "grant_map \<Rightarrow> string \<Rightarrow> db_grant list" where
  "grants_for m who = (case map_of m who of None \<Rightarrow> [] | Some gs \<Rightarrow> gs)"

section \<open>The account archive\<close>

definition max_headers :: nat where "max_headers = 20000"
definition max_body :: nat where "max_body = 2 ^ 20"

definition whole_member :: "string \<Rightarrow> bool" where
  "whole_member name \<longleftrightarrow> has_prefix name ''cron/'' \<or> name = ''proftpdpasswd''"

definition member_of :: "string \<Rightarrow> string" where
  "member_of name = (case cut_at CHR ''/'' name of (_, rest, found) \<Rightarrow> if found then rest else name)"

text \<open>\<open>room\<close> is how many headers may still be read; the bodies kept are the last ones of their name.\<close>

fun scan_loop :: "nat \<Rightarrow> err option \<Rightarrow> tar_header list \<Rightarrow> string list \<Rightarrow> (string \<times> string) list \<Rightarrow>
    (string list \<times> (string \<times> string) list) res" where
  "scan_loop 0 ending hs members bodies =
     Inl (ErrMsg ''inventory: this backup's account archive holds more parts than can be listed'' [])"
| "scan_loop (Suc room) ending [] members bodies =
     (case ending of None \<Rightarrow> Inr (members, bodies) | Some e \<Rightarrow> Inl (ErrWrap ''inventory: read the account archive'' e))"
| "scan_loop (Suc room) ending (h # hs) members bodies =
     (let name = member_of (th_name h) in
      if name = [] then scan_loop room ending hs members bodies
      else if th_type h = TReg \<and> th_size h > 0 \<and> th_size h \<le> int max_body \<and> whole_member name
      then (case th_broken h of
          Some e \<Rightarrow> Inl (ErrWrap ''inventory: read'' e)
        | None \<Rightarrow> scan_loop room ending hs (members @ [name]) ((name, take max_body (th_body h)) # bodies))
      else scan_loop room ending hs (members @ [name]) bodies)"

definition scan_archive :: "archive \<Rightarrow> (string list \<times> (string \<times> string) list) res" where
  "scan_archive A = scan_loop max_headers (ar_end A) (ar_entries A) [] []"

text \<open>
  A repository as this package reads it: listing a directory of a snapshot, and dumping one file of
  it, as the members of an archive or as bytes, with the error the dump ends in.
\<close>

record reader =
  rd_ls :: "string \<Rightarrow> entry list res"
  rd_archive :: "string \<Rightarrow> archive \<times> err option"
  rd_file :: "string \<Rightarrow> string \<times> err option"
  rd_auth :: "string \<Rightarrow> auth_map res"

fun first_archive :: "string \<Rightarrow> entry list \<Rightarrow> string res" where
  "first_archive dir [] = Inl (ErrMsg ''inventory: the configuration in this backup holds no account archive'' [])"
| "first_archive dir (x # xs) =
     (if en_type x \<noteq> ''dir'' \<and> has_suffix (en_name x) ''.tar'' then Inr (join2 dir (en_name x)) else first_archive dir xs)"

definition archive_path :: "reader \<Rightarrow> parts \<Rightarrow> string res" where
  "archive_path R P =
     (if sp_metadata P = [] then Inl (ErrMsg ''inventory: this backup holds none of the account's configuration'' [])
      else res_bind (rd_ls R (sp_metadata P)) (first_archive (sp_metadata P)))"

definition read_archive :: "reader \<Rightarrow> parts \<Rightarrow> (string list \<times> (string \<times> string) list) res" where
  "read_archive R P =
     res_bind (archive_path R P) (\<lambda>path.
       case rd_archive R path of (stream, dumped) \<Rightarrow>
         res_bind (scan_archive stream) (\<lambda>found. case dumped of Some e \<Rightarrow> Inl e | None \<Rightarrow> Inr found))"

definition read_file :: "reader \<Rightarrow> string \<Rightarrow> string res" where
  "read_file R path = (case rd_file R path of (_, Some e) \<Rightarrow> Inl e | (body, None) \<Rightarrow> Inr (take max_body body))"

record held_contents =
  hc_members :: "string list"
  hc_bodies :: "(string \<times> string) list"
  hc_auth :: auth_map
  hc_grants :: grant_map

text \<open>\<open>ParseAuth\<close>; what cannot be read is left empty.\<close>

definition parse_auth :: "reader \<Rightarrow> string \<Rightarrow> auth_map res" where
  "parse_auth R raw = (case rd_auth R raw of Inl e \<Rightarrow> Inl (ErrWrap ''inventory: read the database users in this backup'' e) | Inr a \<Rightarrow> Inr a)"

definition or_empty :: "'a list res \<Rightarrow> 'a list" where
  "or_empty r = (case r of Inl _ \<Rightarrow> [] | Inr x \<Rightarrow> x)"

definition read_contents :: "reader \<Rightarrow> parts \<Rightarrow> held_contents res" where
  "read_contents R P =
     res_bind (if sp_metadata P \<noteq> [] then read_archive R P else Inr ([], [])) (\<lambda>(members, bodies).
       Inr (if sp_databases P = [] then \<lparr>hc_members = members, hc_bodies = bodies, hc_auth = [], hc_grants = []\<rparr>
            else \<lparr>hc_members = members, hc_bodies = bodies,
              hc_auth = or_empty (res_bind (read_file R (join2 (sp_databases P) users_auth_file)) (parse_auth R)),
              hc_grants = or_empty (res_bind (read_file R (join2 (sp_databases P) runnable_users_file)) parse_grants)\<rparr>))"

section \<open>What the page lists\<close>

record item =
  it_name :: string
  it_label :: string
  it_detail :: string

definition sorted_items :: "item list \<Rightarrow> item list" where
  "sorted_items xs = go_sort (\<lambda>a b. str_less (it_label a) (it_label b)) xs"

definition named_item :: "string \<Rightarrow> item" where
  "named_item name = \<lparr>it_name = name, it_label = name, it_detail = []\<rparr>"

text \<open>The name of one member below a directory of the archive, when it is one the page can offer.\<close>

definition name_under :: "string \<Rightarrow> string \<Rightarrow> string \<Rightarrow> string option" where
  "name_under dir ending member =
     (case cut_prefix member dir of
        None \<Rightarrow> None
      | Some name \<Rightarrow>
          if name = [] \<or> CHR ''/'' \<in> set name then None
          else if ending \<noteq> [] \<and> \<not> has_suffix name ending then None
          else let name = (if ending \<noteq> [] then trim_suffix name ending else name)
            in if usable_domain_name name \<noteq> Inr () then None else Some name)"

definition under_prefix :: "string list \<Rightarrow> string \<Rightarrow> string \<Rightarrow> item list" where
  "under_prefix members dir ending = sorted_items (map named_item (List.map_filter (name_under dir ending) members))"

definition not_a_domain :: "string \<Rightarrow> bool" where
  "not_a_domain name \<longleftrightarrow> has_suffix name ''_SSL'' \<or> has_suffix name ''.php-fpm.yaml'' \<or> has_suffix name ''.cache''
     \<or> name = ''main'' \<or> name = ''cache.json''"

definition domain_under :: "string \<Rightarrow> string option" where
  "domain_under member =
     (case cut_prefix member ''userdata/'' of
        None \<Rightarrow> None
      | Some name \<Rightarrow>
          if name = [] \<or> CHR ''/'' \<in> set name then None
          else if not_a_domain name \<or> usable_domain_name name \<noteq> Inr () then None else Some name)"

definition domain_items :: "string list \<Rightarrow> item list" where
  "domain_items members = sorted_items (map named_item (List.map_filter domain_under members))"

text \<open>The lines that configure a crontab: \<open>NAME =\<close> at the start.\<close>

definition setting_char :: "char \<Rightarrow> bool" where
  "setting_char c \<longleftrightarrow> char_in CHR ''a'' CHR ''z'' c \<or> char_in CHR ''A'' CHR ''Z'' c \<or> char_in CHR ''0'' CHR ''9'' c \<or> c = CHR ''_''"

definition regexp_space :: "char \<Rightarrow> bool" where
  "regexp_space c \<longleftrightarrow> c \<in> {CHR '' '', CHR 0x09, CHR 0x0A, CHR 0x0C, CHR 0x0D}"

definition cron_setting :: "string \<Rightarrow> bool" where
  "cron_setting line \<longleftrightarrow>
     line \<noteq> [] \<and> setting_char (hd line) \<and> \<not> char_in CHR ''0'' CHR ''9'' (hd line) \<and>
     has_prefix (dropWhile regexp_space (dropWhile setting_char line)) ''=''"

definition split_cron :: "string \<Rightarrow> (string \<times> string) option" where
  "split_cron line =
     (let fields = str_fields line in
      if length fields \<ge> 2 \<and> has_prefix (hd fields) ''@'' then Some (hd fields, join_with '' '' (tl fields))
      else if length fields < 6 then None
      else if list_ex (\<lambda>f. contains_any f [CHR ''='', CHR 0x22, CHR 0x27]) (take 5 fields) then None
      else Some (join_with '' '' (take 5 fields), join_with '' '' (drop 5 fields)))"

definition cron_item :: "string \<Rightarrow> item option" where
  "cron_item raw =
     (let line = trim_space raw in
      if line = [] \<or> has_prefix line ''#'' \<or> cron_setting line then None
      else case split_cron line of
        Some (schedule, command) \<Rightarrow> Some \<lparr>it_name = [], it_label = command, it_detail = schedule\<rparr>
      | None \<Rightarrow> Some \<lparr>it_name = [], it_label = line, it_detail = []\<rparr>)"

text \<open>The bodies come in one order of the Go map; a name counts once.\<close>

definition cron_items :: "(string \<times> string) list \<Rightarrow> item list" where
  "cron_items bodies =
     concat (map (\<lambda>(member, body). if has_prefix member ''cron/'' then List.map_filter cron_item (split_at nl body) else [])
       (AList.clearjunk bodies))"

definition ftp_item :: "string \<Rightarrow> item option" where
  "ftp_item raw =
     (let line = trim_space raw; fields = split_at CHR '':'' line in
      if line = [] \<or> length fields < 6 \<or> hd fields = [] then None
      else Some \<lparr>it_name = [], it_label = hd fields, it_detail = fields ! 5\<rparr>)"

definition ftp_items :: "(string \<times> string) list \<Rightarrow> item list" where
  "ftp_items bodies =
     sorted_items (List.map_filter ftp_item (split_at nl (case map_of bodies ''proftpdpasswd'' of None \<Rightarrow> [] | Some b \<Rightarrow> b)))"

definition databases_of :: "grant_map \<Rightarrow> string \<Rightarrow> (string \<times> db_auth) list \<Rightarrow> string list" where
  "databases_of grants user hosts =
     sort_strings (add_new [] (concat (map (\<lambda>(host, _). map gt_database (grants_for grants (user @ ''@'' @ host))) hosts)))"

definition database_user_item :: "grant_map \<Rightarrow> string \<times> (string \<times> db_auth) list \<Rightarrow> item option" where
  "database_user_item grants = (\<lambda>(user, hosts).
     if usable_database_user user \<noteq> Inr () then None
     else let databases = databases_of grants user hosts in
       Some \<lparr>it_name = user, it_label = user,
         it_detail = (if databases = [] then ''no databases'' else ''can open '' @ join_and databases)\<rparr>)"

definition database_user_items :: "auth_map \<Rightarrow> grant_map \<Rightarrow> item list" where
  "database_user_items auth grants = sorted_items (List.map_filter (database_user_item grants) auth)"

definition items_of :: "string \<Rightarrow> held_contents \<Rightarrow> item list res" where
  "items_of kind held =
     (if kind = g_dns then Inr (under_prefix (hc_members held) ''dnszones/'' ''.db'')
      else if kind = g_ssl then Inr (under_prefix (hc_members held) ''apache_tls/'' [])
      else if kind = g_domains then Inr (domain_items (hc_members held))
      else if kind = g_cron then Inr (cron_items (hc_bodies held))
      else if kind = g_ftp then Inr (ftp_items (hc_bodies held))
      else if kind = g_dbusers then Inr (database_user_items (hc_auth held) (hc_grants held))
      else Inl (ErrMsg ''inventory: a backup cannot be asked what it holds of this kind'' [kind]))"

section \<open>What was read a moment ago\<close>

type_synonym item_cache = "(string \<times> instant \<times> held_contents) list"

definition cache_ttl :: "duration \<Rightarrow> duration" where
  "cache_ttl ttl = (if ttl > 0 then ttl else 120000000000)"

definition cache_key :: "string \<Rightarrow> string \<Rightarrow> string" where
  "cache_key repository snapshot_id = repository @ CHR 0x00 # snapshot_id"

text \<open>\<open>before\<close> and \<open>after\<close> are the clock when the cache is asked and when a reading is done.\<close>

definition cached_contents :: "duration \<Rightarrow> reader \<Rightarrow> parts \<Rightarrow> string \<Rightarrow> instant \<Rightarrow> instant \<Rightarrow> item_cache \<Rightarrow> held_contents res \<times> item_cache" where
  "cached_contents ttl R P key before after cache =
     (case map_of cache key of
        Some (read, held) \<Rightarrow>
          if time_sub before read < cache_ttl ttl then (Inr held, cache)
          else (case read_contents R P of
              Inl e \<Rightarrow> (Inl e, AList.delete key cache)
            | Inr held \<Rightarrow> (Inr held, AList.update key (after, held) cache))
      | None \<Rightarrow> (case read_contents R P of
              Inl e \<Rightarrow> (Inl e, cache)
            | Inr held \<Rightarrow> (Inr held, AList.update key (after, held) cache)))"

definition cache_items :: "duration \<Rightarrow> reader \<Rightarrow> parts \<Rightarrow> string \<Rightarrow> string \<Rightarrow> instant \<Rightarrow> instant \<Rightarrow> item_cache \<Rightarrow> item list res \<times> item_cache" where
  "cache_items ttl R P key kind before after cache =
     (if \<not> lists_items kind \<or> needs_names kind then (Inr [], cache)
      else case cached_contents ttl R P key before after cache of
        (Inl e, cache) \<Rightarrow> (Inl e, cache)
      | (Inr held, cache) \<Rightarrow> (items_of kind held, cache))"

definition cache_forget :: "string \<Rightarrow> item_cache \<Rightarrow> item_cache" where
  "cache_forget key cache = AList.delete key cache"

section \<open>A grant is put back on the one database it was given on\<close>

text \<open>MySQL matches the database of a grant like a LIKE pattern.\<close>

function like :: "string \<Rightarrow> string \<Rightarrow> bool" where
  "like [] m \<longleftrightarrow> m = []"
| "like (c # cs) m \<longleftrightarrow>
     (if c = CHR 0x5C then
        (case cs of [] \<Rightarrow> m = [c] | d # ds \<Rightarrow> (case m of [] \<Rightarrow> False | x # xs \<Rightarrow> x = d \<and> like ds xs))
      else if c = CHR ''%'' then like cs m \<or> (case m of [] \<Rightarrow> False | x # xs \<Rightarrow> like (c # cs) xs)
      else (case m of [] \<Rightarrow> False | x # xs \<Rightarrow> (c = CHR ''_'' \<or> x = c) \<and> like cs xs))"
  by pat_completeness auto
termination by (relation "measure (\<lambda>(p, m). length p + length m)") auto

text \<open>A pattern that ends in the middle of an escape.\<close>

fun dangling :: "string \<Rightarrow> bool" where
  "dangling [] \<longleftrightarrow> False"
| "dangling (c # cs) \<longleftrightarrow> (if c = CHR 0x5C then (case cs of [] \<Rightarrow> True | d # ds \<Rightarrow> dangling ds) else dangling cs)"

lemma like_literal: "unescape_grant_database p = Some n \<Longrightarrow> like p m \<longleftrightarrow> m = n"
  by (induction p arbitrary: n m rule: unescape_grant_database.induct) (auto split: if_splits list.splits)

lemma like_something: "\<not> dangling p \<Longrightarrow> \<exists>m. like p m"
proof (induction p rule: dangling.induct)
  case (2 c cs)
  show ?case
  proof (cases "c = CHR 0x5C")
    case True
    with 2 obtain d ds m where "cs = d # ds" "like ds m" by (cases cs) auto
    with True show ?thesis by (intro exI [of _ "d # m"]) simp
  next
    case False
    with 2 obtain m where m: "like cs m" by auto
    show ?thesis
    proof (cases "c = CHR ''%''")
      case True
      with m show ?thesis by (intro exI [of _ m]) simp
    next
      case nz: False
      with False m show ?thesis by (intro exI [of _ "c # m"]) simp
    qed
  qed
qed (auto intro: exI [of _ "[]"])

lemma wild_matches_two:
  "unescape_grant_database p = None \<Longrightarrow> \<not> dangling p \<Longrightarrow> \<exists>m m'. m \<noteq> m' \<and> like p m \<and> like p m'"
proof (induction p rule: unescape_grant_database.induct)
  case (2 c cs)
  show ?case
  proof (cases "c = CHR 0x5C")
    case True
    with 2 obtain d ds m m' where "cs = d # ds" "m \<noteq> m'" "like ds m" "like ds m'" by (cases cs) auto
    with True show ?thesis by (intro exI [of _ "d # m"] exI [of _ "d # m'"]) simp
  next
    case False
    note plain = this
    with 2 have nd: "\<not> dangling cs" by simp
    show ?thesis
    proof (cases "c = CHR ''_'' \<or> c = CHR ''%''")
      case True
      from like_something [OF nd] obtain m where m: "like cs m" ..
      show ?thesis
      proof (cases "c = CHR ''%''")
        case True
        with m have "like (c # cs) (CHR ''a'' # m)" "like (c # cs) m" by simp_all
        then show ?thesis by (intro exI [of _ "CHR ''a'' # m"] exI [of _ m]) simp
      next
        case False
        with True plain m have "like (c # cs) (CHR ''a'' # m)" "like (c # cs) (CHR ''b'' # m)" by auto
        then show ?thesis by (intro exI [of _ "CHR ''a'' # m"] exI [of _ "CHR ''b'' # m"]) simp
      qed
    next
      case False
      with 2 plain nd obtain m m' where "m \<noteq> m'" "like cs m" "like cs m'" by auto
      with False plain show ?thesis by (intro exI [of _ "c # m"] exI [of _ "c # m'"]) simp
    qed
  qed
qed simp

text \<open>
  The pattern of a grant is read as a database exactly when it matches exactly one, and then as
  that one: a grant that covers more is never put back against a name it merely looks like.
\<close>

theorem grant_names_one_database:
  assumes "\<not> dangling p"
  shows "unescape_grant_database p = Some n \<longleftrightarrow> (\<forall>m. like p m \<longleftrightarrow> m = n)"
proof (cases "unescape_grant_database p")
  case None
  from wild_matches_two [OF None assms] obtain m m' where "m \<noteq> m'" "like p m" "like p m'" by blast
  then have "\<not> (\<forall>m. like p m \<longleftrightarrow> m = n)" by metis
  with None show ?thesis by simp
next
  case (Some k)
  have only: "like p m \<longleftrightarrow> m = k" for m by (rule like_literal [OF Some])
  show ?thesis unfolding only Some option.inject by metis
qed

theorem grant_names_one_database_witness:
  "\<not> like (''bob'' @ [CHR 0x5C] @ ''_wp'') ''bobxwp'' \<and> unescape_grant_database (''bob'' @ [CHR 0x5C] @ ''_wp'') = Some ''bob_wp''"
proof -
  have "unescape_grant_database (''bob'' @ [CHR 0x5C] @ ''_wp'') = Some ''bob_wp''" "\<not> dangling (''bob'' @ [CHR 0x5C] @ ''_wp'')"
    by code_simp+
  with grant_names_one_database [of "''bob'' @ [CHR 0x5C] @ ''_wp''" "''bob_wp''"] show ?thesis by simp
qed

section \<open>What is listed can be restored\<close>

lemma usable_domain_member:
  "usable_domain_name name = Inr () \<Longrightarrow> members_for f [name] = Inr (f name)"
  by simp

lemma name_under_member:
  assumes "name_under dir ending member = Some name"
  shows "member = dir @ name @ ending \<and> usable_domain_name name = Inr ()"
proof -
  from assms obtain rest where rest: "member = dir @ rest" and
    name: "if ending \<noteq> [] then has_suffix rest ending \<and> name = trim_suffix rest ending else name = rest"
    and ok: "usable_domain_name name = Inr ()"
    by (auto simp: name_under_def cut_prefix_eq_Some Let_def split: option.splits if_splits)
  have "has_suffix rest ending \<Longrightarrow> rest = trim_suffix rest ending @ ending"
  proof -
    assume suf: "has_suffix rest ending"
    then obtain t where "rev rest = rev ending @ t" by (auto simp: has_suffix_def has_prefix_iff)
    then have "rest = rev t @ ending" by (metis rev_append rev_rev_ident)
    with suf show "rest = trim_suffix rest ending @ ending" by (simp add: trim_suffix_def)
  qed
  with rest name ok show ?thesis by (cases "ending = []") auto
qed

text \<open>
  What the page lists can be asked for and is what comes out: for each DNS zone, certificate and
  domain listed from an archive, the request that names it is accepted and its plan takes the very
  member of the archive it was listed from.
\<close>

theorem listed_item_is_restorable:
  assumes "items_of k held = Inr items" "x \<in> set items" "k \<in> {g_dns, g_ssl, g_domains}"
    and "sp_metadata P \<noteq> []" "account \<noteq> []"
  shows "\<exists>member plan. build_plan P \<lparr>gq_kind = k, gq_account = account, gq_names = [it_name x]\<rparr> = Inr plan \<and>
    member \<in> set (hc_members held) \<and> member \<in> set (gp_members plan)"
proof -
  have kinds: "g_ssl \<noteq> g_dns" "g_domains \<noteq> g_dns" "g_domains \<noteq> g_ssl" by (simp_all add: g_kinds)
  have not_files: "k \<noteq> g_files" "k \<noteq> g_website" "k \<noteq> g_mailbox" "k \<noteq> g_database" "k \<noteq> g_settings" "k \<noteq> g_cron"
    using assms(3) by (auto simp: g_kinds)
  consider "k = g_dns" | "k = g_ssl" | "k = g_domains" using assms(3) by blast
  then show ?thesis
  proof cases
    case 1
    with assms(1,2) obtain member where "member \<in> set (hc_members held)" "name_under ''dnszones/'' ''.db'' member = Some (it_name x)"
      by (auto simp: items_of_def under_prefix_def sorted_items_def List.map_filter_def named_item_def)
    with name_under_member [of "''dnszones/''" "''.db''" member "it_name x"] 1 assms(4,5) not_files show ?thesis
      by (intro exI [of _ member]) (auto simp: build_plan_def needs_names_def build_chosen_def dns_members_def build_metadata_def)
  next
    case 2
    with assms(1,2) kinds obtain member where "member \<in> set (hc_members held)" "name_under ''apache_tls/'' [] member = Some (it_name x)"
      by (auto simp: items_of_def under_prefix_def sorted_items_def List.map_filter_def named_item_def)
    with name_under_member [of "''apache_tls/''" "[]" member "it_name x"] 2 kinds assms(4,5) not_files show ?thesis
      by (intro exI [of _ member]) (auto simp: build_plan_def needs_names_def build_chosen_def ssl_members_def build_metadata_def)
  next
    case 3
    with assms(1,2) kinds obtain member where m: "member \<in> set (hc_members held)" "domain_under member = Some (it_name x)"
      by (auto simp: items_of_def domain_items_def sorted_items_def List.map_filter_def named_item_def)
    then have "member = ''userdata/'' @ it_name x" "usable_domain_name (it_name x) = Inr ()"
      by (auto simp: domain_under_def cut_prefix_eq_Some split: option.splits if_splits)
    with m(1) 3 kinds assms(4,5) not_files show ?thesis
      by (intro exI [of _ member]) (auto simp: build_plan_def needs_names_def build_chosen_def domain_members_def build_metadata_def g_kinds)
  qed
qed

definition zones_held :: held_contents where
  "zones_held = \<lparr>hc_members = [''dnszones/example.com.db'', ''dnszones/'', ''homedir_paths''], hc_bodies = [], hc_auth = [], hc_grants = []\<rparr>"

theorem listed_item_is_restorable_witness:
  "items_of g_dns zones_held = Inr [named_item ''example.com''] \<and>
   (\<exists>plan. build_plan split_parts \<lparr>gq_kind = g_dns, gq_account = ''bob'', gq_names = [''example.com'']\<rparr> = Inr plan)"
proof -
  have items: "items_of g_dns zones_held = Inr [named_item ''example.com'']" by code_simp
  have "sp_metadata split_parts \<noteq> []" by code_simp
  with listed_item_is_restorable [OF items, of "named_item ''example.com''" split_parts "''bob''"] items show ?thesis
    by (auto simp: named_item_def)
qed

end
