(* ===== verification/Reassemble.thy ===== *)
theory Reassemble
  imports Agent_Job Tar_Archive
begin

text \<open>
  Putting an account back together from a snapshot (\<open>internal/reassemble/reassemble.go\<close>), rehearsing
  what came out (\<open>internal/reassemble/verify.go\<close>) and the room this needs (\<open>internal/reassemble/space.go\<close>).
  The state is the staging directory and the world restic runs in; what restic writes below a target,
  the bytes of a file and the effect of an extraction on the disk are parameters.
\<close>

section \<open>What runs restic and reads files\<close>

text \<open>
  \<open>rb_wrote\<close> is the disk once restic has run for a restore. \<open>rb_read\<close> is a file's contents, \<open>rb_archive\<close> a
  file as a tar reader finds it, \<open>rb_root\<close> and \<open>rb_perform\<close> the directory an archive is unpacked into
  and the disk after what was asked of it. \<open>rb_walk\<close> is what \<open>filepath.Walk\<close> shows, \<open>rb_create\<close> the
  error of creating a file, \<open>rb_packed\<close> the disk once an archive was written, or was begun.
  \<open>rb_cancelled\<close> is what the context says at each look.
\<close>

record 'x rebuilder = "'x agent" +
  rb_wrote :: "restore_spec \<Rightarrow> nodes \<times> 'x world \<Rightarrow> nodes"
  rb_read :: "string \<Rightarrow> nodes \<Rightarrow> string res"
  rb_archive :: "string \<Rightarrow> nodes \<Rightarrow> archive"
  rb_root :: "string \<Rightarrow> nodes \<Rightarrow> extract_api"
  rb_perform :: "string \<Rightarrow> root_op list \<Rightarrow> nodes \<Rightarrow> nodes"
  rb_walk :: "string \<Rightarrow> nodes \<Rightarrow> (string \<times> walked) list"
  rb_create :: "string \<Rightarrow> nodes \<Rightarrow> err option"
  rb_packed :: "string \<Rightarrow> archive res \<Rightarrow> nodes \<Rightarrow> nodes"
  rb_cancelled :: "nat \<Rightarrow> err option"

definition on_restic :: "('x world, 'a) prog \<Rightarrow> ('x, 'a) aprog" where
  "on_restic m = (\<lambda>(d, w). case m w of (r, w') \<Rightarrow> (r, (d, w')))"

definition restic_restore :: "('x, 'b) rebuilder_scheme \<Rightarrow> repository_handle \<Rightarrow> restore_spec \<Rightarrow> ('x, restore_result) aprog" where
  "restic_restore R repo spec =
     (\<lambda>(d, w). case restore (ag_sys R) (ag_runner R) (ag_codec R) repo spec w of
        (r, w') \<Rightarrow> (r, (rb_wrote R spec (d, w), w')))"

definition homedir_dir :: string where "homedir_dir = ''homedir''"
definition database_dir :: string where "database_dir = ''mysql''"
definition cpmove_users_file :: string where "cpmove_users_file = ''mysql.sql''"
definition staged_users_file :: string where "staged_users_file = ''_users.sql''"
definition auth_suffix :: string where "auth_suffix = ''-auth.json''"
definition readable_users_file :: string where "readable_users_file = ''_users-runnable.sql''"

record rebuild_request =
  rq_account :: string
  rq_snapshot_id :: string
  rq_work_dir :: string
  rq_repo :: repository_handle
  rq_watched :: bool

record rebuilt =
  rb_archive_path :: string
  rb_tree_dir :: string
  rb_mode :: mode
  rb_bytes :: "64 word"
  rb_skipped :: "string list"

definition rebuilt_complete :: "rebuilt \<Rightarrow> bool" where
  "rebuilt_complete b \<longleftrightarrow> length (rb_skipped b) = 0"

section \<open>The snapshot that was asked for\<close>

fun pick_snapshot :: "string \<Rightarrow> string \<Rightarrow> snapshot list \<Rightarrow> snapshot res" where
  "pick_snapshot account i [] = Inl (ErrMsg ''reassemble: snapshot does not belong to account in this repository'' [i, account])"
| "pick_snapshot account i (s # ss) =
     (if sn_id s \<noteq> i \<and> sn_short_id s \<noteq> i then pick_snapshot account i ss
      else if snapshot_account s \<noteq> account
      then Inl (ErrMsg ''reassemble: snapshot belongs to another account'' [i, snapshot_account s, account])
      else Inr s)"

definition find_snapshot :: "('x, 'b) rebuilder_scheme \<Rightarrow> rebuild_request \<Rightarrow> ('x, snapshot) aprog" where
  "find_snapshot R q =
     prog_bind (on_restic (snapshots (ag_sys R) (ag_runner R) (ag_codec R) (rq_repo q)
       \<lparr>sf_tags = [''account:'' @ rq_account q], sf_host = [], sf_latest = 0\<rparr>)) (\<lambda>ss.
     prog_lift (pick_snapshot (rq_account q) (rq_snapshot_id q) ss))"

section \<open>The pieces\<close>

definition part_spec :: "rebuild_request \<Rightarrow> snapshot \<Rightarrow> string \<Rightarrow> string \<Rightarrow> restore_spec" where
  "part_spec q s subpath target =
     \<lparr>rs_snapshot_id = sn_id s, rs_subpath = subpath, rs_target = target, rs_include = [], rs_exclude = [], rs_verify = False,
      rs_on_progress = rq_watched q\<rparr>"

text \<open>One part, and the bytes restic reported for it added to those before.\<close>

definition restore_part :: "('x, 'b) rebuilder_scheme \<Rightarrow> rebuild_request \<Rightarrow> snapshot \<Rightarrow> string \<Rightarrow> string \<Rightarrow> string \<Rightarrow> 64 word \<Rightarrow>
    ('x, 64 word) aprog" where
  "restore_part R q s what subpath target bytes =
     prog_bind (fs_wrap what (restic_restore R (rq_repo q) (part_spec q s subpath target))) (\<lambda>restored.
     prog_return (bytes + of_nat (rr_bytes_restored restored)))"

definition sole_archive :: "os_api \<Rightarrow> string \<Rightarrow> (nodes, string) prog" where
  "sole_archive fs dir =
     prog_bind (fs_wrap ''reassemble: read'' (fs_readdir fs dir)) (\<lambda>entries.
     case map (\<lambda>(name, _). file_join dir name)
         (filter (\<lambda>(name, folder). \<not> folder \<and> (has_suffix name ''.tar'' \<or> has_suffix name ''.tar.gz'')) entries) of
       [a] \<Rightarrow> prog_return a
     | [] \<Rightarrow> prog_fail (ErrMsg ''reassemble: no archive in the restored metadata part'' [])
     | _ \<Rightarrow> prog_fail (ErrMsg ''reassemble: several archives in the restored metadata part, expected one'' []))"

definition sole_directory :: "os_api \<Rightarrow> string \<Rightarrow> (nodes, string) prog" where
  "sole_directory fs dir =
     prog_bind (fs_wrap ''reassemble: read'' (fs_readdir fs dir)) (\<lambda>entries.
     case filter snd entries of
       [(name, _)] \<Rightarrow> prog_return (file_join dir name)
     | _ \<Rightarrow> prog_fail (ErrMsg ''found several top-level directories, expected one'' []))"

text \<open>\<open>os.Rename\<close> of a file, which takes the place of a file that is there.\<close>

definition fs_replace :: "os_api \<Rightarrow> string \<Rightarrow> string \<Rightarrow> (nodes, unit) prog" where
  "fs_replace fs a b = guarded fs OpRename a (\<lambda>d.
     case map_of d a of
       None \<Rightarrow> (Inl ErrNotFound, d)
     | Some n \<Rightarrow>
         if (case map_of d b of Some m \<Rightarrow> is_dir m | None \<Rightarrow> False) then (Inl (ErrMsg ''file exists'' [b]), d)
         else (Inr (), (b, n) # filter (\<lambda>(q, _). q \<noteq> a \<and> q \<noteq> b) d))"

definition fs_remove :: "os_api \<Rightarrow> string \<Rightarrow> (nodes, unit) prog" where
  "fs_remove fs a = guarded fs OpRemove a (\<lambda>d.
     if map_of d a = None then (Inl ErrNotFound, d)
     else if children (dir_prefix a) d \<noteq> [] then (Inl (ErrMsg ''directory not empty'' [a]), d)
     else (Inr (), filter (\<lambda>(q, _). q \<noteq> a) d))"

text \<open>A program whose failure because of a missing file is let pass.\<close>

definition unless_missing :: "string \<Rightarrow> (nodes, unit) prog \<Rightarrow> (nodes, unit) prog" where
  "unless_missing what m =
     (\<lambda>d. case m d of
        (Inl e, d') \<Rightarrow> (if is_not_found e then Inr () else Inl (ErrWrap what e), d')
      | (Inr u, d') \<Rightarrow> (Inr u, d'))"

definition place_database_users :: "os_api \<Rightarrow> string \<Rightarrow> (nodes, unit) prog" where
  "place_database_users fs root =
     (let from = file_join (file_join root database_dir) staged_users_file; to = file_join root cpmove_users_file in
      (\<lambda>d. case fs_stat fs from d of
         (Inr (Some _), d) \<Rightarrow>
           prog_bind (fs_wrap ''reassemble: place the database users where restorepkg reads them'' (fs_replace fs from to)) (\<lambda>_.
           prog_bind (unless_missing ''reassemble: place the database authentication'' (fs_replace fs (from @ auth_suffix) (to @ auth_suffix))) (\<lambda>_.
           unless_missing ''reassemble:'' (fs_remove fs (file_join (file_join root database_dir) readable_users_file)))) d
       | (_, d) \<Rightarrow> (Inr (), d)))"

definition unpack :: "('x, 'b) rebuilder_scheme \<Rightarrow> string \<Rightarrow> string \<Rightarrow> (nodes, unit) prog" where
  "unpack R archive dir =
     (\<lambda>d. case extract_tar (rb_root R dir d) (rb_archive R archive d) of
        (e, ops) \<Rightarrow> (case e of Some e \<Rightarrow> Inl e | None \<Rightarrow> Inr (), rb_perform R dir ops d))"

definition pack :: "('x, 'b) rebuilder_scheme \<Rightarrow> string \<Rightarrow> string \<Rightarrow> (nodes, unit) prog" where
  "pack R dir archive =
     (\<lambda>d. case rb_create R archive d of
        Some e \<Rightarrow> (Inl (ErrWrap ''reassemble: create'' e), d)
      | None \<Rightarrow> (let made = create_tar (rb_walk R (path_clean dir) d)
                 in (case made of Inl e \<Rightarrow> Inl e | Inr _ \<Rightarrow> Inr (), rb_packed R archive made d)))"

definition validate_file :: "('x, 'b) rebuilder_scheme \<Rightarrow> string \<Rightarrow> string \<Rightarrow> (nodes, unit) prog" where
  "validate_file R archive account = (\<lambda>d. (validate_account_archive (rb_cancelled R) (rb_archive R archive d) archive account, d))"

section \<open>One archive, as it was or put together\<close>

definition restore_monolithic :: "('x, 'b) rebuilder_scheme \<Rightarrow> rebuild_request \<Rightarrow> snapshot \<Rightarrow> parts \<Rightarrow> ('x, rebuilt) aprog" where
  "restore_monolithic R q s found =
     (let dir = file_join (rq_work_dir q) ''archive''; archive = file_join dir (file_base (sp_archive found)) in
      prog_bind (restore_part R q s ''reassemble: restore archive'' (path_dir (sp_archive found)) dir 0) (\<lambda>bytes.
      prog_bind (on_disk (fs_wrap ''reassemble: restored archive is missing'' (fs_stat (ag_os R) archive))) (\<lambda>info.
      if info = None then prog_fail (ErrWrap ''reassemble: restored archive is missing'' ErrNotFound)
      else prog_bind (on_disk (validate_file R archive (rq_account q))) (\<lambda>_.
      prog_return \<lparr>rb_archive_path = archive, rb_tree_dir = [], rb_mode = mode_monolithic, rb_bytes = bytes, rb_skipped = []\<rparr>))))"

definition restore_databases :: "('x, 'b) rebuilder_scheme \<Rightarrow> rebuild_request \<Rightarrow> snapshot \<Rightarrow> parts \<Rightarrow> string \<Rightarrow> 64 word \<Rightarrow> ('x, 64 word) aprog" where
  "restore_databases R q s found root bytes =
     (if sp_databases found = [] then prog_return bytes
      else prog_bind (restore_part R q s ''reassemble: restore databases'' (sp_databases found) (file_join root database_dir) bytes) (\<lambda>bytes.
           prog_bind (on_disk (place_database_users (ag_os R) root)) (\<lambda>_. prog_return bytes)))"

definition restore_split :: "('x, 'b) rebuilder_scheme \<Rightarrow> rebuild_request \<Rightarrow> snapshot \<Rightarrow> parts \<Rightarrow> ('x, rebuilt) aprog" where
  "restore_split R q s found =
     (let metadata = file_join (rq_work_dir q) ''metadata''; tree = file_join (rq_work_dir q) ''tree'' in
      prog_bind (restore_part R q s ''reassemble: restore metadata'' (sp_metadata found) metadata 0) (\<lambda>bytes.
      prog_bind (on_disk (sole_archive (ag_os R) metadata)) (\<lambda>archive.
      prog_bind (on_disk (validate_file R archive (rq_account q))) (\<lambda>_.
      prog_bind (on_disk (unpack R archive tree)) (\<lambda>_.
      prog_bind (on_disk (fs_wrap ''reassemble: metadata archive is not a cpmove tree'' (sole_directory (ag_os R) tree))) (\<lambda>root.
      prog_bind (restore_part R q s ''reassemble: restore home directory'' (sp_homedir found) (file_join root homedir_dir) bytes) (\<lambda>bytes.
      prog_bind (restore_databases R q s found root bytes) (\<lambda>bytes.
      let packed = file_join (rq_work_dir q) (file_base root @ ''.tar'') in
      prog_bind (on_disk (pack R tree packed)) (\<lambda>_.
      prog_return \<lparr>rb_archive_path = packed, rb_tree_dir = tree, rb_mode = mode_split, rb_bytes = bytes, rb_skipped = []\<rparr>)))))))))"

definition rebuild :: "('x, 'b) rebuilder_scheme \<Rightarrow> rebuild_request \<Rightarrow> ('x, rebuilt) aprog" where
  "rebuild R q =
     (if rq_account q = [] then prog_fail (ErrMsg ''reassemble: account is required'' [])
      else if rq_work_dir q = [] then prog_fail (ErrMsg ''reassemble: work directory is required'' [])
      else prog_bind (find_snapshot R q) (\<lambda>s.
           prog_bind (prog_lift (classify_paths (sn_paths s))) (\<lambda>found.
           prog_bind (if parts_mode found = mode_monolithic then restore_monolithic R q s found else restore_split R q s found) (\<lambda>b.
           prog_return (b\<lparr>rb_skipped := skipped s\<rparr>)))))"

section \<open>What a rebuilt tree holds\<close>

text \<open>\<open>Result.Databases\<close>: the dumps beside the archive; nothing when they cannot be listed.\<close>

definition rebuilt_databases :: "os_api \<Rightarrow> rebuilt \<Rightarrow> (nodes, string list) prog" where
  "rebuilt_databases fs b =
     (if rb_mode b = mode_monolithic \<or> rb_tree_dir b = [] then prog_return []
      else (\<lambda>d. case sole_directory fs (rb_tree_dir b) d of
          (Inl _, d) \<Rightarrow> (Inr [], d)
        | (Inr root, d) \<Rightarrow> (case fs_readdir fs (file_join root database_dir) d of
            (Inl _, d) \<Rightarrow> (Inr [], d)
          | (Inr entries, d) \<Rightarrow>
              (Inr (filter (\<lambda>n. n \<noteq> []) (map (\<lambda>(name, _). trim_suffix name ''.sql'')
                 (filter (\<lambda>(name, folder). \<not> folder \<and> has_suffix name ''.sql'') entries))), d))))"

text \<open>The files below a directory, which \<open>filepath.WalkDir\<close> must be able to read.\<close>

fun files_below :: "string \<Rightarrow> nodes \<Rightarrow> nat" where
  "files_below p [] = 0"
| "files_below p ((q, n) # d) = (if lies_under p q \<and> \<not> is_dir n then 1 else 0) + files_below p d"

definition count_files :: "os_api \<Rightarrow> string \<Rightarrow> (nodes, nat) prog" where
  "count_files fs root = guarded fs OpWalk root (\<lambda>d.
     if map_of d root = None then (Inl ErrNotFound, d) else (Inr (files_below root d), d))"

definition upper_char :: "char \<Rightarrow> char" where
  "upper_char c = (if char_in CHR ''a'' CHR ''z'' c then char_of (of_char c - 32 :: nat) else c)"

text \<open>The check of one dump; the letters of CREATE have no other upper-case form in UTF-8.\<close>

definition check_dump :: "('x, 'b) rebuilder_scheme \<Rightarrow> string \<Rightarrow> string \<Rightarrow> (nodes, unit) prog" where
  "check_dump R dir name =
     (\<lambda>d. (case rb_read R (file_join dir name) d of
        Inl e \<Rightarrow> Inl (ErrWrap ''reassemble: read dump'' e)
      | Inr body \<Rightarrow>
          if length body = 0 then Inl (ErrMsg ''reassemble: dump is empty'' [name])
          else if \<not> contains_str (map upper_char body) ''CREATE'' then Inl (ErrMsg ''reassemble: dump has no CREATE statement'' [name])
          else Inr (), d))"

fun check_dumps :: "('x, 'b) rebuilder_scheme \<Rightarrow> string \<Rightarrow> (string \<times> bool) list \<Rightarrow> nat \<Rightarrow> (nodes, nat) prog" where
  "check_dumps R dir [] checked = prog_return checked"
| "check_dumps R dir ((name, folder) # es) checked =
     (if folder \<or> \<not> has_suffix name ''.sql'' then check_dumps R dir es checked
      else prog_bind (check_dump R dir name) (\<lambda>_. check_dumps R dir es (checked + 1)))"

text \<open>A missing directory of dumps is one without dumps.\<close>

definition dump_entries :: "os_api \<Rightarrow> string \<Rightarrow> (nodes, (string \<times> bool) list) prog" where
  "dump_entries fs dir =
     (\<lambda>d. if map_of d dir = None then (Inr [], d)
          else fs_wrap ''reassemble: database directory'' (fs_readdir fs dir) d)"

text \<open>The check ends with the first failure; the lines are what passed before it.\<close>

definition verify_home :: "('x, 'b) rebuilder_scheme \<Rightarrow> rebuilt \<Rightarrow> string \<Rightarrow> (nodes, string list) prog" where
  "verify_home R b root =
     (if ''homedir'' \<in> set (rb_skipped b) then prog_return []
      else prog_bind (fs_wrap ''reassemble: home directory'' (count_files (ag_os R) (file_join root homedir_dir))) (\<lambda>files.
        if files = 0 then prog_fail (ErrMsg ''reassemble: restored home directory is empty'' [])
        else prog_return [itoa (int files) @ '' files in the home directory'']))"

definition verify_dumps :: "('x, 'b) rebuilder_scheme \<Rightarrow> rebuilt \<Rightarrow> string \<Rightarrow> (nodes, string list) prog" where
  "verify_dumps R b root =
     (let dir = file_join root database_dir in
      prog_bind (dump_entries (ag_os R) dir) (\<lambda>entries.
      prog_bind (check_dumps R dir entries 0) (\<lambda>checked.
      prog_return
        ((if checked > 0 then [itoa (int checked) @ '' database dumps parse''] else []) @
         (if checked = 0 \<and> ''databases'' \<in> set (rb_skipped b)
          then [''no database dumps, which is what this backup was taken as''] else [])))))"

text \<open>Lines that passed before a step, and those of the step.\<close>

definition after_lines :: "string list \<Rightarrow> (nodes, string list) prog \<Rightarrow> nodes \<Rightarrow> (string list \<times> err option) \<times> nodes" where
  "after_lines passed m = (\<lambda>d. case m d of (Inl e, d') \<Rightarrow> ((passed, Some e), d') | (Inr lines, d') \<Rightarrow> ((passed @ lines, None), d'))"

definition then_lines :: "(nodes \<Rightarrow> (string list \<times> err option) \<times> nodes) \<Rightarrow> (nodes, string list) prog \<Rightarrow> nodes \<Rightarrow> (string list \<times> err option) \<times> nodes" where
  "then_lines m k = (\<lambda>d. case m d of ((passed, Some e), d') \<Rightarrow> ((passed, Some e), d') | ((passed, None), d') \<Rightarrow> after_lines passed k d')"

definition skipped_line :: "rebuilt \<Rightarrow> string list" where
  "skipped_line b =
     (if length (rb_skipped b) > 0
      then [''taken without '' @ join_with '', '' (rb_skipped b) @ '', so this is not a backup of the whole account''] else [])"

definition archive_there :: "('x, 'b) rebuilder_scheme \<Rightarrow> rebuilt \<Rightarrow> (nodes, string list) prog" where
  "archive_there R b =
     prog_bind (fs_wrap ''reassemble: rebuilt archive is missing'' (fs_stat (ag_os R) (rb_archive_path b))) (\<lambda>info.
     case info of
       None \<Rightarrow> prog_fail (ErrWrap ''reassemble: rebuilt archive is missing'' ErrNotFound)
     | Some n \<Rightarrow> if file_size n = 0 then prog_fail (ErrMsg ''reassemble: rebuilt archive is empty'' []) else prog_return [''archive present''])"

definition verify_rebuilt :: "('x, 'b) rebuilder_scheme \<Rightarrow> rebuilt \<Rightarrow> nodes \<Rightarrow> (string list \<times> err option) \<times> nodes" where
  "verify_rebuilt R b =
     (let found = after_lines (skipped_line b) (archive_there R b) in
      if rb_mode b = mode_monolithic then found
      else (\<lambda>d. case found d of
          ((passed, Some e), d) \<Rightarrow> ((passed, Some e), d)
        | ((passed, None), d) \<Rightarrow> (case sole_directory (ag_os R) (rb_tree_dir b) d of
            (Inl e, d) \<Rightarrow> ((passed, Some e), d)
          | (Inr root, d) \<Rightarrow>
              then_lines (after_lines (passed @ [''account tree present'']) (verify_home R b root)) (verify_dumps R b root) d)))"

section \<open>How much room\<close>

definition staging_bytes :: "64 word \<Rightarrow> 64 word" where
  "staging_bytes source =
     (if source = 0 then 0
      else let overhead = 2 ^ 30 in if source > (- 1 - overhead) div 3 then - 1 else source * 3 + overhead)"

section \<open>The room asked for never falls short\<close>

text \<open>
  C32. The room asked for a restore is three times the backup and a gigabyte, held at the largest number
  instead of wrapping round, and stays zero, which is refused, when the size is not known.
\<close>

theorem staging_bytes_saturate:
  "unat (staging_bytes source) = (if source = 0 then 0 else min (3 * unat source + 2 ^ 30) (2 ^ 64 - 1))"
proof (cases "source = 0")
  case False
  have limit: "unat ((- 1 - 2 ^ 30 :: 64 word) div 3) = (2 ^ 64 - 1 - 2 ^ 30) div 3"
    by (simp add: unat_div)
  have top: "unat (- 1 :: 64 word) = 2 ^ 64 - 1" by (simp add: unsigned_minus_1_eq_mask mask_eq_exp_minus_1)
  show ?thesis
  proof (cases "source > (- 1 - 2 ^ 30) div 3")
    case True
    then have "unat source > (2 ^ 64 - 1 - 2 ^ 30) div 3" by (simp add: word_less_nat_alt limit)
    then have "3 * unat source + 2 ^ 30 \<ge> (2 ^ 64 - 1 :: nat)" by simp
    with True False show ?thesis by (simp add: staging_bytes_def Let_def top)
  next
    case small: False
    then have "unat source \<le> (2 ^ 64 - 1 - 2 ^ 30) div 3" by (simp add: word_less_nat_alt limit not_less)
    then have fits: "unat source * 3 + 2 ^ 30 < (2 ^ 64 :: nat)" by simp
    have product: "unat (source * 3) = unat source * 3"
      using fits by (subst unat_mult_lem [THEN iffD1]) simp_all
    have "unat (source * 3 + 2 ^ 30) = unat source * 3 + 2 ^ 30"
      using fits product by (subst unat_add_lem [THEN iffD1]) simp_all
    with small False fits show ?thesis by (simp add: staging_bytes_def Let_def)
  qed
qed (simp add: staging_bytes_def)

section \<open>What a rehearsal that passes has seen\<close>

lemma fs_keeps [simp]:
  "snd (fs_stat fs p d) = d" "snd (fs_readdir fs p d) = d" "snd (count_files fs p d) = d"
  by (simp_all add: fs_stat_def fs_readdir_def count_files_def guarded_def split: option.splits)

lemma fs_wrap_snd [simp]: "snd (fs_wrap what m d) = snd (m d)"
  by (simp add: fs_wrap_def split: sum.splits prod.splits)

lemma fs_stat_Inr: "fs_stat fs p d = (Inr info, d') \<Longrightarrow> d' = d \<and> info = map_of d p"
  by (auto simp: fs_stat_def guarded_def split: option.splits)

lemma fs_readdir_Inr: "fs_readdir fs p d = (Inr es, d') \<Longrightarrow> d' = d"
  by (auto simp: fs_readdir_def guarded_def split: option.splits)

lemma sole_directory_keeps: "sole_directory fs p d = (r, d') \<Longrightarrow> d' = d"
proof -
  assume run: "sole_directory fs p d = (r, d')"
  obtain x d1 where read: "fs_wrap ''reassemble: read'' (fs_readdir fs p) d = (x, d1)" by fastforce
  then have "d1 = d" by (metis fs_keeps(2) fs_wrap_snd snd_conv)
  from run show ?thesis unfolding sole_directory_def prog_bind_def read \<open>d1 = d\<close>
    by (cases x) (auto split: list.splits)
qed

lemma archive_there_Inr:
  assumes "archive_there R b d = (Inr lines, d')"
  shows "d' = d \<and> (\<exists>n. map_of d (rb_archive_path b) = Some n \<and> file_size n \<noteq> 0)"
proof -
  from assms obtain info d1 where stat: "fs_stat (ag_os R) (rb_archive_path b) d = (Inr info, d1)"
    and rest: "(case info of None \<Rightarrow> prog_fail (ErrWrap ''reassemble: rebuilt archive is missing'' ErrNotFound)
      | Some n \<Rightarrow> if file_size n = 0 then prog_fail (ErrMsg ''reassemble: rebuilt archive is empty'' []) else prog_return [''archive present'']) d1 =
      (Inr lines, d')"
    by (auto simp: archive_there_def prog_bind_eq_Inr fs_wrap_Inr)
  from fs_stat_Inr [OF stat] have "d1 = d" "map_of d (rb_archive_path b) = info" by auto
  with rest show ?thesis by (cases info) (auto split: if_splits)
qed

text \<open>A dump that can be loaded to some effect.\<close>

definition sound_dump :: "('x, 'b) rebuilder_scheme \<Rightarrow> nodes \<Rightarrow> string \<Rightarrow> string \<Rightarrow> bool" where
  "sound_dump R d dir name \<longleftrightarrow>
     (case rb_read R (file_join dir name) d of Inl _ \<Rightarrow> False | Inr body \<Rightarrow> body \<noteq> [] \<and> contains_str (map upper_char body) ''CREATE'')"

definition is_dump :: "string \<times> bool \<Rightarrow> bool" where
  "is_dump e \<longleftrightarrow> \<not> snd e \<and> has_suffix (fst e) ''.sql''"

lemma check_dumps_Inr:
  "check_dumps R dir es n d = (Inr m, d') \<Longrightarrow>
     d' = d \<and> m = n + length (filter is_dump es) \<and> (\<forall>e\<in>set es. is_dump e \<longrightarrow> sound_dump R d dir (fst e))"
proof (induction es arbitrary: n d)
  case (Cons e es)
  obtain name folder where e: "e = (name, folder)" by fastforce
  show ?case
  proof (cases "folder \<or> \<not> has_suffix name ''.sql''")
    case True
    with Cons e show ?thesis by (auto simp: is_dump_def)
  next
    case False
    with Cons.prems e obtain u d1 where one: "check_dump R dir name d = (Inr u, d1)" and rest: "check_dumps R dir es (n + 1) d1 = (Inr m, d')"
      by (auto simp: prog_bind_eq_Inr)
    from one have "d1 = d" "sound_dump R d dir name"
      by (auto simp: check_dump_def sound_dump_def split: sum.splits if_splits)
    with Cons.IH [OF rest] False e show ?thesis by (auto simp: is_dump_def)
  qed
qed simp

text \<open>
  A rehearsal that passes changed nothing and saw a rebuilt archive that is not empty; of an account
  put together from its parts it saw exactly one tree, files in its home directory unless the backup was
  taken without one, and in every dump it found a body with a CREATE statement.
\<close>

theorem rehearsal_saw_what_it_passed:
  assumes "verify_rebuilt R b d = ((lines, None), d')"
  shows "d' = d \<and> (\<exists>n. map_of d (rb_archive_path b) = Some n \<and> file_size n \<noteq> 0) \<and>
    (rb_mode b = mode_monolithic \<or>
     (\<exists>root. sole_directory (ag_os R) (rb_tree_dir b) d = (Inr root, d) \<and>
        (''homedir'' \<in> set (rb_skipped b) \<or> files_below (file_join root homedir_dir) d > 0) \<and>
        (map_of d (file_join root database_dir) = None \<or>
         (\<exists>entries. fs_readdir (ag_os R) (file_join root database_dir) d = (Inr entries, d) \<and>
            list_all (\<lambda>e. is_dump e \<longrightarrow> sound_dump R d (file_join root database_dir) (fst e)) entries))))"
proof -
  have archive: "d1 = d \<and> (\<exists>n. map_of d (rb_archive_path b) = Some n \<and> file_size n \<noteq> 0)"
    if "after_lines (skipped_line b) (archive_there R b) d = ((passed, None), d1)" for passed d1
    using that by (auto simp: after_lines_def split: sum.splits prod.splits dest: archive_there_Inr)
  show ?thesis
  proof (cases "rb_mode b = mode_monolithic")
    case True
    with assms archive show ?thesis by (simp add: verify_rebuilt_def)
  next
    case False
    with assms obtain passed d1 root d2 where first: "after_lines (skipped_line b) (archive_there R b) d = ((passed, None), d1)"
      and sole: "sole_directory (ag_os R) (rb_tree_dir b) d1 = (Inr root, d2)"
      and rest: "then_lines (after_lines (passed @ [''account tree present'']) (verify_home R b root)) (verify_dumps R b root) d2 = ((lines, None), d')"
      by (auto simp: verify_rebuilt_def Let_def split: prod.splits option.splits sum.splits)
    from archive [OF first] have d1: "d1 = d" and seen: "\<exists>n. map_of d (rb_archive_path b) = Some n \<and> file_size n \<noteq> 0" by auto
    from sole_directory_keeps [OF sole] have d2: "d2 = d" by (simp add: d1)
    from rest obtain ls1 ls2 d3 where home: "verify_home R b root d = (Inr ls1, d3)" and dumps: "verify_dumps R b root d3 = (Inr ls2, d')"
      by (auto simp: then_lines_def after_lines_def d2 split: prod.splits option.splits sum.splits)
    from home have "d3 = d \<and> (''homedir'' \<in> set (rb_skipped b) \<or> files_below (file_join root homedir_dir) d > 0)"
      by (auto simp: verify_home_def prog_bind_eq_Inr fs_wrap_Inr count_files_def guarded_def split: if_splits option.splits)
    then have d3: "d3 = d" and home_ok: "''homedir'' \<in> set (rb_skipped b) \<or> files_below (file_join root homedir_dir) d > 0" by auto
    from dumps obtain entries d4 n where entries: "dump_entries (ag_os R) (file_join root database_dir) d = (Inr entries, d4)"
      and checked: "check_dumps R (file_join root database_dir) entries 0 d4 = (Inr n, d')"
      by (auto simp: verify_dumps_def Let_def prog_bind_eq_Inr d3)
    from entries have d4: "d4 = d" and listed: "map_of d (file_join root database_dir) = None \<or>
        fs_readdir (ag_os R) (file_join root database_dir) d = (Inr entries, d)"
      by (auto simp: dump_entries_def fs_wrap_Inr split: if_splits dest: fs_readdir_Inr)
    from check_dumps_Inr [OF checked] have "d' = d" "list_all (\<lambda>e. is_dump e \<longrightarrow> sound_dump R d (file_join root database_dir) (fst e)) entries"
      by (auto simp: d4 list_all_iff)
    with sole seen home_ok listed show ?thesis unfolding d1 d2 by blast
  qed
qed

section \<open>What is rebuilt is the account's\<close>

lemma pick_snapshot_Inr:
  "pick_snapshot account i ss = Inr s \<Longrightarrow> s \<in> set ss \<and> (sn_id s = i \<or> sn_short_id s = i) \<and> snapshot_account s = account"
  by (induction ss) (auto split: if_splits)

lemma find_snapshot_Inr:
  "find_snapshot R q st = (Inr s, st') \<Longrightarrow>
     (sn_id s = rq_snapshot_id q \<or> sn_short_id s = rq_snapshot_id q) \<and> snapshot_account s = rq_account q \<and> fst st' = fst st"
  by (auto simp: find_snapshot_def prog_bind_eq_Inr on_restic_def split: prod.splits dest: pick_snapshot_Inr)

lemma on_disk_Inr: "on_disk m st = (Inr a, st') \<longleftrightarrow> m (fst st) = (Inr a, fst st') \<and> snd st' = snd st"
  by (cases st; cases st') (auto simp: on_disk_def split: prod.splits)

lemma validate_file_Inr:
  "validate_file R archive account d = (Inr u, d') \<longleftrightarrow>
     d' = d \<and> validate_account_archive (rb_cancelled R) (rb_archive R archive d) archive account = Inr ()"
  by (auto simp: validate_file_def)

lemma restore_monolithic_Inr:
  assumes "restore_monolithic R q s found st = (Inr b, st')"
  shows "rb_mode b = mode_monolithic \<and>
    validate_account_archive (rb_cancelled R) (rb_archive R (rb_archive_path b) (fst st')) (rb_archive_path b) (rq_account q) = Inr ()"
proof -
  let ?archive = "file_join (file_join (rq_work_dir q) ''archive'') (file_base (sp_archive found))"
  from assms [unfolded restore_monolithic_def Let_def prog_bind_eq_Inr] obtain bytes st1 and info :: "fnode option" and st2 where
    rest: "(if info = None then prog_fail (ErrWrap ''reassemble: restored archive is missing'' ErrNotFound)
      else prog_bind (on_disk (validate_file R ?archive (rq_account q))) (\<lambda>_.
        prog_return \<lparr>rb_archive_path = ?archive, rb_tree_dir = [], rb_mode = mode_monolithic, rb_bytes = bytes, rb_skipped = []\<rparr>)) st2 = (Inr b, st')"
    by (elim exE conjE) (rule that)
  then show ?thesis by (cases info) (auto simp: prog_bind_eq_Inr on_disk_Inr validate_file_Inr)
qed

lemma restore_split_Inr:
  assumes "restore_split R q s found st = (Inr b, st')"
  shows "rb_mode b = mode_split \<and>
    (\<exists>archive d. validate_account_archive (rb_cancelled R) (rb_archive R archive d) archive (rq_account q) = Inr ())"
  using assms unfolding restore_split_def Let_def prog_bind_eq_Inr on_disk_Inr validate_file_Inr by auto

lemma rebuild_of_account:
  assumes "rebuild R q st = (Inr b, st')"
  shows "\<exists>s found archive d. snapshot_account s = rq_account q \<and> (sn_id s = rq_snapshot_id q \<or> sn_short_id s = rq_snapshot_id q) \<and>
    classify_paths (sn_paths s) = Inr found \<and> rb_skipped b = skipped s \<and> rb_mode b = parts_mode found \<and>
    validate_account_archive (rb_cancelled R) (rb_archive R archive d) archive (rq_account q) = Inr () \<and>
    (rb_mode b = mode_split \<or> archive = rb_archive_path b \<and> fst st' = d)"
proof -
  from assms obtain s st1 found made where s: "find_snapshot R q st = (Inr s, st1)" and found: "classify_paths (sn_paths s) = Inr found"
    and run: "(if parts_mode found = mode_monolithic then restore_monolithic R q s found else restore_split R q s found) st1 = (Inr made, st')"
    and b: "b = made\<lparr>rb_skipped := skipped s\<rparr>"
  proof -
    from assms have "rq_account q \<noteq> []" "rq_work_dir q \<noteq> []"
      by (cases "rq_account q = []"; cases "rq_work_dir q = []"; simp add: rebuild_def)+
    with assms have "prog_bind (find_snapshot R q) (\<lambda>s.
           prog_bind (prog_lift (classify_paths (sn_paths s))) (\<lambda>found.
           prog_bind (if parts_mode found = mode_monolithic then restore_monolithic R q s found else restore_split R q s found) (\<lambda>b.
           prog_return (b\<lparr>rb_skipped := skipped s\<rparr>)))) st = (Inr b, st')"
      by (simp add: rebuild_def)
    then obtain s st1 st2 found st3 made where s: "find_snapshot R q st = (Inr s, st1)"
      and found: "prog_lift (classify_paths (sn_paths s)) st1 = (Inr found, st2)"
      and made: "(if parts_mode found = mode_monolithic then restore_monolithic R q s found else restore_split R q s found) st2 = (Inr made, st3)"
      and out: "prog_return (made\<lparr>rb_skipped := skipped s\<rparr>) st3 = (Inr b, st')"
      unfolding prog_bind_eq_Inr by blast
    from found have "classify_paths (sn_paths s) = Inr found" "st2 = st1" by simp_all
    moreover from out have "b = made\<lparr>rb_skipped := skipped s\<rparr>" "st3 = st'" by simp_all
    ultimately show ?thesis using that s made by blast
  qed
  have "rb_mode made = parts_mode found \<and> (\<exists>archive d. validate_account_archive (rb_cancelled R) (rb_archive R archive d) archive (rq_account q) = Inr () \<and>
      (rb_mode made = mode_split \<or> archive = rb_archive_path made \<and> fst st' = d))"
  proof (cases "parts_mode found = mode_monolithic")
    case True
    with run restore_monolithic_Inr [of R q s found st1 made st'] show ?thesis by auto
  next
    case False
    then have "parts_mode found = mode_split" by (auto simp: parts_mode_def)
    with False run restore_split_Inr [of R q s found st1 made st'] show ?thesis by auto
  qed
  then obtain archive d where archive: "validate_account_archive (rb_cancelled R) (rb_archive R archive d) archive (rq_account q) = Inr ()"
    "rb_mode made = mode_split \<or> archive = rb_archive_path made \<and> fst st' = d" "rb_mode made = parts_mode found"
    by blast
  with find_snapshot_Inr [OF s] found b show ?thesis
    by (intro exI [of _ s] exI [of _ found] exI [of _ archive] exI [of _ d]) simp
qed

text \<open>
  An archive rebuilt for an account comes from a snapshot that was listed for it, has its tag and the
  id asked for, was validated as that account's own before anything was done with it, and carries the
  list of what the snapshot was taken without.
\<close>

theorem rebuilt_is_of_the_account:
  assumes "rebuild R q st = (Inr b, st')"
  shows "\<exists>s found archive d. snapshot_account s = rq_account q \<and> (sn_id s = rq_snapshot_id q \<or> sn_short_id s = rq_snapshot_id q) \<and>
    classify_paths (sn_paths s) = Inr found \<and> rb_skipped b = skipped s \<and> rb_mode b = parts_mode found \<and>
    validate_account_archive (rb_cancelled R) (rb_archive R archive d) archive (rq_account q) = Inr () \<and>
    (rb_mode b = mode_split \<or> archive = rb_archive_path b \<and> fst st' = d)"
  by (rule rebuild_of_account [OF assms])

section \<open>A server the properties apply to\<close>

definition example_rebuilder :: "unit rebuilder" where
  "example_rebuilder = agent.extend example_agent
     \<lparr>rb_wrote = (\<lambda>spec (d, w). (rs_target spec @ ''/cpmove-bob.tar'', FFile 9 5) # d), rb_read = (\<lambda>_ _. Inr ''create table t''),
      rb_archive = (\<lambda>_ _. bob_archive), rb_root = (\<lambda>_ _. willing), rb_perform = (\<lambda>_ _ d. d), rb_walk = (\<lambda>_ _. []),
      rb_create = (\<lambda>_ _. None), rb_packed = (\<lambda>_ _ d. d), rb_cancelled = (\<lambda>_. None)\<rparr>"

definition bob_rebuilt :: rebuilt where
  "bob_rebuilt = \<lparr>rb_archive_path = ''/w/cpmove-bob.tar'', rb_tree_dir = ''/w/tree'', rb_mode = mode_split, rb_bytes = 9, rb_skipped = []\<rparr>"

definition rebuilt_bob :: nodes where
  "rebuilt_bob = [(''/w/cpmove-bob.tar'', FFile 9 5), (''/w/tree'', FDir 5), (''/w/tree/cpmove-bob'', FDir 5),
     (''/w/tree/cpmove-bob/homedir'', FDir 5), (''/w/tree/cpmove-bob/homedir/index.php'', FFile 3 5),
     (''/w/tree/cpmove-bob/mysql'', FDir 5), (''/w/tree/cpmove-bob/mysql/bob_wp.sql'', FFile 9 5)]"

theorem rehearsal_saw_what_it_passed_witness:
  "files_below ''/w/tree/cpmove-bob/homedir'' rebuilt_bob > 0 \<and> fst (verify_rebuilt example_rebuilder bob_rebuilt rebuilt_bob) =
     ([''archive present'', ''account tree present'', ''1 files in the home directory'', ''1 database dumps parse''], None)"
proof -
  let ?out = "verify_rebuilt example_rebuilder bob_rebuilt rebuilt_bob"
  have out: "fst ?out = ([''archive present'', ''account tree present'', ''1 files in the home directory'', ''1 database dumps parse''], None)"
    by code_simp
  then have run: "?out = (([''archive present'', ''account tree present'', ''1 files in the home directory'', ''1 database dumps parse''], None), snd ?out)"
    by (simp add: prod_eq_iff)
  have sole: "sole_directory (ag_os example_rebuilder) ''/w/tree'' rebuilt_bob = (Inr ''/w/tree/cpmove-bob'', rebuilt_bob)" by code_simp
  have join: "file_join ''/w/tree/cpmove-bob'' homedir_dir = ''/w/tree/cpmove-bob/homedir''" by code_simp
  from rehearsal_saw_what_it_passed [OF run] have "files_below ''/w/tree/cpmove-bob/homedir'' rebuilt_bob > 0"
    by (auto simp: bob_rebuilt_def mode_split_def mode_monolithic_def sole [simplified] join)
  with out show ?thesis by simp
qed

definition bob_snapshot :: snapshot where
  "bob_snapshot = (example_snapshot ''0badc0de1234'' [''account:bob''])\<lparr>sn_paths := [''/stage/stage-bob/cpmove-bob.tar'']\<rparr>"

definition bob_request :: rebuild_request where
  "bob_request = \<lparr>rq_account = ''bob'', rq_snapshot_id = ''0badc0de'', rq_work_dir = ''/w'', rq_repo = example_repo ''cp1'', rq_watched = False\<rparr>"

definition bob_rebuilder :: "unit rebuilder" where
  "bob_rebuilder = example_rebuilder\<lparr>ag_codec := example_codec [bob_snapshot]\<rparr>"

lemma bob_found:
  "\<exists>w'. find_snapshot bob_rebuilder bob_request (d, w) = (Inr bob_snapshot, (d, w'))"
proof -
  let ?f = "\<lparr>sf_tags = [''account:bob''], sf_host = [], sf_latest = 0\<rparr>"
  have vis: "newest_first_limit 0 (visible_snapshots [bob_snapshot] []) = [bob_snapshot]"
    by (simp add: newest_first_limit_def visible_snapshots_def bob_snapshot_def example_snapshot_def needs_completion_tag_def completion_receipt_tag_def)
  have needs: "\<not> list_ex (\<lambda>s. has_tag (sn_tags s) needs_completion_tag) [bob_snapshot]"
    by (simp add: bob_snapshot_def example_snapshot_def needs_completion_tag_def)
  have "snapshot_account bob_snapshot = ''bob''" "sn_short_id bob_snapshot = ''0badc0de''" by code_simp+
  then have picked: "pick_snapshot ''bob'' ''0badc0de'' [bob_snapshot] = Inr bob_snapshot" by simp
  obtain w1 where raw: "raw_snapshots (reply_sys (\<lambda>_. ''{}'')) example_config (example_codec [bob_snapshot]) (example_repo ''cp1'') ?f w = (Inr [bob_snapshot], w1)"
    using reply_raw_snapshots by blast
  then have "snapshots (reply_sys (\<lambda>_. ''{}'')) example_config (example_codec [bob_snapshot]) (example_repo ''cp1'') ?f w = (Inr [bob_snapshot], w1)"
    using needs vis by (simp add: snapshots_def)
  then show ?thesis
    by (simp add: find_snapshot_def bob_request_def bob_rebuilder_def example_rebuilder_def agent.defs example_agent_def on_restic_def prog_bind_def picked del: pick_snapshot.simps)
qed

lemma bob_restored:
  assumes "restore_args spec = Inr args"
  shows "\<exists>r w'. restic_restore bob_rebuilder (example_repo n) spec (d, w) = (Inr r, ((rs_target spec @ ''/cpmove-bob.tar'', FFile 9 5) # d, w'))"
proof -
  have scanned: "scan_lines ''{}'' = [''{}'']" "trim_space ''{}'' = ''{}''" by code_simp+
  show ?thesis
    using reply_run [of "\<lambda>_. ''{}''" n args "rs_on_progress spec" False False w] assms
    by (auto simp: restic_restore_def restore_def prog_bind_def bob_rebuilder_def example_rebuilder_def agent.defs example_agent_def
        parse_summary_def last_message_def is_message_def scanned example_codec_def max_scan_line_def)
qed

theorem rebuilt_is_of_the_account_witness:
  "\<exists>b st' s. rebuild bob_rebuilder bob_request ([], example_world) = (Inr b, st') \<and> snapshot_account s = ''bob'' \<and>
     (sn_id s = ''0badc0de'' \<or> sn_short_id s = ''0badc0de'')"
proof -
  let ?found = "no_parts\<lparr>sp_archive := ''/stage/stage-bob/cpmove-bob.tar''\<rparr>"
  let ?spec = "part_spec bob_request bob_snapshot ''/stage/stage-bob'' ''/w/archive''"
  let ?d = "[(''/w/archive/cpmove-bob.tar'', FFile 9 5)]"
  have eval: "classify_paths (sn_paths bob_snapshot) = Inr ?found" "parts_mode ?found = mode_monolithic"
    "path_dir ''/stage/stage-bob/cpmove-bob.tar'' = ''/stage/stage-bob''" "file_base ''/stage/stage-bob/cpmove-bob.tar'' = ''cpmove-bob.tar''"
    "file_join (rq_work_dir bob_request) ''archive'' = ''/w/archive''" "file_join ''/w/archive'' ''cpmove-bob.tar'' = ''/w/archive/cpmove-bob.tar''"
    "fst (fs_stat (ag_os bob_rebuilder) ''/w/archive/cpmove-bob.tar'' ?d) = Inr (Some (FFile 9 5))" "\<not> isl (restore_args ?spec)"
    by code_simp+
  have whole: "fst (validate_file bob_rebuilder ''/w/archive/cpmove-bob.tar'' (rq_account bob_request) ?d) = Inr ()" by code_simp
  from eval(8) obtain args where "restore_args ?spec = Inr args" by (cases "restore_args ?spec") auto
  from bob_restored [OF this, of "''cp1''" "[]"] obtain r w2 where
    restored: "restic_restore bob_rebuilder (example_repo ''cp1'') ?spec ([], w1) = (Inr (r w1), (?d, w2 w1))" for w1
    by (simp add: part_spec_def) metis
  obtain w1 where found: "find_snapshot bob_rebuilder bob_request ([], example_world) = (Inr bob_snapshot, ([], w1))"
    using bob_found by blast
  have stat: "fs_stat (ag_os bob_rebuilder) ''/w/archive/cpmove-bob.tar'' ?d = (Inr (Some (FFile 9 5)), ?d)"
    using eval(7) by (simp add: prod_eq_iff)
  have valid: "validate_file bob_rebuilder ''/w/archive/cpmove-bob.tar'' (rq_account bob_request) ?d = (Inr (), ?d)"
    using whole by (simp add: validate_file_def)
  have repo: "rq_repo bob_request = example_repo ''cp1''" "sp_archive ?found = ''/stage/stage-bob/cpmove-bob.tar''" by (simp_all add: bob_request_def)
  have "\<exists>b. restore_monolithic bob_rebuilder bob_request bob_snapshot ?found ([], w1) = (Inr b, (?d, w2 w1))"
    using restored [of w1] stat valid
    by (simp add: restore_monolithic_def Let_def eval restore_part_def prog_bind_def fs_wrap_def on_disk_def repo)
  moreover have "rq_account bob_request \<noteq> []" "rq_work_dir bob_request \<noteq> []" by (simp_all add: bob_request_def)
  ultimately obtain b st' where run: "rebuild bob_rebuilder bob_request ([], example_world) = (Inr b, st')"
    using found eval(1, 2) by (auto simp: rebuild_def prog_bind_def)
  from rebuilt_is_of_the_account [OF run] run show ?thesis by (fastforce simp: bob_request_def)
qed

end
