(* ===== verification/Database_Users.thy ===== *)
theory Database_Users
  imports Inventory
begin

text \<open>
  The databases of an account and the logins that reach them, on the live server
  (\<open>internal/cpanel/registry.go\<close>, \<open>internal/cpanel/putback.go\<close>, \<open>internal/cpanel/database_sandbox.go\<close>):
  whose a database is, how a dropped one is made and loaded again, and how its users come back. The
  tools the code starts are a parameter; what they were started with, in order, is the state.
\<close>

section \<open>What cPanel has on record\<close>

text \<open>The \<open>MYSQL\<close> section of an account's record, its maps as the lists of their keys.\<close>

record db_section =
  dm_owner :: string
  dm_dbs :: "string list"
  dm_dbusers :: "string list"
  dm_noprefix :: "string list"

text \<open>
  The files as they are at one moment: the directory of records, the record of an account
  (\<open>None\<close> when it cannot be read or has no such section), and the text of \<open>/etc/dbowners\<close>.
\<close>

record panel_files =
  pf_dir :: "(string \<times> bool) list res"
  pf_section :: "string \<Rightarrow> db_section option"
  pf_owners :: "string option"

fun uniq :: "string list \<Rightarrow> string list" where
  "uniq [] = []"
| "uniq [x] = [x]"
| "uniq (x # y # ys) = (if x = y then uniq (y # ys) else x # uniq (y # ys))"

definition recorded_databases :: "panel_files \<Rightarrow> string \<Rightarrow> (string list \<times> string list) option" where
  "recorded_databases F name =
     (case pf_section F name of
        None \<Rightarrow> None
      | Some s \<Rightarrow>
          if dm_owner s = [] then None
          else if dm_owner s \<noteq> name then None
          else Some (uniq (sort_strings (filter (\<lambda>d. d \<noteq> []) (dm_dbs s) @ filter (\<lambda>d. d \<noteq> []) (dm_noprefix s))),
                     uniq (sort_strings (filter (\<lambda>u. u \<noteq> []) (dm_dbusers s)))))"

definition owner_line :: "string \<Rightarrow> (string \<times> string) option" where
  "owner_line raw =
     (let line = trim_space raw in
      if line = [] \<or> has_prefix line ''#'' then None
      else case cut_at CHR '':'' line of (database, owner, found) \<Rightarrow>
        if \<not> found then None
        else if trim_space database = [] \<or> trim_space owner = [] then None
        else Some (trim_space database, trim_space owner))"

text \<open>Later lines replace earlier ones, so the list is built with the last one in front.\<close>

definition read_db_owners :: "panel_files \<Rightarrow> (string \<rightharpoonup> string) option" where
  "read_db_owners F =
     (case pf_owners F of
        None \<Rightarrow> None
      | Some raw \<Rightarrow>
          let owners = rev (List.map_filter owner_line (split_at nl raw))
          in if owners = [] then None else Some (map_of owners))"

definition owned_databases :: "panel_files \<Rightarrow> string \<Rightarrow> string list \<Rightarrow> string list" where
  "owned_databases F name candidates =
     (case read_db_owners F of
        None \<Rightarrow> candidates
      | Some owners \<Rightarrow> filter (\<lambda>d. \<not> (owners d \<noteq> None \<and> owners d \<noteq> Some name)) candidates)"

section \<open>The tools that are run\<close>

text \<open>
  One process: its arguments with the program first, what it reads, the option file written for it
  and its environment when it does not inherit one.
\<close>

record tool_run =
  tr_args :: "string list"
  tr_stdin :: string
  tr_defaults :: string
  tr_env :: "string list option"

text \<open>How a process ended: its standard output, its standard error, and the error of the run.\<close>

record tool_end =
  te_stdout :: string
  te_stderr :: string
  te_err :: "err option"

type_synonym runs = "tool_run list"
type_synonym 'a tooling = "(runs, 'a) prog"

record panel =
  pn_files :: "runs \<Rightarrow> panel_files"
  pn_end :: "runs \<Rightarrow> tool_run \<Rightarrow> tool_end"
  pn_answer :: "string \<Rightarrow> (int \<times> string list) res"
  pn_dump :: "string \<Rightarrow> (bool \<times> string) res"
  pn_entropy :: "runs \<Rightarrow> string res"
  pn_temp :: "runs \<Rightarrow> string res"
  pn_temp_write :: "string \<Rightarrow> unit res"
  pn_mysql :: string
  pn_uapi :: string
  pn_dbmap :: string

definition start :: "panel \<Rightarrow> tool_run \<Rightarrow> tool_end tooling" where
  "start P t = (\<lambda>ran. (Inr (pn_end P ran t), ran @ [t]))"

definition plain_run :: "string list \<Rightarrow> string \<Rightarrow> tool_run" where
  "plain_run argv stdin = \<lparr>tr_args = argv, tr_stdin = stdin, tr_defaults = [], tr_env = None\<rparr>"

definition mysql :: "panel \<Rightarrow> string" where
  "mysql P = (if pn_mysql P \<noteq> [] then pn_mysql P else ''mysql'')"

definition uapi :: "panel \<Rightarrow> string" where
  "uapi P = (if pn_uapi P \<noteq> [] then pn_uapi P else ''/usr/local/cpanel/bin/uapi'')"

definition db_map_tool :: "panel \<Rightarrow> string" where
  "db_map_tool P = (if pn_dbmap P \<noteq> [] then pn_dbmap P else ''/usr/local/cpanel/bin/dbmaptool'')"

definition last_line :: "string \<Rightarrow> string" where
  "last_line output = trim_space (last (split_at nl (trim_space output)))"

text \<open>\<open>what: last line of the complaint: cause\<close>\<close>

definition tool_failed :: "string \<Rightarrow> tool_end \<Rightarrow> err \<Rightarrow> err" where
  "tool_failed what t e = ErrWrap (what @ '': '' @ last_line (te_stderr t)) e"

section \<open>Whose databases these are\<close>

definition show_databases :: "panel \<Rightarrow> tool_run" where
  "show_databases P = plain_run [mysql P, ''--batch'', ''--skip-column-names'', ''-e'', ''SHOW DATABASES''] []"

definition prefixed :: "string \<Rightarrow> string \<Rightarrow> string list" where
  "prefixed user output = filter (\<lambda>n. n \<noteq> [] \<and> has_prefix n (user @ ''_'')) (map trim_space (split_at nl output))"

definition databases :: "panel \<Rightarrow> string \<Rightarrow> string list tooling" where
  "databases P user = (\<lambda>ran.
     (case recorded_databases (pn_files P ran) user of
        Some (recorded, _) \<Rightarrow> (Inr recorded, ran)
      | None \<Rightarrow> prog_bind (start P (show_databases P)) (\<lambda>t.
          case te_err t of
            Some e \<Rightarrow> prog_fail (tool_failed (''cpanel: list databases for '' @ user) t e)
          | None \<Rightarrow> (\<lambda>ran. (Inr (owned_databases (pn_files P ran) user (prefixed user (te_stdout t))), ran))) ran))"

definition plain_char :: "char \<Rightarrow> bool" where
  "plain_char c \<longleftrightarrow> char_in CHR ''a'' CHR ''z'' c \<or> char_in CHR ''A'' CHR ''Z'' c \<or> char_in CHR ''0'' CHR ''9'' c
     \<or> c = CHR ''_'' \<or> c = CHR ''-''"

definition plain_account_name :: "string \<Rightarrow> bool" where
  "plain_account_name name \<longleftrightarrow> name \<noteq> [] \<and> length name \<le> 32 \<and> list_all plain_char name"

definition plain_database_user :: "string \<Rightarrow> bool" where
  "plain_database_user name = plain_account_name name"

definition lower_char :: "char \<Rightarrow> char" where
  "lower_char c = (if char_in CHR ''A'' CHR ''Z'' c then char_of (of_char c + 32 :: nat) else c)"

text \<open>\<open>strings.ToLower\<close> of the plain names it is applied to.\<close>

definition to_lower :: "string \<Rightarrow> string" where
  "to_lower s = map lower_char s"

definition reserved_database_user :: "string \<Rightarrow> bool" where
  "reserved_database_user name \<longleftrightarrow>
     to_lower name \<in> {''root'', ''mysql.sys'', ''mysql.session'', ''mysql.infoschema'', ''mariadb.sys'', ''mysql'', ''cpanel'', ''cpses''}
     \<or> has_prefix (to_lower name) ''cpses_''"

text \<open>The account and its recorded logins enter the index; a login two accounts claim stops it.\<close>

fun claim_users :: "string \<Rightarrow> string list \<Rightarrow> (string \<rightharpoonup> string) \<Rightarrow> (string \<rightharpoonup> string) res" where
  "claim_users account [] owners = Inr owners"
| "claim_users account (u # us) owners =
     (if owners u \<noteq> None \<and> owners u \<noteq> Some account
      then Inl (ErrMsg ''cpanel: conflicting owners for database user'' [u])
      else claim_users account us (owners(u \<mapsto> account)))"

fun owners_loop :: "panel_files \<Rightarrow> (string \<times> bool) list \<Rightarrow> (string \<rightharpoonup> string) \<Rightarrow> (string \<rightharpoonup> string) res" where
  "owners_loop F [] owners = Inr owners"
| "owners_loop F ((name, folder) # es) owners =
     (if folder \<or> \<not> has_suffix name ''.json'' then owners_loop F es owners
      else let account = trim_suffix name ''.json'' in
        if \<not> plain_account_name account then owners_loop F es owners
        else case recorded_databases F account of
          None \<Rightarrow> Inl (ErrMsg ''cpanel: cannot read database ownership for'' [account])
        | Some (_, users) \<Rightarrow> res_bind (claim_users account (users @ [account]) owners) (owners_loop F es))"

definition database_user_owners :: "panel_files \<Rightarrow> (string \<rightharpoonup> string) res" where
  "database_user_owners F =
     (case pf_dir F of
        Inl e \<Rightarrow> Inl (ErrWrap ''cpanel: read database ownership'' e)
      | Inr entries \<Rightarrow> owners_loop F entries (\<lambda>_. None))"

definition hex_val :: "char \<Rightarrow> nat option" where
  "hex_val c =
     (if char_in CHR ''0'' CHR ''9'' c then Some (of_char c - 48)
      else if char_in CHR ''a'' CHR ''f'' c then Some (of_char c - 87)
      else if char_in CHR ''A'' CHR ''F'' c then Some (of_char c - 55) else None)"

fun hex_decode :: "string \<Rightarrow> string option" where
  "hex_decode [] = Some []"
| "hex_decode [c] = None"
| "hex_decode (a # b # s) =
     (case (hex_val a, hex_val b, hex_decode s) of
        (Some x, Some y, Some t) \<Rightarrow> Some (char_of (16 * x + y) # t)
      | _ \<Rightarrow> None)"

fun server_users_loop :: "string list \<Rightarrow> string list res" where
  "server_users_loop [] = Inr []"
| "server_users_loop (line # lines) =
     (if line = [] then server_users_loop lines
      else case hex_decode (trim_space line) of
        None \<Rightarrow> Inl (ErrMsg ''cpanel: unreadable server database login list'' [])
      | Some name \<Rightarrow> res_bind (server_users_loop lines) (\<lambda>names. Inr (name # names)))"

definition list_logins :: "panel \<Rightarrow> tool_run" where
  "list_logins P = plain_run [mysql P, ''--batch'', ''--skip-column-names'', ''--execute=SELECT DISTINCT HEX(User) FROM mysql.user''] []"

definition server_database_users :: "panel \<Rightarrow> string list tooling" where
  "server_database_users P =
     prog_bind (start P (list_logins P)) (\<lambda>t.
       case te_err t of
         Some e \<Rightarrow> prog_fail (ErrWrap ''cpanel: read server database logins'' e)
       | None \<Rightarrow> prog_lift (res_bind (server_users_loop (split_at nl (trim_space (te_stdout t)))) (\<lambda>names.
           if length names = 0
           then Inl (ErrMsg ''cpanel: server returned no database logins; ownership cannot be verified'' [])
           else Inr names)))"

section \<open>A database that was dropped\<close>

definition backslash :: char where "backslash = CHR 0x5C"
definition tick :: string where "tick = [CHR 0x60]"

text \<open>The name of a database as the pattern a grant takes.\<close>

definition grant_pattern :: "string \<Rightarrow> string" where
  "grant_pattern database = replace_byte CHR ''_'' [backslash, CHR ''_''] database"

definition uapi_refusal :: "panel \<Rightarrow> string \<Rightarrow> unit res" where
  "uapi_refusal P output =
     (case pn_answer P output of
        Inl e \<Rightarrow> Inl (ErrWrap ''cpanel answered something this could not read'' e)
      | Inr (status, errors) \<Rightarrow>
          if status = 1 then Inr ()
          else if length errors > 0 then Inl (ErrMsg (join_with ''; '' errors) [])
          else Inl (ErrMsg ''cpanel refused it without saying why'' []))"

definition refusal_of :: "string \<Rightarrow> unit res \<Rightarrow> unit res" where
  "refusal_of what r = (case r of Inl e \<Rightarrow> Inl (ErrWrap what e) | Inr u \<Rightarrow> Inr u)"

definition create_run :: "panel \<Rightarrow> string \<Rightarrow> string \<Rightarrow> tool_run" where
  "create_run P user database =
     plain_run [uapi P, ''--user='' @ user, ''--output=jsonpretty'', ''Mysql'', ''create_database'', ''name='' @ database] []"

definition create_database :: "panel \<Rightarrow> string \<Rightarrow> string \<Rightarrow> unit tooling" where
  "create_database P user database =
     (if \<not> plain_account_name user then prog_fail (ErrMsg ''cpanel: not a cPanel account name'' [user])
      else prog_bind (prog_lift (usable_database_name database)) (\<lambda>_.
           prog_bind (start P (create_run P user database)) (\<lambda>t.
             case te_err t of
               Some e \<Rightarrow> prog_fail (tool_failed (''cpanel: create the database '' @ database) t e)
             | None \<Rightarrow> prog_lift (refusal_of (''cpanel: create the database '' @ database) (uapi_refusal P (te_stdout t))))))"

definition usable_host_char :: "char \<Rightarrow> bool" where
  "usable_host_char c \<longleftrightarrow> char_in CHR ''a'' CHR ''z'' c \<or> char_in CHR ''A'' CHR ''Z'' c \<or> char_in CHR ''0'' CHR ''9'' c
     \<or> c = CHR ''.'' \<or> c = CHR ''-'' \<or> c = CHR ''_'' \<or> c = CHR '':'' \<or> c = CHR ''%''"

definition usable_database_host :: "string \<Rightarrow> bool" where
  "usable_database_host host \<longleftrightarrow> host \<noteq> [] \<and> length host \<le> 255 \<and> list_all usable_host_char host"

text \<open>Only what says how to reach the server is taken over from root's own settings.\<close>

definition connection_keys :: "string list" where
  "connection_keys =
     [''host'', ''port'', ''socket'', ''protocol'', ''ssl'', ''skip-ssl'', ''ssl-mode'', ''ssl-ca'', ''ssl-capath'', ''ssl-cert'',
      ''ssl-key'', ''ssl-cipher'', ''ssl-crl'', ''ssl-crlpath'', ''ssl-verify-server-cert'', ''tls-version'', ''tls-ciphersuites'',
      ''default-character-set'']"

definition dquote :: char where "dquote = CHR 0x22"

definition option_text :: "string \<Rightarrow> string" where
  "option_text field =
     (case cut_at CHR ''='' (trim_prefix field ''--'') of (key, value, has_value) \<Rightarrow>
        if key \<notin> set connection_keys then []
        else if \<not> has_value then key @ [nl]
        else key @ ''='' @ dquote # replace_byte dquote [backslash, dquote] (replace_byte backslash [backslash, backslash] value) @ [dquote, nl])"

fun options_loop :: "bool \<Rightarrow> string \<Rightarrow> string list \<Rightarrow> string res" where
  "options_loop started text [] = Inr text"
| "options_loop started text (field # fs) =
     (if \<not> has_prefix field ''--''
      then (if started then Inl (ErrMsg ''cpanel: database connection options contain whitespace; cannot safely isolate the import'' [])
            else options_loop started text fs)
      else options_loop True (text @ option_text field) fs)"

definition print_defaults :: "panel \<Rightarrow> tool_run" where
  "print_defaults P = plain_run [mysql P, ''--print-defaults''] []"

definition mysql_connection_options :: "panel \<Rightarrow> string tooling" where
  "mysql_connection_options P =
     prog_bind (start P (print_defaults P)) (\<lambda>t.
       case te_err t of
         Some e \<Rightarrow> prog_fail (ErrWrap ''cpanel: read database connection options'' e)
       | None \<Rightarrow> prog_lift (options_loop False [] (str_fields (te_stdout t))))"

definition peer_run :: "panel \<Rightarrow> tool_run" where
  "peer_run P = plain_run [mysql P, ''--batch'', ''--skip-column-names'',
     ''--execute=SELECT SUBSTRING_INDEX(USER(), '' @ quote # ''@'' @ quote # '', -1)''] []"

definition hex_digit :: "nat \<Rightarrow> char" where
  "hex_digit n = (if n < 10 then char_of (48 + n) else char_of (87 + n))"

definition hex_encode :: "string \<Rightarrow> string" where
  "hex_encode s = concat (map (\<lambda>c. [hex_digit (of_char c div 16), hex_digit (of_char c mod 16)]) s)"

definition admin_run :: "panel \<Rightarrow> string \<Rightarrow> tool_run" where
  "admin_run P statement = plain_run [mysql P, ''--binary-mode'', ''--local-infile=0''] statement"

definition database_admin_sql :: "panel \<Rightarrow> string \<Rightarrow> unit tooling" where
  "database_admin_sql P statement =
     prog_bind (start P (admin_run P statement)) (\<lambda>t. case te_err t of Some e \<Rightarrow> prog_fail e | None \<Rightarrow> prog_return ())"

definition principal :: "string \<Rightarrow> string \<Rightarrow> string" where
  "principal login host = tick @ login @ tick @ ''@'' @ tick @ host @ tick"

definition load_privileges :: string where
  "load_privileges = ''SELECT, INSERT, UPDATE, DELETE, CREATE, DROP, ALTER, INDEX, REFERENCES, LOCK TABLES, CREATE TEMPORARY TABLES''"

definition create_login_sql :: "string \<Rightarrow> string \<Rightarrow> string" where
  "create_login_sql who password = ''CREATE USER '' @ who @ '' IDENTIFIED BY '' @ quote # password @ quote # '';'' @ [nl]"

definition confine_sql :: "string \<Rightarrow> string \<Rightarrow> string" where
  "confine_sql database who = ''GRANT '' @ load_privileges @ '' ON `'' @ grant_pattern database @ ''`.* TO '' @ who @ '';'' @ [nl]"

definition drop_login_sql :: "string \<Rightarrow> string" where
  "drop_login_sql who = ''DROP USER '' @ who @ '';'' @ [nl]"

definition load_run :: "panel \<Rightarrow> string \<Rightarrow> string \<Rightarrow> string \<Rightarrow> string \<Rightarrow> string \<Rightarrow> tool_run" where
  "load_run P dir defaults login database dumped =
     \<lparr>tr_args = [mysql P, ''--defaults-file='' @ join2 dir ''client.cnf'', ''--user='' @ login, ''--binary-mode'', ''--local-infile=0'',
        ''--one-database'', database],
      tr_stdin = dumped, tr_defaults = defaults,
      tr_env = Some [''PATH=/usr/local/sbin:/usr/local/bin:/usr/sbin:/usr/bin:/sbin:/bin'', ''MYSQL_TEST_LOGIN_FILE='' @ join2 dir ''no-login-paths'']\<rparr>"

text \<open>What happens between making the login and dropping it.\<close>

definition load_as :: "panel \<Rightarrow> string \<Rightarrow> string \<Rightarrow> string \<Rightarrow> string \<Rightarrow> string \<Rightarrow> string \<Rightarrow> unit tooling" where
  "load_as P dir defaults login host database dumped =
     (\<lambda>ran. case database_admin_sql P (confine_sql database (principal login host)) ran of
        (Inl e, ran) \<Rightarrow> (Inl (ErrWrap ''cpanel: confine database restore login'' e), ran)
      | (Inr _, ran) \<Rightarrow> prog_bind (start P (load_run P dir defaults login database dumped)) (\<lambda>t.
          case te_err t of
            Some e \<Rightarrow> prog_fail (tool_failed ''cpanel: isolated database import failed (server-wide SQL and definer objects are not allowed)'' t e)
          | None \<Rightarrow> prog_return ()) ran)"

definition drop_login :: "panel \<Rightarrow> string \<Rightarrow> string \<Rightarrow> unit res \<Rightarrow> unit tooling" where
  "drop_login P login host r =
     (\<lambda>ran. case database_admin_sql P (drop_login_sql (principal login host)) ran of
        (Inr _, ran) \<Rightarrow> (r, ran)
      | (Inl e, ran) \<Rightarrow>
          (Inl (ErrWrap (''cpanel: remove isolated restore login '' @ login) (case r of Inl first \<Rightarrow> first | Inr _ \<Rightarrow> e)), ran))"

text \<open>
  Up to the point where the login is made: who connects from where, a random name and password, and
  the option file that holds them.
\<close>

record sandbox =
  sb_login :: string
  sb_host :: string
  sb_password :: string
  sb_dir :: string
  sb_defaults :: string

definition prepare_sandbox :: "panel \<Rightarrow> sandbox tooling" where
  "prepare_sandbox P =
     prog_bind (mysql_connection_options P) (\<lambda>connection.
     prog_bind (start P (peer_run P)) (\<lambda>peer.
     prog_bind (prog_lift (case te_err peer of
         Some e \<Rightarrow> Inl (ErrWrap ''cpanel: determine database client host'' e)
       | None \<Rightarrow> Inr (trim_space (te_stdout peer)))) (\<lambda>host.
     if \<not> usable_database_host host \<or> contains_any host ''%_''
     then prog_fail (ErrMsg ''cpanel: could not identify an exact database client host'' [])
     else prog_bind (\<lambda>ran. (pn_entropy P ran, ran)) (\<lambda>entropy.
       let login = ''cpr_restore_'' @ hex_encode (take 8 entropy); password = hex_encode (drop 8 entropy) in
       prog_bind (\<lambda>ran. (pn_temp P ran, ran)) (\<lambda>dir.
       prog_bind (prog_lift (pn_temp_write P dir)) (\<lambda>_.
       prog_return \<lparr>sb_login = login, sb_host = host, sb_password = password, sb_dir = dir,
         sb_defaults = ''[client]'' @ [nl] @ connection @ ''user='' @ login @ [nl] @ ''password='' @ password @ [nl]\<rparr>))))))"

definition load_in_sandbox :: "panel \<Rightarrow> string \<Rightarrow> string \<Rightarrow> sandbox \<Rightarrow> unit tooling" where
  "load_in_sandbox P database dumped sb =
     (\<lambda>ran. case database_admin_sql P (create_login_sql (principal (sb_login sb) (sb_host sb)) (sb_password sb)) ran of
        (Inl e, ran) \<Rightarrow> (Inl (ErrWrap ''cpanel: create isolated database restore login'' e), ran)
      | (Inr _, ran) \<Rightarrow>
          (case load_as P (sb_dir sb) (sb_defaults sb) (sb_login sb) (sb_host sb) database dumped ran of
             (r, ran) \<Rightarrow> drop_login P (sb_login sb) (sb_host sb) r ran))"

definition load_isolated_database :: "panel \<Rightarrow> string \<Rightarrow> string \<Rightarrow> unit tooling" where
  "load_isolated_database P database dumped = prog_bind (prepare_sandbox P) (load_in_sandbox P database dumped)"

text \<open>\<open>pn_dump\<close> is opening a file: whether it is a regular one, and what it holds.\<close>

definition load_database :: "panel \<Rightarrow> string \<Rightarrow> string \<Rightarrow> string \<Rightarrow> unit tooling" where
  "load_database P user database path =
     prog_bind (prog_lift (usable_database_name database)) (\<lambda>_.
     prog_bind (databases P user) (\<lambda>owned.
       if database \<notin> set owned then prog_fail (ErrMsg ''cpanel: the database does not belong to'' [database, user])
       else case pn_dump P path of
         Inl e \<Rightarrow> prog_fail (ErrWrap ''cpanel: database dump'' e)
       | Inr (regular, dumped) \<Rightarrow>
           if \<not> regular then prog_fail (ErrMsg ''cpanel: database dump is not a file'' [path])
           else load_isolated_database P database dumped))"

section \<open>The users of an account\<close>

record database_grant =
  dg_database :: string
  dg_privileges :: "string list"

record database_user =
  du_name :: string
  du_host :: string
  du_plugin :: string
  du_hash :: string
  du_grants :: "database_grant list"

definition usable_auth_plugin :: "string \<Rightarrow> bool" where
  "usable_auth_plugin plugin \<longleftrightarrow> plugin \<noteq> [] \<and> length plugin \<le> 64 \<and>
     list_all (\<lambda>c. char_in CHR ''a'' CHR ''z'' c \<or> char_in CHR ''0'' CHR ''9'' c \<or> c = CHR ''_'') plugin"

definition usable_auth_hash :: "string \<Rightarrow> bool" where
  "usable_auth_hash hash \<longleftrightarrow> length hash \<le> 4096 \<and> length hash mod 2 = 0 \<and>
     list_all (\<lambda>c. char_in CHR ''0'' CHR ''9'' c \<or> char_in CHR ''a'' CHR ''f'' c \<or> char_in CHR ''A'' CHR ''F'' c) hash"

definition usable_database_privilege :: "string \<Rightarrow> bool" where
  "usable_database_privilege privilege \<longleftrightarrow> privilege \<noteq> [] \<and> length privilege \<le> 64 \<and>
     \<not> has_prefix privilege '' '' \<and> \<not> has_suffix privilege '' '' \<and>
     list_all (\<lambda>c. char_in CHR ''A'' CHR ''Z'' c \<or> c = CHR '' '') privilege"

fun check_privileges :: "string list \<Rightarrow> unit res" where
  "check_privileges [] = Inr ()"
| "check_privileges (p # ps) =
     (if \<not> usable_database_privilege p then Inl (ErrMsg ''cpanel: not a database privilege'' [p]) else check_privileges ps)"

fun check_grants :: "string \<Rightarrow> string list \<Rightarrow> database_grant list \<Rightarrow> unit res" where
  "check_grants user owned [] = Inr ()"
| "check_grants user owned (g # gs) =
     res_bind (usable_database_name (dg_database g)) (\<lambda>_.
       if dg_database g \<notin> set owned then Inl (ErrMsg ''cpanel: the database does not belong to'' [dg_database g, user])
       else res_bind (check_privileges (dg_privileges g)) (\<lambda>_. check_grants user owned gs))"

definition check_database_user :: "string \<Rightarrow> string list \<Rightarrow> (string \<rightharpoonup> string) \<Rightarrow> string list \<Rightarrow> database_user \<Rightarrow> unit res" where
  "check_database_user user owned claimed existing u =
     (let name = du_name u in
      if \<not> plain_database_user name then Inl (ErrMsg ''cpanel: not a database user name'' [name])
      else if reserved_database_user name \<or> name \<in> set existing \<and> claimed name \<noteq> Some user
      then Inl (ErrMsg ''cpanel: a server login not owned by'' [name, user])
      else if claimed name \<noteq> None \<and> claimed name \<noteq> Some user then Inl (ErrMsg ''cpanel: the database user belongs to another'' [name, user])
      else if \<not> usable_database_host (du_host u) then Inl (ErrMsg ''cpanel: not a host a database user can exist on'' [du_host u])
      else if \<not> usable_auth_plugin (du_plugin u) then Inl (ErrMsg ''cpanel: not an authentication plugin'' [du_plugin u])
      else if \<not> usable_auth_hash (du_hash u) then Inl (ErrMsg ''cpanel: the stored password is not readable in this backup'' [name])
      else check_grants user owned (du_grants u))"

fun check_database_users :: "string \<Rightarrow> string list \<Rightarrow> (string \<rightharpoonup> string) \<Rightarrow> string list \<Rightarrow> database_user list \<Rightarrow> unit res" where
  "check_database_users user owned claimed existing [] = Inr ()"
| "check_database_users user owned claimed existing (u # us) =
     res_bind (check_database_user user owned claimed existing u) (\<lambda>_. check_database_users user owned claimed existing us)"

text \<open>The statements that make a login.\<close>

definition identified :: "database_user \<Rightarrow> string" where
  "identified u = ''IDENTIFIED WITH '' @ quote # du_plugin u @ [quote] @ (if du_hash u \<noteq> [] then '' AS 0x'' @ du_hash u else [])"

definition user_sql :: "bool \<Rightarrow> bool \<Rightarrow> database_user \<Rightarrow> string" where
  "user_sql set_password allow_existing u =
     (if allow_existing then ''CREATE USER IF NOT EXISTS '' else ''CREATE USER '') @ principal (du_name u) (du_host u) @ '' '' @ identified u @ '';'' @ [nl] @
     (if set_password then ''ALTER USER '' @ principal (du_name u) (du_host u) @ '' '' @ identified u @ '';'' @ [nl] else [])"

definition write_database_users :: "panel \<Rightarrow> database_user list \<Rightarrow> bool \<Rightarrow> bool \<Rightarrow> unit tooling" where
  "write_database_users P users set_password allow_existing =
     (if length users = 0 then prog_return ()
      else prog_bind (start P (plain_run [mysql P] (concat (map (user_sql set_password allow_existing) users)))) (\<lambda>t.
        case te_err t of
          Some e \<Rightarrow> prog_fail (tool_failed ''cpanel: create the database users'' t e)
        | None \<Rightarrow> prog_return ()))"

definition create_database_users :: "panel \<Rightarrow> database_user list \<Rightarrow> bool \<Rightarrow> unit tooling" where
  "create_database_users P users set_password = write_database_users P users set_password True"

text \<open>\<open>CombinedOutput\<close> is both streams; their interleaving does not matter here.\<close>

definition map_run :: "panel \<Rightarrow> string \<Rightarrow> database_user list \<Rightarrow> tool_run" where
  "map_run P user users =
     plain_run [db_map_tool P, user, ''--type'', ''mysql'', ''--dbusers'', join_with '','' (uniq (sort_strings (map du_name users)))] []"

definition map_database_users :: "panel \<Rightarrow> string \<Rightarrow> database_user list \<Rightarrow> unit tooling" where
  "map_database_users P user users =
     prog_bind (start P (map_run P user users)) (\<lambda>t.
       let report = trim_space (te_stdout t @ te_stderr t) in
       case te_err t of
         Some e \<Rightarrow> prog_fail (ErrWrap (''cpanel: record the database users of '' @ user @ '': '' @ report) e)
       | None \<Rightarrow> if report \<noteq> [] then prog_fail (ErrMsg ''cpanel: record the database users of'' [user, report]) else prog_return ())"

definition privilege_list :: "string \<Rightarrow> database_grant \<Rightarrow> string" where
  "privilege_list sep g = (if length (dg_privileges g) > 0 then join_with sep (dg_privileges g) else ''ALL PRIVILEGES'')"

definition grant_run :: "panel \<Rightarrow> string \<Rightarrow> string \<Rightarrow> database_grant \<Rightarrow> tool_run" where
  "grant_run P user name g =
     plain_run [uapi P, ''--user='' @ user, ''--output=jsonpretty'', ''Mysql'', ''set_privileges_on_database'',
       ''user='' @ name, ''database='' @ dg_database g, ''privileges='' @ privilege_list '','' g] []"

fun grants_of_user :: "panel \<Rightarrow> string \<Rightarrow> string \<Rightarrow> database_grant list \<Rightarrow> unit tooling" where
  "grants_of_user P user name [] = prog_return ()"
| "grants_of_user P user name (g # gs) =
     prog_bind (start P (grant_run P user name g)) (\<lambda>t.
       let what = ''cpanel: grant '' @ name @ '' on '' @ dg_database g in
       case te_err t of
         Some e \<Rightarrow> prog_fail (tool_failed what t e)
       | None \<Rightarrow> prog_bind (prog_lift (refusal_of what (uapi_refusal P (te_stdout t)))) (\<lambda>_. grants_of_user P user name gs))"

fun grant_database_users :: "panel \<Rightarrow> string \<Rightarrow> database_user list \<Rightarrow> unit tooling" where
  "grant_database_users P user [] = prog_return ()"
| "grant_database_users P user (u # us) =
     prog_bind (grants_of_user P user (du_name u) (du_grants u)) (\<lambda>_. grant_database_users P user us)"

definition owner_grant_sql :: "database_user \<Rightarrow> database_grant \<Rightarrow> string" where
  "owner_grant_sql u g =
     ''GRANT '' @ privilege_list '', '' g @ '' ON `'' @ grant_pattern (dg_database g) @ ''`.* TO '' @ principal (du_name u) (du_host u) @ '';'' @ [nl]"

definition owner_script :: "database_user list \<Rightarrow> string" where
  "owner_script owner = concat (map (\<lambda>u. concat (map (owner_grant_sql u) (du_grants u))) owner)"

definition grant_owner_databases :: "panel \<Rightarrow> database_user list \<Rightarrow> unit tooling" where
  "grant_owner_databases P owner =
     (if length (owner_script owner) = 0 then prog_return ()
      else prog_bind (start P (plain_run [mysql P] (owner_script owner))) (\<lambda>t.
        case te_err t of
          Some e \<Rightarrow> prog_fail (tool_failed (''cpanel: grant the account'' @ quote # ''s own database user'') t e)
        | None \<Rightarrow> prog_return ()))"

text \<open>\<open>PutDatabaseUsers\<close>: what is asked and checked first, then what is written.\<close>

definition preflight :: "panel \<Rightarrow> string \<Rightarrow> database_user list \<Rightarrow> string list tooling" where
  "preflight P user users =
     (if \<not> plain_account_name user then prog_fail (ErrMsg ''cpanel: not a cPanel account name'' [user])
      else if length users = 0 then prog_fail (ErrMsg ''cpanel: no database user was named to restore'' [])
      else prog_bind (databases P user) (\<lambda>owned.
           prog_bind (\<lambda>ran. (database_user_owners (pn_files P ran), ran)) (\<lambda>claimed.
             if claimed user \<noteq> Some user then prog_fail (ErrMsg ''cpanel: cannot establish database ownership for'' [user])
             else prog_bind (server_database_users P) (\<lambda>existing.
               prog_bind (prog_lift (check_database_users user owned claimed existing users)) (\<lambda>_. prog_return existing)))))"

definition write_users :: "panel \<Rightarrow> string \<Rightarrow> database_user list \<Rightarrow> string list \<Rightarrow> unit tooling" where
  "write_users P user users existing =
     (let owner = filter (\<lambda>u. du_name u = user) users;
          mapped = filter (\<lambda>u. du_name u \<noteq> user) users;
          known = filter (\<lambda>u. du_name u \<in> set existing) mapped;
          fresh = filter (\<lambda>u. du_name u \<notin> set existing) mapped in
      prog_bind (create_database_users P owner False) (\<lambda>_.
      prog_bind (write_database_users P fresh False False) (\<lambda>_.
      prog_bind (create_database_users P known True) (\<lambda>_.
      prog_bind (if length mapped > 0
                 then prog_bind (map_database_users P user mapped) (\<lambda>_. grant_database_users P user mapped)
                 else prog_return ()) (\<lambda>_.
      grant_owner_databases P owner)))))"

definition put_database_users :: "panel \<Rightarrow> string \<Rightarrow> database_user list \<Rightarrow> unit tooling" where
  "put_database_users P user users = prog_bind (preflight P user users) (write_users P user users)"

section \<open>Everything is checked before anything is written\<close>

text \<open>A program that starts only processes of one sort, whatever they answer.\<close>

definition starts_only :: "(tool_run \<Rightarrow> bool) \<Rightarrow> 'a tooling \<Rightarrow> bool" where
  "starts_only Q m \<longleftrightarrow> (\<forall>ran. \<exists>new. snd (m ran) = ran @ new \<and> list_all Q new)"

lemma starts_only_basic [simp, intro]:
  "starts_only Q (prog_return a)" "starts_only Q (prog_fail e)" "starts_only Q (prog_lift r)"
  by (simp_all add: starts_only_def)

lemma starts_only_start [intro]: "Q t \<Longrightarrow> starts_only Q (start P t)"
  by (simp add: starts_only_def start_def)

lemma starts_only_bind [intro]:
  assumes "starts_only Q m" "\<And>a. starts_only Q (f a)"
  shows "starts_only Q (prog_bind m f)"
proof (unfold starts_only_def, intro allI)
  fix ran
  from assms(1) obtain new where new: "snd (m ran) = ran @ new" "list_all Q new" by (auto simp: starts_only_def)
  show "\<exists>new. snd (prog_bind m f ran) = ran @ new \<and> list_all Q new"
  proof (cases "m ran")
    case (Pair r s)
    show ?thesis
    proof (cases r)
      case (Inl e)
      with Pair new show ?thesis by simp
    next
      case (Inr a)
      obtain more' where "snd (f a s) = s @ more'" "list_all Q more'" using assms(2) [of a] by (auto simp: starts_only_def)
      with Inr Pair new show ?thesis by (intro exI [of _ "new @ more'"]) simp
    qed
  qed
qed

lemma starts_only_if [intro]: "starts_only Q m \<Longrightarrow> starts_only Q m' \<Longrightarrow> starts_only Q (if b then m else m')"
  by simp

lemma starts_only_option [intro]:
  "(\<And>e. starts_only Q (f e)) \<Longrightarrow> starts_only Q m \<Longrightarrow> starts_only Q (case x of Some e \<Rightarrow> f e | None \<Rightarrow> m)"
  by (cases x) auto

lemma starts_onlyD: "starts_only Q m \<Longrightarrow> m st = (r, st') \<Longrightarrow> \<exists>new. st' = st @ new \<and> list_all Q new"
  unfolding starts_only_def by (metis snd_conv)

text \<open>What writing the users may start, each part of it about users of the request.\<close>

inductive about_users :: "panel \<Rightarrow> string \<Rightarrow> database_user list \<Rightarrow> string list \<Rightarrow> tool_run \<Rightarrow> bool" for P user users existing where
  logins: "set us \<subseteq> set users \<Longrightarrow> (pw \<Longrightarrow> \<forall>u\<in>set us. du_name u \<noteq> user \<and> du_name u \<in> set existing) \<Longrightarrow>
    about_users P user users existing (plain_run [mysql P] (concat (map (user_sql pw old) us)))"
| owner: "set us \<subseteq> set users \<Longrightarrow> \<forall>u\<in>set us. du_name u = user \<Longrightarrow> about_users P user users existing (plain_run [mysql P] (owner_script us))"
| recorded: "set us \<subseteq> set users \<Longrightarrow> about_users P user users existing (map_run P user us)"
| granted: "u \<in> set users \<Longrightarrow> g \<in> set (du_grants u) \<Longrightarrow> about_users P user users existing (grant_run P user (du_name u) g)"

lemma write_database_users_about:
  "set us \<subseteq> set users \<Longrightarrow> (pw \<Longrightarrow> \<forall>u\<in>set us. du_name u \<noteq> user \<and> du_name u \<in> set existing) \<Longrightarrow>
     starts_only (about_users P user users existing) (write_database_users P us pw old)"
  unfolding write_database_users_def
  by (intro starts_only_if starts_only_bind starts_only_start starts_only_option starts_only_basic about_users.logins)

lemma grants_of_user_about:
  "set gs \<subseteq> set (du_grants u) \<Longrightarrow> u \<in> set users \<Longrightarrow> starts_only (about_users P user users existing) (grants_of_user P user (du_name u) gs)"
proof (induction gs)
  case (Cons g gs)
  then have "about_users P user users existing (grant_run P user (du_name u) g)" by (intro about_users.granted) auto
  with Cons show ?case
    unfolding grants_of_user.simps Let_def
    by (intro starts_only_bind starts_only_start starts_only_option starts_only_basic) auto
qed simp

lemma grant_database_users_about:
  "set us \<subseteq> set users \<Longrightarrow> starts_only (about_users P user users existing) (grant_database_users P user us)"
proof (induction us)
  case (Cons u us)
  then show ?case unfolding grant_database_users.simps by (intro starts_only_bind grants_of_user_about) auto
qed simp

lemma map_database_users_about: "set us \<subseteq> set users \<Longrightarrow> starts_only (about_users P user users existing) (map_database_users P user us)"
  unfolding map_database_users_def Let_def
  by (intro starts_only_if starts_only_bind starts_only_start starts_only_option starts_only_basic about_users.recorded)

lemma grant_owner_databases_about:
  "set us \<subseteq> set users \<Longrightarrow> \<forall>u\<in>set us. du_name u = user \<Longrightarrow> starts_only (about_users P user users existing) (grant_owner_databases P us)"
  unfolding grant_owner_databases_def
  by (intro starts_only_if starts_only_bind starts_only_start starts_only_option starts_only_basic about_users.owner)

lemma write_users_about: "starts_only (about_users P user users existing) (write_users P user users existing)"
  unfolding write_users_def Let_def create_database_users_def
  by (intro starts_only_bind starts_only_if write_database_users_about map_database_users_about grant_database_users_about
      grant_owner_databases_about starts_only_basic) auto

definition asks :: "panel \<Rightarrow> tool_run \<Rightarrow> bool" where
  "asks P t \<longleftrightarrow> t = show_databases P \<or> t = list_logins P"

lemma databases_asks: "starts_only (asks P) (databases P user)"
proof -
  have here: "starts_only (asks P) (\<lambda>ran. (Inr (f ran), ran))" for f :: "runs \<Rightarrow> string list"
    by (simp add: starts_only_def)
  have "starts_only (asks P) (prog_bind (start P (show_databases P)) (\<lambda>t.
          case te_err t of
            Some e \<Rightarrow> prog_fail (tool_failed (''cpanel: list databases for '' @ user) t e)
          | None \<Rightarrow> (\<lambda>ran. (Inr (owned_databases (pn_files P ran) user (prefixed user (te_stdout t))), ran))))"
    by (intro starts_only_bind starts_only_start starts_only_option here starts_only_basic) (simp add: asks_def)
  then show ?thesis by (auto simp: starts_only_def databases_def split: option.splits)
qed

lemma server_database_users_asks: "starts_only (asks P) (server_database_users P)"
  unfolding server_database_users_def by (intro starts_only_bind starts_only_start starts_only_option starts_only_basic) (simp add: asks_def)

lemma preflight_asks: "starts_only (asks P) (preflight P user users)"
  unfolding preflight_def
  by (intro starts_only_if starts_only_bind databases_asks server_database_users_asks starts_only_basic) (simp add: starts_only_def)

text \<open>A user that may be written: the login is the account's or nobody's, and so are its grants.\<close>

definition acceptable :: "string \<Rightarrow> string list \<Rightarrow> (string \<rightharpoonup> string) \<Rightarrow> string list \<Rightarrow> database_user \<Rightarrow> bool" where
  "acceptable user owned claimed existing u \<longleftrightarrow>
     plain_account_name (du_name u) \<and> \<not> reserved_database_user (du_name u) \<and>
     (claimed (du_name u) = Some user \<or> claimed (du_name u) = None \<and> du_name u \<notin> set existing) \<and>
     usable_database_host (du_host u) \<and> usable_auth_plugin (du_plugin u) \<and> usable_auth_hash (du_hash u) \<and>
     (\<forall>g\<in>set (du_grants u). dg_database g \<in> set owned \<and> usable_database_name (dg_database g) = Inr () \<and>
        list_all usable_database_privilege (dg_privileges g))"

lemma check_privileges_iff: "check_privileges ps = Inr () \<longleftrightarrow> list_all usable_database_privilege ps"
  by (induction ps) auto

lemma check_grants_iff:
  "check_grants user owned gs = Inr () \<longleftrightarrow>
     (\<forall>g\<in>set gs. dg_database g \<in> set owned \<and> usable_database_name (dg_database g) = Inr () \<and>
        list_all usable_database_privilege (dg_privileges g))"
  by (induction gs) (auto simp: res_bind_eq_Inr check_privileges_iff)

lemma check_database_user_iff: "check_database_user user owned claimed existing u = Inr () \<longleftrightarrow> acceptable user owned claimed existing u"
  by (auto simp: check_database_user_def acceptable_def plain_database_user_def check_grants_iff Let_def)

lemma check_database_users_iff:
  "check_database_users user owned claimed existing us = Inr () \<longleftrightarrow> list_all (acceptable user owned claimed existing) us"
  by (induction us) (auto simp: res_bind_eq_Inr check_database_user_iff)

lemma preflight_passed:
  assumes "preflight P user users st = (Inr existing, st')"
  obtains owned claimed st1 where "databases P user st = (Inr owned, st1)" "database_user_owners (pn_files P st1) = Inr claimed"
    "server_database_users P st1 = (Inr existing, st')" "list_all (acceptable user owned claimed existing) users" "users \<noteq> []"
  using assms
  by (auto simp: preflight_def prog_bind_eq_Inr check_database_users_iff split: if_splits)

text \<open>
  C7. Putting database users back asks first and writes afterwards: when anything at all is written,
  every user of the request had passed every check against what the server said, each login is the
  account's own or nobody's, each grant is on a database the account has, every process that writes is
  about users of the request, and a password is only ever set for a login that exists and is this
  account's by cPanel's record, never for the account's own.
\<close>

theorem users_checked_before_written:
  assumes "put_database_users P user users st = (r, st')"
  shows "\<exists>asked written. st' = st @ asked @ written \<and> list_all (asks P) asked \<and>
    (written = [] \<or> (\<exists>owned claimed existing st1.
       databases P user st = (Inr owned, st1) \<and> database_user_owners (pn_files P st1) = Inr claimed \<and>
       server_database_users P st1 = (Inr existing, st @ asked) \<and>
       list_all (acceptable user owned claimed existing) users \<and>
       list_all (about_users P user users existing) written))"
proof (cases "preflight P user users st")
  case (Pair checked st2)
  obtain asked where asked: "st2 = st @ asked" "list_all (asks P) asked"
    using starts_onlyD [OF preflight_asks Pair] by blast
  show ?thesis
  proof (cases checked)
    case (Inl e)
    with Pair assms have "st' = st2" by (simp add: put_database_users_def)
    with asked show ?thesis by (intro exI [of _ asked] exI [of _ "[]"]) simp
  next
    case (Inr existing)
    with Pair have pre: "preflight P user users st = (Inr existing, st2)" by simp
    then have "write_users P user users existing st2 = (r, st')" using assms by (simp add: put_database_users_def)
    then obtain written where written: "st' = st2 @ written" "list_all (about_users P user users existing) written"
      using starts_onlyD [OF write_users_about] by blast
    from pre obtain owned claimed st1 where "databases P user st = (Inr owned, st1)" "database_user_owners (pn_files P st1) = Inr claimed"
      "server_database_users P st1 = (Inr existing, st2)" "list_all (acceptable user owned claimed existing) users"
      by (rule preflight_passed)
    with written asked show ?thesis by (intro exI [of _ asked] exI [of _ written]) auto
  qed
qed

section \<open>What the statements say\<close>

text \<open>
  MySQL's reading of the statements this package writes: words, names in backticks and texts in
  quotes (a doubled delimiter stands for itself), and the marks between them. Anything else, a
  comment for one, is not read at all.
\<close>

datatype sql_token = Word string | Name string | Literal string | Mark char

datatype sql_mode = Between string | InName string | AfterName string | InText string | AfterText string

definition word_char :: "char \<Rightarrow> bool" where
  "word_char c \<longleftrightarrow> char_in CHR ''a'' CHR ''z'' c \<or> char_in CHR ''A'' CHR ''Z'' c \<or> char_in CHR ''0'' CHR ''9'' c"

definition flush :: "string \<Rightarrow> sql_token list" where
  "flush w = (if w = [] then [] else [Word w])"

text \<open>One character between names and texts: the tokens it ends, and the mode after it.\<close>

definition plain_step :: "string \<Rightarrow> char \<Rightarrow> (sql_token list \<times> sql_mode) option" where
  "plain_step w c =
     (if word_char c then Some ([], Between (w @ [c]))
      else if c = CHR '' '' \<or> c = nl then Some (flush w, Between [])
      else if c = CHR 0x60 then Some (flush w, InName [])
      else if c = quote then Some (flush w, InText [])
      else if c \<in> set '',;.*@'' then Some (flush w @ [Mark c], Between [])
      else None)"

definition prepend :: "sql_token list \<Rightarrow> sql_token list option \<Rightarrow> sql_token list option" where
  "prepend ts x = map_option ((@) ts) x"

fun sql_lex :: "sql_mode \<Rightarrow> string \<Rightarrow> sql_token list option" where
  "sql_lex (Between w) [] = Some (flush w)"
| "sql_lex (AfterName w) [] = Some [Name w]"
| "sql_lex (AfterText w) [] = Some [Literal w]"
| "sql_lex _ [] = None"
| "sql_lex (Between w) (c # cs) =
     (case plain_step w c of None \<Rightarrow> None | Some (ts, m) \<Rightarrow> prepend ts (sql_lex m cs))"
| "sql_lex (InName w) (c # cs) = (if c = CHR 0x60 then sql_lex (AfterName w) cs else sql_lex (InName (w @ [c])) cs)"
| "sql_lex (AfterName w) (c # cs) =
     (if c = CHR 0x60 then sql_lex (InName (w @ [c])) cs
      else case plain_step [] c of None \<Rightarrow> None | Some (ts, m) \<Rightarrow> prepend (Name w # ts) (sql_lex m cs))"
| "sql_lex (InText w) (c # cs) =
     (if c = backslash then None
      else if c = quote then sql_lex (AfterText w) cs else sql_lex (InText (w @ [c])) cs)"
| "sql_lex (AfterText w) (c # cs) =
     (if c = quote then sql_lex (InText (w @ [c])) cs
      else case plain_step [] c of None \<Rightarrow> None | Some (ts, m) \<Rightarrow> prepend (Literal w # ts) (sql_lex m cs))"

definition sql_tokens :: "string \<Rightarrow> sql_token list option" where
  "sql_tokens s = sql_lex (Between []) s"

lemma lex_in_name: "CHR 0x60 \<notin> set n \<Longrightarrow> sql_lex (InName w) (n @ CHR 0x60 # cs) = sql_lex (AfterName (w @ n)) cs"
  by (induction n arbitrary: w) auto

lemma lex_in_text:
  "quote \<notin> set n \<Longrightarrow> backslash \<notin> set n \<Longrightarrow> sql_lex (InText w) (n @ quote # cs) = sql_lex (AfterText (w @ n)) cs"
  by (induction n arbitrary: w) (auto simp: quote_def backslash_def)

lemma plain_step_simps [simp]:
  "plain_step w CHR 0x60 = Some (flush w, InName [])" "plain_step w CHR 0x27 = Some (flush w, InText [])"
  "plain_step w CHR '' '' = Some (flush w, Between [])" "plain_step w nl = Some (flush w, Between [])"
  "plain_step w CHR '','' = Some (flush w @ [Mark CHR '',''], Between [])" "plain_step w CHR '';'' = Some (flush w @ [Mark CHR '';''], Between [])"
  "plain_step w CHR ''.'' = Some (flush w @ [Mark CHR ''.''], Between [])" "plain_step w CHR ''*'' = Some (flush w @ [Mark CHR ''*''], Between [])"
  "plain_step w CHR ''@'' = Some (flush w @ [Mark CHR ''@''], Between [])"
  by (simp_all add: plain_step_def word_char_def char_in_def quote_def nl_def)

lemma plain_step_word [simp]: "word_char c \<Longrightarrow> plain_step w c = Some ([], Between (w @ [c]))"
  by (simp add: plain_step_def)

lemma flush_simps [simp]: "flush [] = []" "flush (c # w) = [Word (c # w)]"
  by (simp_all add: flush_def)

lemma prepend_simps [simp]: "prepend [] x = x" "prepend xs (prepend ys x) = prepend (xs @ ys) x" "prepend xs (Some ys) = Some (xs @ ys)" "prepend xs None = None"
  by (cases x; simp add: prepend_def)+

text \<open>A run of words, ended by a character that ends a word.\<close>

fun words_from :: "string \<Rightarrow> string \<Rightarrow> sql_token list" where
  "words_from w [] = flush w"
| "words_from w (c # cs) = (if c = CHR '' '' then flush w @ words_from [] cs else words_from (w @ [c]) cs)"

lemma lex_words:
  assumes "list_all (\<lambda>c. word_char c \<or> c = CHR '' '') p" "c \<in> {CHR '' '', CHR '','', CHR '';''}"
  shows "sql_lex (Between w) (p @ c # cs) = prepend (words_from w p) (sql_lex (Between []) (c # cs))"
  using assms(1)
proof (induction p arbitrary: w)
  case Nil
  show ?case using assms(2) by auto
next
  case (Cons x p)
  show ?case
  proof (cases "x = CHR '' ''")
    case True
    with Cons show ?thesis by simp
  next
    case False
    with Cons have "word_char x" by simp
    with Cons False show ?thesis by simp
  qed
qed

lemma words_from_word: "list_all word_char h \<Longrightarrow> w @ h \<noteq> [] \<Longrightarrow> words_from w h = [Word (w @ h)]"
  by (induction h arbitrary: w) (auto simp: flush_def word_char_def char_in_def)

lemma word_chars:
  "word_char c \<longleftrightarrow> c \<in> set ''abcdefghijklmnopqrstuvwxyzABCDEFGHIJKLMNOPQRSTUVWXYZ0123456789''" if "c \<in> set ''abcdefghijklmnopqrstuvwxyzABCDEFGHIJKLMNOPQRSTUVWXYZ0123456789''"
  using that by (auto simp: word_char_def char_in_def)

definition login_tokens :: "database_user \<Rightarrow> sql_token list" where
  "login_tokens u = [Name (du_name u), Mark CHR ''@'', Name (du_host u)]"

definition password_tokens :: "database_user \<Rightarrow> sql_token list" where
  "password_tokens u = [Word ''IDENTIFIED'', Word ''WITH'', Literal (du_plugin u)] @
     (if du_hash u \<noteq> [] then [Word ''AS'', Word (''0x'' @ du_hash u)] else [])"

definition user_tokens :: "bool \<Rightarrow> bool \<Rightarrow> database_user \<Rightarrow> sql_token list" where
  "user_tokens pw old u =
     [Word ''CREATE'', Word ''USER''] @ (if old then [Word ''IF'', Word ''NOT'', Word ''EXISTS''] else []) @
     login_tokens u @ password_tokens u @ [Mark CHR '';''] @
     (if pw then [Word ''ALTER'', Word ''USER''] @ login_tokens u @ password_tokens u @ [Mark CHR '';''] else [])"

fun separated_tokens :: "string list \<Rightarrow> sql_token list" where
  "separated_tokens [] = []"
| "separated_tokens [p] = words_from [] p"
| "separated_tokens (p # q # ps) = words_from [] p @ Mark CHR '','' # separated_tokens (q # ps)"

definition privilege_tokens :: "database_grant \<Rightarrow> sql_token list" where
  "privilege_tokens g = (if dg_privileges g = [] then [Word ''ALL'', Word ''PRIVILEGES''] else separated_tokens (dg_privileges g))"

definition grant_tokens :: "database_user \<Rightarrow> database_grant \<Rightarrow> sql_token list" where
  "grant_tokens u g =
     Word ''GRANT'' # privilege_tokens g @
     [Word ''ON'', Name (grant_pattern (dg_database g)), Mark CHR ''.'', Mark CHR ''*'', Word ''TO''] @ login_tokens u @ [Mark CHR '';'']"

text \<open>What passed its check has none of the characters that end a name or a text.\<close>

lemma plain_char_harmless: "plain_char c \<Longrightarrow> c \<noteq> CHR 0x60"
  by (auto simp: plain_char_def char_in_def)

lemma host_char_harmless: "usable_host_char c \<Longrightarrow> c \<noteq> CHR 0x60"
  by (auto simp: usable_host_char_def char_in_def)

lemma acceptable_login:
  assumes "acceptable user owned claimed existing u"
  shows "CHR 0x60 \<notin> set (du_name u)" "CHR 0x60 \<notin> set (du_host u)" "quote \<notin> set (du_plugin u)" "backslash \<notin> set (du_plugin u)"
    "list_all word_char (du_hash u)"
proof -
  from assms show "CHR 0x60 \<notin> set (du_name u)" "CHR 0x60 \<notin> set (du_host u)"
    using plain_char_harmless host_char_harmless by (auto simp: acceptable_def plain_account_name_def usable_database_host_def list_all_iff)
  from assms show "quote \<notin> set (du_plugin u)" "backslash \<notin> set (du_plugin u)"
    by (auto simp: acceptable_def usable_auth_plugin_def list_all_iff quote_def backslash_def char_in_def)
  from assms show "list_all word_char (du_hash u)"
    by (auto simp: acceptable_def usable_auth_hash_def list_all_iff word_char_def char_in_def)
qed

lemma lex_login:
  assumes "CHR 0x60 \<notin> set n" "CHR 0x60 \<notin> set h" "c \<noteq> CHR 0x60"
  shows "sql_lex (Between []) (principal n h @ c # cs) = prepend ([Name n, Mark CHR ''@'', Name h]) (sql_lex (Between []) (c # cs))"
  using assms(3) by (simp add: principal_def tick_def lex_in_name [OF assms(1)] lex_in_name [OF assms(2)] split: option.splits prod.splits)

lemma lex_identified:
  assumes "acceptable user owned claimed existing u"
  shows "sql_lex (Between []) (identified u @ CHR '';'' # cs) = prepend ((password_tokens u @ [Mark CHR '';''])) (sql_lex (Between []) cs)"
proof -
  note ok = acceptable_login [OF assms]
  have hash: "sql_lex (Between ''0x'') (du_hash u @ CHR '';'' # cs) = prepend ([Word (''0x'' @ du_hash u), Mark CHR '';'']) (sql_lex (Between []) cs)"
    using ok(5) by (subst lex_words) (auto simp: list_all_iff words_from_word)
  show ?thesis
    by (simp add: identified_def quote_def word_char_def char_in_def password_tokens_def hash
        lex_in_text [OF ok(3,4), unfolded quote_def])
qed

lemma lex_user:
  assumes "acceptable user owned claimed existing u"
  shows "sql_lex (Between []) (user_sql pw old u @ cs) = prepend (user_tokens pw old u) (sql_lex (Between []) cs)"
proof -
  note ok = acceptable_login [OF assms]
  have one: "sql_lex (Between []) (principal (du_name u) (du_host u) @ CHR '' '' # identified u @ CHR '';'' # rest) =
      prepend (login_tokens u @ password_tokens u @ [Mark CHR '';'']) (sql_lex (Between []) rest)" for rest
    by (subst lex_login [OF ok(1,2)]) (simp_all add: lex_identified [OF assms] login_tokens_def)
  show ?thesis by (simp add: user_sql_def user_tokens_def word_char_def char_in_def one)
qed

lemma lex_users:
  "list_all (acceptable user owned claimed existing) us \<Longrightarrow>
     sql_lex (Between []) (concat (map (user_sql pw old) us)) = Some (concat (map (user_tokens pw old) us))"
  by (induction us) (simp_all add: lex_user [of user owned claimed existing])

lemma privilege_words: "usable_database_privilege p \<Longrightarrow> list_all (\<lambda>c. word_char c \<or> c = CHR '' '') p"
  by (auto simp: usable_database_privilege_def list_all_iff word_char_def)

lemma lex_privileges:
  "list_all usable_database_privilege ps \<Longrightarrow> ps \<noteq> [] \<Longrightarrow>
     sql_lex (Between []) (join_with '', '' ps @ CHR '' '' # cs) = prepend (separated_tokens ps) (sql_lex (Between []) cs)"
proof (induction ps rule: separated_tokens.induct)
  case (2 p)
  then show ?case by (simp add: lex_words privilege_words)
next
  case (3 p q ps)
  then show ?case by (simp add: lex_words privilege_words)
qed simp

lemma usable_name_char: "usable_database_name d = Inr () \<Longrightarrow> c \<in> set d \<Longrightarrow> usable_database_char c"
  by (auto simp: usable_database_name_def list_all_iff split: if_splits)

lemma grant_pattern_harmless:
  assumes "usable_database_name d = Inr ()"
  shows "CHR 0x60 \<notin> set (grant_pattern d)"
proof -
  have "\<not> usable_database_char CHR 0x60" by (simp add: usable_database_char_def char_in_def)
  with usable_name_char [OF assms] show ?thesis
    by (auto simp: grant_pattern_def replace_byte_def backslash_def split: if_splits)
qed

lemma lex_grant:
  assumes "acceptable user owned claimed existing u" "g \<in> set (du_grants u)"
  shows "sql_lex (Between []) (owner_grant_sql u g @ cs) = prepend (grant_tokens u g) (sql_lex (Between []) cs)"
proof -
  note ok = acceptable_login [OF assms(1)]
  from assms have g: "usable_database_name (dg_database g) = Inr ()" "list_all usable_database_privilege (dg_privileges g)"
    by (auto simp: acceptable_def)
  have privileges: "sql_lex (Between []) (privilege_list '', '' g @ CHR '' '' # rest) = prepend (privilege_tokens g) (sql_lex (Between []) rest)" for rest
    using lex_privileges [OF g(2)] by (auto simp: privilege_list_def privilege_tokens_def word_char_def char_in_def)
  show ?thesis
    by (simp add: owner_grant_sql_def grant_tokens_def word_char_def char_in_def privileges lex_in_name [OF grant_pattern_harmless [OF g(1)]]
        lex_login [OF ok(1,2)] login_tokens_def)
qed

lemma lex_grants:
  "acceptable user owned claimed existing u \<Longrightarrow> set gs \<subseteq> set (du_grants u) \<Longrightarrow>
     sql_lex (Between []) (concat (map (owner_grant_sql u) gs) @ cs) = prepend (concat (map (grant_tokens u) gs)) (sql_lex (Between []) cs)"
  by (induction gs) (simp_all add: lex_grant [of user owned claimed existing])

lemma lex_owner:
  "list_all (acceptable user owned claimed existing) us \<Longrightarrow>
     sql_lex (Between []) (owner_script us) = Some (concat (map (\<lambda>u. concat (map (grant_tokens u) (du_grants u))) us))"
  by (induction us) (auto simp: owner_script_def lex_grants [of user owned claimed existing])

lemma grant_pattern_unescapes:
  "list_all usable_database_char d \<Longrightarrow> unescape_grant_database (grant_pattern d) = Some d"
proof (induction d)
  case (Cons c d)
  have "c \<noteq> CHR 0x5C" "c \<noteq> CHR ''%''" using Cons.prems by (auto simp: usable_database_char_def char_in_def)
  with Cons show ?case by (simp add: grant_pattern_def backslash_def)
qed (simp add: grant_pattern_def)

text \<open>
  C20. MySQL reads the scripts written for checked users as exactly the statements meant, one after the
  other, whatever the names, hosts, hashes and privileges in the backup are, and the pattern of each
  grant matches the one database it is for and no other.
\<close>

theorem statements_say_what_was_checked:
  assumes "list_all (acceptable user owned claimed existing) us"
  shows "sql_tokens (concat (map (user_sql pw old) us)) = Some (concat (map (user_tokens pw old) us)) \<and>
    sql_tokens (owner_script us) = Some (concat (map (\<lambda>u. concat (map (grant_tokens u) (du_grants u))) us)) \<and>
    (\<forall>u\<in>set us. \<forall>g\<in>set (du_grants u). \<forall>m. like (grant_pattern (dg_database g)) m \<longleftrightarrow> m = dg_database g)"
proof (intro conjI ballI)
  fix u g assume "u \<in> set us" "g \<in> set (du_grants u)"
  with assms have "usable_database_name (dg_database g) = Inr ()" by (auto simp: list_all_iff acceptable_def)
  then have "list_all usable_database_char (dg_database g)" by (auto simp: list_all_iff usable_name_char)
  from like_literal [OF grant_pattern_unescapes [OF this]] show "\<forall>m. like (grant_pattern (dg_database g)) m \<longleftrightarrow> m = dg_database g" by blast
qed (simp_all add: sql_tokens_def lex_users [OF assms] lex_owner [OF assms])

section \<open>A dump is only ever run as a login of its own\<close>

lemma hex_digit_word: "n < 16 \<Longrightarrow> word_char (hex_digit n)"
  by (auto simp: hex_digit_def word_char_def char_in_def)

lemma hex_encode_words: "c \<in> set (hex_encode s) \<Longrightarrow> word_char c"
  by (auto simp: hex_encode_def intro!: hex_digit_word div_less_iff_less_mult [THEN iffD2])

lemma word_not_special: "word_char c \<Longrightarrow> c \<noteq> CHR 0x60 \<and> c \<noteq> quote \<and> c \<noteq> backslash"
  by (auto simp: word_char_def char_in_def quote_def backslash_def)

text \<open>The three statements root runs around a dump, as MySQL reads them.\<close>

definition statement_tokens :: "string \<Rightarrow> string \<Rightarrow> string \<Rightarrow> string \<Rightarrow> sql_token list list" where
  "statement_tokens database login host password =
     (let who = [Name login, Mark CHR ''@'', Name host] in
      [[Word ''CREATE'', Word ''USER''] @ who @ [Word ''IDENTIFIED'', Word ''BY'', Literal password, Mark CHR '';''],
       Word ''GRANT'' # separated_tokens [''SELECT'', ''INSERT'', ''UPDATE'', ''DELETE'', ''CREATE'', ''DROP'', ''ALTER'', ''INDEX'', ''REFERENCES'',
         ''LOCK TABLES'', ''CREATE TEMPORARY TABLES''] @ [Word ''ON'', Name (grant_pattern database), Mark CHR ''.'', Mark CHR ''*'', Word ''TO''] @ who @ [Mark CHR '';''],
       [Word ''DROP'', Word ''USER''] @ who @ [Mark CHR '';'']])"

lemma statements_read:
  assumes "CHR 0x60 \<notin> set login" "CHR 0x60 \<notin> set host" "quote \<notin> set password" "backslash \<notin> set password"
    "usable_database_name database = Inr ()"
  shows "map sql_tokens [create_login_sql (principal login host) password, confine_sql database (principal login host),
    drop_login_sql (principal login host)] = map Some (statement_tokens database login host password)"
  using assms
  by (simp add: sql_tokens_def create_login_sql_def confine_sql_def drop_login_sql_def load_privileges_def statement_tokens_def word_char_def
      char_in_def quote_def lex_login lex_in_text [unfolded quote_def] lex_in_name [OF grant_pattern_harmless [OF assms(5)]] Let_def)

text \<open>How the runs around a dump can go: the login refused; not confined; or loaded.\<close>

inductive confined_load :: "panel \<Rightarrow> string \<Rightarrow> string \<Rightarrow> sandbox \<Rightarrow> unit res \<Rightarrow> runs \<Rightarrow> bool" for P database dumped sb where
  refused: "confined_load P database dumped sb (Inl e) [admin_run P (create_login_sql (principal (sb_login sb) (sb_host sb)) (sb_password sb))]"
| loose: "confined_load P database dumped sb (Inl e)
    [admin_run P (create_login_sql (principal (sb_login sb) (sb_host sb)) (sb_password sb)),
     admin_run P (confine_sql database (principal (sb_login sb) (sb_host sb))),
     admin_run P (drop_login_sql (principal (sb_login sb) (sb_host sb)))]"
| loaded: "confined_load P database dumped sb r
    [admin_run P (create_login_sql (principal (sb_login sb) (sb_host sb)) (sb_password sb)),
     admin_run P (confine_sql database (principal (sb_login sb) (sb_host sb))),
     load_run P (sb_dir sb) (sb_defaults sb) (sb_login sb) database dumped,
     admin_run P (drop_login_sql (principal (sb_login sb) (sb_host sb)))]"

lemma admin_sql_runs: "\<exists>e. database_admin_sql P s st = (e, st @ [admin_run P s])"
  by (auto simp: database_admin_sql_def prog_bind_def start_def split: option.splits)

lemma drop_login_runs:
  "\<exists>r'. drop_login P login host r st = (r', st @ [admin_run P (drop_login_sql (principal login host))]) \<and> (r' = Inr () \<longrightarrow> r = Inr ())"
proof -
  obtain e where "database_admin_sql P (drop_login_sql (principal login host)) st = (e, st @ [admin_run P (drop_login_sql (principal login host))])"
    using admin_sql_runs by blast
  then show ?thesis by (cases e) (auto simp: drop_login_def)
qed

lemma load_as_runs:
  "\<exists>r loads. load_as P dir defaults login host database dumped st = (r, st @ admin_run P (confine_sql database (principal login host)) # loads) \<and>
     (loads = [] \<and> r \<noteq> Inr () \<or> loads = [load_run P dir defaults login database dumped])"
proof -
  obtain e where e: "database_admin_sql P (confine_sql database (principal login host)) st =
      (e, st @ [admin_run P (confine_sql database (principal login host))])"
    using admin_sql_runs by blast
  then show ?thesis by (cases e) (auto simp: load_as_def prog_bind_def start_def split: option.splits)
qed

text \<open>A sandbox whose fields can stand in a statement.\<close>

definition sealed :: "sandbox \<Rightarrow> bool" where
  "sealed sb \<longleftrightarrow> CHR 0x60 \<notin> set (sb_login sb) \<and> CHR 0x60 \<notin> set (sb_host sb) \<and> quote \<notin> set (sb_password sb) \<and>
     backslash \<notin> set (sb_password sb) \<and> CHR ''%'' \<notin> set (sb_host sb) \<and> CHR ''_'' \<notin> set (sb_host sb)"

lemma starts_only_look [intro]: "starts_only Q (\<lambda>st. (f st, st))"
  by (simp add: starts_only_def)

lemma prepare_sandbox_asks: "starts_only (\<lambda>t. t = print_defaults P \<or> t = peer_run P) (prepare_sandbox P)"
  unfolding prepare_sandbox_def mysql_connection_options_def Let_def
  by (intro starts_only_bind starts_only_start starts_only_option starts_only_if starts_only_basic starts_only_look) auto

lemma prepare_sandbox_sealed:
  assumes "prepare_sandbox P st = (Inr sb, st')"
  shows "sealed sb"
proof -
  from assms obtain entropy where login: "sb_login sb = ''cpr_restore_'' @ hex_encode (take 8 entropy)"
    and password: "sb_password sb = hex_encode (drop 8 entropy)"
    and host: "usable_database_host (sb_host sb)" "\<not> contains_any (sb_host sb) ''%_''"
    by (auto simp: prepare_sandbox_def prog_bind_eq_Inr Let_def split: if_splits)
  have "CHR 0x60 \<notin> set (hex_encode s)" "quote \<notin> set (hex_encode s)" "backslash \<notin> set (hex_encode s)" for s
    using hex_encode_words word_not_special by blast+
  moreover have "CHR 0x60 \<notin> set (sb_host sb)"
    using host(1) host_char_harmless by (auto simp: usable_database_host_def list_all_iff)
  moreover have "CHR ''%'' \<notin> set (sb_host sb)" "CHR ''_'' \<notin> set (sb_host sb)"
    using host(2) by (auto simp: contains_any_def list_ex_iff)
  ultimately show ?thesis by (simp add: sealed_def login password)
qed

lemma load_in_sandbox_runs:
  assumes "load_in_sandbox P database dumped sb st = (r, st')"
  shows "\<exists>made. st' = st @ made \<and> confined_load P database dumped sb r made"
proof -
  let ?who = "principal (sb_login sb) (sb_host sb)"
  let ?create = "admin_run P (create_login_sql ?who (sb_password sb))"
  obtain e where e: "database_admin_sql P (create_login_sql ?who (sb_password sb)) st = (e, st @ [?create])"
    using admin_sql_runs by blast
  show ?thesis
  proof (cases e)
    case (Inl x)
    with assms e show ?thesis by (auto simp: load_in_sandbox_def intro: confined_load.refused)
  next
    case (Inr u)
    obtain r1 loads where load: "load_as P (sb_dir sb) (sb_defaults sb) (sb_login sb) (sb_host sb) database dumped (st @ [?create]) =
        (r1, (st @ [?create]) @ admin_run P (confine_sql database ?who) # loads)"
      and loads: "loads = [] \<and> r1 \<noteq> Inr () \<or> loads = [load_run P (sb_dir sb) (sb_defaults sb) (sb_login sb) database dumped]"
      using load_as_runs by blast
    obtain r2 where dropped: "drop_login P (sb_login sb) (sb_host sb) r1 ((st @ [?create]) @ admin_run P (confine_sql database ?who) # loads) =
        (r2, ((st @ [?create]) @ admin_run P (confine_sql database ?who) # loads) @ [admin_run P (drop_login_sql ?who)])"
      and r2: "r2 = Inr () \<longrightarrow> r1 = Inr ()"
      using drop_login_runs by blast
    have out: "r = r2" "st' = st @ ?create # admin_run P (confine_sql database ?who) # loads @ [admin_run P (drop_login_sql ?who)]"
      using assms e Inr load dropped by (simp_all add: load_in_sandbox_def)
    from loads show ?thesis
    proof
      assume none: "loads = [] \<and> r1 \<noteq> Inr ()"
      with r2 obtain x where "r2 = Inl x" by (cases r2) auto
      with out none confined_load.loose [of P database dumped sb x] show ?thesis by auto
    next
      assume "loads = [load_run P (sb_dir sb) (sb_defaults sb) (sb_login sb) database dumped]"
      with out confined_load.loaded [of P database dumped sb r2] show ?thesis by auto
    qed
  qed
qed

definition asks_for_load :: "panel \<Rightarrow> tool_run \<Rightarrow> bool" where
  "asks_for_load P t \<longleftrightarrow> asks P t \<or> t = print_defaults P \<or> t = peer_run P"

lemma starts_only_weaken: "starts_only Q m \<Longrightarrow> (\<And>t. Q t \<Longrightarrow> Q' t) \<Longrightarrow> starts_only Q' m"
  unfolding starts_only_def by (metis list.pred_mono_strong)


section \<open>A server the properties apply to\<close>

text \<open>A string that starts and ends with a visible ASCII character has nothing to trim.\<close>

definition visible :: "char \<Rightarrow> bool" where
  "visible c \<longleftrightarrow> (33 :: nat) \<le> of_char c \<and> of_char c \<le> (126 :: nat)"

lemma space_seqs_invisible:
  "list_all (\<lambda>w. w \<noteq> [] \<and> \<not> visible (hd w)) space_seqs" "list_all (\<lambda>w. w \<noteq> [] \<and> \<not> visible (hd w)) (map rev space_seqs)"
  by (simp_all add: space_seqs_def visible_def)

lemma space_len_visible: "list_all (\<lambda>w. w \<noteq> [] \<and> \<not> visible (hd w)) ws \<Longrightarrow> visible (hd s) \<Longrightarrow> space_len ws s = 0"
  by (induction ws) (auto simp: has_prefix_iff hd_append)

lemma trim_space_visible:
  assumes "s \<noteq> []" "visible (hd s)" "visible (last s)"
  shows "trim_space s = s"
proof -
  have "space_len space_seqs s = 0" using assms(2) by (rule space_len_visible [OF space_seqs_invisible(1)])
  moreover have "space_len (map rev space_seqs) (rev s) = 0"
    using assms(1, 3) by (intro space_len_visible [OF space_seqs_invisible(2)]) (simp add: hd_rev)
  ultimately show ?thesis by (simp add: trim_space_def trim_seqs.simps [of space_seqs] trim_seqs.simps [of "map rev space_seqs"])
qed

definition bob_panel :: panel where
  "bob_panel =
     \<lparr>pn_files = (\<lambda>_. \<lparr>pf_dir = Inr [(''bob.json'', False), (''dbindex.db.json'', False)],
        pf_section = (\<lambda>n. if n = ''bob'' then Some \<lparr>dm_owner = ''bob'', dm_dbs = [''bob_wp''], dm_dbusers = [''bob_wp''], dm_noprefix = []\<rparr> else None),
        pf_owners = None\<rparr>),
      pn_end = (\<lambda>_ t. \<lparr>te_stdout = (if t = plain_run [''mysql'', ''--batch'', ''--skip-column-names'', ''--execute=SELECT DISTINCT HEX(User) FROM mysql.user''] []
           then ''726F6F74'' else if length (tr_args t) = 4 then ''localhost'' else []), te_stderr = [], te_err = None\<rparr>),
      pn_answer = (\<lambda>_. Inr (1, [])), pn_dump = (\<lambda>_. Inr (True, ''DROP DATABASE mysql'')), pn_entropy = (\<lambda>_. Inr (replicate 32 CHR ''k'')),
      pn_temp = (\<lambda>_. Inr ''/tmp/gniza-mysql-1''), pn_temp_write = (\<lambda>_. Inr ()), pn_mysql = [], pn_uapi = [], pn_dbmap = []\<rparr>"

definition bob_wp :: database_user where
  "bob_wp = \<lparr>du_name = ''bob_wp'', du_host = ''localhost'', du_plugin = ''mysql_native_password'', du_hash = ''2a41'',
     du_grants = [\<lparr>dg_database = ''bob_wp'', dg_privileges = [''SELECT'', ''LOCK TABLES'']\<rparr>]\<rparr>"

lemma bob_wp_acceptable: "acceptable ''bob'' [''bob_wp''] [''bob'' \<mapsto> ''bob'', ''bob_wp'' \<mapsto> ''bob''] [''root''] bob_wp"
proof -
  have "usable_database_name ''bob_wp'' = Inr ()" "\<not> reserved_database_user ''bob_wp''" by code_simp+
  then show ?thesis
    by (simp add: acceptable_def bob_wp_def plain_account_name_def plain_char_def usable_database_host_def usable_host_char_def
        usable_auth_plugin_def usable_auth_hash_def usable_database_privilege_def has_prefix_def has_suffix_def char_in_def)
qed

lemma bob_records:
  "recorded_databases (pn_files bob_panel st) ''bob'' = Some ([''bob_wp''], [''bob_wp''])"
  "database_user_owners (pn_files bob_panel st) = Inr [''bob'' \<mapsto> ''bob'', ''bob_wp'' \<mapsto> ''bob'']"
proof -
  have files: "pn_files bob_panel st = pn_files bob_panel []" by (simp add: bob_panel_def)
  have recorded: "recorded_databases (pn_files bob_panel []) ''bob'' = Some ([''bob_wp''], [''bob_wp''])"
    by (simp add: recorded_databases_def bob_panel_def sort_strings_def)
  then show "recorded_databases (pn_files bob_panel st) ''bob'' = Some ([''bob_wp''], [''bob_wp''])" by (simp only: files)
  have names: "plain_account_name ''bob''" "\<not> plain_account_name ''dbindex.db''"
    by (simp_all add: plain_account_name_def plain_char_def char_in_def)
  have "pf_dir (pn_files bob_panel []) = Inr [(''bob.json'', False), (''dbindex.db.json'', False)]" by (simp add: bob_panel_def)
  moreover have "has_suffix ''bob.json'' ''.json''" "trim_suffix ''bob.json'' ''.json'' = ''bob''" "has_suffix ''dbindex.db.json'' ''.json''"
    "trim_suffix ''dbindex.db.json'' ''.json'' = ''dbindex.db''" by code_simp+
  ultimately show "database_user_owners (pn_files bob_panel st) = Inr [''bob'' \<mapsto> ''bob'', ''bob_wp'' \<mapsto> ''bob'']"
    unfolding files by (simp add: database_user_owners_def recorded names Let_def fun_upd_twist)
qed

lemma bob_answers:
  "pn_end bob_panel st (list_logins bob_panel) = \<lparr>te_stdout = ''726F6F74'', te_stderr = [], te_err = None\<rparr>"
  "pn_end bob_panel st (plain_run [''mysql''] s) = \<lparr>te_stdout = [], te_stderr = [], te_err = None\<rparr>"
  "pn_end bob_panel st (admin_run bob_panel s) = \<lparr>te_stdout = [], te_stderr = [], te_err = None\<rparr>"
  "pn_end bob_panel st (map_run bob_panel u us) = \<lparr>te_stdout = [], te_stderr = [], te_err = None\<rparr>"
  "pn_end bob_panel st (grant_run bob_panel u n g) = \<lparr>te_stdout = [], te_stderr = [], te_err = None\<rparr>"
  "pn_end bob_panel st (print_defaults bob_panel) = \<lparr>te_stdout = [], te_stderr = [], te_err = None\<rparr>"
  "pn_end bob_panel st (peer_run bob_panel) = \<lparr>te_stdout = ''localhost'', te_stderr = [], te_err = None\<rparr>"
  "pn_end bob_panel st (load_run bob_panel d f l b x) = \<lparr>te_stdout = [], te_stderr = [], te_err = None\<rparr>"
  by (simp_all add: bob_panel_def list_logins_def plain_run_def mysql_def map_run_def grant_run_def print_defaults_def peer_run_def load_run_def admin_run_def)

lemma bob_users_run:
  "put_database_users bob_panel ''bob'' [bob_wp] [] =
     (Inr (), [list_logins bob_panel, plain_run [''mysql''] (user_sql False False bob_wp), map_run bob_panel ''bob'' [bob_wp],
        grant_run bob_panel ''bob'' ''bob_wp'' \<lparr>dg_database = ''bob_wp'', dg_privileges = [''SELECT'', ''LOCK TABLES'']\<rparr>])"
proof -
  have plain: "plain_account_name ''bob''" by code_simp
  have logins: "server_users_loop (split_at nl (trim_space ''726F6F74'')) = Inr [''root'']"
  proof -
    have "trim_space ''726F6F74'' = ''726F6F74''" by (rule trim_space_visible) (simp_all add: visible_def)
    then show ?thesis by (simp add: nl_def hex_val_def char_in_def char_of_def bit_0)
  qed
  note checked = bob_wp_acceptable [folded check_database_user_iff]
  have pre: "preflight bob_panel ''bob'' [bob_wp] [] = (Inr [''root''], [list_logins bob_panel])"
    by (simp add: preflight_def plain databases_def bob_records prog_bind_def server_database_users_def start_def bob_answers logins checked)
  have blank: "trim_space [] = []" using set_trim_space [of "[]"] by simp
  have answer: "uapi_refusal bob_panel [] = Inr ()" by (simp add: uapi_refusal_def bob_panel_def)
  have mysql: "mysql bob_panel = ''mysql''" by (simp add: mysql_def bob_panel_def)
  have parts: "du_name bob_wp = ''bob_wp''" "du_grants bob_wp = [\<lparr>dg_database = ''bob_wp'', dg_privileges = [''SELECT'', ''LOCK TABLES'']\<rparr>]"
    by (simp_all add: bob_wp_def)
  let ?g = "\<lparr>dg_database = ''bob_wp'', dg_privileges = [''SELECT'', ''LOCK TABLES'']\<rparr>"
  have made: "write_database_users bob_panel [bob_wp] False False st = (Inr (), st @ [plain_run [''mysql''] (user_sql False False bob_wp)])" for st
    by (simp add: write_database_users_def prog_bind_def start_def bob_answers mysql)
  have recorded: "map_database_users bob_panel ''bob'' [bob_wp] st = (Inr (), st @ [map_run bob_panel ''bob'' [bob_wp]])" for st
    by (simp add: map_database_users_def prog_bind_def start_def bob_answers blank)
  have granted: "grant_database_users bob_panel ''bob'' [bob_wp] st = (Inr (), st @ [grant_run bob_panel ''bob'' ''bob_wp'' ?g])" for st
    by (simp add: parts prog_bind_def start_def bob_answers answer refusal_of_def)
  have none: "create_database_users bob_panel [] pw st = (Inr (), st)" "grant_owner_databases bob_panel [] st = (Inr (), st)" for pw st
    by (simp_all add: create_database_users_def write_database_users_def grant_owner_databases_def owner_script_def)
  have "write_users bob_panel ''bob'' [bob_wp] [''root''] st = (Inr (), st @ [plain_run [''mysql''] (user_sql False False bob_wp), map_run bob_panel ''bob'' [bob_wp],
      grant_run bob_panel ''bob'' ''bob_wp'' ?g])" for st
    unfolding write_users_def Let_def by (simp add: parts(1) prog_bind_def none made recorded granted del: grant_database_users.simps)
  with pre show ?thesis by (simp add: put_database_users_def)
qed

theorem users_checked_before_written_witness:
  "\<exists>asked written existing. snd (put_database_users bob_panel ''bob'' [bob_wp] []) = asked @ written \<and> list_all (asks bob_panel) asked \<and>
     written \<noteq> [] \<and> list_all (about_users bob_panel ''bob'' [bob_wp] existing) written"
proof -
  obtain asked written where run: "snd (put_database_users bob_panel ''bob'' [bob_wp] []) = asked @ written" "list_all (asks bob_panel) asked"
    and rest: "written = [] \<or> (\<exists>existing. list_all (about_users bob_panel ''bob'' [bob_wp] existing) written)"
    using users_checked_before_written [OF bob_users_run] unfolding bob_users_run by (auto simp: append_Nil)
  have "\<not> list_all (asks bob_panel) (snd (put_database_users bob_panel ''bob'' [bob_wp] []))"
    unfolding bob_users_run by (simp add: asks_def show_databases_def list_logins_def map_run_def plain_run_def mysql_def bob_panel_def db_map_tool_def)
  with run have "written \<noteq> []" by auto
  with run rest show ?thesis by blast
qed

theorem statements_say_what_was_checked_witness:
  "sql_tokens (owner_script [bob_wp]) = Some (grant_tokens bob_wp \<lparr>dg_database = ''bob_wp'', dg_privileges = [''SELECT'', ''LOCK TABLES'']\<rparr>) \<and>
   \<not> like (grant_pattern ''bob_wp'') ''bobxwp''"
proof -
  have "list_all (acceptable ''bob'' [''bob_wp''] [''bob'' \<mapsto> ''bob'', ''bob_wp'' \<mapsto> ''bob''] [''root'']) [bob_wp]"
    by (simp add: bob_wp_acceptable)
  from statements_say_what_was_checked [OF this, of False False] show ?thesis by (simp add: bob_wp_def)
qed

lemma bob_load_run:
  "\<exists>st'. load_database bob_panel ''bob'' ''bob_wp'' ''/d.sql'' [] = (Inr (), st') \<and> length st' = 6"
proof -
  have usable: "usable_database_name ''bob_wp'' = Inr ()" by code_simp
  have fields: "str_fields [] = []" by code_simp
  have peer: "trim_space ''localhost'' = ''localhost''" by (rule trim_space_visible) (simp_all add: visible_def)
  have host: "usable_database_host ''localhost''" "\<not> contains_any ''localhost'' ''%_''" by code_simp+
  have params: "pn_dump bob_panel p = Inr (True, ''DROP DATABASE mysql'')" "pn_temp bob_panel st = Inr ''/tmp/gniza-mysql-1''"
    "pn_temp_write bob_panel d = Inr ()" "pn_entropy bob_panel st = Inr (replicate 32 CHR ''k'')" for p st d
    by (simp_all add: bob_panel_def)
  obtain sb where sb: "prepare_sandbox bob_panel [] = (Inr sb, [print_defaults bob_panel, peer_run bob_panel])"
    by (simp add: prepare_sandbox_def mysql_connection_options_def prog_bind_def start_def bob_answers fields peer host params Let_def)
  show ?thesis
    by (simp add: load_database_def usable databases_def bob_records params load_isolated_database_def sb load_in_sandbox_def load_as_def
        drop_login_def database_admin_sql_def prog_bind_def start_def bob_answers)
qed


end
