(* ===== verification/Put_Back.thy ===== *)
theory Put_Back
  imports Reassemble Database_Users Node_Queue
begin

text \<open>
  Parts of an account taken out of a snapshot, and written back into the live account when that is
  asked for (\<open>internal/agent/items.go\<close>). What the provider does to the account is a parameter, one
  operation for each method the code calls.
\<close>

section \<open>The assignment and who carries it out\<close>

record restore_assignment =
  ra_job_id :: string
  ra_cpanel_user :: string
  ra_snapshot_id :: string
  ra_kind :: string
  ra_include_paths :: "string list"
  ra_target_dir :: string
  ra_item_kind :: string
  ra_item_names :: "string list"
  ra_items :: "selection list"
  ra_apply :: bool
  ra_unrestricted :: bool
  ra_source :: upload_target
  ra_size_estimate :: "64 word"

definition assigned_selections :: "restore_assignment \<Rightarrow> selection list" where
  "assigned_selections a =
     (if length (ra_items a) > 0 then ra_items a
      else if ra_item_kind a = [] then []
      else [\<lparr>se_kind = ra_item_kind a, se_names = ra_item_names a\<rparr>])"

record apply_options =
  ap_unrestricted :: bool
  ap_overwrite :: bool

text \<open>
  One step of copying a tree, with what the disk says to it, is a parameter like the renames are;
  \<open>pv_auth\<close> decodes the file of stored passwords.
\<close>

datatype copy_op = CopyDir string | CopyLink string string | CopyFile string "64 word" string

record 'x restorer = "'x rebuilder" +
  pv_account :: "string \<Rightarrow> ('x, account_info) aprog"
  pv_create :: "string \<Rightarrow> string \<Rightarrow> ('x, unit) aprog"
  pv_load :: "string \<Rightarrow> string \<Rightarrow> string \<Rightarrow> ('x, unit) aprog"
  pv_users :: "string \<Rightarrow> database_user list \<Rightarrow> ('x, unit) aprog"
  pv_home :: "string \<Rightarrow> string \<Rightarrow> ('x, unit) aprog"
  pv_cron :: "string \<Rightarrow> string \<Rightarrow> ('x, unit) aprog"
  pv_apply :: "string \<Rightarrow> apply_options \<Rightarrow> ('x, string) aprog"
  pv_auth :: "string \<Rightarrow> auth_map res"
  rb_copy :: "copy_op \<Rightarrow> nodes \<Rightarrow> unit res \<times> nodes"

section \<open>Finding things in what was restored\<close>

text \<open>\<open>os.Stat\<close> as the code mostly uses it: there, or not.\<close>

definition there :: "os_api \<Rightarrow> string \<Rightarrow> nodes \<Rightarrow> bool" where
  "there fs p d = (case fs_stat fs p d of (Inr (Some _), _) \<Rightarrow> True | _ \<Rightarrow> False)"

fun mkdir_chain :: "os_api \<Rightarrow> string list \<Rightarrow> (nodes, unit) prog" where
  "mkdir_chain fs [] = prog_return ()"
| "mkdir_chain fs (p # ps) =
     (\<lambda>d. case map_of d p of
        Some n \<Rightarrow> if is_dir n then mkdir_chain fs ps d else (Inl (ErrMsg ''not a directory'' [p]), d)
      | None \<Rightarrow> prog_bind (fs_mkdir fs p) (\<lambda>_. mkdir_chain fs ps) d)"

fun path_chain :: "string \<Rightarrow> string list \<Rightarrow> string list" where
  "path_chain p [] = []"
| "path_chain p (s # ss) = (p @ ''/'' @ s) # path_chain (p @ ''/'' @ s) ss"

text \<open>\<open>os.MkdirAll\<close> of an absolute path: each of its directories that is not there yet.\<close>

definition mkdir_all :: "os_api \<Rightarrow> string \<Rightarrow> (nodes, unit) prog" where
  "mkdir_all fs p = mkdir_chain fs (path_chain [] (filter (\<lambda>s. s \<noteq> []) (split_at CHR ''/'' (path_clean p))))"

definition copy_entry :: "string \<Rightarrow> string \<times> walked \<Rightarrow> copy_op list \<times> err option" where
  "copy_entry to e =
     (case e of (relative, w) \<Rightarrow>
        let target = file_join to relative in
        case w of
          WFailed err \<Rightarrow> ([], Some err)
        | WDir _ \<Rightarrow> ([CopyDir target], None)
        | WLink link \<Rightarrow> ([CopyLink target link], None)
        | WFile m body broken \<Rightarrow> ([CopyDir (path_dir target), CopyFile target m body], broken)
        | WSocket \<Rightarrow> ([], None)
        | WOther _ _ \<Rightarrow> ([], None))"

fun copy_ops :: "('x, 'b) restorer_scheme \<Rightarrow> copy_op list \<Rightarrow> (nodes, unit) prog" where
  "copy_ops R [] = prog_return ()"
| "copy_ops R (c # cs) = prog_bind (rb_copy R c) (\<lambda>_. copy_ops R cs)"

fun copy_tree :: "('x, 'b) restorer_scheme \<Rightarrow> string \<Rightarrow> (string \<times> walked) list \<Rightarrow> (nodes, unit) prog" where
  "copy_tree R to [] = prog_return ()"
| "copy_tree R to (e # es) =
     (case copy_entry to e of (ops, broken) \<Rightarrow>
        prog_bind (copy_ops R ops) (\<lambda>_. case broken of Some err \<Rightarrow> prog_fail err | None \<Rightarrow> copy_tree R to es))"

definition adopt :: "('x, 'b) restorer_scheme \<Rightarrow> string \<Rightarrow> string \<Rightarrow> (nodes, unit) prog" where
  "adopt R from to =
     (\<lambda>d. if \<not> there (ag_os R) from d then (Inr (), d)
          else prog_bind (fs_wrap ''agent: create'' (mkdir_all (ag_os R) (path_dir to))) (\<lambda>_ d.
            case fs_rename (ag_os R) from to d of
              (Inr _, d) \<Rightarrow> (Inr (), d)
            | (Inl _, d) \<Rightarrow> copy_tree R to (rb_walk R from d) d) d)"

definition account_tar :: "os_api \<Rightarrow> string \<Rightarrow> (nodes, string) prog" where
  "account_tar fs dir =
     prog_bind (fs_wrap ''agent: read the restored metadata'' (fs_readdir fs dir)) (\<lambda>entries.
     case filter (\<lambda>(name, folder). \<not> folder \<and> has_suffix name ''.tar'') entries of
       [] \<Rightarrow> prog_fail (ErrMsg ''agent: the metadata in this backup holds no account archive'' [])
     | (name, _) # _ \<Rightarrow> prog_return (file_join dir name))"

fun regular_below :: "string \<Rightarrow> nodes \<Rightarrow> nat" where
  "regular_below p [] = 0"
| "regular_below p ((q, n) # d) = (if lies_under p q \<and> (case n of FFile _ _ \<Rightarrow> True | _ \<Rightarrow> False) then 1 else 0) + regular_below p d"

definition measure_tree :: "os_api \<Rightarrow> string \<Rightarrow> (nodes, nat \<times> 64 word) prog" where
  "measure_tree fs dir =
     fs_wrap ''agent: measure the restored files'' (guarded fs OpWalk dir (\<lambda>d.
       if map_of d dir = None then (Inl ErrNotFound, d) else (Inr (regular_below dir d, size_below dir d), d)))"

definition item_requests :: "restore_assignment \<Rightarrow> g_request list" where
  "item_requests a =
     map (\<lambda>s. \<lparr>gq_kind = se_kind s, gq_account = ra_cpanel_user a, gq_names = se_names s\<rparr>) (assigned_selections a)"

definition items_label :: "restore_assignment \<Rightarrow> string" where
  "items_label a =
     (case assigned_selections a of
        [] \<Rightarrow> ''nothing''
      | [s] \<Rightarrow> se_kind s
      | ss \<Rightarrow> itoa (int (length ss)) @ ''parts'')"

section \<open>The checks\<close>

text \<open>What the selections ask for between them.\<close>

record wanted_parts =
  wp_databases :: "string list"
  wp_users :: "string list"
  wp_want_dumps :: bool
  wp_want_users :: bool
  wp_want_home :: bool
  wp_want_cron :: bool

definition no_wants :: wanted_parts where
  "no_wants = \<lparr>wp_databases = [], wp_users = [], wp_want_dumps = False, wp_want_users = False, wp_want_home = False, wp_want_cron = False\<rparr>"

fun wants_loop :: "selection list \<Rightarrow> wanted_parts \<Rightarrow> wanted_parts res" where
  "wants_loop [] w = Inr w"
| "wants_loop (s # ss) w =
     (let kind = se_kind s in
      if \<not> can_apply kind then Inl (ErrMsg ''agent: a restore of this kind cannot be written into the live account'' [kind])
      else if kind = g_database then wants_loop ss (w\<lparr>wp_want_dumps := True, wp_databases := wp_databases w @ se_names s\<rparr>)
      else if kind = g_dbusers then wants_loop ss (w\<lparr>wp_want_users := True, wp_users := wp_users w @ se_names s\<rparr>)
      else if kind = g_cron then wants_loop ss (w\<lparr>wp_want_cron := True\<rparr>)
      else wants_loop ss (w\<lparr>wp_want_home := True\<rparr>))"

text \<open>An answer of a check: what it found, or the hint for the customer and the error.\<close>

type_synonym 'a checked = "(string \<times> err) + 'a"

fun dumps_loop :: "os_api \<Rightarrow> string \<Rightarrow> string list \<Rightarrow> string list \<Rightarrow> nodes \<Rightarrow> (string list \<times> string list) checked" where
  "dumps_loop fs dump_dir present [] d = Inr ([], [])"
| "dumps_loop fs dump_dir present (name # names) d =
     (let dumped = file_join dump_dir (name @ ''.sql'') in
      if \<not> there fs dumped d
      then Inl (''This backup holds no copy of the database '' @ name @ ''. Try an earlier restore point.'',
                ErrMsg ''agent: this backup holds no dump of the database'' [name])
      else case dumps_loop fs dump_dir present names d of
        Inl e \<Rightarrow> Inl e
      | Inr (dumps, create) \<Rightarrow> Inr (dumped # dumps, if name \<in> set present then create else name # create))"

definition check_database_dumps :: "os_api \<Rightarrow> string list \<Rightarrow> string list \<Rightarrow> string \<Rightarrow> nodes \<Rightarrow> (string list \<times> string list) checked" where
  "check_database_dumps fs names present dump_dir d =
     (if length names = 0 then Inl ([], ErrMsg ''agent: no database was named to restore'' [])
      else dumps_loop fs dump_dir present names d)"

definition distinct_user_names :: "database_user list \<Rightarrow> string list" where
  "distinct_user_names users = sort_strings (add_new [] (map du_name users))"

definition staged_user :: "grant_map \<Rightarrow> string \<Rightarrow> string \<times> db_auth \<Rightarrow> database_user" where
  "staged_user grants name h =
     \<lparr>du_name = name, du_host = fst h, du_plugin = au_plugin (snd h), du_hash = au_hash (snd h),
      du_grants = map (\<lambda>g. \<lparr>dg_database = gt_database g, dg_privileges = gt_privileges g\<rparr>) (grants_for grants (name @ ''@'' @ fst h))\<rparr>"

definition user_less :: "database_user \<Rightarrow> database_user \<Rightarrow> bool" where
  "user_less a b = (if du_name a \<noteq> du_name b then str_less (du_name a) (du_name b) else str_less (du_host a) (du_host b))"

definition read_staged_users :: "('x, 'b) restorer_scheme \<Rightarrow> string \<Rightarrow> nodes \<Rightarrow> database_user list res" where
  "read_staged_users R dump_dir d =
     (case rb_read R (file_join dump_dir users_auth_file) d of
        Inl e \<Rightarrow> Inl (ErrWrap ''agent: read the database users in this backup'' e)
      | Inr raw \<Rightarrow> (case pv_auth R raw of
          Inl e \<Rightarrow> Inl (ErrWrap ''inventory: read the database users in this backup'' e)
        | Inr auth \<Rightarrow> (case rb_read R (file_join dump_dir runnable_users_file) d of
            Inl e \<Rightarrow> Inl (ErrWrap ''agent: read the database grants in this backup'' e)
          | Inr raw \<Rightarrow> res_bind (parse_grants raw) (\<lambda>grants.
              Inr (go_sort user_less (concat (map (\<lambda>(name, hosts). map (staged_user grants name) hosts) auth)))))))"

text \<open>Of the users in the backup those that were named, all their hosts; a name nobody has is refused.\<close>

definition choose_users :: "string list \<Rightarrow> database_user list \<Rightarrow> database_user list checked" where
  "choose_users wanted users =
     (if length wanted = 0 then Inr users
      else let chosen = filter (\<lambda>u. du_name u \<in> set wanted) users;
               absent = sort_strings (filter (\<lambda>n. n \<notin> set (distinct_user_names chosen)) wanted)
           in if length absent > 0
              then Inl ((if length absent > 1
                         then ''This backup holds no database users called '' @ join_and absent @ ''. Choose from the users it does hold, or try another restore point.''
                         else ''This backup holds no database user called '' @ join_and absent @ ''. Choose one of the users it does hold, or try another restore point.''),
                        ErrMsg ''agent: this backup holds no database user(s)'' [join_with '', '' absent])
              else Inr chosen)"

definition missing_grants :: "string list \<Rightarrow> database_user list \<Rightarrow> string list" where
  "missing_grants present users =
     sort_strings (add_new [] (filter (\<lambda>n. n \<notin> set present) (concat (map (\<lambda>u. map dg_database (du_grants u)) users))))"

definition missing_hint :: "string list \<Rightarrow> string" where
  "missing_hint missing =
     ''These users had access to '' @ join_and missing @ '', which the account does not have any more. '' @
     (if length missing > 1
      then ''Add those databases to this restore, or create them first: a grant cannot be given on a database that is not there.''
      else ''Add that database to this restore, or create it first: a grant cannot be given on a database that is not there.'')"

definition check_staged_users :: "('x, 'b) restorer_scheme \<Rightarrow> string \<Rightarrow> string list \<Rightarrow> string list \<Rightarrow> string \<Rightarrow> nodes \<Rightarrow> database_user list checked" where
  "check_staged_users R account wanted present dump_dir d =
     (case read_staged_users R dump_dir d of
        Inl e \<Rightarrow> Inl (''This backup does not hold the account'' @ quote # ''s database users. Try a more recent restore point, or download this one and ask your host.'', e)
      | Inr users \<Rightarrow>
          if length users = 0
          then Inl (''This backup holds no database users for the account.'', ErrMsg ''agent: this backup holds no database users'' [])
          else (case choose_users wanted users of
            Inl e \<Rightarrow> Inl e
          | Inr users \<Rightarrow>
              let missing = missing_grants present users in
              if length missing > 0
              then Inl (missing_hint missing, ErrMsg ''agent: the account no longer has the database(s)'' [account, join_with '', '' missing])
              else Inr users))"

text \<open>The account's crontab, below whatever the archive calls its own directory.\<close>

fun crontab_loop :: "os_api \<Rightarrow> string \<Rightarrow> string \<Rightarrow> (string \<times> bool) list \<Rightarrow> nodes \<Rightarrow> string option" where
  "crontab_loop fs root user [] d = None"
| "crontab_loop fs root user ((name, folder) # es) d =
     (let path = file_join (file_join (file_join root name) ''cron'') user in
      if folder \<and> (case fs_stat fs path d of (Inr (Some (FFile _ _)), _) \<Rightarrow> True | _ \<Rightarrow> False) then Some path
      else crontab_loop fs root user es d)"

definition staged_crontab :: "os_api \<Rightarrow> string \<Rightarrow> string \<Rightarrow> nodes \<Rightarrow> string res" where
  "staged_crontab fs out user d =
     (let root = file_join out ''metadata''; none = Inl (ErrMsg ''agent: this backup holds no cron jobs for'' [user]) in
      case fs_readdir fs root d of
        (Inl _, _) \<Rightarrow> none
      | (Inr entries, _) \<Rightarrow> (case crontab_loop fs root user entries d of None \<Rightarrow> none | Some path \<Rightarrow> Inr path))"

text \<open>Everything that is to be written, once every check has passed.\<close>

record write_plan =
  wr_create :: "string list"
  wr_loads :: "(string \<times> string) list"
  wr_users :: "database_user list option"
  wr_home :: "string option"
  wr_cron :: "string option"

definition check_parts :: "('x, 'b) restorer_scheme \<Rightarrow> restore_assignment \<Rightarrow> string \<Rightarrow> wanted_parts \<Rightarrow> string list \<Rightarrow> nodes \<Rightarrow> write_plan checked" where
  "check_parts R a out w present d =
     (let dump_dir = file_join out ''databases''; homedir = file_join out ''homedir'' in
      case (if wp_want_dumps w then check_database_dumps (ag_os R) (wp_databases w) present dump_dir d else Inr ([], [])) of
        Inl e \<Rightarrow> Inl e
      | Inr (dumps, create) \<Rightarrow>
        (case (if wp_want_users w then map_sum (\<lambda>e. e) Some (check_staged_users R (ra_cpanel_user a) (wp_users w) (present @ create) dump_dir d)
               else Inr None) of
           Inl e \<Rightarrow> Inl e
         | Inr users \<Rightarrow>
           if wp_want_home w \<and> \<not> there (ag_os R) homedir d
           then Inl (''This backup does not contain the account'' @ quote # ''s files.'', ErrMsg ''agent: this backup holds none of the account files'' [])
           else (case (if wp_want_cron w then map_sum (\<lambda>e. e) Some (staged_crontab (ag_os R) out (ra_cpanel_user a) d) else Inr None) of
               Inl e \<Rightarrow> Inl (''This backup holds no cron jobs for the account. Nothing has been changed.'', e)
             | Inr crontab \<Rightarrow>
                 Inr \<lparr>wr_create = create, wr_loads = zip (wp_databases w) dumps, wr_users = users,
                      wr_home = (if wp_want_home w then Some homedir else None), wr_cron = crontab\<rparr>)))"

section \<open>The writes\<close>

text \<open>Which of the parts were written back, in order, and how it ended.\<close>

type_synonym wrote = "string list"

definition last_colon :: "string \<Rightarrow> string option" where
  "last_colon s =
     (case filter (\<lambda>i. has_prefix (drop i s) '': '') (rev [0..<length s]) of [] \<Rightarrow> None | i # _ \<Rightarrow> Some (drop (i + 2) s))"

definition create_failure_hint :: "('x, 'b) restorer_scheme \<Rightarrow> string \<Rightarrow> err \<Rightarrow> string" where
  "create_failure_hint R name e =
     (let reason = (case last_colon (ag_error R e) of None \<Rightarrow> [] | Some r \<Rightarrow> trim_space r);
          start = ''The database '' @ name @ '' is not on the account any more, and it could not be made again'' in
      if reason = [] \<or> CHR ''/'' \<in> set reason then start @ ''. Your host can say why.'' else start @ '': '' @ reason)"

text \<open>A failure after something was written says so, to the operator and to the customer.\<close>

definition partly :: "('x, 'b) restorer_scheme \<Rightarrow> wrote \<Rightarrow> string \<Rightarrow> err \<Rightarrow> string \<times> string \<times> err option" where
  "partly R wrote hint e =
     (if length wrote = 0 then ([], hint, Some e)
      else let changed = join_with ''; '' wrote in
        (changed,
         (if hint \<noteq> [] then hint @ '' '' else []) @ ''Part of this was put back before it failed: '' @ changed @
           ''. Check the account before asking for it again.'',
         Some (ErrWrap (ag_error R e @ '' -- the account has already been changed: '' @ changed) e)))"

type_synonym 'x writing = "nodes \<times> 'x world \<Rightarrow> (string \<times> string \<times> err option) \<times> nodes \<times> 'x world"

text \<open>One write: on failure the report of what came before, otherwise on with the rest.\<close>

definition write_then :: "('x, 'b) restorer_scheme \<Rightarrow> ('x, unit) aprog \<Rightarrow> wrote \<Rightarrow> (err \<Rightarrow> string \<times> err) \<Rightarrow> string \<Rightarrow> (wrote \<Rightarrow> 'x writing) \<Rightarrow> 'x writing" where
  "write_then R m wrote failing said k =
     (\<lambda>st. case m st of
        (Inl e, st) \<Rightarrow> (case failing e of (hint, e) \<Rightarrow> (partly R wrote hint e, st))
      | (Inr _, st) \<Rightarrow> k (wrote @ [said]) st)"

fun create_loop :: "('x, 'b) restorer_scheme \<Rightarrow> string \<Rightarrow> string list \<Rightarrow> wrote \<Rightarrow> (wrote \<Rightarrow> 'x writing) \<Rightarrow> 'x writing" where
  "create_loop R user [] wrote k = k wrote"
| "create_loop R user (name # names) wrote k =
     write_then R (pv_create R user name) wrote (\<lambda>e. (create_failure_hint R name e, e)) (''created '' @ name)
       (\<lambda>wrote. create_loop R user names wrote k)"

fun load_loop :: "('x, 'b) restorer_scheme \<Rightarrow> string \<Rightarrow> (string \<times> string) list \<Rightarrow> wrote \<Rightarrow> (wrote \<Rightarrow> 'x writing) \<Rightarrow> 'x writing" where
  "load_loop R user [] wrote k = k wrote"
| "load_loop R user ((name, dumped) # loads) wrote k =
     write_then R (pv_load R user name dumped) wrote (\<lambda>e. ([], ErrWrap (''agent: load '' @ name) e)) (''loaded into '' @ name)
       (\<lambda>wrote. load_loop R user loads wrote k)"

definition apply_writes :: "('x, 'b) restorer_scheme \<Rightarrow> string \<Rightarrow> write_plan \<Rightarrow> 'x writing" where
  "apply_writes R user plan =
     create_loop R user (wr_create plan) [] (\<lambda>wrote.
     load_loop R user (wr_loads plan) wrote (\<lambda>wrote.
     (case wr_users plan of
        None \<Rightarrow> (\<lambda>k. k wrote)
      | Some users \<Rightarrow> write_then R (pv_users R user users) wrote (\<lambda>e. ([], e)) (''recreated '' @ join_with '', '' (distinct_user_names users))) (\<lambda>wrote.
     (case wr_home plan of
        None \<Rightarrow> (\<lambda>k. k wrote)
      | Some homedir \<Rightarrow> write_then R (pv_home R user homedir) wrote (\<lambda>e. ([], e)) (''written into the home directory of '' @ user)) (\<lambda>wrote.
     (case wr_cron plan of
        None \<Rightarrow> (\<lambda>k. k wrote)
      | Some crontab \<Rightarrow> write_then R (pv_cron R user crontab) wrote (\<lambda>e. ([], e)) (''cron jobs of '' @ user)) (\<lambda>wrote st.
     ((join_with ''; '' wrote, [], None), st))))))"

definition apply_items :: "('x, 'b) restorer_scheme \<Rightarrow> restore_assignment \<Rightarrow> string \<Rightarrow> 'x writing" where
  "apply_items R a out =
     (\<lambda>st. if length (assigned_selections a) = 0
        then (([], [], Some (ErrMsg ''agent: this restore names no part of the account to write back'' [])), st)
        else case wants_loop (assigned_selections a) no_wants of
          Inl e \<Rightarrow> (([], [], Some e), st)
        | Inr w \<Rightarrow>
            (case (if wp_want_dumps w \<or> wp_want_users w
                   then prog_bind (pv_account R (ra_cpanel_user a)) (\<lambda>account. prog_return (ac_databases account))
                   else prog_return []) st of
               (Inl e, st) \<Rightarrow> (([], [], Some e), st)
             | (Inr present, st) \<Rightarrow>
                 (case check_parts R a out w present (fst st) of
                    Inl (hint, e) \<Rightarrow> (([], hint, Some e), st)
                  | Inr plan \<Rightarrow> apply_writes R (ra_cpanel_user a) plan st)))"

section \<open>The report names what was written\<close>

text \<open>The writes of a plan, one after the other.\<close>

datatype put_step = CreateDb string | LoadDb string string | PutUsers "database_user list" | PutHome string | PutCron string

fun do_step :: "('x, 'b) restorer_scheme \<Rightarrow> string \<Rightarrow> put_step \<Rightarrow> ('x, unit) aprog" where
  "do_step R user (CreateDb name) = pv_create R user name"
| "do_step R user (LoadDb name dumped) = pv_load R user name dumped"
| "do_step R user (PutUsers users) = pv_users R user users"
| "do_step R user (PutHome homedir) = pv_home R user homedir"
| "do_step R user (PutCron crontab) = pv_cron R user crontab"

fun said :: "string \<Rightarrow> put_step \<Rightarrow> string" where
  "said user (CreateDb name) = ''created '' @ name"
| "said user (LoadDb name dumped) = ''loaded into '' @ name"
| "said user (PutUsers users) = ''recreated '' @ join_with '', '' (distinct_user_names users)"
| "said user (PutHome homedir) = ''written into the home directory of '' @ user"
| "said user (PutCron crontab) = ''cron jobs of '' @ user"

fun failing :: "('x, 'b) restorer_scheme \<Rightarrow> put_step \<Rightarrow> err \<Rightarrow> string \<times> err" where
  "failing R (CreateDb name) e = (create_failure_hint R name e, e)"
| "failing R (LoadDb name dumped) e = ([], ErrWrap (''agent: load '' @ name) e)"
| "failing R s e = ([], e)"

definition steps_of :: "write_plan \<Rightarrow> put_step list" where
  "steps_of plan =
     map CreateDb (wr_create plan) @ map (\<lambda>(name, dumped). LoadDb name dumped) (wr_loads plan) @
     (case wr_users plan of None \<Rightarrow> [] | Some users \<Rightarrow> [PutUsers users]) @
     (case wr_home plan of None \<Rightarrow> [] | Some homedir \<Rightarrow> [PutHome homedir]) @
     (case wr_cron plan of None \<Rightarrow> [] | Some crontab \<Rightarrow> [PutCron crontab])"

fun run_then :: "('x, 'b) restorer_scheme \<Rightarrow> string \<Rightarrow> put_step list \<Rightarrow> wrote \<Rightarrow> (wrote \<Rightarrow> 'x writing) \<Rightarrow> 'x writing" where
  "run_then R user [] wrote k = k wrote"
| "run_then R user (s # ss) wrote k = write_then R (do_step R user s) wrote (failing R s) (said user s) (\<lambda>wrote. run_then R user ss wrote k)"

lemma run_then_append: "run_then R user (ss @ ts) wrote k = run_then R user ss wrote (\<lambda>wrote. run_then R user ts wrote k)"
  by (induction ss arbitrary: wrote) simp_all

lemma failing_fun:
  "failing R (CreateDb name) = (\<lambda>e. (create_failure_hint R name e, e))"
  "failing R (LoadDb name dumped) = (\<lambda>e. ([], ErrWrap (''agent: load '' @ name) e))"
  "failing R (PutUsers users) = (\<lambda>e. ([], e))" "failing R (PutHome homedir) = (\<lambda>e. ([], e))" "failing R (PutCron crontab) = (\<lambda>e. ([], e))"
  by (simp_all add: fun_eq_iff)

lemma create_loop_steps: "create_loop R user names wrote k = run_then R user (map CreateDb names) wrote k"
  by (induction names arbitrary: wrote) (simp_all add: failing_fun)

lemma load_loop_steps: "load_loop R user loads wrote k = run_then R user (map (\<lambda>(name, dumped). LoadDb name dumped) loads) wrote k"
  by (induction loads arbitrary: wrote) (auto simp: failing_fun)

text \<open>The end of the writes, when none of them failed.\<close>

definition all_written :: "wrote \<Rightarrow> 'x writing" where
  "all_written wrote = (\<lambda>st. ((join_with ''; '' wrote, [], None), st))"

lemma apply_writes_steps: "apply_writes R user plan = run_then R user (steps_of plan) [] all_written"
  unfolding apply_writes_def steps_of_def run_then_append create_loop_steps load_loop_steps all_written_def
  by (cases "wr_users plan"; cases "wr_home plan"; cases "wr_cron plan") (simp_all add: failing_fun)

text \<open>The state after a sequence of writes all of which went through.\<close>

fun performed :: "('x, 'b) restorer_scheme \<Rightarrow> string \<Rightarrow> put_step list \<Rightarrow> nodes \<times> 'x world \<Rightarrow> (nodes \<times> 'x world) option" where
  "performed R user [] st = Some st"
| "performed R user (s # ss) st = (case do_step R user s st of (Inl _, _) \<Rightarrow> None | (Inr _, st) \<Rightarrow> performed R user ss st)"

text \<open>What a report says after some of the writes of a plan.\<close>

definition stopped_after :: "('x, 'b) restorer_scheme \<Rightarrow> string \<Rightarrow> wrote \<Rightarrow> put_step list \<Rightarrow> nodes \<times> 'x world \<Rightarrow>
    string \<Rightarrow> string \<Rightarrow> err option \<Rightarrow> nodes \<times> 'x world \<Rightarrow> bool" where
  "stopped_after R user before steps st written hint e st' \<longleftrightarrow>
     (\<exists>past rest mid. steps = past @ rest \<and> performed R user past st = Some mid \<and>
        written = join_with ''; '' (before @ map (said user) past) \<and>
        (rest = [] \<and> e = None \<and> st' = mid \<or>
         (\<exists>s x. rest \<noteq> [] \<and> s = hd rest \<and> do_step R user s mid = (Inl x, st') \<and> e \<noteq> None \<and>
            (before @ map (said user) past = [] \<or> contains_str hint written))))"

lemma contains_middle: "contains_str (xs @ ys @ zs) ys"
proof (induction xs)
  case Nil
  have "has_prefix (ys @ zs) ys" by (auto simp: has_prefix_iff)
  then show ?case by (cases "ys @ zs") auto
qed simp

lemma partly_says: "partly R wrote hint x = (written, hint', e) \<Longrightarrow>
    written = join_with ''; '' wrote \<and> e \<noteq> None \<and> (wrote = [] \<or> contains_str hint' written)"
proof (cases "wrote = []")
  case False
  assume "partly R wrote hint x = (written, hint', e)"
  with False have w: "written = join_with ''; '' wrote" and "e \<noteq> None" and
    "hint' = ((if hint \<noteq> [] then hint @ '' '' else []) @ ''Part of this was put back before it failed: '') @ written @ ''. Check the account before asking for it again.''"
    by (auto simp: partly_def Let_def)
  then show ?thesis by (simp only: contains_middle) simp
qed (auto simp: partly_def)

lemma run_then_outcome:
  "run_then R user steps before all_written st = ((written, hint, e), st') \<Longrightarrow> stopped_after R user before steps st written hint e st'"
proof (induction steps arbitrary: before st)
  case Nil
  then show ?case by (auto simp: all_written_def stopped_after_def)
next
  case (Cons s ss)
  obtain r mid where step: "do_step R user s st = (r, mid)" by (cases "do_step R user s st")
  show ?case
  proof (cases r)
    case (Inl x)
    obtain h x' where "failing R s x = (h, x')" by fastforce
    with Cons.prems step Inl have "partly R before h x' = (written, hint, e)" "st' = mid" by (simp_all add: write_then_def)
    from partly_says [OF this(1)] this(2) step Inl show ?thesis
      unfolding stopped_after_def by (intro exI [of _ "[]"] exI [of _ "s # ss"] exI [of _ st]) auto
  next
    case (Inr u)
    with Cons.prems step have "run_then R user ss (before @ [said user s]) all_written mid = ((written, hint, e), st')" by (simp add: write_then_def)
    from Cons.IH [OF this] obtain past rest mid' where past: "ss = past @ rest" "performed R user past mid = Some mid'"
      "written = join_with ''; '' ((before @ [said user s]) @ map (said user) past)"
      "rest = [] \<and> e = None \<and> st' = mid' \<or> (\<exists>s' x. rest \<noteq> [] \<and> s' = hd rest \<and> do_step R user s' mid' = (Inl x, st') \<and> e \<noteq> None \<and>
         ((before @ [said user s]) @ map (said user) past = [] \<or> contains_str hint written))"
      unfolding stopped_after_def by blast
    with step Inr show ?thesis
      unfolding stopped_after_def by (intro exI [of _ "s # past"] exI [of _ rest] exI [of _ mid']) auto
  qed
qed

section \<open>Nothing is written before every check has passed\<close>

text \<open>A database or a user named in the plan, against the backup and the account.\<close>

lemma dumps_loop_Inr:
  "dumps_loop fs dump_dir present names d = Inr (dumps, create) \<Longrightarrow>
     length dumps = length names \<and> list_all (\<lambda>(n, f). f = file_join dump_dir (n @ ''.sql'') \<and> there fs f d) (zip names dumps) \<and>
     create = filter (\<lambda>n. n \<notin> set present) names"
  by (induction names arbitrary: dumps create) (auto simp: Let_def split: if_splits sum.splits prod.splits)

lemma missing_grants_Nil:
  "missing_grants present users = [] \<longleftrightarrow> (\<forall>u\<in>set users. \<forall>g\<in>set (du_grants u). dg_database g \<in> set present)"
proof -
  have sorted: "sort_strings xs = [] \<longleftrightarrow> xs = []" for xs
    using set_sort_strings [of xs] by (metis set_empty)
  have "missing_grants present users = [] \<longleftrightarrow> set (filter (\<lambda>n. n \<notin> set present) (concat (map (\<lambda>u. map dg_database (du_grants u)) users))) = {}"
    unfolding missing_grants_def sorted by (metis set_add_new set_empty sup_bot.left_neutral set_empty2)
  then show ?thesis by auto
qed

text \<open>
  A plan that can be carried out whole: each database to be loaded has a dump in the backup, those the
  account no longer has are the ones made, the users are all the logins the backup holds of each name
  asked for, every grant of theirs is on a database that is there or about to be, and the files are there.
\<close>

definition sound_plan :: "('x, 'b) restorer_scheme \<Rightarrow> restore_assignment \<Rightarrow> string \<Rightarrow> wanted_parts \<Rightarrow> string list \<Rightarrow> nodes \<Rightarrow> write_plan \<Rightarrow> bool" where
  "sound_plan R a out w present d plan \<longleftrightarrow>
     (wp_want_dumps w \<longrightarrow> map fst (wr_loads plan) = wp_databases w \<and>
        list_all (\<lambda>(n, f). f = file_join (file_join out ''databases'') (n @ ''.sql'') \<and> there (ag_os R) f d) (wr_loads plan) \<and>
        wr_create plan = filter (\<lambda>n. n \<notin> set present) (wp_databases w)) \<and>
     (wp_want_users w \<longrightarrow> (\<exists>staged users. read_staged_users R (file_join out ''databases'') d = Inr staged \<and> wr_users plan = Some users \<and>
        users = (if wp_users w = [] then staged else filter (\<lambda>u. du_name u \<in> set (wp_users w)) staged) \<and> users \<noteq> [] \<and>
        set (wp_users w) \<subseteq> set (map du_name users) \<and>
        (\<forall>u\<in>set users. \<forall>g\<in>set (du_grants u). dg_database g \<in> set present \<union> set (wr_create plan)))) \<and>
     (wp_want_home w \<longrightarrow> wr_home plan = Some (file_join out ''homedir'') \<and> there (ag_os R) (file_join out ''homedir'') d) \<and>
     (wp_want_cron w \<longrightarrow> (\<exists>f. wr_cron plan = Some f \<and> staged_crontab (ag_os R) out (ra_cpanel_user a) d = Inr f))"

lemma choose_users_Inr:
  assumes "choose_users wanted users = Inr chosen" "users \<noteq> []"
  shows "chosen = (if wanted = [] then users else filter (\<lambda>u. du_name u \<in> set wanted) users) \<and> chosen \<noteq> [] \<and> set wanted \<subseteq> set (map du_name chosen)"
proof (cases "wanted = []")
  case False
  let ?chosen = "filter (\<lambda>u. du_name u \<in> set wanted) users"
  from assms(1) False have none: "sort_strings (filter (\<lambda>n. n \<notin> set (distinct_user_names ?chosen)) wanted) = []" and chosen: "chosen = ?chosen"
    by (auto simp: choose_users_def Let_def split: if_splits)
  from none have "set (filter (\<lambda>n. n \<notin> set (distinct_user_names ?chosen)) wanted) = {}" by (metis set_empty set_sort_strings)
  then have "set wanted \<subseteq> set (map du_name ?chosen)" by (auto simp: distinct_user_names_def set_add_new)
  with False chosen show ?thesis by (cases "?chosen") auto
qed (use assms in \<open>auto simp: choose_users_def\<close>)

lemma check_staged_users_Inr:
  assumes "check_staged_users R account wanted present dump_dir d = Inr users"
  shows "\<exists>staged. read_staged_users R dump_dir d = Inr staged \<and>
    users = (if wanted = [] then staged else filter (\<lambda>u. du_name u \<in> set wanted) staged) \<and> users \<noteq> [] \<and>
    set wanted \<subseteq> set (map du_name users) \<and> (\<forall>u\<in>set users. \<forall>g\<in>set (du_grants u). dg_database g \<in> set present)"
proof -
  from assms obtain staged where staged: "read_staged_users R dump_dir d = Inr staged" "staged \<noteq> []" and chosen: "choose_users wanted staged = Inr users"
    and grants: "missing_grants present users = []"
    by (auto simp: check_staged_users_def Let_def split: sum.splits if_splits)
  from choose_users_Inr [OF chosen staged(2)] grants [unfolded missing_grants_Nil] staged(1) show ?thesis by auto
qed

lemma check_parts_sound:
  assumes "check_parts R a out w present d = Inr plan"
  shows "sound_plan R a out w present d plan"
proof -
  let ?dumps = "file_join out ''databases''"
  from assms obtain dumps create where c1: "(if wp_want_dumps w then check_database_dumps (ag_os R) (wp_databases w) present ?dumps d else Inr ([], [])) = Inr (dumps, create)"
    by (auto simp: check_parts_def Let_def split: sum.splits prod.splits)
  with assms obtain users where c2: "(if wp_want_users w then map_sum (\<lambda>e. e) Some (check_staged_users R (ra_cpanel_user a) (wp_users w) (present @ create) ?dumps d)
      else Inr None) = Inr users"
    unfolding check_parts_def Let_def c1 by (simp split: sum.splits)
  from assms have c3: "\<not> (wp_want_home w \<and> \<not> there (ag_os R) (file_join out ''homedir'') d)"
    unfolding check_parts_def Let_def c1 sum.case prod.case c2 by (auto split: if_splits)
  with assms obtain crontab where c4: "(if wp_want_cron w then map_sum (\<lambda>e. e) Some (staged_crontab (ag_os R) out (ra_cpanel_user a) d) else Inr None) = Inr crontab"
    and plan: "plan = \<lparr>wr_create = create, wr_loads = zip (wp_databases w) dumps, wr_users = users,
      wr_home = (if wp_want_home w then Some (file_join out ''homedir'') else None), wr_cron = crontab\<rparr>"
    unfolding check_parts_def Let_def c1 sum.case prod.case c2 by (auto split: sum.splits)
  have dumps: "length dumps = length (wp_databases w) \<and>
      list_all (\<lambda>(n, f). f = file_join ?dumps (n @ ''.sql'') \<and> there (ag_os R) f d) (zip (wp_databases w) dumps) \<and>
      create = filter (\<lambda>n. n \<notin> set present) (wp_databases w)" if "wp_want_dumps w"
    using c1 that by (auto simp: check_database_dumps_def split: if_splits dest!: dumps_loop_Inr)
  have users_ok: "\<exists>staged us. read_staged_users R ?dumps d = Inr staged \<and> users = Some us \<and>
      us = (if wp_users w = [] then staged else filter (\<lambda>u. du_name u \<in> set (wp_users w)) staged) \<and> us \<noteq> [] \<and>
      set (wp_users w) \<subseteq> set (map du_name us) \<and> (\<forall>u\<in>set us. \<forall>g\<in>set (du_grants u). dg_database g \<in> set present \<union> set create)" if "wp_want_users w"
  proof -
    from c2 that obtain us where "check_staged_users R (ra_cpanel_user a) (wp_users w) (present @ create) ?dumps d = Inr us" "users = Some us"
      by (cases "check_staged_users R (ra_cpanel_user a) (wp_users w) (present @ create) ?dumps d") auto
    with check_staged_users_Inr [OF this(1)] show ?thesis by simp
  qed
  have cron: "\<exists>f. crontab = Some f \<and> staged_crontab (ag_os R) out (ra_cpanel_user a) d = Inr f" if "wp_want_cron w"
    using c4 that by (cases "staged_crontab (ag_os R) out (ra_cpanel_user a) d") auto
  show ?thesis
    unfolding sound_plan_def plan using dumps users_ok cron c3 by (simp add: map_fst_zip)
qed


section \<open>A server the properties apply to\<close>

definition example_restorer :: "unit restorer" where
  "example_restorer = rebuilder.extend example_rebuilder
     \<lparr>pv_account = (\<lambda>_. prog_return bob_account), pv_create = (\<lambda>_ _. prog_return ()),
      pv_load = (\<lambda>_ _ _. prog_fail (ErrMsg ''cpanel: isolated database import failed'' [])), pv_users = (\<lambda>_ _. prog_return ()),
      pv_home = (\<lambda>_ _. prog_return ()), pv_cron = (\<lambda>_ _. prog_return ()), pv_apply = (\<lambda>_ _. prog_return []),
      pv_auth = (\<lambda>_. Inr []), rb_copy = (\<lambda>_. prog_return ())\<rparr>"

definition shop_request :: restore_assignment where
  "shop_request =
     \<lparr>ra_job_id = ''r1'', ra_cpanel_user = ''bob'', ra_snapshot_id = ''0badc0de'', ra_kind = kind_items, ra_include_paths = [], ra_target_dir = [],
      ra_item_kind = g_database, ra_item_names = [''bob_shop''], ra_items = [], ra_apply = True, ra_unrestricted = False,
      ra_source = \<lparr>tg_repository_id = ''p1'', tg_spec = \<lparr>ds_type = TypeLocal, ds_config = [(''root'', ''/mnt/nas'')], ds_secrets = []\<rparr>,
        tg_repo_path = ''bob'', tg_repo_password = ''k''\<rparr>,
      ra_size_estimate = 0\<rparr>"

definition shop_disk :: nodes where
  "shop_disk = [(''/out/databases/bob_shop.sql'', FFile 9 5), (''/out/databases'', FDir 5)]"

lemma shop_reported:
  "fst (fst (apply_items example_restorer shop_request ''/out'' (shop_disk, example_world))) = ''created bob_shop'' \<and>
   snd (snd (fst (apply_items example_restorer shop_request ''/out'' (shop_disk, example_world)))) \<noteq> None"
proof -
  let ?w = "no_wants\<lparr>wp_want_dumps := True, wp_databases := [''bob_shop'']\<rparr>"
  let ?plan = "\<lparr>wr_create = [''bob_shop''], wr_loads = [(''bob_shop'', ''/out/databases/bob_shop.sql'')], wr_users = None, wr_home = None, wr_cron = None\<rparr>"
  have wants: "wants_loop (assigned_selections shop_request) no_wants = Inr ?w" by code_simp
  have here: "there (ag_os example_restorer) ''/out/databases/bob_shop.sql'' shop_disk" by code_simp
  have join: "file_join ''/out'' ''databases'' = ''/out/databases''" "file_join ''/out/databases'' ''bob_shop.sql'' = ''/out/databases/bob_shop.sql''" by code_simp+
  have checked: "check_parts example_restorer shop_request ''/out'' ?w [''bob_wp''] shop_disk = Inr ?plan"
    using here by (simp add: check_parts_def check_database_dumps_def Let_def join no_wants_def)
  have account: "pv_account example_restorer u = prog_return bob_account" for u
    by (simp add: example_restorer_def rebuilder.defs)
  have "pv_create example_restorer u n = prog_return ()"
    "pv_load example_restorer u n f = prog_fail (ErrMsg ''cpanel: isolated database import failed'' [])" for u n f
    by (simp_all add: example_restorer_def rebuilder.defs)
  moreover have "assigned_selections shop_request \<noteq> []" by (simp add: assigned_selections_def shop_request_def g_database_def)
  moreover have "ac_databases bob_account = [''bob_wp'']" by (simp add: bob_account_def)
  ultimately show ?thesis
    by (simp add: apply_items_def wants account prog_bind_def checked apply_writes_def write_then_def partly_def Let_def)
qed


text \<open>
  A database the account no longer has, asked for by a name that is given twice, is planned to be
  made twice: the check keeps every name as it came, and the second creation is of one that is there.
\<close>

theorem repeated_name_made_twice:
  assumes "there fs (file_join dump_dir (n @ ''.sql'')) d" "n \<notin> set present"
  shows "\<exists>loads. check_database_dumps fs [n, n] present dump_dir d = Inr (loads, [n, n])"
  using assms by (simp add: check_database_dumps_def Let_def)

theorem repeated_name_made_twice_witness:
  "\<exists>loads. check_database_dumps example_os [''bob_shop'', ''bob_shop''] [''bob_wp''] ''/out/databases'' shop_disk = Inr (loads, [''bob_shop'', ''bob_shop''])"
proof -
  have "there example_os (file_join ''/out/databases'' (''bob_shop'' @ ''.sql'')) shop_disk" by code_simp
  from repeated_name_made_twice [OF this] show ?thesis by simp
qed

end
