(* ===== verification/Agent_Restore.thy ===== *)
theory Agent_Restore
  imports Put_Back
begin

text \<open>
  The restore an agent carries out (\<open>RunRestore\<close> in \<open>internal/agent/restore.go\<close> and \<open>restoreItems\<close> in
  \<open>internal/agent/items.go\<close>): where it is staged, the three kinds of it, what is handed to the account's
  provider and what the report promises.
\<close>

section \<open>The report\<close>

record restore_report =
  rt_job_id :: string
  rt_status :: job_status
  rt_bytes :: "64 word"
  rt_archive_path :: string
  rt_restored_to :: string
  rt_detail :: string
  rt_hint :: string
  rt_applied :: bool
  rt_error :: string

definition fresh_restore_report :: "restore_assignment \<Rightarrow> restore_report" where
  "fresh_restore_report a =
     \<lparr>rt_job_id = ra_job_id a, rt_status = StatusFailed, rt_bytes = 0, rt_archive_path = [], rt_restored_to = [], rt_detail = [],
      rt_hint = [], rt_applied = False, rt_error = []\<rparr>"

definition restore_source :: "('x, 'b) restorer_scheme \<Rightarrow> restore_assignment \<Rightarrow> repository_handle res" where
  "restore_source R a = res_bind (build (tg_spec (ra_source a))) (\<lambda>dest. Inr (target_repository R (ra_source a) dest))"

section \<open>Named files\<close>

definition files_target :: "restore_assignment \<Rightarrow> dir \<Rightarrow> string" where
  "files_target a dir = (if ra_target_dir a = [] then file_join (sd_path dir) ''files'' else ra_target_dir a)"

definition files_spec :: "('x, 'b) restorer_scheme \<Rightarrow> restore_assignment \<Rightarrow> dir \<Rightarrow> restore_spec" where
  "files_spec R a dir =
     \<lparr>rs_snapshot_id = ra_snapshot_id a, rs_subpath = [], rs_target = files_target a dir, rs_include = ra_include_paths a, rs_exclude = [],
      rs_verify = False, rs_on_progress = ag_watched R\<rparr>"

definition restore_files :: "('x, 'b) restorer_scheme \<Rightarrow> restore_assignment \<Rightarrow> repository_handle \<Rightarrow> dir \<Rightarrow> restore_report \<Rightarrow> ('x, restore_report) aprog" where
  "restore_files R a repo dir report =
     (if length (ra_include_paths a) = 0 then prog_fail (ErrMsg ''agent: a files restore needs at least one path'' [])
      else prog_bind (on_disk (fs_wrap ''agent: create restore target'' (mkdir_all (ag_os R) (files_target a dir)))) (\<lambda>_.
           prog_bind (restic_restore R repo (files_spec R a dir)) (\<lambda>restored.
           if rr_files_restored restored = 0 then prog_fail (ErrMsg ''agent: no files in the snapshot matched the requested paths'' [])
           else prog_return (report\<lparr>rt_status := StatusSuccess, rt_bytes := of_nat (rr_bytes_restored restored),
                  rt_restored_to := files_target a dir\<rparr>))))"

section \<open>A whole account\<close>

definition missing_databases :: "string list \<Rightarrow> string list \<Rightarrow> string list" where
  "missing_databases archived present = (if length archived = 0 then [] else sort_strings (filter (\<lambda>n. n \<notin> set present) archived))"

definition confirm_restored :: "('x, 'b) restorer_scheme \<Rightarrow> string \<Rightarrow> rebuilt \<Rightarrow> ('x, unit) aprog" where
  "confirm_restored R user b =
     prog_bind (fs_wrap ''agent: cPanel reported the restore as successful, but the account is not on this server afterwards'' (pv_account R user)) (\<lambda>account.
     prog_bind (on_disk (rebuilt_databases (ag_os R) b)) (\<lambda>archived.
     let missing = missing_databases archived (ac_databases account) in
     if length missing > 0
     then prog_fail (ErrMsg ''agent: cPanel reported the restore as successful, but databases are not on the account afterwards'' (user # missing))
     else prog_return ()))"

definition account_rebuild :: "('x, 'b) restorer_scheme \<Rightarrow> restore_assignment \<Rightarrow> repository_handle \<Rightarrow> string \<Rightarrow> rebuild_request" where
  "account_rebuild R a repo work =
     \<lparr>rq_account = ra_cpanel_user a, rq_snapshot_id = ra_snapshot_id a, rq_work_dir = work, rq_repo = repo, rq_watched = ag_watched R\<rparr>"

text \<open>Handing the archive to cPanel, over the account when it is here and as a new one when it is not.\<close>

definition apply_account :: "('x, 'b) restorer_scheme \<Rightarrow> restore_assignment \<Rightarrow> rebuilt \<Rightarrow> ('x, rebuilt) aprog" where
  "apply_account R a b =
     (if \<not> rebuilt_complete b then prog_fail (ErrMsg ''agent: refusing to apply an incomplete account backup'' (rb_skipped b))
      else prog_bind (attempt (pv_account R (ra_cpanel_user a))) (\<lambda>looked.
           prog_bind (pv_apply R (rb_archive_path b) \<lparr>ap_unrestricted = ra_unrestricted a, ap_overwrite = \<not> isl looked\<rparr>) (\<lambda>transcript.
           prog_bind (confirm_restored R (ra_cpanel_user a) b) (\<lambda>_. prog_return b))))"

definition restore_account :: "('x, 'b) restorer_scheme \<Rightarrow> restore_assignment \<Rightarrow> repository_handle \<Rightarrow> dir \<Rightarrow> ('x, rebuilt) aprog" where
  "restore_account R a repo dir =
     prog_bind (rebuild R (account_rebuild R a repo (sd_path dir))) (\<lambda>b.
     if \<not> ra_apply a then prog_return b else apply_account R a b)"

text \<open>\<open>filepath.Rel\<close> of a path in the directory; the archive is always one.\<close>

definition path_within :: "string \<Rightarrow> string \<Rightarrow> string" where
  "path_within base p = (if has_prefix p (base @ ''/'') then drop (length base + 1) p else file_base p)"

definition account_report :: "restore_assignment \<Rightarrow> rebuilt \<Rightarrow> restore_report \<Rightarrow> restore_report" where
  "account_report a b report =
     report\<lparr>rt_status := StatusSuccess, rt_bytes := rb_bytes b, rt_archive_path := rb_archive_path b, rt_applied := ra_apply a\<rparr>"

text \<open>An archive that is to be collected outlives the run, and is looked for before success is reported.\<close>

definition keep_archive :: "('x, 'b) restorer_scheme \<Rightarrow> dir \<Rightarrow> rebuilt \<Rightarrow> restore_report \<Rightarrow> nodes \<times> 'x world \<Rightarrow> (restore_report \<times> bool) \<times> nodes \<times> 'x world" where
  "keep_archive R dir b report st =
     (case on_disk (retain (ag_os R) (ag_manager R) (Some dir)) st of
        (Inl e, st) \<Rightarrow> ((report\<lparr>rt_error := ag_error R e, rt_status := StatusFailed\<rparr>, False), st)
      | (Inr retained, st) \<Rightarrow>
          (let path = file_join (case retained of Some r \<Rightarrow> sd_path r | None \<Rightarrow> []) (path_within (sd_path dir) (rb_archive_path b));
               report = report\<lparr>rt_archive_path := path\<rparr> in
           if there (ag_os R) path (fst st) then ((report, True), st)
           else ((report\<lparr>rt_error := ''the rebuilt archive is not where it should be: '' @ path, rt_status := StatusFailed\<rparr>, True), st)))"

definition deliver_account :: "('x, 'b) restorer_scheme \<Rightarrow> restore_assignment \<Rightarrow> repository_handle \<Rightarrow> dir \<Rightarrow> restore_report \<Rightarrow> ('x, restore_report \<times> bool) aprog" where
  "deliver_account R a repo dir report =
     prog_bind (restore_account R a repo dir) (\<lambda>b.
     if ra_apply a then prog_return (account_report a b report, False)
     else (\<lambda>st. case keep_archive R dir b (account_report a b report) st of (out, st) \<Rightarrow> (Inr out, st)))"

section \<open>Parts of an account\<close>

definition items_rebuild :: "restore_assignment \<Rightarrow> repository_handle \<Rightarrow> string \<Rightarrow> rebuild_request" where
  "items_rebuild a repo work =
     \<lparr>rq_account = ra_cpanel_user a, rq_snapshot_id = ra_snapshot_id a, rq_work_dir = work, rq_repo = repo, rq_watched = False\<rparr>"

definition items_spec :: "('x, 'b) restorer_scheme \<Rightarrow> snapshot \<Rightarrow> g_plan \<Rightarrow> string \<Rightarrow> restore_spec" where
  "items_spec R s plan raw =
     \<lparr>rs_snapshot_id = sn_id s, rs_subpath = [], rs_target = raw, rs_include = gp_include plan, rs_exclude = [],
      rs_verify = False, rs_on_progress = ag_watched R\<rparr>"

definition adopt_part :: "('x, 'b) restorer_scheme \<Rightarrow> string \<Rightarrow> string \<Rightarrow> string \<Rightarrow> string \<Rightarrow> (nodes, unit) prog" where
  "adopt_part R raw part out name =
     (if part \<noteq> [] then adopt R (file_join raw part) (file_join out name) else prog_return ())"

definition take_members :: "('x, 'b) restorer_scheme \<Rightarrow> string \<Rightarrow> string \<Rightarrow> g_plan \<Rightarrow> (nodes, unit) prog" where
  "take_members R raw out plan =
     (if length (gp_members plan) > 0
      then prog_bind (account_tar (ag_os R) (file_join raw (gp_metadata plan))) (\<lambda>archive d.
             let dir = file_join out ''metadata'' in
             case extract_members (rb_root R dir d) (rb_archive R archive d) (gp_members plan) of
               ((_, e), ops) \<Rightarrow> (case e of Some e \<Rightarrow> Inl e | None \<Rightarrow> Inr (), rb_perform R dir ops d))
      else prog_return ())"

text \<open>What restic brought out, sorted under names that say where it belongs, and counted.\<close>

definition stage_items :: "('x, 'b) restorer_scheme \<Rightarrow> string \<Rightarrow> string \<Rightarrow> parts \<Rightarrow> g_plan \<Rightarrow> (nodes, nat \<times> 64 word) prog" where
  "stage_items R raw out parts plan =
     prog_bind (fs_wrap ''agent: create the restore tree'' (mkdir_all (ag_os R) out)) (\<lambda>_.
     prog_bind (adopt_part R raw (sp_homedir parts) out ''homedir'') (\<lambda>_.
     prog_bind (adopt_part R raw (sp_databases parts) out ''databases'') (\<lambda>_.
     prog_bind (adopt_part R raw (sp_system parts) out ''system'') (\<lambda>_.
     prog_bind (take_members R raw out plan) (\<lambda>_.
     prog_bind (measure_tree (ag_os R) out) (\<lambda>(files, bytes).
     if files = 0 then prog_fail (ErrMsg ''agent: this backup holds nothing for'' [gp_description plan])
     else prog_return (files, bytes)))))))"

text \<open>The report of parts written into the live account, also when writing them failed half way.\<close>

definition applied_report :: "('x, 'b) restorer_scheme \<Rightarrow> restore_report \<Rightarrow> 64 word \<Rightarrow> string \<times> string \<times> err option \<Rightarrow> restore_report" where
  "applied_report R report bytes outcome =
     (case outcome of
        (written, hint, Some e) \<Rightarrow>
          report\<lparr>rt_error := ag_error R e, rt_hint := hint, rt_detail := written, rt_applied := written \<noteq> []\<rparr>
      | (written, hint, None) \<Rightarrow>
          report\<lparr>rt_status := StatusSuccess, rt_bytes := bytes, rt_applied := True, rt_detail := written\<rparr>)"

definition put_items_back :: "('x, 'b) restorer_scheme \<Rightarrow> restore_assignment \<Rightarrow> string \<Rightarrow> string \<Rightarrow> 64 word \<Rightarrow> restore_report \<Rightarrow> ('x, restore_report \<times> bool) aprog" where
  "put_items_back R a raw out bytes report =
     prog_bind (quietly (on_disk (fs_remove_all (ag_os R) raw))) (\<lambda>_ st.
     case apply_items R a out st of (outcome, st) \<Rightarrow> (Inr (applied_report R report bytes outcome, False), st))"

definition hand_items_over :: "('x, 'b) restorer_scheme \<Rightarrow> restore_assignment \<Rightarrow> dir \<Rightarrow> string \<Rightarrow> string \<Rightarrow> g_plan \<Rightarrow> nat \<Rightarrow> 64 word \<Rightarrow> restore_report \<Rightarrow>
    ('x, restore_report \<times> bool) aprog" where
  "hand_items_over R a dir raw out plan files bytes report =
     (let archive = file_join (sd_path dir) (''items-'' @ ra_cpanel_user a @ ''-'' @ items_label a @ ''.tar'') in
      prog_bind (on_disk (pack R out archive)) (\<lambda>_.
      prog_bind (quietly (on_disk (fs_remove_all (ag_os R) raw))) (\<lambda>_.
      prog_bind (on_disk (retain (ag_os R) (ag_manager R) (Some dir))) (\<lambda>retained.
      let path = (case retained of Some r \<Rightarrow> sd_path r | None \<Rightarrow> []) in
      prog_return (report\<lparr>rt_status := StatusSuccess, rt_bytes := bytes, rt_archive_path := file_join path (file_base archive),
        rt_restored_to := file_join path ''items'', rt_detail := itoa (int files) @ '' files of '' @ gp_description plan\<rparr>, True)))))"

definition restore_items :: "('x, 'b) restorer_scheme \<Rightarrow> restore_assignment \<Rightarrow> repository_handle \<Rightarrow> dir \<Rightarrow> restore_report \<Rightarrow> ('x, restore_report \<times> bool) aprog" where
  "restore_items R a repo dir report =
     (let raw = file_join (sd_path dir) ''raw''; out = file_join (sd_path dir) ''items'' in
      prog_bind (find_snapshot R (items_rebuild a repo (sd_path dir))) (\<lambda>s.
      prog_bind (prog_lift (classify_paths (sn_paths s))) (\<lambda>parts.
      prog_bind (prog_lift (build_all parts (item_requests a))) (\<lambda>plan.
      prog_bind (restic_restore R repo (items_spec R s plan raw)) (\<lambda>restored.
      if rr_files_restored restored = 0 then prog_fail (ErrMsg ''agent: nothing in this backup matched'' [gp_description plan])
      else prog_bind (on_disk (stage_items R raw out parts plan)) (\<lambda>(files, bytes).
           if ra_apply a then put_items_back R a raw out bytes report
           else hand_items_over R a dir raw out plan files bytes report))))))"

section \<open>The run\<close>

definition restore_group :: "restore_assignment \<Rightarrow> string" where
  "restore_group a =
     (if ra_kind a = kind_items then ''items-'' @ ra_cpanel_user a @ ''@'' else ''restore-'' @ ra_cpanel_user a @ ''@'')"

definition staging_key :: "restore_assignment \<Rightarrow> string" where
  "staging_key a = restore_group a @ ra_job_id a"

text \<open>The answer is the report and whether the staging directory now holds something to collect.\<close>

definition deliver :: "('x, 'b) restorer_scheme \<Rightarrow> restore_assignment \<Rightarrow> repository_handle \<Rightarrow> dir \<Rightarrow> restore_report \<Rightarrow> ('x, restore_report \<times> bool) aprog" where
  "deliver R a repo dir report =
     (if ra_kind a = kind_files then prog_bind (restore_files R a repo dir report) (\<lambda>report. prog_return (report, False))
      else if ra_kind a = kind_items then restore_items R a repo dir report
      else if ra_kind a = kind_account \<or> ra_kind a = [] then deliver_account R a repo dir report
      else prog_fail (ErrMsg ''agent: unknown restore kind'' [ra_kind a]))"

text \<open>The deferred release, of everything that is not to be collected.\<close>

definition finish_restore :: "('x, 'b) restorer_scheme \<Rightarrow> dir \<Rightarrow> restore_report \<Rightarrow> bool \<Rightarrow> nodes \<times> 'x world \<Rightarrow> restore_report \<times> nodes \<times> 'x world" where
  "finish_restore R dir report kept st =
     (report, if kept then st else snd (on_disk (release (ag_os R) (ag_manager R) (Some dir)) st))"

definition prepare_restore :: "('x, 'b) restorer_scheme \<Rightarrow> restore_assignment \<Rightarrow> repository_handle \<Rightarrow> ('x, dir) aprog" where
  "prepare_restore R a repo =
     prog_bind (find_snapshot R (items_rebuild a repo [])) (\<lambda>s.
     prog_bind (on_restic (restore_size (ag_sys R) (ag_runner R) (ag_codec R) repo s)) (\<lambda>source.
     prog_bind (on_disk (supersede_outputs (ag_os R) (ag_manager R) (restore_group a))) (\<lambda>_.
     on_disk (allocate (ag_os R) (ag_manager R) (staging_key a) (max (ra_size_estimate a) (staging_bytes (of_nat source)))))))"

definition run_restore :: "('x, 'b) restorer_scheme \<Rightarrow> restore_assignment \<Rightarrow> nodes \<times> 'x world \<Rightarrow> restore_report \<times> nodes \<times> 'x world" where
  "run_restore R a st =
     (let report = fresh_restore_report a; failed = (\<lambda>e. report\<lparr>rt_error := ag_error R e\<rparr>) in
      case restore_source R a of
        Inl e \<Rightarrow> (failed e, st)
      | Inr repo \<Rightarrow> (case prepare_restore R a repo st of
          (Inl e, st) \<Rightarrow> (failed e, st)
        | (Inr dir, st) \<Rightarrow> (case deliver R a repo dir report st of
            (Inl e, st) \<Rightarrow> finish_restore R dir (failed e) False st
          | (Inr (report, kept), st) \<Rightarrow> finish_restore R dir report kept st)))"

section \<open>A restore that leaves a copy\<close>

text \<open>Two servers that differ in nothing but what the account provider does.\<close>

definition same_but_provider :: "('x, 'b) restorer_scheme \<Rightarrow> ('x, 'c) restorer_scheme \<Rightarrow> bool" where
  "same_but_provider R R' \<longleftrightarrow>
     ag_sys R' = ag_sys R \<and> ag_runner R' = ag_runner R \<and> ag_codec R' = ag_codec R \<and> ag_net R' = ag_net R \<and> ag_os R' = ag_os R \<and>
     ag_manager R' = ag_manager R \<and> ag_error R' = ag_error R \<and> ag_watched R' = ag_watched R \<and> rb_wrote R' = rb_wrote R \<and>
     rb_archive R' = rb_archive R \<and> rb_root R' = rb_root R \<and> rb_perform R' = rb_perform R \<and> rb_walk R' = rb_walk R \<and>
     rb_create R' = rb_create R \<and> rb_packed R' = rb_packed R \<and> rb_cancelled R' = rb_cancelled R \<and> rb_copy R' = rb_copy R"

named_theorems provider_free

lemma same_fields [provider_free]:
  assumes "same_but_provider R R'"
  shows "ag_sys R' = ag_sys R" "ag_runner R' = ag_runner R" "ag_codec R' = ag_codec R" "ag_net R' = ag_net R" "ag_os R' = ag_os R"
    "ag_manager R' = ag_manager R" "ag_error R' = ag_error R" "ag_watched R' = ag_watched R" "rb_wrote R' = rb_wrote R"
    "rb_archive R' = rb_archive R" "rb_root R' = rb_root R" "rb_perform R' = rb_perform R" "rb_walk R' = rb_walk R"
    "rb_create R' = rb_create R" "rb_packed R' = rb_packed R" "rb_cancelled R' = rb_cancelled R" "rb_copy R' = rb_copy R"
  using assms by (simp_all add: same_but_provider_def)

lemma same_restic [provider_free]:
  assumes "same_but_provider R R'"
  shows "find_snapshot R' q = find_snapshot R q" "restic_restore R' repo spec = restic_restore R repo spec"
    "restore_source R' a = restore_source R a"
  by (simp_all add: find_snapshot_def restic_restore_def restore_source_def target_repository_def provider_free [OF assms] cong del: option.case_cong_weak sum.case_cong_weak prod.case_cong_weak if_weak_cong)

lemma same_disk [provider_free]:
  assumes "same_but_provider R R'"
  shows "validate_file R' archive user = validate_file R archive user" "unpack R' archive dir = unpack R archive dir"
    "pack R' dir archive = pack R dir archive"
  by (simp_all add: validate_file_def unpack_def pack_def provider_free [OF assms] cong del: option.case_cong_weak sum.case_cong_weak prod.case_cong_weak if_weak_cong)

lemma same_rebuild [provider_free]:
  assumes "same_but_provider R R'"
  shows "rebuild R' q = rebuild R q"
  by (simp add: rebuild_def restore_monolithic_def restore_split_def restore_databases_def restore_part_def provider_free [OF assms] cong del: option.case_cong_weak sum.case_cong_weak prod.case_cong_weak if_weak_cong)

lemma same_copy [provider_free]:
  assumes "same_but_provider R R'"
  shows "copy_tree R' to es = copy_tree R to es"
proof (induction es)
  case (Cons e es)
  have "copy_ops R' cs = copy_ops R cs" for cs
    by (induction cs) (simp_all add: provider_free [OF assms] cong del: option.case_cong_weak sum.case_cong_weak prod.case_cong_weak if_weak_cong)
  with Cons show ?case by (simp cong del: option.case_cong_weak sum.case_cong_weak prod.case_cong_weak if_weak_cong)
qed simp

lemma same_stage [provider_free]:
  assumes "same_but_provider R R'"
  shows "stage_items R' raw out parts plan = stage_items R raw out parts plan"
  by (simp add: stage_items_def adopt_part_def adopt_def take_members_def provider_free [OF assms] cong del: option.case_cong_weak sum.case_cong_weak prod.case_cong_weak if_weak_cong)

lemma same_prepare [provider_free]:
  assumes "same_but_provider R R'"
  shows "prepare_restore R' a repo = prepare_restore R a repo"
  by (simp add: prepare_restore_def provider_free [OF assms] cong del: option.case_cong_weak sum.case_cong_weak prod.case_cong_weak if_weak_cong)

lemma same_deliver [provider_free]:
  assumes "same_but_provider R R'" "\<not> ra_apply a"
  shows "deliver R' a repo dir report = deliver R a repo dir report"
  using assms(2)
  by (simp add: deliver_def restore_files_def files_spec_def restore_items_def items_spec_def hand_items_over_def deliver_account_def
      restore_account_def account_rebuild_def keep_archive_def provider_free [OF assms(1)] cong del: option.case_cong_weak sum.case_cong_weak prod.case_cong_weak if_weak_cong)

text \<open>
  C21. A restore that was not asked to write into the live account does not: of whatever kind it is and
  however it ends, its report and what it leaves on the disk and in the world are the same whatever the
  account provider does, so nothing of the account is created, loaded, granted, written or even asked for.
\<close>

theorem copy_restore_touches_no_account:
  assumes "\<not> ra_apply a" "same_but_provider R R'"
  shows "run_restore R' a st = run_restore R a st"
  by (simp add: run_restore_def finish_restore_def same_deliver [OF assms(2, 1)] provider_free [OF assms(2)] Let_def cong del: option.case_cong_weak sum.case_cong_weak prod.case_cong_weak if_weak_cong)

section \<open>A run that ends in success\<close>

lemma run_restore_success:
  assumes "run_restore R a st = (r, st')" "rt_status r = StatusSuccess"
  obtains repo dir st1 kept st2 where "restore_source R a = Inr repo" "prepare_restore R a repo st = (Inr dir, st1)"
    "deliver R a repo dir (fresh_restore_report a) st1 = (Inr (r, kept), st2)" "st' = snd (finish_restore R dir r kept st2)"
proof -
  have fresh: "rt_status (fresh_restore_report a) = StatusFailed" by (simp add: fresh_restore_report_def)
  from assms fresh obtain repo where repo: "restore_source R a = Inr repo"
    by (cases "restore_source R a") (auto simp: run_restore_def)
  obtain x st1 where prep: "prepare_restore R a repo st = (x, st1)" by (cases "prepare_restore R a repo st")
  with assms repo fresh obtain dir where x: "x = Inr dir" by (cases x) (auto simp: run_restore_def)
  obtain y st2 where del: "deliver R a repo dir (fresh_restore_report a) st1 = (y, st2)" by (cases "deliver R a repo dir (fresh_restore_report a) st1")
  with assms repo prep x fresh obtain out where y: "y = Inr out" by (cases y) (auto simp: run_restore_def finish_restore_def)
  obtain report kept where out: "out = (report, kept)" by fastforce
  from assms(1) repo prep x del y out have "report = r" "st' = snd (finish_restore R dir report kept st2)"
    by (auto simp: run_restore_def finish_restore_def)
  with repo prep x del y out that show ?thesis by blast
qed

lemma prepare_restore_Inr:
  assumes "prepare_restore R a repo st = (Inr dir, st')"
  shows "validate_key (staging_key a) = Inr ()" "sd_path dir = file_join (mg_root (ag_manager R)) (stage_prefix @ staging_key a)"
proof -
  from assms [unfolded prepare_restore_def prog_bind_eq_Inr on_disk_Inr] obtain source d1 where "allocate (ag_os R) (ag_manager R) (staging_key a) (max (ra_size_estimate a) (staging_bytes (of_nat source))) d1 = (Inr dir, fst st')"
    by (elim exE conjE) (rule that)
  from allocate_Inr(1, 6) [OF this] show "validate_key (staging_key a) = Inr ()"
    "sd_path dir = file_join (mg_root (ag_manager R)) (stage_prefix @ staging_key a)" by simp_all
qed

lemma join_below:
  assumes "is_abs p" "path_clean p = p" "p \<noteq> ''/''" "plain_seg name"
  shows "file_join p name = p @ ''/'' @ name"
  using good_root_facts(3) [of "\<lparr>mg_root = p, mg_margin = 0, mg_max = 0\<rparr>" name] assms by (simp add: good_root_def)

text \<open>
  C14. Files restored without a directory to put them in are lost: the run ends in success and its report
  says where they were left, below the restore's own staging directory - and nothing of that directory is
  on the disk any more when the report is given.
\<close>

theorem restored_files_without_target_lost:
  assumes "run_restore R a st = (r, st')" "rt_status r = StatusSuccess" "ra_kind a = kind_files" "ra_target_dir a = []"
    and "good_root (ag_manager R)" "\<And>p e. os_fault (ag_os R) OpRemove p e = None"
  shows "rt_restored_to r = mg_root (ag_manager R) @ ''/stage-restore-'' @ ra_cpanel_user a @ ''@'' @ ra_job_id a @ ''/files'' \<and>
    list_all (\<lambda>(q, n). \<not> lies_under (rt_restored_to r) q) (fst st')"
proof -
  let ?key = "staging_key a" and ?M = "ag_manager R"
  let ?stage = "mg_root ?M @ ''/stage-'' @ ?key"
  obtain repo dir st1 kept st2 where "restore_source R a = Inr repo" and prep: "prepare_restore R a repo st = (Inr dir, st1)"
    and del: "deliver R a repo dir (fresh_restore_report a) st1 = (Inr (r, kept), st2)" and st': "st' = snd (finish_restore R dir r kept st2)"
    by (rule run_restore_success [OF assms(1, 2)])
  note key = prepare_restore_Inr(1) [OF prep]
  note clean = stage_path_clean [OF assms(5) key]
  have dir: "sd_path dir = ?stage" using prepare_restore_Inr(2) [OF prep] clean(1) by simp
  have abs: "is_abs ?stage" using assms(5) by (auto simp: good_root_def is_abs_def has_prefix_iff)
  have ne: "?stage \<noteq> ''/''" by (cases "mg_root ?M") auto
  have "plain_seg ''files''" by (simp add: plain_seg_def)
  from join_below [OF abs clean(2) ne this] have target: "file_join (sd_path dir) ''files'' = ?stage @ ''/files''" by (simp add: dir)
  from del assms(3) have kept: "\<not> kept" and files: "restore_files R a repo dir (fresh_restore_report a) st1 = (Inr r, st2)"
    by (auto simp: deliver_def prog_bind_eq_Inr)
  from files have "rt_restored_to r = files_target a dir"
    by (auto simp: restore_files_def prog_bind_eq_Inr split: if_splits)
  then have to: "rt_restored_to r = ?stage @ ''/files''" using assms(4) target by (simp add: files_target_def)
  have "has_prefix (path_clean ?stage) (path_clean (mg_root ?M) @ ''/'')"
    by (simp only: clean has_prefix_iff) (rule exI [of _ "''stage-'' @ ?key"], simp)
  then have gone: "fst st' = filter (\<lambda>(q, n). \<not> lies_under ?stage q) (fst st2)"
    unfolding st' finish_restore_def using kept assms(6) dir
    by (cases st2) (simp add: on_disk_def release_def fs_wrap_def fs_remove_all_def)
  have "lies_under (?stage @ ''/files'') q \<Longrightarrow> lies_under ?stage q" for q
    by (auto simp: lies_under_def has_prefix_iff)
  with gone to have "list_all (\<lambda>(q, n). \<not> lies_under (rt_restored_to r) q) (fst st')"
    by (auto simp: list_all_iff)
  moreover have "?key = ''restore-'' @ ra_cpanel_user a @ ''@'' @ ra_job_id a"
    using assms(3) by (simp add: staging_key_def restore_group_def kind_files_def kind_items_def)
  ultimately show ?thesis using to by simp
qed

section \<open>An applied account is looked for\<close>

lemma attempt_Inr: "attempt m s = (Inr r, t) \<longleftrightarrow> m s = (r, t)"
  by (auto simp: attempt_eq prod_eq_iff)

lemma missing_databases_Nil: "missing_databases archived present = [] \<longleftrightarrow> set archived \<subseteq> set present"
proof -
  have "sort_strings xs = [] \<longleftrightarrow> xs = []" for xs
    using set_sort_strings [of xs] by (metis set_empty)
  then show ?thesis by (auto simp: missing_databases_def filter_empty_conv)
qed

text \<open>
  The archive went to cPanel's restore, over the account exactly when the account was here, and afterwards
  the account was there with every database the archive holds.
\<close>

definition seen_on_server :: "('x, 'b) restorer_scheme \<Rightarrow> restore_assignment \<Rightarrow> rebuilt \<Rightarrow> bool" where
  "seen_on_server R a b \<longleftrightarrow>
     (\<exists>before looked asked transcript handed account after archived.
        pv_account R (ra_cpanel_user a) before = (looked, asked) \<and>
        pv_apply R (rb_archive_path b) \<lparr>ap_unrestricted = ra_unrestricted a, ap_overwrite = \<not> isl looked\<rparr> asked = (Inr transcript, handed) \<and>
        pv_account R (ra_cpanel_user a) handed = (Inr account, after) \<and>
        fst (rebuilt_databases (ag_os R) b (fst after)) = Inr archived \<and> set archived \<subseteq> set (ac_databases account))"

lemma apply_account_Inr:
  assumes "apply_account R a b st = (Inr b', st')"
  shows "b' = b \<and> rebuilt_complete b \<and> seen_on_server R a b"
proof -
  from assms have complete: "rebuilt_complete b" by (auto simp: apply_account_def split: if_splits)
  with assms obtain looked asked transcript handed u where steps: "pv_account R (ra_cpanel_user a) st = (looked, asked)"
    "pv_apply R (rb_archive_path b) \<lparr>ap_unrestricted = ra_unrestricted a, ap_overwrite = \<not> isl looked\<rparr> asked = (Inr transcript, handed)"
    "confirm_restored R (ra_cpanel_user a) b handed = (Inr u, st')" "b' = b"
    by (auto simp: apply_account_def prog_bind_eq_Inr attempt_Inr)
  from steps(3) obtain account after archived where "pv_account R (ra_cpanel_user a) handed = (Inr account, after)"
    "fst (rebuilt_databases (ag_os R) b (fst after)) = Inr archived" "missing_databases archived (ac_databases account) = []"
    by (auto simp: confirm_restored_def prog_bind_eq_Inr on_disk_Inr fs_wrap_Inr Let_def split: if_splits)
  with steps complete show ?thesis unfolding seen_on_server_def missing_databases_Nil by blast
qed


section \<open>A server the properties apply to\<close>

theorem copy_restore_touches_no_account_witness:
  "run_restore (example_restorer\<lparr>pv_account := \<lambda>_. prog_fail ErrNotFound, pv_home := \<lambda>_ _. prog_fail ErrNotFound\<rparr>)
     (shop_request\<lparr>ra_apply := False\<rparr>) ([], example_world) = run_restore example_restorer (shop_request\<lparr>ra_apply := False\<rparr>) ([], example_world)"
  by (rule copy_restore_touches_no_account) (simp_all add: same_but_provider_def)

definition sized_snapshot :: snapshot where "sized_snapshot = bob_snapshot\<lparr>sn_bytes_processed := 4096\<rparr>"

definition collecting_server :: "unit restorer" where
  "collecting_server = example_restorer\<lparr>ag_codec := (example_codec [sized_snapshot])\<lparr>js_restore_result := \<lambda>r _. Inr (r\<lparr>rr_files_restored := 3\<rparr>)\<rparr>\<rparr>"

definition files_request :: restore_assignment where
  "files_request = shop_request\<lparr>ra_kind := kind_files, ra_include_paths := [''/home/bob/index.php''], ra_apply := False\<rparr>"

lemma collecting_fields:
  "ag_sys collecting_server = reply_sys (\<lambda>_. ''{}'')" "ag_runner collecting_server = example_config"
  "ag_codec collecting_server = (example_codec [sized_snapshot])\<lparr>js_restore_result := \<lambda>r _. Inr (r\<lparr>rr_files_restored := 3\<rparr>)\<rparr>"
  by (simp_all add: collecting_server_def example_restorer_def rebuilder.defs example_rebuilder_def agent.defs example_agent_def)

lemma sized_found:
  assumes "plain_handle (rq_repo q)" "rq_account q = ''bob''" "rq_snapshot_id q = ''0badc0de''"
  shows "\<exists>w'. find_snapshot collecting_server q (d, w) = (Inr sized_snapshot, (d, w'))"
proof -
  let ?f = "\<lparr>sf_tags = [''account:bob''], sf_host = [], sf_latest = 0\<rparr>"
  have vis: "newest_first_limit 0 (visible_snapshots [sized_snapshot] []) = [sized_snapshot]"
    by (simp add: newest_first_limit_def visible_snapshots_def sized_snapshot_def bob_snapshot_def example_snapshot_def needs_completion_tag_def completion_receipt_tag_def)
  have needs: "\<not> list_ex (\<lambda>s. has_tag (sn_tags s) needs_completion_tag) [sized_snapshot]"
    by (simp add: sized_snapshot_def bob_snapshot_def example_snapshot_def needs_completion_tag_def)
  have "snapshot_account sized_snapshot = ''bob''" "sn_short_id sized_snapshot = ''0badc0de''" by code_simp+
  then have picked: "pick_snapshot ''bob'' ''0badc0de'' [sized_snapshot] = Inr sized_snapshot" by simp
  let ?J = "(example_codec [sized_snapshot])\<lparr>js_restore_result := \<lambda>r _. Inr (r\<lparr>rr_files_restored := 3\<rparr>)\<rparr>"
  obtain w1 where "raw_snapshots (reply_sys (\<lambda>_. ''{}'')) example_config ?J (rq_repo q) ?f w = (Inr [sized_snapshot], w1)"
    using plain_run [OF assms(1), of "\<lambda>_. ''{}''" "snapshots_args ?f" False False False w]
    by (auto simp: raw_snapshots_def example_codec_def wrap_err_def)
  then have "snapshots (reply_sys (\<lambda>_. ''{}'')) example_config ?J (rq_repo q) ?f w = (Inr [sized_snapshot], w1)"
    using needs vis by (simp add: snapshots_def)
  then show ?thesis
    using assms(2, 3) by (simp add: find_snapshot_def collecting_fields on_restic_def prog_bind_def picked del: pick_snapshot.simps)
qed

lemma collected:
  assumes "plain_handle repo" "restore_args spec = Inr args"
  shows "\<exists>r w' d'. restic_restore collecting_server repo spec (d, w) = (Inr r, (d', w')) \<and> rr_files_restored r = 3"
proof -
  have scanned: "scan_lines ''{}'' = [''{}'']" "trim_space ''{}'' = ''{}''" by code_simp+
  show ?thesis
    using plain_run [OF assms(1), of "\<lambda>_. ''{}''" args "rs_on_progress spec" False False w] assms(2)
    by (auto simp: restic_restore_def restore_def prog_bind_def collecting_fields
        parse_summary_def last_message_def is_message_def scanned example_codec_def max_scan_line_def)
qed

lemma files_source: "\<exists>repo. restore_source collecting_server files_request = Inr repo \<and> plain_handle repo"
proof -
  let ?t = "ra_source files_request"
  have "case build (tg_spec ?t) of Inl e \<Rightarrow> False | Inr dest \<Rightarrow>
     d_uri (backend_of (ag_net collecting_server) dest) ''bob'' = Inr ''/mnt/nas/bob'' \<and> d_env (backend_of (ag_net collecting_server) dest) = Inr [] \<and>
     d_options (backend_of (ag_net collecting_server) dest) = Inr []" by code_simp
  then show ?thesis
    by (auto simp: restore_source_def plain_handle_def target_repository_def files_request_def shop_request_def split: sum.splits)
qed

definition stage_of_r1 :: dir where
  "stage_of_r1 = \<lparr>sd_path = ''/stage/stage-restore-bob@r1'', sd_retained = False, sd_key = ''restore-bob@r1''\<rparr>"

lemma restore_prepared:
  assumes "plain_handle repo" "ra_cpanel_user a = ''bob''" "ra_snapshot_id a = ''0badc0de''" "ra_job_id a = ''r1''"
    "ra_kind a \<noteq> kind_items" "ra_size_estimate a = 0"
  shows "\<exists>w1. prepare_restore collecting_server a repo ([], w) = (Inr stage_of_r1, ([(''/stage/stage-restore-bob@r1'', FDir 5)], w1))"
proof -
  have q: "rq_repo (items_rebuild a repo []) = repo" "rq_account (items_rebuild a repo []) = ''bob''"
    "rq_snapshot_id (items_rebuild a repo []) = ''0badc0de''"
    using assms by (simp_all add: items_rebuild_def)
  obtain w1 where found: "find_snapshot collecting_server (items_rebuild a repo []) ([], w) = (Inr sized_snapshot, ([], w1))"
    using sized_found [of "items_rebuild a repo []" "[]" w] assms(1) q by auto
  have size: "restore_size S cfg J repo sized_snapshot w = (Inr 4096, w)" for S :: "unit sys" and cfg J repo w
    by (simp add: restore_size_def sized_snapshot_def)
  have disk: "supersede_outputs (ag_os collecting_server) (ag_manager collecting_server) ''restore-bob@'' [] = (Inr [], [])"
    "allocate (ag_os collecting_server) (ag_manager collecting_server) ''restore-bob@r1'' (max 0 (staging_bytes (of_nat 4096))) [] =
       (Inr stage_of_r1, [(''/stage/stage-restore-bob@r1'', FDir 5)])"
    by code_simp+
  have group: "restore_group a = ''restore-bob@''" using assms by (simp add: restore_group_def)
  then have key: "staging_key a = ''restore-bob@r1''" using assms by (simp add: staging_key_def)
  show ?thesis
    using disk(2) by (simp add: prepare_restore_def prog_bind_def found on_restic_def size on_disk_def disk(1) group key assms(6))
qed

lemma files_request_runs:
  "rt_status (fst (run_restore collecting_server files_request ([], example_world))) = StatusSuccess"
proof -
  let ?R = collecting_server and ?a = files_request
  let ?stage = "''/stage/stage-restore-bob@r1''"
  let ?dir = stage_of_r1
  obtain repo where repo: "restore_source ?R ?a = Inr repo" and plain: "plain_handle repo" using files_source by blast
  obtain w1 where prep: "prepare_restore ?R ?a repo ([], example_world) = (Inr ?dir, ([(?stage, FDir 5)], w1))"
    using restore_prepared [OF plain, of ?a example_world]
    by (auto simp: files_request_def shop_request_def kind_files_def kind_items_def)
  have disk: "fst (mkdir_all (ag_os ?R) (files_target ?a ?dir) [(?stage, FDir 5)]) = Inr ()" "\<not> isl (restore_args (files_spec ?R ?a ?dir))"
    by code_simp+
  obtain d2 where made: "mkdir_all (ag_os ?R) (files_target ?a ?dir) [(?stage, FDir 5)] = (Inr (), d2)"
    using disk(1) by (metis prod.collapse)
  from disk(2) obtain args where "restore_args (files_spec ?R ?a ?dir) = Inr args" by (cases "restore_args (files_spec ?R ?a ?dir)") auto
  from collected [OF plain this, of d2 w1] obtain r d3 w2 where
    restored: "restic_restore ?R repo (files_spec ?R ?a ?dir) (d2, w1) = (Inr r, (d3, w2))" "rr_files_restored r = 3"
    by blast
  have kind: "ra_kind ?a = kind_files" "ra_include_paths ?a \<noteq> []" by (simp_all add: files_request_def)
  from made restored kind have "\<exists>report. rt_status report = StatusSuccess \<and>
      deliver ?R ?a repo ?dir (fresh_restore_report ?a) ([(?stage, FDir 5)], w1) = (Inr (report, False), (d3, w2))"
    by (simp add: deliver_def restore_files_def prog_bind_def on_disk_def fs_wrap_def)
  with repo prep show ?thesis by (auto simp: run_restore_def finish_restore_def)
qed

theorem restored_files_without_target_lost_witness:
  "\<exists>r st'. run_restore collecting_server files_request ([], example_world) = (r, st') \<and> rt_status r = StatusSuccess \<and>
     rt_restored_to r = ''/stage/stage-restore-bob@r1/files'' \<and> map_of (fst st') ''/stage/stage-restore-bob@r1/files'' = None"
proof -
  obtain r st' where run: "run_restore collecting_server files_request ([], example_world) = (r, st')"
    by (cases "run_restore collecting_server files_request ([], example_world)")
  have ok: "rt_status r = StatusSuccess" using files_request_runs run by simp
  have manager: "ag_manager collecting_server = example_manager" "ag_os collecting_server = example_os\<lparr>os_statfs := \<lambda>_ _. Inr (2 ^ 30, 4)\<rparr>"
    by (simp_all add: collecting_server_def example_restorer_def rebuilder.defs example_rebuilder_def agent.defs example_agent_def)
  have kind: "ra_kind files_request = kind_files" "ra_target_dir files_request = []" "ra_cpanel_user files_request = ''bob''" "ra_job_id files_request = ''r1''"
    by (simp_all add: files_request_def shop_request_def)
  have root: "mg_root (ag_manager collecting_server) = ''/stage''" by (simp add: manager example_manager_def)
  have good: "good_root (ag_manager collecting_server)" by (simp add: manager good_example_manager)
  have removes: "os_fault (ag_os collecting_server) OpRemove p e = None" for p e by (simp add: manager example_os_def)
  have "rt_restored_to r = ''/stage/stage-restore-bob@r1/files'' \<and> list_all (\<lambda>(q, n). \<not> lies_under (rt_restored_to r) q) (fst st')"
    using restored_files_without_target_lost [OF run ok kind(1, 2) good removes] unfolding root kind by auto
  then have "rt_restored_to r = ''/stage/stage-restore-bob@r1/files''" "map_of (fst st') ''/stage/stage-restore-bob@r1/files'' = None"
    by (auto simp: map_of_eq_None_iff list_all_iff lies_under_def)
  with run ok show ?thesis by blast
qed

definition apply_request :: restore_assignment where
  "apply_request = shop_request\<lparr>ra_kind := kind_account, ra_item_kind := [], ra_item_names := []\<rparr>"

lemma apply_rebuilds:
  assumes "plain_handle repo" "rq_account q = ''bob''" "rq_snapshot_id q = ''0badc0de''" "rq_repo q = repo"
    "rq_work_dir q = ''/stage/stage-restore-bob@r1''"
  shows "\<exists>b d' w'. rebuild collecting_server q (d, w) = (Inr b, (d', w')) \<and> rebuilt_complete b \<and> rb_mode b = mode_monolithic"
proof -
  let ?R = collecting_server and ?archive = "''/stage/stage-restore-bob@r1/archive/cpmove-bob.tar''"
  let ?found = "no_parts\<lparr>sp_archive := ''/stage/stage-bob/cpmove-bob.tar''\<rparr>"
  let ?spec = "part_spec q sized_snapshot ''/stage/stage-bob'' ''/stage/stage-restore-bob@r1/archive''"
  let ?d = "(?archive, FFile 9 5) # d"
  have eval: "classify_paths (sn_paths sized_snapshot) = Inr ?found" "parts_mode ?found = mode_monolithic"
    "path_dir ''/stage/stage-bob/cpmove-bob.tar'' = ''/stage/stage-bob''" "file_base ''/stage/stage-bob/cpmove-bob.tar'' = ''cpmove-bob.tar''"
    "file_join ''/stage/stage-restore-bob@r1'' ''archive'' = ''/stage/stage-restore-bob@r1/archive''"
    "file_join ''/stage/stage-restore-bob@r1/archive'' ''cpmove-bob.tar'' = ?archive" "skipped sized_snapshot = []"
    "\<not> isl (validate_snapshot_id (sn_id sized_snapshot))"
    by code_simp+
  have whole: "validate_account_archive (rb_cancelled ?R) bob_archive ?archive ''bob'' = Inr ()" by code_simp
  have fields: "rb_archive ?R p e = bob_archive" "rb_wrote ?R spec st = (rs_target spec @ ''/cpmove-bob.tar'', FFile 9 5) # fst st"
    "ag_os ?R = example_os\<lparr>os_statfs := \<lambda>_ _. Inr (2 ^ 30, 4)\<rparr>" for p e spec st
    by (simp_all add: collecting_server_def example_restorer_def rebuilder.defs example_rebuilder_def agent.defs example_agent_def split: prod.splits)
  obtain w1 where found: "find_snapshot ?R q (d, w) = (Inr sized_snapshot, (d, w1))" using sized_found [of q d w] assms by auto
  from eval(8) obtain args where "restore_args ?spec = Inr args"
    by (cases "validate_snapshot_id (sn_id sized_snapshot)") (auto simp: restore_args_def part_spec_def Let_def)
  from collected [OF assms(1) this, of d w1] obtain r d2 w2 where
    "restic_restore ?R repo ?spec (d, w1) = (Inr r, (d2, w2))" by blast
  moreover from this have "d2 = ?d"
    by (auto simp: restic_restore_def fields part_spec_def split: prod.splits)
  ultimately have restored: "restic_restore ?R repo ?spec (d, w1) = (Inr r, (?d, w2))" by simp
  have disk: "fs_stat (ag_os ?R) ?archive ?d = (Inr (Some (FFile 9 5)), ?d)"
    by (simp add: fields fs_stat_def guarded_def example_os_def)
  have valid: "validate_file ?R ?archive ''bob'' ?d = (Inr (), ?d)" using whole by (simp add: validate_file_def fields)
  have archive: "sp_archive ?found = ''/stage/stage-bob/cpmove-bob.tar''" by simp
  have "\<exists>b. restore_monolithic ?R q sized_snapshot ?found (d, w1) = (Inr b, (?d, w2)) \<and> rb_mode b = mode_monolithic"
    using restored disk valid
    by (simp add: restore_monolithic_def Let_def restore_part_def prog_bind_def fs_wrap_def on_disk_def assms archive eval)
  moreover have "rq_account q \<noteq> []" "rq_work_dir q \<noteq> []" using assms by simp_all
  ultimately show ?thesis
    using found eval(1, 2, 7) by (fastforce simp: rebuild_def prog_bind_def rebuilt_complete_def)
qed

lemma apply_request_runs:
  "rt_status (fst (run_restore collecting_server apply_request ([], example_world))) = StatusSuccess"
proof -
  let ?R = collecting_server and ?a = apply_request
  have fields: "ra_source ?a = ra_source files_request" "ra_kind ?a = kind_account" "ra_apply ?a" "ra_cpanel_user ?a = ''bob''"
    by (simp_all add: apply_request_def files_request_def shop_request_def)
  obtain repo where repo: "restore_source ?R ?a = Inr repo" and plain: "plain_handle repo"
    using files_source by (auto simp: restore_source_def fields)
  obtain w1 where prep: "prepare_restore ?R ?a repo ([], example_world) = (Inr stage_of_r1, ([(''/stage/stage-restore-bob@r1'', FDir 5)], w1))"
    using restore_prepared [OF plain, of ?a example_world]
    by (auto simp: apply_request_def shop_request_def kind_account_def kind_items_def)
  obtain b d2 w2 where made: "rebuild ?R (account_rebuild ?R ?a repo (sd_path stage_of_r1)) ([(''/stage/stage-restore-bob@r1'', FDir 5)], w1) = (Inr b, (d2, w2))"
    "rebuilt_complete b" "rb_mode b = mode_monolithic"
    using apply_rebuilds [OF plain, of "account_rebuild ?R ?a repo (sd_path stage_of_r1)" "[(''/stage/stage-restore-bob@r1'', FDir 5)]" w1]
    by (auto simp: account_rebuild_def apply_request_def shop_request_def stage_of_r1_def)
  have panel: "pv_account ?R u = prog_return bob_account" "pv_apply ?R f opts = prog_return []" for u f opts
    by (simp_all add: collecting_server_def example_restorer_def rebuilder.defs)
  have "apply_account ?R ?a b (d2, w2) = (Inr b, (d2, w2))"
    using made(2, 3)
    by (simp add: apply_account_def panel attempt_def confirm_restored_def prog_bind_def fs_wrap_def on_disk_def rebuilt_databases_def
        missing_databases_def prog_return_def)
  with made(1) have "deliver ?R ?a repo stage_of_r1 (fresh_restore_report ?a) ([(''/stage/stage-restore-bob@r1'', FDir 5)], w1) =
      (Inr (account_report ?a b (fresh_restore_report ?a), False), (d2, w2))"
    by (simp add: deliver_def fields kind_account_def kind_files_def kind_items_def deliver_account_def restore_account_def prog_bind_def)
  with repo prep show ?thesis by (simp add: run_restore_def finish_restore_def account_report_def)
qed


end
