(* ===== verification/Spec2Isabelle.thy ===== *)
theory Spec2Isabelle
  imports Jobs Restic_Output Space Baskets Legacy_Paths Node_Retention Node_Removal Payload Tar_Archive Node_Run Node_Recovery Node_Restart Inventory Agent_Restore
begin

text \<open>
  Gniza backs up cPanel accounts with restic. On a standalone server one engine (\<open>internal/node\<close>)
  keeps its records in a document store (\<open>internal/nodestore\<close>), stages account archives in a
  scratch directory (\<open>internal/staging\<close>), turns an operator's destination into a restic
  repository address (\<open>internal/destination\<close>), runs restic as a child process
  (\<open>internal/resticrun\<close>), rolls the outcome per repository up into a job status (\<open>internal/job\<close>)
  and deletes old snapshots only under a keep policy an operator has approved
  (\<open>internal/node/retention.go\<close>). The theories follow these parts from the leaves up.

  \<^bold>\<open>Conventions.\<close> A Go string is a list of bytes (\<open>string\<close>), a \<open>uint64\<close> a \<open>64 word\<close> where
  it can wrap, a \<open>time.Duration\<close> an integer taken modulo \<open>2 ^ 64\<close> where the code multiplies, an
  error a value of \<open>err\<close> and a fallible function a sum whose left side is the error. Go maps are
  association lists: the order of the list stands for one order of iteration, which Go leaves
  open. Stateful code passes its state explicitly: \<open>Go_Prelude\<close> has the state and error monad
  the store, the runner and the engine are written in. The texts of errors carry their
  constant part and arguments, not the formatted sentence.

  \<^bold>\<open>Theories.\<close>
  \<^item> \<open>Go_Prelude\<close>, \<open>Go_Library\<close>: results, the monad, and the parts of Go's \<open>strings\<close>,
    \<open>strconv\<close>, \<open>path\<close> and \<open>sort\<close> the program uses; \<open>strict_weak\<close> is the contract of a comparison
    function, interpreted on every comparison the program sorts with.
  \<^item> \<open>Jobs\<close> (\<open>internal/job/job.go\<close>): target and job statuses, \<open>Rollup\<close>.
  \<^item> \<open>Restic_Args\<close> (\<open>args.go\<close>, parts of \<open>restore.go\<close>, \<open>runner.go\<close>): argument lists and what they
    refuse. \<open>Restic_Output\<close> (\<open>command.go\<close>, \<open>summary.go\<close>): the capped capture, the line splitter,
    the exit codes.
  \<^item> \<open>Restic_Runner\<close>, \<open>Restic_Client\<close> (\<open>runner.go\<close>, \<open>completion.go\<close>, \<open>restore.go\<close>, \<open>size.go\<close>): one
    restic process with its temporary files, and the commands built from it with the completion
    receipts. \<open>Retention_Plan\<close> (\<open>forget.go\<close>): planned deletion. The state is a \<open>world\<close>: the
    temporary directories and the log of the commands run.
  \<^item> \<open>Destinations\<close>, \<open>Space\<close>, \<open>Target_Parse\<close>, \<open>Spec_Build\<close> (\<open>internal/destination\<close>): the four
    backends, the free space commands, one-line targets, stored specifications.
  \<^item> \<open>Node_Types\<close>, \<open>Node_Store\<close>, \<open>Node_Queries\<close>, \<open>Node_Facts\<close>, \<open>Baskets\<close>, \<open>Legacy_Paths\<close>
    (\<open>internal/nodestore\<close>): the records, the buckets over a database, every operation, and the
    lemmas about them. \<open>bolt_store\<close> is the contract of the database.
  \<^item> \<open>Node_Engine\<close>, \<open>Node_Retention\<close> (\<open>node.go\<close>, \<open>secrets.go\<close>, \<open>retention.go\<close>): opening a
    repository, the merged keep policy, planning, approval and the sweep. The state is the store
    and the world of restic together.
  \<^item> \<open>Staging\<close> (\<open>internal/staging/staging.go\<close>): the allocator over an explicit file tree; the
    histories of the directory are an inductive step relation.
  \<^item> \<open>Policy_Cover\<close>, \<open>Node_Removal\<close> (\<open>removal.go\<close>): the exact cover of missing copies by schedules,
    and when an account may be removed.
  \<^item> \<open>Hook_Spool\<close> (\<open>internal/hookspool\<close>), \<open>Node_Identity\<close>, \<open>Node_Lifecycle\<close> (\<open>identity.go\<close>): the events
    the panel's hooks leave behind, who holds an account name, and which backups its holder may see.
    \<open>Node_Queue\<close> (\<open>run.go\<close>, \<open>identity.go\<close>): what may be put into the queue.
  \<^item> \<open>Payload\<close> (\<open>internal/pkgacct\<close>), \<open>Granular\<close> (\<open>internal/granular\<close>), \<open>Tar_Archive\<close>
    (\<open>internal/reassemble/account.go\<close>, \<open>tar.go\<close>): what is staged of an account, what a restore of parts
    asks for, and reading and writing account archives.
  \<^item> \<open>Notices\<close> (\<open>internal/notify\<close>, \<open>notify.go\<close>), \<open>Node_Schedule\<close> (\<open>run.go\<close>): who is told what, when a
    schedule runs, and the watches for stuck and overdue work.
  \<^item> \<open>Agent_Job\<close> (\<open>internal/agent/agent.go\<close>), \<open>Engine_Frames\<close>, \<open>Node_Run\<close> (\<open>run.go\<close>, \<open>node.go\<close>): the worker
    that stages an account and uploads it to every repository, what each engine operation leaves
    alone, and a backup from the queue to its record.
  \<^item> \<open>Node_Recovery\<close> (\<open>recover.go\<close>, \<open>forget_account.go\<close>), \<open>Node_Restart\<close> (\<open>node.go\<close>): finding the backups
    of a lost server, forgetting customers who left, and what a restart closes and cleans up.
  \<^item> \<open>Inventory\<close> (\<open>internal/inventory\<close>), \<open>Database_Users\<close> (\<open>registry.go\<close>, \<open>putback.go\<close>,
    \<open>database_sandbox.go\<close> of \<open>internal/cpanel\<close>): what a backup holds, and how databases and their
    users come back onto the server. The state is the list of child processes started so far.
  \<^item> \<open>Reassemble\<close> (\<open>reassemble.go\<close>, \<open>verify.go\<close>, \<open>space.go\<close>), \<open>Put_Back\<close> (\<open>internal/agent/items.go\<close>),
    \<open>Agent_Restore\<close> (\<open>internal/agent/restore.go\<close>): an account put together from a snapshot, its
    rehearsal, parts written into the live account, and the whole restore with its report. The state
    is the disk and the world of restic.

  \<^bold>\<open>Interfaces.\<close> \<open>strict_weak\<close> (a comparison function, interpreted on every order the program sorts by),
  \<open>bolt_store\<close> (the database, interpreted on \<open>mem_bolt\<close>) and \<open>frame\<close> (a relation between the state
  before and after that composes, interpreted on each of the relations of \<open>Engine_Frames\<close>) carry the
  lemmas the components share.

  \<^bold>\<open>What the lemmas show.\<close> Argument lists, remote commands and SQL statements cannot be taken over by
  their inputs; a backup is reported complete only with a receipt and is on record in a terminal
  state whatever fails; nothing is deleted that was not planned, counted and approved; a status is a
  success only when every target is; an archive or a snapshot of another account, or from before its
  name changed hands, is neither shown nor restored; unpacking and staging stay in their directories;
  a restore that is to leave a copy touches no account, one that is applied is checked before anything
  is written, says what it wrote and is looked for afterwards; schedules, hook events and notices are
  neither lost nor repeated, save where a theorem says how they are.

  \<^bold>\<open>Parameters.\<close> bbolt (\<open>bolt\<close> with the laws of \<open>bolt_store\<close>, interpreted on an in-memory
  database), the operating system's process and file calls with the faults they may report
  (\<open>sys\<close>, \<open>os_api\<close>; \<open>fresh_temp_dirs\<close> says a new temporary directory did not exist before), the
  JSON decoder (\<open>json_codec\<close>; \<open>codec_ok\<close> says that encoding and decoding one receipt agree), the
  sealing library, the parser of network addresses. Properties that need such a law name it as
  a hypothesis and have a witness with a concrete instance.

  The cPanel side of a restore (the fields \<open>pv_...\<close> of \<open>restorer\<close>), the tools of the panel (\<open>panel\<close>), the
  tar reader (\<open>archive\<close>) and what restic writes to the disk (\<open>rb_wrote\<close>) are parameters of the same kind.

  \<^bold>\<open>Fuel.\<close> \<open>follow_chain\<close>, which walks the chunker sources of repositories, is bounded by the
  number of repositories as the code's loop is. No other definition needs fuel: every other loop is
  structural recursion or has its measure.

  \<^bold>\<open>Not modelled.\<close> Concurrency within one operation (the staging mutex makes its operations
  atomic), log lines, progress callbacks, floating-point formatting for display. The web interface
  (\<open>internal/webui\<close>) is request handling and HTML over the operations modelled here. The
  multi-server controller (\<open>internal/controller\<close>, \<open>internal/store\<close>, \<open>internal/maintenance\<close>) is what its
  SQL statements do in PostgreSQL. Update, installation, keys, certificates and bug reports
  (\<open>internal/update\<close>, \<open>sshkeys\<close>, \<open>certs\<close>, \<open>vault\<close>, \<open>bugreport\<close>) are calls of cryptographic libraries, the
  network and the file system, as are the network probes of the destinations and the calls of
  cPanel's command line that package and restore a whole account.
\<close>

end
